(* ===== verification/Prelude.thy ===== *)
theory Prelude
  imports Main "HOL-Library.Word"
begin

text \<open>
  Shared vocabulary of the development: the machine integer types of the C++ sources, the
  two outcomes of a fallible call, bounded arrays as lists with a capacity, and the generic
  list, option and word lemmas the component theories rest on. The collections
  \<open>inv_intros\<close> and \<open>step_simps\<close> gather, component by component, the introduction rules
  of invariants and the defining equations of operations.
\<close>

unbundle bit_operations_syntax

section \<open>Machine integers\<close>

type_synonym u8 = "8 word"
type_synonym u16 = "16 word"
type_synonym u32 = "32 word"
type_synonym u64 = "64 word"

named_theorems step_simps \<open>defining equations of the components' operations\<close>
named_theorems inv_intros \<open>rules that establish the components' invariants\<close>

lemma unat_u8_lt [simp]: "unat (x :: u8) < 256"
  using unsigned_less [of x] by simp

lemma unat_u16_lt [simp]: "unat (x :: u16) < 65536"
  using unsigned_less [of x] by simp

lemma unat_u32_lt [simp]: "unat (x :: u32) < 4294967296"
  using unsigned_less [of x] by simp

lemma unat_u64_lt [simp]: "unat (x :: u64) < 18446744073709551616"
  using unsigned_less [of x] by simp

lemma unat_of_nat_u8: "unat (of_nat n :: u8) = n mod 256"
  by (simp add: unat_of_nat)

lemma unat_of_nat_u16: "unat (of_nat n :: u16) = n mod 65536"
  by (simp add: unat_of_nat)

lemma unat_of_nat_u32: "unat (of_nat n :: u32) = n mod 4294967296"
  by (simp add: unat_of_nat)

lemma unat_of_nat_u64: "unat (of_nat n :: u64) = n mod 18446744073709551616"
  by (simp add: unat_of_nat)

lemmas unat_of_nat_word = unat_of_nat_u8 unat_of_nat_u16 unat_of_nat_u32 unat_of_nat_u64

section \<open>Options\<close>

text \<open>C++ \<open>std::optional::value_or\<close>.\<close>

definition value_or :: "'a option \<Rightarrow> 'a \<Rightarrow> 'a" where
  "value_or o' d = (case o' of None \<Rightarrow> d | Some x \<Rightarrow> x)"

lemma value_or_simps [simp]:
  "value_or None d = d"
  "value_or (Some x) d = x"
  by (simp_all add: value_or_def)

section \<open>Linear searches\<close>

text \<open>
  The sources search fixed arrays front to back and stop at the first match; the model uses
  \<open>List.find\<close> for the element and \<open>find_index\<close> for its position.
\<close>

fun find_index :: "('a \<Rightarrow> bool) \<Rightarrow> 'a list \<Rightarrow> nat option" where
  "find_index P [] = None"
| "find_index P (x # xs) = (if P x then Some 0 else map_option Suc (find_index P xs))"

lemma find_index_Some:
  "find_index P xs = Some i \<Longrightarrow> i < length xs \<and> P (xs ! i) \<and> (\<forall>j < i. \<not> P (xs ! j))"
proof (induction xs arbitrary: i)
  case Nil
  then show ?case by simp
next
  case (Cons x xs)
  show ?case
  proof (cases "P x")
    case True
    with Cons.prems show ?thesis by simp
  next
    case False
    with Cons.prems obtain k where k: "find_index P xs = Some k" "i = Suc k" by auto
    from Cons.IH [OF k(1)] k(2) False show ?thesis
      by (auto simp: nth_Cons split: nat.splits)
  qed
qed

lemma find_index_None: "find_index P xs = None \<longleftrightarrow> (\<forall>x \<in> set xs. \<not> P x)"
  by (induction xs) auto

lemma find_index_lt: "find_index P xs = Some i \<Longrightarrow> i < length xs"
  by (simp add: find_index_Some)

lemma find_Some_mem: "List.find P xs = Some x \<Longrightarrow> x \<in> set xs \<and> P x"
  by (auto simp: find_Some_iff)

lemma find_map_of_index:
  "List.find P xs = map_option (nth xs) (find_index P xs)"
  by (induction xs) (auto simp: option.map_comp comp_def)

section \<open>Lists updated by position\<close>

lemma length_foldl_update:
  "length (foldl (\<lambda>b (i, x). b[i := x]) bs ps) = length bs"
  by (induction ps arbitrary: bs) (auto simp: split_beta)

lemma distinct_snoc_map [simp]:
  "distinct (map f (xs @ [x])) \<longleftrightarrow> distinct (map f xs) \<and> f x \<notin> f ` set xs"
  by auto

lemma nth_update_any: "j < length xs \<Longrightarrow> xs[i := x] ! j = (if i = j then x else xs ! j)"
  by (simp add: nth_list_update)

lemma take_drop_nth_split:
  "i < length xs \<Longrightarrow> xs = take i xs @ xs ! i # drop (Suc i) xs"
  by (simp add: id_take_nth_drop)

end
