(* ===== verification/Float32.thy ===== *)
theory Float32
  imports Prelude
begin

text \<open>
  The C++ \<open>float\<close> of the sources: an IEEE-754 binary32 value (the code asserts
  \<open>is_iec559\<close>), kept as its 32-bit pattern. Every finite value is an integer multiple of
  \<open>2 ^ -149\<close>, so the value of a pattern is the integer number of those units, comparisons
  are integer comparisons, and an arithmetic operation is the exact integer result rounded to
  nearest, ties to even. Everything computes on numerals.
\<close>

section \<open>Patterns and their values\<close>

type_synonym f32 = "32 word"

definition f32_neg_bit :: "f32 \<Rightarrow> bool" where
  "f32_neg_bit x = (2147483648 \<le> x)"

definition f32_mag :: "f32 \<Rightarrow> nat" where
  "f32_mag x = unat x mod 2147483648"

definition f32_inf_mag :: nat where
  "f32_inf_mag = 2139095040"

definition f32_is_nan :: "f32 \<Rightarrow> bool" where
  "f32_is_nan x = (f32_inf_mag < f32_mag x)"

definition f32_isfinite :: "f32 \<Rightarrow> bool" where
  "f32_isfinite x = (f32_mag x < f32_inf_mag)"

text \<open>Units of \<open>2 ^ -149\<close> in the magnitude bits \<open>m\<close> (exponent field \<open>m div 2 ^ 23\<close>).\<close>

definition mag_units :: "nat \<Rightarrow> nat" where
  "mag_units m = (let e = m div 8388608; f = m mod 8388608
     in if e = 0 then f else (8388608 + f) * 2 ^ (e - 1))"

definition f32_units :: "f32 \<Rightarrow> int" where
  "f32_units x = (if f32_neg_bit x then - int (mag_units (f32_mag x)) else int (mag_units (f32_mag x)))"

definition f32_make :: "bool \<Rightarrow> nat \<Rightarrow> f32" where
  "f32_make s m = of_nat (m + (if s then 2147483648 else 0))"

definition f32_nan :: f32 where
  "f32_nan = 2143289344"

section \<open>Comparisons\<close>

definition f32_eq :: "f32 \<Rightarrow> f32 \<Rightarrow> bool" where
  "f32_eq x y = (\<not> f32_is_nan x \<and> \<not> f32_is_nan y \<and> f32_units x = f32_units y)"

definition f32_lt :: "f32 \<Rightarrow> f32 \<Rightarrow> bool" where
  "f32_lt x y = (\<not> f32_is_nan x \<and> \<not> f32_is_nan y \<and> f32_units x < f32_units y)"

definition f32_le :: "f32 \<Rightarrow> f32 \<Rightarrow> bool" where
  "f32_le x y = (\<not> f32_is_nan x \<and> \<not> f32_is_nan y \<and> f32_units x \<le> f32_units y)"

section \<open>Rounding\<close>

fun blen :: "nat \<Rightarrow> nat" where
  "blen n = (if n = 0 then 0 else Suc (blen (n div 2)))"

declare blen.simps [simp del]

text \<open>The nearest integer to \<open>n / d\<close>, ties to even.\<close>

definition half_even :: "nat \<Rightarrow> nat \<Rightarrow> nat" where
  "half_even n d = (let q = n div d; r = n mod d
     in if d < 2 * r \<or> (2 * r = d \<and> odd q) then q + 1 else q)"

text \<open>
  Magnitude bits of \<open>n / d\<close> units: the significand keeps 24 bits, so \<open>shift\<close> low bits are
  rounded away; the carry of a significand that rounds up to \<open>2 ^ 24\<close> moves to the next
  exponent by itself, and what passes the largest finite value is infinity.
\<close>

definition round_shift :: "nat \<Rightarrow> nat" where
  "round_shift q = blen q - 24"

definition round_mag :: "nat \<Rightarrow> nat \<Rightarrow> nat" where
  "round_mag n d = (let s = round_shift (n div d)
     in min f32_inf_mag (s * 8388608 + half_even n (d * 2 ^ s)))"

section \<open>Arithmetic\<close>

definition f32_neg :: "f32 \<Rightarrow> f32" where
  "f32_neg x = f32_make (\<not> f32_neg_bit x) (f32_mag x)"

definition f32_add :: "f32 \<Rightarrow> f32 \<Rightarrow> f32" where
  "f32_add x y =
     (if f32_is_nan x \<or> f32_is_nan y then f32_nan
      else if \<not> f32_isfinite x \<and> \<not> f32_isfinite y
        then (if f32_neg_bit x = f32_neg_bit y then x else f32_nan)
      else if \<not> f32_isfinite x then x
      else if \<not> f32_isfinite y then y
      else let s = f32_units x + f32_units y
        in if s = 0 then f32_make (f32_neg_bit x \<and> f32_neg_bit y) 0
           else f32_make (s < 0) (round_mag (nat \<bar>s\<bar>) 1))"

definition f32_sub :: "f32 \<Rightarrow> f32 \<Rightarrow> f32" where
  "f32_sub x y = f32_add x (f32_neg y)"

definition f32_mul :: "f32 \<Rightarrow> f32 \<Rightarrow> f32" where
  "f32_mul x y = (let s = (f32_neg_bit x \<noteq> f32_neg_bit y)
     in if f32_is_nan x \<or> f32_is_nan y then f32_nan
        else if \<not> f32_isfinite x \<or> \<not> f32_isfinite y
          then (if f32_mag x = 0 \<or> f32_mag y = 0 then f32_nan else f32_make s f32_inf_mag)
        else f32_make s (round_mag (mag_units (f32_mag x) * mag_units (f32_mag y)) (2 ^ 149)))"

definition f32_div :: "f32 \<Rightarrow> f32 \<Rightarrow> f32" where
  "f32_div x y = (let s = (f32_neg_bit x \<noteq> f32_neg_bit y)
     in if f32_is_nan x \<or> f32_is_nan y then f32_nan
        else if \<not> f32_isfinite x
          then (if \<not> f32_isfinite y then f32_nan else f32_make s f32_inf_mag)
        else if \<not> f32_isfinite y then f32_make s 0
        else if f32_mag y = 0
          then (if f32_mag x = 0 then f32_nan else f32_make s f32_inf_mag)
        else f32_make s (round_mag (mag_units (f32_mag x) * 2 ^ 149) (mag_units (f32_mag y))))"

section \<open>Facts about patterns\<close>

lemma f32_make_unat: "m < 2147483648 \<Longrightarrow> unat (f32_make s m) = m + (if s then 2147483648 else 0)"
  by (simp add: f32_make_def unat_of_nat_u32 del: of_nat_add)

lemma f32_neg_bit_unat: "f32_neg_bit x \<longleftrightarrow> 2147483648 \<le> unat x"
  by (simp add: f32_neg_bit_def word_le_nat_alt)

lemma f32_mag_make [simp]: "m < 2147483648 \<Longrightarrow> f32_mag (f32_make s m) = m"
  by (simp add: f32_mag_def f32_make_unat)

lemma f32_neg_bit_make [simp]: "m < 2147483648 \<Longrightarrow> f32_neg_bit (f32_make s m) = s"
  by (simp add: f32_neg_bit_unat f32_make_unat)

lemma f32_mag_lt [simp]: "f32_mag x < 2147483648"
  by (simp add: f32_mag_def)

lemma f32_make_eta: "f32_make (f32_neg_bit x) (f32_mag x) = x"
proof -
  have "unat x div 2147483648 < 2"
    using unat_u32_lt [of x] by (simp add: div_less_iff_less_mult)
  moreover have "unat x div 2147483648 = 0 \<longleftrightarrow> unat x < 2147483648" by auto
  ultimately have "unat x div 2147483648 = (if f32_neg_bit x then 1 else 0)"
    by (auto simp: f32_neg_bit_unat)
  then have "f32_mag x + (if f32_neg_bit x then 2147483648 else 0) = unat x"
    using mult_div_mod_eq [of 2147483648 "unat x"] unfolding f32_mag_def by (auto split: if_splits)
  then show ?thesis by (simp add: f32_make_def)
qed

lemma f32_units_make [simp]:
  "m < 2147483648 \<Longrightarrow>
     f32_units (f32_make s m) = (if s then - int (mag_units m) else int (mag_units m))"
  by (simp add: f32_units_def)

lemma f32_isfinite_not_nan: "f32_isfinite x \<Longrightarrow> \<not> f32_is_nan x"
  by (simp add: f32_isfinite_def f32_is_nan_def)

lemma f32_mag_neg [simp]: "f32_mag (f32_neg x) = f32_mag x"
  by (simp add: f32_neg_def)

lemma f32_neg_bit_neg [simp]: "f32_neg_bit (f32_neg x) = (\<not> f32_neg_bit x)"
  by (simp add: f32_neg_def)

lemma f32_units_neg [simp]: "f32_units (f32_neg x) = - f32_units x"
  by (simp add: f32_units_def)

lemma f32_isfinite_neg [simp]: "f32_isfinite (f32_neg x) = f32_isfinite x"
  by (simp add: f32_isfinite_def)

lemma f32_is_nan_neg [simp]: "f32_is_nan (f32_neg x) = f32_is_nan x"
  by (simp add: f32_is_nan_def)

section \<open>The unit count of magnitude bits grows strictly\<close>

lemma mag_units_split:
  "f < 8388608 \<Longrightarrow>
     mag_units (e * 8388608 + f) = (if e = 0 then f else (8388608 + f) * 2 ^ (e - 1))"
  by (simp add: mag_units_def Let_def)

lemma mag_units_Suc: "mag_units m < mag_units (Suc m)"
proof -
  define e f where "e = m div 8388608" and "f = m mod 8388608"
  have m: "m = e * 8388608 + f" and f: "f < 8388608"
    by (simp_all add: e_def f_def)
  show ?thesis
  proof (cases "Suc f < 8388608")
    case True
    have "Suc m = e * 8388608 + Suc f" by (simp add: m)
    then show ?thesis
      using True mag_units_split [OF f, of e] mag_units_split [OF True, of e]
      by (simp add: m)
  next
    case False
    with f have ff: "f = 8388607" by simp
    have "Suc m = Suc e * 8388608 + 0" by (simp add: m ff)
    then have "mag_units (Suc m) = 8388608 * 2 ^ e"
      using mag_units_split [of 0 "Suc e"] by simp
    moreover have "mag_units m = (if e = 0 then 8388607 else 16777215 * 2 ^ (e - 1))"
      using mag_units_split [OF f, of e] by (simp add: m ff)
    ultimately show ?thesis
      by (cases e) auto
  qed
qed

lemma mag_units_strict_mono: "strict_mono mag_units"
  by (simp add: strict_mono_Suc_iff mag_units_Suc)

lemma mag_units_less_iff [simp]: "mag_units a < mag_units b \<longleftrightarrow> a < b"
  by (rule strict_mono_less [OF mag_units_strict_mono])

lemma mag_units_le_iff [simp]: "mag_units a \<le> mag_units b \<longleftrightarrow> a \<le> b"
  by (rule strict_mono_less_eq [OF mag_units_strict_mono])

lemma mag_units_eq_iff [simp]: "mag_units a = mag_units b \<longleftrightarrow> a = b"
  by (rule strict_mono_eq [OF mag_units_strict_mono])

lemma mag_units_0 [simp]: "mag_units 0 = 0"
  by (simp add: mag_units_def)

lemma mag_units_eq_0 [simp]: "mag_units m = 0 \<longleftrightarrow> m = 0"
  using mag_units_eq_iff [of m 0] by simp

lemma mag_units_pos [simp]: "0 < mag_units m \<longleftrightarrow> 0 < m"
  using mag_units_less_iff [of 0 m] by simp

lemma sgn_f32_units: "f32_mag x \<noteq> 0 \<Longrightarrow> sgn (f32_units x) = (if f32_neg_bit x then - 1 else 1)"
  by (simp add: f32_units_def)

section \<open>Rounding is monotone and exact on representable values\<close>

lemma blen_0 [simp]: "blen 0 = 0"
  by (simp add: blen.simps)

lemma blen_pos: "0 < n \<Longrightarrow> blen n = Suc (blen (n div 2))"
  by (subst blen.simps) simp

lemma blen_upper: "n < 2 ^ blen n"
proof (induction n rule: blen.induct)
  case (1 n)
  show ?case
  proof (cases "n = 0")
    case False
    with 1 have "n div 2 < 2 ^ blen (n div 2)" by simp
    with False show ?thesis by (simp add: blen_pos)
  qed simp
qed

lemma blen_lower: "0 < n \<Longrightarrow> 2 ^ (blen n - 1) \<le> n"
proof (induction n rule: blen.induct)
  case (1 n)
  show ?case
  proof (cases "n div 2 = 0")
    case True
    with 1 show ?thesis by (simp add: blen_pos)
  next
    case False
    with 1 have "2 ^ (blen (n div 2) - 1) \<le> n div 2" by simp
    moreover from False have "0 < blen (n div 2)" by (subst blen.simps) simp
    ultimately show ?thesis
      using 1(2) by (cases "blen (n div 2)") (auto simp: blen_pos)
  qed
qed

lemma blen_le_iff: "blen n \<le> k \<longleftrightarrow> n < 2 ^ k"
proof (cases "n = 0")
  case False
  show ?thesis
  proof
    assume "blen n \<le> k"
    then have "(2::nat) ^ blen n \<le> 2 ^ k" by simp
    with blen_upper [of n] show "n < 2 ^ k" by linarith
  next
    assume "n < 2 ^ k"
    with blen_lower [of n] False have "(2::nat) ^ (blen n - 1) < 2 ^ k" by linarith
    then show "blen n \<le> k" by simp
  qed
qed simp

lemma blen_mono: "m \<le> n \<Longrightarrow> blen m \<le> blen n"
  using blen_upper [of n] by (simp add: blen_le_iff)

lemma blen_unique: "2 ^ p \<le> n \<Longrightarrow> n < 2 ^ Suc p \<Longrightarrow> blen n = Suc p"
  by (metis blen_le_iff le_antisym not_less_eq_eq not_le)

lemma half_even_bounds: "n div d \<le> half_even n d \<and> half_even n d \<le> n div d + 1"
  by (simp add: half_even_def Let_def)

lemma half_even_exact: "0 < d \<Longrightarrow> half_even (k * d) d = k"
  by (simp add: half_even_def)

lemma cross_div_le:
  fixes n d n' d' :: nat
  assumes "n * d' \<le> n' * d" and "0 < d" and "0 < d'"
  shows "n div d \<le> n' div d'"
proof -
  have "(n div d) * d' * d \<le> n * d'" by (simp add: algebra_simps div_times_less_eq_dividend)
  with assms have "(n div d) * d' \<le> n'" by (meson le_trans mult_le_cancel2)
  with assms(3) show ?thesis by (simp add: less_eq_div_iff_mult_less_eq)
qed

lemma half_even_mono:
  fixes n d n' d' :: nat
  assumes le: "n * d' \<le> n' * d" and d: "0 < d" "0 < d'"
  shows "half_even n d \<le> half_even n' d'"
proof (cases "n div d < n' div d'")
  case True
  then show ?thesis
    using half_even_bounds [of n d] half_even_bounds [of n' d'] by linarith
next
  case False
  with cross_div_le [OF le d] have q: "n div d = n' div d'" by simp
  define q r r' where "q = n div d" and "r = n mod d" and "r' = n' mod d'"
  have n: "n = q * d + r" "n' = q * d' + r'"
    by (simp_all add: q_def r_def r'_def q, simp add: q [symmetric])
  from le have rr: "r * d' \<le> r' * d" by (simp add: n algebra_simps)
  have "d < 2 * r \<Longrightarrow> d' < 2 * r'"
  proof -
    assume "d < 2 * r"
    then have "d * d' < 2 * r * d'" using d by simp
    also have "2 * r * d' \<le> 2 * r' * d" using rr by simp
    finally show "d' < 2 * r'" by (simp add: mult.commute)
  qed
  moreover have "2 * r = d \<Longrightarrow> d' \<le> 2 * r'"
  proof -
    assume "2 * r = d"
    then have "d * d' = 2 * r * d'" by simp
    also have "2 * r * d' \<le> 2 * r' * d" using rr by simp
    finally show "d' \<le> 2 * r'" using d by (simp add: mult.commute)
  qed
  ultimately show ?thesis
    unfolding half_even_def Let_def q_def [symmetric] r_def [symmetric] r'_def [symmetric]
      q [symmetric] by auto
qed

lemma round_shift_upper: "q < 2 ^ (24 + round_shift q)"
proof -
  have "blen q \<le> 24 + round_shift q" by (simp add: round_shift_def)
  then show ?thesis by (simp only: blen_le_iff)
qed

lemma round_shift_lower: "0 < round_shift q \<Longrightarrow> 2 ^ (23 + round_shift q) \<le> q"
proof -
  assume s: "0 < round_shift q"
  then have "blen q - 1 = 23 + round_shift q" by (simp add: round_shift_def)
  moreover from s have "0 < q" by (cases q) (auto simp: round_shift_def)
  ultimately show ?thesis using blen_lower [of q] by simp
qed

lemma round_mag_mono:
  fixes n d n' d' :: nat
  assumes le: "n * d' \<le> n' * d" and d: "0 < d" "0 < d'"
  shows "round_mag n d \<le> round_mag n' d'"
proof -
  define s s' where "s = round_shift (n div d)" and "s' = round_shift (n' div d')"
  have ss: "s \<le> s'"
    unfolding s_def s'_def round_shift_def
    using blen_mono [OF cross_div_le [OF le d]] by (rule diff_le_mono)
  have "s * 8388608 + half_even n (d * 2 ^ s) \<le> s' * 8388608 + half_even n' (d' * 2 ^ s')"
  proof (cases "s = s'")
    case True
    have "n * (d' * 2 ^ s) \<le> n' * (d * 2 ^ s)"
      using le by (simp add: mult.assoc [symmetric])
    then have "half_even n (d * 2 ^ s) \<le> half_even n' (d' * 2 ^ s)"
      by (rule half_even_mono) (use d in simp_all)
    with True show ?thesis by simp
  next
    case False
    with ss have lt: "s < s'" by simp
    have "n div d < 2 ^ 24 * 2 ^ s"
      using round_shift_upper [of "n div d"] by (simp add: s_def power_add)
    then have "n div d div 2 ^ s < 2 ^ 24" by (simp add: div_less_iff_less_mult)
    then have a: "half_even n (d * 2 ^ s) \<le> 16777216"
      using half_even_bounds [of n "d * 2 ^ s"] by (simp add: div_mult2_eq)
    have "2 ^ 23 * 2 ^ s' \<le> n' div d'"
      using round_shift_lower [of "n' div d'"] lt by (simp add: s'_def power_add)
    then have "2 ^ 23 \<le> n' div d' div 2 ^ s'" by (simp add: less_eq_div_iff_mult_less_eq)
    then have b: "8388608 \<le> half_even n' (d' * 2 ^ s')"
      using half_even_bounds [of n' "d' * 2 ^ s'"] by (simp add: div_mult2_eq)
    from lt have "Suc s * 8388608 \<le> s' * 8388608" by (intro mult_le_mono1) simp
    with a b show ?thesis by simp
  qed
  then show ?thesis
    unfolding round_mag_def Let_def s_def [symmetric] s'_def [symmetric] by simp
qed

lemma round_mag_exact:
  assumes "k \<le> f32_inf_mag"
  shows "round_mag (mag_units k) 1 = k"
proof -
  define e f where "e = k div 8388608" and "f = k mod 8388608"
  have k: "k = e * 8388608 + f" and f: "f < 8388608"
    by (simp_all add: e_def f_def)
  show ?thesis
  proof (cases e)
    case 0
    have "blen f \<le> 24" unfolding blen_le_iff using f by simp
    then show ?thesis
      using assms half_even_exact [of 1 f] mag_units_split [OF f, of 0] f
      by (simp add: round_mag_def Let_def round_shift_def k 0)
  next
    case (Suc j)
    have u: "mag_units k = (8388608 + f) * 2 ^ j"
      using mag_units_split [OF f, of e] by (simp add: k Suc)
    have "blen ((8388608 + f) * 2 ^ j) = Suc (23 + j)"
    proof (rule blen_unique)
      show "2 ^ (23 + j) \<le> (8388608 + f) * 2 ^ j" by (simp add: power_add)
      show "(8388608 + f) * 2 ^ j < 2 ^ Suc (23 + j)" using f by (simp add: power_add)
    qed
    then have "round_shift ((8388608 + f) * 2 ^ j) = j" by (simp add: round_shift_def)
    moreover have "half_even ((8388608 + f) * 2 ^ j) (2 ^ j) = 8388608 + f"
      by (rule half_even_exact) simp
    ultimately show ?thesis
      using assms by (simp add: round_mag_def Let_def u) (simp add: k Suc)
  qed
qed

lemma round_mag_le_inf: "round_mag n d \<le> f32_inf_mag"
  by (simp add: round_mag_def Let_def)

lemma round_mag_lt [simp]: "round_mag n d < 2147483648"
  using round_mag_le_inf [of n d] by (simp add: f32_inf_mag_def)

lemma round_mag_ge: "mag_units k * d \<le> n \<Longrightarrow> 0 < d \<Longrightarrow> k \<le> f32_inf_mag \<Longrightarrow> k \<le> round_mag n d"
  using round_mag_mono [of "mag_units k" d n 1] round_mag_exact [of k] by simp

lemma round_mag_le: "n \<le> mag_units k * d \<Longrightarrow> 0 < d \<Longrightarrow> k \<le> f32_inf_mag \<Longrightarrow> round_mag n d \<le> k"
  using round_mag_mono [of n 1 "mag_units k" d] round_mag_exact [of k] by simp

section \<open>Operations on values\<close>

text \<open>Signed rounding of \<open>i / d\<close> units, and the value each operation computes with it.\<close>

definition sround :: "int \<Rightarrow> nat \<Rightarrow> int" where
  "sround i d = sgn i * int (mag_units (round_mag (nat \<bar>i\<bar>) d))"

lemma round_mag_0 [simp]: "round_mag 0 d = 0"
  by (simp add: round_mag_def round_shift_def half_even_def)

lemma sround_0 [simp]: "sround 0 d = 0"
  by (simp add: sround_def)

lemma sround_mono:
  assumes "i \<le> j" and "0 < d"
  shows "sround i d \<le> sround j d"
proof -
  have up: "round_mag (nat \<bar>a\<bar>) d \<le> round_mag (nat \<bar>b\<bar>) d" if "\<bar>a\<bar> \<le> \<bar>b\<bar>" for a b :: int
    by (rule round_mag_mono) (use that assms(2) in auto)
  consider "0 \<le> i" | "i < 0" "0 \<le> j" | "j < 0" by linarith
  then show ?thesis
  proof cases
    case 1
    with assms(1) up [of i j] show ?thesis by (auto simp: sround_def sgn_if)
  next
    case 2
    then have "sround i d \<le> 0" "0 \<le> sround j d" by (auto simp: sround_def sgn_if)
    then show ?thesis by linarith
  next
    case 3
    with assms(1) up [of j i] show ?thesis by (auto simp: sround_def sgn_if)
  qed
qed

lemma f32_units_abs: "\<bar>f32_units x\<bar> = int (mag_units (f32_mag x))"
  by (simp add: f32_units_def)

lemma f32_isfinite_units: "f32_isfinite x \<longleftrightarrow> \<bar>f32_units x\<bar> < int (mag_units f32_inf_mag)"
  by (simp add: f32_units_abs f32_isfinite_def)

lemma sround_exact: "f32_isfinite x \<Longrightarrow> sround (f32_units x) 1 = f32_units x"
proof -
  assume "f32_isfinite x"
  then have "round_mag (mag_units (f32_mag x)) 1 = f32_mag x"
    by (intro round_mag_exact) (simp add: f32_isfinite_def)
  then show ?thesis
    by (cases "f32_mag x = 0") (auto simp: sround_def f32_units_def sgn_if)
qed

lemma not_nan_make [simp]: "m \<le> f32_inf_mag \<Longrightarrow> \<not> f32_is_nan (f32_make s m)"
  by (simp add: f32_is_nan_def f32_inf_mag_def)

lemma not_nan_round [simp]: "\<not> f32_is_nan (f32_make s (round_mag n d))"
  by (rule not_nan_make) (rule round_mag_le_inf)

lemma f32_add_finite:
  assumes "f32_isfinite x" and "f32_isfinite y"
  shows "\<not> f32_is_nan (f32_add x y)" "f32_units (f32_add x y) = sround (f32_units x + f32_units y) 1"
  using assms f32_isfinite_not_nan [of x] f32_isfinite_not_nan [of y]
  by (auto simp: f32_add_def Let_def sround_def sgn_if f32_is_nan_def [of "f32_make _ 0"])

lemma f32_sub_finite:
  assumes "f32_isfinite x" and "f32_isfinite y"
  shows "\<not> f32_is_nan (f32_sub x y)" "f32_units (f32_sub x y) = sround (f32_units x - f32_units y) 1"
  using f32_add_finite [of x "f32_neg y"] assms by (simp_all add: f32_sub_def)

lemma f32_mul_finite:
  assumes "f32_isfinite x" and "f32_isfinite y"
  shows "\<not> f32_is_nan (f32_mul x y)"
    "f32_units (f32_mul x y) = sround (f32_units x * f32_units y) (2 ^ 149)"
proof -
  show "\<not> f32_is_nan (f32_mul x y)"
    using assms f32_isfinite_not_nan [of x] f32_isfinite_not_nan [of y]
    by (simp add: f32_mul_def Let_def)
  have m: "nat \<bar>f32_units x * f32_units y\<bar> = mag_units (f32_mag x) * mag_units (f32_mag y)"
    by (simp add: abs_mult f32_units_abs nat_mult_distrib)
  show "f32_units (f32_mul x y) = sround (f32_units x * f32_units y) (2 ^ 149)"
  proof (cases "f32_mag x = 0 \<or> f32_mag y = 0")
    case True
    with assms show ?thesis
      using f32_isfinite_not_nan [of x] f32_isfinite_not_nan [of y]
      by (auto simp: f32_mul_def Let_def f32_units_def)
  next
    case False
    then have "sgn (f32_units x * f32_units y) = (if f32_neg_bit x \<noteq> f32_neg_bit y then - 1 else 1)"
      by (auto simp: sgn_mult sgn_f32_units)
    with assms show ?thesis
      using f32_isfinite_not_nan [of x] f32_isfinite_not_nan [of y]
      by (simp add: f32_mul_def Let_def sround_def m)
  qed
qed

lemma f32_div_finite:
  assumes "f32_isfinite x" and "f32_isfinite y" and "0 < f32_units y"
  shows "\<not> f32_is_nan (f32_div x y)"
    "f32_units (f32_div x y) = sround (f32_units x * 2 ^ 149) (nat (f32_units y))"
proof -
  from assms(3) have ny: "\<not> f32_neg_bit y" and y0: "f32_mag y \<noteq> 0"
    by (auto simp: f32_units_def split: if_splits)
  from ny have uy: "nat (f32_units y) = mag_units (f32_mag y)" by (simp add: f32_units_def)
  have m: "nat \<bar>f32_units x * 2 ^ 149\<bar> = mag_units (f32_mag x) * 2 ^ 149"
    by (simp add: abs_mult f32_units_abs nat_mult_distrib)
  have d: "f32_div x y =
      f32_make (f32_neg_bit x) (round_mag (mag_units (f32_mag x) * 2 ^ 149) (mag_units (f32_mag y)))"
    using assms f32_isfinite_not_nan [of x] f32_isfinite_not_nan [of y] ny y0
    by (simp add: f32_div_def Let_def)
  show "\<not> f32_is_nan (f32_div x y)" by (simp only: d not_nan_round not_False_eq_True)
  show "f32_units (f32_div x y) = sround (f32_units x * 2 ^ 149) (nat (f32_units y))"
    unfolding sround_def uy m d
    by (cases "f32_mag x = 0") (auto simp: f32_units_def sgn_if)
qed

section \<open>Evaluation on numerals\<close>

lemma blen_numeral: "blen (numeral k) = Suc (blen (numeral k div 2))"
  by (rule blen_pos) simp

lemma blen_one [simp]: "blen 1 = 1" "blen (Suc 0) = 1"
  by (simp_all add: blen_pos)

lemmas f32_compare_eval = f32_isfinite_def f32_is_nan_def f32_le_def f32_lt_def f32_eq_def
  f32_units_def f32_mag_def f32_inf_mag_def mag_units_def f32_neg_bit_def Let_def

lemmas f32_eval = f32_compare_eval f32_sub_def f32_add_def f32_mul_def f32_div_def f32_neg_def
  f32_make_def round_mag_def round_shift_def half_even_def blen_numeral f32_nan_def

end
