(* ===== verification/Signals.thy ===== *)
theory Signals
  imports Float32
begin

text \<open>
  The portable signal contracts of \<open>lib/vehicle_signals\<close>: signal identifiers, tagged values,
  readings, notices, request outcomes and capabilities (\<open>signal_contracts.hpp\<close>), and the
  metadata catalog with its lookups and its structural check (\<open>signal_catalog.hpp\<close>).
  \<open>Availability\<close> and \<open>ValidationStatus\<close> are enumerations of the external package
  \<open>vehicle_core\<close>; their enumerators are the ones the sources switch over.
\<close>

section \<open>Identifiers\<close>

datatype signal_id = SignalId (sid_value: u16)

definition sid_valid :: "signal_id \<Rightarrow> bool" where
  "sid_valid i = (sid_value i \<noteq> 0)"

text \<open>\<open>operator<\<close> of \<open>SignalId\<close> compares the numeric values.\<close>

instantiation signal_id :: linorder
begin

definition less_eq_signal_id :: "signal_id \<Rightarrow> signal_id \<Rightarrow> bool" where
  "less_eq_signal_id a b = (sid_value a \<le> sid_value b)"

definition less_signal_id :: "signal_id \<Rightarrow> signal_id \<Rightarrow> bool" where
  "less_signal_id a b = (sid_value a < sid_value b)"

instance
  by standard (auto simp: less_eq_signal_id_def less_signal_id_def intro: signal_id.expand)

end

section \<open>Values\<close>

datatype signal_type = TBoolean | TNumber | TEnum

datatype signal_unit = UNone | KilometresPerHour | RevolutionsPerMinute | MetresPerSecondSquared

datatype signal_value = VBoolean bool | VNumber f32 | VEnum u16

fun sv_type :: "signal_value \<Rightarrow> signal_type" where
  "sv_type (VBoolean _) = TBoolean"
| "sv_type (VNumber _) = TNumber"
| "sv_type (VEnum _) = TEnum"

fun as_boolean :: "signal_value \<Rightarrow> bool option" where
  "as_boolean (VBoolean b) = Some b"
| "as_boolean _ = None"

fun as_number :: "signal_value \<Rightarrow> f32 option" where
  "as_number (VNumber x) = Some x"
| "as_number _ = None"

fun as_enumeration :: "signal_value \<Rightarrow> u16 option" where
  "as_enumeration (VEnum e) = Some e"
| "as_enumeration _ = None"

text \<open>\<open>operator==\<close>: Number equality is float equality, so a NaN differs from itself.\<close>

fun sv_eq :: "signal_value \<Rightarrow> signal_value \<Rightarrow> bool" where
  "sv_eq (VBoolean a) (VBoolean b) = (a = b)"
| "sv_eq (VNumber a) (VNumber b) = f32_eq a b"
| "sv_eq (VEnum a) (VEnum b) = (a = b)"
| "sv_eq _ _ = False"

section \<open>Readings, notices and outcomes\<close>

datatype availability = NoData | Fresh | Stale | FreshnessUnverified | Unavailable

datatype validation_status = Reference | Observed | Confirmed

record signal_reading =
  rd_value :: "signal_value option"
  rd_availability :: availability
  rd_validation :: validation_status

record signal_notification =
  nt_id :: signal_id
  nt_current :: signal_reading
  nt_initial :: bool
  nt_became_unavailable :: bool
  nt_recovered :: bool
  nt_coalesced :: bool

datatype signal_status =
    SOk | InvalidSignal | UnsupportedCapability | InvalidArgument | CapacityExceeded
  | InvalidState | InvalidSubscription | Faulted | Timeout

record 'a signal_result =
  rs_status :: signal_status
  rs_value :: "'a option"

definition rs_success :: "'a \<Rightarrow> 'a signal_result" where
  "rs_success x = \<lparr>rs_status = SOk, rs_value = Some x\<rparr>"

definition rs_failure :: "signal_status \<Rightarrow> 'a signal_result" where
  "rs_failure s = \<lparr>rs_status = (if s = SOk then InvalidState else s), rs_value = None\<rparr>"

definition rs_ok :: "'a signal_result \<Rightarrow> bool" where
  "rs_ok r = (rs_status r = SOk \<and> rs_value r \<noteq> None)"

lemma rs_ok_success [simp]: "rs_ok (rs_success x)"
  by (simp add: rs_ok_def rs_success_def)

lemma rs_ok_failure [simp]: "\<not> rs_ok (rs_failure s)"
  by (simp add: rs_ok_def rs_failure_def)

text \<open>The \<open>void\<close> specialisation carries a status only.\<close>

definition void_failure :: "signal_status \<Rightarrow> signal_status" where
  "void_failure s = (if s = SOk then InvalidState else s)"

type_synonym subscription = u64

definition sub_valid :: "subscription \<Rightarrow> bool" where
  "sub_valid t = (t \<noteq> 0)"

section \<open>Capabilities\<close>

datatype signal_capability = CRead | CNotify

fun capability_bit :: "signal_capability \<Rightarrow> u8" where
  "capability_bit CRead = 1"
| "capability_bit CNotify = 2"

definition capabilities_from_bits :: "u8 \<Rightarrow> u8" where
  "capabilities_from_bits b = b AND 3"

definition caps_has :: "u8 \<Rightarrow> signal_capability \<Rightarrow> bool" where
  "caps_has caps c = (caps AND capability_bit c \<noteq> 0)"

definition caps_supports :: "u8 \<Rightarrow> u8 \<Rightarrow> bool" where
  "caps_supports caps required = (caps AND required = required)"

section \<open>Catalog\<close>

record enum_choice =
  ch_value :: u16
  ch_key :: string

record signal_metadata =
  md_id :: signal_id
  md_key :: string
  md_type :: signal_type
  md_unit :: signal_unit
  md_validation :: validation_status
  md_capabilities :: u8
  md_choices :: "enum_choice list"

definition find_choice :: "signal_metadata \<Rightarrow> u16 \<Rightarrow> enum_choice option" where
  "find_choice m v = List.find (\<lambda>c. ch_value c = v) (md_choices m)"

definition find_choice_key :: "signal_metadata \<Rightarrow> string \<Rightarrow> enum_choice option" where
  "find_choice_key m k = List.find (\<lambda>c. ch_key c = k) (md_choices m)"

definition md_accepts :: "signal_metadata \<Rightarrow> signal_value \<Rightarrow> bool" where
  "md_accepts m v =
     (if sv_type v \<noteq> md_type m then False
      else case v of VEnum e \<Rightarrow> find_choice m e \<noteq> None | _ \<Rightarrow> True)"

type_synonym catalog = "signal_metadata list"

definition catalog_at :: "catalog \<Rightarrow> nat \<Rightarrow> signal_metadata option" where
  "catalog_at c i = (if i < length c then Some (c ! i) else None)"

definition catalog_find :: "catalog \<Rightarrow> signal_id \<Rightarrow> signal_metadata option" where
  "catalog_find c i = (if \<not> sid_valid i then None else List.find (\<lambda>m. md_id m = i) c)"

definition catalog_find_key :: "catalog \<Rightarrow> string \<Rightarrow> signal_metadata option" where
  "catalog_find_key c k = (if k = [] then None else List.find (\<lambda>m. md_key m = k) c)"

fun choices_distinct :: "enum_choice list \<Rightarrow> bool" where
  "choices_distinct [] = True"
| "choices_distinct (c # cs) =
     (if ch_key c = [] then False
      else if list_ex (\<lambda>o'. ch_value o' = ch_value c \<or> ch_key o' = ch_key c) cs then False
      else choices_distinct cs)"

definition choices_well_formed :: "signal_metadata \<Rightarrow> bool" where
  "choices_well_formed m =
     (if md_type m \<noteq> TEnum then md_choices m = []
      else if md_choices m = [] then False
      else choices_distinct (md_choices m))"

fun catalog_well_formed :: "catalog \<Rightarrow> bool" where
  "catalog_well_formed [] = True"
| "catalog_well_formed (m # ms) =
     (if \<not> sid_valid (md_id m) \<or> md_key m = [] \<or> md_capabilities m = 0 then False
      else if md_type m \<noteq> TNumber \<and> md_unit m \<noteq> UNone then False
      else if \<not> choices_well_formed m then False
      else if list_ex (\<lambda>o'. md_id o' = md_id m \<or> md_key o' = md_key m) ms then False
      else catalog_well_formed ms)"

end
