(* ===== verification/Conditions.thy ===== *)
theory Conditions
  imports Signals
begin

text \<open>
  Rule configuration and conditions of \<open>lib/action_engine\<close>: the persisted rule forms
  (\<open>rule_config.hpp\<close>), actions (\<open>action.hpp\<close>), the availability policy
  (\<open>actionability.cpp\<close>), and the resolution and evaluation of a condition
  (\<open>condition.cpp\<close>). A resolution is a status with a condition exactly when the status
  is \<open>CfgOk\<close>.
\<close>

section \<open>Actions\<close>

datatype action_id = ActionId (aid_value: u16)

definition aid_valid :: "action_id \<Rightarrow> bool" where
  "aid_valid a = (aid_value a \<noteq> 0)"

datatype command_kind = Activate | Deactivate | Trigger | SetLevel

record action_command =
  ac_action :: action_id
  ac_kind :: command_kind
  ac_level :: f32

definition ac_eq :: "action_command \<Rightarrow> action_command \<Rightarrow> bool" where
  "ac_eq l r = (ac_action l = ac_action r \<and> ac_kind l = ac_kind r \<and> f32_eq (ac_level l) (ac_level r))"

definition command :: "action_id \<Rightarrow> command_kind \<Rightarrow> action_command" where
  "command a k = \<lparr>ac_action = a, ac_kind = k, ac_level = 0\<rparr>"

lemma command_simps [simp]:
  "ac_action (command a k) = a"
  "ac_kind (command a k) = k"
  by (simp_all add: command_def)

section \<open>Configuration status and persisted forms\<close>

datatype config_status =
    CfgOk | CfgInvalidState | CfgCapacityExceeded | CfgDuplicateSink | CfgInvalidAction
  | CfgDuplicateAction | CfgUnknownSignal | CfgUnsupportedCapability | CfgTypeMismatch
  | CfgUnknownChoice | CfgInvalidOperand | CfgUnsupportedComparison | CfgInvalidRange
  | CfgInvalidHysteresis

datatype rule_operand = OBoolean bool | ONumber f32 | OChoice string

fun op_as_boolean :: "rule_operand \<Rightarrow> bool option" where
  "op_as_boolean (OBoolean b) = Some b"
| "op_as_boolean _ = None"

fun op_as_number :: "rule_operand \<Rightarrow> f32 option" where
  "op_as_number (ONumber x) = Some x"
| "op_as_number _ = None"

fun op_choice_key :: "rule_operand \<Rightarrow> string option" where
  "op_choice_key (OChoice k) = Some k"
| "op_choice_key _ = None"

datatype comparison =
  CmpEqual | CmpNotEqual | CmpLess | CmpLessOrEqual | CmpGreater | CmpGreaterOrEqual

datatype freshness_requirement = ReqFresh | ReqFreshOrUnverified

record signal_condition =
  sc_key :: string
  sc_comparison :: comparison
  sc_operand :: rule_operand

record state_rule_config =
  src_condition :: signal_condition
  src_action :: action_id
  src_freshness :: freshness_requirement

record sampled_state_rule_config =
  ssc_condition :: signal_condition
  ssc_action :: action_id
  ssc_freshness :: freshness_requirement
  ssc_release_threshold :: "f32 option"

datatype event_edge = BecomesTrue | BecomesFalse

record event_rule_config =
  erc_condition :: signal_condition
  erc_edge :: event_edge
  erc_action :: action_id
  erc_freshness :: freshness_requirement

record numeric_range =
  nr_from :: f32
  nr_to :: f32

record range_rule_config =
  rrc_key :: string
  rrc_input :: numeric_range
  rrc_output :: numeric_range
  rrc_action :: action_id
  rrc_freshness :: freshness_requirement

section \<open>Actionability\<close>

definition meets :: "freshness_requirement \<Rightarrow> availability \<Rightarrow> bool" where
  "meets req a = (if a = Fresh then True
     else a = FreshnessUnverified \<and> req = ReqFreshOrUnverified)"

definition actionable_value ::
  "signal_reading \<Rightarrow> signal_type \<Rightarrow> freshness_requirement \<Rightarrow> signal_value option" where
  "actionable_value r ty req = (case rd_value r of
       None \<Rightarrow> None
     | Some v \<Rightarrow>
         if sv_type v \<noteq> ty \<or> \<not> meets req (rd_availability r) then None
         else case as_number v of
             Some x \<Rightarrow> (if \<not> f32_isfinite x then None else Some v)
           | None \<Rightarrow> Some v)"

lemma actionable_value_Some:
  "actionable_value r ty req = Some v \<longleftrightarrow>
     rd_value r = Some v \<and> sv_type v = ty \<and> meets req (rd_availability r)
     \<and> (\<forall>x. as_number v = Some x \<longrightarrow> f32_isfinite x)"
  by (auto simp: actionable_value_def split: option.splits)

section \<open>Resolved conditions\<close>

record resolved_condition =
  rc_signal :: signal_id
  rc_operand :: signal_value
  rc_comparison :: comparison
  rc_freshness :: freshness_requirement

text \<open>\<open>ResolvedCondition::holds\<close>; a value that is no Number reads as 0 in the ordered cases.\<close>

definition rc_holds :: "resolved_condition \<Rightarrow> signal_value \<Rightarrow> bool" where
  "rc_holds c v = (let l = value_or (as_number v) 0; r = value_or (as_number (rc_operand c)) 0
     in case rc_comparison c of
          CmpEqual \<Rightarrow> sv_eq v (rc_operand c)
        | CmpNotEqual \<Rightarrow> \<not> sv_eq v (rc_operand c)
        | CmpLess \<Rightarrow> f32_lt l r
        | CmpLessOrEqual \<Rightarrow> f32_le l r
        | CmpGreater \<Rightarrow> f32_lt r l
        | CmpGreaterOrEqual \<Rightarrow> f32_le r l)"

definition rc_evaluate :: "resolved_condition \<Rightarrow> signal_reading \<Rightarrow> bool option" where
  "rc_evaluate c r =
     (case actionable_value r (sv_type (rc_operand c)) (rc_freshness c) of
        None \<Rightarrow> None
      | Some v \<Rightarrow> Some (rc_holds c v))"

type_synonym 'a resolution = "config_status \<times> 'a option"

definition is_ordered :: "comparison \<Rightarrow> bool" where
  "is_ordered c = (c \<noteq> CmpEqual \<and> c \<noteq> CmpNotEqual)"

fun operand_type :: "rule_operand \<Rightarrow> signal_type" where
  "operand_type (OBoolean _) = TBoolean"
| "operand_type (ONumber _) = TNumber"
| "operand_type (OChoice _) = TEnum"

definition resolve_operand ::
  "signal_metadata \<Rightarrow> signal_condition \<Rightarrow> freshness_requirement \<Rightarrow> resolved_condition resolution"
where
  "resolve_operand m c req =
     (let v0 = VBoolean (value_or (op_as_boolean (sc_operand c)) False);
          v1 = (case op_as_number (sc_operand c) of Some x \<Rightarrow> VNumber x | None \<Rightarrow> v0);
          done = (\<lambda>v. (CfgOk, Some \<lparr>rc_signal = md_id m, rc_operand = v,
                    rc_comparison = sc_comparison c, rc_freshness = req\<rparr>))
      in case op_choice_key (sc_operand c) of
           Some k \<Rightarrow> (case find_choice_key m k of
               None \<Rightarrow> (CfgUnknownChoice, None)
             | Some ch \<Rightarrow> done (VEnum (ch_value ch)))
         | None \<Rightarrow> done v1)"

definition resolve_through ::
  "catalog \<Rightarrow> signal_condition \<Rightarrow> freshness_requirement \<Rightarrow> signal_capability
     \<Rightarrow> resolved_condition resolution" where
  "resolve_through cat c req delivery = (case catalog_find_key cat (sc_key c) of
       None \<Rightarrow> (CfgUnknownSignal, None)
     | Some m \<Rightarrow>
         if \<not> caps_has (md_capabilities m) delivery then (CfgUnsupportedCapability, None)
         else if operand_type (sc_operand c) \<noteq> md_type m then (CfgTypeMismatch, None)
         else if \<not> f32_isfinite (value_or (op_as_number (sc_operand c)) 0)
           then (CfgInvalidOperand, None)
         else if is_ordered (sc_comparison c) \<and> md_type m \<noteq> TNumber
           then (CfgUnsupportedComparison, None)
         else resolve_operand m c req)"

definition resolve_condition ::
  "catalog \<Rightarrow> signal_condition \<Rightarrow> freshness_requirement \<Rightarrow> resolved_condition resolution" where
  "resolve_condition cat c req = resolve_through cat c req CNotify"

definition resolve_sampled_condition ::
  "catalog \<Rightarrow> signal_condition \<Rightarrow> freshness_requirement \<Rightarrow> resolved_condition resolution" where
  "resolve_sampled_condition cat c req = resolve_through cat c req CRead"

lemma f32_zero_facts [simp]:
  "f32_isfinite 0" "\<not> f32_is_nan 0" "f32_units 0 = 0"
  by (simp_all add: f32_isfinite_def f32_is_nan_def f32_mag_def f32_inf_mag_def f32_units_def)

text \<open>
  What a successful resolution guarantees: the condition names a catalog signal with the
  delivery capability, its operand has the signal's type and is accepted by the catalog, a
  Number operand is finite, and an ordered comparison is on a Number.
\<close>

definition rc_well_typed :: "catalog \<Rightarrow> signal_capability \<Rightarrow> resolved_condition \<Rightarrow> bool" where
  "rc_well_typed cat delivery c =
     (list_ex (\<lambda>m. md_id m = rc_signal c \<and> caps_has (md_capabilities m) delivery
               \<and> md_accepts m (rc_operand c)) cat
      \<and> (\<forall>x. as_number (rc_operand c) = Some x \<longrightarrow> f32_isfinite x)
      \<and> (is_ordered (rc_comparison c) \<longrightarrow> sv_type (rc_operand c) = TNumber))"

lemma find_choice_of_key:
  "find_choice_key m k = Some ch \<Longrightarrow> find_choice m (ch_value ch) \<noteq> None"
  by (auto simp: find_choice_key_def find_choice_def find_None_iff dest!: find_Some_mem)

definition resolved_for ::
  "signal_metadata \<Rightarrow> signal_condition \<Rightarrow> freshness_requirement \<Rightarrow> signal_value \<Rightarrow> resolved_condition"
where
  "resolved_for m c req v = \<lparr>rc_signal = md_id m, rc_operand = v,
     rc_comparison = sc_comparison c, rc_freshness = req\<rparr>"

lemma resolved_for_simps [simp]:
  "rc_signal (resolved_for m c req v) = md_id m"
  "rc_operand (resolved_for m c req v) = v"
  "rc_comparison (resolved_for m c req v) = sc_comparison c"
  "rc_freshness (resolved_for m c req v) = req"
  by (simp_all add: resolved_for_def)

lemma resolve_operand_cases:
  "sc_operand c = OBoolean b \<Longrightarrow>
     resolve_operand m c req = (CfgOk, Some (resolved_for m c req (VBoolean b)))"
  "sc_operand c = ONumber x \<Longrightarrow>
     resolve_operand m c req = (CfgOk, Some (resolved_for m c req (VNumber x)))"
  "sc_operand c = OChoice k \<Longrightarrow>
     resolve_operand m c req = (case find_choice_key m k of
         None \<Rightarrow> (CfgUnknownChoice, None)
       | Some ch \<Rightarrow> (CfgOk, Some (resolved_for m c req (VEnum (ch_value ch)))))"
  by (simp_all add: resolve_operand_def resolved_for_def Let_def split: option.split)

lemma resolve_operand_status:
  "fst (resolve_operand m c req) = CfgOk \<longleftrightarrow> snd (resolve_operand m c req) \<noteq> None"
  by (cases "sc_operand c") (simp_all add: resolve_operand_cases split: option.split)

lemma resolve_through_status:
  "fst (resolve_through cat c req d) = CfgOk \<longleftrightarrow> snd (resolve_through cat c req d) \<noteq> None"
  by (auto simp: resolve_through_def resolve_operand_status split: option.splits)

lemma resolve_operand_accepts:
  assumes "resolve_operand m c req = (st, Some rc)" and "operand_type (sc_operand c) = md_type m"
  shows "\<exists>v. rc = resolved_for m c req v \<and> md_accepts m v \<and> sv_type v = md_type m
           \<and> (\<forall>x. as_number v = Some x \<longrightarrow> op_as_number (sc_operand c) = Some x)"
proof (cases "sc_operand c")
  case (OBoolean b)
  with assms show ?thesis
    by (intro exI [of _ "VBoolean b"]) (auto simp: resolve_operand_cases md_accepts_def)
next
  case (ONumber x)
  with assms show ?thesis
    by (intro exI [of _ "VNumber x"]) (auto simp: resolve_operand_cases md_accepts_def)
next
  case (OChoice k)
  with assms obtain ch where ch: "find_choice_key m k = Some ch"
    and rc: "rc = resolved_for m c req (VEnum (ch_value ch))"
    by (auto simp: resolve_operand_cases split: option.splits)
  from ch have "find_choice m (ch_value ch) \<noteq> None" by (rule find_choice_of_key)
  with OChoice assms(2) rc show ?thesis
    by (intro exI [of _ "VEnum (ch_value ch)"]) (auto simp: md_accepts_def)
qed

lemma resolve_through_well_typed:
  assumes "resolve_through cat c req d = (st, Some rc)"
  shows "rc_well_typed cat d rc"
proof -
  from assms obtain m where m: "catalog_find_key cat (sc_key c) = Some m"
    and caps: "caps_has (md_capabilities m) d"
    and ty: "operand_type (sc_operand c) = md_type m"
    and fin: "f32_isfinite (value_or (op_as_number (sc_operand c)) 0)"
    and ord: "is_ordered (sc_comparison c) \<Longrightarrow> md_type m = TNumber"
    and res: "resolve_operand m c req = (st, Some rc)"
    by (auto simp: resolve_through_def split: option.splits if_splits)
  from m have mem: "m \<in> set cat"
    by (auto simp: catalog_find_key_def dest: find_Some_mem split: if_splits)
  from resolve_operand_accepts [OF res ty] obtain v
    where v: "rc = resolved_for m c req v" "md_accepts m v" "sv_type v = md_type m"
      "\<And>x. as_number v = Some x \<Longrightarrow> op_as_number (sc_operand c) = Some x"
    by blast
  have "list_ex (\<lambda>m. md_id m = rc_signal rc \<and> caps_has (md_capabilities m) d
               \<and> md_accepts m (rc_operand rc)) cat"
    using mem caps v by (auto simp: list_ex_iff)
  moreover have "\<forall>x. as_number (rc_operand rc) = Some x \<longrightarrow> f32_isfinite x"
    using v fin by auto
  moreover have "is_ordered (rc_comparison rc) \<longrightarrow> sv_type (rc_operand rc) = TNumber"
    using ord v by simp
  ultimately show ?thesis by (simp add: rc_well_typed_def)
qed

lemma rc_evaluate_not_actionable:
  "rd_availability r \<notin> {Fresh, FreshnessUnverified} \<Longrightarrow> rc_evaluate c r = None"
  by (auto simp: rc_evaluate_def actionable_value_def meets_def split: option.splits)

end
