(* ===== verification/Rules.thy ===== *)
theory Rules
  imports Conditions
begin

text \<open>
  The runtime rules of \<open>lib/action_engine\<close> and their bounded collections: state and event
  rules on notices (\<open>rules.cpp\<close>), range and sampled state rules on reads
  (\<open>range_rule.cpp\<close>, \<open>sampled_state_rule.cpp\<close>), the rule sets (\<open>rule_set.cpp\<close>,
  \<open>polled_rule_set.cpp\<close>) and the broadcast to sinks (\<open>sink_fan_out.cpp\<close>). An operation
  returns the commands it sends, in order, with the updated rule.
\<close>

section \<open>Linear mapping\<close>

record linear_mapping =
  lm_input :: numeric_range
  lm_output :: numeric_range

definition lm_map :: "linear_mapping \<Rightarrow> f32 \<Rightarrow> f32" where
  "lm_map m v =
     (if f32_le v (nr_from (lm_input m)) then nr_from (lm_output m)
      else if f32_le (nr_to (lm_input m)) v then nr_to (lm_output m)
      else let fraction = f32_div (f32_sub v (nr_from (lm_input m)))
                            (f32_sub (nr_to (lm_input m)) (nr_from (lm_input m)))
        in f32_add (nr_from (lm_output m))
             (f32_mul fraction (f32_sub (nr_to (lm_output m)) (nr_from (lm_output m)))))"

definition finite_range :: "numeric_range \<Rightarrow> bool" where
  "finite_range r = (f32_isfinite (nr_from r) \<and> f32_isfinite (nr_to r)
     \<and> f32_isfinite (f32_sub (nr_to r) (nr_from r)))"

definition valid_ranges :: "range_rule_config \<Rightarrow> bool" where
  "valid_ranges c = (finite_range (rrc_input c) \<and> finite_range (rrc_output c)
     \<and> f32_lt (nr_from (rrc_input c)) (nr_to (rrc_input c)))"

section \<open>Rules\<close>

record state_rule =
  sr_condition :: resolved_condition
  sr_action :: action_id
  sr_last :: "bool option"

record event_rule =
  er_condition :: resolved_condition
  er_action :: action_id
  er_edge :: event_edge
  er_baseline :: "bool option"

record range_rule =
  rr_mapping :: linear_mapping
  rr_signal :: signal_id
  rr_action :: action_id
  rr_freshness :: freshness_requirement
  rr_last :: "action_command option"

record sampled_state_rule =
  ss_activation :: resolved_condition
  ss_release :: "resolved_condition option"
  ss_action :: action_id
  ss_last :: "bool option"

definition restarts_baseline :: "signal_notification \<Rightarrow> bool" where
  "restarts_baseline n = (nt_initial n \<or> nt_became_unavailable n \<or> nt_recovered n)"

definition state_rule_output :: "state_rule \<Rightarrow> signal_notification \<Rightarrow> bool" where
  "state_rule_output r n = value_or (rc_evaluate (sr_condition r) (nt_current n)) False"

definition state_rule_on_notice ::
  "state_rule \<Rightarrow> signal_notification \<Rightarrow> action_command option \<times> state_rule" where
  "state_rule_on_notice r n = (let out = state_rule_output r n
     in if \<not> nt_initial n \<and> sr_last r = Some out then (None, r)
        else (Some (command (sr_action r) (if out then Activate else Deactivate)),
              r\<lparr>sr_last := Some out\<rparr>))"

definition event_rule_fires :: "event_rule \<Rightarrow> bool option \<Rightarrow> bool option \<Rightarrow> bool" where
  "event_rule_fires r previous current = (case (previous, current) of
       (Some p, Some c) \<Rightarrow> (if p = c then False else c = (er_edge r = BecomesTrue))
     | _ \<Rightarrow> False)"

definition event_rule_on_notice ::
  "event_rule \<Rightarrow> signal_notification \<Rightarrow> action_command option \<times> event_rule" where
  "event_rule_on_notice r n =
     (let previous = (if restarts_baseline n then None else er_baseline r);
          current = rc_evaluate (er_condition r) (nt_current n);
          r' = r\<lparr>er_baseline := current\<rparr>
      in if \<not> event_rule_fires r previous current then (None, r')
         else (Some (command (er_action r) Trigger), r'))"

definition range_rule_command ::
  "range_rule \<Rightarrow> signal_reading signal_result \<Rightarrow> action_command" where
  "range_rule_command r read =
     (case (if rs_ok read then (case rs_value read of
               Some rd \<Rightarrow> actionable_value rd TNumber (rr_freshness r) | None \<Rightarrow> None)
            else None) of
        None \<Rightarrow> command (rr_action r) Deactivate
      | Some v \<Rightarrow> \<lparr>ac_action = rr_action r, ac_kind = SetLevel,
                  ac_level = lm_map (rr_mapping r) (value_or (as_number v) 0)\<rparr>)"

definition range_rule_on_sample ::
  "range_rule \<Rightarrow> signal_reading signal_result \<Rightarrow> action_command option \<times> range_rule" where
  "range_rule_on_sample r read = (let c = range_rule_command r read
     in if (case rr_last r of Some l \<Rightarrow> ac_eq l c | None \<Rightarrow> False) then (None, r)
        else (Some c, r\<lparr>rr_last := Some c\<rparr>))"

definition sampled_condition :: "sampled_state_rule \<Rightarrow> resolved_condition" where
  "sampled_condition r =
     (if value_or (ss_last r) False then (case ss_release r of Some c \<Rightarrow> c | None \<Rightarrow> ss_activation r)
      else ss_activation r)"

definition sampled_rule_output ::
  "sampled_state_rule \<Rightarrow> signal_reading signal_result \<Rightarrow> bool" where
  "sampled_rule_output r read = (rs_ok read \<and> (case rs_value read of
       Some rd \<Rightarrow> value_or (rc_evaluate (sampled_condition r) rd) False
     | None \<Rightarrow> False))"

definition sampled_rule_on_sample ::
  "sampled_state_rule \<Rightarrow> signal_reading signal_result
     \<Rightarrow> action_command option \<times> sampled_state_rule" where
  "sampled_rule_on_sample r read = (let out = sampled_rule_output r read
     in if ss_last r = Some out then (None, r)
        else (Some (command (ss_action r) (if out then Activate else Deactivate)),
              r\<lparr>ss_last := Some out\<rparr>))"

definition resolve_range_rule :: "catalog \<Rightarrow> range_rule_config \<Rightarrow> range_rule resolution" where
  "resolve_range_rule cat c = (case catalog_find_key cat (rrc_key c) of
       None \<Rightarrow> (CfgUnknownSignal, None)
     | Some m \<Rightarrow>
         if \<not> caps_has (md_capabilities m) CRead then (CfgUnsupportedCapability, None)
         else if md_type m \<noteq> TNumber then (CfgTypeMismatch, None)
         else if \<not> valid_ranges c then (CfgInvalidRange, None)
         else (CfgOk, Some \<lparr>rr_mapping = \<lparr>lm_input = rrc_input c, lm_output = rrc_output c\<rparr>,
                rr_signal = md_id m, rr_action = rrc_action c, rr_freshness = rrc_freshness c,
                rr_last = None\<rparr>))"

section \<open>Rule sets\<close>

datatype rule = RState state_rule | REvent event_rule

fun rule_signal :: "rule \<Rightarrow> signal_id" where
  "rule_signal (RState r) = rc_signal (sr_condition r)"
| "rule_signal (REvent r) = rc_signal (er_condition r)"

fun rule_on_notice :: "rule \<Rightarrow> signal_notification \<Rightarrow> action_command option \<times> rule" where
  "rule_on_notice (RState r) n = (case state_rule_on_notice r n of (c, r') \<Rightarrow> (c, RState r'))"
| "rule_on_notice (REvent r) n = (case event_rule_on_notice r n of (c, r') \<Rightarrow> (c, REvent r'))"

fun rule_reset :: "rule \<Rightarrow> rule" where
  "rule_reset (RState r) = RState (r\<lparr>sr_last := None\<rparr>)"
| "rule_reset (REvent r) = REvent (r\<lparr>er_baseline := None\<rparr>)"

definition rule_set_capacity :: nat where
  "rule_set_capacity = 16"

definition rule_set_add :: "rule list \<Rightarrow> rule \<Rightarrow> config_status \<times> rule list" where
  "rule_set_add rs r = (if length rs = rule_set_capacity then (CfgCapacityExceeded, rs)
     else (CfgOk, rs @ [r]))"

definition rule_set_drives_level :: "rule list \<Rightarrow> action_id \<Rightarrow> bool" where
  "rule_set_drives_level rs a =
     list_ex (\<lambda>r. case r of RState s \<Rightarrow> sr_action s = a | REvent _ \<Rightarrow> False) rs"

definition opt_list :: "'a option \<Rightarrow> 'a list" where
  "opt_list o' = (case o' of None \<Rightarrow> [] | Some x \<Rightarrow> [x])"

definition rule_step :: "signal_notification \<Rightarrow> rule \<Rightarrow> action_command option \<times> rule" where
  "rule_step n r = (if rule_signal r = nt_id n then rule_on_notice r n else (None, r))"

text \<open>\<open>RuleSet::dispatch\<close>: every rule on the notice's signal, in insertion order.\<close>

fun rule_set_dispatch ::
  "rule list \<Rightarrow> signal_notification \<Rightarrow> action_command list \<times> rule list" where
  "rule_set_dispatch [] n = ([], [])"
| "rule_set_dispatch (r # rs) n = (let (c, r') = rule_step n r; (cs, rs') = rule_set_dispatch rs n
     in (opt_list c @ cs, r' # rs'))"

definition rule_set_reset :: "rule list \<Rightarrow> rule list" where
  "rule_set_reset rs = map rule_reset rs"

datatype polled_rule = PRange range_rule | PSampled sampled_state_rule

fun polled_signal :: "polled_rule \<Rightarrow> signal_id" where
  "polled_signal (PRange r) = rr_signal r"
| "polled_signal (PSampled r) = rc_signal (ss_activation r)"

fun polled_action :: "polled_rule \<Rightarrow> action_id" where
  "polled_action (PRange r) = rr_action r"
| "polled_action (PSampled r) = ss_action r"

fun polled_reset :: "polled_rule \<Rightarrow> polled_rule" where
  "polled_reset (PRange r) = PRange (r\<lparr>rr_last := None\<rparr>)"
| "polled_reset (PSampled r) = PSampled (r\<lparr>ss_last := None\<rparr>)"

fun polled_on_sample ::
  "polled_rule \<Rightarrow> signal_reading signal_result \<Rightarrow> action_command option \<times> polled_rule" where
  "polled_on_sample (PRange r) read =
     (case range_rule_on_sample r read of (c, r') \<Rightarrow> (c, PRange r'))"
| "polled_on_sample (PSampled r) read =
     (case sampled_rule_on_sample r read of (c, r') \<Rightarrow> (c, PSampled r'))"

definition polled_set_capacity :: nat where
  "polled_set_capacity = 8"

definition polled_set_add :: "polled_rule list \<Rightarrow> polled_rule \<Rightarrow> config_status \<times> polled_rule list" where
  "polled_set_add rs r = (if length rs = polled_set_capacity then (CfgCapacityExceeded, rs)
     else (CfgOk, rs @ [r]))"

definition polled_set_drives :: "polled_rule list \<Rightarrow> action_id \<Rightarrow> bool" where
  "polled_set_drives rs a = list_ex (\<lambda>r. polled_action r = a) rs"

definition polled_set_reset :: "polled_rule list \<Rightarrow> polled_rule list" where
  "polled_set_reset rs = map polled_reset rs"

section \<open>Sinks\<close>

text \<open>A sink is known by its address; a delivery is a sink with the command it executes.\<close>

definition sink_capacity :: nat where
  "sink_capacity = 4"

definition sinks_add :: "nat list \<Rightarrow> nat \<Rightarrow> config_status \<times> nat list" where
  "sinks_add ss s = (if s \<in> set ss then (CfgDuplicateSink, ss)
     else if length ss = sink_capacity then (CfgCapacityExceeded, ss)
     else (CfgOk, ss @ [s]))"

definition sinks_execute :: "nat list \<Rightarrow> action_command \<Rightarrow> (nat \<times> action_command) list" where
  "sinks_execute ss c = map (\<lambda>s. (s, c)) ss"

section \<open>Rule lemmas\<close>

lemma rule_on_notice_signal [simp]: "rule_signal (snd (rule_on_notice r n)) = rule_signal r"
  by (cases r) (auto simp: state_rule_on_notice_def event_rule_on_notice_def Let_def)

lemma rule_step_signal [simp]: "rule_signal (snd (rule_step n r)) = rule_signal r"
  by (simp add: rule_step_def)

lemma rule_set_dispatch_eq:
  "rule_set_dispatch rs n =
     (concat (map (\<lambda>r. opt_list (fst (rule_step n r))) rs), map (\<lambda>r. snd (rule_step n r)) rs)"
  by (induction rs) (auto simp: split_beta Let_def)

lemma state_rule_on_notice_last [simp]:
  "sr_last (snd (state_rule_on_notice r n)) = Some (state_rule_output r n)"
  by (auto simp: state_rule_on_notice_def Let_def)

lemma state_rule_on_notice_frame [simp]:
  "sr_action (snd (state_rule_on_notice r n)) = sr_action r"
  "sr_condition (snd (state_rule_on_notice r n)) = sr_condition r"
  by (auto simp: state_rule_on_notice_def Let_def)

lemma sampled_rule_on_sample_last [simp]:
  "ss_last (snd (sampled_rule_on_sample r read)) = Some (sampled_rule_output r read)"
  by (auto simp: sampled_rule_on_sample_def Let_def)

lemma sampled_rule_on_sample_frame [simp]:
  "ss_action (snd (sampled_rule_on_sample r read)) = ss_action r"
  "ss_activation (snd (sampled_rule_on_sample r read)) = ss_activation r"
  "ss_release (snd (sampled_rule_on_sample r read)) = ss_release r"
  by (auto simp: sampled_rule_on_sample_def Let_def)

lemma range_rule_on_sample_frame [simp]:
  "rr_action (snd (range_rule_on_sample r read)) = rr_action r"
  "rr_signal (snd (range_rule_on_sample r read)) = rr_signal r"
  by (auto simp: range_rule_on_sample_def Let_def)

lemma polled_on_sample_frame [simp]:
  "polled_action (snd (polled_on_sample r read)) = polled_action r"
  "polled_signal (snd (polled_on_sample r read)) = polled_signal r"
  by (cases r; simp add: split_beta)+

end
