(* ===== verification/Range_Mapping.thy ===== *)
theory Range_Mapping
  imports Rules
begin

text \<open>
  What \<open>LinearMapping::map\<close> computes in binary32 on ranges that \<open>resolve_range_rule\<close>
  accepts: strictly inside the input range the result is four roundings of the exact linear
  map (\<open>lm_units\<close>), each of which is monotone, so the map is monotone, never a NaN, and on
  the proper side of the first output bound. It need not stay below the second bound: the
  last rounding may pass it, and pass the largest finite value.
\<close>

section \<open>Rounding facts\<close>

lemma sround_scale:
  assumes "0 < k" and "0 < d"
  shows "sround (i * int k) (d * k) = sround i d"
proof -
  have "round_mag (nat \<bar>i\<bar> * k) (d * k) = round_mag (nat \<bar>i\<bar>) d"
    by (rule le_antisym; rule round_mag_mono) (use assms in auto)
  then show ?thesis
    using assms by (simp add: sround_def abs_mult nat_mult_distrib sgn_mult)
qed

lemma sround_one: "sround 1 1 = 1"
proof -
  have "round_mag (mag_units 1) 1 = 1" by (rule round_mag_exact) (simp add: f32_inf_mag_def)
  then show ?thesis by (simp add: sround_def mag_units_def)
qed

lemma mag_units_unit: "mag_units 1065353216 = 2 ^ 149"
  by (simp add: mag_units_def)

lemma sround_unit: "sround (2 ^ 149) 1 = 2 ^ 149"
proof -
  have "round_mag (2 ^ 149) 1 = 1065353216"
    using round_mag_exact [of 1065353216] by (simp add: mag_units_unit f32_inf_mag_def)
  moreover have "nat \<bar>2 ^ 149 :: int\<bar> = 2 ^ 149"
    by (simp add: nat_power_eq)
  ultimately show ?thesis unfolding sround_def by (simp add: mag_units_unit)
qed

lemma sround_ratio: "0 < w \<Longrightarrow> sround (int w * 2 ^ 149) w = 2 ^ 149"
  using sround_scale [of w 1 "2 ^ 149"] by (simp add: sround_unit [simplified] mult.commute)

lemma sround_nonneg: "0 \<le> i \<Longrightarrow> 0 \<le> sround i d"
  by (simp add: sround_def sgn_if)

lemma f32_isfinite_between:
  assumes "f32_isfinite y" and "\<bar>f32_units x\<bar> \<le> \<bar>f32_units y\<bar>"
  shows "f32_isfinite x"
  using assms by (simp add: f32_isfinite_units)

section \<open>The interior of the input range\<close>

definition lm_units :: "linear_mapping \<Rightarrow> int \<Rightarrow> int" where
  "lm_units m u =
     (let a = f32_units (nr_from (lm_input m));
          w = f32_units (f32_sub (nr_to (lm_input m)) (nr_from (lm_input m)));
          c = f32_units (nr_from (lm_output m));
          s = f32_units (f32_sub (nr_to (lm_output m)) (nr_from (lm_output m)));
          fraction = sround (sround (u - a) 1 * 2 ^ 149) (nat w)
      in sround (c + sround (fraction * s) (2 ^ 149)) 1)"

definition mapping_ok :: "linear_mapping \<Rightarrow> bool" where
  "mapping_ok m = (finite_range (lm_input m) \<and> finite_range (lm_output m)
     \<and> f32_lt (nr_from (lm_input m)) (nr_to (lm_input m)))"

definition lm_inside :: "linear_mapping \<Rightarrow> f32 \<Rightarrow> bool" where
  "lm_inside m v = (f32_isfinite v
     \<and> f32_units (nr_from (lm_input m)) < f32_units v \<and> f32_units v < f32_units (nr_to (lm_input m)))"

lemma span_pos:
  assumes "mapping_ok m"
  shows "0 < f32_units (f32_sub (nr_to (lm_input m)) (nr_from (lm_input m)))"
proof -
  let ?a = "nr_from (lm_input m)" and ?b = "nr_to (lm_input m)"
  from assms have f: "f32_isfinite ?a" "f32_isfinite ?b" and lt: "f32_units ?a < f32_units ?b"
    by (simp_all add: mapping_ok_def finite_range_def f32_lt_def)
  have "sround 1 1 \<le> sround (f32_units ?b - f32_units ?a) 1"
    by (rule sround_mono) (use lt in auto)
  then show ?thesis using f sround_one by (simp add: f32_sub_finite)
qed

lemma fraction_bounds:
  assumes "0 \<le> x" and "x \<le> w" and "0 < w"
  shows "0 \<le> sround (x * 2 ^ 149) (nat w) \<and> sround (x * 2 ^ 149) (nat w) \<le> 2 ^ 149"
proof
  show "0 \<le> sround (x * 2 ^ 149) (nat w)" using assms(1) by (intro sround_nonneg) simp
  have "sround (x * 2 ^ 149) (nat w) \<le> sround (int (nat w) * 2 ^ 149) (nat w)"
    by (rule sround_mono) (use assms in auto)
  then show "sround (x * 2 ^ 149) (nat w) \<le> 2 ^ 149"
    using sround_ratio [of "nat w"] assms(3) by simp
qed

lemma product_exact: "f32_isfinite s \<Longrightarrow> sround (2 ^ 149 * f32_units s) (2 ^ 149) = f32_units s"
  using sround_scale [of "2 ^ 149" 1 "f32_units s"] by (simp add: sround_exact [simplified] mult.commute)

lemma product_bounds:
  assumes "0 \<le> q" and "q \<le> 2 ^ 149" and "f32_isfinite s"
  shows "0 \<le> f32_units s \<Longrightarrow>
      0 \<le> sround (q * f32_units s) (2 ^ 149) \<and> sround (q * f32_units s) (2 ^ 149) \<le> f32_units s"
    "f32_units s \<le> 0 \<Longrightarrow>
      f32_units s \<le> sround (q * f32_units s) (2 ^ 149) \<and> sround (q * f32_units s) (2 ^ 149) \<le> 0"
proof -
  note ex = product_exact [OF assms(3)]
  note z = sround_0 [of "2 ^ 149"]
  {
    assume s: "0 \<le> f32_units s"
    then have "0 \<le> q * f32_units s" "q * f32_units s \<le> 2 ^ 149 * f32_units s"
      using assms(1,2) by (simp_all add: mult_right_mono)
    from this [THEN sround_mono [of _ _ "2 ^ 149"]]
    show "0 \<le> sround (q * f32_units s) (2 ^ 149) \<and> sround (q * f32_units s) (2 ^ 149) \<le> f32_units s"
      unfolding ex z by simp
  next
    assume s: "f32_units s \<le> 0"
    then have "q * f32_units s \<le> 0" "2 ^ 149 * f32_units s \<le> q * f32_units s"
      using assms(1,2) by (simp_all add: mult_nonneg_nonpos mult_right_mono_neg)
    from this [THEN sround_mono [of _ _ "2 ^ 149"]]
    show "f32_units s \<le> sround (q * f32_units s) (2 ^ 149) \<and> sround (q * f32_units s) (2 ^ 149) \<le> 0"
      unfolding ex z by simp
  }
qed

lemma lm_inside_offset:
  assumes "mapping_ok m" and "lm_inside m v"
  shows "0 \<le> f32_units (f32_sub v (nr_from (lm_input m)))"
    "f32_units (f32_sub v (nr_from (lm_input m)))
       \<le> f32_units (f32_sub (nr_to (lm_input m)) (nr_from (lm_input m)))"
    "f32_units (f32_sub v (nr_from (lm_input m)))
       = sround (f32_units v - f32_units (nr_from (lm_input m))) 1"
    "f32_isfinite (f32_sub v (nr_from (lm_input m)))"
proof -
  let ?a = "nr_from (lm_input m)" and ?b = "nr_to (lm_input m)"
  from assms have f: "f32_isfinite ?a" "f32_isfinite ?b" "f32_isfinite v" "f32_isfinite (f32_sub ?b ?a)"
    and o': "f32_units ?a < f32_units v" "f32_units v < f32_units ?b"
    by (simp_all add: mapping_ok_def finite_range_def lm_inside_def)
  show eq: "f32_units (f32_sub v ?a) = sround (f32_units v - f32_units ?a) 1"
    using f by (simp add: f32_sub_finite)
  show lo: "0 \<le> f32_units (f32_sub v ?a)" unfolding eq using o' by (intro sround_nonneg) simp
  show hi: "f32_units (f32_sub v ?a) \<le> f32_units (f32_sub ?b ?a)"
    unfolding eq using f o' by (simp add: f32_sub_finite sround_mono)
  show "f32_isfinite (f32_sub v ?a)"
    by (rule f32_isfinite_between [OF f(4)]) (use lo hi in simp)
qed

lemma lm_map_inside:
  assumes ok: "mapping_ok m" and ins: "lm_inside m v"
  shows "\<not> f32_is_nan (lm_map m v) \<and> f32_units (lm_map m v) = lm_units m (f32_units v)"
proof -
  define a b c d where "a = nr_from (lm_input m)" and "b = nr_to (lm_input m)"
    and "c = nr_from (lm_output m)" and "d = nr_to (lm_output m)"
  define x w s where "x = f32_sub v a" and "w = f32_sub b a" and "s = f32_sub d c"
  define q where "q = f32_div x w"
  define p where "p = f32_mul q s"
  note abcd = a_def b_def c_def d_def
  from ok have f: "f32_isfinite w" "f32_isfinite c" "f32_isfinite s"
    by (simp_all add: mapping_ok_def finite_range_def w_def s_def abcd)
  have w0: "0 < f32_units w" using span_pos [OF ok] by (simp add: w_def abcd)
  note off = lm_inside_offset [OF ok ins, folded a_def b_def, folded x_def w_def]
  have uq: "f32_units q = sround (f32_units x * 2 ^ 149) (nat (f32_units w))"
    unfolding q_def by (rule f32_div_finite(2) [OF off(4) f(1) w0])
  have qb: "0 \<le> f32_units q" "f32_units q \<le> 2 ^ 149"
    using fraction_bounds [OF off(1) off(2) w0] by (simp_all add: uq)
  have "f32_isfinite q" using qb by (simp add: f32_isfinite_units mag_units_def f32_inf_mag_def)
  note mul = f32_mul_finite [OF this f(3), folded p_def]
  have "f32_isfinite p"
  proof (rule f32_isfinite_between [OF f(3)])
    show "\<bar>f32_units p\<bar> \<le> \<bar>f32_units s\<bar>"
      using product_bounds [OF qb f(3)] by (cases "0 \<le> f32_units s") (auto simp: mul)
  qed
  note add = f32_add_finite [OF f(2) this]
  have "lm_map m v = f32_add c p"
    using ins by (simp add: lm_map_def lm_inside_def f32_le_def Let_def p_def q_def x_def w_def s_def abcd)
  with add show ?thesis
    by (simp add: lm_units_def Let_def mul uq off(3) abcd [symmetric] w_def [symmetric] s_def [symmetric])
qed

lemma lm_units_step:
  assumes "mapping_ok m" and "u \<le> u'"
  shows "0 \<le> f32_units (f32_sub (nr_to (lm_output m)) (nr_from (lm_output m))) \<Longrightarrow>
      lm_units m u \<le> lm_units m u'"
    "f32_units (f32_sub (nr_to (lm_output m)) (nr_from (lm_output m))) \<le> 0 \<Longrightarrow>
      lm_units m u' \<le> lm_units m u"
proof -
  let ?a = "f32_units (nr_from (lm_input m))"
    and ?w = "f32_units (f32_sub (nr_to (lm_input m)) (nr_from (lm_input m)))"
  have q: "sround (sround (u - ?a) 1 * 2 ^ 149) (nat ?w) \<le> sround (sround (u' - ?a) 1 * 2 ^ 149) (nat ?w)"
    using span_pos [OF assms(1)] assms(2) by (simp add: sround_mono)
  show "0 \<le> f32_units (f32_sub (nr_to (lm_output m)) (nr_from (lm_output m))) \<Longrightarrow>
      lm_units m u \<le> lm_units m u'"
    unfolding lm_units_def Let_def using q by (intro sround_mono) (simp_all add: sround_mono mult_right_mono)
  show "f32_units (f32_sub (nr_to (lm_output m)) (nr_from (lm_output m))) \<le> 0 \<Longrightarrow>
      lm_units m u' \<le> lm_units m u"
    unfolding lm_units_def Let_def using q by (intro sround_mono) (simp_all add: sround_mono mult_right_mono_neg)
qed

lemma lm_units_start:
  assumes "mapping_ok m"
  shows "lm_units m (f32_units (nr_from (lm_input m))) = f32_units (nr_from (lm_output m))"
proof -
  have "f32_isfinite (nr_from (lm_output m))" using assms by (simp add: mapping_ok_def finite_range_def)
  then show ?thesis by (simp add: lm_units_def sround_exact [simplified])
qed

section \<open>The level a resolved range rule sends\<close>

lemma resolve_range_rule_ok:
  assumes "resolve_range_rule cat c = (st, Some r)"
  shows "rr_mapping r = \<lparr>lm_input = rrc_input c, lm_output = rrc_output c\<rparr>" "mapping_ok (rr_mapping r)"
    "rr_action r = rrc_action c" "rr_last r = None" "st = CfgOk"
    "\<exists>m \<in> set cat. md_id m = rr_signal r \<and> md_type m = TNumber \<and> caps_has (md_capabilities m) CRead"
  using assms
  by (auto simp: resolve_range_rule_def mapping_ok_def valid_ranges_def catalog_find_key_def
      dest: find_Some_mem split: option.splits if_splits)

lemma output_span_sign:
  assumes "mapping_ok m"
  shows "f32_le (nr_from (lm_output m)) (nr_to (lm_output m)) \<Longrightarrow>
      0 \<le> f32_units (f32_sub (nr_to (lm_output m)) (nr_from (lm_output m)))"
    "f32_le (nr_to (lm_output m)) (nr_from (lm_output m)) \<Longrightarrow>
      f32_units (f32_sub (nr_to (lm_output m)) (nr_from (lm_output m))) \<le> 0"
proof -
  let ?c = "nr_from (lm_output m)" and ?d = "nr_to (lm_output m)"
  have f: "f32_isfinite ?c" "f32_isfinite ?d" using assms by (simp_all add: mapping_ok_def finite_range_def)
  show "f32_le ?c ?d \<Longrightarrow> 0 \<le> f32_units (f32_sub ?d ?c)"
    using f by (simp add: f32_sub_finite f32_le_def sround_nonneg)
  show "f32_le ?d ?c \<Longrightarrow> f32_units (f32_sub ?d ?c) \<le> 0"
    using f sround_mono [of "f32_units ?d - f32_units ?c" 0 1] by (simp add: f32_sub_finite f32_le_def)
qed

text \<open>Below the end of the input range the map's value is \<open>lm_units\<close> of the clamped input.\<close>

lemma lm_map_below_end:
  assumes ok: "mapping_ok m" and "f32_isfinite v" and "f32_lt v (nr_to (lm_input m))"
  shows "\<not> f32_is_nan (lm_map m v) \<and>
    f32_units (lm_map m v) = lm_units m (max (f32_units v) (f32_units (nr_from (lm_input m))))"
proof (cases "f32_le v (nr_from (lm_input m))")
  case True
  then have "max (f32_units v) (f32_units (nr_from (lm_input m))) = f32_units (nr_from (lm_input m))"
    by (simp add: f32_le_def)
  with True ok show ?thesis
    by (simp add: lm_map_def lm_units_start [OF ok] mapping_ok_def finite_range_def f32_isfinite_not_nan)
next
  case False
  with assms have "lm_inside m v"
    by (simp add: lm_inside_def f32_le_def f32_lt_def f32_isfinite_not_nan mapping_ok_def finite_range_def)
  with lm_map_inside [OF ok this] show ?thesis
    by (simp add: lm_inside_def max_def)
qed

lemma lm_map_mono_below_end:
  assumes ok: "mapping_ok m" and v: "f32_isfinite v" and w: "f32_isfinite w"
    and le: "f32_le v w" and lt: "f32_lt w (nr_to (lm_input m))"
  shows "f32_le (nr_from (lm_output m)) (nr_to (lm_output m)) \<Longrightarrow>
      f32_le (nr_from (lm_output m)) (lm_map m v) \<and> f32_le (lm_map m v) (lm_map m w)"
    "f32_le (nr_to (lm_output m)) (nr_from (lm_output m)) \<Longrightarrow>
      f32_le (lm_map m v) (nr_from (lm_output m)) \<and> f32_le (lm_map m w) (lm_map m v)"
proof -
  let ?a = "f32_units (nr_from (lm_input m))"
  from le lt have ltv: "f32_lt v (nr_to (lm_input m))" by (auto simp: f32_le_def f32_lt_def)
  note mv = lm_map_below_end [OF ok v ltv] and mw = lm_map_below_end [OF ok w lt]
  have o1: "?a \<le> max (f32_units v) ?a" "max (f32_units v) ?a \<le> max (f32_units w) ?a"
    using le by (auto simp: f32_le_def)
  have nc: "\<not> f32_is_nan (nr_from (lm_output m))"
    using ok by (simp add: mapping_ok_def finite_range_def f32_isfinite_not_nan)
  note step = lm_units_step [OF ok o1(1)] lm_units_step [OF ok o1(2)]
  show "f32_le (nr_from (lm_output m)) (nr_to (lm_output m)) \<Longrightarrow>
      f32_le (nr_from (lm_output m)) (lm_map m v) \<and> f32_le (lm_map m v) (lm_map m w)"
    using step(1,3) output_span_sign(1) [OF ok] mv mw nc by (simp add: f32_le_def lm_units_start [OF ok])
  show "f32_le (nr_to (lm_output m)) (nr_from (lm_output m)) \<Longrightarrow>
      f32_le (lm_map m v) (nr_from (lm_output m)) \<and> f32_le (lm_map m w) (lm_map m v)"
    using step(2,4) output_span_sign(2) [OF ok] mv mw nc by (simp add: f32_le_def lm_units_start [OF ok])
qed

text \<open>Below the end it does not pass the first output bound plus the computed span.\<close>

lemma lm_units_last:
  assumes ok: "mapping_ok m" and u: "f32_units (nr_from (lm_input m)) \<le> u" "u \<le> f32_units (nr_to (lm_input m))"
  shows "0 \<le> f32_units (f32_sub (nr_to (lm_output m)) (nr_from (lm_output m))) \<Longrightarrow>
      lm_units m u \<le> f32_units (f32_add (nr_from (lm_output m)) (f32_sub (nr_to (lm_output m)) (nr_from (lm_output m))))"
    "f32_units (f32_sub (nr_to (lm_output m)) (nr_from (lm_output m))) \<le> 0 \<Longrightarrow>
      f32_units (f32_add (nr_from (lm_output m)) (f32_sub (nr_to (lm_output m)) (nr_from (lm_output m)))) \<le> lm_units m u"
proof -
  let ?a = "f32_units (nr_from (lm_input m))" and ?w = "f32_units (f32_sub (nr_to (lm_input m)) (nr_from (lm_input m)))"
  let ?s = "f32_sub (nr_to (lm_output m)) (nr_from (lm_output m))"
  define q where "q = sround (sround (u - ?a) 1 * 2 ^ 149) (nat ?w)"
  from ok have f: "f32_isfinite (nr_from (lm_output m))" "f32_isfinite ?s" "f32_isfinite (nr_to (lm_input m))" "f32_isfinite (nr_from (lm_input m))"
    by (simp_all add: mapping_ok_def finite_range_def)
  have "sround (u - ?a) 1 \<le> ?w" using u(2) f(3,4) by (simp add: f32_sub_finite sround_mono)
  moreover have "0 \<le> sround (u - ?a) 1" using u(1) by (intro sround_nonneg) simp
  ultimately have q: "0 \<le> q" "q \<le> 2 ^ 149" using fraction_bounds [of "sround (u - ?a) 1" ?w] span_pos [OF ok] by (simp_all add: q_def)
  note add = f32_add_finite [OF f(1,2)]
  have lm: "lm_units m u = sround (f32_units (nr_from (lm_output m)) + sround (q * f32_units ?s) (2 ^ 149)) 1"
    by (simp add: lm_units_def Let_def q_def)
  show "0 \<le> f32_units ?s \<Longrightarrow> lm_units m u \<le> f32_units (f32_add (nr_from (lm_output m)) ?s)"
    using product_bounds(1) [OF q f(2)] by (simp add: lm add sround_mono)
  show "f32_units ?s \<le> 0 \<Longrightarrow> f32_units (f32_add (nr_from (lm_output m)) ?s) \<le> lm_units m u"
    using product_bounds(2) [OF q f(2)] by (simp add: lm add sround_mono)
qed

lemma lm_map_last:
  assumes ok: "mapping_ok m" and w: "f32_isfinite w" and lt: "f32_lt w (nr_to (lm_input m))"
  shows "f32_le (nr_from (lm_output m)) (nr_to (lm_output m)) \<Longrightarrow>
      f32_le (lm_map m w) (f32_add (nr_from (lm_output m)) (f32_sub (nr_to (lm_output m)) (nr_from (lm_output m))))"
    "f32_le (nr_to (lm_output m)) (nr_from (lm_output m)) \<Longrightarrow>
      f32_le (f32_add (nr_from (lm_output m)) (f32_sub (nr_to (lm_output m)) (nr_from (lm_output m)))) (lm_map m w)"
proof -
  let ?a = "f32_units (nr_from (lm_input m))"
  have f: "f32_isfinite (nr_from (lm_output m))" "f32_isfinite (f32_sub (nr_to (lm_output m)) (nr_from (lm_output m)))"
    using ok by (simp_all add: mapping_ok_def finite_range_def)
  have u: "?a \<le> max (f32_units w) ?a" "max (f32_units w) ?a \<le> f32_units (nr_to (lm_input m))"
    using lt ok by (auto simp: f32_lt_def mapping_ok_def)
  note m = lm_map_below_end [OF ok w lt] and add = f32_add_finite [OF f]
  show "f32_le (nr_from (lm_output m)) (nr_to (lm_output m)) \<Longrightarrow>
      f32_le (lm_map m w) (f32_add (nr_from (lm_output m)) (f32_sub (nr_to (lm_output m)) (nr_from (lm_output m))))"
    using lm_units_last(1) [OF ok u] output_span_sign(1) [OF ok] m add by (simp add: f32_le_def)
  show "f32_le (nr_to (lm_output m)) (nr_from (lm_output m)) \<Longrightarrow>
      f32_le (f32_add (nr_from (lm_output m)) (f32_sub (nr_to (lm_output m)) (nr_from (lm_output m)))) (lm_map m w)"
    using lm_units_last(2) [OF ok u] output_span_sign(2) [OF ok] m add by (simp add: f32_le_def)
qed

section \<open>The whole map\<close>

text \<open>
  For finite values \<open>v \<le> w\<close>: below the end of the input range an ascending output starts at its first bound, grows
  with the value and ends at that bound plus the span as the code computes it; a descending one is the mirror image.
  At or above the end the result is exactly the second bound.
\<close>

definition level_between :: "numeric_range \<Rightarrow> f32 \<Rightarrow> f32 \<Rightarrow> bool" where
  "level_between out l l' = (let edge = f32_add (nr_from out) (f32_sub (nr_to out) (nr_from out)) in
     if f32_le (nr_from out) (nr_to out) then f32_le (nr_from out) l \<and> f32_le l l' \<and> f32_le l' edge
     else f32_le l (nr_from out) \<and> f32_le l' l \<and> f32_le edge l')"

lemma lm_map_at_end:
  assumes "mapping_ok m" and "f32_le (nr_to (lm_input m)) w" shows "lm_map m w = nr_to (lm_output m)"
  using assms by (auto simp: lm_map_def mapping_ok_def f32_le_def f32_lt_def)

lemma lm_map_monotone:
  assumes "mapping_ok m" and "f32_isfinite v" and "f32_isfinite w" and "f32_le v w" and lt: "\<not> f32_le (nr_to (lm_input m)) w"
  shows "level_between (lm_output m) (lm_map m v) (lm_map m w)"
proof -
  have n: "\<not> f32_is_nan w" "\<not> f32_is_nan (nr_to (lm_input m))" "\<not> f32_is_nan (nr_to (lm_output m))" "\<not> f32_is_nan (nr_from (lm_output m))"
    using assms(1,3) by (simp_all add: mapping_ok_def finite_range_def f32_isfinite_not_nan)
  with lt have lt: "f32_lt w (nr_to (lm_input m))" by (simp add: f32_le_def f32_lt_def)
  note mono = lm_map_mono_below_end [OF assms(1-4) lt] and edge = lm_map_last [OF assms(1,3) lt]
  show ?thesis
  proof (cases "f32_le (nr_from (lm_output m)) (nr_to (lm_output m))")
    case True
    with mono(1) edge(1) show ?thesis by (simp add: level_between_def Let_def)
  next
    case desc: False
    with n have "f32_le (nr_to (lm_output m)) (nr_from (lm_output m))" by (simp add: f32_le_def)
    with desc mono(2) edge(2) show ?thesis by (simp add: level_between_def Let_def)
  qed
qed

section \<open>Concrete ranges\<close>

definition sample_catalog :: catalog where
  "sample_catalog = [\<lparr>md_id = SignalId 1, md_key = ''rpm'', md_type = TNumber,
     md_unit = RevolutionsPerMinute, md_validation = Confirmed, md_capabilities = 3, md_choices = []\<rparr>]"

text \<open>Input 0 to 2, output 0 to 1 (bit patterns of \<open>2.0F\<close> and \<open>1.0F\<close>).\<close>

definition sample_range_config :: range_rule_config where
  "sample_range_config = \<lparr>rrc_key = ''rpm'', rrc_input = \<lparr>nr_from = 0, nr_to = 0x40000000\<rparr>,
     rrc_output = \<lparr>nr_from = 0, nr_to = 0x3F800000\<rparr>, rrc_action = ActionId 7,
     rrc_freshness = ReqFresh\<rparr>"

definition sample_range_rule :: range_rule where
  "sample_range_rule = \<lparr>rr_mapping = \<lparr>lm_input = \<lparr>nr_from = 0, nr_to = 0x40000000\<rparr>,
       lm_output = \<lparr>nr_from = 0, nr_to = 0x3F800000\<rparr>\<rparr>,
     rr_signal = SignalId 1, rr_action = ActionId 7, rr_freshness = ReqFresh, rr_last = None\<rparr>"

lemma sample_range_resolves:
  "resolve_range_rule sample_catalog sample_range_config = (CfgOk, Some sample_range_rule)"
  by (simp add: resolve_range_rule_def sample_catalog_def sample_range_config_def
      sample_range_rule_def catalog_find_key_def caps_has_def valid_ranges_def finite_range_def f32_eval)

lemma sample_values:
  "f32_isfinite 0x3F000000" "f32_isfinite 0x3F800000" "f32_le 0x3F000000 0x3F800000"
  "\<not> f32_le 0x40000000 0x3F800000" "f32_le 0 0x3F800000"
  by (simp_all add: f32_compare_eval)

definition overflow_mapping_config :: range_rule_config where
  "overflow_mapping_config = \<lparr>rrc_key = ''rpm'',
     rrc_input = \<lparr>nr_from = 0xC9800000, nr_to = 0x3F800000\<rparr>,
     rrc_output = \<lparr>nr_from = 0x73C00000, nr_to = 0x7F7FFFFF\<rparr>, rrc_action = ActionId 7,
     rrc_freshness = ReqFresh\<rparr>"

lemma overflow_spans:
  "f32_sub 0x3F800000 0xC9800000 = 0x49800008"
  "f32_sub 0x7F7FFFFF 0x73C00000 = 0x7F7FFFFE"
  "f32_sub 0x3F7FFFFF 0xC9800000 = 0x49800008"
  by (simp_all add: f32_eval)

lemma overflow_steps:
  "f32_div 0x49800008 0x49800008 = 0x3F800000"
  "f32_mul 0x3F800000 0x7F7FFFFE = 0x7F7FFFFE"
  "f32_add 0x73C00000 0x7F7FFFFE = 0x7F800000"
  by (simp_all add: f32_eval)

lemma overflow_facts:
  "f32_isfinite 0xC9800000" "f32_isfinite 0x3F800000" "f32_isfinite 0x73C00000"
  "f32_isfinite 0x7F7FFFFF" "f32_isfinite 0x49800008" "f32_isfinite 0x7F7FFFFE"
  "f32_isfinite 0x3F7FFFFF" "\<not> f32_isfinite 0x7F800000"
  "f32_lt 0xC9800000 0x3F800000" "\<not> f32_le 0x3F7FFFFF 0xC9800000"
  "\<not> f32_le 0x3F800000 0x3F7FFFFF"
  by (simp_all add: f32_compare_eval)

text \<open>
  Accepted ranges do not make every level finite. \<open>valid_ranges\<close> checks that the bounds
  and spans are finite, but the last addition of the interpolation rounds, and this accepted
  configuration sends an infinite level for a finite input just below the end of its range.
\<close>

lemma range_level_can_overflow:
  "valid_ranges overflow_mapping_config \<and> f32_isfinite 0x3F7FFFFF \<and>
   \<not> f32_isfinite (lm_map \<lparr>lm_input = rrc_input overflow_mapping_config,
                             lm_output = rrc_output overflow_mapping_config\<rparr> 0x3F7FFFFF)"
  by (simp add: overflow_mapping_config_def valid_ranges_def finite_range_def lm_map_def Let_def
      overflow_spans overflow_steps overflow_facts)

end
