(* ===== verification/Channel.thy ===== *)
theory Channel
  imports Signals
begin

text \<open>
  The latest-state notification channel
  (\<open>lib/signal_notification/private_include/signal_notification/notification_channel.hpp\<close>):
  two subscriber slots, one pending notice per slot, no queue. \<open>vehicle_core::Reading\<close> is
  external; its default value is the parameter \<open>r0\<close>. A dispatch is two steps, because the
  callback runs between them with the lock released: \<open>dispatch_begin\<close> detaches the notice,
  \<open>dispatch_end\<close> closes the delivery.
\<close>

section \<open>State\<close>

record chan_notice =
  cn_current :: signal_reading
  cn_initial :: bool
  cn_became_unavailable :: bool
  cn_recovered :: bool
  cn_coalesced :: bool

definition empty_notice :: "signal_reading \<Rightarrow> chan_notice" where
  "empty_notice r0 = \<lparr>cn_current = r0, cn_initial = False, cn_became_unavailable = False,
     cn_recovered = False, cn_coalesced = False\<rparr>"

datatype notification_status =
    NOk | NAlreadyRunning | NNotRunning | NInvalidState | NInvalidCallback | NInvalidSubscription
  | NCapacityExceeded | NNoPending

record handle =
  hd_channel :: u16
  hd_slot :: u8
  hd_generation :: u16

record subscriber =
  sb_callback :: "nat option"
  sb_generation :: u16
  sb_order :: u64
  sb_active :: bool
  sb_pending :: bool
  sb_seed :: bool
  sb_notice :: chan_notice

record channel =
  ch_subs :: "subscriber list"
  ch_current :: signal_reading
  ch_next_order :: u64
  ch_cursor :: u64
  ch_has_period :: bool
  ch_running :: bool
  ch_dispatching :: bool
  ch_callback_active :: bool

definition channel_subscribers :: nat where
  "channel_subscribers = 2"

definition subscriber_new :: "signal_reading \<Rightarrow> subscriber" where
  "subscriber_new r0 = \<lparr>sb_callback = None, sb_generation = 0, sb_order = 0, sb_active = False,
     sb_pending = False, sb_seed = False, sb_notice = empty_notice r0\<rparr>"

definition channel_new :: "signal_reading \<Rightarrow> channel" where
  "channel_new r0 = \<lparr>ch_subs = replicate channel_subscribers (subscriber_new r0), ch_current = r0,
     ch_next_order = 1, ch_cursor = 0, ch_has_period = False, ch_running = False,
     ch_dispatching = False, ch_callback_active = False\<rparr>"

section \<open>Registration\<close>

definition order_after :: "u64 \<Rightarrow> u64" where
  "order_after n = (if n + 1 = 0 then 1 else n + 1)"

definition generation_after :: "u16 \<Rightarrow> u16" where
  "generation_after g = (if g + 1 = 0 then 1 else g + 1)"

definition channel_subscribe ::
  "signal_reading \<Rightarrow> nat option \<Rightarrow> channel \<Rightarrow> (notification_status \<times> handle option) \<times> channel" where
  "channel_subscribe r0 cb ch =
     (if ch_callback_active ch \<or> ch_running ch then ((NInvalidState, None), ch)
      else if cb = None then ((NInvalidCallback, None), ch)
      else case find_index (\<lambda>s. \<not> sb_active s) (ch_subs ch) of
          None \<Rightarrow> ((NCapacityExceeded, None), ch)
        | Some i \<Rightarrow> (let s = ch_subs ch ! i; g = generation_after (sb_generation s)
            in ((NOk, Some \<lparr>hd_channel = 0, hd_slot = of_nat i, hd_generation = g\<rparr>),
                ch\<lparr>ch_subs := (ch_subs ch)[i := \<lparr>sb_callback = cb, sb_generation = g,
                       sb_order = ch_next_order ch, sb_active = True, sb_pending = False,
                       sb_seed = False, sb_notice = empty_notice r0\<rparr>],
                   ch_next_order := order_after (ch_next_order ch)\<rparr>)))"

definition find_subscriber :: "channel \<Rightarrow> handle \<Rightarrow> nat option" where
  "find_subscriber ch h =
     (if hd_channel h \<noteq> 0 \<or> length (ch_subs ch) \<le> unat (hd_slot h) then None
      else let s = ch_subs ch ! unat (hd_slot h)
        in if \<not> sb_active s \<or> sb_generation s \<noteq> hd_generation h then None
           else Some (unat (hd_slot h)))"

definition channel_unsubscribe ::
  "signal_reading \<Rightarrow> handle \<Rightarrow> channel \<Rightarrow> notification_status \<times> channel" where
  "channel_unsubscribe r0 h ch =
     (if ch_callback_active ch \<or> ch_running ch then (NInvalidState, ch)
      else case find_subscriber ch h of
          None \<Rightarrow> (NInvalidSubscription, ch)
        | Some i \<Rightarrow> (NOk, ch\<lparr>ch_subs := (ch_subs ch)[i := (ch_subs ch ! i)
              \<lparr>sb_active := False, sb_callback := None, sb_pending := False, sb_seed := False,
               sb_notice := empty_notice r0, sb_order := 0\<rparr>]\<rparr>))"

section \<open>Lifecycle\<close>

definition subscriber_start :: "signal_reading \<Rightarrow> subscriber \<Rightarrow> subscriber" where
  "subscriber_start r0 s = s\<lparr>sb_pending := sb_active s, sb_seed := True,
     sb_notice := (empty_notice r0)\<lparr>cn_initial := True\<rparr>\<rparr>"

definition channel_start :: "signal_reading \<Rightarrow> channel \<Rightarrow> notification_status \<times> channel" where
  "channel_start r0 ch =
     (if ch_callback_active ch \<or> ch_running ch then (NAlreadyRunning, ch)
      else (NOk, ch\<lparr>ch_running := True, ch_dispatching := False, ch_cursor := 0, ch_current := r0,
              ch_has_period := False, ch_subs := map (subscriber_start r0) (ch_subs ch)\<rparr>))"

definition subscriber_stop :: "signal_reading \<Rightarrow> subscriber \<Rightarrow> subscriber" where
  "subscriber_stop r0 s = s\<lparr>sb_pending := False, sb_seed := False, sb_notice := empty_notice r0\<rparr>"

definition channel_stop :: "signal_reading \<Rightarrow> channel \<Rightarrow> notification_status \<times> channel" where
  "channel_stop r0 ch =
     (if ch_callback_active ch \<or> ch_dispatching ch then (NInvalidState, ch)
      else if \<not> ch_running ch then (NNotRunning, ch)
      else (NOk, ch\<lparr>ch_running := False, ch_has_period := False,
              ch_subs := map (subscriber_stop r0) (ch_subs ch)\<rparr>))"

section \<open>Publication\<close>

definition reading_available :: "signal_reading \<Rightarrow> bool" where
  "reading_available r = (rd_value r \<noteq> None
     \<and> (rd_availability r = Fresh \<or> rd_availability r = FreshnessUnverified))"

definition same_value :: "signal_value option \<Rightarrow> signal_value option \<Rightarrow> bool" where
  "same_value a b = (case (a, b) of (None, None) \<Rightarrow> True | (Some x, Some y) \<Rightarrow> sv_eq x y | _ \<Rightarrow> False)"

definition same_reading :: "signal_reading \<Rightarrow> signal_reading \<Rightarrow> bool" where
  "same_reading a b = (same_value (rd_value a) (rd_value b)
     \<and> rd_availability a = rd_availability b \<and> rd_validation a = rd_validation b)"

definition merge_pending :: "chan_notice \<Rightarrow> subscriber \<Rightarrow> subscriber" where
  "merge_pending u s =
     (if \<not> sb_pending s then s\<lparr>sb_notice := u, sb_pending := True, sb_seed := False\<rparr>
      else s\<lparr>sb_notice := (sb_notice s)
               \<lparr>cn_coalesced := cn_coalesced (sb_notice s) \<or> \<not> sb_seed s,
                cn_current := cn_current u,
                cn_became_unavailable := cn_became_unavailable (sb_notice s) \<or> cn_became_unavailable u,
                cn_recovered := cn_recovered (sb_notice s) \<or> cn_recovered u\<rparr>,
             sb_seed := False\<rparr>)"

definition publish_update :: "channel \<Rightarrow> signal_reading \<Rightarrow> chan_notice" where
  "publish_update ch r = (let was = reading_available (ch_current ch); now = reading_available r
     in \<lparr>cn_current = r, cn_initial = False, cn_became_unavailable = was \<and> \<not> now,
         cn_recovered = \<not> was \<and> now \<and> ch_has_period ch, cn_coalesced = False\<rparr>)"

definition channel_publish :: "signal_reading \<Rightarrow> channel \<Rightarrow> notification_status \<times> channel" where
  "channel_publish r ch =
     (if \<not> ch_running ch then (NNotRunning, ch)
      else if same_reading (ch_current ch) r then (NOk, ch)
      else (NOk, ch\<lparr>ch_current := r, ch_has_period := ch_has_period ch \<or> reading_available r,
              ch_subs := map (\<lambda>s. if sb_active s then merge_pending (publish_update ch r) s else s)
                             (ch_subs ch)\<rparr>))"

section \<open>Dispatch\<close>

text \<open>The slot with the least registration order among those that satisfy \<open>Q\<close>, first one on ties.\<close>

fun oldest :: "(subscriber \<Rightarrow> bool) \<Rightarrow> nat \<Rightarrow> subscriber list \<Rightarrow> (nat \<times> u64) option \<Rightarrow> (nat \<times> u64) option" where
  "oldest Q i [] best = best"
| "oldest Q i (s # ss) best =
     oldest Q (Suc i) ss
       (if \<not> Q s then best
        else case best of None \<Rightarrow> Some (i, sb_order s)
          | Some (j, o') \<Rightarrow> if sb_order s < o' then Some (i, sb_order s) else best)"

definition next_pending :: "channel \<Rightarrow> nat option" where
  "next_pending ch =
     (case oldest (\<lambda>s. sb_active s \<and> sb_pending s \<and> ch_cursor ch < sb_order s) 0 (ch_subs ch) None of
        Some (i, _) \<Rightarrow> Some i
      | None \<Rightarrow> map_option fst (oldest (\<lambda>s. sb_active s \<and> sb_pending s) 0 (ch_subs ch) None))"

text \<open>A delivery: the slot it goes to, its callback with context, and the notice.\<close>

type_synonym chan_delivery = "nat \<times> nat option \<times> chan_notice"

definition dispatch_begin :: "channel \<Rightarrow> notification_status \<times> chan_delivery option \<times> channel" where
  "dispatch_begin ch =
     (if \<not> ch_running ch then (NNotRunning, None, ch)
      else if ch_callback_active ch \<or> ch_dispatching ch then (NInvalidState, None, ch)
      else case next_pending ch of
          None \<Rightarrow> (NNoPending, None, ch)
        | Some i \<Rightarrow> (let s = ch_subs ch ! i
            in (NOk, Some (i, sb_callback s, sb_notice s),
                ch\<lparr>ch_cursor := sb_order s, ch_subs := (ch_subs ch)[i := s\<lparr>sb_pending := False, sb_seed := False\<rparr>],
                   ch_dispatching := True, ch_callback_active := True\<rparr>)))"

definition dispatch_end :: "channel \<Rightarrow> channel" where
  "dispatch_end ch = ch\<lparr>ch_callback_active := False, ch_dispatching := False\<rparr>"

text \<open>
  \<open>dispatch_one\<close> with a callback that leaves the channel alone, and the bounded pass
  \<open>dispatch_pending\<close>; the interleaving with publications is the step relation below.
\<close>

definition dispatch_one :: "channel \<Rightarrow> notification_status \<times> chan_delivery option \<times> channel" where
  "dispatch_one ch = (case dispatch_begin ch of
       (NOk, d, ch') \<Rightarrow> (NOk, d, dispatch_end ch')
     | (st, d, ch') \<Rightarrow> (st, d, ch'))"

fun dispatch_pending :: "nat \<Rightarrow> channel \<Rightarrow> chan_delivery list \<times> channel" where
  "dispatch_pending 0 ch = ([], ch)"
| "dispatch_pending (Suc k) ch = (case dispatch_one ch of
       (NOk, d, ch') \<Rightarrow> (case dispatch_pending k ch' of (ds, ch'') \<Rightarrow> ((case d of Some x \<Rightarrow> [x] | None \<Rightarrow> []) @ ds, ch''))
     | (_, _, ch') \<Rightarrow> ([], ch'))"

end
