(* ===== verification/Channel_Laws.thy ===== *)
theory Channel_Laws
  imports Channel
begin

text \<open>
  Histories of one notification channel: registrations, runs, publications from any context and
  dispatches whose callbacks run between their two steps. The log is what has been delivered
  since the last start; the counter is the number of registrations, so that the wrap of the
  64-bit registration order is visible.
\<close>

section \<open>Steps\<close>

type_synonym chan_state = "nat \<times> channel \<times> chan_delivery list"

inductive chan_step :: "signal_reading \<Rightarrow> chan_state \<Rightarrow> chan_state \<Rightarrow> bool" for r0 :: signal_reading where
  Subscribe: "channel_subscribe r0 cb ch = ((st, h), ch') \<Longrightarrow>
     chan_step r0 (n, ch, log) (if st = NOk then Suc n else n, ch', log)"
| Unsubscribe: "chan_step r0 (n, ch, log) (n, snd (channel_unsubscribe r0 h ch), log)"
| Start: "channel_start r0 ch = (st, ch') \<Longrightarrow>
     chan_step r0 (n, ch, log) (n, ch', if st = NOk then [] else log)"
| Stop: "chan_step r0 (n, ch, log) (n, snd (channel_stop r0 ch), log)"
| Publish: "chan_step r0 (n, ch, log) (n, snd (channel_publish r ch), log)"
| Dispatch: "dispatch_begin ch = (st, d, ch') \<Longrightarrow>
     chan_step r0 (n, ch, log) (n, ch', log @ (case d of None \<Rightarrow> [] | Some x \<Rightarrow> [x]))"
| Return: "ch_dispatching ch \<Longrightarrow> chan_step r0 (n, ch, log) (n, dispatch_end ch, log)"

inductive chan_reach :: "signal_reading \<Rightarrow> chan_state \<Rightarrow> bool" for r0 :: signal_reading where
  Start: "chan_reach r0 (0, channel_new r0, [])"
| Step: "chan_reach r0 s \<Longrightarrow> chan_step r0 s s' \<Longrightarrow> chan_reach r0 s'"

section \<open>The invariant\<close>

definition slot_log :: "nat \<Rightarrow> chan_delivery list \<Rightarrow> chan_notice list" where
  "slot_log i log = map (snd \<circ> snd) (filter (\<lambda>d. fst d = i) log)"

lemma slot_log_simps [simp]:
  "slot_log i [] = []"
  "slot_log i (log @ [(j, cb, m)]) = slot_log i log @ (if j = i then [m] else [])"
  by (simp_all add: slot_log_def)

definition slot_ok :: "channel \<Rightarrow> chan_notice list \<Rightarrow> subscriber \<Rightarrow> bool" where
  "slot_ok ch lg s =
     ((sb_pending s \<longrightarrow> sb_active s \<and> ch_running ch)
      \<and> (sb_active s \<longrightarrow> sb_callback s \<noteq> None \<and> sb_generation s \<noteq> 0)
      \<and> (ch_running ch \<and> sb_active s \<longrightarrow>
          (sb_pending s \<longrightarrow> cn_current (sb_notice s) = ch_current ch \<and> cn_initial (sb_notice s) = (lg = []))
          \<and> (\<not> sb_pending s \<longrightarrow> lg \<noteq> [] \<and> cn_current (last lg) = ch_current ch))
      \<and> (ch_running ch \<longrightarrow> map cn_initial lg = map (\<lambda>i. i = 0) [0..<length lg]))"

definition orders_ok :: "nat \<Rightarrow> channel \<Rightarrow> bool" where
  "orders_ok n ch = (n < 18446744073709551615 \<longrightarrow>
      unat (ch_next_order ch) = Suc n
      \<and> (\<forall>s \<in> set (ch_subs ch). sb_active s \<longrightarrow> 0 < unat (sb_order s) \<and> unat (sb_order s) \<le> n)
      \<and> (\<forall>i < 2. \<forall>j < 2. i \<noteq> j \<and> sb_active (ch_subs ch ! i) \<and> sb_active (ch_subs ch ! j) \<longrightarrow>
            sb_order (ch_subs ch ! i) \<noteq> sb_order (ch_subs ch ! j)))"

definition flags_ok :: "channel \<Rightarrow> bool" where
  "flags_ok ch = (length (ch_subs ch) = 2 \<and> ch_callback_active ch = ch_dispatching ch
     \<and> (ch_dispatching ch \<longrightarrow> ch_running ch))"

definition slots_ok :: "channel \<Rightarrow> chan_delivery list \<Rightarrow> bool" where
  "slots_ok ch log = (\<forall>i < 2. slot_ok ch (slot_log i log) (ch_subs ch ! i))"

lemma all_lt_2: "(\<forall>i < (2::nat). P i) \<longleftrightarrow> P 0 \<and> P 1"
  by (auto simp: less_2_cases_iff)

lemma two_slots:
  assumes "flags_ok ch"
  obtains a b where "ch_subs ch = [a, b]"
proof -
  from assms have "length (ch_subs ch) = Suc (Suc 0)" by (simp add: flags_ok_def)
  then show ?thesis by (auto simp: length_Suc_conv intro: that)
qed

lemma slots_ok_two:
  "ch_subs ch = [a, b] \<Longrightarrow> slots_ok ch log \<longleftrightarrow> slot_ok ch (slot_log 0 log) a \<and> slot_ok ch (slot_log 1 log) b"
  by (simp add: slots_ok_def all_lt_2)

lemma orders_ok_two:
  "ch_subs ch = [a, b] \<Longrightarrow> orders_ok n ch \<longleftrightarrow> (n < 18446744073709551615 \<longrightarrow>
      unat (ch_next_order ch) = Suc n
      \<and> (sb_active a \<longrightarrow> 0 < unat (sb_order a) \<and> unat (sb_order a) \<le> n)
      \<and> (sb_active b \<longrightarrow> 0 < unat (sb_order b) \<and> unat (sb_order b) \<le> n)
      \<and> (sb_active a \<and> sb_active b \<longrightarrow> sb_order a \<noteq> sb_order b))"
  unfolding orders_ok_def all_lt_2 by auto

lemma order_after_unat: "unat n < 18446744073709551615 \<Longrightarrow> unat (order_after n) = Suc (unat n)"
proof -
  assume a: "unat n < 18446744073709551615"
  then have "unat (n + 1) = Suc (unat n)" by (simp add: unat_word_ariths)
  then show ?thesis using a by (auto simp: order_after_def)
qed

lemma generation_after_nonzero [simp]: "generation_after g \<noteq> 0"
  by (simp add: generation_after_def)

section \<open>Every step keeps it\<close>

definition vacated :: "signal_reading \<Rightarrow> subscriber \<Rightarrow> subscriber" where
  "vacated r0 s = s\<lparr>sb_active := False, sb_callback := None, sb_pending := False, sb_seed := False,
     sb_notice := empty_notice r0, sb_order := 0\<rparr>"

lemma vacated_simps [simp]:
  "\<not> sb_active (vacated r0 s)" "\<not> sb_pending (vacated r0 s)"
  by (simp_all add: vacated_def)

lemma unsubscribe_cases:
  assumes "ch_subs ch = [a, b]"
  obtains (same) "snd (channel_unsubscribe r0 h ch) = ch"
  | (first) "\<not> ch_running ch" "snd (channel_unsubscribe r0 h ch) = ch\<lparr>ch_subs := [vacated r0 a, b]\<rparr>"
  | (second) "\<not> ch_running ch" "snd (channel_unsubscribe r0 h ch) = ch\<lparr>ch_subs := [a, vacated r0 b]\<rparr>"
proof (cases "fst (channel_unsubscribe r0 h ch) = NOk")
  case False
  then have "snd (channel_unsubscribe r0 h ch) = ch"
    by (auto simp: channel_unsubscribe_def Let_def split: option.splits if_splits)
  then show ?thesis by (rule same)
next
  case True
  then obtain i where i: "find_subscriber ch h = Some i" "\<not> ch_running ch" "\<not> ch_callback_active ch"
    by (auto simp: channel_unsubscribe_def split: option.splits if_splits)
  then have "i < 2" using assms by (auto simp: find_subscriber_def Let_def split: if_splits)
  then consider "i = 0" | "i = 1" by linarith
  then show ?thesis
    using i assms by cases (auto simp: channel_unsubscribe_def vacated_def intro: first second)
qed

lemma flags_ok_step: "chan_step r0 (n, ch, log) (n', ch', log') \<Longrightarrow> flags_ok ch \<Longrightarrow> flags_ok ch'"
  by (cases rule: chan_step.cases, assumption)
     (auto simp: flags_ok_def channel_subscribe_def channel_unsubscribe_def channel_start_def channel_stop_def
        channel_publish_def dispatch_begin_def dispatch_end_def Let_def split: if_splits option.splits)

definition occupied :: "signal_reading \<Rightarrow> nat option \<Rightarrow> channel \<Rightarrow> subscriber \<Rightarrow> subscriber" where
  "occupied r0 cb ch s = \<lparr>sb_callback = cb, sb_generation = generation_after (sb_generation s),
     sb_order = ch_next_order ch, sb_active = True, sb_pending = False, sb_seed = False,
     sb_notice = empty_notice r0\<rparr>"

lemma channel_subscribe_cases:
  assumes "ch_subs ch = [a, b]" and "channel_subscribe r0 cb ch = ((st, h), ch')"
  obtains (same) "st \<noteq> NOk" "h = None" "ch' = ch"
  | (first) "st = NOk" "\<not> ch_running ch" "cb \<noteq> None" "\<not> sb_active a"
      "h = Some \<lparr>hd_channel = 0, hd_slot = 0, hd_generation = generation_after (sb_generation a)\<rparr>"
      "ch' = ch\<lparr>ch_subs := [occupied r0 cb ch a, b], ch_next_order := order_after (ch_next_order ch)\<rparr>"
  | (second) "st = NOk" "\<not> ch_running ch" "cb \<noteq> None" "sb_active a" "\<not> sb_active b"
      "h = Some \<lparr>hd_channel = 0, hd_slot = 1, hd_generation = generation_after (sb_generation b)\<rparr>"
      "ch' = ch\<lparr>ch_subs := [a, occupied r0 cb ch b], ch_next_order := order_after (ch_next_order ch)\<rparr>"
proof (cases "st = NOk")
  case False
  with assms(2) have "ch' = ch" "h = None"
    by (auto simp: channel_subscribe_def Let_def split: if_splits option.splits)
  with False show ?thesis by (intro same)
next
  case True
  with assms(2) obtain c where r: "\<not> ch_running ch" "\<not> ch_callback_active ch" "cb = Some c"
    by (auto simp: channel_subscribe_def Let_def split: if_splits)
  show ?thesis
  proof (cases "sb_active a")
    case False
    with r assms show ?thesis
      by (intro first) (simp_all add: channel_subscribe_def occupied_def Let_def)
  next
    case a: True
    show ?thesis
    proof (cases "sb_active b")
      case False
      with a r assms show ?thesis
        by (intro second) (simp_all add: channel_subscribe_def occupied_def Let_def)
    next
      case b: True
      with a r assms True show ?thesis by (simp add: channel_subscribe_def)
    qed
  qed
qed

lemma orders_ok_subscribe:
  assumes "flags_ok ch" "orders_ok n ch" "channel_subscribe r0 cb ch = ((st, h), ch')"
  shows "orders_ok (if st = NOk then Suc n else n) ch'"
proof -
  obtain a b where ab: "ch_subs ch = [a, b]" using assms(1) by (rule two_slots)
  have next': "Suc n < 18446744073709551615 \<Longrightarrow> unat (ch_next_order ch) = Suc n \<Longrightarrow>
      unat (order_after (ch_next_order ch)) = Suc (Suc n)"
    using order_after_unat [of "ch_next_order ch"] by simp
  note two = orders_ok_two [OF ab]
  from ab assms(3) show ?thesis
  proof (cases rule: channel_subscribe_cases)
    case same
    with assms(2) show ?thesis by simp
  next
    case first
    then show ?thesis using assms(2) next' by (auto simp: two orders_ok_two occupied_def)
  next
    case second
    then show ?thesis using assms(2) next' by (auto simp: two orders_ok_two occupied_def)
  qed
qed

definition orders_view :: "channel \<Rightarrow> u64 \<times> (bool \<times> u64) list" where
  "orders_view ch = (ch_next_order ch, map (\<lambda>s. (sb_active s, sb_order s)) (ch_subs ch))"

lemma orders_ok_view:
  assumes "orders_view ch' = orders_view ch" and "flags_ok ch" and "orders_ok n ch"
  shows "orders_ok n ch'"
proof -
  obtain a b where ab: "ch_subs ch = [a, b]" using assms(2) by (rule two_slots)
  from assms(1) obtain a' b' where ab': "ch_subs ch' = [a', b']"
    and eqs: "sb_active a' = sb_active a" "sb_order a' = sb_order a" "sb_active b' = sb_active b"
      "sb_order b' = sb_order b" "ch_next_order ch' = ch_next_order ch"
    by (auto simp: orders_view_def ab map_eq_Cons_conv)
  from assms(3) show ?thesis unfolding orders_ok_two [OF ab] orders_ok_two [OF ab'] eqs .
qed

lemma orders_view_start [simp]: "orders_view (snd (channel_start r0 ch)) = orders_view ch"
  by (simp add: channel_start_def orders_view_def comp_def subscriber_start_def)

lemma orders_view_stop [simp]: "orders_view (snd (channel_stop r0 ch)) = orders_view ch"
  by (simp add: channel_stop_def orders_view_def comp_def subscriber_stop_def)

lemma orders_view_publish [simp]: "orders_view (snd (channel_publish r ch)) = orders_view ch"
  by (simp add: channel_publish_def orders_view_def comp_def merge_pending_def)

lemma orders_view_end [simp]: "orders_view (dispatch_end ch) = orders_view ch"
  by (simp add: dispatch_end_def orders_view_def)

lemma oldest_index:
  "oldest Q i ss best = Some (j, k) \<Longrightarrow> best = Some (j, k) \<or> (i \<le> j \<and> j < i + length ss \<and> Q (ss ! (j - i)) \<and> k = sb_order (ss ! (j - i)))"
proof (induction ss arbitrary: i best)
  case (Cons s ss)
  let ?b = "if \<not> Q s then best else case best of None \<Rightarrow> Some (i, sb_order s)
      | Some (j, o') \<Rightarrow> if sb_order s < o' then Some (i, sb_order s) else best"
  have "?b = best \<or> (Q s \<and> ?b = Some (i, sb_order s))" by (auto split: option.splits)
  moreover from Cons.prems have "oldest Q (Suc i) ss ?b = Some (j, k)" by simp
  from Cons.IH [OF this] have "?b = Some (j, k) \<or> (Suc i \<le> j \<and> j < Suc i + length ss
      \<and> Q (ss ! (j - Suc i)) \<and> k = sb_order (ss ! (j - Suc i)))" .
  ultimately show ?case by (auto simp: nth_Cons' Suc_le_eq)
qed simp

lemma next_pending_index:
  "next_pending ch = Some i \<Longrightarrow> i < length (ch_subs ch) \<and> sb_active (ch_subs ch ! i) \<and> sb_pending (ch_subs ch ! i)"
  by (auto simp: next_pending_def split: option.splits dest!: oldest_index)

lemma dispatch_cases:
  assumes "dispatch_begin ch = (st, d, ch')"
  obtains (same) "st \<noteq> NOk" "d = None" "ch' = ch"
  | (taken) i where "st = NOk" "ch_running ch" "\<not> ch_dispatching ch" "next_pending ch = Some i" "i < length (ch_subs ch)"
      "sb_active (ch_subs ch ! i)" "sb_pending (ch_subs ch ! i)"
      "d = Some (i, sb_callback (ch_subs ch ! i), sb_notice (ch_subs ch ! i))"
      "ch' = ch\<lparr>ch_cursor := sb_order (ch_subs ch ! i),
         ch_subs := (ch_subs ch)[i := (ch_subs ch ! i)\<lparr>sb_pending := False, sb_seed := False\<rparr>],
         ch_dispatching := True, ch_callback_active := True\<rparr>"
proof (cases "st = NOk")
  case False
  with assms show ?thesis
    by (intro same) (auto simp: dispatch_begin_def Let_def split: if_splits option.splits)
next
  case True
  with assms obtain i where i: "ch_running ch" "\<not> ch_callback_active ch" "\<not> ch_dispatching ch" "next_pending ch = Some i"
    by (auto simp: dispatch_begin_def split: if_splits option.splits)
  from next_pending_index [OF i(4)] i assms True show ?thesis
    by (intro taken [of i]) (simp_all add: dispatch_begin_def Let_def)
qed

lemma orders_view_begin [simp]: "orders_view (snd (snd (dispatch_begin ch))) = orders_view ch"
proof -
  obtain st d ch' where d: "dispatch_begin ch = (st, d, ch')" by (metis prod_cases3)
  then show ?thesis
  proof (cases rule: dispatch_cases)
    case (taken i)
    have "map (\<lambda>s. (sb_active s, sb_order s)) ((ch_subs ch)[i := (ch_subs ch ! i)\<lparr>sb_pending := False, sb_seed := False\<rparr>])
        = map (\<lambda>s. (sb_active s, sb_order s)) (ch_subs ch)"
      using taken(5) by (simp add: map_update list_update_same_conv)
    with taken d show ?thesis by (simp add: orders_view_def)
  qed (use d in simp)
qed

lemma orders_ok_step:
  assumes "chan_step r0 (n, ch, log) (n', ch', log')" "flags_ok ch" "orders_ok n ch"
  shows "orders_ok n' ch'"
proof -
  obtain a b where ab: "ch_subs ch = [a, b]" using assms(2) by (rule two_slots)
  note two = orders_ok_two [OF ab]
  show ?thesis
    using assms(1)
  proof (cases rule: chan_step.cases)
    case (Subscribe cb st h)
    with orders_ok_subscribe [OF assms(2,3)] show ?thesis by auto
  next
    case (Unsubscribe h)
    from ab show ?thesis
    proof (cases rule: unsubscribe_cases [where h = h and ?r0.0 = r0])
      case same
      with Unsubscribe assms(3) show ?thesis by simp
    next
      case first
      with Unsubscribe assms(3) show ?thesis by (simp add: two orders_ok_two)
    next
      case second
      with Unsubscribe assms(3) show ?thesis by (simp add: two orders_ok_two)
    qed
  next
    case (Start st)
    then have "orders_view ch' = orders_view ch" by (metis orders_view_start snd_conv)
    with Start show ?thesis using orders_ok_view [OF _ assms(2,3)] by simp
  next
    case Stop
    then show ?thesis using orders_ok_view [OF _ assms(2,3)] by simp
  next
    case (Publish r)
    then show ?thesis using orders_ok_view [OF _ assms(2,3)] by simp
  next
    case (Dispatch st d)
    then have "orders_view ch' = orders_view ch" by (metis orders_view_begin snd_conv)
    with Dispatch show ?thesis using orders_ok_view [OF _ assms(2,3)] by simp
  next
    case Return
    then show ?thesis using orders_ok_view [OF _ assms(2,3)] by simp
  qed
qed

text \<open>Slots depend on the run flag and the current reading of the channel only.\<close>

lemma slot_ok_frame:
  assumes "ch_running ch' = ch_running ch" "ch_current ch' = ch_current ch"
  shows "slot_ok ch' lg s = slot_ok ch lg s"
  using assms by (simp add: slot_ok_def)

lemma slot_ok_stopped: "\<not> ch_running ch \<Longrightarrow> slot_ok ch lg s \<longleftrightarrow>
    \<not> sb_pending s \<and> (sb_active s \<longrightarrow> sb_callback s \<noteq> None \<and> sb_generation s \<noteq> 0)"
  by (auto simp: slot_ok_def)

lemma slots_ok_map:
  assumes "slots_ok ch log" and "flags_ok ch" and "ch_subs ch' = map f (ch_subs ch)"
    and "\<And>lg s. slot_ok ch lg s \<Longrightarrow> slot_ok ch' lg (f s)"
  shows "slots_ok ch' log"
  using assms by (auto simp: slots_ok_def flags_ok_def)

lemma slots_ok_step:
  assumes "chan_step r0 (n, ch, log) (n', ch', log')" and fl: "flags_ok ch" and ok: "slots_ok ch log"
  shows "slots_ok ch' log'"
proof -
  obtain a b where ab: "ch_subs ch = [a, b]" using fl by (rule two_slots)
  note two = slots_ok_two [OF ab]
  show ?thesis
    using assms(1)
  proof (cases rule: chan_step.cases)
    case (Subscribe cb st h)
    from ab Subscribe(3) show ?thesis
    proof (cases rule: channel_subscribe_cases)
      case same
      with ok Subscribe show ?thesis by simp
    next
      case first
      with ok Subscribe show ?thesis by (simp add: two slots_ok_two slot_ok_stopped occupied_def)
    next
      case second
      with ok Subscribe show ?thesis by (simp add: two slots_ok_two slot_ok_stopped occupied_def)
    qed
  next
    case (Unsubscribe h)
    from ab show ?thesis
    proof (cases rule: unsubscribe_cases [where h = h and ?r0.0 = r0])
      case same
      with Unsubscribe ok show ?thesis by simp
    next
      case first
      with Unsubscribe ok show ?thesis by (simp add: two slots_ok_two slot_ok_stopped)
    next
      case second
      with Unsubscribe ok show ?thesis by (simp add: two slots_ok_two slot_ok_stopped)
    qed
  next
    case (Start st)
    show ?thesis
    proof (cases "ch_callback_active ch \<or> ch_running ch")
      case True
      with Start ok show ?thesis by (simp add: channel_start_def)
    next
      case False
      with Start have "log' = []" and ch': "ch_running ch'" "ch_current ch' = r0"
        "ch_subs ch' = map (subscriber_start r0) (ch_subs ch)"
        by (auto simp: channel_start_def)
      with ok False show ?thesis
        by (auto simp: slots_ok_def slot_ok_def subscriber_start_def empty_notice_def ab all_lt_2)
    qed
  next
    case Stop
    show ?thesis
    proof (cases "fst (channel_stop r0 ch) = NOk")
      case False
      with Stop ok show ?thesis by (auto simp: channel_stop_def split: if_splits)
    next
      case True
      with Stop have "\<not> ch_running ch'" "ch_subs ch' = map (subscriber_stop r0) (ch_subs ch)" "log' = log"
        by (auto simp: channel_stop_def split: if_splits)
      with ok ab show ?thesis
        by (auto simp: slots_ok_def all_lt_2 slot_ok_stopped) (auto simp: subscriber_stop_def slot_ok_def)
    qed
  next
    case (Publish r)
    show ?thesis
    proof (cases "ch_running ch \<and> \<not> same_reading (ch_current ch) r")
      case False
      with Publish ok show ?thesis by (auto simp: channel_publish_def)
    next
      case True
      with Publish have ch': "ch_running ch'" "ch_current ch' = r" "log' = log"
        "ch_subs ch' = map (\<lambda>s. if sb_active s then merge_pending (publish_update ch r) s else s) (ch_subs ch)"
        by (auto simp: channel_publish_def)
      have "slots_ok ch' log"
      proof (rule slots_ok_map [OF ok fl ch'(4)])
        fix lg s assume "slot_ok ch lg s"
        with True ch'(1,2) show "slot_ok ch' lg (if sb_active s then merge_pending (publish_update ch r) s else s)"
          by (auto simp: slot_ok_def merge_pending_def publish_update_def Let_def)
      qed
      with ch' show ?thesis by simp
    qed
  next
    case (Dispatch st d)
    from Dispatch(3) show ?thesis
    proof (cases rule: dispatch_cases)
      case same
      with Dispatch ok show ?thesis by simp
    next
      case (taken i)
      then have i: "i < 2" using fl by (simp add: flags_ok_def)
      let ?m = "sb_notice (ch_subs ch ! i)"
      have log': "slot_log j log' = slot_log j log @ (if i = j then [?m] else [])" for j
        using Dispatch taken by simp
      have init: "map cn_initial (lg @ [m]) = map (\<lambda>i. i = 0) [0..<length (lg @ [m])]"
        if "map cn_initial lg = map (\<lambda>i. i = 0) [0..<length lg]" "cn_initial m = (lg = [])" for lg m
        using that by simp
      have "slot_ok ch' (slot_log j log') (ch_subs ch' ! j)" if "j < 2" for j
      proof (cases "j = i")
        case True
        have "slot_ok ch (slot_log i log) (ch_subs ch ! i)" using ok i by (simp add: slots_ok_def)
        with taken show ?thesis unfolding True log'
          by (auto simp: slot_ok_def intro: init)
      next
        case False
        with ok that taken show ?thesis unfolding log' by (simp add: slots_ok_def slot_ok_def)
      qed
      then show ?thesis by (simp add: slots_ok_def)
    qed
  next
    case Return
    with ok show ?thesis by (simp add: slots_ok_def dispatch_end_def slot_ok_def)
  qed
qed

definition chan_ok :: "chan_state \<Rightarrow> bool" where
  "chan_ok s = (case s of (n, ch, log) \<Rightarrow> flags_ok ch \<and> orders_ok n ch \<and> slots_ok ch log)"

lemma chan_reach_ok: "chan_reach r0 s \<Longrightarrow> chan_ok s"
proof (induction rule: chan_reach.induct)
  case Start
  show ?case
    by (auto simp: chan_ok_def flags_ok_def orders_ok_def slots_ok_def slot_ok_def channel_new_def subscriber_new_def
        channel_subscribers_def)
next
  case (Step s s')
  obtain n ch log n' ch' log' where s: "s = (n, ch, log)" "s' = (n', ch', log')" by (cases s, cases s') auto
  with Step flags_ok_step [of r0 n ch log n' ch' log'] orders_ok_step [of r0 n ch log n' ch' log']
    slots_ok_step [of r0 n ch log n' ch' log']
  show ?case by (simp add: chan_ok_def)
qed

section \<open>Latest state reaches every subscriber\<close>

text \<open>
  C3: A subscriber never rests on an old state. At any moment of any history of the channel, each
  active subscriber of a running channel either has a pending notice that carries the channel's
  current reading, or the last notice delivered to it since the start carried it. The first
  delivery since the start is marked initial and no later one is.
\<close>

theorem channel_latest_state:
  assumes "chan_reach r0 (n, ch, log)" and "ch_running ch" and "i < 2" and "sb_active (ch_subs ch ! i)"
  shows "(if sb_pending (ch_subs ch ! i) then cn_current (sb_notice (ch_subs ch ! i)) = ch_current ch
            else slot_log i log \<noteq> [] \<and> cn_current (last (slot_log i log)) = ch_current ch)
    \<and> map cn_initial (slot_log i log) = map (\<lambda>k. k = 0) [0..<length (slot_log i log)]"
  using chan_reach_ok [OF assms(1)] assms(2-4) by (auto simp: chan_ok_def slots_ok_def slot_ok_def)

definition no_reading :: signal_reading where
  "no_reading = \<lparr>rd_value = None, rd_availability = NoData, rd_validation = Reference\<rparr>"

definition fresh_number :: "f32 \<Rightarrow> signal_reading" where
  "fresh_number x = \<lparr>rd_value = Some (VNumber x), rd_availability = Fresh, rd_validation = Confirmed\<rparr>"

text \<open>Two subscribers, started, one publication, nothing dispatched yet.\<close>

definition sample_subscriber :: "nat \<Rightarrow> u64 \<Rightarrow> subscriber" where
  "sample_subscriber cb o' = \<lparr>sb_callback = Some cb, sb_generation = 1, sb_order = o', sb_active = True,
     sb_pending = True, sb_seed = False, sb_notice = \<lparr>cn_current = fresh_number 0, cn_initial = True,
       cn_became_unavailable = False, cn_recovered = False, cn_coalesced = False\<rparr>\<rparr>"

definition sample_channel :: channel where
  "sample_channel = \<lparr>ch_subs = [sample_subscriber 7 1, sample_subscriber 8 2], ch_current = fresh_number 0,
     ch_next_order = 3, ch_cursor = 0, ch_has_period = True, ch_running = True, ch_dispatching = False,
     ch_callback_active = False\<rparr>"

lemma replicate_subscribers: "replicate channel_subscribers x = [x, x]"
  by (simp add: channel_subscribers_def numeral_2_eq_2)

lemma sample_channel_built:
  "snd (channel_publish (fresh_number 0) (snd (channel_start no_reading (snd (channel_subscribe no_reading (Some 8)
     (snd (channel_subscribe no_reading (Some 7) (channel_new no_reading)))))))) = sample_channel"
  by (simp add: channel_new_def replicate_subscribers subscriber_new_def channel_subscribe_def
      channel_start_def subscriber_start_def channel_publish_def same_reading_def same_value_def no_reading_def
      fresh_number_def merge_pending_def publish_update_def reading_available_def empty_notice_def Let_def
      order_after_def generation_after_def sample_channel_def sample_subscriber_def)

lemma sample_channel_reach: "chan_reach no_reading (2, sample_channel, [])"
proof -
  let ?c1 = "snd (channel_subscribe no_reading (Some 7) (channel_new no_reading))"
  let ?c2 = "snd (channel_subscribe no_reading (Some 8) ?c1)"
  let ?c3 = "snd (channel_start no_reading ?c2)"
  have ok1: "fst (fst (channel_subscribe no_reading (Some 7) (channel_new no_reading))) = NOk"
    by (simp add: channel_new_def replicate_subscribers subscriber_new_def channel_subscribe_def Let_def)
  have ok2: "fst (fst (channel_subscribe no_reading (Some 8) ?c1)) = NOk"
    by (simp add: channel_new_def replicate_subscribers subscriber_new_def channel_subscribe_def Let_def)
  have sub: "chan_step no_reading (n, ch, []) (Suc n, snd (channel_subscribe no_reading cb ch), [])"
    if "fst (fst (channel_subscribe no_reading cb ch)) = NOk" for n ch cb
    using chan_step.Subscribe [of no_reading cb ch NOk "snd (fst (channel_subscribe no_reading cb ch))"
        "snd (channel_subscribe no_reading cb ch)" n "[]"] that
    by (simp add: prod_eq_iff)
  have s1: "chan_step no_reading (0, channel_new no_reading, []) (1, ?c1, [])" using sub [OF ok1, of 0] by simp
  have s2: "chan_step no_reading (1, ?c1, []) (2, ?c2, [])" using sub [OF ok2, of 1] by (simp only: Suc_1)
  have s3: "chan_step no_reading (2, ?c2, []) (2, ?c3, [])"
    using chan_step.Start [of no_reading ?c2 "fst (channel_start no_reading ?c2)" ?c3 2 "[]"] by simp
  from chan_reach.Start have "chan_reach no_reading (0, channel_new no_reading, [])" .
  from chan_reach.Step [OF chan_reach.Step [OF chan_reach.Step [OF this s1] s2] s3]
  have "chan_reach no_reading (2, ?c3, [])" .
  from chan_reach.Step [OF this chan_step.Publish [of no_reading 2 ?c3 "[]" "fresh_number 0"]]
  show ?thesis unfolding sample_channel_built .
qed

lemma channel_latest_state_witness:
  "cn_current (sb_notice (ch_subs sample_channel ! 1)) = ch_current sample_channel"
  using channel_latest_state [OF sample_channel_reach, of 1]
  by (simp add: sample_channel_def sample_subscriber_def)

section \<open>Fairness\<close>

fun publish_all :: "signal_reading list \<Rightarrow> channel \<Rightarrow> channel" where
  "publish_all [] ch = ch"
| "publish_all (r # rs) ch = publish_all rs (snd (channel_publish r ch))"

definition slot_frame :: "channel \<Rightarrow> channel \<Rightarrow> bool" where
  "slot_frame ch ch' = (length (ch_subs ch') = length (ch_subs ch) \<and> ch_cursor ch' = ch_cursor ch
     \<and> ch_running ch' = ch_running ch
     \<and> (\<forall>i < length (ch_subs ch). sb_active (ch_subs ch' ! i) = sb_active (ch_subs ch ! i)
          \<and> sb_order (ch_subs ch' ! i) = sb_order (ch_subs ch ! i)
          \<and> (sb_pending (ch_subs ch ! i) \<longrightarrow> sb_pending (ch_subs ch' ! i))))"

lemma slot_frame_publish: "slot_frame ch (snd (channel_publish r ch))"
  by (auto simp: slot_frame_def channel_publish_def merge_pending_def)

lemma slot_frame_publish_all: "slot_frame ch (publish_all rs ch)"
proof (induction rs arbitrary: ch)
  case (Cons r rs)
  show ?case using slot_frame_publish [of ch r] Cons [of "snd (channel_publish r ch)"]
    by (simp add: slot_frame_def)
qed (simp add: slot_frame_def)

lemma next_pending_other:
  assumes subs: "ch_subs ch = [a, b]" and orders: "sb_active a \<and> sb_active b \<longrightarrow> sb_order a \<noteq> sb_order b"
  shows "sb_active a \<Longrightarrow> ch_cursor ch = sb_order a \<Longrightarrow> sb_active b \<and> sb_pending b \<Longrightarrow> next_pending ch = Some 1"
    "sb_active b \<Longrightarrow> ch_cursor ch = sb_order b \<Longrightarrow> sb_active a \<and> sb_pending a \<Longrightarrow> next_pending ch = Some 0"
  using orders by (auto simp: next_pending_def subs)

text \<open>
  C24: Neither subscriber can starve the other. After a notice has been taken for one slot, and
  whatever is published while and after its callback runs, the next dispatch goes to the other
  slot if that slot had a notice pending. (Fewer than \<open>2 ^ 64 - 1\<close> registrations: the
  registration order is a 64-bit counter.)
\<close>

theorem channel_dispatch_alternates:
  assumes "chan_reach r0 (n, ch, log)" and "n < 18446744073709551615"
    and "dispatch_begin ch = (NOk, Some (i, cb, m), ch1)"
    and "j < 2" and "j \<noteq> i" and "sb_pending (ch_subs ch ! j)"
  shows "fst (snd (dispatch_begin (dispatch_end (publish_all rs ch1)))) =
     Some (j, sb_callback (ch_subs (publish_all rs ch1) ! j), sb_notice (ch_subs (publish_all rs ch1) ! j))"
proof -
  from chan_reach_ok [OF assms(1)] have ok: "flags_ok ch" "orders_ok n ch" "slots_ok ch log"
    by (auto simp: chan_ok_def)
  obtain a b where ab: "ch_subs ch = [a, b]" using ok(1) by (rule two_slots)
  from assms(3) obtain t: "next_pending ch = Some i" "i < 2" "sb_active (ch_subs ch ! i)" "ch_running ch"
      "ch1 = ch\<lparr>ch_cursor := sb_order (ch_subs ch ! i),
         ch_subs := (ch_subs ch)[i := (ch_subs ch ! i)\<lparr>sb_pending := False, sb_seed := False\<rparr>],
         ch_dispatching := True, ch_callback_active := True\<rparr>"
    by (cases rule: dispatch_cases) (auto simp: ab)
  have act: "sb_active (ch_subs ch ! j)" using ok(3) assms(4,6) by (auto simp: slots_ok_def slot_ok_def)
  let ?c = "dispatch_end (publish_all rs ch1)"
  have fr: "slot_frame ch1 (publish_all rs ch1)" by (rule slot_frame_publish_all)
  have len: "length (ch_subs ch) = 2" using ok(1) by (simp add: flags_ok_def)
  then have len1: "length (ch_subs ch1) = 2" by (simp add: t(5))
  have first: "sb_active (ch_subs ch1 ! k) = sb_active (ch_subs ch ! k) \<and> sb_order (ch_subs ch1 ! k) = sb_order (ch_subs ch ! k)
      \<and> (k \<noteq> i \<longrightarrow> sb_pending (ch_subs ch1 ! k) = sb_pending (ch_subs ch ! k))" if "k < 2" for k
    using that t(2) len by (simp add: t(5) nth_list_update)
  from fr len1 have "length (ch_subs ?c) = Suc (Suc 0)" by (simp add: slot_frame_def dispatch_end_def)
  then obtain a' b' where ab': "ch_subs ?c = [a', b']"
    by (auto simp: length_Suc_conv)
  have cur: "ch_cursor ?c = sb_order (ch_subs ch ! i)" "ch_running ?c" "\<not> ch_callback_active ?c" "\<not> ch_dispatching ?c"
    using fr t(4) by (auto simp: slot_frame_def dispatch_end_def t(5) simp del: nth_list_update)
  have same: "sb_active (ch_subs ?c ! k) = sb_active (ch_subs ch ! k) \<and> sb_order (ch_subs ?c ! k) = sb_order (ch_subs ch ! k)
      \<and> (k = j \<longrightarrow> sb_pending (ch_subs ?c ! k))" if "k < 2" for k
    using fr that assms(5,6) first [OF that] len1 by (auto simp: slot_frame_def dispatch_end_def)
  have dis: "sb_active a' \<and> sb_active b' \<longrightarrow> sb_order a' \<noteq> sb_order b'"
    using same [of 0] same [of 1] ok(2) assms(2) by (simp add: ab' ab orders_ok_two [OF ab])
  have "next_pending ?c = Some j"
  proof (cases "i = 0")
    case True
    with assms(4,5) have j: "j = 1" by simp
    show ?thesis unfolding j
      by (rule next_pending_other(1) [OF ab' dis]) (use same [of 0] same [of 1] cur(1) True j act t(3) in \<open>auto simp: ab ab'\<close>)
  next
    case False
    with t(2) assms(4,5) have ij: "i = 1" "j = 0" by simp_all
    show ?thesis unfolding ij
      by (rule next_pending_other(2) [OF ab' dis]) (use same [of 0] same [of 1] cur(1) ij act t(3) in \<open>auto simp: ab ab'\<close>)
  qed
  with cur show ?thesis by (simp add: dispatch_begin_def Let_def dispatch_end_def)
qed

definition sample_dispatched :: channel where
  "sample_dispatched = sample_channel\<lparr>ch_cursor := 1, ch_dispatching := True, ch_callback_active := True,
     ch_subs := [(sample_subscriber 7 1)\<lparr>sb_pending := False, sb_seed := False\<rparr>, sample_subscriber 8 2]\<rparr>"

lemma sample_dispatch:
  "dispatch_begin sample_channel = (NOk, Some (0, Some 7, sb_notice (sample_subscriber 7 1)), sample_dispatched)"
  by (simp add: dispatch_begin_def sample_channel_def next_pending_def sample_subscriber_def sample_dispatched_def Let_def)

lemma channel_dispatch_alternates_witness:
  "\<exists>cb m. fst (snd (dispatch_begin (dispatch_end (publish_all [fresh_number 1, fresh_number 2] sample_dispatched)))) = Some (1, cb, m)"
  using channel_dispatch_alternates [OF sample_channel_reach _ sample_dispatch, of 1 "[fresh_number 1, fresh_number 2]"]
  by (simp add: sample_channel_def sample_subscriber_def)

section \<open>Coalescing keeps every transition\<close>

text \<open>The updates that a list of publications makes: equal readings are suppressed.\<close>

fun effective_updates :: "channel \<Rightarrow> signal_reading list \<Rightarrow> chan_notice list" where
  "effective_updates ch [] = []"
| "effective_updates ch (r # rs) =
     (if same_reading (ch_current ch) r then effective_updates ch rs
      else publish_update ch r # effective_updates (snd (channel_publish r ch)) rs)"

definition merge_all :: "subscriber \<Rightarrow> chan_notice list \<Rightarrow> subscriber" where
  "merge_all s us = foldl (\<lambda>s u. merge_pending u s) s us"

lemma merge_all_notice:
  assumes "us \<noteq> []" and "\<forall>u \<in> set us. \<not> cn_initial u \<and> \<not> cn_coalesced u"
  shows "sb_pending (merge_all s us) \<and> \<not> sb_seed (merge_all s us) \<and> sb_notice (merge_all s us) =
    \<lparr>cn_current = cn_current (last us),
     cn_initial = (sb_pending s \<and> cn_initial (sb_notice s)),
     cn_became_unavailable = (sb_pending s \<and> cn_became_unavailable (sb_notice s) \<or> list_ex cn_became_unavailable us),
     cn_recovered = (sb_pending s \<and> cn_recovered (sb_notice s) \<or> list_ex cn_recovered us),
     cn_coalesced = (sb_pending s \<and> (cn_coalesced (sb_notice s) \<or> \<not> sb_seed s) \<or> 2 \<le> length us)\<rparr>"
  using assms
proof (induction us arbitrary: s)
  case (Cons u us)
  show ?case
  proof (cases "us = []")
    case True
    with Cons.prems show ?thesis by (auto simp: merge_all_def merge_pending_def)
  next
    case False
    let ?t = "merge_pending u s"
    from Cons.prems have u: "\<not> cn_initial u" "\<not> cn_coalesced u" by simp_all
    have m: "sb_pending ?t" "\<not> sb_seed ?t"
      "cn_initial (sb_notice ?t) = (sb_pending s \<and> cn_initial (sb_notice s))"
      "cn_became_unavailable (sb_notice ?t) = (sb_pending s \<and> cn_became_unavailable (sb_notice s) \<or> cn_became_unavailable u)"
      "cn_recovered (sb_notice ?t) = (sb_pending s \<and> cn_recovered (sb_notice s) \<or> cn_recovered u)"
      using u by (simp_all add: merge_pending_def)
    have "merge_all s (u # us) = merge_all ?t us" by (simp add: merge_all_def)
    moreover have "Suc 0 \<le> length us" using False by (cases us) auto
    ultimately show ?thesis
      using Cons.IH [of ?t] Cons.prems False by (simp add: m disj_assoc)
  qed
qed simp

lemma publish_all_slot:
  assumes "ch_running ch" and "i < length (ch_subs ch)" and "sb_active (ch_subs ch ! i)"
  shows "ch_subs (publish_all rs ch) ! i = merge_all (ch_subs ch ! i) (effective_updates ch rs)"
  using assms
proof (induction rs arbitrary: ch)
  case (Cons r rs)
  show ?case
  proof (cases "same_reading (ch_current ch) r")
    case True
    with Cons show ?thesis by (simp add: channel_publish_def)
  next
    case False
    let ?c = "snd (channel_publish r ch)"
    have c: "ch_subs ?c = map (\<lambda>s. if sb_active s then merge_pending (publish_update ch r) s else s) (ch_subs ch)"
      "ch_running ?c"
      using Cons.prems(1) False by (simp_all add: channel_publish_def)
    have act: "sb_active (merge_pending u s) = sb_active s" for u s by (simp add: merge_pending_def)
    from Cons.IH [of ?c] Cons.prems c False show ?thesis by (simp add: merge_all_def act)
  qed
qed (simp add: merge_all_def)

lemma effective_updates_plain: "\<forall>u \<in> set (effective_updates ch rs). \<not> cn_initial u \<and> \<not> cn_coalesced u"
  by (induction rs arbitrary: ch) (auto simp: publish_update_def Let_def)

text \<open>
  Coalescing loses values but no transition. However many readings are published before an
  active subscriber's notice is dispatched, if any of them differed from its predecessor the
  pending notice carries the last one, reports "became unavailable" (and "recovered") if any of
  the merged updates made that transition or the notice already did, stays initial if it was,
  and is marked coalesced exactly when it stands for more than one update (the untouched seed of
  a start not counted).
\<close>

theorem channel_coalesces_transitions:
  assumes "ch_running ch" and "i < length (ch_subs ch)" and "sb_active (ch_subs ch ! i)"
    and "effective_updates ch rs \<noteq> []"
  shows "sb_notice (ch_subs (publish_all rs ch) ! i) =
    (let s = ch_subs ch ! i; us = effective_updates ch rs in
     \<lparr>cn_current = cn_current (last us),
      cn_initial = (sb_pending s \<and> cn_initial (sb_notice s)),
      cn_became_unavailable = (sb_pending s \<and> cn_became_unavailable (sb_notice s) \<or> list_ex cn_became_unavailable us),
      cn_recovered = (sb_pending s \<and> cn_recovered (sb_notice s) \<or> list_ex cn_recovered us),
      cn_coalesced = (sb_pending s \<and> (cn_coalesced (sb_notice s) \<or> \<not> sb_seed s) \<or> 2 \<le> length us)\<rparr>)"
  using merge_all_notice [OF assms(4) effective_updates_plain, of "ch_subs ch ! i"] publish_all_slot [OF assms(1-3)]
  by (simp add: Let_def)

text \<open>Available, unavailable, available again before the second subscriber is dispatched.\<close>

lemma channel_coalesces_transitions_witness:
  "cn_became_unavailable (sb_notice (ch_subs (publish_all [no_reading, fresh_number 0] sample_channel) ! 1))
   \<and> cn_recovered (sb_notice (ch_subs (publish_all [no_reading, fresh_number 0] sample_channel) ! 1))"
proof -
  have us: "effective_updates sample_channel [no_reading, fresh_number 0] =
     [\<lparr>cn_current = no_reading, cn_initial = False, cn_became_unavailable = True, cn_recovered = False, cn_coalesced = False\<rparr>,
      \<lparr>cn_current = fresh_number 0, cn_initial = False, cn_became_unavailable = False, cn_recovered = True, cn_coalesced = False\<rparr>]"
    by (simp add: sample_channel_def sample_subscriber_def same_reading_def same_value_def no_reading_def fresh_number_def
        publish_update_def reading_available_def channel_publish_def Let_def)
  show ?thesis
    using channel_coalesces_transitions [of sample_channel 1 "[no_reading, fresh_number 0]"]
    unfolding us by (simp add: sample_channel_def sample_subscriber_def)
qed

end
