(* ===== verification/Profile_State.thy ===== *)
theory Profile_State
  imports Channel_Laws
begin

text \<open>
  The portable latest-state provider of one compiled profile
  (\<open>lib/vehicle_profile_runtime\<close>): its tables and their check, the per-signal samples with
  watermark, deadline and validity flags, and the processing entry points \<open>process\<close>,
  \<open>service\<close>, \<open>fault\<close> and \<open>reset\<close> of \<open>provider.cpp\<close>. The clock is external, so an
  operation takes the time it reads; the generated decoder is a function in the table. A
  counted array of the tables is a list (a null array is the empty one).
\<close>

section \<open>Tables\<close>

type_synonym timestamp = u64

text \<open>\<open>vehicle_core::RawCanFrame\<close> as far as the sources read it; \<open>rf_valid\<close> is its \<open>is_valid()\<close>.\<close>

record raw_frame =
  rf_identifier :: u32
  rf_standard :: bool
  rf_remote :: bool
  rf_dlc :: u8
  rf_timestamp :: timestamp
  rf_data :: "u8 list"
  rf_valid :: bool

record decode_result =
  dr_id :: signal_id
  dr_value :: signal_value
  dr_valid :: bool

text \<open>A decoder gets the frame and the result capacity; its list is what it left in the array.\<close>

record dispatch_entry =
  de_identifier :: u32
  de_dlc :: u8
  de_decode :: "(raw_frame \<Rightarrow> nat \<Rightarrow> decode_result list) option"
  de_outputs :: "signal_id list"

record freshness_policy =
  fp_id :: signal_id
  fp_declared :: bool
  fp_timeout_ms :: u32

record profile_tables =
  pt_catalog :: catalog
  pt_policies :: "freshness_policy list"
  pt_dispatch :: "dispatch_entry list"
  pt_max_results :: nat

definition max_runtime_signals :: nat where
  "max_runtime_signals = 64"

definition max_runtime_messages :: nat where
  "max_runtime_messages = 64"

definition max_notify_bindings :: nat where
  "max_notify_bindings = 17"

definition freshness_for :: "profile_tables \<Rightarrow> signal_id \<Rightarrow> freshness_policy option" where
  "freshness_for t i = List.find (\<lambda>p. fp_id p = i) (pt_policies t)"

definition signal_index :: "profile_tables \<Rightarrow> signal_id \<Rightarrow> nat" where
  "signal_index t i = (if \<not> sid_valid i then max_runtime_signals
     else value_or (find_index (\<lambda>m. md_id m = i) (pt_catalog t)) max_runtime_signals)"

fun policies_well_formed :: "catalog \<Rightarrow> signal_id list \<Rightarrow> freshness_policy list \<Rightarrow> bool" where
  "policies_well_formed cat seen [] = True"
| "policies_well_formed cat seen (p # ps) =
     (if catalog_find cat (fp_id p) = None
         \<or> (if fp_declared p then fp_timeout_ms p = 0 else fp_timeout_ms p \<noteq> 0) then False
      else if fp_id p \<in> set seen then False
      else policies_well_formed cat (seen @ [fp_id p]) ps)"

fun outputs_well_formed ::
  "profile_tables \<Rightarrow> dispatch_entry list \<Rightarrow> u32 \<Rightarrow> signal_id list \<Rightarrow> signal_id list \<Rightarrow> bool" where
  "outputs_well_formed t prior i seen [] = True"
| "outputs_well_formed t prior i seen (s # ss) =
     (if catalog_find (pt_catalog t) s = None \<or> freshness_for t s = None then False
      else if s \<in> set seen then False
      else if list_ex (\<lambda>e. de_identifier e = i \<or> s \<in> set (de_outputs e)) prior then False
      else outputs_well_formed t prior i (seen @ [s]) ss)"

fun dispatch_well_formed :: "profile_tables \<Rightarrow> dispatch_entry list \<Rightarrow> dispatch_entry list \<Rightarrow> bool" where
  "dispatch_well_formed t prior [] = True"
| "dispatch_well_formed t prior (e # es) =
     (if 0x7FF < de_identifier e \<or> 8 < de_dlc e \<or> de_decode e = None
         \<or> de_outputs e = [] \<or> pt_max_results t < length (de_outputs e) then False
      else if \<not> outputs_well_formed t prior (de_identifier e) [] (de_outputs e) then False
      else dispatch_well_formed t (prior @ [e]) es)"

definition table_well_formed :: "profile_tables \<Rightarrow> bool" where
  "table_well_formed t =
     (if max_runtime_signals < length (pt_catalog t) \<or> \<not> catalog_well_formed (pt_catalog t)
         \<or> length (pt_policies t) \<noteq> length (pt_catalog t)
         \<or> max_runtime_messages < length (pt_dispatch t)
         \<or> max_runtime_signals < pt_max_results t
         \<or> (pt_dispatch t \<noteq> [] \<and> pt_max_results t = 0) then False
      else if max_notify_bindings < length (filter (\<lambda>m. caps_has (md_capabilities m) CNotify) (pt_catalog t))
        then False
      else policies_well_formed (pt_catalog t) [] (pt_policies t) \<and> dispatch_well_formed t [] (pt_dispatch t))"

definition find_dispatch :: "profile_tables \<Rightarrow> u32 \<Rightarrow> dispatch_entry option" where
  "find_dispatch t i = List.find (\<lambda>e. de_identifier e = i) (pt_dispatch t)"

section \<open>Samples\<close>

record sample =
  sg_value :: signal_value
  sg_timestamp :: timestamp
  sg_watermark :: timestamp
  sg_flags :: u8

definition has_watermark :: u8 where "has_watermark = 1"
definition has_value :: u8 where "has_value = 2"
definition invalid :: u8 where "invalid = 4"
definition due_reported :: u8 where "due_reported = 8"

lemmas flag_defs = has_watermark_def has_value_def invalid_def due_reported_def

definition sample_new :: sample where
  "sample_new = \<lparr>sg_value = VBoolean False, sg_timestamp = 0, sg_watermark = 0, sg_flags = 0\<rparr>"

definition has_flag :: "sample \<Rightarrow> u8 \<Rightarrow> bool" where
  "has_flag s f = (sg_flags s AND f \<noteq> 0)"

definition set_flag :: "u8 \<Rightarrow> sample \<Rightarrow> sample" where
  "set_flag f s = s\<lparr>sg_flags := sg_flags s OR f\<rparr>"

definition clear_flag :: "u8 \<Rightarrow> sample \<Rightarrow> sample" where
  "clear_flag f s = s\<lparr>sg_flags := sg_flags s AND NOT f\<rparr>"

definition freshness_deadline :: "timestamp \<Rightarrow> freshness_policy \<Rightarrow> timestamp" where
  "freshness_deadline ts p = (let timeout = (ucast (fp_timeout_ms p) :: u64) * 1000; maximum = 0xFFFFFFFFFFFFFFFF
     in if maximum - timeout < ts then maximum else ts + timeout)"

definition availability_at :: "sample \<Rightarrow> freshness_policy \<Rightarrow> timestamp \<Rightarrow> availability" where
  "availability_at s p now =
     (if has_flag s invalid then Unavailable
      else if \<not> has_flag s has_value then NoData
      else if \<not> fp_declared p then FreshnessUnverified
      else if freshness_deadline (sg_timestamp s) p < now then Stale else Fresh)"

definition append_unique :: "signal_id \<Rightarrow> signal_id list \<Rightarrow> signal_id list" where
  "append_unique i xs = (if i \<in> set xs then xs
     else if length xs < max_runtime_signals then xs @ [i] else xs)"

text \<open>\<open>update_watermark\<close>: \<open>None\<close> is its refusal, which leaves the sample alone.\<close>

definition update_watermark :: "timestamp \<Rightarrow> sample \<Rightarrow> sample option" where
  "update_watermark ts s = (if has_flag s has_watermark \<and> ts \<le> sg_watermark s then None
     else Some (set_flag has_watermark (s\<lparr>sg_watermark := ts\<rparr>)))"

section \<open>Provider state and processing\<close>

datatype process_status = PIgnored | PApplied | PMalformed | PInvalidResults | PFaulted

record process_result =
  pr_status :: process_status
  pr_changed :: "signal_id list"
  pr_due :: "signal_id list"
  pr_recovered :: "signal_id list"

definition process_result_new :: process_result where
  "process_result_new = \<lparr>pr_status = PIgnored, pr_changed = [], pr_due = [], pr_recovered = []\<rparr>"

record profile =
  pf_tables :: profile_tables
  pf_valid :: bool
  pf_signals :: "sample list"
  pf_receive_watermark :: timestamp
  pf_has_receive :: bool
  pf_generation :: u32

definition profile_new :: "profile_tables \<Rightarrow> bool \<Rightarrow> profile" where
  "profile_new t sync = \<lparr>pf_tables = t, pf_valid = (table_well_formed t \<and> sync),
     pf_signals = replicate max_runtime_signals sample_new, pf_receive_watermark = 0,
     pf_has_receive = False, pf_generation = 0\<rparr>"

definition in_signals :: "profile \<Rightarrow> nat \<Rightarrow> bool" where
  "in_signals s i = (i < length (pt_catalog (pf_tables s)) \<and> i < length (pf_signals s))"

definition put_sample :: "nat \<Rightarrow> sample \<Rightarrow> profile \<Rightarrow> profile" where
  "put_sample i x s = s\<lparr>pf_signals := (pf_signals s)[i := x], pf_generation := pf_generation s + 1\<rparr>"

definition mark_invalid ::
  "signal_id \<Rightarrow> timestamp \<Rightarrow> profile \<times> process_result \<Rightarrow> profile \<times> process_result" where
  "mark_invalid i ts sr = (case sr of (s, r) \<Rightarrow> let k = signal_index (pf_tables s) i
     in if \<not> in_signals s k then (s, r)
        else case update_watermark ts (pf_signals s ! k) of
            None \<Rightarrow> (s, r)
          | Some x \<Rightarrow> (put_sample k (set_flag invalid x) s, r\<lparr>pr_changed := append_unique i (pr_changed r)\<rparr>))"

definition becomes_due :: "profile_tables \<Rightarrow> timestamp \<Rightarrow> signal_metadata \<Rightarrow> sample \<Rightarrow> bool" where
  "becomes_due t now m x = (case freshness_for t (md_id m) of None \<Rightarrow> False
     | Some p \<Rightarrow> fp_declared p \<and> has_flag x has_value \<and> \<not> has_flag x invalid \<and> \<not> has_flag x due_reported
         \<and> freshness_deadline (sg_timestamp x) p < now)"

text \<open>\<open>service_due_locked\<close>: the loop over the catalog, signal \<open>k\<close> onwards.\<close>

fun service_loop ::
  "profile_tables \<Rightarrow> timestamp \<Rightarrow> catalog \<Rightarrow> sample list \<Rightarrow> signal_id list \<Rightarrow> sample list \<times> signal_id list" where
  "service_loop t now (m # ms) (x # xs) due =
     (if becomes_due t now m x
      then case service_loop t now ms xs (append_unique (md_id m) due) of
             (xs', due') \<Rightarrow> (set_flag due_reported x # xs', due')
      else case service_loop t now ms xs due of (xs', due') \<Rightarrow> (x # xs', due'))"
| "service_loop t now ms xs due = (xs, due)"

definition service_due :: "timestamp \<Rightarrow> profile \<times> process_result \<Rightarrow> profile \<times> process_result" where
  "service_due now sr = (case sr of (s, r) \<Rightarrow>
     (case service_loop (pf_tables s) now (pt_catalog (pf_tables s)) (pf_signals s) (pr_due r) of
        (xs, due) \<Rightarrow>
          (s\<lparr>pf_signals := xs,
             pf_generation := (if list_ex (\<lambda>(m, x). becomes_due (pf_tables s) now m x)
                                  (zip (pt_catalog (pf_tables s)) (pf_signals s))
                               then pf_generation s + 1 else pf_generation s)\<rparr>,
           r\<lparr>pr_due := due\<rparr>)))"

fun results_cover :: "signal_id list \<Rightarrow> nat list \<Rightarrow> decode_result list \<Rightarrow> bool" where
  "results_cover outs seen [] = True"
| "results_cover outs seen (d # ds) = (case find_index (\<lambda>o'. o' = dr_id d) outs of
       None \<Rightarrow> False
     | Some k \<Rightarrow> (if k \<in> set seen then False else results_cover outs (k # seen) ds))"

definition result_list_well_formed :: "profile \<Rightarrow> dispatch_entry \<Rightarrow> decode_result list \<Rightarrow> bool" where
  "result_list_well_formed s e ds =
     (if length ds \<noteq> length (de_outputs e) \<or> pt_max_results (pf_tables s) < length ds then False
      else results_cover (de_outputs e) [] ds)"

definition accepted_result :: "signal_metadata \<Rightarrow> decode_result \<Rightarrow> bool" where
  "accepted_result m d = (if \<not> dr_valid d \<or> \<not> md_accepts m (dr_value d) then \<not> dr_valid d
     else case as_number (dr_value d) of None \<Rightarrow> True | Some x \<Rightarrow> f32_isfinite x)"

definition previously_unusable :: "freshness_policy option \<Rightarrow> timestamp \<Rightarrow> sample \<Rightarrow> bool" where
  "previously_unusable p now x = (has_flag x invalid \<or> has_flag x due_reported
     \<or> (has_flag x has_value \<and> (case p of None \<Rightarrow> False | Some q \<Rightarrow> availability_at x q now = Stale)))"

definition commit_valid ::
  "signal_metadata \<Rightarrow> decode_result \<Rightarrow> timestamp \<Rightarrow> timestamp
     \<Rightarrow> profile \<times> process_result \<Rightarrow> profile \<times> process_result" where
  "commit_valid m d ts now sr = (case sr of (s, r) \<Rightarrow> let k = signal_index (pf_tables s) (md_id m)
     in if \<not> in_signals s k then (s, r)
        else case update_watermark ts (pf_signals s ! k) of
            None \<Rightarrow> (s, r)
          | Some x \<Rightarrow>
              let p = freshness_for (pf_tables s) (md_id m);
                  unusable = previously_unusable p now x;
                  y = clear_flag (invalid OR due_reported)
                        (set_flag has_value (x\<lparr>sg_value := dr_value d, sg_timestamp := ts\<rparr>));
                  recovered = (unusable \<and> (case p of None \<Rightarrow> False | Some q \<Rightarrow> availability_at y q now \<noteq> Stale))
              in (put_sample k y s,
                  r\<lparr>pr_changed := append_unique (md_id m) (pr_changed r),
                    pr_recovered := (if recovered then append_unique (md_id m) (pr_recovered r) else pr_recovered r)\<rparr>))"

definition profile_read ::
  "profile \<Rightarrow> timestamp \<Rightarrow> signal_id \<Rightarrow> signal_reading signal_result" where
  "profile_read s now i = (case catalog_find (pt_catalog (pf_tables s)) i of
       None \<Rightarrow> rs_failure InvalidSignal
     | Some m \<Rightarrow>
         if \<not> caps_has (md_capabilities m) CRead then rs_failure UnsupportedCapability
         else if \<not> pf_valid s then rs_failure Faulted
         else let k = signal_index (pf_tables s) i
           in if \<not> in_signals s k then rs_failure Faulted
              else let x = pf_signals s ! k
                in case freshness_for (pf_tables s) i of
                     None \<Rightarrow> rs_failure Faulted
                   | Some p \<Rightarrow> rs_success \<lparr>rd_value = (if has_flag x has_value then Some (sg_value x) else None),
                                  rd_availability = availability_at x p now, rd_validation = md_validation m\<rparr>)"

definition faulted_result :: process_result where
  "faulted_result = process_result_new\<lparr>pr_status := PFaulted\<rparr>"

definition profile_service :: "timestamp \<Rightarrow> profile \<Rightarrow> profile \<times> process_result" where
  "profile_service now s = (if \<not> pf_valid s then (s, faulted_result)
     else service_due now (s, process_result_new))"

definition fault_sample :: "timestamp \<Rightarrow> sample \<Rightarrow> sample" where
  "fault_sample now x = set_flag invalid
     (if \<not> has_flag x has_watermark \<or> sg_watermark x < now
      then set_flag has_watermark (x\<lparr>sg_watermark := now\<rparr>) else x)"

fun fault_loop :: "timestamp \<Rightarrow> catalog \<Rightarrow> nat \<Rightarrow> profile \<times> process_result \<Rightarrow> profile \<times> process_result" where
  "fault_loop now [] k sr = sr"
| "fault_loop now (m # ms) k (s, r) =
     fault_loop now ms (Suc k)
       (if has_flag (pf_signals s ! k) invalid
        then (s\<lparr>pf_signals := (pf_signals s)[k := fault_sample now (pf_signals s ! k)]\<rparr>, r)
        else (put_sample k (fault_sample now (pf_signals s ! k)) s,
              r\<lparr>pr_changed := append_unique (md_id m) (pr_changed r)\<rparr>))"

definition profile_fault :: "timestamp \<Rightarrow> profile \<Rightarrow> profile \<times> process_result" where
  "profile_fault now s = (if \<not> pf_valid s then (s, faulted_result)
     else case fault_loop now (pt_catalog (pf_tables s)) 0 (service_due now (s, process_result_new)) of
       (s', r) \<Rightarrow> (s', r\<lparr>pr_status := PFaulted\<rparr>))"

definition reset_sample :: "timestamp \<Rightarrow> sample \<Rightarrow> sample" where
  "reset_sample now x = \<lparr>sg_value = VBoolean False, sg_timestamp = 0,
     sg_watermark = (if \<not> has_flag x has_watermark \<or> sg_watermark x < now then now else sg_watermark x),
     sg_flags = has_watermark\<rparr>"

fun reset_loop :: "timestamp \<Rightarrow> catalog \<Rightarrow> sample list \<Rightarrow> signal_id list \<Rightarrow> sample list \<times> signal_id list" where
  "reset_loop now (m # ms) (x # xs) ch = (case reset_loop now ms xs (append_unique (md_id m) ch) of
     (xs', ch') \<Rightarrow> (reset_sample now x # xs', ch'))"
| "reset_loop now ms xs ch = (xs, ch)"

definition profile_reset :: "timestamp \<Rightarrow> profile \<Rightarrow> profile \<times> process_result" where
  "profile_reset now s = (if \<not> pf_valid s then (s, faulted_result)
     else case reset_loop now (pt_catalog (pf_tables s)) (pf_signals s) [] of
       (xs, ch) \<Rightarrow> (s\<lparr>pf_signals := xs, pf_has_receive := False, pf_generation := pf_generation s + 1\<rparr>,
                    process_result_new\<lparr>pr_changed := ch, pr_status := PApplied\<rparr>))"

definition receive_watermark :: "timestamp \<Rightarrow> profile \<Rightarrow> profile" where
  "receive_watermark now s = (if \<not> pf_has_receive s \<or> pf_receive_watermark s < now
     then s\<lparr>pf_receive_watermark := now, pf_has_receive := True\<rparr> else s)"

definition valid_shape :: "raw_frame \<Rightarrow> dispatch_entry \<Rightarrow> bool" where
  "valid_shape f e = (rf_valid f \<and> rf_standard f \<and> \<not> rf_remote f \<and> rf_identifier f \<le> 0x7FF \<and> rf_dlc f = de_dlc e)"

definition mark_all_invalid ::
  "signal_id list \<Rightarrow> timestamp \<Rightarrow> profile \<times> process_result \<Rightarrow> profile \<times> process_result" where
  "mark_all_invalid ids ts sr = foldl (\<lambda>a i. mark_invalid i ts a) sr ids"

fun commit_results ::
  "decode_result list \<Rightarrow> timestamp \<Rightarrow> timestamp \<Rightarrow> (profile \<times> process_result) \<times> bool
     \<Rightarrow> (profile \<times> process_result) \<times> bool" where
  "commit_results [] ts now acc = acc"
| "commit_results (d # ds) ts now (sr, bad) =
     commit_results ds ts now
       (case catalog_find (pt_catalog (pf_tables (fst sr))) (dr_id d) of
          None \<Rightarrow> (sr, True)
        | Some m \<Rightarrow>
            if \<not> accepted_result m d then (mark_invalid (dr_id d) ts sr, True)
            else if dr_valid d then (commit_valid m d ts now sr, bad)
            else (mark_invalid (dr_id d) ts sr, bad))"

definition with_status :: "process_status \<Rightarrow> profile \<times> process_result \<Rightarrow> profile \<times> process_result" where
  "with_status st sr = (fst sr, (snd sr)\<lparr>pr_status := st\<rparr>)"

definition profile_process :: "timestamp \<Rightarrow> raw_frame \<Rightarrow> profile \<Rightarrow> profile \<times> process_result" where
  "profile_process now f s =
     (if \<not> pf_valid s then (s, faulted_result)
      else let sr = service_due now (receive_watermark now s, process_result_new)
        in case find_dispatch (pf_tables s) (rf_identifier f) of
             None \<Rightarrow> with_status PIgnored sr
           | Some e \<Rightarrow>
               if \<not> valid_shape f e
               then with_status PMalformed (mark_all_invalid (de_outputs e) (rf_timestamp f) sr)
               else let ds = (case de_decode e of None \<Rightarrow> [] | Some d \<Rightarrow> d f (pt_max_results (pf_tables s)))
                 in if \<not> result_list_well_formed (fst sr) e ds
                    then with_status PInvalidResults (mark_all_invalid (de_outputs e) (rf_timestamp f) sr)
                    else case commit_results ds (rf_timestamp f) now (sr, False) of
                        (sr', bad) \<Rightarrow> with_status (if bad then PInvalidResults else PApplied) sr')"

end
