(* ===== verification/Engine.thy ===== *)
theory Engine
  imports Range_Mapping
begin

text \<open>
  The action engine (\<open>lib/action_engine/src/engine.cpp\<close>) and its registrations with a
  provider (\<open>subscription_set.cpp\<close>). The provider is the virtual interface of
  \<open>signal_provider.hpp\<close>: a record of operations over a provider state \<open>'p\<close>. The laws
  the engine relies on are the locale \<open>signal_provider\<close>, in whose context the lemmas about
  registrations are proved; the profile provider interprets it.
\<close>

section \<open>The provider port\<close>

text \<open>A callback with its context is a number; \<open>None\<close> is the null callback.\<close>

record 'p port =
  port_catalog :: "'p \<Rightarrow> catalog"
  port_read :: "'p \<Rightarrow> signal_id \<Rightarrow> signal_reading signal_result"
  port_subscribe :: "'p \<Rightarrow> signal_id \<Rightarrow> nat option \<Rightarrow> subscription signal_result \<times> 'p"
  port_unsubscribe :: "'p \<Rightarrow> subscription \<Rightarrow> signal_status \<times> 'p"

section \<open>Subscription set\<close>

type_synonym registration = "signal_id \<times> subscription"

definition subscription_capacity :: nat where
  "subscription_capacity = rule_set_capacity"

definition subs_contains :: "registration list \<Rightarrow> signal_id \<Rightarrow> bool" where
  "subs_contains rs s = list_ex (\<lambda>r. fst r = s) rs"

definition subs_subscribe ::
  "'p port \<Rightarrow> nat option \<Rightarrow> signal_id \<Rightarrow> registration list \<Rightarrow> 'p
     \<Rightarrow> signal_status \<times> registration list \<times> 'p" where
  "subs_subscribe P cb s rs p =
     (if subs_contains rs s then (SOk, rs, p)
      else if length rs = subscription_capacity then (CapacityExceeded, rs, p)
      else case port_subscribe P p s cb of (result, p') \<Rightarrow>
        (if \<not> rs_ok result then (rs_status result, rs, p')
         else (SOk, rs @ [(s, value_or (rs_value result) 0)], p')))"

text \<open>The loop of \<open>unsubscribe_all\<close>, on the registrations newest first.\<close>

fun unsubscribe_newest ::
  "'p port \<Rightarrow> registration list \<Rightarrow> 'p \<Rightarrow> signal_status \<times> registration list \<times> 'p" where
  "unsubscribe_newest P [] p = (SOk, [], p)"
| "unsubscribe_newest P (r # rs) p = (case port_unsubscribe P p (snd r) of (st, p') \<Rightarrow>
     (if st \<noteq> SOk then (st, r # rs, p') else unsubscribe_newest P rs p'))"

definition subs_unsubscribe_all ::
  "'p port \<Rightarrow> registration list \<Rightarrow> 'p \<Rightarrow> signal_status \<times> registration list \<times> 'p" where
  "subs_unsubscribe_all P rs p =
     (case unsubscribe_newest P (rev rs) p of (st, rest, p') \<Rightarrow> (st, rev rest, p'))"

section \<open>The engine\<close>

record engine =
  en_sinks :: "nat list"
  en_rules :: "rule list"
  en_polled :: "polled_rule list"
  en_subs :: "registration list"
  en_attached :: bool

definition engine_new :: engine where
  "engine_new = \<lparr>en_sinks = [], en_rules = [], en_polled = [], en_subs = [], en_attached = False\<rparr>"

definition add_sink :: "engine \<Rightarrow> nat \<Rightarrow> config_status \<times> engine" where
  "add_sink e s = (if en_attached e then (CfgInvalidState, e)
     else case sinks_add (en_sinks e) s of (st, ss) \<Rightarrow> (st, e\<lparr>en_sinks := ss\<rparr>))"

definition clear :: "engine \<Rightarrow> config_status \<times> engine" where
  "clear e = (if en_attached e then (CfgInvalidState, e)
     else (CfgOk, e\<lparr>en_sinks := [], en_rules := [], en_polled := []\<rparr>))"

datatype rule_output_kind = LevelOutput | OneShotOutput

definition check_action :: "engine \<Rightarrow> action_id \<Rightarrow> rule_output_kind \<Rightarrow> config_status" where
  "check_action e a k =
     (if en_attached e then CfgInvalidState
      else if \<not> aid_valid a then CfgInvalidAction
      else if k = LevelOutput \<and> (rule_set_drives_level (en_rules e) a \<or> polled_set_drives (en_polled e) a)
        then CfgDuplicateAction
      else CfgOk)"

definition resolve_rule ::
  "catalog \<Rightarrow> engine \<Rightarrow> signal_condition \<Rightarrow> action_id \<Rightarrow> freshness_requirement \<Rightarrow> rule_output_kind
     \<Rightarrow> resolved_condition resolution" where
  "resolve_rule cat e c a req k = (let st = check_action e a k
     in if st \<noteq> CfgOk then (st, None) else resolve_condition cat c req)"

definition engine_add_rule :: "engine \<Rightarrow> rule \<Rightarrow> config_status \<times> engine" where
  "engine_add_rule e r = (case rule_set_add (en_rules e) r of (st, rs) \<Rightarrow> (st, e\<lparr>en_rules := rs\<rparr>))"

definition engine_add_polled :: "engine \<Rightarrow> polled_rule \<Rightarrow> config_status \<times> engine" where
  "engine_add_polled e r =
     (case polled_set_add (en_polled e) r of (st, rs) \<Rightarrow> (st, e\<lparr>en_polled := rs\<rparr>))"

definition add_state_rule :: "catalog \<Rightarrow> engine \<Rightarrow> state_rule_config \<Rightarrow> config_status \<times> engine" where
  "add_state_rule cat e c =
     (case resolve_rule cat e (src_condition c) (src_action c) (src_freshness c) LevelOutput of
        (st, None) \<Rightarrow> (st, e)
      | (_, Some rc) \<Rightarrow> engine_add_rule e
          (RState \<lparr>sr_condition = rc, sr_action = src_action c, sr_last = None\<rparr>))"

definition add_event_rule :: "catalog \<Rightarrow> engine \<Rightarrow> event_rule_config \<Rightarrow> config_status \<times> engine" where
  "add_event_rule cat e c =
     (case resolve_rule cat e (erc_condition c) (erc_action c) (erc_freshness c) OneShotOutput of
        (st, None) \<Rightarrow> (st, e)
      | (_, Some rc) \<Rightarrow> engine_add_rule e
          (REvent \<lparr>er_condition = rc, er_action = erc_action c, er_edge = erc_edge c,
                   er_baseline = None\<rparr>))"

definition add_range_rule :: "catalog \<Rightarrow> engine \<Rightarrow> range_rule_config \<Rightarrow> config_status \<times> engine" where
  "add_range_rule cat e c = (let st = check_action e (rrc_action c) LevelOutput
     in if st \<noteq> CfgOk then (st, e)
        else case resolve_range_rule cat c of
            (st', None) \<Rightarrow> (st', e)
          | (_, Some r) \<Rightarrow> engine_add_polled e (PRange r))"

definition has_valid_release_threshold :: "signal_condition \<Rightarrow> f32 \<Rightarrow> bool" where
  "has_valid_release_threshold c release = (case op_as_number (sc_operand c) of
       None \<Rightarrow> False
     | Some a \<Rightarrow>
         if \<not> f32_isfinite a \<or> \<not> f32_isfinite release then False
         else case sc_comparison c of
             CmpGreater \<Rightarrow> f32_lt release a
           | CmpGreaterOrEqual \<Rightarrow> f32_lt release a
           | CmpLess \<Rightarrow> f32_lt a release
           | CmpLessOrEqual \<Rightarrow> f32_lt a release
           | CmpEqual \<Rightarrow> False
           | CmpNotEqual \<Rightarrow> False)"

definition sampled_rule ::
  "resolved_condition \<Rightarrow> action_id \<Rightarrow> resolved_condition option \<Rightarrow> sampled_state_rule" where
  "sampled_rule rc a rel = \<lparr>ss_activation = rc, ss_release = rel, ss_action = a, ss_last = None\<rparr>"

definition add_sampled_state_rule ::
  "catalog \<Rightarrow> engine \<Rightarrow> sampled_state_rule_config \<Rightarrow> config_status \<times> engine" where
  "add_sampled_state_rule cat e c = (let st = check_action e (ssc_action c) LevelOutput
     in if st \<noteq> CfgOk then (st, e)
        else case resolve_sampled_condition cat (ssc_condition c) (ssc_freshness c) of
            (st', None) \<Rightarrow> (st', e)
          | (_, Some rc) \<Rightarrow> (case ssc_release_threshold c of
              None \<Rightarrow> engine_add_polled e (PSampled (sampled_rule rc (ssc_action c) None))
            | Some t \<Rightarrow>
                if \<not> has_valid_release_threshold (ssc_condition c) t then (CfgInvalidHysteresis, e)
                else case resolve_sampled_condition cat ((ssc_condition c)\<lparr>sc_operand := ONumber t\<rparr>)
                            (ssc_freshness c) of
                    (st'', None) \<Rightarrow> (st'', e)
                  | (_, Some rel) \<Rightarrow>
                      engine_add_polled e (PSampled (sampled_rule rc (ssc_action c) (Some rel)))))"

definition reset_rules :: "engine \<Rightarrow> engine" where
  "reset_rules e = e\<lparr>en_rules := rule_set_reset (en_rules e), en_polled := polled_set_reset (en_polled e)\<rparr>"

text \<open>The loop of \<open>attach\<close>: the first failed subscription ends it.\<close>

fun attach_loop ::
  "'p port \<Rightarrow> nat option \<Rightarrow> signal_id list \<Rightarrow> registration list \<Rightarrow> 'p
     \<Rightarrow> signal_status \<times> registration list \<times> 'p" where
  "attach_loop P cb [] rs p = (SOk, rs, p)"
| "attach_loop P cb (s # ss) rs p = (case subs_subscribe P cb s rs p of (st, rs', p') \<Rightarrow>
     (if st \<noteq> SOk then (st, rs', p') else attach_loop P cb ss rs' p'))"

definition on_notice_callback :: "nat option" where
  "on_notice_callback = Some 1"

definition attach :: "'p port \<Rightarrow> engine \<Rightarrow> 'p \<Rightarrow> signal_status \<times> engine \<times> 'p" where
  "attach P e p =
     (if en_attached e then (InvalidState, e, p)
      else let e1 = reset_rules e
        in case attach_loop P on_notice_callback (map rule_signal (en_rules e1)) (en_subs e1) p of
             (st, rs, p1) \<Rightarrow>
               if st = SOk then (SOk, e1\<lparr>en_subs := rs, en_attached := True\<rparr>, p1)
               else case subs_unsubscribe_all P rs p1 of (st', rs', p2) \<Rightarrow>
                 (st, e1\<lparr>en_subs := rs', en_attached := (st' \<noteq> SOk)\<rparr>, p2))"

definition detach :: "'p port \<Rightarrow> engine \<Rightarrow> 'p \<Rightarrow> signal_status \<times> engine \<times> 'p" where
  "detach P e p =
     (if \<not> en_attached e then (InvalidState, e, p)
      else case subs_unsubscribe_all P (en_subs e) p of (st, rs, p') \<Rightarrow>
        (st, e\<lparr>en_subs := rs, en_attached := (st \<noteq> SOk)\<rparr>, p'))"

text \<open>
  \<open>sample_polled_rules\<close> reads each rule's signal outside the lock: \<open>reads k\<close> is the
  provider's \<open>read\<close> at the moment of the \<open>k\<close>th rule.
\<close>

type_synonym reader = "signal_id \<Rightarrow> signal_reading signal_result"

fun sample_loop :: "(nat \<Rightarrow> reader) \<Rightarrow> nat \<Rightarrow> polled_rule list \<Rightarrow> action_command list \<times> polled_rule list"
where
  "sample_loop reads k [] = ([], [])"
| "sample_loop reads k (r # rs) =
     (let (c, r') = polled_on_sample r (reads k (polled_signal r)); (cs, rs') = sample_loop reads (Suc k) rs
      in (opt_list c @ cs, r' # rs'))"

type_synonym delivery = "nat \<times> action_command"

definition deliver_all :: "nat list \<Rightarrow> action_command list \<Rightarrow> delivery list" where
  "deliver_all ss cs = concat (map (sinks_execute ss) cs)"

definition sample_polled_rules ::
  "(nat \<Rightarrow> reader) \<Rightarrow> engine \<Rightarrow> signal_status \<times> delivery list \<times> engine" where
  "sample_polled_rules reads e = (if \<not> en_attached e then (InvalidState, [], e)
     else case sample_loop reads 0 (en_polled e) of (cs, rs) \<Rightarrow>
       (SOk, deliver_all (en_sinks e) cs, e\<lparr>en_polled := rs\<rparr>))"

definition on_notice :: "engine \<Rightarrow> signal_notification \<Rightarrow> delivery list \<times> engine" where
  "on_notice e n = (case rule_set_dispatch (en_rules e) n of (cs, rs) \<Rightarrow>
     (deliver_all (en_sinks e) cs, e\<lparr>en_rules := rs\<rparr>))"

section \<open>The contract of a provider\<close>

definition tokens :: "registration list \<Rightarrow> subscription set" where
  "tokens rs = snd ` set rs"

lemma tokens_simps [simp]:
  "tokens [] = {}" "tokens (r # rs) = insert (snd r) (tokens rs)" "tokens (rs @ rs') = tokens rs \<union> tokens rs'"
  "tokens (rev rs) = tokens rs"
  by (auto simp: tokens_def)

lemma distinct_tokens [simp]:
  "distinct (map snd (r # rs)) \<longleftrightarrow> snd r \<notin> tokens rs \<and> distinct (map snd rs)"
  "distinct (map snd (rs @ rs')) \<longleftrightarrow> distinct (map snd rs) \<and> distinct (map snd rs') \<and> tokens rs \<inter> tokens rs' = {}"
  by (auto simp: tokens_def)

lemma tokens_image [simp]: "snd ` set rs = tokens rs"
  by (simp add: tokens_def)

text \<open>
  \<open>live p\<close> are the subscriptions the provider holds, \<open>good\<close> its invariant, \<open>ready\<close> the
  stopped state in which its lifecycle owner may change subscriptions.
\<close>

locale signal_provider =
  fixes port :: "'p port"
    and live :: "'p \<Rightarrow> subscription set"
    and good :: "'p \<Rightarrow> bool"
    and ready :: "'p \<Rightarrow> bool"
  assumes good_subscribe: "good p \<Longrightarrow> good (snd (port_subscribe port p s cb))"
    and good_unsubscribe: "good p \<Longrightarrow> good (snd (port_unsubscribe port p t))"
    and ready_unsubscribe: "good p \<Longrightarrow> ready p \<Longrightarrow> ready (snd (port_unsubscribe port p t))"
    and ready_subscribe: "good p \<Longrightarrow> ready p \<Longrightarrow> ready (snd (port_subscribe port p s cb))"
    and subscribe_status:
      "rs_status (fst (port_subscribe port p s cb)) = SOk \<longleftrightarrow> rs_value (fst (port_subscribe port p s cb)) \<noteq> None"
    and subscribe_fails: "good p \<Longrightarrow> rs_value (fst (port_subscribe port p s cb)) = None \<Longrightarrow>
      live (snd (port_subscribe port p s cb)) = live p"
    and subscribe_adds: "good p \<Longrightarrow> rs_value (fst (port_subscribe port p s cb)) = Some t \<Longrightarrow>
      t \<notin> live p \<and> live (snd (port_subscribe port p s cb)) = insert t (live p)"
    and unsubscribe_fails: "good p \<Longrightarrow> fst (port_unsubscribe port p t) \<noteq> SOk \<Longrightarrow>
      live (snd (port_unsubscribe port p t)) = live p"
    and unsubscribe_removes: "good p \<Longrightarrow> fst (port_unsubscribe port p t) = SOk \<Longrightarrow>
      live (snd (port_unsubscribe port p t)) = live p - {t}"
    and unsubscribe_ready: "good p \<Longrightarrow> ready p \<Longrightarrow> t \<in> live p \<Longrightarrow> fst (port_unsubscribe port p t) = SOk"

begin

lemma subscribe_cases:
  assumes "good p" and "port_subscribe port p s cb = (r, p')"
  obtains (failed) "\<not> rs_ok r" "rs_status r \<noteq> SOk" "live p' = live p" "good p'"
  | (added) t where "rs_ok r" "rs_value r = Some t" "t \<notin> live p" "live p' = insert t (live p)" "good p'"
  using subscribe_status [of p s cb] subscribe_fails [OF assms(1), of s cb]
    subscribe_adds [OF assms(1), of s cb] good_subscribe [OF assms(1), of s cb]
  by (cases "rs_value r") (auto simp: assms(2) rs_ok_def)

lemma unsubscribe_newest_spec:
  assumes "good p" and "unsubscribe_newest port rs p = (st, rest, p')"
  shows "good p' \<and> (\<exists>gone. rs = gone @ rest \<and> live p' = live p - tokens gone) \<and> (st = SOk \<longleftrightarrow> rest = [])"
  using assms
proof (induction rs arbitrary: p)
  case Nil
  then show ?case by auto
next
  case (Cons r rs)
  obtain st1 p1 where u: "port_unsubscribe port p (snd r) = (st1, p1)" by (cases "port_unsubscribe port p (snd r)")
  have g1: "good p1" using good_unsubscribe [OF Cons.prems(1), of "snd r"] by (simp add: u)
  show ?case
  proof (cases "st1 = SOk")
    case False
    with Cons.prems u g1 unsubscribe_fails [OF Cons.prems(1), of "snd r"] show ?thesis
      by (auto intro!: exI [of _ "[]"])
  next
    case True
    with Cons.prems(2) u have rec: "unsubscribe_newest port rs p1 = (st, rest, p')" by simp
    from Cons.IH [OF g1 rec] obtain gone where g: "good p'" "rs = gone @ rest"
      "live p' = live p1 - tokens gone" "st = SOk \<longleftrightarrow> rest = []" by blast
    moreover have "live p1 = live p - {snd r}"
      using unsubscribe_removes [OF Cons.prems(1), of "snd r"] True by (simp add: u)
    ultimately show ?thesis by (auto intro!: exI [of _ "r # gone"])
  qed
qed

lemma unsubscribe_newest_ready:
  assumes "good p" "ready p" "tokens rs \<subseteq> live p" "distinct (map snd rs)"
  shows "fst (unsubscribe_newest port rs p) = SOk"
  using assms
proof (induction rs arbitrary: p)
  case Nil
  then show ?case by simp
next
  case (Cons r rs)
  obtain st1 p1 where u: "port_unsubscribe port p (snd r) = (st1, p1)" by (cases "port_unsubscribe port p (snd r)")
  from Cons.prems unsubscribe_ready [of p "snd r"] u have ok: "st1 = SOk" by simp
  moreover have "fst (unsubscribe_newest port rs p1) = SOk"
  proof (rule Cons.IH)
    show "good p1" using good_unsubscribe [OF Cons.prems(1), of "snd r"] by (simp add: u)
    show "ready p1" using ready_unsubscribe [OF Cons.prems(1,2), of "snd r"] by (simp add: u)
    show "tokens rs \<subseteq> live p1"
      using unsubscribe_removes [OF Cons.prems(1), of "snd r"] ok Cons.prems(3,4) by (auto simp: u)
    show "distinct (map snd rs)" using Cons.prems(4) by simp
  qed
  ultimately show ?case by (simp add: u)
qed

text \<open>The subscriptions of \<open>rs\<close> are the provider's live ones beyond \<open>L\<close>, each once.\<close>

definition owned :: "subscription set \<Rightarrow> registration list \<Rightarrow> 'p \<Rightarrow> bool" where
  "owned L rs p \<longleftrightarrow> good p \<and> live p = L \<union> tokens rs \<and> L \<inter> tokens rs = {} \<and> distinct (map snd rs)"

lemma owned_unsubscribe_all:
  assumes "owned L rs p" and "subs_unsubscribe_all port rs p = (st, rs', p')"
  shows "owned L rs' p' \<and> (st = SOk \<longleftrightarrow> rs' = []) \<and> (\<exists>gone. rs = rs' @ gone) \<and> (ready p \<longrightarrow> st = SOk)"
proof -
  obtain rest where u: "unsubscribe_newest port (rev rs) p = (st, rest, p')" and rs': "rs' = rev rest"
    using assms(2) by (auto simp: subs_unsubscribe_all_def split: prod.splits)
  from assms(1) have g: "good p" by (simp add: owned_def)
  from unsubscribe_newest_spec [OF g u] obtain gone where
    s: "good p'" "rev rs = gone @ rest" "live p' = live p - tokens gone" "st = SOk \<longleftrightarrow> rest = []"
    by blast
  have rs: "rs = rs' @ rev gone" using s(2) rs' by (metis rev_append rev_rev_ident)
  have "ready p \<longrightarrow> st = SOk"
    using unsubscribe_newest_ready [OF g, of "rev rs"] assms(1) u by (auto simp: owned_def rev_map [symmetric])
  moreover have "owned L rs' p'"
    using assms(1) s(1,3) rs by (auto simp: owned_def)
  ultimately show ?thesis using s(4) rs rs' by auto
qed

lemma owned_subscribe:
  assumes "owned L rs p" and "subs_subscribe port cb s rs p = (st, rs', p')"
  shows "owned L rs' p' \<and> (st \<noteq> SOk \<longrightarrow> rs' = rs)"
proof (cases "subs_contains rs s \<or> length rs = subscription_capacity")
  case True
  with assms show ?thesis by (auto simp: subs_subscribe_def split: if_splits)
next
  case False
  obtain r p1 where u: "port_subscribe port p s cb = (r, p1)" by (cases "port_subscribe port p s cb")
  from assms(1) have "good p" by (simp add: owned_def)
  from this u show ?thesis
  proof (cases rule: subscribe_cases)
    case failed
    with False assms u show ?thesis by (auto simp: subs_subscribe_def owned_def)
  next
    case (added t)
    with False assms u show ?thesis by (auto simp: subs_subscribe_def owned_def)
  qed
qed

lemma owned_attach_loop:
  assumes "owned L rs p" and "attach_loop port cb ss rs p = (st, rs', p')"
  shows "owned L rs' p'"
  using assms
proof (induction ss arbitrary: rs p)
  case (Cons s ss)
  obtain st1 rs1 p1 where u: "subs_subscribe port cb s rs p = (st1, rs1, p1)"
    by (cases "subs_subscribe port cb s rs p")
  with owned_subscribe [OF Cons.prems(1) u] Cons show ?case by (auto split: if_splits)
qed simp

lemma ready_attach_loop:
  assumes "good p" "ready p" and "attach_loop port cb ss rs p = (st, rs', p')"
  shows "ready p'"
  using assms
proof (induction ss arbitrary: rs p)
  case (Cons s ss)
  obtain st1 rs1 p1 where u: "subs_subscribe port cb s rs p = (st1, rs1, p1)"
    by (cases "subs_subscribe port cb s rs p")
  then have "good p1 \<and> ready p1"
    using good_subscribe [OF Cons.prems(1), of s cb] ready_subscribe [OF Cons.prems(1,2), of s cb] Cons.prems
    by (auto simp: subs_subscribe_def split: if_splits prod.splits)
  with u Cons show ?case by (auto split: if_splits)
qed simp

text \<open>
  Attach and detach never lose or leak a subscription: beyond the others' \<open>L\<close>, the provider
  holds exactly the ones the engine has registered, in every outcome.
\<close>

lemma attach_owned:
  assumes "owned L (en_subs e) p" and "attach port e p = (st, e', p')"
  shows "owned L (en_subs e') p'"
proof (cases "en_attached e")
  case True
  with assms show ?thesis by (simp add: attach_def)
next
  case False
  obtain st1 rs1 p1 where l: "attach_loop port on_notice_callback
      (map rule_signal (en_rules (reset_rules e))) (en_subs (reset_rules e)) p = (st1, rs1, p1)"
    by (metis prod_cases3)
  have "owned L rs1 p1" using owned_attach_loop [OF _ l] assms(1) by (simp add: reset_rules_def)
  moreover obtain st2 rs2 p2 where u: "subs_unsubscribe_all port rs1 p1 = (st2, rs2, p2)" by (metis prod_cases3)
  ultimately show ?thesis
    using owned_unsubscribe_all [OF _ u] assms(2) False l by (auto simp: attach_def Let_def split: if_splits)
qed

lemma detach_owned:
  assumes "owned L (en_subs e) p" and "detach port e p = (st, e', p')"
  shows "owned L (en_subs e') p'"
proof -
  obtain st1 rs1 p1 where u: "subs_unsubscribe_all port (en_subs e) p = (st1, rs1, p1)" by (metis prod_cases3)
  have "owned L rs1 p1" using owned_unsubscribe_all [OF assms(1) u] by simp
  with assms show ?thesis by (auto simp: detach_def u split: if_splits)
qed

text \<open>A stopped provider: a failed attach rolls back completely, a detach succeeds.\<close>

lemma attach_rolls_back:
  assumes own: "owned L [] p" and ready: "ready p" and e: "en_subs e = []" "\<not> en_attached e"
    and at: "attach port e p = (st, e', p')" and st: "st \<noteq> SOk"
  shows "en_subs e' = []" "\<not> en_attached e'" "live p' = L"
proof -
  obtain st1 rs1 p1 where l: "attach_loop port on_notice_callback
      (map rule_signal (en_rules (reset_rules e))) (en_subs (reset_rules e)) p = (st1, rs1, p1)"
    by (metis prod_cases3)
  have o1: "owned L rs1 p1" using owned_attach_loop [OF _ l] own e by (simp add: reset_rules_def)
  have r1: "ready p1" using ready_attach_loop [OF _ ready l] own by (simp add: owned_def)
  obtain st2 rs2 p2 where u: "subs_unsubscribe_all port rs1 p1 = (st2, rs2, p2)" by (metis prod_cases3)
  note o2 = owned_unsubscribe_all [OF o1 u]
  from at st e l u have "e' = (reset_rules e)\<lparr>en_subs := rs2, en_attached := (st2 \<noteq> SOk)\<rparr>" "p' = p2"
    by (auto simp: attach_def Let_def split: if_splits)
  with o2 r1 show "en_subs e' = []" "\<not> en_attached e'" "live p' = L"
    by (auto simp: owned_def)
qed

lemma detach_ready:
  assumes "owned L (en_subs e) p" and "ready p" and "en_attached e" and "detach port e p = (st, e', p')"
  shows "st = SOk" "en_subs e' = []" "\<not> en_attached e'" "live p' = L"
proof -
  obtain st1 rs1 p1 where u: "subs_unsubscribe_all port (en_subs e) p = (st1, rs1, p1)" by (metis prod_cases3)
  from owned_unsubscribe_all [OF assms(1) u] assms show "st = SOk" "en_subs e' = []" "\<not> en_attached e'" "live p' = L"
    by (auto simp: detach_def u owned_def)
qed

end

end
