(* ===== verification/Profile_Notify.thy ===== *)
theory Profile_Notify
  imports Profile_Laws Engine
begin

text \<open>
  Subscriptions and notices of the profile provider
  (\<open>lib/vehicle_profile_runtime/src/notifications.cpp\<close>): one channel with two registrations
  per Notify signal, opaque 64-bit tokens, start, stop, publication and dispatch. A callback with
  its context is a number; a channel callback is the trampoline of a registration slot. The
  lifecycle-owner check is external: \<open>pv_owner\<close> is its answer, \<open>None\<close> the null check.
  \<open>r0\<close> is the default \<open>vehicle_core::Reading\<close>.
\<close>

section \<open>Tokens\<close>

definition encode_subscription :: "nat \<Rightarrow> nat \<Rightarrow> u16 \<Rightarrow> subscription" where
  "encode_subscription c slot g = of_nat (c + 1) OR push_bit 8 (of_nat slot) OR push_bit 16 (ucast g)"

definition used_bits :: u64 where
  "used_bits = 0xFF OR push_bit 8 0xFF OR push_bit 16 0xFFFF"

text \<open>The channel index, slot and generation of a token; \<open>None\<close> is refusal.\<close>

definition decode_subscription :: "subscription \<Rightarrow> nat \<Rightarrow> (nat \<times> nat \<times> u16) option" where
  "decode_subscription bits channel_count =
     (if bits = 0 \<or> bits AND NOT used_bits \<noteq> 0 then None
      else let c = bits AND 0xFF; slot = drop_bit 8 bits AND 0xFF; g = drop_bit 16 bits AND 0xFFFF
        in if c = 0 \<or> channel_count < unat c \<or> channel_subscribers \<le> unat slot \<or> g = 0 then None
           else Some (unat c - 1, unat slot, ucast g))"

section \<open>State\<close>

record preg =
  rg_id :: signal_id
  rg_callback :: "nat option"
  rg_handle :: handle
  rg_generation :: u16
  rg_active :: bool

record binding =
  bd_id :: signal_id
  bd_channel :: channel
  bd_regs :: "preg list"

record provider =
  pv_profile :: profile
  pv_bindings :: "binding list"
  pv_running :: bool
  pv_callback_active :: bool
  pv_owner :: "bool option"

definition handle_new :: handle where
  "handle_new = \<lparr>hd_channel = 0xFFFF, hd_slot = 0xFF, hd_generation = 0\<rparr>"

definition preg_new :: "signal_id \<Rightarrow> preg" where
  "preg_new i = \<lparr>rg_id = i, rg_callback = None, rg_handle = handle_new, rg_generation = 0, rg_active = False\<rparr>"

definition binding_new :: "signal_reading \<Rightarrow> signal_id \<Rightarrow> binding" where
  "binding_new r0 i = \<lparr>bd_id = i, bd_channel = channel_new r0, bd_regs = replicate channel_subscribers (preg_new i)\<rparr>"

definition initialize_notification_channels :: "signal_reading \<Rightarrow> catalog \<Rightarrow> binding list" where
  "initialize_notification_channels r0 cat =
     map (\<lambda>m. binding_new r0 (md_id m)) (filter (\<lambda>m. caps_has (md_capabilities m) CNotify) cat)"

text \<open>The constructor; \<open>sync\<close> is \<open>synchronization.well_formed()\<close>.\<close>

definition provider_new :: "signal_reading \<Rightarrow> profile_tables \<Rightarrow> bool \<Rightarrow> bool option \<Rightarrow> provider" where
  "provider_new r0 t sync owner = (let s = profile_new t sync
     in \<lparr>pv_profile = s,
         pv_bindings = (if pf_valid s then initialize_notification_channels r0 (pt_catalog t) else []),
         pv_running = False, pv_callback_active = False, pv_owner = owner\<rparr>)"

fun map_notification_status :: "notification_status \<Rightarrow> signal_status" where
  "map_notification_status NOk = InvalidState"
| "map_notification_status NCapacityExceeded = CapacityExceeded"
| "map_notification_status NInvalidSubscription = InvalidSubscription"
| "map_notification_status NInvalidCallback = InvalidArgument"
| "map_notification_status NInvalidState = InvalidState"
| "map_notification_status NAlreadyRunning = InvalidState"
| "map_notification_status NNotRunning = InvalidState"
| "map_notification_status NNoPending = InvalidState"

definition clear_registration :: "preg \<Rightarrow> preg" where
  "clear_registration r = r\<lparr>rg_callback := None, rg_handle := handle_new, rg_active := False\<rparr>"

definition owner_refuses :: "provider \<Rightarrow> bool" where
  "owner_refuses p = (case pv_owner p of None \<Rightarrow> True | Some b \<Rightarrow> \<not> b)"

definition put_binding :: "nat \<Rightarrow> binding \<Rightarrow> provider \<Rightarrow> provider" where
  "put_binding c b p = p\<lparr>pv_bindings := (pv_bindings p)[c := b]\<rparr>"

section \<open>Subscribe and unsubscribe\<close>

text \<open>The body of the slot loop of \<open>subscribe\<close> for the first free registration.\<close>

definition claim_slot ::
  "signal_reading \<Rightarrow> provider \<Rightarrow> nat option \<Rightarrow> nat \<Rightarrow> nat \<Rightarrow> subscription signal_result \<times> provider" where
  "claim_slot r0 p cb c slot = (let b = pv_bindings p ! c; r = (bd_regs b ! slot)\<lparr>rg_callback := cb\<rparr> in
     case channel_subscribe r0 (Some slot) (bd_channel b) of
       ((NOk, Some h), ch) \<Rightarrow> (let g = generation_after (rg_generation r)
          in (rs_success (encode_subscription c slot g),
              put_binding c (b\<lparr>bd_channel := ch, bd_regs := (bd_regs b)[slot :=
                 r\<lparr>rg_generation := g, rg_handle := h, rg_active := True\<rparr>]\<rparr>) p))
     | ((st, _), ch) \<Rightarrow>
         (rs_failure (map_notification_status st),
          put_binding c (b\<lparr>bd_channel := ch, bd_regs := (bd_regs b)[slot := clear_registration r]\<rparr>) p))"

definition provider_subscribe ::
  "signal_reading \<Rightarrow> provider \<Rightarrow> signal_id \<Rightarrow> nat option \<Rightarrow> subscription signal_result \<times> provider" where
  "provider_subscribe r0 p i cb = (case catalog_find (pt_catalog (pf_tables (pv_profile p))) i of
       None \<Rightarrow> (rs_failure InvalidSignal, p)
     | Some m \<Rightarrow>
         if \<not> caps_has (md_capabilities m) CNotify then (rs_failure UnsupportedCapability, p)
         else if \<not> pf_valid (pv_profile p) then (rs_failure Faulted, p)
         else if pv_running p \<or> pv_callback_active p then (rs_failure InvalidState, p)
         else if cb = None then (rs_failure InvalidArgument, p)
         else if owner_refuses p then (rs_failure InvalidState, p)
         else case find_index (\<lambda>b. bd_id b = i) (pv_bindings p) of
             None \<Rightarrow> (rs_failure Faulted, p)
           | Some c \<Rightarrow> (case find_index (\<lambda>r. \<not> rg_active r) (bd_regs (pv_bindings p ! c)) of
                 None \<Rightarrow> (rs_failure CapacityExceeded, p)
               | Some slot \<Rightarrow> claim_slot r0 p cb c slot))"

definition provider_unsubscribe ::
  "signal_reading \<Rightarrow> provider \<Rightarrow> subscription \<Rightarrow> signal_status \<times> provider" where
  "provider_unsubscribe r0 p t =
     (if \<not> pf_valid (pv_profile p) then (void_failure Faulted, p)
      else if pv_running p \<or> pv_callback_active p then (void_failure InvalidState, p)
      else if owner_refuses p then (void_failure InvalidState, p)
      else case decode_subscription t (length (pv_bindings p)) of
          None \<Rightarrow> (void_failure InvalidSubscription, p)
        | Some (c, slot, g) \<Rightarrow> (let b = pv_bindings p ! c; r = bd_regs b ! slot in
            if \<not> rg_active r \<or> rg_generation r \<noteq> g then (void_failure InvalidSubscription, p)
            else case channel_unsubscribe r0 (rg_handle r) (bd_channel b) of (st, ch) \<Rightarrow>
              (if st \<noteq> NOk then (void_failure (map_notification_status st), put_binding c (b\<lparr>bd_channel := ch\<rparr>) p)
               else (SOk, put_binding c (b\<lparr>bd_channel := ch,
                       bd_regs := (bd_regs b)[slot := clear_registration r]\<rparr>) p))))"

section \<open>Start and stop\<close>

text \<open>Starting stops at the first channel that refuses and stops the ones before it.\<close>

fun start_channels :: "signal_reading \<Rightarrow> binding list \<Rightarrow> bool \<times> binding list" where
  "start_channels r0 [] = (True, [])"
| "start_channels r0 (b # bs) = (case channel_start r0 (bd_channel b) of (st, ch) \<Rightarrow>
     (if st \<noteq> NOk then (False, b\<lparr>bd_channel := ch\<rparr> # bs)
      else case start_channels r0 bs of (ok, bs') \<Rightarrow>
        (ok, (if ok then b\<lparr>bd_channel := ch\<rparr> else b\<lparr>bd_channel := snd (channel_stop r0 ch)\<rparr>) # bs')))"

text \<open>The clock is read again for every signal: \<open>clock k\<close> is the time for binding \<open>k\<close>.\<close>

definition publish_initial :: "timestamp \<Rightarrow> profile \<Rightarrow> binding \<Rightarrow> binding" where
  "publish_initial now s b = (let res = profile_read s now (bd_id b)
     in if rs_ok res then (case rs_value res of
            Some rd \<Rightarrow> b\<lparr>bd_channel := snd (channel_publish rd (bd_channel b))\<rparr> | None \<Rightarrow> b)
        else b)"

definition stop_binding :: "signal_reading \<Rightarrow> binding \<Rightarrow> binding" where
  "stop_binding r0 b = b\<lparr>bd_channel := snd (channel_stop r0 (bd_channel b))\<rparr>"

fun detach_regs :: "signal_reading \<Rightarrow> preg list \<Rightarrow> channel \<Rightarrow> preg list \<times> channel" where
  "detach_regs r0 [] ch = ([], ch)"
| "detach_regs r0 (r # rs) ch =
     (if \<not> rg_active r then (case detach_regs r0 rs ch of (rs', ch') \<Rightarrow> (r # rs', ch'))
      else case detach_regs r0 rs (snd (channel_unsubscribe r0 (rg_handle r) ch)) of
             (rs', ch') \<Rightarrow> (clear_registration r # rs', ch'))"

definition detach_binding :: "signal_reading \<Rightarrow> binding \<Rightarrow> binding" where
  "detach_binding r0 b = (case detach_regs r0 (bd_regs b) (bd_channel b) of
     (rs, ch) \<Rightarrow> b\<lparr>bd_regs := rs, bd_channel := ch\<rparr>)"

definition set_running :: "signal_reading \<Rightarrow> (nat \<Rightarrow> timestamp) \<Rightarrow> bool \<Rightarrow> provider \<Rightarrow> provider" where
  "set_running r0 clock running p =
     (if \<not> pf_valid (pv_profile p) \<or> pv_callback_active p then p
      else if running then
        (if pv_running p then p
         else case start_channels r0 (pv_bindings p) of
             (False, bs) \<Rightarrow> p\<lparr>pv_bindings := bs\<rparr>
           | (True, bs) \<Rightarrow> p\<lparr>pv_running := True, pv_bindings :=
               map (\<lambda>k. publish_initial (clock k) (pv_profile p) (bs ! k)) [0..<length bs]\<rparr>)
      else if \<not> pv_running p then p
      else let bs = map (stop_binding r0) (pv_bindings p)
        in if list_ex (\<lambda>b. fst (channel_stop r0 (bd_channel b)) \<noteq> NOk) (pv_bindings p)
           then p\<lparr>pv_bindings := bs\<rparr>
           else p\<lparr>pv_bindings := map (detach_binding r0) bs, pv_running := False\<rparr>)"

section \<open>Publication and dispatch\<close>

definition publish_result_to :: "timestamp \<Rightarrow> profile \<Rightarrow> process_result \<Rightarrow> binding \<Rightarrow> binding" where
  "publish_result_to now s res b =
     (let due = bd_id b \<in> set (pr_due res); changed = bd_id b \<in> set (pr_changed res);
          recovered = bd_id b \<in> set (pr_recovered res); current = profile_read s now (bd_id b)
      in if \<not> due \<and> \<not> changed \<and> \<not> recovered then b
         else if \<not> rs_ok current then b
         else let ch = bd_channel b;
                  ch' = (if due \<and> recovered \<and> reading_available (ch_current ch)
                         then snd (channel_publish ((ch_current ch)\<lparr>rd_availability := Stale\<rparr>) ch) else ch)
           in (case rs_value current of Some rd \<Rightarrow> b\<lparr>bd_channel := snd (channel_publish rd ch')\<rparr> | None \<Rightarrow> b))"

text \<open>\<open>publish\<close> reads each affected signal again: \<open>clock k\<close> is the time of the read for binding \<open>k\<close>.\<close>

definition provider_publish :: "(nat \<Rightarrow> timestamp) \<Rightarrow> process_result \<Rightarrow> provider \<Rightarrow> provider" where
  "provider_publish clock res p =
     (if \<not> pf_valid (pv_profile p) \<or> \<not> pv_running p then p
      else p\<lparr>pv_bindings := map (\<lambda>k. publish_result_to (clock k) (pv_profile p) res (pv_bindings p ! k))
                                [0..<length (pv_bindings p)]\<rparr>)"

text \<open>The trampoline: what a registration's user callback receives of a channel notice.\<close>

definition trampoline :: "preg \<Rightarrow> chan_notice \<Rightarrow> (nat \<times> signal_notification) option" where
  "trampoline r n = (if \<not> rg_active r then None
     else case rg_callback r of None \<Rightarrow> None
       | Some cb \<Rightarrow> Some (cb, \<lparr>nt_id = rg_id r, nt_current = cn_current n, nt_initial = cn_initial n,
           nt_became_unavailable = cn_became_unavailable n, nt_recovered = cn_recovered n,
           nt_coalesced = cn_coalesced n\<rparr>))"

definition dispatch_binding :: "binding \<Rightarrow> (nat \<times> signal_notification) list \<times> binding" where
  "dispatch_binding b = (case dispatch_pending channel_subscribers (bd_channel b) of (ds, ch) \<Rightarrow>
     (concat (map (\<lambda>(i, ctx, n). opt_list (case ctx of None \<Rightarrow> None | Some slot \<Rightarrow> trampoline (bd_regs b ! slot) n)) ds),
      b\<lparr>bd_channel := ch\<rparr>))"

definition provider_dispatch_pending :: "provider \<Rightarrow> (nat \<times> signal_notification) list \<times> provider" where
  "provider_dispatch_pending p =
     (if \<not> pf_valid (pv_profile p) \<or> \<not> pv_running p then ([], p)
      else (concat (map (fst \<circ> dispatch_binding) (pv_bindings p)),
            p\<lparr>pv_bindings := map (snd \<circ> dispatch_binding) (pv_bindings p)\<rparr>))"

definition provider_deliver ::
  "(nat \<Rightarrow> timestamp) \<Rightarrow> process_result \<Rightarrow> provider \<Rightarrow> (nat \<times> signal_notification) list \<times> provider" where
  "provider_deliver clock res p = provider_dispatch_pending (provider_publish clock res p)"

section \<open>The provider port\<close>

definition profile_port :: "signal_reading \<Rightarrow> timestamp \<Rightarrow> provider port" where
  "profile_port r0 now = \<lparr>port_catalog = (\<lambda>p. pt_catalog (pf_tables (pv_profile p))),
     port_read = (\<lambda>p i. profile_read (pv_profile p) now i),
     port_subscribe = provider_subscribe r0,
     port_unsubscribe = provider_unsubscribe r0\<rparr>"

end
