(* ===== verification/Profile_Notify_Laws.thy ===== *)
theory Profile_Notify_Laws
  imports Profile_Notify
begin

text \<open>
  The profile provider keeps the contract of the provider port: its registrations and its
  channels agree slot by slot, a token names exactly one registration, and the locale
  \<open>signal_provider\<close> is interpreted on \<open>profile_port\<close>.
\<close>

section \<open>Token round trips\<close>

lemma small_bits:
  assumes "x < 2 ^ k"
  shows "bit (of_nat x :: u64) n \<longrightarrow> n < k"
proof
  assume "bit (of_nat x :: u64) n"
  then have "bit x n" by (simp add: bit_simps)
  then have "2 ^ n \<le> x" by (metis bit_iff_odd div_less even_zero linorder_not_le)
  with assms show "n < k" by (metis le_less_trans nat_power_less_imp_less zero_less_numeral)
qed

lemma mask_8: "(0xFF :: u64) = mask 8" and mask_16: "(0xFFFF :: u64) = mask 16"
  by (simp_all add: mask_eq_exp_minus_1)

lemma token_bits:
  fixes x y z :: u64
  assumes "\<And>n. bit x n \<Longrightarrow> n < 8" "\<And>n. bit y n \<Longrightarrow> n < 8" "\<And>n. bit z n \<Longrightarrow> n < 16"
  shows "(x OR push_bit 8 y OR push_bit 16 z) AND 0xFF = x"
    "drop_bit 8 (x OR push_bit 8 y OR push_bit 16 z) AND 0xFF = y"
    "drop_bit 16 (x OR push_bit 8 y OR push_bit 16 z) AND 0xFFFF = z"
    "(x OR push_bit 8 y OR push_bit 16 z) AND NOT used_bits = 0"
proof -
  show "(x OR push_bit 8 y OR push_bit 16 z) AND 0xFF = x"
    unfolding mask_8 by (rule bit_word_eqI) (auto simp: bit_simps dest: assms(1))
  show "drop_bit 8 (x OR push_bit 8 y OR push_bit 16 z) AND 0xFF = y"
    unfolding mask_8 by (rule bit_word_eqI) (auto simp: bit_simps dest: assms(1,2))
  show "drop_bit 16 (x OR push_bit 8 y OR push_bit 16 z) AND 0xFFFF = z"
    unfolding mask_16 by (rule bit_word_eqI) (auto simp: bit_simps dest: assms)
  show "(x OR push_bit 8 y OR push_bit 16 z) AND NOT used_bits = 0"
    unfolding mask_8 mask_16 used_bits_def by (rule bit_word_eqI) (auto simp: bit_simps dest: assms)
qed

lemma encode_fields:
  assumes "c < 255" and "k < 256"
  shows "encode_subscription c k g AND 0xFF = of_nat (c + 1)"
    "drop_bit 8 (encode_subscription c k g) AND 0xFF = of_nat k"
    "drop_bit 16 (encode_subscription c k g) AND 0xFFFF = ucast g"
    "encode_subscription c k g AND NOT used_bits = 0"
proof -
  have b1: "bit (of_nat (c + 1) :: u64) n \<longrightarrow> n < 8" for n by (rule small_bits) (use assms in simp)
  have b2: "bit (of_nat k :: u64) n \<longrightarrow> n < 8" for n by (rule small_bits) (use assms in simp)
  have b3: "bit g n \<longrightarrow> n < 16" for n using bit_imp_le_length [of g n] by auto
  have b4: "bit (ucast g :: u64) n \<longrightarrow> n < 16" for n using b3 by (simp add: bit_simps)
  show "encode_subscription c k g AND 0xFF = of_nat (c + 1)"
    "drop_bit 8 (encode_subscription c k g) AND 0xFF = of_nat k"
    "drop_bit 16 (encode_subscription c k g) AND 0xFFFF = ucast g"
    "encode_subscription c k g AND NOT used_bits = 0"
    unfolding encode_subscription_def
    by (rule token_bits; use b1 b2 b4 in blast)+
qed

lemma unat_small: "n < 256 \<Longrightarrow> unat (of_nat n :: u64) = n"
  by (simp add: unat_of_nat_u64)

lemma decode_encode:
  assumes "c < n" and "n \<le> 254" and "k < 2" and "g \<noteq> 0"
  shows "decode_subscription (encode_subscription c k g) n = Some (c, k, g)"
proof -
  have c: "c < 255" and k: "k < 256" using assms by auto
  note f = encode_fields [OF c k, of g]
  have uc: "unat (of_nat (c + 1) :: u64) = c + 1" and uk: "unat (of_nat k :: u64) = k"
    using c k by (simp_all only: unat_small)
  have c0: "(of_nat (c + 1) :: u64) \<noteq> 0" using uc by (metis Suc_eq_plus1 nat.distinct(1) unat_0)
  have e0: "encode_subscription c k g \<noteq> 0" using f(1) c0 by auto
  have ug: "(ucast (ucast g :: u64) :: u16) = g" by (rule bit_word_eqI) (simp add: bit_simps)
  have g0: "(ucast g :: u64) \<noteq> 0"
  proof
    assume "(ucast g :: u64) = 0"
    with ug assms(4) show False by simp
  qed
  show ?thesis
    unfolding decode_subscription_def Let_def f uc uk ug using assms e0 c0 g0
    by (simp add: channel_subscribers_def del: of_nat_add)
qed

lemma encode_decode:
  assumes "decode_subscription t n = Some (c, k, g)"
  shows "t = encode_subscription c k g" "c < n" "k < 2" "g \<noteq> 0"
proof -
  let ?c = "t AND 0xFF" and ?k = "drop_bit 8 t AND 0xFF" and ?g = "drop_bit 16 t AND 0xFFFF"
  from assms have d: "t AND NOT used_bits = 0" "?c \<noteq> 0" "unat ?c \<le> n" "unat ?k < 2" "?g \<noteq> 0"
    "c = unat ?c - 1" "k = unat ?k" "g = ucast ?g"
    by (auto simp: decode_subscription_def Let_def channel_subscribers_def not_le split: if_splits)
  have "0 < unat ?c" using d(2) by (simp add: unat_gt_0)
  then have c1: "(of_nat (c + 1) :: u64) = ?c" unfolding d(6) by simp
  have k1: "(of_nat k :: u64) = ?k" unfolding d(7) by simp
  have g1: "(ucast g :: u64) = ?g" unfolding d(8)
    by (rule bit_word_eqI) (auto simp: bit_simps mask_16)
  have hi: "i < 32" if "bit t i" for i
  proof (rule ccontr)
    assume "\<not> i < 32"
    moreover from that have "i < 64" using bit_imp_le_length [of t i] by simp
    ultimately have "bit (t AND NOT used_bits) i"
      using that by (auto simp: bit_simps used_bits_def mask_8 mask_16)
    then show False using d(1) by simp
  qed
  show "t = encode_subscription c k g"
    unfolding encode_subscription_def c1 k1 g1
  proof (rule bit_word_eqI)
    fix i assume "i < LENGTH(64)"
    then show "bit t i = bit (t AND 0xFF OR push_bit 8 (drop_bit 8 t AND 0xFF) OR push_bit 16 (drop_bit 16 t AND 0xFFFF)) i"
      using hi [of i] unfolding mask_8 mask_16 by (cases "i < 8"; cases "i < 16") (auto simp: bit_simps)
  qed
  show "c < n" using d(3,6) \<open>0 < unat ?c\<close> by linarith
  show "k < 2" using d by simp
  show "g \<noteq> 0"
  proof
    assume "g = 0"
    with g1 d(5) show False by simp
  qed
qed

section \<open>The provider's invariant and live tokens\<close>

definition slot_synced :: "nat \<Rightarrow> preg \<Rightarrow> subscriber \<Rightarrow> bool" where
  "slot_synced k r s = (rg_active r = sb_active s \<and>
     (rg_active r \<longrightarrow> rg_generation r \<noteq> 0 \<and>
        rg_handle r = \<lparr>hd_channel = 0, hd_slot = of_nat k, hd_generation = sb_generation s\<rparr>))"

definition binding_ok :: "binding \<Rightarrow> bool" where
  "binding_ok b = (\<exists>r0 r1 s0 s1. bd_regs b = [r0, r1] \<and> ch_subs (bd_channel b) = [s0, s1]
     \<and> slot_synced 0 r0 s0 \<and> slot_synced 1 r1 s1)"

definition provider_good :: "provider \<Rightarrow> bool" where
  "provider_good p = (length (pv_bindings p) \<le> max_notify_bindings \<and> (\<forall>b \<in> set (pv_bindings p). binding_ok b))"

definition provider_ready :: "provider \<Rightarrow> bool" where
  "provider_ready p = (pf_valid (pv_profile p) \<and> \<not> pv_running p \<and> \<not> pv_callback_active p \<and> pv_owner p = Some True
     \<and> (\<forall>b \<in> set (pv_bindings p). \<not> ch_running (bd_channel b) \<and> \<not> ch_callback_active (bd_channel b)))"

definition holds_token :: "provider \<Rightarrow> nat \<Rightarrow> nat \<Rightarrow> u16 \<Rightarrow> bool" where
  "holds_token p c k g = (c < length (pv_bindings p) \<and> k < 2
     \<and> rg_active (bd_regs (pv_bindings p ! c) ! k) \<and> rg_generation (bd_regs (pv_bindings p ! c) ! k) = g)"

definition live_tokens :: "provider \<Rightarrow> subscription set" where
  "live_tokens p = {encode_subscription c k g | c k g. holds_token p c k g}"

lemma good_binding: "provider_good p \<Longrightarrow> c < length (pv_bindings p) \<Longrightarrow> binding_ok (pv_bindings p ! c)"
  by (simp add: provider_good_def)

lemma holds_token_nonzero: "provider_good p \<Longrightarrow> holds_token p c k g \<Longrightarrow> g \<noteq> 0"
proof -
  assume "provider_good p" and h: "holds_token p c k g"
  then have "binding_ok (pv_bindings p ! c)" by (simp add: good_binding holds_token_def)
  then obtain ra rb sa sb where b: "bd_regs (pv_bindings p ! c) = [ra, rb]" "slot_synced 0 ra sa" "slot_synced 1 rb sb"
    by (auto simp: binding_ok_def)
  from h have "k = 0 \<or> k = 1" by (auto simp: holds_token_def)
  with h b show "g \<noteq> 0" by (auto simp: holds_token_def slot_synced_def)
qed

lemma live_token_decode:
  assumes "provider_good p"
  shows "t \<in> live_tokens p \<longleftrightarrow> (\<exists>c k g. decode_subscription t (length (pv_bindings p)) = Some (c, k, g) \<and> holds_token p c k g)"
proof
  assume "t \<in> live_tokens p"
  then obtain c k g where t: "t = encode_subscription c k g" "holds_token p c k g" by (auto simp: live_tokens_def)
  then have c: "c < length (pv_bindings p)" "k < 2" by (simp_all add: holds_token_def)
  have "g \<noteq> 0" by (rule holds_token_nonzero [OF assms t(2)])
  moreover have "length (pv_bindings p) \<le> 254" using assms by (simp add: provider_good_def max_notify_bindings_def)
  ultimately show "\<exists>c k g. decode_subscription t (length (pv_bindings p)) = Some (c, k, g) \<and> holds_token p c k g"
    using decode_encode [OF c(1) _ c(2), of g] t by auto
next
  assume "\<exists>c k g. decode_subscription t (length (pv_bindings p)) = Some (c, k, g) \<and> holds_token p c k g"
  then show "t \<in> live_tokens p" using encode_decode by (fastforce simp: live_tokens_def)
qed

lemma encode_inj:
  assumes "provider_good p" and "holds_token p c k g" and "c' < length (pv_bindings p)" "k' < 2" "g' \<noteq> 0"
    and "encode_subscription c k g = encode_subscription c' k' g'"
  shows "c = c' \<and> k = k' \<and> g = g'"
proof -
  have n: "length (pv_bindings p) \<le> 254" using assms(1) by (simp add: provider_good_def max_notify_bindings_def)
  from assms(2) have c: "c < length (pv_bindings p)" "k < 2" by (simp_all add: holds_token_def)
  have "g \<noteq> 0" by (rule holds_token_nonzero [OF assms(1,2)])
  have "Some (c, k, g) = Some (c', k', g')"
    using decode_encode [OF c(1) n c(2) \<open>g \<noteq> 0\<close>] decode_encode [OF assms(3) n assms(4,5)] unfolding assms(6)
    by (rule trans [OF sym])
  then show ?thesis by simp
qed

section \<open>Subscribing\<close>

text \<open>Outcomes: refused without a change that matters, or one free slot of one binding taken.\<close>

definition taken :: "signal_reading \<Rightarrow> nat option \<Rightarrow> nat \<Rightarrow> binding \<Rightarrow> binding \<Rightarrow> bool" where
  "taken r0 cb slot b b' = (\<exists>ch h. channel_subscribe r0 (Some slot) (bd_channel b) = ((NOk, Some h), ch)
     \<and> b' = b\<lparr>bd_channel := ch, bd_regs := (bd_regs b)[slot := (bd_regs b ! slot)
          \<lparr>rg_callback := cb, rg_generation := generation_after (rg_generation (bd_regs b ! slot)),
           rg_handle := h, rg_active := True\<rparr>]\<rparr>)"

lemma find_inactive:
  assumes "binding_ok b" and "find_index (\<lambda>r. \<not> rg_active r) (bd_regs b) = Some slot"
  shows "slot < 2" "\<not> rg_active (bd_regs b ! slot)" "find_index (\<lambda>s. \<not> sb_active s) (ch_subs (bd_channel b)) = Some slot"
  using assms by (auto simp: binding_ok_def slot_synced_def split: if_splits)

lemma binding_ok_taken:
  assumes "binding_ok b" and "find_index (\<lambda>r. \<not> rg_active r) (bd_regs b) = Some slot" and "taken r0 cb slot b b'"
  shows "binding_ok b'"
proof -
  from assms(1) obtain ra rb sa sb where b: "bd_regs b = [ra, rb]" "ch_subs (bd_channel b) = [sa, sb]"
    "slot_synced 0 ra sa" "slot_synced 1 rb sb" by (auto simp: binding_ok_def)
  from assms(3) obtain ch h where c: "channel_subscribe r0 (Some slot) (bd_channel b) = ((NOk, Some h), ch)"
    and b': "b' = b\<lparr>bd_channel := ch, bd_regs := (bd_regs b)[slot := (bd_regs b ! slot)
          \<lparr>rg_callback := cb, rg_generation := generation_after (rg_generation (bd_regs b ! slot)),
           rg_handle := h, rg_active := True\<rparr>]\<rparr>" by (auto simp: taken_def)
  from b(2) c show ?thesis
  proof (cases rule: channel_subscribe_cases)
    case same
    then show ?thesis by simp
  next
    case first
    then have "slot = 0" using assms(2) b by (auto simp: slot_synced_def split: if_splits)
    with first b b' show ?thesis by (simp add: binding_ok_def slot_synced_def occupied_def)
  next
    case second
    then have "slot = 1" using assms(2) b by (auto simp: slot_synced_def split: if_splits)
    with second b b' show ?thesis by (simp add: binding_ok_def slot_synced_def occupied_def)
  qed
qed

lemma provider_subscribe_cases:
  obtains (refused) st where "provider_subscribe r0 p i cb = (rs_failure st, p)"
  | (claimed) c slot where "c < length (pv_bindings p)" "bd_id (pv_bindings p ! c) = i"
      "find_index (\<lambda>r. \<not> rg_active r) (bd_regs (pv_bindings p ! c)) = Some slot"
      "\<not> pv_running p" "\<not> pv_callback_active p" "provider_subscribe r0 p i cb = claim_slot r0 p cb c slot"
proof (cases "\<exists>st. provider_subscribe r0 p i cb = (rs_failure st, p)")
  case True
  then show ?thesis using refused by blast
next
  case False
  then obtain c where c: "find_index (\<lambda>b. bd_id b = i) (pv_bindings p) = Some c" "\<not> pv_running p" "\<not> pv_callback_active p"
    by (auto simp: provider_subscribe_def split: option.splits if_splits)
  from False c obtain slot where s: "find_index (\<lambda>r. \<not> rg_active r) (bd_regs (pv_bindings p ! c)) = Some slot"
    by (auto simp: provider_subscribe_def split: option.splits if_splits)
  from False c s have "provider_subscribe r0 p i cb = claim_slot r0 p cb c slot"
    by (auto simp: provider_subscribe_def split: option.splits if_splits)
  with find_index_Some [OF c(1)] s c show ?thesis by (intro claimed) simp_all
qed

lemma claim_slot_cases:
  obtains (failed) st where "claim_slot r0 p cb c slot = (rs_failure st, put_binding c ((pv_bindings p ! c)
        \<lparr>bd_regs := (bd_regs (pv_bindings p ! c))[slot := clear_registration (bd_regs (pv_bindings p ! c) ! slot)]\<rparr>) p)"
  | (granted) b' where "taken r0 cb slot (pv_bindings p ! c) b'"
      "claim_slot r0 p cb c slot = (rs_success (encode_subscription c slot
          (generation_after (rg_generation (bd_regs (pv_bindings p ! c) ! slot)))), put_binding c b' p)"
proof -
  obtain st h ch where cs: "channel_subscribe r0 (Some slot) (bd_channel (pv_bindings p ! c)) = ((st, h), ch)"
    by (metis prod.exhaust)
  show ?thesis
  proof (cases "st = NOk")
    case True
    with cs obtain h' where "h = Some h'"
      by (auto simp: channel_subscribe_def Let_def split: if_splits option.splits)
    with cs True show ?thesis
      by (intro granted) (auto simp: claim_slot_def taken_def Let_def)
  next
    case False
    with cs have "ch = bd_channel (pv_bindings p ! c)"
      by (auto simp: channel_subscribe_def Let_def split: if_splits option.splits)
    with cs False show ?thesis
      by (intro failed [of "map_notification_status st"])
         (cases st; simp add: claim_slot_def clear_registration_def Let_def)
  qed
qed

lemma put_binding_simps [simp]:
  "pv_profile (put_binding c b p) = pv_profile p" "pv_running (put_binding c b p) = pv_running p"
  "pv_callback_active (put_binding c b p) = pv_callback_active p" "pv_owner (put_binding c b p) = pv_owner p"
  "length (pv_bindings (put_binding c b p)) = length (pv_bindings p)"
  by (simp_all add: put_binding_def)

lemma holds_put:
  "c < length (pv_bindings p) \<Longrightarrow> holds_token (put_binding c b p) c' k g \<longleftrightarrow>
     (if c' = c then k < 2 \<and> rg_active (bd_regs b ! k) \<and> rg_generation (bd_regs b ! k) = g else holds_token p c' k g)"
  by (auto simp: holds_token_def put_binding_def nth_update_any)

lemma good_put: "provider_good p \<Longrightarrow> binding_ok b \<Longrightarrow> provider_good (put_binding c b p)"
  using set_update_subset_insert [of "pv_bindings p" c b] by (auto simp: provider_good_def put_binding_def)

text \<open>A binding in which slot \<open>slot\<close>'s registration is not active holds the tokens of the other slots.\<close>

lemma regs_length: "binding_ok b \<Longrightarrow> length (bd_regs b) = 2"
  by (auto simp: binding_ok_def)

lemma granted_token:
  assumes good: "provider_good p" and c: "c < length (pv_bindings p)"
    and free: "find_index (\<lambda>r. \<not> rg_active r) (bd_regs (pv_bindings p ! c)) = Some slot"
    and b': "taken r0 cb slot (pv_bindings p ! c) b'"
  defines "t \<equiv> encode_subscription c slot (generation_after (rg_generation (bd_regs (pv_bindings p ! c) ! slot)))"
  shows "t \<notin> live_tokens p" "live_tokens (put_binding c b' p) = insert t (live_tokens p)"
proof -
  let ?b = "pv_bindings p ! c"
  let ?g = "generation_after (rg_generation (bd_regs ?b ! slot))"
  note fi = find_inactive [OF good_binding [OF good c] free]
  have len: "length (bd_regs ?b) = 2" by (rule regs_length [OF good_binding [OF good c]])
  show "t \<notin> live_tokens p"
  proof
    assume "t \<in> live_tokens p"
    then obtain c' k' g' where h: "encode_subscription c' k' g' = t" "holds_token p c' k' g'" by (auto simp: live_tokens_def)
    from encode_inj [OF good h(2) c fi(1) generation_after_nonzero h(1) [unfolded t_def]]
    have "c' = c" "k' = slot" by simp_all
    with h(2) fi(2) show False by (simp add: holds_token_def)
  qed
  have regs: "rg_active (bd_regs b' ! k) = (if k = slot then True else rg_active (bd_regs ?b ! k))
      \<and> (k \<noteq> slot \<longrightarrow> rg_generation (bd_regs b' ! k) = rg_generation (bd_regs ?b ! k))
      \<and> (k = slot \<longrightarrow> rg_generation (bd_regs b' ! k) = ?g)" if "k < 2" for k
    using b' that len by (auto simp: taken_def nth_update_any)
  have "holds_token (put_binding c b' p) c' k g \<longleftrightarrow> holds_token p c' k g \<or> (c' = c \<and> k = slot \<and> g = ?g)" for c' k g
  proof (cases "c' = c \<and> k = slot")
    case True
    with regs [OF fi(1)] fi(1,2) show ?thesis unfolding holds_put [OF c] by (auto simp: holds_token_def)
  next
    case False
    then show ?thesis unfolding holds_put [OF c] using regs [of k] c by (auto simp: holds_token_def)
  qed
  then show "live_tokens (put_binding c b' p) = insert t (live_tokens p)"
    unfolding live_tokens_def t_def by auto
qed

lemma failed_claim_live:
  assumes good: "provider_good p" and c: "c < length (pv_bindings p)"
    and free: "find_index (\<lambda>r. \<not> rg_active r) (bd_regs (pv_bindings p ! c)) = Some slot"
  defines "b' \<equiv> (pv_bindings p ! c)\<lparr>bd_regs := (bd_regs (pv_bindings p ! c))[slot := clear_registration (bd_regs (pv_bindings p ! c) ! slot)]\<rparr>"
  shows "live_tokens (put_binding c b' p) = live_tokens p" "provider_good (put_binding c b' p)"
proof -
  note ok = good_binding [OF good c]
  note fi = find_inactive [OF ok free]
  have regs: "bd_regs b' = (bd_regs (pv_bindings p ! c))[slot := clear_registration (bd_regs (pv_bindings p ! c) ! slot)]"
    by (simp add: b'_def)
  have act: "rg_active (bd_regs b' ! k) = rg_active (bd_regs (pv_bindings p ! c) ! k)
      \<and> rg_generation (bd_regs b' ! k) = rg_generation (bd_regs (pv_bindings p ! c) ! k)" if "k < 2" for k
    using that fi(2) regs_length [OF ok] by (auto simp: regs nth_update_any clear_registration_def)
  have "holds_token (put_binding c b' p) c' k g \<longleftrightarrow> holds_token p c' k g" for c' k g
    unfolding holds_put [OF c] using act [of k] c by (auto simp: holds_token_def)
  then show "live_tokens (put_binding c b' p) = live_tokens p" by (simp add: live_tokens_def)
  have "binding_ok b'"
  proof -
    from ok obtain ra rb sa sb where b: "bd_regs (pv_bindings p ! c) = [ra, rb]" "ch_subs (bd_channel (pv_bindings p ! c)) = [sa, sb]"
      "slot_synced 0 ra sa" "slot_synced 1 rb sb" by (auto simp: binding_ok_def)
    have "slot = 0 \<or> slot = 1" using fi(1) by auto
    then show ?thesis using b fi(2) by (auto simp: b'_def binding_ok_def slot_synced_def clear_registration_def)
  qed
  then show "provider_good (put_binding c b' p)" by (rule good_put [OF good])
qed

lemma subscribe_laws:
  assumes good: "provider_good p"
  shows "provider_good (snd (provider_subscribe r0 p i cb))"
    and "provider_ready p \<Longrightarrow> provider_ready (snd (provider_subscribe r0 p i cb))"
    and "rs_value (fst (provider_subscribe r0 p i cb)) = None \<Longrightarrow>
      live_tokens (snd (provider_subscribe r0 p i cb)) = live_tokens p"
    and "rs_value (fst (provider_subscribe r0 p i cb)) = Some t \<Longrightarrow>
      t \<notin> live_tokens p \<and> live_tokens (snd (provider_subscribe r0 p i cb)) = insert t (live_tokens p)"
proof -
  let ?r = "provider_subscribe r0 p i cb"
  have "provider_good (snd ?r) \<and> (provider_ready p \<longrightarrow> provider_ready (snd ?r))
    \<and> (case rs_value (fst ?r) of None \<Rightarrow> live_tokens (snd ?r) = live_tokens p
       | Some t \<Rightarrow> t \<notin> live_tokens p \<and> live_tokens (snd ?r) = insert t (live_tokens p))"
  proof (cases rule: provider_subscribe_cases [of r0 p i cb])
    case (refused st)
    with good show ?thesis by (simp add: rs_failure_def)
  next
    case (claimed c slot)
    have ready: "provider_ready (put_binding c b p)" if "provider_ready p" "\<not> ch_running (bd_channel b)" "\<not> ch_callback_active (bd_channel b)" for b
      using that set_update_subset_insert [of "pv_bindings p" c b] by (auto simp: provider_ready_def put_binding_def)
    have idle: "\<not> ch_running (bd_channel (pv_bindings p ! c)) \<and> \<not> ch_callback_active (bd_channel (pv_bindings p ! c))"
      if "provider_ready p" using that claimed(1) by (simp add: provider_ready_def)
    show ?thesis
    proof (cases rule: claim_slot_cases [of r0 p cb c slot])
      case (failed st)
      with failed_claim_live [OF good claimed(1,3)] claimed(6) idle show ?thesis
        by (auto simp: rs_failure_def intro!: ready)
    next
      case (granted b')
      have "ch_running (bd_channel b') = ch_running (bd_channel (pv_bindings p ! c))"
        "ch_callback_active (bd_channel b') = ch_callback_active (bd_channel (pv_bindings p ! c))"
        using granted(1) by (auto simp: taken_def channel_subscribe_def Let_def split: if_splits option.splits)
      with granted(2) granted_token [OF good claimed(1,3) granted(1)] claimed(6) idle
        binding_ok_taken [OF good_binding [OF good claimed(1)] claimed(3) granted(1)] good
      show ?thesis by (auto simp: rs_success_def intro!: ready good_put)
    qed
  qed
  then show "provider_good (snd (provider_subscribe r0 p i cb))"
    and "provider_ready p \<Longrightarrow> provider_ready (snd (provider_subscribe r0 p i cb))"
    and "rs_value (fst (provider_subscribe r0 p i cb)) = None \<Longrightarrow>
      live_tokens (snd (provider_subscribe r0 p i cb)) = live_tokens p"
    and "rs_value (fst (provider_subscribe r0 p i cb)) = Some t \<Longrightarrow>
      t \<notin> live_tokens p \<and> live_tokens (snd (provider_subscribe r0 p i cb)) = insert t (live_tokens p)"
    by simp_all
qed

lemma subscribe_status_law:
  "rs_status (fst (provider_subscribe r0 p i cb)) = SOk \<longleftrightarrow> rs_value (fst (provider_subscribe r0 p i cb)) \<noteq> None"
proof (cases rule: provider_subscribe_cases [of r0 p i cb])
  case (refused st)
  then show ?thesis by (simp add: rs_failure_def)
next
  case (claimed c slot)
  then show ?thesis
    by (cases rule: claim_slot_cases [of r0 p cb c slot]) (simp_all add: rs_failure_def rs_success_def)
qed

section \<open>Unsubscribing\<close>

lemma channel_unsubscribe_synced:
  assumes ok: "binding_ok b" and k: "k < 2" and act: "rg_active (bd_regs b ! k)"
    and u: "channel_unsubscribe r0 (rg_handle (bd_regs b ! k)) (bd_channel b) = (st, ch)"
  shows "st \<noteq> NOk \<Longrightarrow> ch = bd_channel b"
    "st = NOk \<Longrightarrow> binding_ok (b\<lparr>bd_channel := ch, bd_regs := (bd_regs b)[k := clear_registration (bd_regs b ! k)]\<rparr>)"
    "\<not> ch_running (bd_channel b) \<Longrightarrow> \<not> ch_callback_active (bd_channel b) \<Longrightarrow> st = NOk"
    "ch_running ch = ch_running (bd_channel b)" "ch_callback_active ch = ch_callback_active (bd_channel b)"
proof -
  from ok obtain ra rb sa sb where b: "bd_regs b = [ra, rb]" "ch_subs (bd_channel b) = [sa, sb]"
    "slot_synced 0 ra sa" "slot_synced 1 rb sb" by (auto simp: binding_ok_def)
  from k have k01: "k = 0 \<or> k = 1" by auto
  have f: "find_subscriber (bd_channel b) (rg_handle (bd_regs b ! k)) = Some k"
    using k01 act b by (auto simp: find_subscriber_def slot_synced_def)
  have idle: "st = NOk \<longleftrightarrow> \<not> ch_callback_active (bd_channel b) \<and> \<not> ch_running (bd_channel b)"
    using u by (auto simp: channel_unsubscribe_def f)
  show "st \<noteq> NOk \<Longrightarrow> ch = bd_channel b" using u idle by (auto simp: channel_unsubscribe_def f)
  show "\<not> ch_running (bd_channel b) \<Longrightarrow> \<not> ch_callback_active (bd_channel b) \<Longrightarrow> st = NOk" using idle by simp
  show "ch_running ch = ch_running (bd_channel b)" "ch_callback_active ch = ch_callback_active (bd_channel b)"
    using u by (auto simp: channel_unsubscribe_def f split: if_splits)
  assume "st = NOk"
  with u idle have "ch_subs ch = (ch_subs (bd_channel b))[k := vacated r0 (ch_subs (bd_channel b) ! k)]"
    by (auto simp: channel_unsubscribe_def f vacated_def)
  with k01 b show "binding_ok (b\<lparr>bd_channel := ch, bd_regs := (bd_regs b)[k := clear_registration (bd_regs b ! k)]\<rparr>)"
    by (auto simp: binding_ok_def slot_synced_def clear_registration_def)
qed

text \<open>Outcomes: the provider as it was, or the token's slot released.\<close>

lemma unsubscribe_outcome:
  assumes good: "provider_good p"
  obtains (refused) "fst (provider_unsubscribe r0 p t) \<noteq> SOk" "snd (provider_unsubscribe r0 p t) = p"
      "\<not> (provider_ready p \<and> t \<in> live_tokens p)"
  | (released) c k g ch where "fst (provider_unsubscribe r0 p t) = SOk" "decode_subscription t (length (pv_bindings p)) = Some (c, k, g)"
      "holds_token p c k g"
      "channel_unsubscribe r0 (rg_handle (bd_regs (pv_bindings p ! c) ! k)) (bd_channel (pv_bindings p ! c)) = (NOk, ch)"
      "snd (provider_unsubscribe r0 p t) = put_binding c ((pv_bindings p ! c)\<lparr>bd_channel := ch,
          bd_regs := (bd_regs (pv_bindings p ! c))[k := clear_registration (bd_regs (pv_bindings p ! c) ! k)]\<rparr>) p"
proof (cases "\<not> pf_valid (pv_profile p) \<or> pv_running p \<or> pv_callback_active p \<or> owner_refuses p")
  case True
  then show ?thesis
    by (intro refused) (auto simp: provider_unsubscribe_def void_failure_def provider_ready_def owner_refuses_def)
next
  case guards: False
  have ld: "t \<in> live_tokens p \<longleftrightarrow> (\<exists>c k g. decode_subscription t (length (pv_bindings p)) = Some (c, k, g) \<and> holds_token p c k g)"
    by (rule live_token_decode [OF good])
  show ?thesis
  proof (cases "t \<in> live_tokens p")
    case False
    have "fst (provider_unsubscribe r0 p t) \<noteq> SOk \<and> snd (provider_unsubscribe r0 p t) = p"
    proof (cases "decode_subscription t (length (pv_bindings p))")
      case None
      with guards show ?thesis by (simp add: provider_unsubscribe_def void_failure_def)
    next
      case (Some x)
      obtain c k g where x: "x = (c, k, g)" by (rule prod_cases3)
      from encode_decode [OF Some [unfolded x]] have "c < length (pv_bindings p)" "k < 2" by simp_all
      with False Some x ld have "\<not> rg_active (bd_regs (pv_bindings p ! c) ! k) \<or> rg_generation (bd_regs (pv_bindings p ! c) ! k) \<noteq> g"
        by (auto simp: holds_token_def)
      with guards Some x show ?thesis by (auto simp: provider_unsubscribe_def void_failure_def Let_def)
    qed
    with False show ?thesis by (intro refused) auto
  next
    case True
    then obtain c k g where d: "decode_subscription t (length (pv_bindings p)) = Some (c, k, g)" "holds_token p c k g"
      using ld by blast
    then have h: "c < length (pv_bindings p)" "k < 2" "rg_active (bd_regs (pv_bindings p ! c) ! k)"
      "rg_generation (bd_regs (pv_bindings p ! c) ! k) = g" by (simp_all add: holds_token_def)
    obtain st ch where u: "channel_unsubscribe r0 (rg_handle (bd_regs (pv_bindings p ! c) ! k)) (bd_channel (pv_bindings p ! c)) = (st, ch)"
      by (rule prod.exhaust)
    note cu = channel_unsubscribe_synced [OF good_binding [OF good h(1)] h(2,3) u]
    show ?thesis
    proof (cases "st = NOk")
      case True
      with guards d h u show ?thesis
        by (intro released [of c k g ch]) (simp_all add: provider_unsubscribe_def Let_def)
    next
      case False
      from cu(1) [OF False] have same: "put_binding c ((pv_bindings p ! c)\<lparr>bd_channel := ch\<rparr>) p = p"
        by (simp add: put_binding_def list_update_id)
      have "\<not> provider_ready p" using cu(3) False h(1) by (auto simp: provider_ready_def)
      with False guards d h u same show ?thesis
        by (intro refused) (auto simp: provider_unsubscribe_def void_failure_def Let_def)
    qed
  qed
qed

lemma released_live:
  assumes good: "provider_good p" and h: "holds_token p c k g"
    and b': "bd_regs b' = (bd_regs (pv_bindings p ! c))[k := clear_registration (bd_regs (pv_bindings p ! c) ! k)]"
  shows "live_tokens (put_binding c b' p) = live_tokens p - {encode_subscription c k g}"
proof -
  have c: "c < length (pv_bindings p)" and k: "k < 2" using h by (simp_all add: holds_token_def)
  note len = regs_length [OF good_binding [OF good c]]
  have regs: "rg_active (bd_regs b' ! j) = (j \<noteq> k \<and> rg_active (bd_regs (pv_bindings p ! c) ! j))
      \<and> (j \<noteq> k \<longrightarrow> rg_generation (bd_regs b' ! j) = rg_generation (bd_regs (pv_bindings p ! c) ! j))" if "j < 2" for j
    using that len by (auto simp: b' nth_update_any clear_registration_def)
  have new: "holds_token (put_binding c b' p) c' j g' \<longleftrightarrow> holds_token p c' j g' \<and> \<not> (c' = c \<and> j = k)" for c' j g'
    unfolding holds_put [OF c] using regs [of j] c by (auto simp: holds_token_def)
  have uniq: "encode_subscription c' j g' = encode_subscription c k g \<longleftrightarrow> c' = c \<and> j = k" if "holds_token p c' j g'" for c' j g'
  proof
    assume e: "encode_subscription c' j g' = encode_subscription c k g"
    from encode_inj [OF good that c k holds_token_nonzero [OF good h] e] show "c' = c \<and> j = k" by simp
  next
    assume "c' = c \<and> j = k"
    with that h show "encode_subscription c' j g' = encode_subscription c k g" by (simp add: holds_token_def)
  qed
  show ?thesis
  proof
    show "live_tokens (put_binding c b' p) \<subseteq> live_tokens p - {encode_subscription c k g}"
      unfolding live_tokens_def new by (auto simp: uniq)
    show "live_tokens p - {encode_subscription c k g} \<subseteq> live_tokens (put_binding c b' p)"
      unfolding live_tokens_def new by (clarsimp simp: uniq) blast
  qed
qed

lemma unsubscribe_laws:
  assumes good: "provider_good p"
  shows "provider_good (snd (provider_unsubscribe r0 p t))"
    and "provider_ready p \<Longrightarrow> provider_ready (snd (provider_unsubscribe r0 p t))"
    and "fst (provider_unsubscribe r0 p t) \<noteq> SOk \<Longrightarrow> live_tokens (snd (provider_unsubscribe r0 p t)) = live_tokens p"
    and "fst (provider_unsubscribe r0 p t) = SOk \<Longrightarrow> live_tokens (snd (provider_unsubscribe r0 p t)) = live_tokens p - {t}"
    and "provider_ready p \<Longrightarrow> t \<in> live_tokens p \<Longrightarrow> fst (provider_unsubscribe r0 p t) = SOk"
proof -
  let ?r = "provider_unsubscribe r0 p t"
  have "provider_good (snd ?r) \<and> (provider_ready p \<longrightarrow> provider_ready (snd ?r))
    \<and> live_tokens (snd ?r) = (if fst ?r = SOk then live_tokens p - {t} else live_tokens p)
    \<and> (provider_ready p \<and> t \<in> live_tokens p \<longrightarrow> fst ?r = SOk)"
    using good
  proof (cases rule: unsubscribe_outcome [where ?r0.0 = r0 and t = t])
    case refused
    with good show ?thesis by simp
  next
    case (released c k g ch)
    have h: "c < length (pv_bindings p)" "k < 2" "rg_active (bd_regs (pv_bindings p ! c) ! k)"
      using released(3) by (simp_all add: holds_token_def)
    note cu = channel_unsubscribe_synced [OF good_binding [OF good h(1)] h(2,3) released(4)]
    let ?b = "(pv_bindings p ! c)\<lparr>bd_channel := ch,
          bd_regs := (bd_regs (pv_bindings p ! c))[k := clear_registration (bd_regs (pv_bindings p ! c) ! k)]\<rparr>"
    have "provider_good (put_binding c ?b p)" by (rule good_put [OF good cu(2)]) simp
    moreover have "live_tokens (put_binding c ?b p) = live_tokens p - {t}"
      using released_live [OF good released(3), of ?b] encode_decode(1) [OF released(2)] by simp
    moreover have "provider_ready p \<longrightarrow> provider_ready (put_binding c ?b p)"
    proof
      assume r: "provider_ready p"
      then have "\<not> ch_running ch" "\<not> ch_callback_active ch" using cu(4,5) h(1) by (auto simp: provider_ready_def)
      with r show "provider_ready (put_binding c ?b p)"
        using set_update_subset_insert [of "pv_bindings p" c ?b] by (auto simp: provider_ready_def put_binding_def)
    qed
    ultimately show ?thesis using released(1,5) by simp
  qed
  then show "provider_good (snd (provider_unsubscribe r0 p t))"
    and "provider_ready p \<Longrightarrow> provider_ready (snd (provider_unsubscribe r0 p t))"
    and "fst (provider_unsubscribe r0 p t) \<noteq> SOk \<Longrightarrow> live_tokens (snd (provider_unsubscribe r0 p t)) = live_tokens p"
    and "fst (provider_unsubscribe r0 p t) = SOk \<Longrightarrow> live_tokens (snd (provider_unsubscribe r0 p t)) = live_tokens p - {t}"
    and "provider_ready p \<Longrightarrow> t \<in> live_tokens p \<Longrightarrow> fst (provider_unsubscribe r0 p t) = SOk"
    by simp_all
qed

section \<open>The contract holds\<close>

lemma profile_port_simps [simp]:
  "port_subscribe (profile_port r0 now) = provider_subscribe r0"
  "port_unsubscribe (profile_port r0 now) = provider_unsubscribe r0"
  by (simp_all add: profile_port_def)

interpretation prov: signal_provider "profile_port r0 now" live_tokens provider_good provider_ready
  for r0 :: signal_reading and now :: timestamp
  by unfold_locales (simp_all add: subscribe_laws unsubscribe_laws subscribe_status_law)

end
