(* ===== verification/Profile_Properties.thy ===== *)
theory Profile_Properties
  imports Profile_Laws
begin

text \<open>
  The properties of the profile provider: what a read returns, how frames change samples, and how
  staleness is reported, with a two-signal profile they are applied to.
\<close>

section \<open>A small profile\<close>

definition sample_metadata :: "u16 \<Rightarrow> string \<Rightarrow> signal_metadata" where
  "sample_metadata i k = \<lparr>md_id = SignalId i, md_key = k, md_type = TNumber, md_unit = UNone,
     md_validation = Confirmed, md_capabilities = 3, md_choices = []\<rparr>"

text \<open>Message 0x101 carries signal 1, its first byte being the value's pattern (0 for zero).\<close>

definition sample_decode :: "raw_frame \<Rightarrow> nat \<Rightarrow> decode_result list" where
  "sample_decode f n = [\<lparr>dr_id = SignalId 1,
     dr_value = VNumber (if rf_data f = [] then 0 else 0x3F800000), dr_valid = True\<rparr>]"

definition sample_entry :: dispatch_entry where
  "sample_entry = \<lparr>de_identifier = 0x101, de_dlc = 8, de_decode = Some sample_decode, de_outputs = [SignalId 1]\<rparr>"

definition sample_tables :: profile_tables where
  "sample_tables = \<lparr>pt_catalog = [sample_metadata 1 ''a'', sample_metadata 2 ''b''],
     pt_policies = [\<lparr>fp_id = SignalId 1, fp_declared = True, fp_timeout_ms = 1\<rparr>,
                    \<lparr>fp_id = SignalId 2, fp_declared = False, fp_timeout_ms = 0\<rparr>],
     pt_dispatch = [sample_entry], pt_max_results = 1\<rparr>"

lemma sample_tables_ok: "table_well_formed sample_tables"
  by (simp add: table_well_formed_def sample_tables_def sample_entry_def sample_metadata_def max_runtime_signals_def
      max_runtime_messages_def max_notify_bindings_def sid_valid_def choices_well_formed_def caps_has_def
      catalog_find_def freshness_for_def)

definition sample_frame :: "timestamp \<Rightarrow> raw_frame" where
  "sample_frame ts = \<lparr>rf_identifier = 0x101, rf_standard = True, rf_remote = False, rf_dlc = 8, rf_timestamp = ts,
     rf_data = [1, 0, 0, 0, 0, 0, 0, 0], rf_valid = True\<rparr>"

definition sample_profile :: profile where
  "sample_profile = profile_new sample_tables True"

lemma sample_profile_reach: "profile_reach sample_tables sample_profile"
  unfolding sample_profile_def by (rule profile_reach.New)

lemma sample_profile_simps [simp]:
  "pf_tables sample_profile = sample_tables" "pf_valid sample_profile"
  "pf_signals sample_profile = replicate 64 sample_new"
  by (simp_all add: sample_profile_def profile_new_def sample_tables_ok max_runtime_signals_def)

section \<open>Reads\<close>

text \<open>
  C27: Whatever frames, decoder results, services, faults and resets a provider has processed, a
  successful read never hands out a value the catalog does not allow: the value has the declared
  type, an enumeration value is one of the declared choices, a number is finite, and the
  availability it comes with is the one of the stored sample at the read's clock.
\<close>

theorem profile_read_fits_catalog:
  assumes "profile_reach t s" and "profile_read s now i = rs_success rd"
  shows "\<exists>m p. catalog_find (pt_catalog t) i = Some m \<and> freshness_for t i = Some p
    \<and> rd_validation rd = md_validation m
    \<and> rd_availability rd = availability_at (pf_signals s ! signal_index t i) p now
    \<and> (case rd_value rd of None \<Rightarrow> rd_availability rd = NoData \<or> rd_availability rd = Unavailable
       | Some v \<Rightarrow> value_fits m v \<and> rd_availability rd \<noteq> NoData)"
proof -
  from profile_reach_ok [OF assms(1)] have ok: "profile_ok s" and t: "pf_tables s = t" by auto
  from assms(2) obtain m p where m: "catalog_find (pt_catalog t) i = Some m" and v: "pf_valid s"
    and p: "freshness_for t i = Some p" and ins: "in_signals s (signal_index t i)"
    and rd: "rd = \<lparr>rd_value = (if has_flag (pf_signals s ! signal_index t i) has_value
                     then Some (sg_value (pf_signals s ! signal_index t i)) else None),
        rd_availability = availability_at (pf_signals s ! signal_index t i) p now, rd_validation = md_validation m\<rparr>"
    by (auto simp: profile_read_def t Let_def rs_failure_def rs_success_def split: option.splits if_splits)
  have wf: "table_well_formed t" using ok v by (simp add: profile_ok_def t)
  note k = catalog_find_index [OF m wf]
  have "sample_ok m (pf_signals s ! signal_index t i)"
    using ok k ins by (auto simp: profile_ok_def t in_signals_def)
  with m p rd show ?thesis by (auto simp: sample_ok_def availability_at_def)
qed

section \<open>Frames\<close>

text \<open>
  How one frame with timestamp \<open>ts\<close> may change a sample: not at all, or only by a due mark, or
  to state that is newer than anything the sample had seen, carrying the frame's own timestamp.
\<close>

definition same_data :: "sample \<Rightarrow> sample \<Rightarrow> bool" where
  "same_data x y = (sg_value y = sg_value x \<and> sg_timestamp y = sg_timestamp x \<and> sg_watermark y = sg_watermark x
     \<and> has_flag y has_value = has_flag x has_value \<and> has_flag y invalid = has_flag x invalid
     \<and> has_flag y has_watermark = has_flag x has_watermark)"

definition frame_step :: "timestamp \<Rightarrow> sample \<Rightarrow> sample \<Rightarrow> bool" where
  "frame_step ts x y = (same_data x y \<or>
     ((has_flag x has_watermark \<longrightarrow> sg_watermark x < ts) \<and> sg_watermark y = ts \<and> has_flag y has_watermark))"

lemma same_data_refl [simp]: "same_data x x"
  by (simp add: same_data_def)

lemma frame_step_refl [simp]: "frame_step ts x x"
  by (simp add: frame_step_def)

lemma frame_step_trans:
  assumes "frame_step ts x y" and "frame_step ts y z"
  shows "frame_step ts x z"
  using assms unfolding frame_step_def same_data_def by auto

definition frame_only :: "timestamp \<Rightarrow> signal_id set \<Rightarrow> profile \<Rightarrow> profile \<Rightarrow> bool" where
  "frame_only ts ids s s' = (pf_tables s' = pf_tables s \<and> length (pf_signals s') = length (pf_signals s)
     \<and> (\<forall>k < length (pf_signals s). frame_step ts (pf_signals s ! k) (pf_signals s' ! k)
          \<and> (md_id (pt_catalog (pf_tables s) ! k) \<notin> ids \<and> k < length (pt_catalog (pf_tables s)) \<longrightarrow>
               same_data (pf_signals s ! k) (pf_signals s' ! k))))"

lemma frame_only_refl [simp]: "frame_only ts ids s s"
  by (simp add: frame_only_def)

lemma same_data_trans: "same_data x y \<Longrightarrow> same_data y z \<Longrightarrow> same_data x z"
  by (simp add: same_data_def)

lemma frame_only_trans: "frame_only ts ids s s' \<Longrightarrow> frame_only ts ids s' s'' \<Longrightarrow> frame_only ts ids s s''"
  unfolding frame_only_def using frame_step_trans same_data_trans by (metis (no_types, lifting))

lemma frame_only_put:
  assumes "frame_step ts (pf_signals s ! k) x" and "k = signal_index (pf_tables s) i" and "i \<in> ids"
    and "length (pt_catalog (pf_tables s)) \<le> max_runtime_signals"
  shows "frame_only ts ids s (put_sample k x s)"
proof -
  have "md_id (pt_catalog (pf_tables s) ! k) = i" if "k < length (pt_catalog (pf_tables s))"
    using signal_index_inverse [of "pf_tables s" i k] assms that by simp
  then show ?thesis
    using assms(1,3) by (auto simp: frame_only_def put_sample_def nth_update_any)
qed

lemma frame_only_mark:
  assumes "i \<in> ids" and "length (pt_catalog (pf_tables (fst sr))) \<le> max_runtime_signals"
  shows "frame_only ts ids (fst sr) (fst (mark_invalid i ts sr))"
proof (cases sr)
  case (Pair s r)
  let ?k = "signal_index (pf_tables s) i"
  show ?thesis
  proof (cases "in_signals s ?k \<and> update_watermark ts (pf_signals s ! ?k) \<noteq> None")
    case False
    then show ?thesis by (auto simp: mark_invalid_def Pair Let_def split: option.splits)
  next
    case True
    then obtain y where y: "update_watermark ts (pf_signals s ! ?k) = Some y" by auto
    note u = update_watermark_Some [OF y]
    have "frame_only ts ids s (put_sample ?k (set_flag invalid y) s)"
      by (rule frame_only_put [OF _ refl assms(1)]) (use u assms(2) Pair in \<open>auto simp: frame_step_def\<close>)
    with True y show ?thesis by (simp add: mark_invalid_def Pair Let_def)
  qed
qed

lemma frame_only_commit:
  assumes "md_id m \<in> ids" and "length (pt_catalog (pf_tables (fst sr))) \<le> max_runtime_signals"
  shows "frame_only ts ids (fst sr) (fst (commit_valid m d ts now sr))"
proof (cases sr)
  case (Pair s r)
  let ?k = "signal_index (pf_tables s) (md_id m)"
  show ?thesis
  proof (cases "in_signals s ?k \<and> update_watermark ts (pf_signals s ! ?k) \<noteq> None")
    case False
    then show ?thesis by (auto simp: commit_valid_def Pair Let_def split: option.splits)
  next
    case True
    then obtain y where y: "update_watermark ts (pf_signals s ! ?k) = Some y" by auto
    note u = update_watermark_Some [OF y]
    let ?x = "clear_flag (invalid OR due_reported) (set_flag has_value (y\<lparr>sg_value := dr_value d, sg_timestamp := ts\<rparr>))"
    have "frame_only ts ids s (put_sample ?k ?x s)"
      by (rule frame_only_put [OF _ refl assms(1)]) (use u assms(2) Pair in \<open>auto simp: frame_step_def\<close>)
    with True y show ?thesis by (simp add: commit_valid_def Pair Let_def)
  qed
qed

lemma frame_only_tables [simp]: "frame_only ts ids s s' \<Longrightarrow> pf_tables s' = pf_tables s"
  by (simp add: frame_only_def)

lemma frame_only_other:
  "frame_only ts ids s s' \<Longrightarrow> k < length (pf_signals s) \<Longrightarrow> k < length (pt_catalog (pf_tables s)) \<Longrightarrow>
     md_id (pt_catalog (pf_tables s) ! k) \<notin> ids \<Longrightarrow> same_data (pf_signals s ! k) (pf_signals s' ! k)"
  unfolding frame_only_def by blast

lemma frame_only_length: "frame_only ts ids s s' \<Longrightarrow> length (pf_signals s') = length (pf_signals s)"
  unfolding frame_only_def by blast

lemma frame_only_mark_all:
  assumes "set is \<subseteq> ids" and "length (pt_catalog (pf_tables (fst sr))) \<le> max_runtime_signals"
  shows "frame_only ts ids (fst sr) (fst (mark_all_invalid is ts sr))"
  using assms
proof (induction "is" arbitrary: sr)
  case (Cons i "is")
  have 1: "frame_only ts ids (fst sr) (fst (mark_invalid i ts sr))" using Cons.prems by (intro frame_only_mark) auto
  with Cons.IH [of "mark_invalid i ts sr"] Cons.prems
  have "frame_only ts ids (fst (mark_invalid i ts sr)) (fst (mark_all_invalid is ts (mark_invalid i ts sr)))" by simp
  with 1 show ?case by (simp add: mark_all_invalid_def frame_only_trans)
qed (simp add: mark_all_invalid_def)

lemma frame_only_commit_results:
  assumes "dr_id ` set ds \<subseteq> ids" and "length (pt_catalog (pf_tables (fst sr))) \<le> max_runtime_signals"
  shows "frame_only ts ids (fst sr) (fst (fst (commit_results ds ts now (sr, bad))))"
  using assms
proof (induction ds arbitrary: sr bad)
  case (Cons d ds)
  define step where "step = (case catalog_find (pt_catalog (pf_tables (fst sr))) (dr_id d) of
          None \<Rightarrow> (sr, True)
        | Some m \<Rightarrow>
            if \<not> accepted_result m d then (mark_invalid (dr_id d) ts sr, True)
            else if dr_valid d then (commit_valid m d ts now sr, bad)
            else (mark_invalid (dr_id d) ts sr, bad))"
  have 1: "frame_only ts ids (fst sr) (fst (fst step))"
  proof (cases "catalog_find (pt_catalog (pf_tables (fst sr))) (dr_id d)")
    case None
    then show ?thesis by (simp add: step_def)
  next
    case (Some m)
    then have "md_id m = dr_id d" by (auto simp: catalog_find_def dest!: find_Some_mem split: if_splits)
    with Some Cons.prems show ?thesis
      by (auto simp: step_def intro!: frame_only_mark frame_only_commit)
  qed
  obtain sr1 bad1 where s: "step = (sr1, bad1)" by (rule prod.exhaust)
  from Cons.IH [of sr1 bad1] Cons.prems 1 s
  have "frame_only ts ids (fst sr1) (fst (fst (commit_results ds ts now (sr1, bad1))))" by simp
  with 1 s show ?case by (simp add: step_def [symmetric] frame_only_trans)
qed simp

lemma frame_only_service:
  assumes "length (pt_catalog (pf_tables s)) \<le> length (pf_signals s)"
  shows "frame_only ts ids s (fst (service_due now (s, r)))"
proof -
  have one: "same_data x (set_flag due_reported x)" for x by (simp add: same_data_def)
  note sp = service_due_signals [OF assms, of now r]
  have "same_data (pf_signals s ! k) (pf_signals (fst (service_due now (s, r))) ! k)" if "k < length (pf_signals s)" for k
    using that one by (simp add: sp(1))
  moreover have "length (pf_signals (fst (service_due now (s, r)))) = length (pf_signals s)" by (simp add: sp(1))
  ultimately show ?thesis unfolding frame_only_def frame_step_def using sp(2) by blast
qed

lemma results_cover_ids: "results_cover outs seen ds \<Longrightarrow> dr_id ` set ds \<subseteq> set outs"
proof (induction ds arbitrary: seen)
  case (Cons d ds)
  show ?case
  proof (cases "find_index (\<lambda>o'. o' = dr_id d) outs")
    case None
    with Cons.prems show ?thesis by simp
  next
    case (Some k)
    from find_index_Some [OF Some] have "k < length outs" "outs ! k = dr_id d" by simp_all
    then have "dr_id d \<in> set outs" by (metis nth_mem)
    moreover have "results_cover outs (k # seen) ds" using Cons.prems Some by (simp split: if_splits)
    ultimately show ?thesis using Cons.IH by simp
  qed
qed simp

text \<open>
  C4: Newer frames win, and a frame touches only what it owns. Processing a frame changes the
  data of a sample only if the frame's timestamp is later than every timestamp the signal had
  seen (late and repeated frames change nothing), and only for signals its dispatch entry lists as
  outputs; the watermark then is the frame's timestamp. Every other sample keeps its value,
  timestamps and validity, whatever the decoder returns.
\<close>

theorem profile_process_newer_wins:
  assumes "profile_reach t s" and "profile_process now f s = (s', r)" and "k < length (pt_catalog t)"
    and "pf_valid s"
  shows "(let x = pf_signals s ! k; y = pf_signals s' ! k in
     if (\<exists>e. find_dispatch t (rf_identifier f) = Some e \<and> md_id (pt_catalog t ! k) \<in> set (de_outputs e))
        \<and> (has_flag x has_watermark \<longrightarrow> sg_watermark x < rf_timestamp f)
     then same_data x y \<or> (sg_watermark y = rf_timestamp f \<and> has_flag y has_watermark)
     else same_data x y)"
proof -
  from profile_reach_ok [OF assms(1)] have ok: "profile_ok s" and t: "pf_tables s = t" by auto
  have len: "length (pt_catalog t) \<le> max_runtime_signals" "length (pf_signals s) = max_runtime_signals"
    using ok valid_catalog_fits assms(4) by (auto simp: profile_ok_def t)
  define ids where "ids = (case find_dispatch t (rf_identifier f) of None \<Rightarrow> {} | Some e \<Rightarrow> set (de_outputs e))"
  let ?s1 = "receive_watermark now s"
  have s1: "pf_tables ?s1 = t" "pf_signals ?s1 = pf_signals s" by (simp_all add: receive_watermark_def t)
  define sr where "sr = service_due now (?s1, process_result_new)"
  let ?ts = "rf_timestamp f"
  have f1: "frame_only ?ts ids ?s1 (fst sr)"
    unfolding sr_def by (rule frame_only_service) (simp add: s1 len)
  have tsr: "pf_tables (fst sr) = t" using frame_only_tables [OF f1] s1 by simp
  have "frame_only ?ts ids (fst sr) s'"
  proof (cases "find_dispatch t (rf_identifier f)")
    case None
    with assms(2,4) show ?thesis by (auto simp: profile_process_def sr_def [symmetric] with_status_def t Let_def)
  next
    case (Some e)
    define ds where "ds = (case de_decode e of None \<Rightarrow> [] | Some d \<Rightarrow> d f (pt_max_results (pf_tables s)))"
    let ?ds = ds
    have proc: "profile_process now f s = (if \<not> valid_shape f e then with_status PMalformed (mark_all_invalid (de_outputs e) ?ts sr)
        else if \<not> result_list_well_formed (fst sr) e ds then with_status PInvalidResults (mark_all_invalid (de_outputs e) ?ts sr)
        else case commit_results ds ?ts now (sr, False) of (sr', bad) \<Rightarrow> with_status (if bad then PInvalidResults else PApplied) sr')"
      using assms(4) Some by (simp add: profile_process_def sr_def [symmetric] t Let_def ds_def)
    have ids: "set (de_outputs e) \<subseteq> ids" by (simp add: ids_def Some)
    show ?thesis
    proof (cases "valid_shape f e \<and> result_list_well_formed (fst sr) e ?ds")
      case True
      then have "dr_id ` set ?ds \<subseteq> ids"
        using results_cover_ids [of "de_outputs e" "[]" ?ds] ids
        by (auto simp: result_list_well_formed_def split: if_splits)
      moreover from True have "s' = fst (fst (commit_results ?ds ?ts now (sr, False)))"
        using assms(2) by (auto simp: proc with_status_def split: prod.splits)
      ultimately show ?thesis using frame_only_commit_results [of ?ds ids sr ?ts now False] len tsr by simp
    next
      case False
      then have "s' = fst (mark_all_invalid (de_outputs e) ?ts sr)"
        using assms(2) by (auto simp: proc with_status_def split: if_splits)
      with frame_only_mark_all [OF ids, of sr ?ts] len tsr show ?thesis by simp
    qed
  qed
  from frame_only_trans [OF f1 this] have fo: "frame_only ?ts ids ?s1 s'" .
  have own: "(\<exists>e. find_dispatch t (rf_identifier f) = Some e \<and> md_id (pt_catalog t ! k) \<in> set (de_outputs e))
      \<longleftrightarrow> md_id (pt_catalog t ! k) \<in> ids"
    by (auto simp: ids_def split: option.splits)
  have kl: "k < length (pf_signals ?s1)" using assms(3) len s1 by simp
  have step: "frame_step ?ts (pf_signals s ! k) (pf_signals s' ! k)"
    using fo kl unfolding frame_only_def s1 by blast
  have other: "same_data (pf_signals s ! k) (pf_signals s' ! k)" if "md_id (pt_catalog t ! k) \<notin> ids"
    using fo kl that assms(3) unfolding frame_only_def s1 by blast
  show ?thesis
  proof (cases "md_id (pt_catalog t ! k) \<in> ids")
    case True
    from step show ?thesis unfolding own Let_def frame_step_def using True by argo
  next
    case False
    from other [OF False] show ?thesis unfolding own Let_def by (simp add: False)
  qed
qed

lemma profile_process_newer_wins_witness:
  "same_data sample_new (pf_signals (fst (profile_process 10 (sample_frame 3) sample_profile)) ! 1)"
  using profile_process_newer_wins [OF sample_profile_reach, of 10 "sample_frame 3"
      "fst (profile_process 10 (sample_frame 3) sample_profile)" "snd (profile_process 10 (sample_frame 3) sample_profile)" 1]
  by (simp add: sample_tables_def sample_metadata_def sample_entry_def find_dispatch_def sample_frame_def Let_def)

section \<open>Signals of other messages\<close>

text \<open>The sample of signal \<open>k\<close> and the due list are left as they are.\<close>

definition untouched :: "nat \<Rightarrow> profile \<times> process_result \<Rightarrow> profile \<times> process_result \<Rightarrow> bool" where
  "untouched k sr sr' = (pf_tables (fst sr') = pf_tables (fst sr) \<and> pf_signals (fst sr') ! k = pf_signals (fst sr) ! k
     \<and> pr_due (snd sr') = pr_due (snd sr))"

lemma untouched_refl [simp]: "untouched k sr sr"
  by (simp add: untouched_def)

lemma untouched_trans: "untouched k a b \<Longrightarrow> untouched k b c \<Longrightarrow> untouched k a c"
  by (simp add: untouched_def)

lemma untouched_mark: "signal_index (pf_tables (fst sr)) i \<noteq> k \<Longrightarrow> untouched k sr (mark_invalid i ts sr)"
  by (cases sr) (auto simp: untouched_def mark_invalid_def put_sample_def Let_def split: option.splits)

lemma untouched_commit: "signal_index (pf_tables (fst sr)) (md_id m) \<noteq> k \<Longrightarrow> untouched k sr (commit_valid m d ts now sr)"
  by (cases sr) (auto simp: untouched_def commit_valid_def put_sample_def Let_def split: option.splits)

lemma untouched_mark_all: "\<forall>i \<in> set is. signal_index (pf_tables (fst sr)) i \<noteq> k \<Longrightarrow> untouched k sr (mark_all_invalid is ts sr)"
proof (induction "is" arbitrary: sr)
  case (Cons i "is")
  then have 1: "untouched k sr (mark_invalid i ts sr)" by (intro untouched_mark) simp
  with Cons.IH [of "mark_invalid i ts sr"] Cons.prems have "untouched k (mark_invalid i ts sr) (mark_all_invalid is ts (mark_invalid i ts sr))"
    by (simp add: untouched_def)
  with 1 show ?case by (simp add: mark_all_invalid_def untouched_trans)
qed (simp add: mark_all_invalid_def)

lemma untouched_results:
  "\<forall>d \<in> set ds. signal_index (pf_tables (fst sr)) (dr_id d) \<noteq> k \<Longrightarrow> untouched k sr (fst (commit_results ds ts now (sr, bad)))"
proof (induction ds arbitrary: sr bad)
  case (Cons d ds)
  define step where "step = (case catalog_find (pt_catalog (pf_tables (fst sr))) (dr_id d) of
          None \<Rightarrow> (sr, True)
        | Some m \<Rightarrow>
            if \<not> accepted_result m d then (mark_invalid (dr_id d) ts sr, True)
            else if dr_valid d then (commit_valid m d ts now sr, bad)
            else (mark_invalid (dr_id d) ts sr, bad))"
  have own: "md_id m = dr_id d" if "catalog_find (pt_catalog (pf_tables (fst sr))) (dr_id d) = Some m" for m
    using that by (auto simp: catalog_find_def dest!: find_Some_mem split: if_splits)
  have 1: "untouched k sr (fst step)"
    using Cons.prems own by (auto simp: step_def intro!: untouched_mark untouched_commit split: option.split)
  obtain sr1 bad1 where st: "step = (sr1, bad1)" by (rule prod.exhaust)
  from 1 Cons.prems st have "\<forall>d \<in> set ds. signal_index (pf_tables (fst sr1)) (dr_id d) \<noteq> k" by (simp add: untouched_def)
  from Cons.IH [OF this, of bad1] 1 st show ?case by (simp add: step_def [symmetric] untouched_trans)
qed simp

section \<open>A decoded value becomes readable\<close>

lemma commit_results_append:
  "commit_results (a @ b) ts now acc = commit_results b ts now (commit_results a ts now acc)"
proof (induction a arbitrary: acc)
  case (Cons d a)
  then show ?case by (cases acc) simp
qed simp

lemma results_cover_distinct:
  "results_cover outs seen ds \<Longrightarrow> distinct (map dr_id ds)
     \<and> (\<forall>d \<in> set ds. \<forall>k \<in> set seen. find_index (\<lambda>o'. o' = dr_id d) outs \<noteq> Some k)"
proof (induction ds arbitrary: seen)
  case (Cons d ds)
  then obtain k where k: "find_index (\<lambda>o'. o' = dr_id d) outs = Some k" "k \<notin> set seen"
    and rest: "results_cover outs (k # seen) ds"
    by (cases "find_index (\<lambda>o'. o' = dr_id d) outs") (auto split: if_splits)
  note ih = Cons.IH [OF rest]
  have "dr_id d \<notin> dr_id ` set ds"
  proof
    assume "dr_id d \<in> dr_id ` set ds"
    then obtain d' where "d' \<in> set ds" "dr_id d' = dr_id d" by (metis imageE)
    with ih k(1) show False by (metis list.set_intros(1))
  qed
  with ih k show ?case by auto
qed simp

lemma commit_valid_sample:
  assumes "in_signals s k" "k = signal_index (pf_tables s) (md_id m)"
    and "has_flag (pf_signals s ! k) has_watermark \<longrightarrow> sg_watermark (pf_signals s ! k) < ts"
  shows "sg_value (pf_signals (fst (commit_valid m d ts now (s, r))) ! k) = dr_value d"
    "sg_timestamp (pf_signals (fst (commit_valid m d ts now (s, r))) ! k) = ts"
    "has_flag (pf_signals (fst (commit_valid m d ts now (s, r))) ! k) has_value"
    "\<not> has_flag (pf_signals (fst (commit_valid m d ts now (s, r))) ! k) invalid"
    "\<not> has_flag (pf_signals (fst (commit_valid m d ts now (s, r))) ! k) due_reported"
    "sg_watermark (pf_signals (fst (commit_valid m d ts now (s, r))) ! k) = ts"
proof -
  from assms(3) have "\<not> (has_flag (pf_signals s ! k) has_watermark \<and> ts \<le> sg_watermark (pf_signals s ! k))"
    by (auto simp: not_le)
  then obtain y where y: "update_watermark ts (pf_signals s ! k) = Some y"
    by (simp add: update_watermark_def)
  have "k < length (pf_signals s)" using assms(1) by (simp add: in_signals_def)
  then have e: "pf_signals (fst (commit_valid m d ts now (s, r))) ! k
      = clear_flag (invalid OR due_reported) (set_flag has_value (y\<lparr>sg_value := dr_value d, sg_timestamp := ts\<rparr>))"
    using assms(1) y by (simp add: commit_valid_def assms(2) [symmetric] put_sample_def Let_def)
  show "sg_value (pf_signals (fst (commit_valid m d ts now (s, r))) ! k) = dr_value d"
    "sg_timestamp (pf_signals (fst (commit_valid m d ts now (s, r))) ! k) = ts"
    "has_flag (pf_signals (fst (commit_valid m d ts now (s, r))) ! k) has_value"
    "\<not> has_flag (pf_signals (fst (commit_valid m d ts now (s, r))) ! k) invalid"
    "\<not> has_flag (pf_signals (fst (commit_valid m d ts now (s, r))) ! k) due_reported"
    "sg_watermark (pf_signals (fst (commit_valid m d ts now (s, r))) ! k) = ts"
    unfolding e using update_watermark_Some [OF y] by simp_all
qed

lemma commit_results_sample:
  assumes ds: "distinct (map dr_id ds)" "d \<in> set ds" and v: "dr_valid d" "accepted_result m d"
    and m: "catalog_find (pt_catalog (pf_tables (fst sr))) (dr_id d) = Some m"
    and wf: "table_well_formed (pf_tables (fst sr))" and len: "length (pf_signals (fst sr)) = max_runtime_signals"
    and k: "k = signal_index (pf_tables (fst sr)) (dr_id d)"
    and wm: "has_flag (pf_signals (fst sr) ! k) has_watermark \<longrightarrow> sg_watermark (pf_signals (fst sr) ! k) < ts"
  shows "sg_value (pf_signals (fst (fst (commit_results ds ts now (sr, bad)))) ! k) = dr_value d
    \<and> sg_timestamp (pf_signals (fst (fst (commit_results ds ts now (sr, bad)))) ! k) = ts
    \<and> has_flag (pf_signals (fst (fst (commit_results ds ts now (sr, bad)))) ! k) has_value
    \<and> \<not> has_flag (pf_signals (fst (fst (commit_results ds ts now (sr, bad)))) ! k) invalid
    \<and> \<not> has_flag (pf_signals (fst (fst (commit_results ds ts now (sr, bad)))) ! k) due_reported
    \<and> sg_watermark (pf_signals (fst (fst (commit_results ds ts now (sr, bad)))) ! k) = ts"
proof -
  obtain pre post where split: "ds = pre @ d # post" using ds(2) by (metis split_list)
  have lc: "length (pt_catalog (pf_tables (fst sr))) \<le> max_runtime_signals" by (rule valid_catalog_fits [OF wf])
  note ki = catalog_find_index [OF m wf, folded k]
  obtain sr1 bad1 where r1: "commit_results pre ts now (sr, bad) = (sr1, bad1)" by (rule prod.exhaust)
  let ?sr2 = "commit_valid m d ts now sr1"
  have f1: "frame_only ts (dr_id ` set pre) (fst sr) (fst sr1)"
    using frame_only_commit_results [of pre "dr_id ` set pre" sr ts now bad] lc r1 by simp
  have t1: "pf_tables (fst sr1) = pf_tables (fst sr)" "length (pf_signals (fst sr1)) = max_runtime_signals"
    using frame_only_tables [OF f1] frame_only_length [OF f1] len by simp_all
  have nin: "dr_id d \<notin> dr_id ` set pre" "dr_id d \<notin> dr_id ` set post" using ds(1) split by auto
  have kl: "k < length (pf_signals (fst sr))" using ki(1) lc len by simp
  have same1: "same_data (pf_signals (fst sr) ! k) (pf_signals (fst sr1) ! k)"
    by (rule frame_only_other [OF f1 kl ki(1)]) (simp add: ki(2,3) nin(1))
  have res: "commit_results ds ts now (sr, bad) = commit_results post ts now (?sr2, bad1)"
    using m v by (simp add: split commit_results_append r1 t1)
  have ins: "in_signals (fst sr1) k" using t1 ki(1) lc by (simp add: in_signals_def)
  obtain s1 rr where s1: "sr1 = (s1, rr)" by (rule prod.exhaust)
  have wm1: "has_flag (pf_signals s1 ! k) has_watermark \<longrightarrow> sg_watermark (pf_signals s1 ! k) < ts"
    using same1 wm s1 by (simp add: same_data_def)
  have k1: "k = signal_index (pf_tables s1) (md_id m)" using k ki(3) t1 s1 by simp
  have in1: "in_signals s1 k" using ins s1 by simp
  note cv = commit_valid_sample [OF in1 k1 wm1, of d now rr, folded s1]
  have f2: "frame_only ts {md_id m} (fst sr1) (fst ?sr2)" by (rule frame_only_commit) (use t1 lc in auto)
  have t2: "pf_tables (fst ?sr2) = pf_tables (fst sr)" "length (pf_signals (fst ?sr2)) = max_runtime_signals"
    using frame_only_tables [OF f2] frame_only_length [OF f2] t1 by simp_all
  have kc: "k < length (pt_catalog (pf_tables (fst sr)))" by (rule ki(1))
  have "signal_index (pf_tables (fst ?sr2)) (dr_id d') \<noteq> k" if "d' \<in> set post" for d'
  proof
    assume "signal_index (pf_tables (fst ?sr2)) (dr_id d') = k"
    then have "md_id (pt_catalog (pf_tables (fst sr)) ! k) = dr_id d'" using signal_index_inverse [of "pf_tables (fst sr)" "dr_id d'" k] kc lc t2 by simp
    with ki that nin(2) show False by auto
  qed
  then have "untouched k ?sr2 (fst (commit_results post ts now (?sr2, bad1)))" by (intro untouched_results) simp
  with cv show ?thesis unfolding res untouched_def by simp
qed

text \<open>The sample after a frame that brings a newer value.\<close>

lemma process_commits_sample:
  assumes "profile_reach t s" and "pf_valid s" and "find_dispatch t (rf_identifier f) = Some e" and "valid_shape f e"
    and "de_decode e = Some dec" and "result_list_well_formed s e (dec f (pt_max_results t))"
    and "d \<in> set (dec f (pt_max_results t))" and "dr_valid d"
    and "catalog_find (pt_catalog t) (dr_id d) = Some m" and "accepted_result m d"
    and "has_flag (pf_signals s ! signal_index t (dr_id d)) has_watermark \<longrightarrow>
          sg_watermark (pf_signals s ! signal_index t (dr_id d)) < rf_timestamp f"
  shows "(let x = pf_signals (fst (profile_process now f s)) ! signal_index t (dr_id d) in
      sg_value x = dr_value d \<and> sg_timestamp x = rf_timestamp f \<and> has_flag x has_value \<and> \<not> has_flag x invalid \<and> \<not> has_flag x due_reported
      \<and> sg_watermark x = rf_timestamp f)
    \<and> pf_tables (fst (profile_process now f s)) = t \<and> pf_valid (fst (profile_process now f s))
    \<and> length (pf_signals (fst (profile_process now f s))) = max_runtime_signals \<and> table_well_formed t"
proof -
  from profile_reach_ok [OF assms(1)] have ok: "profile_ok s" and t: "pf_tables s = t" by auto
  have wf: "table_well_formed t" and len: "length (pf_signals s) = max_runtime_signals"
    using ok assms(2) by (auto simp: profile_ok_def t)
  note lc = valid_catalog_fits [OF wf]
  define k where "k = signal_index t (dr_id d)"
  let ?ts = "rf_timestamp f"
  let ?ds = "dec f (pt_max_results t)"
  let ?s1 = "receive_watermark now s"
  have s1: "pf_tables ?s1 = t" "pf_signals ?s1 = pf_signals s" by (simp_all add: receive_watermark_def t)
  define sr where "sr = service_due now (?s1, process_result_new)"
  have f1: "frame_only ?ts {} ?s1 (fst sr)"
    unfolding sr_def by (rule frame_only_service) (simp add: s1 len lc)
  have tsr: "pf_tables (fst sr) = t" "length (pf_signals (fst sr)) = max_runtime_signals"
    using frame_only_tables [OF f1] frame_only_length [OF f1] s1 len by simp_all
  note ki = catalog_find_index [OF assms(9) wf, folded k_def]
  have kl: "k < length (pf_signals ?s1)" using ki lc len s1 by simp
  have same: "same_data (pf_signals s ! k) (pf_signals (fst sr) ! k)"
    using frame_only_other [OF f1 kl] ki by (simp add: s1)
  have cover: "results_cover (de_outputs e) [] ?ds" using assms(6) by (simp add: result_list_well_formed_def split: if_splits)
  have "result_list_well_formed (fst sr) e ?ds" using assms(6) tsr t by (simp add: result_list_well_formed_def)
  then have "profile_process now f s = (case commit_results ?ds ?ts now (sr, False) of
      (sr', bad) \<Rightarrow> with_status (if bad then PInvalidResults else PApplied) sr')"
    using assms(2-5) by (simp add: profile_process_def sr_def [symmetric] t Let_def)
  then have s': "fst (profile_process now f s) = fst (fst (commit_results ?ds ?ts now (sr, False)))"
    by (simp add: with_status_def split_beta)
  define s' where "s' = fst (profile_process now f s)"
  have "sg_value (pf_signals s' ! k) = dr_value d \<and> sg_timestamp (pf_signals s' ! k) = ?ts
    \<and> has_flag (pf_signals s' ! k) has_value \<and> \<not> has_flag (pf_signals s' ! k) invalid
    \<and> \<not> has_flag (pf_signals s' ! k) due_reported \<and> sg_watermark (pf_signals s' ! k) = ?ts"
    unfolding s'_def s'
  proof (rule commit_results_sample)
    show "distinct (map dr_id ?ds)" using results_cover_distinct [OF cover] by simp
    show "has_flag (pf_signals (fst sr) ! k) has_watermark \<longrightarrow> sg_watermark (pf_signals (fst sr) ! k) < ?ts"
      using same assms(11) by (simp add: same_data_def k_def)
  qed (use assms wf tsr in \<open>simp_all add: k_def\<close>)
  moreover have "pf_tables s' = t" "pf_valid s'" "length (pf_signals s') = max_runtime_signals"
    using keeps_process [OF profile_ok_sized [OF ok], of now f] ok t len assms(2)
    by (simp_all add: keeps_def profile_grows_def s'_def)
  ultimately show ?thesis using wf by (simp add: s'_def [symmetric] k_def [symmetric] Let_def)
qed
text \<open>
  C16: A value that a decoder produced from a well-formed newer frame is what a read then
  returns. When a provider with valid tables processes a frame of the right shape whose decoder
  returned one result per output, each accepted result of a signal that has not seen a later
  timestamp is committed: the next read gives exactly that value, with the catalog's validation,
  Fresh up to and including the deadline (frame timestamp plus timeout, saturated) and Stale after
  it when a timeout is declared, FreshnessUnverified otherwise.
\<close>

theorem profile_process_commits:
  assumes "profile_reach t s" and "pf_valid s" and "find_dispatch t (rf_identifier f) = Some e" and "valid_shape f e"
    and "de_decode e = Some dec" and "result_list_well_formed s e (dec f (pt_max_results t))"
    and "d \<in> set (dec f (pt_max_results t))" and "dr_valid d"
    and "catalog_find (pt_catalog t) (dr_id d) = Some m" and "accepted_result m d"
    and "caps_has (md_capabilities m) CRead" and "freshness_for t (dr_id d) = Some p"
    and "has_flag (pf_signals s ! signal_index t (dr_id d)) has_watermark \<longrightarrow>
          sg_watermark (pf_signals s ! signal_index t (dr_id d)) < rf_timestamp f"
  shows "profile_read (fst (profile_process now f s)) now' (dr_id d) = rs_success
    \<lparr>rd_value = Some (dr_value d),
     rd_availability = (if \<not> fp_declared p then FreshnessUnverified
        else if freshness_deadline (rf_timestamp f) p < now' then Stale else Fresh),
     rd_validation = md_validation m\<rparr>"
proof -
  note sample = process_commits_sample [OF assms(1-10,13), of now]
  then have wf: "table_well_formed t" by blast
  from sample catalog_find_index [OF assms(9) wf] valid_catalog_fits [OF wf] assms(9,11,12) show ?thesis
    by (simp add: profile_read_def in_signals_def availability_at_def Let_def)
qed

lemma profile_process_commits_witness:
  "profile_read (fst (profile_process 10 (sample_frame 3) sample_profile)) 1004 (SignalId 1) = rs_success
     \<lparr>rd_value = Some (VNumber 0x3F800000), rd_availability = Stale, rd_validation = Confirmed\<rparr>"
proof -
  let ?d = "\<lparr>dr_id = SignalId 1, dr_value = VNumber 0x3F800000, dr_valid = True\<rparr>"
  let ?p = "\<lparr>fp_id = SignalId 1, fp_declared = True, fp_timeout_ms = 1\<rparr>"
  have "f32_isfinite 0x3F800000" by (simp add: f32_compare_eval)
  then show ?thesis
    using profile_process_commits [OF sample_profile_reach, where f = "sample_frame 3" and e = sample_entry
        and dec = sample_decode and d = ?d and m = "sample_metadata 1 ''a''" and p = ?p and now = 10 and now' = 1004]
    by (simp add: sample_tables_def sample_entry_def find_dispatch_def sample_frame_def valid_shape_def
        result_list_well_formed_def sample_decode_def catalog_find_def sid_valid_def sample_metadata_def
        accepted_result_def md_accepts_def caps_has_def freshness_for_def signal_index_def freshness_deadline_def)
qed

section \<open>Staleness is reported once\<close>

lemma service_loop_due:
  assumes "length cat \<le> length xs" and "distinct (due @ map md_id cat)"
    and "length due + length cat \<le> max_runtime_signals"
  shows "snd (service_loop t now cat xs due) =
     due @ map (\<lambda>(m, x). md_id m) (filter (\<lambda>(m, x). becomes_due t now m x) (zip cat xs))"
  using assms
proof (induction cat arbitrary: xs due)
  case (Cons m cat)
  then obtain y ys where ys: "xs = y # ys" by (cases xs) auto
  show ?case
  proof (cases "becomes_due t now m y")
    case True
    have "append_unique (md_id m) due = due @ [md_id m]"
      using Cons.prems by (simp add: append_unique_def)
    with True Cons.IH [of ys "due @ [md_id m]"] Cons.prems ys show ?thesis by (simp add: split_beta)
  next
    case False
    with Cons.IH [of ys due] Cons.prems ys show ?thesis by (simp add: split_beta)
  qed
qed simp

lemma becomes_due_stale:
  "becomes_due t now m x \<longleftrightarrow> (\<exists>p. freshness_for t (md_id m) = Some p \<and> availability_at x p now = Stale)
     \<and> \<not> has_flag x due_reported"
  by (auto simp: becomes_due_def availability_at_def split: option.splits)

lemma service_reports:
  assumes "profile_reach t s" and "pf_valid s"
  shows "set (pr_due (snd (profile_service now s))) =
     {md_id (pt_catalog t ! k) | k. k < length (pt_catalog t) \<and> becomes_due t now (pt_catalog t ! k) (pf_signals s ! k)}"
    "\<And>k. k < length (pt_catalog t) \<Longrightarrow> pf_signals (fst (profile_service now s)) ! k =
       (if becomes_due t now (pt_catalog t ! k) (pf_signals s ! k) then set_flag due_reported (pf_signals s ! k) else pf_signals s ! k)"
    "pf_valid (fst (profile_service now s))"
proof -
  from profile_reach_ok [OF assms(1)] have ok: "profile_ok s" and t: "pf_tables s = t" by auto
  have wf: "table_well_formed t" and len: "length (pf_signals s) = max_runtime_signals"
    using ok assms(2) by (auto simp: profile_ok_def t)
  note lc = valid_catalog_fits [OF wf]
  have dis: "distinct (map md_id (pt_catalog t))"
    using catalog_well_formed_ids [of "pt_catalog t"] wf by (simp add: table_well_formed_def split: if_splits)
  have le: "length (pt_catalog (pf_tables s)) \<le> length (pf_signals s)" using lc len t by simp
  have ps: "profile_service now s = service_due now (s, process_result_new)" by (simp add: profile_service_def assms(2))
  have "pr_due (snd (profile_service now s)) = map (\<lambda>(m, x). md_id m)
      (filter (\<lambda>(m, x). becomes_due t now m x) (zip (pt_catalog t) (pf_signals s)))"
    using service_loop_due [of "pt_catalog t" "pf_signals s" "[]" t now] dis lc len
    by (simp add: ps service_due_def t process_result_new_def split_beta)
  then show "set (pr_due (snd (profile_service now s))) =
     {md_id (pt_catalog t ! k) | k. k < length (pt_catalog t) \<and> becomes_due t now (pt_catalog t ! k) (pf_signals s ! k)}"
    using lc len by (auto simp: in_set_zip image_iff) (metis (no_types, lifting) fst_conv le_trans less_le_trans nth_zip snd_conv)+
  show "pf_signals (fst (profile_service now s)) ! k =
       (if becomes_due t now (pt_catalog t ! k) (pf_signals s ! k) then set_flag due_reported (pf_signals s ! k) else pf_signals s ! k)"
    if "k < length (pt_catalog t)" for k
    using that service_due_signals(1) [OF le, of now process_result_new] lc len t by (simp add: ps)
  show "pf_valid (fst (profile_service now s))" using service_due_signals(3) [OF le] assms(2) by (simp add: ps)
qed

text \<open>
  What a pass that leaves signal \<open>k\<close> alone does: a service pass, or a frame that is not one of its message's. The
  history's results, in order.
\<close>

definition leaves_alone :: "profile_tables \<Rightarrow> signal_id \<Rightarrow> profile_op \<Rightarrow> bool" where
  "leaves_alone t i op = (case op of OpService \<Rightarrow> True
     | OpProcess f \<Rightarrow> (case find_dispatch t (rf_identifier f) of None \<Rightarrow> True | Some e \<Rightarrow> i \<notin> set (de_outputs e))
     | _ \<Rightarrow> False)"

fun history_results :: "(profile_op \<times> timestamp) list \<Rightarrow> profile \<Rightarrow> process_result list" where
  "history_results [] s = []"
| "history_results ((op, now) # h) s = (case profile_apply op now s of (s', r) \<Rightarrow> r # history_results h s')"

lemma pass_reports:
  assumes "profile_reach t s" and "pf_valid s" and k: "k < length (pt_catalog t)" and alone: "leaves_alone t (md_id (pt_catalog t ! k)) op"
    and "profile_apply op now s = (s', r)"
  shows "(md_id (pt_catalog t ! k) \<in> set (pr_due r)) = becomes_due t now (pt_catalog t ! k) (pf_signals s ! k)"
    "pf_signals s' ! k = (if becomes_due t now (pt_catalog t ! k) (pf_signals s ! k) then set_flag due_reported (pf_signals s ! k) else pf_signals s ! k)"
    "profile_reach t s'" "pf_valid s'"
proof -
  from profile_reach_ok [OF assms(1)] have ok: "profile_ok s" and t: "pf_tables s = t" by auto
  have wf: "table_well_formed t" using ok assms(2) by (auto simp: profile_ok_def t)
  note lc = valid_catalog_fits [OF wf]
  have dis: "distinct (map md_id (pt_catalog t))"
    using catalog_well_formed_ids [of "pt_catalog t"] wf by (simp add: table_well_formed_def split: if_splits)
  have own: "md_id (pt_catalog t ! j) = md_id (pt_catalog t ! k) \<longleftrightarrow> j = k" if "j < length (pt_catalog t)" for j
    using that k dis by (metis length_map nth_eq_iff_index_eq nth_map)
  define sr where "sr = service_due now (receive_watermark now s, process_result_new)"
  note rep = service_reports [OF assms(1,2), where now = now]
  have serviced: "profile_service now s = service_due now (s, process_result_new)" using assms(2) by (simp add: profile_service_def)
  have same: "snd sr = snd (profile_service now s)" "pf_signals (fst sr) = pf_signals (fst (profile_service now s))" "pf_tables (fst sr) = t"
    unfolding sr_def serviced by (simp_all add: service_due_def receive_watermark_def split_beta t)
  have due: "(md_id (pt_catalog t ! k) \<in> set (pr_due (snd (profile_service now s)))) = becomes_due t now (pt_catalog t ! k) (pf_signals s ! k)"
    unfolding rep(1) mem_Collect_eq using own k by metis
  have res: "pr_due r = pr_due (snd (profile_service now s)) \<and> pf_signals s' ! k = pf_signals (fst (profile_service now s)) ! k"
  proof (cases op)
    case OpService
    with assms(5) show ?thesis by simp
  next
    case (OpProcess f)
    have apart: "signal_index t i \<noteq> k" if "find_dispatch t (rf_identifier f) = Some e" "i \<in> set (de_outputs e)" for e i
      using alone that OpProcess signal_index_inverse [of t i k] k lc by (auto simp: leaves_alone_def)
    have "untouched k sr (profile_process now f s)"
    proof (cases "find_dispatch t (rf_identifier f)")
      case None
      with assms(2) show ?thesis by (simp add: profile_process_def sr_def [symmetric] t untouched_def with_status_def Let_def)
    next
      case (Some e)
      define ds where "ds = (case de_decode e of None \<Rightarrow> [] | Some d \<Rightarrow> d f (pt_max_results (pf_tables s)))"
      have proc: "profile_process now f s = (if \<not> valid_shape f e then with_status PMalformed (mark_all_invalid (de_outputs e) (rf_timestamp f) sr)
          else if \<not> result_list_well_formed (fst sr) e ds then with_status PInvalidResults (mark_all_invalid (de_outputs e) (rf_timestamp f) sr)
          else case commit_results ds (rf_timestamp f) now (sr, False) of (sr', bad) \<Rightarrow> with_status (if bad then PInvalidResults else PApplied) sr')"
        using assms(2) Some by (simp add: profile_process_def sr_def [symmetric] t Let_def ds_def)
      have status: "untouched k sr (with_status st x) = untouched k sr x" for st x by (simp add: untouched_def with_status_def)
      have marks: "untouched k sr (mark_all_invalid (de_outputs e) (rf_timestamp f) sr)"
        by (rule untouched_mark_all) (use apart [OF Some] same in auto)
      have "dr_id ` set ds \<subseteq> set (de_outputs e)" if "result_list_well_formed (fst sr) e ds"
        using results_cover_ids [of "de_outputs e" "[]" ds] that by (auto simp: result_list_well_formed_def split: if_splits)
      then have "untouched k sr (fst (commit_results ds (rf_timestamp f) now (sr, False)))" if "result_list_well_formed (fst sr) e ds"
        by (intro untouched_results) (use that apart [OF Some] same in auto)
      with marks show ?thesis by (simp add: proc status split_beta)
    qed
    with OpProcess assms(5) same show ?thesis by (simp add: untouched_def)
  qed (use alone in \<open>simp_all add: leaves_alone_def\<close>)
  show "(md_id (pt_catalog t ! k) \<in> set (pr_due r)) = becomes_due t now (pt_catalog t ! k) (pf_signals s ! k)" using res due by simp
  show "pf_signals s' ! k = (if becomes_due t now (pt_catalog t ! k) (pf_signals s ! k) then set_flag due_reported (pf_signals s ! k) else pf_signals s ! k)"
    using res rep(2) [OF k] by simp
  have s': "s' = fst (profile_apply op now s)" using assms(5) by simp
  show "profile_reach t s'" unfolding s' by (rule profile_reach.Apply [OF assms(1)])
  show "pf_valid s'" using keeps_apply [OF profile_ok_sized [OF ok], of op now] assms(2) by (simp add: s' keeps_def profile_grows_def)
qed

lemma history_reports:
  assumes "profile_reach t s" and "pf_valid s" and "k < length (pt_catalog t)" and "list_all (\<lambda>(op, _). leaves_alone t (md_id (pt_catalog t ! k)) op) h"
    and "freshness_for t (md_id (pt_catalog t ! k)) = Some p" and "fp_declared p"
    and "has_flag (pf_signals s ! k) has_value" "\<not> has_flag (pf_signals s ! k) invalid"
    and "sg_timestamp (pf_signals s ! k) = ts" and "i < length h"
  shows "(md_id (pt_catalog t ! k) \<in> set (pr_due (history_results h s ! i))) = (\<not> has_flag (pf_signals s ! k) due_reported \<and>
     freshness_deadline ts p < snd (h ! i) \<and> (\<forall>j < i. \<not> freshness_deadline ts p < snd (h ! j)))"
  using assms
proof (induction h arbitrary: s i)
  case (Cons on h)
  obtain op now where on: "on = (op, now)" by (rule prod.exhaust)
  obtain s' r where ap: "profile_apply op now s = (s', r)" by (rule prod.exhaust)
  note pass = pass_reports [OF Cons.prems(1-3) _ ap]
  have alone: "leaves_alone t (md_id (pt_catalog t ! k)) op" using Cons.prems(4) on by simp
  note pass = pass [OF alone]
  have due: "becomes_due t now (pt_catalog t ! k) (pf_signals s ! k) = (\<not> has_flag (pf_signals s ! k) due_reported \<and> freshness_deadline ts p < now)"
    using Cons.prems by (simp add: becomes_due_def)
  show ?case
  proof (cases i)
    case 0
    then show ?thesis using pass(1) due by (simp add: on ap)
  next
    case (Suc i')
    have "(md_id (pt_catalog t ! k) \<in> set (pr_due (history_results h s' ! i'))) = (\<not> has_flag (pf_signals s' ! k) due_reported \<and>
       freshness_deadline ts p < snd (h ! i') \<and> (\<forall>j < i'. \<not> freshness_deadline ts p < snd (h ! j)))"
      by (rule Cons.IH [OF pass(3,4) Cons.prems(3)]) (use Cons.prems pass(2) Suc in auto)
    moreover have "has_flag (pf_signals s' ! k) due_reported = (has_flag (pf_signals s ! k) due_reported \<or> freshness_deadline ts p < now)"
      using pass(2) due by auto
    ultimately show ?thesis using Suc by (simp add: on ap All_less_Suc2) blast
  qed
qed simp

text \<open>
  C26: Each period of staleness is reported exactly once. After a frame that committed a value (a well-formed
  frame newer than the signal's watermark, with a value its catalog accepts) for a signal with a freshness timeout,
  whatever service passes and whatever frames of other messages follow, at whatever clock readings: the pass that reports the signal as due is
  the first one whose clock has passed the deadline (frame timestamp plus timeout), and no other one
  does. So every commit opens a new period, even if the period before it had been reported.
\<close>

theorem profile_service_reports_stale_once:
  assumes "profile_reach t s" and "pf_valid s" and "find_dispatch t (rf_identifier f) = Some e" and "valid_shape f e"
    and "de_decode e = Some dec" and "result_list_well_formed s e (dec f (pt_max_results t))"
    and "d \<in> set (dec f (pt_max_results t))" and "dr_valid d"
    and "catalog_find (pt_catalog t) (dr_id d) = Some m" and "accepted_result m d"
    and "has_flag (pf_signals s ! signal_index t (dr_id d)) has_watermark \<longrightarrow>
          sg_watermark (pf_signals s ! signal_index t (dr_id d)) < rf_timestamp f"
    and "freshness_for t (dr_id d) = Some p" and "fp_declared p"
    and "list_all (\<lambda>(op, _). leaves_alone t (dr_id d) op) h" and "i < length h"
  shows "(dr_id d \<in> set (pr_due (history_results h (fst (profile_process now f s)) ! i))) =
    (freshness_deadline (rf_timestamp f) p < snd (h ! i) \<and> (\<forall>j < i. \<not> freshness_deadline (rf_timestamp f) p < snd (h ! j)))"
proof -
  note sample = process_commits_sample [OF assms(1-11), of now]
  then have wf: "table_well_formed t" by blast
  note ki = catalog_find_index [OF assms(9) wf]
  have reach: "profile_reach t (fst (profile_process now f s))"
    using profile_reach.Apply [OF assms(1), of "OpProcess f" now] by simp
  have id: "md_id (pt_catalog t ! signal_index t (dr_id d)) = dr_id d" using ki by simp
  show ?thesis
    using history_reports [OF reach _ ki(1) _ _ assms(13) _ _ _ assms(15), where ts = "rf_timestamp f"] sample assms(12,14)
    by (simp add: id Let_def)
qed


lemma sample_indexes: "signal_index sample_tables (SignalId 1) = 0" "md_id (pt_catalog sample_tables ! 0) = SignalId 1"
  "freshness_for sample_tables (SignalId 1) = Some \<lparr>fp_id = SignalId 1, fp_declared = True, fp_timeout_ms = 1\<rparr>"
  "0 < length (pt_catalog sample_tables)"
  by (simp_all add: sample_tables_def signal_index_def sample_metadata_def sid_valid_def freshness_for_def)

definition framed_profile :: profile where
  "framed_profile = fst (profile_process 10 (sample_frame 3) sample_profile)"

lemma framed_profile_reach: "profile_reach sample_tables framed_profile"
  using profile_reach.Apply [OF sample_profile_reach, of "OpProcess (sample_frame 3)" 10] by (simp add: framed_profile_def)

lemma framed_profile_sample:
  "(let x = pf_signals framed_profile ! 0 in sg_value x = VNumber 0x3F800000 \<and> sg_timestamp x = 3 \<and> has_flag x has_value \<and> \<not> has_flag x invalid
      \<and> \<not> has_flag x due_reported \<and> sg_watermark x = 3)
    \<and> pf_tables framed_profile = sample_tables \<and> pf_valid framed_profile \<and> length (pf_signals framed_profile) = max_runtime_signals"
proof -
  have fin: "f32_isfinite 0x3F800000" by (simp add: f32_compare_eval)
  show ?thesis unfolding framed_profile_def
    using process_commits_sample [OF sample_profile_reach, where f = "sample_frame 3" and e = sample_entry and dec = sample_decode
        and d = "\<lparr>dr_id = SignalId 1, dr_value = VNumber 0x3F800000, dr_valid = True\<rparr>" and m = "sample_metadata 1 ''a''" and now = 10] fin
    by (simp add: sample_indexes(1) Let_def) (simp add: sample_tables_def sample_entry_def find_dispatch_def sample_frame_def valid_shape_def
        result_list_well_formed_def sample_decode_def catalog_find_def sid_valid_def sample_metadata_def
        accepted_result_def md_accepts_def caps_has_def)
qed

lemma profile_read_fits_catalog_witness:
  "value_fits (sample_metadata 1 ''a'') (VNumber 0x3F800000) \<and> profile_read framed_profile 500 (SignalId 1) =
     rs_success \<lparr>rd_value = Some (VNumber 0x3F800000), rd_availability = Fresh, rd_validation = Confirmed\<rparr>"
proof -
  have cat: "catalog_find (pt_catalog sample_tables) (SignalId 1) = Some (sample_metadata 1 ''a'')"
    by (simp add: sample_tables_def catalog_find_def sid_valid_def sample_metadata_def)
  have read: "profile_read framed_profile 500 (SignalId 1) =
      rs_success \<lparr>rd_value = Some (VNumber 0x3F800000), rd_availability = Fresh, rd_validation = Confirmed\<rparr>"
    using framed_profile_sample sample_indexes
    by (simp add: profile_read_def cat Let_def in_signals_def availability_at_def freshness_deadline_def max_runtime_signals_def)
       (simp add: sample_metadata_def caps_has_def)
  from profile_read_fits_catalog [OF framed_profile_reach this] read cat show ?thesis by auto
qed

text \<open>A profile whose first period of staleness has been reported.\<close>

definition reported_profile :: profile where
  "reported_profile = fst (profile_service 2000 framed_profile)"

lemma reported_profile_reach: "profile_reach sample_tables reported_profile"
  using profile_reach.Apply [OF framed_profile_reach, of OpService 2000] by (simp add: reported_profile_def)

lemma reported_profile_sample: "pf_valid reported_profile" "sg_watermark (pf_signals reported_profile ! 0) = 3"
  "has_flag (pf_signals reported_profile ! 0) due_reported" "pf_tables reported_profile = sample_tables"
proof -
  note x = framed_profile_sample [unfolded Let_def]
  from x have v: "pf_valid framed_profile" by blast
  note rep = service_reports [OF framed_profile_reach v, where now = 2000]
  have "becomes_due sample_tables 2000 (pt_catalog sample_tables ! 0) (pf_signals framed_profile ! 0)"
    using x by (simp add: becomes_due_def sample_indexes freshness_deadline_def)
  with rep(2) [OF sample_indexes(4)] have "pf_signals reported_profile ! 0 = set_flag due_reported (pf_signals framed_profile ! 0)"
    by (simp add: reported_profile_def)
  with x show "sg_watermark (pf_signals reported_profile ! 0) = 3" "has_flag (pf_signals reported_profile ! 0) due_reported" by simp_all
  show "pf_valid reported_profile" using rep(3) by (simp add: reported_profile_def)
  show "pf_tables reported_profile = sample_tables" using profile_reach_ok [OF reported_profile_reach] by simp
qed

lemma profile_service_reports_stale_once_witness:
  "SignalId 1 \<notin> set (pr_due (history_results [(OpService, 4000), (OpService, 4001), (OpService, 9000)]
       (fst (profile_process 3001 (sample_frame 3000) reported_profile)) ! 0))
   \<and> SignalId 1 \<in> set (pr_due (history_results [(OpService, 4000), (OpService, 4001), (OpService, 9000)]
       (fst (profile_process 3001 (sample_frame 3000) reported_profile)) ! 1))
   \<and> SignalId 1 \<notin> set (pr_due (history_results [(OpService, 4000), (OpService, 4001), (OpService, 9000)]
       (fst (profile_process 3001 (sample_frame 3000) reported_profile)) ! 2))"
proof -
  let ?d = "\<lparr>dr_id = SignalId 1, dr_value = VNumber 0x3F800000, dr_valid = True\<rparr>"
  let ?p = "\<lparr>fp_id = SignalId 1, fp_declared = True, fp_timeout_ms = 1\<rparr>"
  define h :: "(profile_op \<times> timestamp) list" where "h = [(OpService, 4000), (OpService, 4001), (OpService, 9000)]"
  have fin: "f32_isfinite 0x3F800000" by (simp add: f32_compare_eval)
  have idx: "signal_index sample_tables (SignalId 1) = 0"
    by (simp add: sample_tables_def signal_index_def sample_metadata_def sid_valid_def)
  have alone: "list_all (\<lambda>(op, _). leaves_alone sample_tables (SignalId 1) op) h" by (simp add: h_def leaves_alone_def)
  have "SignalId 1 \<in> set (pr_due (history_results h (fst (profile_process 3001 (sample_frame 3000) reported_profile)) ! i)) \<longleftrightarrow>
      4000 < snd (h ! i) \<and> (\<forall>j < i. \<not> 4000 < snd (h ! j))" if "i < length h" for i
    using profile_service_reports_stale_once [OF reported_profile_reach reported_profile_sample(1), where f = "sample_frame 3000" and e = sample_entry
        and dec = sample_decode and d = ?d and m = "sample_metadata 1 ''a''" and p = ?p and now = 3001 and h = h and i = i] that alone fin
    by (simp add: idx reported_profile_sample(2,4)) (simp add: sample_tables_def sample_entry_def find_dispatch_def sample_frame_def valid_shape_def
        result_list_well_formed_def sample_decode_def catalog_find_def sid_valid_def sample_metadata_def
        accepted_result_def md_accepts_def caps_has_def freshness_for_def freshness_deadline_def reported_profile_sample(4))
  note passes = this
  have at: "h ! 0 = (OpService, 4000)" "h ! Suc 0 = (OpService, 4001)" "h ! 2 = (OpService, 9000)" "length h = 3" by (simp_all add: h_def)
  have late: "\<not> (4000 :: timestamp) < 4000" "(4000 :: timestamp) < 4001" by simp_all
  have "\<exists>j < 2. 4000 < snd (h ! j)" using at(2) late(2) by (intro exI [of _ "Suc 0"]) simp
  then show ?thesis unfolding h_def [symmetric] using passes [of 0] passes [of 1] passes [of 2] late by (simp add: at)
qed

end
