(* ===== verification/Engine_Reach.thy ===== *)
theory Engine_Reach
  imports Engine
begin

text \<open>
  Histories of the action engine: a step relation over its operations, interleaved with the
  provider's own changes and notices, and what holds of every reachable engine - capacities,
  unique sinks, one driver per level action, one registration per signal - and of the commands
  each sink has received since the engine was attached.
\<close>

section \<open>Operations and steps\<close>

datatype engine_op =
    OpAddSink nat
  | OpClear
  | OpAddState state_rule_config
  | OpAddEvent event_rule_config
  | OpAddRange range_rule_config
  | OpAddSampled sampled_state_rule_config
  | OpSample "nat \<Rightarrow> reader"
  | OpNotice signal_notification

text \<open>The operations that leave the provider alone, with the deliveries each makes.\<close>

fun engine_apply :: "catalog \<Rightarrow> engine_op \<Rightarrow> engine \<Rightarrow> engine \<times> delivery list" where
  "engine_apply cat (OpAddSink s) e = (snd (add_sink e s), [])"
| "engine_apply cat OpClear e = (snd (clear e), [])"
| "engine_apply cat (OpAddState c) e = (snd (add_state_rule cat e c), [])"
| "engine_apply cat (OpAddEvent c) e = (snd (add_event_rule cat e c), [])"
| "engine_apply cat (OpAddRange c) e = (snd (add_range_rule cat e c), [])"
| "engine_apply cat (OpAddSampled c) e = (snd (add_sampled_state_rule cat e c), [])"
| "engine_apply cat (OpSample reads) e = (case sample_polled_rules reads e of (_, ds, e') \<Rightarrow> (e', ds))"
| "engine_apply cat (OpNotice n) e = (case on_notice e n of (ds, e') \<Rightarrow> (e', ds))"

text \<open>
  A state is the engine, the provider and the deliveries made since the last attach. The
  catalog is static; \<open>Provider\<close> is any other change of the provider.
\<close>

inductive engine_step ::
  "'p port \<Rightarrow> catalog \<Rightarrow> engine \<times> 'p \<times> delivery list \<Rightarrow> engine \<times> 'p \<times> delivery list \<Rightarrow> bool"
  for P :: "'p port" and cat :: catalog where
  Operation: "engine_apply cat op e = (e', ds) \<Longrightarrow> engine_step P cat (e, p, tr) (e', p, tr @ ds)"
| Attach: "\<not> en_attached e \<Longrightarrow> attach P e p = (st, e', p') \<Longrightarrow> engine_step P cat (e, p, tr) (e', p', [])"
| Attach_again: "en_attached e \<Longrightarrow> engine_step P cat (e, p, tr) (e, p, tr)"
| Detach: "detach P e p = (st, e', p') \<Longrightarrow> engine_step P cat (e, p, tr) (e', p', tr)"
| Provider: "engine_step P cat (e, p, tr) (e, p', tr)"

inductive engine_reach :: "'p port \<Rightarrow> catalog \<Rightarrow> engine \<times> 'p \<times> delivery list \<Rightarrow> bool"
  for P :: "'p port" and cat :: catalog where
  Start: "engine_reach P cat (engine_new, p, [])"
| Step: "engine_reach P cat s \<Longrightarrow> engine_step P cat s s' \<Longrightarrow> engine_reach P cat s'"

inductive_cases engine_step_elim: "engine_step P cat s s'"

lemma engine_reach_invariant:
  assumes "engine_reach P cat s"
    and "\<And>p. I (engine_new, p, [])"
    and "\<And>e p tr op e' ds. I (e, p, tr) \<Longrightarrow> engine_apply cat op e = (e', ds) \<Longrightarrow> I (e', p, tr @ ds)"
    and "\<And>e p tr st e' p'. I (e, p, tr) \<Longrightarrow> \<not> en_attached e \<Longrightarrow> attach P e p = (st, e', p') \<Longrightarrow> I (e', p', [])"
    and "\<And>e p tr st e' p'. I (e, p, tr) \<Longrightarrow> detach P e p = (st, e', p') \<Longrightarrow> I (e', p', tr)"
    and "\<And>e p p' tr. I (e, p, tr) \<Longrightarrow> I (e, p', tr)"
  shows "I s"
  using assms(1)
proof (induction rule: engine_reach.induct)
  case (Start p)
  show ?case by (rule assms(2))
next
  case (Step s s')
  from Step.hyps(2) Step.IH show ?case
    by (cases rule: engine_step.cases) (blast intro: assms(3-6))+
qed

section \<open>The structural invariant\<close>

fun rule_level :: "rule \<Rightarrow> action_id list" where
  "rule_level (RState r) = [sr_action r]"
| "rule_level (REvent r) = []"

fun rule_action :: "rule \<Rightarrow> action_id" where
  "rule_action (RState r) = sr_action r"
| "rule_action (REvent r) = er_action r"

fun rule_condition :: "rule \<Rightarrow> resolved_condition" where
  "rule_condition (RState r) = sr_condition r"
| "rule_condition (REvent r) = er_condition r"

definition level_actions :: "engine \<Rightarrow> action_id list" where
  "level_actions e = concat (map rule_level (en_rules e)) @ map polled_action (en_polled e)"

text \<open>A polled rule of an accepted configuration: typed conditions, a proper release, valid ranges.\<close>

definition releases :: "resolved_condition \<Rightarrow> resolved_condition \<Rightarrow> bool" where
  "releases a r = (rc_signal r = rc_signal a \<and> rc_comparison r = rc_comparison a \<and> rc_freshness r = rc_freshness a
     \<and> (case (as_number (rc_operand a), as_number (rc_operand r)) of
          (Some x, Some y) \<Rightarrow> f32_isfinite x \<and> f32_isfinite y \<and>
            (if rc_comparison a = CmpGreater \<or> rc_comparison a = CmpGreaterOrEqual then f32_lt y x
             else if rc_comparison a = CmpLess \<or> rc_comparison a = CmpLessOrEqual then f32_lt x y
             else False)
        | _ \<Rightarrow> False))"

fun polled_ok :: "catalog \<Rightarrow> polled_rule \<Rightarrow> bool" where
  "polled_ok cat (PRange r) = (mapping_ok (rr_mapping r) \<and>
     list_ex (\<lambda>m. md_id m = rr_signal r \<and> md_type m = TNumber \<and> caps_has (md_capabilities m) CRead) cat)"
| "polled_ok cat (PSampled r) = (rc_well_typed cat CRead (ss_activation r) \<and>
     (case ss_release r of None \<Rightarrow> True
      | Some c \<Rightarrow> rc_well_typed cat CRead c \<and> releases (ss_activation r) c))"

definition engine_ok :: "catalog \<Rightarrow> engine \<Rightarrow> bool" where
  "engine_ok cat e =
     (length (en_sinks e) \<le> sink_capacity \<and> distinct (en_sinks e)
      \<and> length (en_rules e) \<le> rule_set_capacity \<and> length (en_polled e) \<le> polled_set_capacity
      \<and> distinct (level_actions e)
      \<and> (\<forall>r \<in> set (en_rules e). aid_valid (rule_action r) \<and> rc_well_typed cat CNotify (rule_condition r))
      \<and> (\<forall>r \<in> set (en_polled e). aid_valid (polled_action r) \<and> polled_ok cat r)
      \<and> distinct (map fst (en_subs e)) \<and> fst ` set (en_subs e) \<subseteq> rule_signal ` set (en_rules e)
      \<and> (\<not> en_attached e \<longrightarrow> en_subs e = []))"

section \<open>Rule collections\<close>

lemma rule_set_drives_level_iff:
  "rule_set_drives_level rs a \<longleftrightarrow> a \<in> set (concat (map rule_level rs))"
  by (induction rs) (auto simp: rule_set_drives_level_def split: rule.splits)

lemma polled_set_drives_iff: "polled_set_drives rs a \<longleftrightarrow> a \<in> polled_action ` set rs"
  by (auto simp: polled_set_drives_def list_ex_iff)

lemma check_action_ok:
  "check_action e a k = CfgOk \<longleftrightarrow>
     \<not> en_attached e \<and> aid_valid a \<and> (k = LevelOutput \<longrightarrow> a \<notin> set (level_actions e))"
  by (simp add: check_action_def level_actions_def rule_set_drives_level_iff polled_set_drives_iff)

lemma rule_step_frame [simp]:
  "rule_level (snd (rule_step n r)) = rule_level r"
  "rule_action (snd (rule_step n r)) = rule_action r"
  "rule_condition (snd (rule_step n r)) = rule_condition r"
  by (cases r; auto simp: rule_step_def event_rule_on_notice_def Let_def split_beta)+

lemma rule_reset_frame [simp]:
  "rule_level (rule_reset r) = rule_level r" "rule_action (rule_reset r) = rule_action r"
  "rule_condition (rule_reset r) = rule_condition r" "rule_signal (rule_reset r) = rule_signal r"
  by (cases r; simp)+

lemma polled_reset_frame [simp]:
  "polled_action (polled_reset r) = polled_action r" "polled_ok cat (polled_reset r) = polled_ok cat r"
  by (cases r; simp split: option.split)+

lemma polled_on_sample_ok [simp]: "polled_ok cat (snd (polled_on_sample r read)) = polled_ok cat r"
  by (cases r) (simp_all add: split_beta range_rule_on_sample_def Let_def split: option.split)

lemma sample_loop_length [simp]: "length (snd (sample_loop reads k rs)) = length rs"
  by (induction rs arbitrary: k) (auto simp: split_beta Let_def)

lemma sample_loop_nth:
  "i < length rs \<Longrightarrow>
     snd (sample_loop reads k rs) ! i = snd (polled_on_sample (rs ! i) (reads (k + i) (polled_signal (rs ! i))))"
  by (induction rs arbitrary: k i) (auto simp: split_beta Let_def nth_Cons split: nat.splits)

lemma sample_loop_actions [simp]:
  "map polled_action (snd (sample_loop reads k rs)) = map polled_action rs"
  by (intro nth_equalityI) (simp_all add: sample_loop_nth)

lemma sample_loop_ok:
  "\<forall>r \<in> set rs. aid_valid (polled_action r) \<and> polled_ok cat r \<Longrightarrow>
     \<forall>r \<in> set (snd (sample_loop reads k rs)). aid_valid (polled_action r) \<and> polled_ok cat r"
  by (auto simp: in_set_conv_nth [of _ "snd (sample_loop reads k rs)"] sample_loop_nth)

section \<open>Every operation keeps the invariant\<close>

lemma engine_ok_new [simp]: "engine_ok cat engine_new"
  by (simp add: engine_ok_def engine_new_def level_actions_def)

lemma engine_ok_add_sink: "engine_ok cat e \<Longrightarrow> engine_ok cat (snd (add_sink e s))"
  by (auto simp: engine_ok_def add_sink_def sinks_add_def level_actions_def)

lemma engine_ok_clear: "engine_ok cat e \<Longrightarrow> engine_ok cat (snd (clear e))"
  by (auto simp: engine_ok_def clear_def level_actions_def)

lemma engine_ok_add_rule:
  assumes "engine_ok cat e" and "set (rule_level r) \<inter> set (level_actions e) = {}"
    and "aid_valid (rule_action r)" and "rc_well_typed cat CNotify (rule_condition r)"
  shows "engine_ok cat (snd (engine_add_rule e r))"
proof -
  have "distinct (rule_level r)" by (cases r) auto
  with assms show ?thesis
    by (auto simp: engine_ok_def engine_add_rule_def rule_set_add_def level_actions_def)
qed

lemma engine_ok_add_polled:
  assumes "engine_ok cat e" and "polled_action r \<notin> set (level_actions e)"
    and "aid_valid (polled_action r)" and "polled_ok cat r"
  shows "engine_ok cat (snd (engine_add_polled e r))"
  using assms by (auto simp: engine_ok_def engine_add_polled_def polled_set_add_def level_actions_def)

lemma engine_ok_add_state: "engine_ok cat e \<Longrightarrow> engine_ok cat (snd (add_state_rule cat e c))"
  by (auto simp: add_state_rule_def resolve_rule_def Let_def resolve_condition_def check_action_ok
      intro!: engine_ok_add_rule resolve_through_well_typed split: prod.splits option.splits if_splits)

lemma engine_ok_add_event: "engine_ok cat e \<Longrightarrow> engine_ok cat (snd (add_event_rule cat e c))"
  by (auto simp: add_event_rule_def resolve_rule_def Let_def resolve_condition_def check_action_ok
      intro!: engine_ok_add_rule resolve_through_well_typed split: prod.splits option.splits if_splits)

lemma engine_ok_add_range: "engine_ok cat e \<Longrightarrow> engine_ok cat (snd (add_range_rule cat e c))"
proof (cases "check_action e (rrc_action c) LevelOutput = CfgOk")
  case True
  assume ok: "engine_ok cat e"
  show ?thesis
  proof (cases "resolve_range_rule cat c")
    case (Pair st res)
    show ?thesis
    proof (cases res)
      case None
      with Pair True ok show ?thesis by (simp add: add_range_rule_def)
    next
      case (Some r)
      note rr = resolve_range_rule_ok [OF Pair [unfolded Some]]
      from True ok rr have "engine_ok cat (snd (engine_add_polled e (PRange r)))"
        by (intro engine_ok_add_polled) (auto simp: check_action_ok list_ex_iff)
      with Pair Some True show ?thesis by (simp add: add_range_rule_def)
    qed
  qed
qed (simp add: add_range_rule_def Let_def)

text \<open>What the acceptance of a release threshold gives.\<close>

lemma resolve_through_data:
  assumes "resolve_through cat c req d = (st, Some rc)"
  shows "\<exists>m v. catalog_find_key cat (sc_key c) = Some m \<and> rc = resolved_for m c req v
    \<and> (\<forall>x. op_as_number (sc_operand c) = Some x \<longrightarrow> v = VNumber x)"
proof -
  from assms obtain m where m: "catalog_find_key cat (sc_key c) = Some m"
    and ro: "resolve_operand m c req = (st, Some rc)"
    by (auto simp: resolve_through_def split: option.splits if_splits)
  then show ?thesis
    by (cases "sc_operand c") (auto simp: resolve_operand_cases split: option.splits)
qed

lemma resolved_release:
  assumes a: "resolve_sampled_condition cat c req = (st, Some rc)"
    and t: "has_valid_release_threshold c t"
    and r: "resolve_sampled_condition cat (c\<lparr>sc_operand := ONumber t\<rparr>) req = (st', Some rel)"
  shows "releases rc rel"
proof -
  from t obtain x where x: "op_as_number (sc_operand c) = Some x"
    by (auto simp: has_valid_release_threshold_def split: option.splits)
  from resolve_through_data [OF a [unfolded resolve_sampled_condition_def]] x obtain m
    where m: "catalog_find_key cat (sc_key c) = Some m" "rc = resolved_for m c req (VNumber x)" by auto
  from resolve_through_data [OF r [unfolded resolve_sampled_condition_def]] m(1)
  have rel: "rel = resolved_for m (c\<lparr>sc_operand := ONumber t\<rparr>) req (VNumber t)" by auto
  from t x show ?thesis
    unfolding m(2) rel releases_def
    by (cases "sc_comparison c") (auto simp: has_valid_release_threshold_def split: if_splits)
qed

lemma add_sampled_cases:
  assumes "add_sampled_state_rule cat e c = (st, e')"
  obtains (unchanged) "e' = e" "st \<noteq> CfgOk"
  | (added) rc rel where "check_action e (ssc_action c) LevelOutput = CfgOk"
      "rc_well_typed cat CRead rc"
      "case rel of None \<Rightarrow> True | Some r \<Rightarrow> rc_well_typed cat CRead r \<and> releases rc r"
      "(st, e') = engine_add_polled e (PSampled (sampled_rule rc (ssc_action c) rel))"
proof (cases "check_action e (ssc_action c) LevelOutput = CfgOk")
  case False
  with assms show ?thesis by (intro unchanged) (auto simp: add_sampled_state_rule_def Let_def)
next
  case chk: True
  obtain s1 o1 where r1: "resolve_sampled_condition cat (ssc_condition c) (ssc_freshness c) = (s1, o1)"
    by (cases "resolve_sampled_condition cat (ssc_condition c) (ssc_freshness c)")
  show ?thesis
  proof (cases o1)
    case None
    with r1 resolve_through_status [of cat "ssc_condition c" "ssc_freshness c" CRead] assms chk
    show ?thesis by (intro unchanged) (auto simp: add_sampled_state_rule_def resolve_sampled_condition_def)
  next
    case (Some rc)
    note r1 = r1 [unfolded Some]
    note wt = resolve_through_well_typed [OF r1 [unfolded resolve_sampled_condition_def]]
    show ?thesis
    proof (cases "ssc_release_threshold c")
      case None
      with chk r1 wt assms show ?thesis
        by (intro added [of rc None]) (auto simp: add_sampled_state_rule_def)
    next
      case t: (Some t)
      show ?thesis
      proof (cases "has_valid_release_threshold (ssc_condition c) t")
        case False
        with chk r1 t assms show ?thesis
          by (intro unchanged) (auto simp: add_sampled_state_rule_def)
      next
        case True
        let ?c = "(ssc_condition c)\<lparr>sc_operand := ONumber t\<rparr>"
        obtain s2 o2 where r2: "resolve_sampled_condition cat ?c (ssc_freshness c) = (s2, o2)"
          by (cases "resolve_sampled_condition cat ?c (ssc_freshness c)")
        show ?thesis
        proof (cases o2)
          case None
          with r2 resolve_through_status [of cat ?c "ssc_freshness c" CRead] assms chk r1 t True
          show ?thesis by (intro unchanged) (auto simp: add_sampled_state_rule_def resolve_sampled_condition_def)
        next
          case (Some rel)
          note r2 = r2 [unfolded Some]
          note wt2 = resolve_through_well_typed [OF r2 [unfolded resolve_sampled_condition_def]]
          from resolved_release [OF r1 True r2] wt wt2 chk r1 r2 t True assms show ?thesis
            by (intro added [of rc "Some rel"]) (auto simp: add_sampled_state_rule_def)
        qed
      qed
    qed
  qed
qed

lemma engine_ok_add_sampled: 
  assumes "engine_ok cat e"
  shows "engine_ok cat (snd (add_sampled_state_rule cat e c))"
proof -
  obtain st e' where a: "add_sampled_state_rule cat e c = (st, e')" by (cases "add_sampled_state_rule cat e c")
  from a show ?thesis
  proof (cases rule: add_sampled_cases)
    case unchanged
    with a assms show ?thesis by simp
  next
    case (added rc rel)
    from added(1-3) have "engine_ok cat (snd (engine_add_polled e (PSampled (sampled_rule rc (ssc_action c) rel))))"
      by (intro engine_ok_add_polled assms)
         (auto simp: check_action_ok sampled_rule_def split: option.splits)
    with added(4) a show ?thesis by (metis snd_conv)
  qed
qed

text \<open>Rules change their runtime state only.\<close>

definition rule_frame :: "rule \<Rightarrow> action_id list \<times> action_id \<times> resolved_condition \<times> signal_id" where
  "rule_frame r = (rule_level r, rule_action r, rule_condition r, rule_signal r)"

lemma rule_frame_eqs [simp]:
  "rule_frame (snd (rule_step n r)) = rule_frame r" "rule_frame (rule_reset r) = rule_frame r"
  by (simp_all add: rule_frame_def)

lemma engine_ok_rules:
  assumes ok: "engine_ok cat e" and fr: "map rule_frame rs = map rule_frame (en_rules e)"
  shows "engine_ok cat (e\<lparr>en_rules := rs\<rparr>)"
proof -
  have len: "length rs = length (en_rules e)" using fr by (metis length_map)
  have lv: "map rule_level rs = map rule_level (en_rules e)"
    using arg_cong [OF fr, of "map fst"] by (simp add: rule_frame_def comp_def)
  have mem: "rule_frame ` set rs = rule_frame ` set (en_rules e)"
    using fr by (metis set_map)
  have sig: "rule_signal ` set rs = rule_signal ` set (en_rules e)"
    using arg_cong [OF mem, of "image (\<lambda>(_, _, _, s). s)"] by (simp add: image_image rule_frame_def)
  have "\<forall>r \<in> set rs. aid_valid (rule_action r) \<and> rc_well_typed cat CNotify (rule_condition r)"
  proof
    fix r assume "r \<in> set rs"
    with mem obtain r' where "r' \<in> set (en_rules e)" "rule_frame r = rule_frame r'"
      by (metis image_iff)
    with ok show "aid_valid (rule_action r) \<and> rc_well_typed cat CNotify (rule_condition r)"
      by (auto simp: rule_frame_def engine_ok_def)
  qed
  with ok len lv sig show ?thesis by (simp add: engine_ok_def level_actions_def)
qed

lemma engine_ok_polled:
  assumes "engine_ok cat e" and "map polled_action rs = map polled_action (en_polled e)"
    and "\<forall>r \<in> set rs. aid_valid (polled_action r) \<and> polled_ok cat r"
  shows "engine_ok cat (e\<lparr>en_polled := rs\<rparr>)"
proof -
  have "length rs = length (en_polled e)" using assms(2) by (metis length_map)
  with assms show ?thesis by (simp add: engine_ok_def level_actions_def)
qed

lemma engine_ok_sample:
  assumes "engine_ok cat e" and "sample_polled_rules reads e = (st, ds, e')"
  shows "engine_ok cat e'"
proof (cases "en_attached e")
  case True
  have "engine_ok cat (e\<lparr>en_polled := snd (sample_loop reads 0 (en_polled e))\<rparr>)"
    by (rule engine_ok_polled [OF assms(1)]) (use assms(1) in \<open>auto intro!: sample_loop_ok simp: engine_ok_def\<close>)
  with assms(2) True show ?thesis by (auto simp: sample_polled_rules_def split_beta)
qed (use assms in \<open>simp add: sample_polled_rules_def\<close>)

lemma engine_ok_notice:
  assumes "engine_ok cat e" and "on_notice e n = (ds, e')"
  shows "engine_ok cat e'"
proof -
  have "engine_ok cat (e\<lparr>en_rules := map (\<lambda>r. snd (rule_step n r)) (en_rules e)\<rparr>)"
    by (rule engine_ok_rules [OF assms(1)]) (simp add: comp_def)
  with assms(2) show ?thesis by (auto simp: on_notice_def rule_set_dispatch_eq)
qed

lemma engine_ok_reset_rules: "engine_ok cat e \<Longrightarrow> engine_ok cat (reset_rules e)"
  unfolding reset_rules_def rule_set_reset_def polled_set_reset_def
  using engine_ok_polled [OF engine_ok_rules, of cat e "map rule_reset (en_rules e)"
      "map polled_reset (en_polled e)"]
  by (simp add: comp_def engine_ok_def)

lemma engine_ok_apply:
  assumes "engine_ok cat e" and "engine_apply cat op e = (e', ds)"
  shows "engine_ok cat e'"
proof (cases op)
  case (OpSample reads)
  with assms show ?thesis by (auto split: prod.splits intro: engine_ok_sample)
next
  case (OpNotice n)
  with assms show ?thesis by (auto split: prod.splits intro: engine_ok_notice)
qed (use assms engine_ok_add_sink engine_ok_clear engine_ok_add_state engine_ok_add_event
    engine_ok_add_range engine_ok_add_sampled in auto)

section \<open>Registrations\<close>

definition honest_port :: "'p port \<Rightarrow> bool" where
  "honest_port P = (\<forall>p s cb. rs_status (fst (port_subscribe P p s cb)) = SOk \<longrightarrow>
     rs_value (fst (port_subscribe P p s cb)) \<noteq> None)"

definition subs_signals :: "registration list \<Rightarrow> signal_id set" where
  "subs_signals rs = fst ` set rs"

lemma subs_subscribe_signals:
  assumes "subs_subscribe P cb s rs p = (st, rs', p')" and "distinct (map fst rs)"
  shows "distinct (map fst rs') \<and> subs_signals rs \<subseteq> subs_signals rs' \<and> subs_signals rs' \<subseteq> insert s (subs_signals rs)
    \<and> (honest_port P \<and> st = SOk \<longrightarrow> s \<in> subs_signals rs')"
proof (cases "subs_contains rs s \<or> length rs = subscription_capacity")
  case True
  with assms show ?thesis
    by (auto simp: subs_subscribe_def subs_contains_def list_ex_iff subs_signals_def split: if_splits)
next
  case False
  obtain r p1 where u: "port_subscribe P p s cb = (r, p1)" by (cases "port_subscribe P p s cb")
  then have "honest_port P \<Longrightarrow> rs_status r = SOk \<Longrightarrow> rs_value r \<noteq> None"
    unfolding honest_port_def by (metis fst_conv)
  moreover from False have "s \<notin> subs_signals rs"
    by (auto simp: subs_contains_def list_ex_iff subs_signals_def)
  ultimately show ?thesis
    using assms False u by (auto simp: subs_subscribe_def rs_ok_def subs_signals_def split: if_splits)
qed

lemma attach_loop_signals:
  assumes "attach_loop P cb ss rs p = (st, rs', p')" and "distinct (map fst rs)"
  shows "distinct (map fst rs') \<and> subs_signals rs \<subseteq> subs_signals rs' \<and> subs_signals rs' \<subseteq> set ss \<union> subs_signals rs
    \<and> (honest_port P \<and> st = SOk \<longrightarrow> set ss \<subseteq> subs_signals rs')"
  using assms
proof (induction ss arbitrary: rs p)
  case (Cons s ss)
  obtain st1 rs1 p1 where u: "subs_subscribe P cb s rs p = (st1, rs1, p1)" by (metis prod_cases3)
  note one = subs_subscribe_signals [OF u Cons.prems(2)]
  show ?case
  proof (cases "st1 = SOk")
    case True
    with Cons.prems(1) u have "attach_loop P cb ss rs1 p1 = (st, rs', p')" by simp
    from Cons.IH [OF this] one True show ?thesis by (auto; blast)
  next
    case False
    with Cons.prems(1) u have "st = st1" "rs' = rs1" by auto
    with one False show ?thesis by auto
  qed
qed simp

lemma unsubscribe_newest_suffix:
  "unsubscribe_newest P rs p = (st, rest, p') \<Longrightarrow>
     (\<exists>gone. rs = gone @ rest) \<and> (st = SOk \<longleftrightarrow> rest = [])"
proof (induction rs arbitrary: p)
  case (Cons r rs)
  then show ?case
    by (auto split: prod.splits if_splits) (metis append_Cons)
qed simp

lemma subs_unsubscribe_all_prefix:
  assumes "subs_unsubscribe_all P rs p = (st, rs', p')"
  shows "\<exists>gone. rs = rs' @ gone" "st = SOk \<longleftrightarrow> rs' = []"
proof -
  obtain rest where u: "unsubscribe_newest P (rev rs) p = (st, rest, p')" and rs': "rs' = rev rest"
    using assms by (auto simp: subs_unsubscribe_all_def split: prod.splits)
  from unsubscribe_newest_suffix [OF u] obtain gone where "rev rs = gone @ rest" "st = SOk \<longleftrightarrow> rest = []"
    by blast
  then show "\<exists>gone. rs = rs' @ gone" "st = SOk \<longleftrightarrow> rs' = []"
    using rs' by (metis rev_append rev_rev_ident, simp)
qed

lemma engine_ok_subs:
  assumes "engine_ok cat e" and "distinct (map fst rs)" and "subs_signals rs \<subseteq> rule_signal ` set (en_rules e)"
    and "\<not> b \<longrightarrow> rs = []"
  shows "engine_ok cat (e\<lparr>en_subs := rs, en_attached := b\<rparr>)"
  using assms by (simp add: engine_ok_def level_actions_def subs_signals_def)

lemma engine_ok_prefix:
  assumes "engine_ok cat (e\<lparr>en_subs := rs @ gone, en_attached := True\<rparr>)" and "\<not> b \<longrightarrow> rs = []"
  shows "engine_ok cat (e\<lparr>en_subs := rs, en_attached := b\<rparr>)"
  using assms by (auto simp: engine_ok_def level_actions_def)

lemma engine_ok_attach:
  assumes ok: "engine_ok cat e" and at: "attach P e p = (st, e', p')"
  shows "engine_ok cat e'"
proof (cases "en_attached e")
  case True
  with ok at show ?thesis by (simp add: attach_def)
next
  case False
  let ?e = "reset_rules e"
  have ok1: "engine_ok cat ?e" by (rule engine_ok_reset_rules [OF ok])
  have nil: "en_subs ?e = []" using ok False by (simp add: engine_ok_def reset_rules_def)
  obtain st1 rs1 p1 where l: "attach_loop P on_notice_callback (map rule_signal (en_rules ?e)) (en_subs ?e) p = (st1, rs1, p1)"
    by (metis prod_cases3)
  from attach_loop_signals [OF l] have s: "distinct (map fst rs1)" "subs_signals rs1 \<subseteq> rule_signal ` set (en_rules ?e)"
    by (auto simp: nil subs_signals_def)
  have ok2: "engine_ok cat (?e\<lparr>en_subs := rs1, en_attached := True\<rparr>)"
    by (rule engine_ok_subs [OF ok1 s]) simp
  obtain st2 rs2 p2 where u: "subs_unsubscribe_all P rs1 p1 = (st2, rs2, p2)" by (metis prod_cases3)
  note pre = subs_unsubscribe_all_prefix [OF u]
  from pre(1) obtain gone where "rs1 = rs2 @ gone" by blast
  with engine_ok_prefix [where cat = cat and e = ?e and rs = rs2 and gone = gone and b = "st2 \<noteq> SOk"] ok2 pre(2)
  have "engine_ok cat (?e\<lparr>en_subs := rs2, en_attached := st2 \<noteq> SOk\<rparr>)" by simp
  with ok2 at False l u show ?thesis by (auto simp: attach_def Let_def split: if_splits)
qed

lemma engine_ok_detach:
  assumes ok: "engine_ok cat e" and at: "detach P e p = (st, e', p')"
  shows "engine_ok cat e'"
proof (cases "en_attached e")
  case False
  with ok at show ?thesis by (simp add: detach_def)
next
  case True
  obtain st2 rs2 p2 where u: "subs_unsubscribe_all P (en_subs e) p = (st2, rs2, p2)" by (metis prod_cases3)
  note pre = subs_unsubscribe_all_prefix [OF u]
  from pre(1) obtain gone where "en_subs e = rs2 @ gone" by blast
  with True have "e = e\<lparr>en_subs := rs2 @ gone, en_attached := True\<rparr>" by simp
  with engine_ok_prefix [where cat = cat and e = e and rs = rs2 and gone = gone and b = "st2 \<noteq> SOk"] ok pre(2)
  have "engine_ok cat (e\<lparr>en_subs := rs2, en_attached := st2 \<noteq> SOk\<rparr>)" by simp
  with at True u show ?thesis by (auto simp: detach_def)
qed

lemma engine_reach_ok:
  assumes "engine_reach P cat (e, p, tr)"
  shows "engine_ok cat e"
proof -
  have "(\<lambda>(e, p, tr). engine_ok cat e) (e, p, tr)"
    by (rule engine_reach_invariant [OF assms])
       (auto intro: engine_ok_apply engine_ok_attach engine_ok_detach)
  then show ?thesis by simp
qed

section \<open>What the sinks have been told\<close>

definition sink_commands :: "nat \<Rightarrow> delivery list \<Rightarrow> action_command list" where
  "sink_commands s tr = map snd (filter (\<lambda>d. fst d = s) tr)"

definition level_cmds :: "action_id \<Rightarrow> action_command list \<Rightarrow> action_command list" where
  "level_cmds a cs = filter (\<lambda>c. ac_action c = a \<and> ac_kind c \<noteq> Trigger) cs"

definition level_view :: "action_command list \<Rightarrow> action_id \<Rightarrow> action_command option" where
  "level_view cs a = (if level_cmds a cs = [] then None else Some (last (level_cmds a cs)))"

lemma level_cmds_append [simp]:
  "level_cmds a [] = []" "level_cmds a (cs @ ds) = level_cmds a cs @ level_cmds a ds"
  "level_cmds a (c # cs) = (if ac_action c = a \<and> ac_kind c \<noteq> Trigger then c # level_cmds a cs else level_cmds a cs)"
  by (simp_all add: level_cmds_def)

lemma level_view_append:
  "level_view (cs @ ds) a = (if level_cmds a ds = [] then level_view cs a else Some (last (level_cmds a ds)))"
  by (simp add: level_view_def)

lemma level_view_cong: "level_cmds a ds = level_cmds a ds' \<Longrightarrow> level_view (cs @ ds) a = level_view (cs @ ds') a"
  by (simp add: level_view_append)

lemma sink_commands_append [simp]: "sink_commands s (tr @ ds) = sink_commands s tr @ sink_commands s ds"
  by (simp add: sink_commands_def)

lemma sink_commands_execute:
  "distinct ss \<Longrightarrow> sink_commands s (sinks_execute ss c) = (if s \<in> set ss then [c] else [])"
  by (induction ss) (auto simp: sink_commands_def sinks_execute_def)

lemma sink_commands_deliver:
  "distinct ss \<Longrightarrow> s \<in> set ss \<Longrightarrow> sink_commands s (deliver_all ss cs) = cs"
  by (induction cs) (auto simp: deliver_all_def sink_commands_execute sink_commands_def [of _ "[]"])

definition on_off :: "action_id \<Rightarrow> bool \<Rightarrow> action_command" where
  "on_off a b = command a (if b then Activate else Deactivate)"

fun rule_told :: "rule \<Rightarrow> action_command option" where
  "rule_told (RState r) = map_option (on_off (sr_action r)) (sr_last r)"
| "rule_told (REvent r) = None"

fun polled_told :: "polled_rule \<Rightarrow> action_command option" where
  "polled_told (PRange r) = rr_last r"
| "polled_told (PSampled r) = map_option (on_off (ss_action r)) (ss_last r)"

text \<open>Every sink's latest level command of a level action is the one its driving rule remembers.\<close>

definition told_ok :: "engine \<Rightarrow> delivery list \<Rightarrow> bool" where
  "told_ok e tr \<longleftrightarrow> (\<forall>s \<in> set (en_sinks e).
     (\<forall>r \<in> set (en_rules e). \<forall>a \<in> set (rule_level r). level_view (sink_commands s tr) a = rule_told r)
     \<and> (\<forall>r \<in> set (en_polled e). level_view (sink_commands s tr) (polled_action r) = polled_told r))"

lemma rule_step_other: "a \<notin> set (rule_level r) \<Longrightarrow> level_cmds a (opt_list (fst (rule_step n r))) = []"
  by (cases r) (auto simp: rule_step_def state_rule_on_notice_def event_rule_on_notice_def opt_list_def Let_def)

lemma rule_step_told:
  assumes "a \<in> set (rule_level r)" and "level_view cs a = rule_told r"
  shows "level_view (cs @ opt_list (fst (rule_step n r))) a = rule_told (snd (rule_step n r))"
  using assms
  by (cases r) (auto simp: rule_step_def state_rule_on_notice_def opt_list_def Let_def level_view_append on_off_def)

lemma polled_other: "a \<noteq> polled_action r \<Longrightarrow> level_cmds a (opt_list (fst (polled_on_sample r read))) = []"
  by (cases r) (auto simp: range_rule_on_sample_def range_rule_command_def sampled_rule_on_sample_def opt_list_def
      Let_def split: option.splits)

lemma range_rule_command_simps [simp]:
  "ac_action (range_rule_command r read) = rr_action r" "ac_kind (range_rule_command r read) \<noteq> Trigger"
  by (auto simp: range_rule_command_def split: option.splits)

lemma polled_step_told:
  assumes "level_view cs (polled_action r) = polled_told r"
  shows "level_view (cs @ opt_list (fst (polled_on_sample r read))) (polled_action r)
           = polled_told (snd (polled_on_sample r read))"
  using assms
  by (cases r) (auto simp: range_rule_on_sample_def sampled_rule_on_sample_def opt_list_def Let_def
      level_view_append on_off_def)

text \<open>With one driver per level action, only the driver's commands count.\<close>

lemma level_cmds_driver:
  assumes "distinct (concat (map lv xs))" and "x \<in> set xs" and "a \<in> set (lv x)"
    and "\<And>y. a \<notin> set (lv y) \<Longrightarrow> level_cmds a (f y) = []"
  shows "level_cmds a (concat (map f xs)) = level_cmds a (f x)"
  using assms
proof (induction xs)
  case (Cons y ys)
  have none: "level_cmds a (concat (map f zs)) = []" if "a \<notin> set (concat (map lv zs))" for zs
    using that by (induction zs) (auto simp: assms(4))
  show ?case
  proof (cases "x = y")
    case True
    with Cons.prems none [of ys] show ?thesis by auto
  next
    case False
    with Cons show ?thesis by auto
  qed
qed simp

lemma level_cmds_nondriver:
  assumes "a \<notin> set (concat (map lv xs))" and "\<And>y. a \<notin> set (lv y) \<Longrightarrow> level_cmds a (f y) = []"
  shows "level_cmds a (concat (map f xs)) = []"
  using assms by (induction xs) auto

lemma sample_loop_commands:
  "fst (sample_loop reads k rs) = concat (map (\<lambda>i. opt_list (fst (polled_on_sample (rs ! i)
      (reads (k + i) (polled_signal (rs ! i)))))) [0..<length rs])"
proof (induction rs arbitrary: k)
  case (Cons r rs)
  have "[0..<length (r # rs)] = 0 # map Suc [0..<length rs]" using upt_conv_Cons [of 0 "length (r # rs)"] by (simp add: map_Suc_upt del: upt_Suc)
  with Cons [of "Suc k"] show ?case by (simp add: split_beta Let_def comp_def)
qed simp

section \<open>Delivery keeps the sinks' view\<close>

lemma told_ok_notice:
  assumes ok: "engine_ok cat e" and told: "told_ok e tr" and n: "on_notice e n = (ds, e')"
  shows "told_ok e' (tr @ ds)"
proof -
  let ?f = "\<lambda>r. opt_list (fst (rule_step n r))"
  have e': "e' = e\<lparr>en_rules := map (\<lambda>r. snd (rule_step n r)) (en_rules e)\<rparr>"
    and ds: "ds = deliver_all (en_sinks e) (concat (map ?f (en_rules e)))"
    using n by (simp_all add: on_notice_def rule_set_dispatch_eq)
  have dis: "distinct (concat (map rule_level (en_rules e)))" "distinct (en_sinks e)"
    and polled: "\<And>r. r \<in> set (en_polled e) \<Longrightarrow> polled_action r \<notin> set (concat (map rule_level (en_rules e)))"
    using ok by (auto simp: engine_ok_def level_actions_def)
  show ?thesis unfolding told_ok_def
  proof (intro ballI conjI)
    fix s r a assume s: "s \<in> set (en_sinks e')" and r: "r \<in> set (en_rules e')" and a: "a \<in> set (rule_level r)"
    from r obtain r0 where r0: "r0 \<in> set (en_rules e)" "r = snd (rule_step n r0)" by (auto simp: e')
    have cmds: "sink_commands s (tr @ ds) = sink_commands s tr @ concat (map ?f (en_rules e))"
      using s dis(2) by (simp add: e' ds sink_commands_deliver)
    have "level_view (sink_commands s (tr @ ds)) a = level_view (sink_commands s tr @ ?f r0) a"
      unfolding cmds
      by (intro level_view_cong level_cmds_driver [OF dis(1) r0(1)]) (use a r0 rule_step_other in auto)
    also have "\<dots> = rule_told r"
      unfolding r0(2) using a r0 told s by (intro rule_step_told) (auto simp: told_ok_def e')
    finally show "level_view (sink_commands s (tr @ ds)) a = rule_told r" .
  next
    fix s r assume s: "s \<in> set (en_sinks e')" and r: "r \<in> set (en_polled e')"
    have cmds: "sink_commands s (tr @ ds) = sink_commands s tr @ concat (map ?f (en_rules e))"
      using s dis(2) by (simp add: e' ds sink_commands_deliver)
    have "level_cmds (polled_action r) (concat (map ?f (en_rules e))) = []"
      by (rule level_cmds_nondriver [where lv = rule_level]) (use polled [of r] r rule_step_other in \<open>auto simp: e'\<close>)
    then show "level_view (sink_commands s (tr @ ds)) (polled_action r) = polled_told r"
      using told s r unfolding cmds by (simp add: level_view_append told_ok_def e')
  qed
qed

lemma concat_singletons: "concat (map (\<lambda>i. [g i]) js) = map g js"
  by (induction js) auto

lemma concat_singletons_nth: "concat (map (\<lambda>i. [f (xs ! i)]) [0..<length xs]) = map f xs"
proof -
  have "map (\<lambda>i. f (xs ! i)) [0..<length xs] = map f (map (nth xs) [0..<length xs])" by (simp add: comp_def)
  with concat_singletons [of "\<lambda>i. f (xs ! i)"] show ?thesis by (simp only: map_nth)
qed

lemma told_ok_sample:
  assumes ok: "engine_ok cat e" and told: "told_ok e tr" and n: "sample_polled_rules reads e = (st, ds, e')"
  shows "told_ok e' (tr @ ds)"
proof (cases "en_attached e")
  case False
  with n told show ?thesis by (simp add: sample_polled_rules_def)
next
  case True
  let ?rs = "en_polled e"
  let ?read = "\<lambda>i. reads i (polled_signal (?rs ! i))"
  let ?f = "\<lambda>i. opt_list (fst (polled_on_sample (?rs ! i) (?read i)))"
  let ?lv = "\<lambda>i. [polled_action (?rs ! i)]"
  let ?cs = "concat (map ?f [0..<length ?rs])"
  have e': "e' = e\<lparr>en_polled := snd (sample_loop reads 0 ?rs)\<rparr>" and ds: "ds = deliver_all (en_sinks e) ?cs"
    using n True sample_loop_commands [of reads 0 ?rs] by (auto simp: sample_polled_rules_def split_beta)
  have "concat (map ?lv [0..<length ?rs]) = map polled_action ?rs"
    by (rule concat_singletons_nth)
  then have dis: "distinct (concat (map ?lv [0..<length ?rs]))" "distinct (en_sinks e)"
    and level: "\<And>r a. r \<in> set (en_rules e) \<Longrightarrow> a \<in> set (rule_level r) \<Longrightarrow> a \<notin> set (concat (map ?lv [0..<length ?rs]))"
    using ok by (auto simp: engine_ok_def level_actions_def)
  show ?thesis unfolding told_ok_def
  proof (intro ballI conjI)
    fix s r a assume s: "s \<in> set (en_sinks e')" and r: "r \<in> set (en_rules e')" and a: "a \<in> set (rule_level r)"
    have cmds: "sink_commands s (tr @ ds) = sink_commands s tr @ ?cs"
      using s dis(2) by (simp add: e' ds sink_commands_deliver)
    have "level_cmds a ?cs = []"
      by (rule level_cmds_nondriver [where lv = ?lv]) (use level [of r a] r a polled_other in \<open>auto simp: e'\<close>)
    then show "level_view (sink_commands s (tr @ ds)) a = rule_told r"
      using told s r a unfolding cmds by (simp add: level_view_append told_ok_def e')
  next
    fix s r assume s: "s \<in> set (en_sinks e')" and r: "r \<in> set (en_polled e')"
    from r obtain i where i: "i < length ?rs" "r = snd (polled_on_sample (?rs ! i) (?read i))"
      by (auto simp: e' in_set_conv_nth sample_loop_nth)
    have cmds: "sink_commands s (tr @ ds) = sink_commands s tr @ ?cs"
      using s dis(2) by (simp add: e' ds sink_commands_deliver)
    have "level_view (sink_commands s (tr @ ds)) (polled_action r) =
        level_view (sink_commands s tr @ ?f i) (polled_action (?rs ! i))"
      unfolding cmds i(2) polled_on_sample_frame
      by (intro level_view_cong level_cmds_driver [OF dis(1)]) (use i(1) polled_other in auto)
    also have "\<dots> = polled_told r"
      unfolding i(2) using i(1) told s by (intro polled_step_told) (auto simp: told_ok_def e')
    finally show "level_view (sink_commands s (tr @ ds)) (polled_action r) = polled_told r" .
  qed
qed

lemma attached_setup_refused:
  assumes "en_attached e"
  shows "add_sink e s = (CfgInvalidState, e)" "clear e = (CfgInvalidState, e)"
    "add_state_rule cat e c1 = (CfgInvalidState, e)" "add_event_rule cat e c2 = (CfgInvalidState, e)"
    "add_range_rule cat e c3 = (CfgInvalidState, e)" "add_sampled_state_rule cat e c4 = (CfgInvalidState, e)"
  using assms
  by (simp_all add: add_sink_def clear_def add_state_rule_def add_event_rule_def add_range_rule_def
      add_sampled_state_rule_def resolve_rule_def check_action_def Let_def)

lemma apply_attached [simp]:
  assumes "engine_apply cat op e = (e', ds)"
  shows "en_attached e' = en_attached e"
proof (cases "en_attached e")
  case True
  with assms show ?thesis
    by (cases op) (auto simp: attached_setup_refused sample_polled_rules_def on_notice_def split: prod.splits)
next
  case False
  with assms show ?thesis
    by (cases op) (auto simp: add_sink_def clear_def add_state_rule_def add_event_rule_def add_range_rule_def
      add_sampled_state_rule_def engine_add_rule_def engine_add_polled_def sample_polled_rules_def on_notice_def
      Let_def split: prod.splits option.splits if_splits)
qed

lemma told_ok_apply:
  assumes "engine_ok cat e" "en_attached e" "told_ok e tr" and op: "engine_apply cat op e = (e', ds)"
  shows "told_ok e' (tr @ ds)"
  using assms told_ok_notice [OF assms(1,3)] told_ok_sample [OF assms(1,3)]
  by (cases op) (auto simp: attached_setup_refused split: prod.splits)

lemma told_ok_reset: "told_ok (reset_rules e\<lparr>en_subs := rs, en_attached := b\<rparr>) []"
proof -
  have "rule_told (rule_reset r) = None" for r by (cases r) auto
  moreover have "polled_told (polled_reset r) = None" for r by (cases r) auto
  ultimately show ?thesis
    by (simp add: told_ok_def reset_rules_def rule_set_reset_def polled_set_reset_def sink_commands_def level_view_def)
qed

lemma told_ok_attach:
  assumes "\<not> en_attached e" and "attach P e p = (st, e', p')"
  shows "told_ok e' []"
  using assms told_ok_reset [where e = e] by (auto simp: attach_def Let_def split: prod.splits if_splits)

lemma told_ok_detach:
  assumes "told_ok e tr" and "detach P e p = (st, e', p')"
  shows "told_ok e' tr"
  using assms by (auto simp: detach_def told_ok_def split: prod.splits if_splits)

lemma told_ok_detach_attached: "detach P e p = (st, e', p') \<Longrightarrow> en_attached e' \<Longrightarrow> en_attached e"
  by (auto simp: detach_def split: prod.splits if_splits)

lemma engine_reach_told:
  assumes "engine_reach P cat (e, p, tr)"
  shows "engine_ok cat e \<and> (en_attached e \<longrightarrow> told_ok e tr)"
proof -
  have "(\<lambda>(e, p, tr). engine_ok cat e \<and> (en_attached e \<longrightarrow> told_ok e tr)) (e, p, tr)"
  proof (rule engine_reach_invariant [OF assms])
    show "case (engine_new, p, []) of (e, p, tr) \<Rightarrow> engine_ok cat e \<and> (en_attached e \<longrightarrow> told_ok e tr)" for p
      by (simp add: engine_new_def [THEN arg_cong [where f = en_attached]])
  next
    fix e p tr op e' ds
    assume "case (e, p, tr) of (e, p, tr) \<Rightarrow> engine_ok cat e \<and> (en_attached e \<longrightarrow> told_ok e tr)"
      and "engine_apply cat op e = (e', ds)"
    then show "case (e', p, tr @ ds) of (e, p, tr) \<Rightarrow> engine_ok cat e \<and> (en_attached e \<longrightarrow> told_ok e tr)"
      by (auto intro: engine_ok_apply told_ok_apply)
  qed (auto intro: engine_ok_attach engine_ok_detach told_ok_attach told_ok_detach dest: told_ok_detach_attached)
  then show ?thesis by simp
qed

end
