(* ===== verification/Engine_Properties.thy ===== *)
theory Engine_Properties
  imports Engine_Reach
begin

text \<open>
  The properties of the action engine over its histories, of its rules over sequences of
  readings, and of its configuration calls, with a small concrete engine they are applied to.
\<close>

section \<open>A concrete history\<close>

text \<open>A provider that grants every subscription; its state counts them.\<close>

definition sample_port :: "nat port" where
  "sample_port = \<lparr>port_catalog = (\<lambda>_. sample_catalog), port_read = (\<lambda>_ _. rs_failure Timeout),
     port_subscribe = (\<lambda>n s cb. (rs_success (of_nat (Suc n)), Suc n)),
     port_unsubscribe = (\<lambda>n t. (SOk, n))\<rparr>"

definition sample_condition :: signal_condition where
  "sample_condition = \<lparr>sc_key = ''rpm'', sc_comparison = CmpGreater, sc_operand = ONumber 0x3F800000\<rparr>"

definition sample_state_config :: state_rule_config where
  "sample_state_config = \<lparr>src_condition = sample_condition, src_action = ActionId 3, src_freshness = ReqFresh\<rparr>"

definition sample_resolved :: resolved_condition where
  "sample_resolved = \<lparr>rc_signal = SignalId 1, rc_operand = VNumber 0x3F800000, rc_comparison = CmpGreater,
     rc_freshness = ReqFresh\<rparr>"

definition sample_state_rule :: state_rule where
  "sample_state_rule = \<lparr>sr_condition = sample_resolved, sr_action = ActionId 3, sr_last = None\<rparr>"

definition sample_engine :: engine where
  "sample_engine = \<lparr>en_sinks = [5], en_rules = [RState sample_state_rule],
     en_polled = [PRange sample_range_rule], en_subs = [(SignalId 1, 1)], en_attached = True\<rparr>"

lemma sample_setup:
  "engine_apply sample_catalog (OpAddSink 5) engine_new = (engine_new\<lparr>en_sinks := [5]\<rparr>, [])"
  "engine_apply sample_catalog (OpAddState sample_state_config) (engine_new\<lparr>en_sinks := [5]\<rparr>)
     = (engine_new\<lparr>en_sinks := [5], en_rules := [RState sample_state_rule]\<rparr>, [])"
  "engine_apply sample_catalog (OpAddRange sample_range_config)
       (engine_new\<lparr>en_sinks := [5], en_rules := [RState sample_state_rule]\<rparr>)
     = (engine_new\<lparr>en_sinks := [5], en_rules := [RState sample_state_rule], en_polled := [PRange sample_range_rule]\<rparr>, [])"
proof -
  show "engine_apply sample_catalog (OpAddSink 5) engine_new = (engine_new\<lparr>en_sinks := [5]\<rparr>, [])"
    by (simp add: add_sink_def engine_new_def sinks_add_def sink_capacity_def)
  have "f32_isfinite 0x3F800000" by (rule sample_values)
  then have "resolve_condition sample_catalog sample_condition ReqFresh = (CfgOk, Some sample_resolved)"
    by (simp add: resolve_condition_def resolve_through_def sample_catalog_def sample_condition_def
        catalog_find_key_def caps_has_def is_ordered_def resolve_operand_def sample_resolved_def Let_def)
  then show "engine_apply sample_catalog (OpAddState sample_state_config) (engine_new\<lparr>en_sinks := [5]\<rparr>)
     = (engine_new\<lparr>en_sinks := [5], en_rules := [RState sample_state_rule]\<rparr>, [])"
    by (simp add: add_state_rule_def resolve_rule_def check_action_ok level_actions_def engine_new_def aid_valid_def
        sample_state_config_def engine_add_rule_def rule_set_add_def rule_set_capacity_def sample_state_rule_def Let_def)
  show "engine_apply sample_catalog (OpAddRange sample_range_config)
       (engine_new\<lparr>en_sinks := [5], en_rules := [RState sample_state_rule]\<rparr>)
     = (engine_new\<lparr>en_sinks := [5], en_rules := [RState sample_state_rule], en_polled := [PRange sample_range_rule]\<rparr>, [])"
    by (simp add: add_range_rule_def check_action_ok level_actions_def engine_new_def aid_valid_def Let_def
        sample_range_resolves sample_range_config_def [THEN arg_cong [where f = rrc_action]] sample_state_rule_def
        engine_add_polled_def polled_set_add_def polled_set_capacity_def)
qed

lemma sample_attach:
  "attach sample_port (engine_new\<lparr>en_sinks := [5], en_rules := [RState sample_state_rule],
      en_polled := [PRange sample_range_rule]\<rparr>) 0 = (SOk, sample_engine, 1)"
  by (simp add: attach_def engine_new_def reset_rules_def rule_set_reset_def polled_set_reset_def Let_def
      sample_state_rule_def sample_range_rule_def subs_subscribe_def subs_contains_def sample_port_def
      subscription_capacity_def rule_set_capacity_def sample_engine_def sample_resolved_def
      rs_success_def rs_ok_def)

lemma sample_reach: "engine_reach sample_port sample_catalog (sample_engine, 1, [])"
proof -
  have 0: "engine_reach sample_port sample_catalog (engine_new, 0, [])" by (rule engine_reach.Start)
  have 1: "engine_reach sample_port sample_catalog (engine_new\<lparr>en_sinks := [5]\<rparr>, 0, [])"
    using engine_reach.Step [OF 0 engine_step.Operation [OF sample_setup(1)]] by simp
  have 2: "engine_reach sample_port sample_catalog (engine_new\<lparr>en_sinks := [5], en_rules := [RState sample_state_rule]\<rparr>, 0, [])"
    using engine_reach.Step [OF 1 engine_step.Operation [OF sample_setup(2)]] by simp
  have 3: "engine_reach sample_port sample_catalog (engine_new\<lparr>en_sinks := [5], en_rules := [RState sample_state_rule],
      en_polled := [PRange sample_range_rule]\<rparr>, 0, [])"
    using engine_reach.Step [OF 2 engine_step.Operation [OF sample_setup(3)]] by simp
  show ?thesis
    by (rule engine_reach.Step [OF 3 engine_step.Attach [OF _ sample_attach]]) (simp add: engine_new_def)
qed

text \<open>A fresh reading of \<open>2.0F\<close>, above the sample rule's threshold.\<close>

definition sample_notice :: signal_notification where
  "sample_notice = \<lparr>nt_id = SignalId 1,
     nt_current = \<lparr>rd_value = Some (VNumber 0x40000000), rd_availability = Fresh, rd_validation = Confirmed\<rparr>,
     nt_initial = True, nt_became_unavailable = False, nt_recovered = False, nt_coalesced = False\<rparr>"

lemma sample_notice_holds: "rc_evaluate sample_resolved (nt_current sample_notice) = Some True"
proof -
  have "f32_isfinite 0x40000000" "f32_lt 0x3F800000 0x40000000" by (simp_all add: f32_compare_eval)
  then show ?thesis
    by (simp add: rc_evaluate_def actionable_value_def sample_resolved_def sample_notice_def meets_def rc_holds_def)
qed

section \<open>Histories\<close>

text \<open>
  C15: The engine's bounds and ownership rules survive every history of configuration, attach,
  detach, notices and sampling, whatever the provider answers: never more sinks, rules or polled
  rules than the fixed capacities, each sink once, each level action driven by at most one rule,
  only valid action ids, conditions that the catalog types, one registration per distinct signal
  of a rule, and no registration at all while detached.
\<close>

theorem engine_history_invariant:
  assumes "engine_reach P cat (e, p, tr)"
  shows "length (en_sinks e) \<le> 4 \<and> distinct (en_sinks e) \<and> length (en_rules e) \<le> 16 \<and> length (en_polled e) \<le> 8
    \<and> distinct (level_actions e) \<and> 0 \<notin> aid_value ` (rule_action ` set (en_rules e) \<union> polled_action ` set (en_polled e))
    \<and> (\<forall>r \<in> set (en_rules e). rc_well_typed cat CNotify (rule_condition r))
    \<and> (\<forall>r \<in> set (en_polled e). polled_ok cat r)
    \<and> distinct (map fst (en_subs e)) \<and> fst ` set (en_subs e) \<subseteq> rule_signal ` set (en_rules e)
    \<and> (\<not> en_attached e \<longrightarrow> en_subs e = [])"
  using engine_reach_ok [OF assms]
  by (auto simp: engine_ok_def sink_capacity_def rule_set_capacity_def polled_set_capacity_def aid_valid_def)

lemma engine_history_invariant_witness:
  "distinct (level_actions sample_engine) \<and> distinct (map fst (en_subs sample_engine))"
  using engine_history_invariant [OF sample_reach] by simp

text \<open>
  C1: What every sink has last been told of a level action is what the one rule that drives it
  remembers, at any point of any history while the engine is attached: a state or sampled rule
  that remembers on (off) has Activate (Deactivate) as the sink's latest level command of its
  action since the attach, a range rule the command it last sent, and a rule that has sent nothing
  has told the sink nothing.
\<close>

theorem sinks_follow_rules:
  assumes "engine_reach P cat (e, p, tr)" and "en_attached e" and "s \<in> set (en_sinks e)"
  shows "(\<forall>r. RState r \<in> set (en_rules e) \<longrightarrow>
        level_view (sink_commands s tr) (sr_action r) = map_option (on_off (sr_action r)) (sr_last r))
    \<and> (\<forall>r. PSampled r \<in> set (en_polled e) \<longrightarrow>
        level_view (sink_commands s tr) (ss_action r) = map_option (on_off (ss_action r)) (ss_last r))
    \<and> (\<forall>r. PRange r \<in> set (en_polled e) \<longrightarrow> level_view (sink_commands s tr) (rr_action r) = rr_last r)"
  using engine_reach_told [OF assms(1)] assms(2,3) unfolding told_ok_def by fastforce

lemma sinks_follow_rules_witness:
  "level_view (sink_commands 5 []) (ActionId 3) = None"
  using sinks_follow_rules [OF sample_reach, of 5]
  by (auto simp: sample_engine_def sample_state_rule_def)

text \<open>
  C19: A notice leaves every state rule on its signal in agreement with the notified reading at
  every sink: after delivery the sink's latest level command of the rule's action is Activate when
  the condition holds of an actionable reading, and Deactivate when it does not hold or when the
  reading is unavailable, stale, rejected by the rule's freshness requirement, mistyped or not
  finite.
\<close>

theorem notice_settles_state_rules:
  assumes "engine_reach P cat (e, p, tr)" and "en_attached e" and "s \<in> set (en_sinks e)"
    and "RState r \<in> set (en_rules e)" and "rc_signal (sr_condition r) = nt_id n"
    and "on_notice e n = (ds, e')"
  shows "level_view (sink_commands s (tr @ ds)) (sr_action r) =
     Some (command (sr_action r)
       (if rc_evaluate (sr_condition r) (nt_current n) = Some True then Activate else Deactivate))"
proof -
  let ?r = "snd (state_rule_on_notice r n)"
  from engine_reach_told [OF assms(1)] assms(2) have ok: "engine_ok cat e" "told_ok e tr" by auto
  have "RState ?r \<in> set (en_rules e')"
    using assms(4-6) by (force simp: on_notice_def rule_set_dispatch_eq rule_step_def split_beta)
  moreover have "s \<in> set (en_sinks e')" using assms(3,6) by (auto simp: on_notice_def split: prod.splits)
  ultimately have "level_view (sink_commands s (tr @ ds)) (sr_action r) = rule_told (RState ?r)"
    using told_ok_notice [OF ok assms(6)] by (fastforce simp: told_ok_def)
  then show ?thesis
    by (cases "rc_evaluate (sr_condition r) (nt_current n)") (auto simp: on_off_def state_rule_output_def)
qed

lemma notice_settles_state_rules_witness:
  "level_view (sink_commands 5 (fst (on_notice sample_engine sample_notice))) (ActionId 3)
     = Some (command (ActionId 3) Activate)"
  using notice_settles_state_rules [OF sample_reach, of 5 sample_state_rule sample_notice
      "fst (on_notice sample_engine sample_notice)" "snd (on_notice sample_engine sample_notice)"] sample_notice_holds
  by (simp add: sample_engine_def sample_state_rule_def sample_resolved_def sample_notice_def)

section \<open>Sampling\<close>

definition sampled_number :: "range_rule \<Rightarrow> signal_reading signal_result \<Rightarrow> f32 option" where
  "sampled_number r read = (if rs_ok read then (case rs_value read of
       Some rd \<Rightarrow> (case actionable_value rd TNumber (rr_freshness r) of
           Some v \<Rightarrow> as_number v | None \<Rightarrow> None)
     | None \<Rightarrow> None) else None)"

lemma range_rule_command_number:
  "range_rule_command r read = (case sampled_number r read of
       None \<Rightarrow> command (rr_action r) Deactivate
     | Some x \<Rightarrow> \<lparr>ac_action = rr_action r, ac_kind = SetLevel, ac_level = lm_map (rr_mapping r) x\<rparr>)"
proof -
  have num: "as_number v \<noteq> None" if "actionable_value rd TNumber f = Some v" for rd f v
    using that by (cases v) (auto simp: actionable_value_Some)
  show ?thesis
    by (auto dest: num simp: range_rule_command_def sampled_number_def split: option.splits)
qed

lemma sampled_number_finite: "sampled_number r read = Some x \<Longrightarrow> f32_isfinite x"
  by (auto simp: sampled_number_def actionable_value_Some split: if_splits option.splits)

lemma lm_map_not_nan:
  assumes "mapping_ok m" and "f32_isfinite v"
  shows "\<not> f32_is_nan (lm_map m v)"
proof (cases "f32_lt v (nr_to (lm_input m))")
  case True
  with lm_map_below_end [OF assms True] show ?thesis by simp
next
  case False
  from assms have fin: "\<not> f32_is_nan v" "\<not> f32_is_nan (nr_from (lm_input m))" "\<not> f32_is_nan (nr_to (lm_input m))"
    "\<not> f32_is_nan (nr_to (lm_output m))"
    by (simp_all add: mapping_ok_def finite_range_def f32_isfinite_not_nan)
  from assms(1) have "f32_units (nr_from (lm_input m)) < f32_units (nr_to (lm_input m))"
    by (simp add: mapping_ok_def f32_lt_def)
  with False fin have "f32_le (nr_to (lm_input m)) v" "\<not> f32_le v (nr_from (lm_input m))"
    by (auto simp: f32_le_def f32_lt_def)
  with fin show ?thesis by (simp add: lm_map_def)
qed

lemma range_rule_told:
  assumes "mapping_ok (rr_mapping r)"
  shows "\<exists>c. rr_last (snd (range_rule_on_sample r read)) = Some c \<and>
    (case sampled_number r read of None \<Rightarrow> ac_kind c = Deactivate
     | Some x \<Rightarrow> ac_kind c = SetLevel \<and> f32_eq (ac_level c) (lm_map (rr_mapping r) x))"
proof -
  have eq: "f32_eq (lm_map (rr_mapping r) x) (lm_map (rr_mapping r) x)" if "sampled_number r read = Some x" for x
    using lm_map_not_nan [OF assms sampled_number_finite [OF that]] by (simp add: f32_eq_def)
  show ?thesis
    using eq by (auto simp: range_rule_on_sample_def range_rule_command_number Let_def ac_eq_def split: option.splits)
qed

text \<open>A sampling pass leaves every range rule's action at every sink at the level of the value
  that was read, or off. When the read succeeded with an actionable number, the sink's latest
  level command is SetLevel with a level equal to the mapped value; when the read failed or the
  reading is not actionable it is Deactivate.
\<close>

theorem sample_settles_range_rules:
  assumes "engine_reach P cat (e, p, tr)" and "s \<in> set (en_sinks e)"
    and "i < length (en_polled e)" and "en_polled e ! i = PRange r"
    and "sample_polled_rules reads e = (SOk, ds, e')"
  shows "\<exists>c. level_view (sink_commands s (tr @ ds)) (rr_action r) = Some c \<and>
    (case sampled_number r (reads i (rr_signal r)) of None \<Rightarrow> ac_kind c = Deactivate
     | Some x \<Rightarrow> ac_kind c = SetLevel \<and> f32_eq (ac_level c) (lm_map (rr_mapping r) x))"
proof -
  let ?r = "snd (range_rule_on_sample r (reads i (rr_signal r)))"
  have at: "en_attached e" using assms(5) by (simp add: sample_polled_rules_def split: if_splits)
  from engine_reach_told [OF assms(1)] at have ok: "engine_ok cat e" "told_ok e tr" by auto
  have "PRange ?r = snd (sample_loop reads 0 (en_polled e)) ! i"
    using assms(3,4) by (simp add: sample_loop_nth split_beta)
  then have "PRange ?r \<in> set (en_polled e')"
    using assms(3,5) at nth_mem [of i "snd (sample_loop reads 0 (en_polled e))"]
    by (auto simp: sample_polled_rules_def split_beta)
  moreover have "s \<in> set (en_sinks e')" using assms(2,5) at by (auto simp: sample_polled_rules_def split_beta)
  ultimately have v: "level_view (sink_commands s (tr @ ds)) (rr_action r) = rr_last ?r"
    using told_ok_sample [OF ok assms(5)] by (fastforce simp: told_ok_def)
  have "PRange r \<in> set (en_polled e)" using assms(3,4) by (metis nth_mem)
  then have "mapping_ok (rr_mapping r)" using ok(1) by (auto simp: engine_ok_def)
  from range_rule_told [OF this] show ?thesis unfolding v .
qed

lemma sample_settles_range_rules_witness:
  "\<exists>c. level_view (sink_commands 5 ([] @ [(5, command (ActionId 7) Deactivate)])) (ActionId 7) = Some c
     \<and> ac_kind c = Deactivate"
proof -
  have "sample_polled_rules (\<lambda>_ _. rs_failure Timeout) sample_engine = (SOk, [(5, command (ActionId 7) Deactivate)],
      sample_engine\<lparr>en_polled := [PRange (sample_range_rule\<lparr>rr_last := Some (command (ActionId 7) Deactivate)\<rparr>)]\<rparr>)"
    by (simp add: sample_polled_rules_def sample_engine_def sample_range_rule_def range_rule_on_sample_def
        range_rule_command_def deliver_all_def sinks_execute_def opt_list_def Let_def)
  from sample_settles_range_rules [OF sample_reach _ _ _ this, of 5 0 sample_range_rule] show ?thesis
    by (simp add: sample_engine_def sample_range_rule_def sampled_number_def)
qed








section \<open>Hysteresis\<close>

definition holds_at :: "resolved_condition \<Rightarrow> signal_reading signal_result \<Rightarrow> bool" where
  "holds_at c read = (rs_ok read \<and> (case rs_value read of
     Some rd \<Rightarrow> rc_evaluate c rd = Some True | None \<Rightarrow> False))"

lemma sampled_rule_output_holds: "sampled_rule_output r read = holds_at (sampled_condition r) read"
proof -
  have "value_or ob False \<longleftrightarrow> ob = Some True" for ob :: "bool option" by (cases ob) auto
  then show ?thesis by (auto simp: sampled_rule_output_def holds_at_def split: option.splits)
qed

lemma rc_evaluate_number:
  assumes "as_number (rc_operand c) = Some t" and "rc_evaluate c rd = Some b"
  shows "\<exists>x. rd_value rd = Some (VNumber x) \<and> f32_isfinite x \<and> meets (rc_freshness c) (rd_availability rd)
     \<and> b = rc_holds c (VNumber x)"
proof -
  from assms(1) have "sv_type (rc_operand c) = TNumber" by (cases "rc_operand c") auto
  with assms(2) obtain v where v: "actionable_value rd TNumber (rc_freshness c) = Some v" "b = rc_holds c v"
    by (auto simp: rc_evaluate_def split: option.splits)
  then obtain x where "v = VNumber x" by (cases v) (auto simp: actionable_value_Some)
  with v show ?thesis by (auto simp: actionable_value_Some)
qed

lemma releases_weaker:
  assumes rel: "releases a r" and act: "rc_evaluate a rd = Some True"
  shows "rc_evaluate r rd = Some True"
proof -
  from rel obtain x y where xy: "as_number (rc_operand a) = Some x" "as_number (rc_operand r) = Some y"
    and same: "rc_comparison r = rc_comparison a" "rc_freshness r = rc_freshness a"
    and band: "if rc_comparison a = CmpGreater \<or> rc_comparison a = CmpGreaterOrEqual then f32_lt y x
       else if rc_comparison a = CmpLess \<or> rc_comparison a = CmpLessOrEqual then f32_lt x y else False"
    by (auto simp: releases_def split: option.splits if_splits)
  from rc_evaluate_number [OF xy(1) act] obtain v where v: "rd_value rd = Some (VNumber v)" "f32_isfinite v"
    "meets (rc_freshness a) (rd_availability rd)" "rc_holds a (VNumber v)" by blast
  have ty: "sv_type (rc_operand r) = TNumber" using xy(2) by (cases "rc_operand r") auto
  have "rc_holds r (VNumber v)"
    using v(4) band same xy
    by (cases "rc_comparison a") (auto simp: rc_holds_def Let_def f32_lt_def f32_le_def)
  then show ?thesis
    using v ty same by (simp add: rc_evaluate_def actionable_value_def)
qed

text \<open>A run of a sampled rule over a sequence of reads: the outputs, and the commands it sends.\<close>

fun sampled_run :: "sampled_state_rule \<Rightarrow> signal_reading signal_result list \<Rightarrow> bool list" where
  "sampled_run r [] = []"
| "sampled_run r (x # xs) = (let r' = snd (sampled_rule_on_sample r x) in value_or (ss_last r') False # sampled_run r' xs)"

lemma sampled_run_held:
  assumes "ss_release r = Some c" and "releases (ss_activation r) c"
    and "\<forall>x \<in> set xs. holds_at c x \<and> \<not> holds_at (ss_activation r) x"
  shows "sampled_run r xs = replicate (length xs) (value_or (ss_last r) False)"
  using assms
proof (induction xs arbitrary: r)
  case (Cons x xs)
  have out: "sampled_rule_output r x = value_or (ss_last r) False"
    using Cons.prems by (auto simp: sampled_rule_output_holds sampled_condition_def)
  with Cons show ?case by (simp add: Let_def)
qed simp

text \<open>A release threshold of an accepted sampled rule gives real hysteresis. A reading that
  satisfies the activation condition satisfies the release condition too, so the output switches
  on at the activation threshold and keeps its value, on or off, over every sequence of
  readings inside the band between the thresholds; it turns off at the first reading that fails
  the release condition.
\<close>

theorem hysteresis_band_holds:
  assumes "engine_reach P cat (e, p, tr)" and "PSampled r \<in> set (en_polled e)" and "ss_release r = Some c"
    and "\<forall>x \<in> set xs. holds_at c x \<and> \<not> holds_at (ss_activation r) x"
  shows "(\<forall>x. holds_at (ss_activation r) x \<longrightarrow> holds_at c x)
    \<and> (\<forall>x. holds_at (ss_activation r) x \<longrightarrow> sampled_run r (x # xs) = replicate (Suc (length xs)) True)
    \<and> (\<forall>x. \<not> holds_at c x \<longrightarrow> sampled_run r (x # xs) = replicate (Suc (length xs)) False)"
proof -
  from engine_reach_ok [OF assms(1)] assms(2,3) have rel: "releases (ss_activation r) c"
    by (auto simp: engine_ok_def)
  have sub: "holds_at c x" if "holds_at (ss_activation r) x" for x
    using that releases_weaker [OF rel] by (auto simp: holds_at_def split: option.splits)
  have run: "sampled_run r (x # xs) = replicate (Suc (length xs)) (sampled_rule_output r x)" for x
    using sampled_run_held [of "snd (sampled_rule_on_sample r x)" c xs] assms(3,4) rel by (simp add: Let_def)
  show ?thesis
    using sub run by (auto simp: sampled_rule_output_holds sampled_condition_def assms(3))
qed

definition sample_sampled_config :: sampled_state_rule_config where
  "sample_sampled_config = \<lparr>ssc_condition = sample_condition, ssc_action = ActionId 9, ssc_freshness = ReqFresh,
     ssc_release_threshold = Some 0x3F000000\<rparr>"

definition sample_release :: resolved_condition where
  "sample_release = sample_resolved\<lparr>rc_operand := VNumber 0x3F000000\<rparr>"

definition sample_sampled_engine :: engine where
  "sample_sampled_engine = engine_new\<lparr>en_polled := [PSampled (sampled_rule sample_resolved (ActionId 9) (Some sample_release))]\<rparr>"

lemma sample_sampled_added:
  "add_sampled_state_rule sample_catalog engine_new sample_sampled_config = (CfgOk, sample_sampled_engine)"
proof -
  have f: "f32_isfinite 0x3F800000" "f32_isfinite 0x3F000000" "f32_lt 0x3F000000 0x3F800000"
    by (simp_all add: f32_compare_eval)
  have "resolve_sampled_condition sample_catalog sample_condition ReqFresh = (CfgOk, Some sample_resolved)"
    using f by (simp add: resolve_sampled_condition_def resolve_through_def sample_catalog_def sample_condition_def
        catalog_find_key_def caps_has_def is_ordered_def resolve_operand_def sample_resolved_def Let_def)
  moreover have "resolve_sampled_condition sample_catalog (sample_condition\<lparr>sc_operand := ONumber 0x3F000000\<rparr>) ReqFresh
      = (CfgOk, Some sample_release)"
    using f by (simp add: resolve_sampled_condition_def resolve_through_def sample_catalog_def sample_condition_def
        catalog_find_key_def caps_has_def is_ordered_def resolve_operand_def sample_resolved_def sample_release_def Let_def)
  moreover have "has_valid_release_threshold sample_condition 0x3F000000"
    using f by (simp add: has_valid_release_threshold_def sample_condition_def)
  ultimately show ?thesis
    by (simp add: add_sampled_state_rule_def sample_sampled_config_def check_action_ok level_actions_def engine_new_def
        aid_valid_def engine_add_polled_def polled_set_add_def polled_set_capacity_def sample_sampled_engine_def Let_def)
qed

lemma sample_sampled_reach: "engine_reach sample_port sample_catalog (sample_sampled_engine, 0, [])"
proof -
  have "engine_apply sample_catalog (OpAddSampled sample_sampled_config) engine_new = (sample_sampled_engine, [])"
    by (simp add: sample_sampled_added)
  from engine_reach.Step [OF engine_reach.Start engine_step.Operation [OF this]] show ?thesis by simp
qed

definition number_read :: "f32 \<Rightarrow> signal_reading signal_result" where
  "number_read x = rs_success \<lparr>rd_value = Some (VNumber x), rd_availability = Fresh, rd_validation = Confirmed\<rparr>"

lemma sample_band: "holds_at sample_release (number_read 0x3F400000)"
  "\<not> holds_at sample_resolved (number_read 0x3F400000)" "holds_at sample_resolved (number_read 0x40000000)"
  by (simp_all add: holds_at_def number_read_def rs_success_def rs_ok_def rc_evaluate_def actionable_value_def
      meets_def rc_holds_def sample_release_def sample_resolved_def f32_compare_eval)

lemma hysteresis_band_holds_witness:
  "sampled_run (sampled_rule sample_resolved (ActionId 9) (Some sample_release))
     [number_read 0x40000000, number_read 0x3F400000, number_read 0x3F400000] = [True, True, True]"
  using hysteresis_band_holds [OF sample_sampled_reach, of "sampled_rule sample_resolved (ActionId 9) (Some sample_release)"
      sample_release "[number_read 0x3F400000, number_read 0x3F400000]"] sample_band
  by (auto simp: sample_sampled_engine_def sampled_rule_def numeral_3_eq_3)

section \<open>Edges\<close>

fun event_run :: "event_rule \<Rightarrow> signal_notification list \<Rightarrow> action_command option list" where
  "event_run r [] = []"
| "event_run r (n # ns) = (case event_rule_on_notice r n of (c, r') \<Rightarrow> c # event_run r' ns)"

lemma event_rule_on_notice_eq:
  "event_rule_on_notice r n =
     ((if event_rule_fires r (if restarts_baseline n then None else er_baseline r) (rc_evaluate (er_condition r) (nt_current n))
       then Some (command (er_action r) Trigger) else None),
      r\<lparr>er_baseline := rc_evaluate (er_condition r) (nt_current n)\<rparr>)"
  by (simp add: event_rule_on_notice_def Let_def)

lemma event_run_length [simp]: "length (event_run r ns) = length ns"
  by (induction ns arbitrary: r) (auto simp: split_beta)

lemma event_run_nth:
  assumes "i < length ns"
  shows "event_run r ns ! i =
    (if event_rule_fires r (if restarts_baseline (ns ! i) then None
          else if i = 0 then er_baseline r else rc_evaluate (er_condition r) (nt_current (ns ! (i - 1))))
        (rc_evaluate (er_condition r) (nt_current (ns ! i)))
     then Some (command (er_action r) Trigger) else None)"
  using assms
proof (induction ns arbitrary: r i)
  case (Cons n ns)
  show ?case
  proof (cases i)
    case 0
    then show ?thesis by (simp add: event_rule_on_notice_eq)
  next
    case (Suc j)
    let ?r = "r\<lparr>er_baseline := rc_evaluate (er_condition r) (nt_current n)\<rparr>"
    have f: "event_rule_fires ?r = event_rule_fires r" by (intro ext) (simp add: event_rule_fires_def split: option.split)
    from Cons.IH [of j ?r] Cons.prems Suc show ?thesis
      by (cases j) (auto simp: event_rule_on_notice_eq f)
  qed
qed simp

text \<open>
  C20: An event rule triggers exactly on the edges of its condition. Over any sequence of notices
  delivered to a freshly reset rule, notice \<open>i\<close> makes it send a command, a Trigger of its
  action, if and only if it is not the first, it does not restart the baseline (initial,
  became unavailable or recovered), the readings of notices \<open>i - 1\<close> and \<open>i\<close> are both
  actionable, and the condition changed between them in the configured direction.
\<close>

theorem event_rule_triggers_on_edges:
  assumes "i < length ns" and "er_baseline r = None"
  shows "(event_run r ns ! i = Some (command (er_action r) Trigger)) =
    (0 < i \<and> \<not> restarts_baseline (ns ! i)
     \<and> rc_evaluate (er_condition r) (nt_current (ns ! (i - 1))) = Some (er_edge r = BecomesFalse)
     \<and> rc_evaluate (er_condition r) (nt_current (ns ! i)) = Some (er_edge r = BecomesTrue))
    \<and> event_run r ns ! i \<in> {None, Some (command (er_action r) Trigger)}"
proof -
  have edge: "er_edge r = BecomesFalse \<longleftrightarrow> er_edge r \<noteq> BecomesTrue" by (cases "er_edge r") auto
  show ?thesis
    unfolding event_run_nth [OF assms(1)] by (auto simp: event_rule_fires_def assms(2) edge split: option.splits)
qed

definition sample_event_rule :: event_rule where
  "sample_event_rule = \<lparr>er_condition = sample_resolved, er_action = ActionId 4, er_edge = BecomesTrue, er_baseline = None\<rparr>"

definition number_notice :: "f32 \<Rightarrow> signal_notification" where
  "number_notice x = \<lparr>nt_id = SignalId 1,
     nt_current = \<lparr>rd_value = Some (VNumber x), rd_availability = Fresh, rd_validation = Confirmed\<rparr>,
     nt_initial = False, nt_became_unavailable = False, nt_recovered = False, nt_coalesced = False\<rparr>"

lemma event_rule_triggers_on_edges_witness:
  "event_run sample_event_rule [number_notice 0, number_notice 0x40000000] ! 1
     = Some (command (ActionId 4) Trigger)"
proof -
  have "rc_evaluate sample_resolved (nt_current (number_notice 0)) = Some False"
    "rc_evaluate sample_resolved (nt_current (number_notice 0x40000000)) = Some True"
    by (simp_all add: rc_evaluate_def actionable_value_def sample_resolved_def number_notice_def meets_def rc_holds_def
        f32_compare_eval)
  then show ?thesis
    using event_rule_triggers_on_edges [of 1 "[number_notice 0, number_notice 0x40000000]" sample_event_rule]
    by (simp add: sample_event_rule_def restarts_baseline_def number_notice_def)
qed

section \<open>Configuration calls\<close>

lemma add_sampled_unchanged: "fst (add_sampled_state_rule cat e c) \<noteq> CfgOk \<Longrightarrow> snd (add_sampled_state_rule cat e c) = e"
  by (auto simp: add_sampled_state_rule_def engine_add_polled_def polled_set_add_def Let_def
      split: option.splits prod.splits if_splits)

text \<open>
  A sampled rule is accepted exactly when the engine is detached, the action is valid and
  driven by no other level rule, the condition resolves against the catalog for reading, a
  given release threshold is finite and on the releasing side of a finite ordered activation
  threshold, and the polled set has room; a refused rule leaves the engine as it was, and an
  accepted one is appended in its reset state.
\<close>

theorem add_sampled_state_rule_accepts:
  "(fst (add_sampled_state_rule cat e c) = CfgOk) =
     (\<not> en_attached e \<and> aid_valid (ssc_action c) \<and> ssc_action c \<notin> set (level_actions e)
      \<and> fst (resolve_sampled_condition cat (ssc_condition c) (ssc_freshness c)) = CfgOk
      \<and> (case ssc_release_threshold c of None \<Rightarrow> True
         | Some t \<Rightarrow> has_valid_release_threshold (ssc_condition c) t)
      \<and> length (en_polled e) \<noteq> 8)
   \<and> snd (add_sampled_state_rule cat e c) =
      (if fst (add_sampled_state_rule cat e c) \<noteq> CfgOk then e
       else e\<lparr>en_polled := en_polled e @
          [PSampled (sampled_rule (the (snd (resolve_sampled_condition cat (ssc_condition c) (ssc_freshness c))))
             (ssc_action c)
             (case ssc_release_threshold c of None \<Rightarrow> None
              | Some t \<Rightarrow> snd (resolve_sampled_condition cat ((ssc_condition c)\<lparr>sc_operand := ONumber t\<rparr>) (ssc_freshness c))))]\<rparr>)"
proof -
  let ?r = "resolve_sampled_condition cat (ssc_condition c) (ssc_freshness c)"
  have st: "fst (resolve_sampled_condition cat d q) = CfgOk \<longleftrightarrow> snd (resolve_sampled_condition cat d q) \<noteq> None" for d q
    by (simp add: resolve_sampled_condition_def resolve_through_status)
  have rel: "fst (resolve_sampled_condition cat ((ssc_condition c)\<lparr>sc_operand := ONumber t\<rparr>) (ssc_freshness c)) = CfgOk"
    if "fst ?r = CfgOk" "has_valid_release_threshold (ssc_condition c) t" for t
    using that
    by (cases "sc_operand (ssc_condition c)")
       (auto simp: resolve_sampled_condition_def resolve_through_def has_valid_release_threshold_def
          resolve_operand_cases split: option.splits if_splits)
  show ?thesis
  proof (cases "check_action e (ssc_action c) LevelOutput = CfgOk \<and> fst ?r = CfgOk")
    case False
    then show ?thesis
      using st [of "ssc_condition c" "ssc_freshness c"]
      by (auto simp: add_sampled_state_rule_def Let_def check_action_ok split: prod.splits option.splits)
  next
    case True
    then obtain rc where rc: "?r = (CfgOk, Some rc)"
      using st [of "ssc_condition c" "ssc_freshness c"] by (cases ?r) auto
    show ?thesis
    proof (cases "ssc_release_threshold c")
      case None
      with True rc show ?thesis
        by (auto simp: add_sampled_state_rule_def check_action_ok engine_add_polled_def polled_set_add_def
            polled_set_capacity_def)
    next
      case (Some t)
      let ?q = "resolve_sampled_condition cat ((ssc_condition c)\<lparr>sc_operand := ONumber t\<rparr>) (ssc_freshness c)"
      show ?thesis
      proof (cases "has_valid_release_threshold (ssc_condition c) t")
        case False
        with True rc Some show ?thesis by (auto simp: add_sampled_state_rule_def check_action_ok)
      next
        case valid: True
        then obtain q where "?q = (CfgOk, Some q)"
          using rel [of t] True st [of "(ssc_condition c)\<lparr>sc_operand := ONumber t\<rparr>" "ssc_freshness c"]
          by (cases ?q) auto
        with True rc Some valid show ?thesis
          by (auto simp: add_sampled_state_rule_def check_action_ok engine_add_polled_def polled_set_add_def
              polled_set_capacity_def)
      qed
    qed
  qed
qed

end
