(* ===== verification/Engine_On_Profile.thy ===== *)
theory Engine_On_Profile
  imports Profile_Notify_Laws Profile_Properties Engine_Properties
begin

text \<open>
  The action engine attached to the profile provider: the provider's invariant over its whole
  lifecycle, and what the interpreted contract gives for attach, detach and a provider stop.
\<close>

section \<open>The provider's lifecycle keeps its invariant\<close>

definition sync_view :: "channel \<Rightarrow> (bool \<times> u16) list" where
  "sync_view ch = map (\<lambda>s. (sb_active s, sb_generation s)) (ch_subs ch)"

lemma binding_ok_channel:
  assumes "binding_ok b" and "sync_view ch = sync_view (bd_channel b)"
  shows "binding_ok (b\<lparr>bd_channel := ch\<rparr>)"
proof -
  from assms(1) obtain ra rb sa sb where b: "bd_regs b = [ra, rb]" "ch_subs (bd_channel b) = [sa, sb]"
    "slot_synced 0 ra sa" "slot_synced 1 rb sb" by (auto simp: binding_ok_def)
  from assms(2) obtain sa' sb' where "ch_subs ch = [sa', sb']"
    and e: "sb_active sa' = sb_active sa" "sb_active sb' = sb_active sb"
      "sb_generation sa' = sb_generation sa" "sb_generation sb' = sb_generation sb"
    by (auto simp: sync_view_def b(2) map_eq_Cons_conv)
  with b show ?thesis by (simp add: binding_ok_def slot_synced_def)
qed

lemma sync_view_start [simp]: "sync_view (snd (channel_start r0 ch)) = sync_view ch"
  by (simp add: channel_start_def sync_view_def comp_def subscriber_start_def)

lemma sync_view_stop [simp]: "sync_view (snd (channel_stop r0 ch)) = sync_view ch"
  by (simp add: channel_stop_def sync_view_def comp_def subscriber_stop_def)

lemma sync_view_publish [simp]: "sync_view (snd (channel_publish r ch)) = sync_view ch"
  by (simp add: channel_publish_def sync_view_def comp_def merge_pending_def)

lemma sync_view_begin: "dispatch_begin ch = (st, d, ch') \<Longrightarrow> sync_view ch' = sync_view ch"
  by (erule dispatch_cases) (simp_all add: sync_view_def map_update list_update_same_conv)

lemma sync_view_dispatch: "sync_view (snd (dispatch_pending n ch)) = sync_view ch"
proof (induction n arbitrary: ch)
  case (Suc n)
  obtain st d ch' where b: "dispatch_begin ch = (st, d, ch')" by (rule prod_cases3)
  note v = sync_view_begin [OF b]
  have e: "sync_view (dispatch_end c) = sync_view c" for c by (simp add: dispatch_end_def sync_view_def)
  show ?case
    using Suc [of "dispatch_end ch'"] b v e [of ch'] by (cases st) (auto simp: dispatch_one_def split: prod.splits)
qed simp

definition bindings_ok :: "binding list \<Rightarrow> bool" where
  "bindings_ok bs = (\<forall>b \<in> set bs. binding_ok b)"

lemma bindings_ok_start: "bindings_ok bs \<Longrightarrow> start_channels r0 bs = (ok, bs') \<Longrightarrow> bindings_ok bs' \<and> length bs' = length bs"
proof (induction bs arbitrary: ok bs')
  case (Cons b bs)
  obtain st ch where s: "channel_start r0 (bd_channel b) = (st, ch)" by (rule prod.exhaust)
  obtain ok1 bs1 where r: "start_channels r0 bs = (ok1, bs1)" by (rule prod.exhaust)
  have v: "sync_view ch = sync_view (bd_channel b)" using sync_view_start [of r0 "bd_channel b"] by (simp add: s)
  from Cons.prems(1) have "binding_ok b" "bindings_ok bs" by (simp_all add: bindings_ok_def)
  with Cons.IH [OF _ r] Cons.prems(2) s r v show ?case
    by (auto simp: bindings_ok_def split: if_splits intro!: binding_ok_channel)
qed simp

lemma detach_regs_inactive: "\<forall>r \<in> set (fst (detach_regs r0 rs ch)). \<not> rg_active r"
  by (induction rs arbitrary: ch) (auto simp: split_beta clear_registration_def)

lemma binding_ok_detach:
  assumes ok: "binding_ok b" and idle: "\<not> ch_running (bd_channel b)" "\<not> ch_callback_active (bd_channel b)"
  shows "binding_ok (detach_binding r0 b)"
proof -
  from ok obtain ra rb sa sb where b: "bd_regs b = [ra, rb]" "ch_subs (bd_channel b) = [sa, sb]"
    "slot_synced 0 ra sa" "slot_synced 1 rb sb" by (auto simp: binding_ok_def)
  let ?b1 = "if rg_active ra then b\<lparr>bd_channel := snd (channel_unsubscribe r0 (rg_handle ra) (bd_channel b)),
      bd_regs := [clear_registration ra, rb]\<rparr> else b"
  have ok1: "binding_ok ?b1 \<and> \<not> ch_running (bd_channel ?b1) \<and> \<not> ch_callback_active (bd_channel ?b1)"
  proof (cases "rg_active ra")
    case True
    obtain st ch where u: "channel_unsubscribe r0 (rg_handle (bd_regs b ! 0)) (bd_channel b) = (st, ch)" by (rule prod.exhaust)
    have "rg_active (bd_regs b ! 0)" using True b by simp
    note cu = channel_unsubscribe_synced [OF ok _ this u]
    from cu idle u b True show ?thesis by simp
  qed (use ok idle in simp)
  have regs1: "bd_regs ?b1 ! 1 = rb" "bd_regs ?b1 = [bd_regs ?b1 ! 0, rb]" using b by auto
  show ?thesis
  proof (cases "rg_active rb")
    case True
    obtain st ch where u: "channel_unsubscribe r0 (rg_handle (bd_regs ?b1 ! 1)) (bd_channel ?b1) = (st, ch)" by (rule prod.exhaust)
    have "rg_active (bd_regs ?b1 ! 1)" using True regs1 by simp
    note cu = channel_unsubscribe_synced [OF conjunct1 [OF ok1] _ this u]
    from cu ok1 have "binding_ok (?b1\<lparr>bd_channel := ch, bd_regs := (bd_regs ?b1)[1 := clear_registration (bd_regs ?b1 ! 1)]\<rparr>)" by simp
    moreover have "detach_binding r0 b = ?b1\<lparr>bd_channel := ch, bd_regs := (bd_regs ?b1)[1 := clear_registration (bd_regs ?b1 ! 1)]\<rparr>"
      using u True b regs1 by (auto simp: detach_binding_def)
    ultimately show ?thesis by simp
  next
    case False
    have "detach_binding r0 b = ?b1" using False b by (auto simp: detach_binding_def)
    with ok1 show ?thesis by simp
  qed
qed

lemma good_bindings: "provider_good p \<longleftrightarrow> length (pv_bindings p) \<le> max_notify_bindings \<and> bindings_ok (pv_bindings p)"
  by (simp add: provider_good_def bindings_ok_def)

lemma stop_binding_ok: "binding_ok b \<Longrightarrow> binding_ok (stop_binding r0 b)"
  unfolding stop_binding_def by (rule binding_ok_channel) simp_all

lemma stop_binding_idle:
  "fst (channel_stop r0 (bd_channel b)) = NOk \<Longrightarrow>
     \<not> ch_running (bd_channel (stop_binding r0 b)) \<and> \<not> ch_callback_active (bd_channel (stop_binding r0 b))"
  by (auto simp: stop_binding_def channel_stop_def split: if_splits)

lemma good_set_running:
  assumes "provider_good p"
  shows "provider_good (set_running r0 clock running p)"
proof -
  from assms have g: "length (pv_bindings p) \<le> max_notify_bindings" "bindings_ok (pv_bindings p)" by (simp_all add: good_bindings)
  have pub: "binding_ok b \<Longrightarrow> binding_ok (publish_initial now s b)" for now s b
    by (auto simp: publish_initial_def Let_def split: option.splits intro!: binding_ok_channel)
  obtain ok bs where st: "start_channels r0 (pv_bindings p) = (ok, bs)" by (rule prod.exhaust)
  note started = bindings_ok_start [OF g(2) st]
  have "bindings_ok (map (\<lambda>k. publish_initial (clock k) (pv_profile p) (bs ! k)) [0..<length bs])"
    using started pub by (auto simp: bindings_ok_def)
  moreover have "bindings_ok (map (stop_binding r0) (pv_bindings p))"
    using g(2) stop_binding_ok by (auto simp: bindings_ok_def)
  moreover have "bindings_ok (map (detach_binding r0) (map (stop_binding r0) (pv_bindings p)))"
    if "\<not> list_ex (\<lambda>b. fst (channel_stop r0 (bd_channel b)) \<noteq> NOk) (pv_bindings p)"
  proof -
    have "binding_ok (detach_binding r0 (stop_binding r0 b))" if b: "b \<in> set (pv_bindings p)" for b
      using that g(2) \<open>\<not> list_ex _ _\<close> stop_binding_idle [of r0 b]
      by (intro binding_ok_detach stop_binding_ok) (auto simp: bindings_ok_def list_ex_iff)
    then show ?thesis by (auto simp: bindings_ok_def)
  qed
  ultimately show ?thesis
    using g started st by (auto simp: set_running_def good_bindings Let_def split: bool.splits)
qed

lemma good_publish:
  assumes "provider_good p"
  shows "provider_good (provider_publish clock res p)"
proof -
  have pub: "binding_ok (publish_result_to now s res b)" if "binding_ok b" for now s b
    using that by (auto simp: publish_result_to_def Let_def split: option.splits intro!: binding_ok_channel)
  with assms show ?thesis
    by (auto simp: provider_publish_def good_bindings bindings_ok_def)
qed

lemma good_dispatch:
  assumes "provider_good p"
  shows "provider_good (snd (provider_dispatch_pending p))"
proof -
  have "binding_ok (snd (dispatch_binding b))" if "binding_ok b" for b
    using binding_ok_channel [OF that sync_view_dispatch] by (simp add: dispatch_binding_def split_beta)
  with assms show ?thesis by (auto simp: provider_dispatch_pending_def good_bindings bindings_ok_def)
qed

inductive provider_reach :: "signal_reading \<Rightarrow> profile_tables \<Rightarrow> provider \<Rightarrow> bool"
  for r0 :: signal_reading and t :: profile_tables where
  New: "provider_reach r0 t (provider_new r0 t sync owner)"
| Subscribe: "provider_reach r0 t p \<Longrightarrow> provider_reach r0 t (snd (provider_subscribe r0 p i cb))"
| Unsubscribe: "provider_reach r0 t p \<Longrightarrow> provider_reach r0 t (snd (provider_unsubscribe r0 p tok))"
| Run: "provider_reach r0 t p \<Longrightarrow> provider_reach r0 t (set_running r0 clock running p)"
| Publish: "provider_reach r0 t p \<Longrightarrow> provider_reach r0 t (provider_publish clock res p)"
| Dispatch: "provider_reach r0 t p \<Longrightarrow> provider_reach r0 t (snd (provider_dispatch_pending p))"
| Process: "provider_reach r0 t p \<Longrightarrow>
     provider_reach r0 t (p\<lparr>pv_profile := fst (profile_apply op now (pv_profile p))\<rparr>)"
| Owner: "provider_reach r0 t p \<Longrightarrow> provider_reach r0 t (p\<lparr>pv_owner := owner\<rparr>)"

lemma provider_reach_good: "provider_reach r0 t p \<Longrightarrow> provider_good p"
proof (induction rule: provider_reach.induct)
  case (New sync owner)
  have "binding_ok (binding_new r0 i)" for i
    by (simp add: binding_new_def binding_ok_def replicate_subscribers channel_new_def slot_synced_def preg_new_def subscriber_new_def)
  moreover have "pf_valid (profile_new t sync) \<Longrightarrow>
      length (filter (\<lambda>m. caps_has (md_capabilities m) CNotify) (pt_catalog t)) \<le> max_notify_bindings"
    by (auto simp: profile_new_def table_well_formed_def split: if_splits)
  ultimately show ?case
    by (auto simp: provider_new_def Let_def good_bindings bindings_ok_def initialize_notification_channels_def)
qed (auto intro: subscribe_laws(1) unsubscribe_laws(1) good_set_running good_publish good_dispatch,
     simp_all add: provider_good_def)

section \<open>Properties\<close>

text \<open>A subscription token names exactly one registration. Over at most 254 channels, decoding
  the token of a channel, slot and non-zero generation gives them back, and any 64-bit value
  that decodes at all is the token of what it decodes to, with the channel and slot in range - no
  two values name the same registration, and stray bits are refused.
\<close>

theorem subscription_tokens_round_trip:
  assumes "n \<le> 254"
  shows "(decode_subscription tok n = Some (c, k, g)) =
    (tok = encode_subscription c k g \<and> c < n \<and> k < 2 \<and> g \<noteq> 0)"
  using decode_encode [OF _ assms] encode_decode [of tok n c k g] by blast

lemma subscription_tokens_round_trip_witness:
  "decode_subscription (encode_subscription 16 1 7) 17 = Some (16, 1, 7)"
  using subscription_tokens_round_trip [of 17 "encode_subscription 16 1 7" 16 1 7] by simp

lemma honest_profile_port: "honest_port (profile_port r0 now)"
  by (simp add: honest_port_def subscribe_status_law)

lemma attach_owned_new:
  assumes good: "provider_good p" and e: "en_subs e = []" "\<not> en_attached e"
    and at: "attach (profile_port r0 now) e p = (st, e', p')"
  shows "live_tokens p' = live_tokens p \<union> tokens (en_subs e')" "live_tokens p \<inter> tokens (en_subs e') = {}"
    "distinct (map snd (en_subs e'))"
proof -
  have "prov.owned (live_tokens p) (en_subs e) p" using good e by (simp add: prov.owned_def)
  from prov.attach_owned [OF this at]
  show "live_tokens p' = live_tokens p \<union> tokens (en_subs e')" "live_tokens p \<inter> tokens (en_subs e') = {}"
    "distinct (map snd (en_subs e'))" by (simp_all add: prov.owned_def)
qed

lemma attach_ok_covers:
  assumes e: "en_subs e = []" "\<not> en_attached e" and at: "attach (profile_port r0 now) e p = (SOk, e', p')"
  shows "en_attached e'" "subs_signals (en_subs e') = rule_signal ` set (en_rules e)" "distinct (map fst (en_subs e'))"
proof -
  obtain st1 rs1 p1 where l: "attach_loop (profile_port r0 now) on_notice_callback
      (map rule_signal (en_rules (reset_rules e))) (en_subs (reset_rules e)) p = (st1, rs1, p1)" by (rule prod_cases3)
  have "st1 = SOk"
  proof (rule ccontr)
    assume "st1 \<noteq> SOk"
    with at e l show False by (auto simp: attach_def Let_def split: prod.splits)
  qed
  have nil: "en_subs (reset_rules e) = []" using e by (simp add: reset_rules_def)
  have sig: "rule_signal ` set (en_rules (reset_rules e)) = rule_signal ` set (en_rules e)"
    by (simp add: reset_rules_def rule_set_reset_def image_image)
  from attach_loop_signals [OF l] honest_profile_port \<open>st1 = SOk\<close> nil sig
  have "distinct (map fst rs1)" "subs_signals rs1 = rule_signal ` set (en_rules e)" by (auto simp: subs_signals_def)
  with at e l \<open>st1 = SOk\<close> show "en_attached e'" "subs_signals (en_subs e') = rule_signal ` set (en_rules e)"
    "distinct (map fst (en_subs e'))" by (auto simp: attach_def Let_def)
qed

text \<open>
  C2: Attaching to a stopped provider is all or nothing. In any reachable provider state that is
  stopped with its owner present, attaching a detached engine either succeeds, and then every
  distinct signal of its rules has exactly one registration and the provider holds exactly those
  new subscriptions besides the ones it held; or it fails, and then the engine is detached with no
  registration and the provider holds exactly the subscriptions it held before.
\<close>

theorem attach_all_or_nothing:
  assumes "provider_reach r0 t p" and "provider_ready p" and "en_subs e = []" and "\<not> en_attached e"
    and "attach (profile_port r0 now) e p = (st, e', p')"
  shows "if st = SOk
    then en_attached e' \<and> fst ` set (en_subs e') = rule_signal ` set (en_rules e) \<and> distinct (map fst (en_subs e'))
      \<and> live_tokens p' = live_tokens p \<union> snd ` set (en_subs e') \<and> live_tokens p \<inter> snd ` set (en_subs e') = {}
      \<and> distinct (map snd (en_subs e'))
    else \<not> en_attached e' \<and> en_subs e' = [] \<and> live_tokens p' = live_tokens p"
proof -
  have good: "provider_good p" by (rule provider_reach_good [OF assms(1)])
  have own: "prov.owned (live_tokens p) [] p" using good by (simp add: prov.owned_def)
  show ?thesis
  proof (cases "st = SOk")
    case True
    with attach_owned_new [OF good assms(3-5)] attach_ok_covers [OF assms(3,4) assms(5) [unfolded True]] show ?thesis
      by (simp add: subs_signals_def)
  next
    case False
    with prov.attach_rolls_back [OF own assms(2-5) False] show ?thesis by simp
  qed
qed

text \<open>Detaching from a stopped provider releases everything. If an attached engine's
  registrations are the subscriptions the provider holds beyond some set, and the provider is
  stopped with its owner present, detach succeeds, leaves the engine detached with no
  registration and the provider with exactly that set.
\<close>

theorem detach_releases_all:
  assumes "provider_reach r0 t p" and "provider_ready p" and "en_attached e"
    and "live_tokens p = L \<union> snd ` set (en_subs e)" and "L \<inter> snd ` set (en_subs e) = {}" and "distinct (map snd (en_subs e))"
    and "detach (profile_port r0 now) e p = (st, e', p')"
  shows "st = SOk \<and> \<not> en_attached e' \<and> en_subs e' = [] \<and> live_tokens p' = L"
proof -
  have "prov.owned L (en_subs e) p"
    using provider_reach_good [OF assms(1)] assms(4-6) by (simp add: prov.owned_def)
  from prov.detach_ready [OF this assms(2,3,7)] show ?thesis by simp
qed

lemma stopped_holds_nothing:
  assumes good: "provider_good p" and run: "pv_running p" and stop: "\<not> pv_running (set_running r0 clock False p)"
  shows "live_tokens (set_running r0 clock False p) = {}"
proof -
  have "\<not> rg_active (bd_regs (detach_binding r0 (stop_binding r0 b)) ! k)" if "binding_ok b" "k < 2" for b k
  proof -
    have "\<forall>r \<in> set (bd_regs (detach_binding r0 (stop_binding r0 b))). \<not> rg_active r"
      using detach_regs_inactive [of r0 "bd_regs (stop_binding r0 b)" "bd_channel (stop_binding r0 b)"]
      by (simp add: detach_binding_def split_beta)
    moreover have "length (bd_regs (detach_binding r0 (stop_binding r0 b))) = 2"
    proof -
      have "length (fst (detach_regs r0 rs ch)) = length rs" for rs ch
        by (induction rs arbitrary: ch) (auto simp: split_beta)
      with regs_length [OF that(1)] show ?thesis by (simp add: detach_binding_def stop_binding_def split_beta)
    qed
    ultimately show ?thesis using that(2) by (simp add: all_set_conv_all_nth)
  qed
  moreover have "\<forall>b \<in> set (pv_bindings p). binding_ok b" using good by (simp add: provider_good_def)
  ultimately have "\<not> holds_token (p\<lparr>pv_bindings := map (detach_binding r0) (map (stop_binding r0) (pv_bindings p)), pv_running := False\<rparr>) c k g"
    for c k g
    by (auto simp: holds_token_def)
  with run stop show ?thesis
    by (auto simp: set_running_def live_tokens_def Let_def split: if_splits)
qed

lemma unsubscribe_newest_stale:
  assumes "provider_good p" and "live_tokens p = {}" and "rs \<noteq> []"
  shows "fst (unsubscribe_newest (profile_port r0 now) rs p) \<noteq> SOk
    \<and> fst (snd (unsubscribe_newest (profile_port r0 now) rs p)) = rs
    \<and> snd (snd (unsubscribe_newest (profile_port r0 now) rs p)) = p"
proof -
  obtain r rest where rs: "rs = r # rest" using assms(3) by (cases rs) auto
  have "fst (provider_unsubscribe r0 p (snd r)) \<noteq> SOk \<and> snd (provider_unsubscribe r0 p (snd r)) = p"
    using assms(1)
  proof (cases rule: unsubscribe_outcome [where ?r0.0 = r0 and t = "snd r"])
    case (released c k g ch)
    with assms(2) show ?thesis by (auto simp: live_tokens_def)
  qed simp
  then show ?thesis by (simp add: rs split_beta)
qed

text \<open>
  C25: A provider run strands an attached engine. A successful stop of the profile provider ends
  every subscription, the engine's included, but the engine still counts itself attached and its
  registrations as live: each later detach fails without changing anything, and while it stays
  attached a new attach, a new sink, a new rule and clear are all refused as InvalidState.
\<close>

theorem stop_strands_attached_engine:
  assumes "provider_reach r0 t p" and "pv_running p" and "\<not> pv_running (set_running r0 clock False p)"
    and "en_attached e" and "en_subs e \<noteq> []"
  shows "(\<exists>st. st \<noteq> SOk \<and> detach (profile_port r0 now) e (set_running r0 clock False p) = (st, e, set_running r0 clock False p))
    \<and> attach (profile_port r0 now) e (set_running r0 clock False p) = (InvalidState, e, set_running r0 clock False p)
    \<and> clear e = (CfgInvalidState, e) \<and> add_sink e s = (CfgInvalidState, e)
    \<and> add_state_rule cat e c = (CfgInvalidState, e)"
proof -
  let ?p = "set_running r0 clock False p"
  have good: "provider_good p" by (rule provider_reach_good [OF assms(1)])
  have "provider_good ?p" "live_tokens ?p = {}"
    using good_set_running [OF good] stopped_holds_nothing [OF good assms(2,3)] by simp_all
  from unsubscribe_newest_stale [OF this, of "rev (en_subs e)" r0 now] assms(5)
  obtain st where "unsubscribe_newest (profile_port r0 now) (rev (en_subs e)) ?p = (st, rev (en_subs e), ?p)" "st \<noteq> SOk"
    by (metis prod.collapse rev_is_Nil_conv)
  then have "detach (profile_port r0 now) e ?p = (st, e, ?p)"
    using assms(4) by (simp add: detach_def subs_unsubscribe_all_def)
  with \<open>st \<noteq> SOk\<close> show ?thesis using attached_setup_refused [OF assms(4)] assms(4) by (auto simp: attach_def)
qed

section \<open>The properties on a concrete provider\<close>

definition sample_provider :: provider where
  "sample_provider = provider_new no_reading sample_tables True (Some True)"

lemma sample_provider_reach: "provider_reach no_reading sample_tables sample_provider"
  unfolding sample_provider_def by (rule provider_reach.New)

lemma sample_provider_bindings:
  "pv_bindings sample_provider = [binding_new no_reading (SignalId 1), binding_new no_reading (SignalId 2)]"
  by (simp add: sample_provider_def provider_new_def Let_def profile_new_def sample_tables_ok
      initialize_notification_channels_def)
     (simp add: sample_tables_def sample_metadata_def caps_has_def)

lemma sample_provider_fields [simp]:
  "pv_profile sample_provider = sample_profile" "\<not> pv_running sample_provider" "\<not> pv_callback_active sample_provider"
  "pv_owner sample_provider = Some True"
  by (simp_all add: sample_provider_def provider_new_def Let_def sample_profile_def)

lemma binding_new_channel [simp]:
  "bd_channel (binding_new r0 i) = channel_new r0" "bd_id (binding_new r0 i) = i"
  by (simp_all add: binding_new_def)

lemma channel_new_flags [simp]:
  "\<not> ch_running (channel_new r0)" "\<not> ch_callback_active (channel_new r0)" "\<not> ch_dispatching (channel_new r0)"
  by (simp_all add: channel_new_def)

lemma sample_provider_ready: "provider_ready sample_provider"
  by (simp add: provider_ready_def sample_provider_bindings)

definition sample_detached :: engine where
  "sample_detached = engine_new\<lparr>en_sinks := [5], en_rules := [RState sample_state_rule]\<rparr>"

definition sample_attached :: "signal_status \<times> engine \<times> provider" where
  "sample_attached = attach (profile_port no_reading 0) sample_detached sample_provider"

lemma sample_attached_ok: "fst sample_attached = SOk"
proof -
  have cat: "catalog_find (pt_catalog sample_tables) (SignalId 1) = Some (sample_metadata 1 ''a'')"
    by (simp add: catalog_find_def sid_valid_def sample_tables_def sample_metadata_def)
  have "rs_ok (fst (provider_subscribe no_reading sample_provider (SignalId 1) (Some 1)))"
    by (simp add: provider_subscribe_def cat owner_refuses_def sample_provider_bindings)
       (simp add: sample_metadata_def caps_has_def binding_new_def replicate_subscribers preg_new_def claim_slot_def
         sample_provider_bindings channel_subscribe_def channel_new_def subscriber_new_def Let_def)
  then show ?thesis
    by (simp add: sample_attached_def attach_def sample_detached_def engine_new_def reset_rules_def rule_set_reset_def
        sample_state_rule_def sample_resolved_def on_notice_callback_def subs_subscribe_def subs_contains_def
        subscription_capacity_def rule_set_capacity_def Let_def split_beta)
qed

lemma attach_all_or_nothing_witness:
  "en_attached (fst (snd sample_attached))
   \<and> fst ` set (en_subs (fst (snd sample_attached))) = {SignalId 1}"
proof -
  have "en_subs sample_detached = []" "\<not> en_attached sample_detached"
    "rule_signal ` set (en_rules sample_detached) = {SignalId 1}"
    by (simp_all add: sample_detached_def engine_new_def sample_state_rule_def sample_resolved_def)
  moreover have "attach (profile_port no_reading 0) sample_detached sample_provider =
      (fst sample_attached, fst (snd sample_attached), snd (snd sample_attached))"
    by (simp add: sample_attached_def)
  ultimately show ?thesis
    using attach_all_or_nothing [OF sample_provider_reach sample_provider_ready] sample_attached_ok by metis
qed

lemma sample_holds_nothing: "live_tokens sample_provider = {}"
  by (auto simp: live_tokens_def holds_token_def sample_provider_bindings binding_new_def replicate_subscribers
      preg_new_def less_2_cases_iff less_Suc_eq nth_Cons')

definition empty_attached :: engine where
  "empty_attached = engine_new\<lparr>en_attached := True\<rparr>"

lemma detach_releases_all_witness:
  "fst (detach (profile_port no_reading 0) empty_attached sample_provider) = SOk"
  using detach_releases_all [OF sample_provider_reach sample_provider_ready, of empty_attached "{}" 0
      "fst (detach (profile_port no_reading 0) empty_attached sample_provider)"
      "fst (snd (detach (profile_port no_reading 0) empty_attached sample_provider))"
      "snd (snd (detach (profile_port no_reading 0) empty_attached sample_provider))"]
  by (simp add: empty_attached_def engine_new_def sample_holds_nothing)

definition sample_running :: provider where
  "sample_running = set_running no_reading (\<lambda>_. 0) True sample_provider"

lemma publish_initial_flags [simp]:
  "ch_running (bd_channel (publish_initial now s b)) = ch_running (bd_channel b)"
  "ch_dispatching (bd_channel (publish_initial now s b)) = ch_dispatching (bd_channel b)"
  "ch_callback_active (bd_channel (publish_initial now s b)) = ch_callback_active (bd_channel b)"
  by (auto simp: publish_initial_def channel_publish_def Let_def split: option.splits)

lemma sample_running_bindings:
  "pv_running sample_running" "pf_valid (pv_profile sample_running)" "\<not> pv_callback_active sample_running"
  "\<forall>b \<in> set (pv_bindings sample_running). ch_running (bd_channel b) \<and> \<not> ch_dispatching (bd_channel b) \<and> \<not> ch_callback_active (bd_channel b)"
  by (simp_all add: sample_running_def set_running_def sample_provider_bindings channel_start_def)

lemma stop_strands_attached_engine_witness:
  "attach (profile_port no_reading 0) sample_engine (set_running no_reading (\<lambda>_. 0) False sample_running)
     = (InvalidState, sample_engine, set_running no_reading (\<lambda>_. 0) False sample_running)"
proof -
  have r: "provider_reach no_reading sample_tables sample_running"
    unfolding sample_running_def by (rule provider_reach.Run [OF sample_provider_reach])
  have "\<not> list_ex (\<lambda>b. fst (channel_stop no_reading (bd_channel b)) \<noteq> NOk) (pv_bindings sample_running)"
    using sample_running_bindings(4) by (auto simp: list_ex_iff channel_stop_def)
  then have "\<not> pv_running (set_running no_reading (\<lambda>_. 0) False sample_running)"
    using sample_running_bindings(1-3) by (simp add: set_running_def Let_def)
  from stop_strands_attached_engine [OF r sample_running_bindings(1) this, of sample_engine 0] show ?thesis
    by (simp add: sample_engine_def)
qed

end
