(* ===== verification/Bytes.thy ===== *)
theory Bytes
  imports Prelude
begin

text \<open>
  Byte sequences of the companion protocol (\<open>companion_protocol/bytes.hpp\<close>) and its checksum
  (\<open>src/crc32.cpp\<close>). A \<open>ByteView\<close> is the list of the bytes it shows; a \<open>BoundedBytes\<close> is a
  capacity with the bytes pushed so far. The laws: a push within the capacity appends the
  little-endian bytes of its argument, reads give back what was pushed, and each step of the
  checksum is injective.
\<close>

section \<open>Views\<close>

type_synonym bytes = "u8 list"

text \<open>\<open>ByteView::from\<close>; \<open>ByteView::operator[]\<close> is \<open>!\<close>, and its callers keep the index in range.\<close>

definition view_from :: "bytes \<Rightarrow> nat \<Rightarrow> bytes" where
  "view_from v offset = (if length v \<le> offset then [] else drop offset v)"

definition read_u16 :: "bytes \<Rightarrow> nat \<Rightarrow> u16" where
  "read_u16 pdu offset = ucast (pdu ! offset) OR push_bit 8 (ucast (pdu ! (offset + 1)))"

definition read_u32 :: "bytes \<Rightarrow> nat \<Rightarrow> u32" where
  "read_u32 pdu offset = ucast (read_u16 pdu offset) OR push_bit 16 (ucast (read_u16 pdu (offset + 2)))"

section \<open>Bounded values\<close>

record bounded_bytes =
  bb_capacity :: nat
  bb_bytes :: bytes

definition bounded_new :: "nat \<Rightarrow> bounded_bytes" where
  "bounded_new cap = \<lparr>bb_capacity = cap, bb_bytes = []\<rparr>"

definition room_for :: "nat \<Rightarrow> bounded_bytes \<Rightarrow> bool" where
  "room_for count b = (count \<le> bb_capacity b - length (bb_bytes b))"

definition push :: "u8 \<Rightarrow> bounded_bytes \<Rightarrow> bool \<times> bounded_bytes" where
  "push x b = (if length (bb_bytes b) = bb_capacity b then (False, b)
     else (True, b\<lparr>bb_bytes := bb_bytes b @ [x]\<rparr>))"

definition push_u16 :: "u16 \<Rightarrow> bounded_bytes \<Rightarrow> bool \<times> bounded_bytes" where
  "push_u16 v b = (if \<not> room_for 2 b then (False, b)
     else case push (ucast (v AND 0xFF)) b of
       (False, b1) \<Rightarrow> (False, b1)
     | (True, b1) \<Rightarrow> push (ucast (drop_bit 8 v)) b1)"

definition push_u32 :: "u32 \<Rightarrow> bounded_bytes \<Rightarrow> bool \<times> bounded_bytes" where
  "push_u32 v b = (if \<not> room_for 4 b then (False, b)
     else case push_u16 (ucast (v AND 0xFFFF)) b of
       (False, b1) \<Rightarrow> (False, b1)
     | (True, b1) \<Rightarrow> push_u16 (ucast (drop_bit 16 v)) b1)"

definition append_bytes :: "bytes \<Rightarrow> bounded_bytes \<Rightarrow> bool \<times> bounded_bytes" where
  "append_bytes v b = (if \<not> room_for (length v) b then (False, b)
     else (True, b\<lparr>bb_bytes := bb_bytes b @ v\<rparr>))"

section \<open>Checksum\<close>

definition reflected_polynomial :: u32 where
  "reflected_polynomial = 0xEDB88320"

definition crc_bit :: "u32 \<Rightarrow> u32" where
  "crc_bit crc = (let mask = 0 - (crc AND 1) in drop_bit 1 crc XOR (reflected_polynomial AND mask))"

definition crc_byte :: "u32 \<Rightarrow> u8 \<Rightarrow> u32" where
  "crc_byte crc x = (crc_bit ^^ 8) (crc XOR ucast x)"

definition crc32 :: "bytes \<Rightarrow> u32" where
  "crc32 bs = foldl crc_byte 0xFFFFFFFF bs XOR 0xFFFFFFFF"

section \<open>Laws of the bounded values\<close>

text \<open>The little-endian bytes of a value.\<close>

definition le16 :: "u16 \<Rightarrow> bytes" where
  "le16 v = [ucast v, ucast (drop_bit 8 v)]"

definition le32 :: "u32 \<Rightarrow> bytes" where
  "le32 v = le16 (ucast v) @ le16 (ucast (drop_bit 16 v))"

lemma length_le [simp]: "length (le16 v) = 2" "length (le32 w) = 4"
  by (simp_all add: le16_def le32_def)

lemma view_from_drop [simp]: "view_from v n = drop n v"
  by (simp add: view_from_def)

lemma low_byte: "ucast (v AND 0xFF) = (ucast v :: u8)" for v :: u16
proof -
  have "v AND 0xFF = take_bit 8 v" by (simp add: take_bit_eq_mask mask_eq_exp_minus_1)
  then show ?thesis by (simp only:) (rule bit_word_eqI, auto simp: bit_simps)
qed

lemma low_half: "ucast (v AND 0xFFFF) = (ucast v :: u16)" for v :: u32
proof -
  have "v AND 0xFFFF = take_bit 16 v" by (simp add: take_bit_eq_mask mask_eq_exp_minus_1)
  then show ?thesis by (simp only:) (rule bit_word_eqI, auto simp: bit_simps)
qed

text \<open>
  Pushes that fit: \<open>push_all\<close> is their common form, the bytes appended to the value.
\<close>

definition push_all :: "bytes \<Rightarrow> bounded_bytes \<Rightarrow> bounded_bytes" where
  "push_all v b = b\<lparr>bb_bytes := bb_bytes b @ v\<rparr>"

lemma push_all_simps [simp]:
  "bb_bytes (push_all v b) = bb_bytes b @ v"
  "bb_capacity (push_all v b) = bb_capacity b"
  "push_all v (push_all w b) = push_all (w @ v) b"
  "push_all [] b = b"
  by (simp_all add: push_all_def)

lemma push_fits: "length (bb_bytes b) + 1 \<le> bb_capacity b \<Longrightarrow> push x b = (True, push_all [x] b)"
  by (simp add: push_def push_all_def)

lemma push_u16_fits: "length (bb_bytes b) + 2 \<le> bb_capacity b \<Longrightarrow> push_u16 v b = (True, push_all (le16 v) b)"
  by (simp add: push_u16_def room_for_def push_fits le16_def low_byte)

lemma push_u32_fits: "length (bb_bytes b) + 4 \<le> bb_capacity b \<Longrightarrow> push_u32 v b = (True, push_all (le32 v) b)"
  by (simp add: push_u32_def room_for_def push_u16_fits le32_def low_half)

lemma append_fits: "length (bb_bytes b) + length v \<le> bb_capacity b \<Longrightarrow> append_bytes v b = (True, push_all v b)"
  by (simp add: append_bytes_def room_for_def push_all_def)

lemmas pushes_fit = push_fits push_u16_fits push_u32_fits append_fits

lemma bounded_new_simps [simp]: "bb_bytes (bounded_new c) = []" "bb_capacity (bounded_new c) = c"
  by (simp_all add: bounded_new_def)

lemma read_u16_le16: "take 2 (drop n pdu) = le16 v \<Longrightarrow> read_u16 pdu n = v"
proof -
  assume a: "take 2 (drop n pdu) = le16 v"
  then have l: "n + 2 \<le> length pdu"
    by (metis (no_types, lifting) length_le(1) length_drop length_take min.absorb_iff1 min.commute
        le_diff_conv2 add.commute nat_le_linear drop_all length_0_conv less_irrefl take_Nil
        zero_less_numeral list.size(3) min_def)
  from arg_cong [where f = "\<lambda>l. l ! 0", OF a] have b0: "pdu ! n = ucast v"
    using l by (simp add: le16_def)
  from arg_cong [where f = "\<lambda>l. l ! 1", OF a] have b1: "pdu ! (n + 1) = ucast (drop_bit 8 v)"
    using l by (simp add: le16_def)
  show ?thesis
    unfolding read_u16_def b0 b1
    by (rule bit_word_eqI) (auto simp: bit_simps bit_unsigned_iff)
qed

lemma read_u32_le32: "take 4 (drop n pdu) = le32 v \<Longrightarrow> read_u32 pdu n = v"
proof -
  assume a: "take 4 (drop n pdu) = le32 v"
  have "take 2 (drop n pdu) = take 2 (le32 v)" "take 2 (drop (n + 2) pdu) = drop 2 (le32 v)"
    by (simp_all add: a [symmetric] drop_take add.commute)
  then have "read_u16 pdu n = ucast v" "read_u16 pdu (n + 2) = ucast (drop_bit 16 v)"
    by (simp_all add: le32_def read_u16_le16)
  then show ?thesis
    unfolding read_u32_def by (simp only:) (rule bit_word_eqI, auto simp: bit_simps)
qed

section \<open>Laws of the checksum\<close>

text \<open>
  One shift of the register is linear over exclusive or, and injective: the polynomial has its
  top bit set, so the top bit of the result tells which branch was taken.
\<close>

lemma crc_bit_cases: "crc_bit c = (if odd c then drop_bit 1 c XOR reflected_polynomial else drop_bit 1 c)"
  by (simp add: crc_bit_def Let_def and_one_eq mod_2_eq_odd)

lemma bit_crc_bit:
  "bit (crc_bit c) n = (n < 32 \<and> (bit c (Suc n) \<noteq> (bit reflected_polynomial n \<and> bit c 0)))"
  by (auto simp: crc_bit_cases bit_simps bit_0 dest: bit_imp_le_length)

lemma crc_bit_xor: "crc_bit (c XOR d) = crc_bit c XOR crc_bit d"
  by (rule bit_word_eqI) (auto simp: bit_crc_bit bit_simps)

lemma crc_bit_inject: "crc_bit c = crc_bit d \<longleftrightarrow> c = d"
proof
  assume e: "crc_bit c = crc_bit d"
  have top: "bit reflected_polynomial 31" by (simp add: reflected_polynomial_def)
  have b: "bit (crc_bit x) 31 = bit x 0" for x :: u32
    using top bit_imp_le_length [of x 32] by (auto simp: bit_crc_bit)
  from e b [of c] b [of d] have z: "bit c 0 = bit d 0" by simp
  show "c = d"
  proof (rule bit_word_eqI)
    fix n assume "n < LENGTH(32)"
    then show "bit c n = bit d n"
    proof (cases n)
      case (Suc k)
      have "bit (crc_bit c) k = bit (crc_bit d) k" using e by simp
      then show ?thesis using z Suc \<open>n < LENGTH(32)\<close> by (auto simp: bit_crc_bit)
    qed (use z in simp)
  qed
qed simp

lemma crc_bits_xor: "(crc_bit ^^ k) (c XOR d) = (crc_bit ^^ k) c XOR (crc_bit ^^ k) d"
  by (induction k) (simp_all add: crc_bit_xor)

lemma crc_bits_inject: "(crc_bit ^^ k) c = (crc_bit ^^ k) d \<longleftrightarrow> c = d"
  by (induction k) (simp_all add: crc_bit_inject)

text \<open>A shift takes a zero low bit out, so whole bytes move down unchanged.\<close>

lemma crc_bits_push: "\<forall>n \<ge> 32 - k. \<not> bit x n \<Longrightarrow> (crc_bit ^^ k) (push_bit k x) = x"
proof (induction k)
  case (Suc k)
  have "crc_bit (push_bit (Suc k) x) = push_bit k x"
  proof (rule bit_word_eqI)
    fix n assume "n < LENGTH(32)"
    then show "bit (crc_bit (push_bit (Suc k) x)) n = bit (push_bit k x) n"
      using Suc.prems by (cases "n = 31") (auto simp: bit_crc_bit bit_push_bit_iff simp del: push_bit_Suc)
  qed
  moreover from Suc have "(crc_bit ^^ k) (push_bit k x) = x" by simp
  ultimately show ?case by (simp add: funpow_Suc_right del: funpow.simps)
qed simp

lemma crc_byte_inject: "crc_byte c x = crc_byte d x \<longleftrightarrow> c = d"
proof
  assume "crc_byte c x = crc_byte d x"
  then have "(c XOR ucast x) XOR ucast x = (d XOR ucast x) XOR ucast x"
    unfolding crc_byte_def crc_bits_inject by simp
  then show "c = d" by (simp add: xor.assoc)
qed simp

lemma foldl_crc_inject: "foldl crc_byte c bs = foldl crc_byte d bs \<longleftrightarrow> c = d"
  by (induction bs arbitrary: c d) (auto simp: crc_byte_inject)

text \<open>Up to four bytes enter the register as one little-endian word.\<close>

fun pack :: "bytes \<Rightarrow> u32" where
  "pack [] = 0"
| "pack (x # xs) = ucast x XOR push_bit 8 (pack xs)"

lemma bit_pack:
  "length xs \<le> 4 \<Longrightarrow> bit (pack xs) n = (n div 8 < length xs \<and> bit (xs ! (n div 8)) (n mod 8))"
proof (induction xs arbitrary: n)
  case (Cons x xs)
  show ?case
  proof (cases "n < 8")
    case True
    then show ?thesis by (auto simp: bit_simps)
  next
    case False
    then have d: "n div 8 = Suc ((n - 8) div 8)" "n mod 8 = (n - 8) mod 8"
      by (simp_all add: le_div_geq le_mod_geq)
    have "\<not> bit x n" using False bit_imp_le_length [of x n] by auto
    moreover have "n < 32" if "(n - 8) div 8 < length xs" using that Cons.prems by simp
    ultimately show ?thesis using False Cons d by (auto simp: bit_simps)
  qed
qed simp

lemma pack_inject:
  assumes "pack xs = pack ys" and "length xs = length ys" and "length xs \<le> 4"
  shows "xs = ys"
proof (rule nth_equalityI [OF assms(2)])
  fix i assume i: "i < length xs"
  show "xs ! i = ys ! i"
  proof (rule bit_word_eqI)
    fix k assume "k < LENGTH(8)"
    then show "bit (xs ! i) k = bit (ys ! i) k"
      using arg_cong [where f = "\<lambda>w. bit w (8 * i + k)", OF assms(1)] i assms(2,3)
      by (simp add: bit_pack)
  qed
qed

lemma foldl_crc_pack:
  "length xs \<le> 4 \<Longrightarrow> foldl crc_byte c xs = (crc_bit ^^ (8 * length xs)) (c XOR pack xs)"
proof (induction xs arbitrary: c)
  case (Cons x xs)
  have z: "\<forall>n \<ge> 24. \<not> bit (pack xs) n"
    using Cons.prems by (auto simp: bit_pack)
  have "crc_byte c x XOR pack xs = (crc_bit ^^ 8) (c XOR ucast x) XOR (crc_bit ^^ 8) (push_bit 8 (pack xs))"
    using z by (simp only: crc_byte_def crc_bits_push) (simp add: crc_bits_push)
  also have "\<dots> = (crc_bit ^^ 8) (c XOR pack (x # xs))"
    by (simp only: crc_bits_xor [symmetric]) (simp add: xor.assoc)
  finally have e: "crc_byte c x XOR pack xs = (crc_bit ^^ 8) (c XOR pack (x # xs))" .
  have "foldl crc_byte c (x # xs) = (crc_bit ^^ (8 * length xs)) (crc_byte c x XOR pack xs)"
    using Cons by simp
  also have "\<dots> = (crc_bit ^^ (8 * length xs + 8)) (c XOR pack (x # xs))"
    by (simp only: e funpow_add comp_apply)
  finally show ?case by (simp add: add.commute)
qed simp

text \<open>
  C40: The upload checksum misses no short corruption. If two documents of the same length differ
  only inside a window of at most four consecutive bytes, and differ there at all, their
  CRC-32 values differ - so no damage of up to 32 neighbouring bits passes the check of a commit.
\<close>

theorem crc32_detects_short_damage:
  assumes "length xs = length ys" and "length xs \<le> 4" and "xs \<noteq> ys"
  shows "crc32 (before @ xs @ after) \<noteq> crc32 (before @ ys @ after)"
proof
  let ?c = "foldl crc_byte 0xFFFFFFFF before"
  assume "crc32 (before @ xs @ after) = crc32 (before @ ys @ after)"
  then have "(foldl crc_byte (foldl crc_byte ?c xs) after XOR 0xFFFFFFFF) XOR 0xFFFFFFFF =
      (foldl crc_byte (foldl crc_byte ?c ys) after XOR 0xFFFFFFFF) XOR 0xFFFFFFFF"
    by (simp add: crc32_def)
  then have "foldl crc_byte ?c xs = foldl crc_byte ?c ys"
    by (simp only: xor.assoc xor_self_eq xor.right_neutral foldl_crc_inject)
  then have "?c XOR (?c XOR pack xs) = ?c XOR (?c XOR pack ys)"
    using assms by (simp add: foldl_crc_pack crc_bits_inject)
  then have "pack xs = pack ys" by (simp add: xor.assoc [symmetric])
  with pack_inject assms show False by blast
qed

lemma crc_byte_unfold:
  "crc_byte c x = crc_bit (crc_bit (crc_bit (crc_bit (crc_bit (crc_bit (crc_bit (crc_bit (c XOR ucast x))))))))"
  by (simp add: crc_byte_def numeral_eq_Suc)

lemmas crc_eval = crc32_def crc_byte_unfold crc_bit_cases reflected_polynomial_def

text \<open>The check value of CRC-32/ISO-HDLC, over the digits 1 to 9.\<close>

lemma crc32_check_value: "crc32 [0x31, 0x32, 0x33, 0x34, 0x35, 0x36, 0x37, 0x38, 0x39] = 0xCBF43926"
  by (simp add: crc_eval)

theorem crc32_detects_short_damage_witness:
  "crc32 ([0x31] @ [0x32, 0x33] @ [0x34]) \<noteq> crc32 ([0x31] @ [0x33, 0x32] @ [0x34])"
  by (rule crc32_detects_short_damage) simp_all

end
