(* ===== verification/Config_Status.thy ===== *)
theory Config_Status
  imports Bytes
begin

text \<open>
  What the companion client is told of the configuration (\<open>companion_protocol/config_status.hpp\<close>,
  \<open>active_document.hpp\<close>, \<open>read_back.hpp\<close> and their sources): the transfer state and result, the
  diagnostics of a rejected commit, the boot selection, the encoder of the Config status value and
  the read-back pages of the active document. Text (\<open>std::string_view\<close>) is the list of its
  bytes, \<open>std::size_t\<close> a natural number. Every enumeration has its table of wire codes.
\<close>

section \<open>Wire codes\<close>

datatype config_source =
    SrcFactory | SrcOverride | SrcNone

fun source_code :: "config_source \<Rightarrow> u8" where
  "source_code SrcFactory = 0"
| "source_code SrcOverride = 1"
| "source_code SrcNone = 0xFF"

datatype transfer_state =
    TsIdle | TsReceiving | TsRestartPending

fun state_code :: "transfer_state \<Rightarrow> u8" where
  "state_code TsIdle = 0"
| "state_code TsReceiving = 1"
| "state_code TsRestartPending = 2"

datatype transfer_result =
    TrNone | TrSaved | TrConfigRejected | TrApplyRejected | TrStorageFailed | TrAborted
   | TrTimedOut | TrChecksumMismatch | TrInterrupted

fun result_code :: "transfer_result \<Rightarrow> u8" where
  "result_code TrNone = 0"
| "result_code TrSaved = 1"
| "result_code TrConfigRejected = 2"
| "result_code TrApplyRejected = 3"
| "result_code TrStorageFailed = 4"
| "result_code TrAborted = 5"
| "result_code TrTimedOut = 6"
| "result_code TrChecksumMismatch = 7"
| "result_code TrInterrupted = 8"

datatype diagnostic_category =
    CatNone | CatParse | CatStructural | CatSemantic

fun category_code :: "diagnostic_category \<Rightarrow> u8" where
  "category_code CatNone = 0"
| "category_code CatParse = 1"
| "category_code CatStructural = 2"
| "category_code CatSemantic = 3"

datatype diagnostic_code =
    DiagNone | DiagMalformedJson | DiagEmbeddedNul | DiagInputTooLarge
   | DiagNestingLimitExceeded | DiagRootTypeMismatch | DiagMissingField | DiagUnknownField
   | DiagTypeMismatch | DiagInvalidValue | DiagSchemaValidation | DiagResourceExhausted

fun diagnostic_wire :: "diagnostic_code \<Rightarrow> u8" where
  "diagnostic_wire DiagNone = 0"
| "diagnostic_wire DiagMalformedJson = 1"
| "diagnostic_wire DiagEmbeddedNul = 2"
| "diagnostic_wire DiagInputTooLarge = 3"
| "diagnostic_wire DiagNestingLimitExceeded = 4"
| "diagnostic_wire DiagRootTypeMismatch = 5"
| "diagnostic_wire DiagMissingField = 6"
| "diagnostic_wire DiagUnknownField = 7"
| "diagnostic_wire DiagTypeMismatch = 8"
| "diagnostic_wire DiagInvalidValue = 9"
| "diagnostic_wire DiagSchemaValidation = 10"
| "diagnostic_wire DiagResourceExhausted = 11"

datatype validation_code =
    ValNone | ValUnsupportedVersion | ValEmptyActionName | ValDuplicateActionName
   | ValUndeclaredAction | ValDuplicateAction | ValEmptySignalKey | ValUnknownComparison
   | ValUnknownFreshness | ValUnknownEventEdge | ValEmptyChoice | ValInvalidOperand
   | ValUnsupportedComparison | ValInvalidHysteresis | ValInvalidRange | ValUnknownLedEffect
   | ValUnknownFillDirection | ValEmptyZone | ValZoneOutOfRange | ValInvalidColor
   | ValInvalidPriority | ValDuplicateBinding | ValInvalidDuration | ValIncompatibleActionKind

fun validation_wire :: "validation_code \<Rightarrow> u8" where
  "validation_wire ValNone = 0"
| "validation_wire ValUnsupportedVersion = 1"
| "validation_wire ValEmptyActionName = 2"
| "validation_wire ValDuplicateActionName = 3"
| "validation_wire ValUndeclaredAction = 4"
| "validation_wire ValDuplicateAction = 5"
| "validation_wire ValEmptySignalKey = 6"
| "validation_wire ValUnknownComparison = 7"
| "validation_wire ValUnknownFreshness = 8"
| "validation_wire ValUnknownEventEdge = 9"
| "validation_wire ValEmptyChoice = 10"
| "validation_wire ValInvalidOperand = 11"
| "validation_wire ValUnsupportedComparison = 12"
| "validation_wire ValInvalidHysteresis = 13"
| "validation_wire ValInvalidRange = 14"
| "validation_wire ValUnknownLedEffect = 15"
| "validation_wire ValUnknownFillDirection = 16"
| "validation_wire ValEmptyZone = 17"
| "validation_wire ValZoneOutOfRange = 18"
| "validation_wire ValInvalidColor = 19"
| "validation_wire ValInvalidPriority = 20"
| "validation_wire ValDuplicateBinding = 21"
| "validation_wire ValInvalidDuration = 22"
| "validation_wire ValIncompatibleActionKind = 23"

datatype config_section =
    SecDocument | SecActions | SecRules | SecOutputs

fun section_code :: "config_section \<Rightarrow> u8" where
  "section_code SecDocument = 0"
| "section_code SecActions = 1"
| "section_code SecRules = 2"
| "section_code SecOutputs = 3"

datatype apply_stage =
    StageComplete | StageValidation | StageActionId | StageOutputBinding | StageSinkRegistration
   | StageRule

fun stage_code :: "apply_stage \<Rightarrow> u8" where
  "stage_code StageComplete = 0"
| "stage_code StageValidation = 1"
| "stage_code StageActionId = 2"
| "stage_code StageOutputBinding = 3"
| "stage_code StageSinkRegistration = 4"
| "stage_code StageRule = 5"

datatype binding_code =
    BindOk | BindInvalidAction | BindDuplicateBinding | BindCapacityExceeded | BindInvalidEffect

fun binding_wire :: "binding_code \<Rightarrow> u8" where
  "binding_wire BindOk = 0"
| "binding_wire BindInvalidAction = 1"
| "binding_wire BindDuplicateBinding = 2"
| "binding_wire BindCapacityExceeded = 3"
| "binding_wire BindInvalidEffect = 4"

datatype engine_config_code =
    EngOk | EngInvalidState | EngCapacityExceeded | EngDuplicateSink | EngInvalidAction
   | EngDuplicateAction | EngUnknownSignal | EngUnsupportedCapability | EngTypeMismatch
   | EngUnknownChoice | EngInvalidOperand | EngUnsupportedComparison | EngInvalidRange
   | EngInvalidHysteresis

fun engine_wire :: "engine_config_code \<Rightarrow> u8" where
  "engine_wire EngOk = 0"
| "engine_wire EngInvalidState = 1"
| "engine_wire EngCapacityExceeded = 2"
| "engine_wire EngDuplicateSink = 3"
| "engine_wire EngInvalidAction = 4"
| "engine_wire EngDuplicateAction = 5"
| "engine_wire EngUnknownSignal = 6"
| "engine_wire EngUnsupportedCapability = 7"
| "engine_wire EngTypeMismatch = 8"
| "engine_wire EngUnknownChoice = 9"
| "engine_wire EngInvalidOperand = 10"
| "engine_wire EngUnsupportedComparison = 11"
| "engine_wire EngInvalidRange = 12"
| "engine_wire EngInvalidHysteresis = 13"

section \<open>Diagnostic paths\<close>

definition max_diagnostic_path_bytes :: nat where
  "max_diagnostic_path_bytes = 26"

definition continuation_byte :: "u8 \<Rightarrow> bool" where
  "continuation_byte x = (x AND 0xC0 = 0x80)"

record diagnostic_path =
  dp_text :: bytes
  dp_truncated :: bool

fun cut_back :: "bytes \<Rightarrow> nat \<Rightarrow> nat" where
  "cut_back path 0 = 0"
| "cut_back path (Suc n) = (if continuation_byte (path ! Suc n) then cut_back path n else Suc n)"

definition diagnostic_path_empty :: diagnostic_path where
  "diagnostic_path_empty = \<lparr>dp_text = [], dp_truncated = False\<rparr>"

definition diagnostic_path_of :: "bytes \<Rightarrow> diagnostic_path" where
  "diagnostic_path_of path = (if max_diagnostic_path_bytes < length path
     then \<lparr>dp_text = take (cut_back path max_diagnostic_path_bytes) path, dp_truncated = True\<rparr>
     else \<lparr>dp_text = path, dp_truncated = False\<rparr>)"

section \<open>Rejections, saved and active documents\<close>

record config_rejection =
  cr_category :: diagnostic_category
  cr_code :: diagnostic_code
  cr_validation :: validation_code
  cr_index :: nat
  cr_path :: diagnostic_path

definition config_rejection_new :: config_rejection where
  "config_rejection_new = \<lparr>cr_category = CatNone, cr_code = DiagNone, cr_validation = ValNone,
     cr_index = 0, cr_path = diagnostic_path_empty\<rparr>"

record apply_rejection =
  ar_stage :: apply_stage
  ar_validation :: validation_code
  ar_validation_section :: config_section
  ar_index :: nat
  ar_binding :: binding_code
  ar_engine :: engine_config_code

definition apply_rejection_new :: apply_rejection where
  "apply_rejection_new = \<lparr>ar_stage = StageComplete, ar_validation = ValNone,
     ar_validation_section = SecDocument, ar_index = 0, ar_binding = BindOk, ar_engine = EngOk\<rparr>"

definition apply_section :: "apply_rejection \<Rightarrow> config_section" where
  "apply_section a = (case ar_stage a of
     StageActionId \<Rightarrow> SecActions
   | StageOutputBinding \<Rightarrow> SecOutputs
   | StageRule \<Rightarrow> SecRules
   | StageValidation \<Rightarrow> ar_validation_section a
   | _ \<Rightarrow> SecDocument)"

record saved_document =
  sd_length :: u16
  sd_crc32 :: u32

definition saved_document_new :: saved_document where
  "saved_document_new = \<lparr>sd_length = 0, sd_crc32 = 0\<rparr>"

record active_document =
  ad_source :: config_source
  ad_bytes :: bytes
  ad_crc32 :: u32

definition active_document_new :: active_document where
  "active_document_new = \<lparr>ad_source = SrcNone, ad_bytes = [], ad_crc32 = 0\<rparr>"

definition active_length :: "active_document \<Rightarrow> u16" where
  "active_length d = of_nat (length (ad_bytes d))"

definition active_selected :: "config_source \<Rightarrow> bytes \<Rightarrow> active_document option" where
  "active_selected source canonical = (if source = SrcNone \<or> 0xFFFF < length canonical then None
     else Some \<lparr>ad_source = source, ad_bytes = canonical, ad_crc32 = crc32 canonical\<rparr>)"

section \<open>Boot and transfer status\<close>

record boot_flags =
  bf_invalid_override :: bool
  bf_override_read_failed :: bool
  bf_no_config_store :: bool
  bf_lighting_setup_failed :: bool

definition boot_flag_bits :: "boot_flags \<Rightarrow> u8" where
  "boot_flag_bits f =
     (if bf_invalid_override f then 1 else 0) OR (if bf_override_read_failed f then 2 else 0)
     OR (if bf_no_config_store f then 4 else 0) OR (if bf_lighting_setup_failed f then 8 else 0)"

record boot_status =
  bs_flags :: boot_flags
  bs_active :: active_document
  bs_override_code :: diagnostic_code
  bs_override_validation :: validation_code

record transfer_status =
  ts_state :: transfer_state
  ts_result :: transfer_result
  ts_transfer_length :: u16
  ts_received_length :: u16
  ts_saved :: saved_document
  ts_rejection :: config_rejection
  ts_apply :: apply_rejection

definition transfer_status_new :: transfer_status where
  "transfer_status_new = \<lparr>ts_state = TsIdle, ts_result = TrNone, ts_transfer_length = 0,
     ts_received_length = 0, ts_saved = saved_document_new, ts_rejection = config_rejection_new,
     ts_apply = apply_rejection_new\<rparr>"

section \<open>The Config status value\<close>

definition max_config_status_bytes :: nat where
  "max_config_status_bytes = 35 + max_diagnostic_path_bytes"

definition path_truncated_bit :: u8 where
  "path_truncated_bit = 0x80"

definition saturated_index :: "nat \<Rightarrow> u16" where
  "saturated_index index = (if 0xFFFF < index then 0xFFFF else of_nat index)"

text \<open>The encoder discards the result of each push.\<close>

definition put :: "u8 \<Rightarrow> bounded_bytes \<Rightarrow> bounded_bytes" where
  "put x v = snd (push x v)"

definition put_u16 :: "u16 \<Rightarrow> bounded_bytes \<Rightarrow> bounded_bytes" where
  "put_u16 x v = snd (push_u16 x v)"

definition put_u32 :: "u32 \<Rightarrow> bounded_bytes \<Rightarrow> bounded_bytes" where
  "put_u32 x v = snd (push_u32 x v)"

definition put_bytes :: "bytes \<Rightarrow> bounded_bytes \<Rightarrow> bounded_bytes" where
  "put_bytes x v = snd (append_bytes x v)"

fun push_zeros :: "nat \<Rightarrow> bounded_bytes \<Rightarrow> bounded_bytes" where
  "push_zeros 0 v = v"
| "push_zeros (Suc n) v = push_zeros n (put 0 v)"

definition push_boot :: "boot_status \<Rightarrow> bounded_bytes \<Rightarrow> bounded_bytes" where
  "push_boot boot v = put_u32 (ad_crc32 (bs_active boot)) (put_u16 (active_length (bs_active boot))
     (put (source_code (ad_source (bs_active boot))) (put (boot_flag_bits (bs_flags boot)) v)))"

definition push_lengths :: "transfer_status \<Rightarrow> bounded_bytes \<Rightarrow> bounded_bytes" where
  "push_lengths t v = (if ts_state t \<noteq> TsReceiving then push_zeros 4 v
     else put_u16 (ts_received_length t) (put_u16 (ts_transfer_length t) v))"

definition push_saved :: "transfer_status \<Rightarrow> bounded_bytes \<Rightarrow> bounded_bytes" where
  "push_saved t v = (if ts_result t \<noteq> TrSaved then push_zeros 6 v
     else put_u32 (sd_crc32 (ts_saved t)) (put_u16 (sd_length (ts_saved t)) v))"

definition push_rejection :: "transfer_status \<Rightarrow> bounded_bytes \<Rightarrow> bounded_bytes" where
  "push_rejection t v = (if ts_result t \<noteq> TrConfigRejected then push_zeros 5 v
     else let r = ts_rejection t in
       put_u16 (saturated_index (cr_index r)) (put (validation_wire (cr_validation r))
         (put (diagnostic_wire (cr_code r)) (put (category_code (cr_category r)) v))))"

definition push_apply :: "transfer_status \<Rightarrow> bounded_bytes \<Rightarrow> bounded_bytes" where
  "push_apply t v = (if ts_result t \<noteq> TrApplyRejected then push_zeros 7 v
     else let a = ts_apply t in
       put (engine_wire (ar_engine a)) (put (binding_wire (ar_binding a))
         (put_u16 (saturated_index (ar_index a)) (put (section_code (apply_section a))
           (put (validation_wire (ar_validation a)) (put (stage_code (ar_stage a)) v))))))"

definition push_boot_diagnostic :: "boot_status \<Rightarrow> bounded_bytes \<Rightarrow> bounded_bytes" where
  "push_boot_diagnostic boot v = (if \<not> bf_invalid_override (bs_flags boot) then push_zeros 2 v
     else put (validation_wire (bs_override_validation boot)) (put (diagnostic_wire (bs_override_code boot)) v))"

definition push_path :: "transfer_status \<Rightarrow> bounded_bytes \<Rightarrow> bounded_bytes" where
  "push_path t v = (if ts_result t \<noteq> TrConfigRejected then put 0 v
     else let path = cr_path (ts_rejection t); len = of_nat (length (dp_text path)) in
       put_bytes (dp_text path) (put (if dp_truncated path then len OR path_truncated_bit else len) v))"

definition encode_config_status :: "boot_status \<Rightarrow> transfer_status \<Rightarrow> bounded_bytes" where
  "encode_config_status boot t = push_path t (push_boot_diagnostic boot (push_apply t (push_rejection t
     (push_saved t (push_lengths t (push_boot boot
       (put (result_code (ts_result t)) (put (state_code (ts_state t)) (bounded_new max_config_status_bytes)))))))))"

section \<open>Read-back pages\<close>

definition read_back_header_bytes :: nat where
  "read_back_header_bytes = 9"

definition max_read_back_data_bytes :: nat where
  "max_read_back_data_bytes = 200"

definition encode_read_back_page :: "active_document \<Rightarrow> u16 \<Rightarrow> bounded_bytes option" where
  "encode_read_back_page d page_offset = (if active_length d < page_offset then None
     else let rest = view_from (ad_bytes d) (unat page_offset);
              count = min (length rest) max_read_back_data_bytes in
       Some (put_bytes (take count rest) (put_u16 page_offset (put_u32 (ad_crc32 d)
         (put_u16 (active_length d) (put (source_code (ad_source d))
           (bounded_new (read_back_header_bytes + max_read_back_data_bytes))))))))"

end
