(* ===== verification/Config_Transfer.thy ===== *)
theory Config_Transfer
  imports Config_Status
begin

text \<open>
  The chunked configuration transfer (\<open>companion_protocol/config_transfer.hpp\<close>,
  \<open>src/config_transfer.cpp\<close>, \<open>att_error.hpp\<close>): one state, at most one open transfer in a
  4096-byte buffer, an idle timeout and the restart that a saved configuration makes pending. The
  commit port is the parameter \<open>K\<close>, a function of its own state and the document; the clock
  (\<open>std::chrono::milliseconds\<close>) is an integer, of which only differences are used.
\<close>

section \<open>Protocol constants and values\<close>

datatype att_error =
    AttNone | AttInvalidLength | AttInvalidPdu | AttUnsupportedOperation | AttBusy | AttInvalidState
  | AttStorageFailure | AttMtuTooSmall | AttTooLarge | AttOffsetMismatch | AttIncomplete
  | AttChecksumMismatch | AttConfigRejected | AttApplyRejected

definition minimum_transfer_mtu :: u16 where
  "minimum_transfer_mtu = 64"

definition max_config_bytes :: u16 where
  "max_config_bytes = 4096"

definition transfer_idle_timeout :: int where
  "transfer_idle_timeout = 10000"

datatype commit_outcome =
    OutSaved saved_document
  | OutConfigRejected config_rejection
  | OutApplyRejected apply_rejection
  | OutStorageFailed

type_synonym 'c committer = "'c \<Rightarrow> bytes \<Rightarrow> commit_outcome \<times> 'c"

record transfer_environment =
  te_store_available :: bool
  te_active :: active_document

record write_context =
  wc_att_mtu :: u16
  wc_now :: int

record write_response =
  wr_error :: att_error
  wr_status_changed :: bool
  wr_entered_restart :: bool
  wr_read_page :: "u16 option"

record busy_check =
  bc_busy :: bool
  bc_status_changed :: bool

section \<open>State\<close>

record upload =
  up_crc32 :: u32
  up_last_activity :: int
  up_buffer :: bytes

record config_transfer =
  ct_environment :: transfer_environment
  ct_status :: transfer_status
  ct_upload :: upload

definition config_transfer_new :: "transfer_environment \<Rightarrow> config_transfer" where
  "config_transfer_new env = \<lparr>ct_environment = env, ct_status = transfer_status_new,
     ct_upload = \<lparr>up_crc32 = 0, up_last_activity = 0, up_buffer = replicate (unat max_config_bytes) 0\<rparr>\<rparr>"

definition receiving :: "config_transfer \<Rightarrow> bool" where
  "receiving t = (ts_state (ct_status t) = TsReceiving)"

definition restart_pending :: "config_transfer \<Rightarrow> bool" where
  "restart_pending t = (ts_state (ct_status t) = TsRestartPending)"

definition finish :: "transfer_result \<Rightarrow> config_transfer \<Rightarrow> config_transfer" where
  "finish result t = t\<lparr>ct_status := transfer_status_new\<lparr>ts_result := result\<rparr>,
     ct_upload := (ct_upload t)\<lparr>up_crc32 := 0\<rparr>\<rparr>"

section \<open>Timeout, interruption and restart\<close>

definition expire_if_idle :: "int \<Rightarrow> config_transfer \<Rightarrow> bool \<times> config_transfer" where
  "expire_if_idle now t =
     (if \<not> receiving t \<or> now - up_last_activity (ct_upload t) < transfer_idle_timeout then (False, t)
      else (True, finish TrTimedOut t))"

definition check_busy :: "int \<Rightarrow> config_transfer \<Rightarrow> busy_check \<times> config_transfer" where
  "check_busy now t = (case expire_if_idle now t of (changed, t') \<Rightarrow>
     (\<lparr>bc_busy = (ts_state (ct_status t') \<noteq> TsIdle), bc_status_changed = changed\<rparr>, t'))"

definition interrupt :: "config_transfer \<Rightarrow> bool \<times> config_transfer" where
  "interrupt t = (if \<not> receiving t then (False, t) else (True, finish TrInterrupted t))"

definition enter_restart_pending :: "config_transfer \<Rightarrow> bool \<times> config_transfer" where
  "enter_restart_pending t = (if ts_state (ct_status t) \<noteq> TsIdle then (False, t)
     else (True, t\<lparr>ct_status := (ct_status t)\<lparr>ts_state := TsRestartPending\<rparr>\<rparr>))"

section \<open>Write handling\<close>

datatype opcode = OcStart | OcChunk | OcCommit | OcAbort | OcSelectReadPage

definition known_opcode :: "u8 \<Rightarrow> bool" where
  "known_opcode x = (1 \<le> x \<and> x \<le> 5)"

definition opcode_of :: "u8 \<Rightarrow> opcode" where
  "opcode_of x = (if x = 1 then OcStart else if x = 2 then OcChunk else if x = 3 then OcCommit
     else if x = 4 then OcAbort else OcSelectReadPage)"

fun valid_length :: "opcode \<Rightarrow> nat \<Rightarrow> u16 \<Rightarrow> bool" where
  "valid_length OcStart len att_mtu = (len = 7)"
| "valid_length OcChunk len att_mtu = (4 \<le> len \<and> int len \<le> uint att_mtu - 3)"
| "valid_length OcCommit len att_mtu = (len = 1)"
| "valid_length OcAbort len att_mtu = (len = 1)"
| "valid_length OcSelectReadPage len att_mtu = (len = 3)"

definition start_transfer :: "bytes \<Rightarrow> write_context \<Rightarrow> config_transfer \<Rightarrow> att_error \<times> config_transfer" where
  "start_transfer pdu ctx t = (let total_length = read_u16 pdu 1 in
     if wc_att_mtu ctx < minimum_transfer_mtu then (AttMtuTooSmall, t)
     else if total_length = 0 then (AttInvalidPdu, t)
     else if max_config_bytes < total_length then (AttTooLarge, t)
     else if receiving t then (AttBusy, t)
     else if \<not> te_store_available (ct_environment t) then (AttStorageFailure, t)
     else (AttNone, t\<lparr>ct_status := transfer_status_new\<lparr>ts_state := TsReceiving, ts_transfer_length := total_length\<rparr>,
       ct_upload := (ct_upload t)\<lparr>up_crc32 := read_u32 pdu 3, up_last_activity := wc_now ctx\<rparr>\<rparr>))"

fun copy_bytes :: "nat \<Rightarrow> bytes \<Rightarrow> bytes \<Rightarrow> bytes" where
  "copy_bytes position [] buffer = buffer"
| "copy_bytes position (x # xs) buffer = copy_bytes (Suc position) xs (buffer[position := x])"

definition chunk :: "bytes \<Rightarrow> write_context \<Rightarrow> config_transfer \<Rightarrow> att_error \<times> config_transfer" where
  "chunk pdu ctx t = (let s = ct_status t; received = unat (ts_received_length s) in
     if \<not> receiving t then (AttInvalidState, t)
     else if read_u16 pdu 1 \<noteq> ts_received_length s then (AttOffsetMismatch, t)
     else let data = view_from pdu 3; end' = received + length data in
       if unat (ts_transfer_length s) < end' then (AttInvalidPdu, t)
       else (AttNone, t\<lparr>ct_status := s\<lparr>ts_received_length := of_nat end'\<rparr>,
         ct_upload := (ct_upload t)\<lparr>up_buffer := copy_bytes received data (up_buffer (ct_upload t)),
           up_last_activity := wc_now ctx\<rparr>\<rparr>))"

text \<open>What a commit leaves behind, by the outcome the port reported.\<close>

fun conclude :: "commit_outcome \<Rightarrow> config_transfer \<Rightarrow> att_error \<times> config_transfer" where
  "conclude (OutSaved d) t = (let t' = finish TrSaved t in
     (AttNone, t'\<lparr>ct_status := (ct_status t')\<lparr>ts_state := TsRestartPending, ts_saved := d\<rparr>\<rparr>))"
| "conclude (OutConfigRejected r) t = (let t' = finish TrConfigRejected t in
     (AttConfigRejected, t'\<lparr>ct_status := (ct_status t')\<lparr>ts_rejection := r\<rparr>\<rparr>))"
| "conclude (OutApplyRejected a) t = (let t' = finish TrApplyRejected t in
     (AttApplyRejected, t'\<lparr>ct_status := (ct_status t')\<lparr>ts_apply := a\<rparr>\<rparr>))"
| "conclude OutStorageFailed t = (AttStorageFailure, finish TrStorageFailed t)"

definition commit_transfer :: "'c committer \<Rightarrow> config_transfer \<times> 'c \<Rightarrow> att_error \<times> config_transfer \<times> 'c" where
  "commit_transfer K tc = (case tc of (t, c) \<Rightarrow>
     if \<not> receiving t then (AttInvalidState, t, c)
     else if ts_received_length (ct_status t) < ts_transfer_length (ct_status t) then (AttIncomplete, t, c)
     else let document = take (unat (ts_transfer_length (ct_status t))) (up_buffer (ct_upload t)) in
       if crc32 document \<noteq> up_crc32 (ct_upload t) then (AttChecksumMismatch, finish TrChecksumMismatch t, c)
       else case K c document of (outcome, c') \<Rightarrow>
         (case conclude outcome t of (e, t') \<Rightarrow> (e, t', c')))"

definition abort_transfer :: "config_transfer \<Rightarrow> att_error \<times> config_transfer" where
  "abort_transfer t = (AttNone, if receiving t then finish TrAborted t else t)"

definition select_read_page :: "bytes \<Rightarrow> config_transfer \<Rightarrow> att_error \<times> u16 option" where
  "select_read_page pdu t = (let offset = read_u16 pdu 1 in
     if active_length (te_active (ct_environment t)) < offset then (AttInvalidPdu, None)
     else (AttNone, Some offset))"

definition dispatch_write ::
  "'c committer \<Rightarrow> bytes \<Rightarrow> write_context \<Rightarrow> config_transfer \<times> 'c \<Rightarrow> (att_error \<times> u16 option) \<times> config_transfer \<times> 'c" where
  "dispatch_write K pdu ctx tc = (case tc of (t, c) \<Rightarrow>
     if pdu = [] then ((AttInvalidLength, None), t, c)
     else if \<not> known_opcode (pdu ! 0) then ((AttUnsupportedOperation, None), t, c)
     else if \<not> valid_length (opcode_of (pdu ! 0)) (length pdu) (wc_att_mtu ctx) then ((AttInvalidLength, None), t, c)
     else if restart_pending t then ((AttBusy, None), t, c)
     else case opcode_of (pdu ! 0) of
       OcStart \<Rightarrow> (case start_transfer pdu ctx t of (e, t') \<Rightarrow> ((e, None), t', c))
     | OcChunk \<Rightarrow> (case chunk pdu ctx t of (e, t') \<Rightarrow> ((e, None), t', c))
     | OcCommit \<Rightarrow> (case commit_transfer K (t, c) of (e, tc') \<Rightarrow> ((e, None), tc'))
     | OcAbort \<Rightarrow> (case abort_transfer t of (e, t') \<Rightarrow> ((e, None), t', c))
     | OcSelectReadPage \<Rightarrow> (select_read_page pdu t, t, c))"

definition handle_write ::
  "'c committer \<Rightarrow> bytes \<Rightarrow> write_context \<Rightarrow> config_transfer \<times> 'c \<Rightarrow> write_response \<times> config_transfer \<times> 'c" where
  "handle_write K pdu ctx tc = (case tc of (t, c) \<Rightarrow>
     case dispatch_write K pdu ctx (snd (expire_if_idle (wc_now ctx) t), c) of
       ((e, page), t', c') \<Rightarrow>
         (\<lparr>wr_error = e,
           wr_status_changed = (ts_state (ct_status t') \<noteq> ts_state (ct_status t)
             \<or> ts_result (ct_status t') \<noteq> ts_result (ct_status t)),
           wr_entered_restart = (\<not> restart_pending t \<and> restart_pending t'),
           wr_read_page = page\<rparr>, t', c'))"

end
