(* ===== verification/Companion_Link.thy ===== *)
theory Companion_Link
  imports Config_Transfer
begin

text \<open>
  Access to the companion protocol: the user key debouncer, the pairing window, the security of
  the single link, the guard of the host stack's bond hooks, the Command characteristic and the
  Device info value (\<open>companion_protocol/user_key_debouncer.hpp\<close>, \<open>pairing_window.hpp\<close>,
  \<open>link_security.hpp\<close>, \<open>hook_guard.hpp\<close>, \<open>command.hpp\<close>, \<open>device_info.hpp\<close> and their
  sources). The clock is an integer of milliseconds.
\<close>

section \<open>User key\<close>

datatype user_key_level = Released | Pressed

record user_key_debouncer =
  uk_stable :: user_key_level
  uk_changed_samples :: u8

definition debouncer_new :: user_key_debouncer where
  "debouncer_new = \<lparr>uk_stable = Pressed, uk_changed_samples = 0\<rparr>"

definition debounce_samples :: u8 where
  "debounce_samples = 3"

definition debouncer_sample :: "user_key_level \<Rightarrow> user_key_debouncer \<Rightarrow> bool \<times> user_key_debouncer" where
  "debouncer_sample level d = (if level = uk_stable d then (False, d\<lparr>uk_changed_samples := 0\<rparr>)
     else let n = uk_changed_samples d + 1 in
       if n < debounce_samples then (False, d\<lparr>uk_changed_samples := n\<rparr>)
       else (level = Pressed, \<lparr>uk_stable = level, uk_changed_samples = 0\<rparr>))"

section \<open>Pairing window\<close>

datatype bond_storage = StorageUnavailable | StorageAvailable

datatype repeat_pairing_action = DeleteOldBondAndRetry | IgnoreAndDisconnect

definition pairing_window_period :: int where
  "pairing_window_period = 120000"

record pairing_window =
  pw_storage :: bond_storage
  pw_closes_at :: "int option"

definition pairing_window_new :: "bond_storage \<Rightarrow> pairing_window" where
  "pairing_window_new s = \<lparr>pw_storage = s, pw_closes_at = None\<rparr>"

definition window_open :: "int \<Rightarrow> pairing_window \<Rightarrow> bool \<times> pairing_window" where
  "window_open now w = (if pw_storage w \<noteq> StorageAvailable then (False, w)
     else (True, w\<lparr>pw_closes_at := Some (now + pairing_window_period)\<rparr>))"

definition window_close :: "pairing_window \<Rightarrow> pairing_window" where
  "window_close w = w\<lparr>pw_closes_at := None\<rparr>"

definition window_is_open :: "int \<Rightarrow> pairing_window \<Rightarrow> bool" where
  "window_is_open now w = (case pw_closes_at w of None \<Rightarrow> False | Some e \<Rightarrow> now < e)"

definition repeat_pairing :: "int \<Rightarrow> pairing_window \<Rightarrow> repeat_pairing_action" where
  "repeat_pairing now w = (if window_is_open now w then DeleteOldBondAndRetry else IgnoreAndDisconnect)"

section \<open>Link security\<close>

datatype link_encryption = Unencrypted | Encrypted

datatype peer_bond = NoBond | StoredBond

datatype protected_access =
    Allow | InsufficientAuthentication | InsufficientEncryption | InsufficientAuthenticationAndDisconnect

datatype encryption_verdict = BondRestored | NewBondAccepted | Rejected | RejectedDeleteKeys

definition unbonded_link_idle_limit :: int where
  "unbonded_link_idle_limit = 30000"

definition unbonded_link_absolute_limit :: int where
  "unbonded_link_absolute_limit = 90000"

record encrypted_link =
  el_bonded :: bool
  el_key_size :: u8
  el_peer_bond :: peer_bond

record link_security =
  ls_connected_at :: int
  ls_idle_since :: int
  ls_rejection_seen :: bool
  ls_keys_written :: bool
  ls_accepted :: bool

fun access_error_code :: "protected_access \<Rightarrow> u8" where
  "access_error_code Allow = 0"
| "access_error_code InsufficientEncryption = 0x0F"
| "access_error_code InsufficientAuthentication = 0x05"
| "access_error_code InsufficientAuthenticationAndDisconnect = 0x05"

definition link_new :: "int \<Rightarrow> link_security" where
  "link_new now = \<lparr>ls_connected_at = now, ls_idle_since = now, ls_rejection_seen = False,
     ls_keys_written = False, ls_accepted = False\<rparr>"

definition link_connected :: "int \<Rightarrow> link_security \<Rightarrow> link_security" where
  "link_connected now l = link_new now"

definition bond_keys_written :: "link_security \<Rightarrow> link_security" where
  "bond_keys_written l = l\<lparr>ls_keys_written := True\<rparr>"

definition accepted_pairing_pdu :: "int \<Rightarrow> link_security \<Rightarrow> link_security" where
  "accepted_pairing_pdu now l = l\<lparr>ls_idle_since := now\<rparr>"

definition revoke_bond :: "link_security \<Rightarrow> link_security" where
  "revoke_bond l = l\<lparr>ls_accepted := False\<rparr>"

definition is_accepted_bond :: "encrypted_link \<Rightarrow> bool" where
  "is_accepted_bond e = (el_bonded e \<and> el_key_size e = 16 \<and> el_peer_bond e = StoredBond)"

definition link_encrypted :: "encrypted_link \<Rightarrow> link_security \<Rightarrow> encryption_verdict \<times> link_security" where
  "link_encrypted e l = (let l' = l\<lparr>ls_accepted := is_accepted_bond e\<rparr> in
     (if ls_accepted l' then (if ls_keys_written l then NewBondAccepted else BondRestored)
      else (if ls_keys_written l then RejectedDeleteKeys else Rejected), l'))"

definition check_protected_access ::
  "int \<Rightarrow> link_encryption \<Rightarrow> peer_bond \<Rightarrow> link_security \<Rightarrow> protected_access \<times> link_security" where
  "check_protected_access now encryption bond l =
     (if ls_accepted l then (Allow, l)
      else if encryption = Encrypted then (InsufficientAuthenticationAndDisconnect, l)
      else (if bond = StoredBond then InsufficientEncryption else InsufficientAuthentication,
        if \<not> ls_rejection_seen l then l\<lparr>ls_rejection_seen := True, ls_idle_since := max (ls_idle_since l) now\<rparr> else l))"

definition drop_deadline :: "link_security \<Rightarrow> int option" where
  "drop_deadline l = (if ls_accepted l then None
     else Some (min (ls_idle_since l + unbonded_link_idle_limit) (ls_connected_at l + unbonded_link_absolute_limit)))"

definition must_drop :: "int \<Rightarrow> link_security \<Rightarrow> bool" where
  "must_drop now l = (case drop_deadline l of None \<Rightarrow> False | Some e \<Rightarrow> e \<le> now)"

section \<open>Hook guard\<close>

datatype hook_state = AlreadyInstalled | Installed | Missing

text \<open>A function pointer is an optional identity; the guard itself is one.\<close>

record hook_guard =
  hg_guard :: "nat option"
  hg_original :: "nat option"

definition hook_guard_new :: "nat option \<Rightarrow> hook_guard" where
  "hook_guard_new g = \<lparr>hg_guard = g, hg_original = None\<rparr>"

definition hook_ensure :: "nat option \<Rightarrow> hook_guard \<Rightarrow> hook_state \<times> nat option \<times> hook_guard" where
  "hook_ensure slot g =
     (if slot = hg_guard g then (if hg_original g \<noteq> None then AlreadyInstalled else Missing, slot, g)
      else if slot = None then (Missing, slot, g)
      else (Installed, hg_guard g, g\<lparr>hg_original := slot\<rparr>))"

section \<open>Commands\<close>

datatype command_opcode = RevertToFactory | ClearBonds

record command_decision =
  cd_error :: att_error
  cd_command :: "command_opcode option"

definition known_command :: "u8 \<Rightarrow> command_opcode option" where
  "known_command x = (if x = 1 then Some RevertToFactory else if x = 2 then Some ClearBonds else None)"

definition command_rejected :: "att_error \<Rightarrow> command_decision" where
  "command_rejected e = \<lparr>cd_error = e, cd_command = None\<rparr>"

definition decode_command :: "bytes \<Rightarrow> bool \<Rightarrow> command_decision" where
  "decode_command pdu busy =
     (if length pdu \<noteq> 2 then command_rejected AttInvalidLength
      else if pdu ! 1 \<noteq> pdu ! 0 XOR 0xFF then command_rejected AttInvalidPdu
      else case known_command (pdu ! 0) of
        None \<Rightarrow> command_rejected AttUnsupportedOperation
      | Some c \<Rightarrow> (if busy then command_rejected AttBusy else \<lparr>cd_error = AttNone, cd_command = Some c\<rparr>))"

section \<open>Device info\<close>

datatype extension_status = ExtAbsent | ExtUnusable | ExtUsable

record device_info =
  di_schema_version :: u16
  di_pairing_open :: bool
  di_firmware :: bytes
  di_hardware :: bytes

definition max_device_text :: nat where
  "max_device_text = 31"

definition push_text :: "bytes \<Rightarrow> bounded_bytes \<Rightarrow> bool \<times> bounded_bytes" where
  "push_text txt v = (case push (of_nat (length txt)) v of
     (False, v1) \<Rightarrow> (False, v1)
   | (True, v1) \<Rightarrow> append_bytes txt v1)"

definition extension_flags :: "extension_status \<Rightarrow> bool \<Rightarrow> u8" where
  "extension_flags ext outputs = (if ext = ExtUsable then 1 else 0) OR (if outputs then 2 else 0)"

definition device_header :: "device_info \<Rightarrow> bounded_bytes \<Rightarrow> bounded_bytes" where
  "device_header i v = put_u16 max_config_bytes (put (if di_pairing_open i then 1 else 0)
     (put 2 (put_u16 (di_schema_version i) (put 2 (put 1 v)))))"

definition encode_device_info :: "device_info \<Rightarrow> extension_status \<Rightarrow> bool \<Rightarrow> bounded_bytes option" where
  "encode_device_info i ext outputs =
     (if max_device_text < length (di_firmware i) \<or> max_device_text < length (di_hardware i) then None
      else case push_text (di_firmware i) (device_header i (bounded_new 74)) of
        (False, v1) \<Rightarrow> None
      | (True, v1) \<Rightarrow> (case push_text (di_hardware i) v1 of
          (False, v2) \<Rightarrow> None
        | (True, v2) \<Rightarrow> (case push 1 v2 of
            (False, v3) \<Rightarrow> None
          | (True, v3) \<Rightarrow> (case push (extension_flags ext outputs) v3 of
              (False, v4) \<Rightarrow> None
            | (True, v4) \<Rightarrow> Some v4))))"

end
