(* ===== verification/Config_Status_Laws.thy ===== *)
theory Config_Status_Laws
  imports Config_Status
begin

text \<open>
  What the Config status value and the read-back pages promise: every push of the encoder fits, so
  the value has the documented layout; the value tells the visible part of the status and nothing
  else; a cut diagnostic path ends at a character boundary; the pages read from offset 0 on are
  the active document, under a header that agrees with Config status.
\<close>

section \<open>Pushes that fit\<close>

lemma puts_fit:
  "length (bb_bytes v) + 1 \<le> bb_capacity v \<Longrightarrow> put x v = push_all [x] v"
  "length (bb_bytes v) + 2 \<le> bb_capacity v \<Longrightarrow> put_u16 h v = push_all (le16 h) v"
  "length (bb_bytes v) + 4 \<le> bb_capacity v \<Longrightarrow> put_u32 w v = push_all (le32 w) v"
  "length (bb_bytes v) + length bs \<le> bb_capacity v \<Longrightarrow> put_bytes bs v = push_all bs v"
  by (simp_all add: put_def put_u16_def put_u32_def put_bytes_def pushes_fit)

lemma push_zeros_fits:
  "length (bb_bytes v) + n \<le> bb_capacity v \<Longrightarrow> push_zeros n v = push_all (replicate n 0) v"
  by (induction n arbitrary: v) (simp_all add: puts_fit)

section \<open>Codes are injective\<close>

lemma source_code_inject [simp]: "source_code x = source_code y \<longleftrightarrow> x = y"
  by (cases x; cases y) simp_all

lemma state_code_inject [simp]: "state_code x = state_code y \<longleftrightarrow> x = y"
  by (cases x; cases y) simp_all

lemma result_code_inject [simp]: "result_code x = result_code y \<longleftrightarrow> x = y"
  by (cases x; cases y) simp_all

lemma category_code_inject [simp]: "category_code x = category_code y \<longleftrightarrow> x = y"
  by (cases x; cases y) simp_all

lemma diagnostic_wire_inject [simp]: "diagnostic_wire x = diagnostic_wire y \<longleftrightarrow> x = y"
  by (cases x; cases y) simp_all

lemma validation_wire_inject [simp]: "validation_wire x = validation_wire y \<longleftrightarrow> x = y"
  by (cases x; cases y) simp_all

lemma section_code_inject [simp]: "section_code x = section_code y \<longleftrightarrow> x = y"
  by (cases x; cases y) simp_all

lemma stage_code_inject [simp]: "stage_code x = stage_code y \<longleftrightarrow> x = y"
  by (cases x; cases y) simp_all

lemma binding_wire_inject [simp]: "binding_wire x = binding_wire y \<longleftrightarrow> x = y"
  by (cases x; cases y) simp_all

lemma engine_wire_inject [simp]: "engine_wire x = engine_wire y \<longleftrightarrow> x = y"
  by (cases x; cases y) simp_all

lemma boot_flag_bits_inject: "boot_flag_bits f = boot_flag_bits g \<longleftrightarrow> f = g"
proof
  have n: "bit (if c then w else 0) n = (c \<and> bit w n)" for c :: bool and w :: u8 and n by simp
  have w: "bit (1 :: u8) 0" "\<not> bit (1 :: u8) 1" "\<not> bit (1 :: u8) 2" "\<not> bit (1 :: u8) 3"
    "\<not> bit (2 :: u8) 0" "bit (2 :: u8) 1" "\<not> bit (2 :: u8) 2" "\<not> bit (2 :: u8) 3"
    "\<not> bit (4 :: u8) 0" "\<not> bit (4 :: u8) 1" "bit (4 :: u8) 2" "\<not> bit (4 :: u8) 3"
    "\<not> bit (8 :: u8) 0" "\<not> bit (8 :: u8) 1" "\<not> bit (8 :: u8) 2" "bit (8 :: u8) 3"
    by simp_all
  have bits: "bit (boot_flag_bits f) 0 = bf_invalid_override f"
    "bit (boot_flag_bits f) 1 = bf_override_read_failed f"
    "bit (boot_flag_bits f) 2 = bf_no_config_store f"
    "bit (boot_flag_bits f) 3 = bf_lighting_setup_failed f" for f
    by (simp_all only: boot_flag_bits_def bit_or_iff n w simp_thms)
  assume "boot_flag_bits f = boot_flag_bits g"
  then show "f = g"
    using bits [of f] bits [of g] by (intro boot_flags.equality) simp_all
qed simp

lemma le16_inject [simp]: "le16 v = le16 w \<longleftrightarrow> v = w"
proof
  assume e: "le16 v = le16 w"
  have "read_u16 (le16 x) 0 = x" for x by (rule read_u16_le16) simp
  with e show "v = w" by metis
qed simp

lemma le32_inject [simp]: "le32 v = le32 w \<longleftrightarrow> v = w"
proof
  assume "le32 v = le32 w"
  then have e: "ucast v = (ucast w :: u16)" "ucast (drop_bit 16 v) = (ucast (drop_bit 16 w) :: u16)"
    by (simp_all add: le32_def)
  show "v = w"
  proof (rule bit_word_eqI)
    fix n assume "n < LENGTH(32)"
    then have "n - 16 < 16" by simp
    then show "bit v n = bit w n"
      using arg_cong [where f = "\<lambda>x. bit x n", OF e(1)] arg_cong [where f = "\<lambda>x. bit x (n - 16)", OF e(2)]
      by (cases "n < 16") (simp_all add: bit_simps)
  qed
qed simp

lemma saturated_index_inject: "saturated_index i = saturated_index j \<longleftrightarrow> min i 0xFFFF = min j 0xFFFF"
proof -
  have "saturated_index i = of_nat (min i 0xFFFF)" for i
    by (simp add: saturated_index_def)
  moreover have "unat (of_nat (min i 0xFFFF) :: u16) = min i 0xFFFF" for i
    by (simp add: unat_of_nat_u16)
  ultimately show ?thesis by metis
qed

section \<open>The layout of the value\<close>

definition lengths_bytes :: "transfer_status \<Rightarrow> bytes" where
  "lengths_bytes t = (if ts_state t = TsReceiving then le16 (ts_transfer_length t) @ le16 (ts_received_length t)
     else replicate 4 0)"

definition saved_bytes :: "transfer_status \<Rightarrow> bytes" where
  "saved_bytes t = (if ts_result t = TrSaved then le16 (sd_length (ts_saved t)) @ le32 (sd_crc32 (ts_saved t))
     else replicate 6 0)"

definition rejection_bytes :: "transfer_status \<Rightarrow> bytes" where
  "rejection_bytes t = (if ts_result t = TrConfigRejected then
       [category_code (cr_category (ts_rejection t)), diagnostic_wire (cr_code (ts_rejection t)),
        validation_wire (cr_validation (ts_rejection t))] @ le16 (saturated_index (cr_index (ts_rejection t)))
     else replicate 5 0)"

definition apply_bytes :: "transfer_status \<Rightarrow> bytes" where
  "apply_bytes t = (if ts_result t = TrApplyRejected then
       [stage_code (ar_stage (ts_apply t)), validation_wire (ar_validation (ts_apply t)),
        section_code (apply_section (ts_apply t))] @ le16 (saturated_index (ar_index (ts_apply t)))
       @ [binding_wire (ar_binding (ts_apply t)), engine_wire (ar_engine (ts_apply t))]
     else replicate 7 0)"

definition boot_bytes :: "boot_status \<Rightarrow> bytes" where
  "boot_bytes b = [boot_flag_bits (bs_flags b), source_code (ad_source (bs_active b))]
     @ le16 (active_length (bs_active b)) @ le32 (ad_crc32 (bs_active b))"

definition boot_diagnostic_bytes :: "boot_status \<Rightarrow> bytes" where
  "boot_diagnostic_bytes b = (if bf_invalid_override (bs_flags b)
     then [diagnostic_wire (bs_override_code b), validation_wire (bs_override_validation b)] else replicate 2 0)"

definition path_length_byte :: "diagnostic_path \<Rightarrow> u8" where
  "path_length_byte p = (if dp_truncated p then of_nat (length (dp_text p)) OR path_truncated_bit
     else of_nat (length (dp_text p)))"

definition path_bytes :: "transfer_status \<Rightarrow> bytes" where
  "path_bytes t = (if ts_result t = TrConfigRejected
     then path_length_byte (cr_path (ts_rejection t)) # dp_text (cr_path (ts_rejection t)) else [0])"

lemmas segment_defs = lengths_bytes_def saved_bytes_def rejection_bytes_def apply_bytes_def boot_bytes_def
  boot_diagnostic_bytes_def path_bytes_def

lemma segment_lengths [simp]:
  "length (lengths_bytes t) = 4" "length (saved_bytes t) = 6" "length (rejection_bytes t) = 5"
  "length (apply_bytes t) = 7" "length (boot_bytes b) = 8" "length (boot_diagnostic_bytes b) = 2"
  by (simp_all add: segment_defs)

lemma segments_fit:
  "length (bb_bytes v) + 8 \<le> bb_capacity v \<Longrightarrow> push_boot b v = push_all (boot_bytes b) v"
  "length (bb_bytes v) + 4 \<le> bb_capacity v \<Longrightarrow> push_lengths t v = push_all (lengths_bytes t) v"
  "length (bb_bytes v) + 6 \<le> bb_capacity v \<Longrightarrow> push_saved t v = push_all (saved_bytes t) v"
  "length (bb_bytes v) + 5 \<le> bb_capacity v \<Longrightarrow> push_rejection t v = push_all (rejection_bytes t) v"
  "length (bb_bytes v) + 7 \<le> bb_capacity v \<Longrightarrow> push_apply t v = push_all (apply_bytes t) v"
  "length (bb_bytes v) + 2 \<le> bb_capacity v \<Longrightarrow> push_boot_diagnostic b v = push_all (boot_diagnostic_bytes b) v"
  by (simp_all add: push_boot_def push_lengths_def push_saved_def push_rejection_def push_apply_def
      push_boot_diagnostic_def segment_defs puts_fit push_zeros_fits Let_def)

lemma push_path_fits:
  "length (bb_bytes v) + 1 + length (dp_text (cr_path (ts_rejection t))) \<le> bb_capacity v \<Longrightarrow>
   push_path t v = push_all (path_bytes t) v"
  by (simp add: push_path_def path_bytes_def path_length_byte_def puts_fit Let_def)

lemma cut_back_le: "cut_back p n \<le> n"
  by (induction p n rule: cut_back.induct) auto

lemma diagnostic_path_of_le: "length (dp_text (diagnostic_path_of p)) \<le> 26"
  using cut_back_le [of p 26] by (simp add: diagnostic_path_of_def max_diagnostic_path_bytes_def)

definition status_bytes :: "boot_status \<Rightarrow> transfer_status \<Rightarrow> bytes" where
  "status_bytes b t = [state_code (ts_state t), result_code (ts_result t)] @ boot_bytes b @ lengths_bytes t
     @ saved_bytes t @ rejection_bytes t @ apply_bytes t @ boot_diagnostic_bytes b @ path_bytes t"

lemma encode_config_status_bytes:
  assumes "length (dp_text (cr_path (ts_rejection t))) \<le> 26"
  shows "bb_bytes (encode_config_status b t) = status_bytes b t"
  using assms by (simp add: encode_config_status_def max_config_status_bytes_def max_diagnostic_path_bytes_def
      puts_fit segments_fit push_path_fits status_bytes_def)

section \<open>The value tells the visible status and nothing else\<close>

text \<open>
  What the protocol lets a client see: details only for the result, state or boot flag they
  belong to, the section that the stage implies, and indexes saturated at 16 bits.
\<close>

definition visible_boot :: "boot_status \<Rightarrow> boot_flags \<times> config_source \<times> u16 \<times> u32 \<times> (diagnostic_code \<times> validation_code) option" where
  "visible_boot b = (bs_flags b, ad_source (bs_active b), active_length (bs_active b), ad_crc32 (bs_active b),
     if bf_invalid_override (bs_flags b) then Some (bs_override_code b, bs_override_validation b) else None)"

datatype visible_detail =
    NoDetail
  | SavedDetail u16 u32
  | ConfigDetail diagnostic_category diagnostic_code validation_code nat diagnostic_path
  | ApplyDetail apply_stage validation_code config_section nat binding_code engine_config_code

definition visible_detail_of :: "transfer_status \<Rightarrow> visible_detail" where
  "visible_detail_of t = (case ts_result t of
     TrSaved \<Rightarrow> SavedDetail (sd_length (ts_saved t)) (sd_crc32 (ts_saved t))
   | TrConfigRejected \<Rightarrow> (let r = ts_rejection t in
       ConfigDetail (cr_category r) (cr_code r) (cr_validation r) (min (cr_index r) 0xFFFF) (cr_path r))
   | TrApplyRejected \<Rightarrow> (let a = ts_apply t in
       ApplyDetail (ar_stage a) (ar_validation a) (apply_section a) (min (ar_index a) 0xFFFF) (ar_binding a) (ar_engine a))
   | _ \<Rightarrow> NoDetail)"

definition visible_transfer :: "transfer_status \<Rightarrow> transfer_state \<times> transfer_result \<times> (u16 \<times> u16) option \<times> visible_detail" where
  "visible_transfer t = (ts_state t, ts_result t,
     if ts_state t = TsReceiving then Some (ts_transfer_length t, ts_received_length t) else None,
     visible_detail_of t)"

lemma path_length_byte_inject:
  assumes "length (dp_text p) \<le> 26" and "length (dp_text q) \<le> 26"
  shows "path_length_byte p = path_length_byte q \<longleftrightarrow>
     length (dp_text p) = length (dp_text q) \<and> dp_truncated p = dp_truncated q"
proof
  have low: "take_bit 7 (path_length_byte p) = of_nat (length (dp_text p))" if "length (dp_text p) \<le> 26" for p
  proof -
    have "take_bit 7 (of_nat (length (dp_text p)) :: u8) = of_nat (length (dp_text p))"
      using that by (simp add: take_bit_of_nat take_bit_nat_eq_self)
    then show ?thesis by (simp add: path_length_byte_def path_truncated_bit_def)
  qed
  have high: "bit (path_length_byte p) 7 = dp_truncated p" if "length (dp_text p) \<le> 26" for p
  proof -
    have "(of_nat (length (dp_text p)) :: u8) = take_bit 7 (of_nat (length (dp_text p)))"
      using that by (simp add: take_bit_of_nat take_bit_nat_eq_self)
    then have "\<not> bit (of_nat (length (dp_text p)) :: u8) 7"
      by (metis bit_take_bit_iff less_irrefl)
    then show ?thesis by (simp add: path_length_byte_def path_truncated_bit_def bit_or_iff)
  qed
  assume e: "path_length_byte p = path_length_byte q"
  have "unat (of_nat (length (dp_text p)) :: u8) = unat (of_nat (length (dp_text q)) :: u8)"
    using low [OF assms(1)] low [OF assms(2)] e by simp
  then show "length (dp_text p) = length (dp_text q) \<and> dp_truncated p = dp_truncated q"
    using high [OF assms(1)] high [OF assms(2)] e assms by (simp add: unat_of_nat_u8)
qed (simp add: path_length_byte_def)

lemma path_bytes_inject:
  assumes "length (dp_text (cr_path (ts_rejection t))) \<le> 26"
    and "length (dp_text (cr_path (ts_rejection u))) \<le> 26"
    and "ts_result t = ts_result u"
  shows "path_bytes t = path_bytes u \<longleftrightarrow>
    (ts_result t = TrConfigRejected \<longrightarrow> cr_path (ts_rejection t) = cr_path (ts_rejection u))"
  using assms by (auto simp: path_bytes_def path_length_byte_inject intro: diagnostic_path.equality)

lemma saved_bytes_inject:
  "ts_result t = ts_result u \<Longrightarrow> saved_bytes t = saved_bytes u \<longleftrightarrow>
     (ts_result t = TrSaved \<longrightarrow> sd_length (ts_saved t) = sd_length (ts_saved u) \<and> sd_crc32 (ts_saved t) = sd_crc32 (ts_saved u))"
  by (simp add: saved_bytes_def)

lemma lengths_bytes_inject:
  "ts_state t = ts_state u \<Longrightarrow> lengths_bytes t = lengths_bytes u \<longleftrightarrow>
     (ts_state t = TsReceiving \<longrightarrow> ts_transfer_length t = ts_transfer_length u \<and> ts_received_length t = ts_received_length u)"
  by (simp add: lengths_bytes_def)

lemma rejection_bytes_inject:
  "ts_result t = ts_result u \<Longrightarrow> rejection_bytes t = rejection_bytes u \<longleftrightarrow>
     (ts_result t = TrConfigRejected \<longrightarrow> cr_category (ts_rejection t) = cr_category (ts_rejection u)
       \<and> cr_code (ts_rejection t) = cr_code (ts_rejection u) \<and> cr_validation (ts_rejection t) = cr_validation (ts_rejection u)
       \<and> min (cr_index (ts_rejection t)) 0xFFFF = min (cr_index (ts_rejection u)) 0xFFFF)"
  by (simp add: rejection_bytes_def saturated_index_inject)

lemma apply_bytes_inject:
  "ts_result t = ts_result u \<Longrightarrow> apply_bytes t = apply_bytes u \<longleftrightarrow>
     (ts_result t = TrApplyRejected \<longrightarrow> ar_stage (ts_apply t) = ar_stage (ts_apply u)
       \<and> ar_validation (ts_apply t) = ar_validation (ts_apply u)
       \<and> apply_section (ts_apply t) = apply_section (ts_apply u)
       \<and> min (ar_index (ts_apply t)) 0xFFFF = min (ar_index (ts_apply u)) 0xFFFF
       \<and> ar_binding (ts_apply t) = ar_binding (ts_apply u) \<and> ar_engine (ts_apply t) = ar_engine (ts_apply u))"
  by (simp add: apply_bytes_def saturated_index_inject)

lemma boot_bytes_inject:
  "boot_bytes b = boot_bytes c \<and> boot_diagnostic_bytes b = boot_diagnostic_bytes c \<longleftrightarrow> visible_boot b = visible_boot c"
  by (auto simp: boot_bytes_def boot_diagnostic_bytes_def visible_boot_def boot_flag_bits_inject)

lemma status_bytes_segments:
  "status_bytes b t = status_bytes c u \<longleftrightarrow>
     ts_state t = ts_state u \<and> ts_result t = ts_result u \<and> lengths_bytes t = lengths_bytes u
     \<and> saved_bytes t = saved_bytes u \<and> rejection_bytes t = rejection_bytes u \<and> apply_bytes t = apply_bytes u
     \<and> visible_boot b = visible_boot c \<and> path_bytes t = path_bytes u"
  by (auto simp: status_bytes_def boot_bytes_inject [symmetric])

text \<open>
  C29: Config status tells exactly what a client may see. Over any boot and transfer status whose
  rejection path was built by its constructor, two encoded values are equal if and only if the
  visible parts are: a client can recover state, result, boot selection, transfer lengths and the
  detail of the result from the value, and nothing outside them (stale details of an earlier
  result, a section the stage overrides, an index above 16 bits) changes a byte. The value is 35
  bytes plus the path, never more than 61.
\<close>

theorem config_status_tells_visible:
  assumes "cr_path (ts_rejection t) = diagnostic_path_of p" and "cr_path (ts_rejection u) = diagnostic_path_of q"
  shows "((bb_bytes (encode_config_status b t) = bb_bytes (encode_config_status c u)) =
      (visible_boot b = visible_boot c \<and> visible_transfer t = visible_transfer u))
    \<and> length (bb_bytes (encode_config_status b t)) =
      (if ts_result t = TrConfigRejected then 35 + length (dp_text (diagnostic_path_of p)) else 35)
    \<and> length (bb_bytes (encode_config_status b t)) \<le> 61"
proof (intro conjI)
  have l: "length (dp_text (cr_path (ts_rejection t))) \<le> 26" "length (dp_text (cr_path (ts_rejection u))) \<le> 26"
    by (simp_all add: assms diagnostic_path_of_le)
  have "visible_transfer t = visible_transfer u \<longleftrightarrow> ts_state t = ts_state u \<and> ts_result t = ts_result u
      \<and> lengths_bytes t = lengths_bytes u \<and> saved_bytes t = saved_bytes u \<and> rejection_bytes t = rejection_bytes u
      \<and> apply_bytes t = apply_bytes u \<and> path_bytes t = path_bytes u"
    using l by (cases "ts_result u") (auto simp: visible_transfer_def visible_detail_of_def Let_def
        lengths_bytes_inject saved_bytes_inject rejection_bytes_inject apply_bytes_inject path_bytes_inject)
  then show "(bb_bytes (encode_config_status b t) = bb_bytes (encode_config_status c u)) =
      (visible_boot b = visible_boot c \<and> visible_transfer t = visible_transfer u)"
    by (auto simp: encode_config_status_bytes l status_bytes_segments)
  show len: "length (bb_bytes (encode_config_status b t)) =
      (if ts_result t = TrConfigRejected then 35 + length (dp_text (diagnostic_path_of p)) else 35)"
    by (simp add: encode_config_status_bytes [OF l(1)] status_bytes_def path_bytes_def assms)
  show "length (bb_bytes (encode_config_status b t)) \<le> 61"
    using diagnostic_path_of_le [of p] by (simp add: len)
qed

definition factory_boot :: boot_status where
  "factory_boot = \<lparr>bs_flags = \<lparr>bf_invalid_override = False, bf_override_read_failed = False,
      bf_no_config_store = False, bf_lighting_setup_failed = False\<rparr>,
     bs_active = \<lparr>ad_source = SrcFactory, ad_bytes = [0x7B, 0x7D], ad_crc32 = 0\<rparr>,
     bs_override_code = DiagNone, bs_override_validation = ValNone\<rparr>"

lemma transfer_status_new_path: "cr_path (ts_rejection transfer_status_new) = diagnostic_path_of []"
  by (simp add: transfer_status_new_def config_rejection_new_def diagnostic_path_empty_def
      diagnostic_path_of_def max_diagnostic_path_bytes_def)

text \<open>Lengths left over from another state do not reach the wire.\<close>

theorem config_status_tells_visible_witness:
  "bb_bytes (encode_config_status factory_boot (transfer_status_new\<lparr>ts_received_length := 9\<rparr>)) =
   bb_bytes (encode_config_status factory_boot transfer_status_new)"
  using conjunct1 [OF config_status_tells_visible [of "transfer_status_new\<lparr>ts_received_length := 9\<rparr>" "[]"
      transfer_status_new "[]" factory_boot factory_boot]]
  by (simp add: transfer_status_new_path) (simp add: transfer_status_new_def visible_transfer_def visible_detail_of_def)

section \<open>Diagnostic paths end between characters\<close>

text \<open>A UTF-8 character: a byte that continues none, then bytes that do.\<close>

definition utf8_char :: "bytes \<Rightarrow> bool" where
  "utf8_char c = (c \<noteq> [] \<and> \<not> continuation_byte (hd c) \<and> (\<forall>x \<in> set (tl c). continuation_byte x) \<and> length c \<le> 4)"

lemma utf8_char_nth:
  "utf8_char c \<Longrightarrow> i < length c \<Longrightarrow> continuation_byte (c ! i) = (i \<noteq> 0)"
  by (cases c; cases i) (auto simp: utf8_char_def)

lemma char_at:
  "n < length (concat cs) \<Longrightarrow> \<exists>k i. k < length cs \<and> i < length (cs ! k) \<and> n = length (concat (take k cs)) + i"
proof (induction cs arbitrary: n)
  case (Cons c cs)
  show ?case
  proof (cases "n < length c")
    case True
    then show ?thesis by (intro exI [of _ 0] exI [of _ n]) simp
  next
    case False
    with Cons.prems have "n - length c < length (concat cs)" by simp
    from Cons.IH [OF this] obtain k i where
      "k < length cs" "i < length (cs ! k)" "n - length c = length (concat (take k cs)) + i" by blast
    with False show ?thesis by (intro exI [of _ "Suc k"] exI [of _ i]) simp
  qed
qed simp

lemma nth_concat_char:
  "k < length cs \<Longrightarrow> i < length (cs ! k) \<Longrightarrow> concat cs ! (length (concat (take k cs)) + i) = cs ! k ! i"
proof -
  assume "k < length cs" "i < length (cs ! k)"
  then have "concat cs = concat (take k cs) @ cs ! k @ concat (drop (Suc k) cs)"
    by (metis concat.simps(2) concat_append id_take_nth_drop)
  with \<open>i < length (cs ! k)\<close> show ?thesis by (metis nth_append nth_append_length_plus)
qed

lemma cut_back_lead: "\<not> continuation_byte (p ! n) \<Longrightarrow> cut_back p n = n"
  by (cases n) simp_all

lemma cut_back_char:
  assumes "\<forall>c \<in> set cs. utf8_char c" and "k < length cs" and "i < length (cs ! k)"
  shows "cut_back (concat cs) (length (concat (take k cs)) + i) = length (concat (take k cs))"
  using assms(3)
proof (induction i)
  case 0
  have "\<not> continuation_byte (concat cs ! length (concat (take k cs)))"
    using nth_concat_char [OF assms(2) 0] utf8_char_nth [of "cs ! k" 0] assms(1,2) 0 by simp
  then show ?case by (simp add: cut_back_lead)
next
  case (Suc i)
  have "continuation_byte (concat cs ! (length (concat (take k cs)) + Suc i))"
    using nth_concat_char [OF assms(2) Suc.prems] utf8_char_nth [of "cs ! k" "Suc i"] assms(1,2) Suc.prems by simp
  with Suc show ?case by simp
qed

lemma take_concat_chars: "take (length (concat (take k cs))) (concat cs) = concat (take k cs)"
  by (metis append_eq_conv_conj append_take_drop_id concat_append)

text \<open>
  A stored diagnostic path never ends inside a character. For a path of UTF-8 characters, the
  constructor keeps a prefix of whole characters of at most 26 bytes - the longest one there is -
  and marks it truncated exactly when a character was left out.
\<close>

theorem diagnostic_path_keeps_characters:
  assumes "\<forall>c \<in> set cs. utf8_char c"
  shows "\<exists>k \<le> length cs. dp_text (diagnostic_path_of (concat cs)) = concat (take k cs)
    \<and> length (concat (take k cs)) \<le> 26
    \<and> dp_truncated (diagnostic_path_of (concat cs)) = (k < length cs)
    \<and> (k < length cs \<longrightarrow> 26 < length (concat (take (Suc k) cs)))"
proof (cases "26 < length (concat cs)")
  case False
  then show ?thesis
    by (intro exI [of _ "length cs"]) (simp add: diagnostic_path_of_def max_diagnostic_path_bytes_def)
next
  case True
  from char_at [OF this] obtain k i where k: "k < length cs" "i < length (cs ! k)"
    "26 = length (concat (take k cs)) + i" by blast
  then have "cut_back (concat cs) 26 = length (concat (take k cs))"
    using cut_back_char [OF assms k(1,2)] by simp
  then have "dp_text (diagnostic_path_of (concat cs)) = concat (take k cs)"
    "dp_truncated (diagnostic_path_of (concat cs))"
    using True by (simp_all only: diagnostic_path_of_def max_diagnostic_path_bytes_def if_True
        diagnostic_path.simps take_concat_chars)
  then show ?thesis using k by (intro exI [of _ k]) (auto simp: take_Suc_conv_app_nth)
qed

text \<open>Nine three-byte characters: the ninth does not fit.\<close>

theorem diagnostic_path_keeps_characters_witness:
  "\<exists>k \<le> 9. dp_text (diagnostic_path_of (concat (replicate 9 [0xE2, 0x82, 0xAC]))) = concat (take k (replicate 9 [0xE2, 0x82, 0xAC]))
    \<and> dp_truncated (diagnostic_path_of (concat (replicate 9 [0xE2, 0x82, 0xAC]))) = (k < 9)"
  using diagnostic_path_keeps_characters [of "replicate 9 [0xE2, 0x82, 0xAC]"]
  by (auto simp: utf8_char_def continuation_byte_def)

section \<open>Read-back gives the active document\<close>

lemma read_back_page_bytes:
  assumes "n \<le> length (ad_bytes d)" and "length (ad_bytes d) \<le> 0xFFFF"
  shows "map_option bb_bytes (encode_read_back_page d (of_nat n)) =
    Some ([source_code (ad_source d)] @ le16 (active_length d) @ le32 (ad_crc32 d) @ le16 (of_nat n)
      @ take 200 (drop n (ad_bytes d)))"
proof -
  have u: "unat (of_nat n :: u16) = n" "unat (active_length d) = length (ad_bytes d)"
    using assms by (simp_all add: active_length_def unat_of_nat_u16)
  then have "\<not> active_length d < of_nat n" using assms by (simp add: word_less_nat_alt)
  then show ?thesis
    by (simp add: encode_read_back_page_def u(1) puts_fit read_back_header_bytes_def max_read_back_data_bytes_def
        Let_def min_def)
qed

text \<open>A client that reads pages until one carries no data.\<close>

fun download :: "nat \<Rightarrow> active_document \<Rightarrow> nat \<Rightarrow> bytes" where
  "download 0 d n = []"
| "download (Suc fuel) d n = (case map_option bb_bytes (encode_read_back_page d (of_nat n)) of
     None \<Rightarrow> []
   | Some p \<Rightarrow> (let data = drop 9 p in if data = [] then [] else data @ download fuel d (n + length data)))"

lemma download_drop:
  "n \<le> length (ad_bytes d) \<Longrightarrow> length (ad_bytes d) \<le> 0xFFFF \<Longrightarrow> length (ad_bytes d) \<le> n + 200 * fuel
     \<Longrightarrow> download fuel d n = drop n (ad_bytes d)"
proof (induction fuel arbitrary: n)
  case (Suc fuel)
  let ?data = "take 200 (drop n (ad_bytes d))"
  have dl: "download (Suc fuel) d n = (if ?data = [] then [] else ?data @ download fuel d (n + length ?data))"
    unfolding download.simps read_back_page_bytes [OF Suc.prems(1,2)] by (simp add: le16_def le32_def Let_def)
  show ?case
  proof (cases "?data = []")
    case True
    then show ?thesis unfolding dl by simp
  next
    case False
    have "download fuel d (n + length ?data) = drop (n + length ?data) (ad_bytes d)"
      by (rule Suc.IH) (use Suc.prems in auto)
    then have "download fuel d (n + length ?data) = drop (length ?data) (drop n (ad_bytes d))"
      by (simp add: add.commute)
    moreover have "take 200 ys @ drop (length (take 200 ys)) ys = ys" for ys :: bytes
      by (cases "length ys \<le> 200") (simp_all add: min_def)
    ultimately show ?thesis unfolding dl using False by metis
  qed
qed simp

text \<open>
  C30: Reading pages from offset 0 until one is empty downloads the active document, byte for
  byte, in at most \<open>length div 200 + 1\<close> pages; every page up to the end of the document is
  served, is at most 209 bytes long, carries the document's CRC-32, and its source, length and
  CRC are the very bytes that Config status reports for the boot.
\<close>

theorem read_back_downloads_document:
  assumes "active_selected source doc = Some d" and "bs_active b = d"
    and "cr_path (ts_rejection t) = diagnostic_path_of path"
  shows "download (length doc div 200 + 1) d 0 = doc \<and> ad_crc32 d = crc32 doc
    \<and> (\<forall>n \<in> {0..length doc}. \<exists>p. encode_read_back_page d (of_nat n) = Some p \<and> length (bb_bytes p) \<le> 209
        \<and> take 7 (bb_bytes p) = take 7 (drop 3 (bb_bytes (encode_config_status b t))))"
proof (intro conjI ballI)
  from assms(1) have d: "ad_bytes d = doc" "length doc \<le> 0xFFFF" "ad_crc32 d = crc32 doc"
    by (auto simp: active_selected_def split: if_splits)
  show "ad_crc32 d = crc32 doc" by (fact d(3))
  have "download (length doc div 200 + 1) d 0 = drop 0 (ad_bytes d)"
    by (rule download_drop) (simp_all add: d)
  then show "download (length doc div 200 + 1) d 0 = doc" by (simp only: d drop_0)
  fix n assume "n \<in> {0..length doc}"
  then obtain p where p: "encode_read_back_page d (of_nat n) = Some p"
    "bb_bytes p = [source_code (ad_source d)] @ le16 (active_length d) @ le32 (ad_crc32 d) @ le16 (of_nat n)
      @ take 200 (drop n (ad_bytes d))"
    using read_back_page_bytes [of n d] d by auto
  have "bb_bytes (encode_config_status b t) = status_bytes b t"
    by (rule encode_config_status_bytes) (simp add: assms diagnostic_path_of_le)
  then have "take 7 (drop 3 (bb_bytes (encode_config_status b t))) = take 7 (bb_bytes p)"
    by (simp add: p status_bytes_def boot_bytes_def assms(2))
  then show "\<exists>p. encode_read_back_page d (of_nat n) = Some p \<and> length (bb_bytes p) \<le> 209
        \<and> take 7 (bb_bytes p) = take 7 (drop 3 (bb_bytes (encode_config_status b t)))"
    using p by simp
qed

theorem read_back_downloads_document_witness:
  "download (length (replicate 250 (0x20 :: u8)) div 200 + 1)
     \<lparr>ad_source = SrcOverride, ad_bytes = replicate 250 0x20, ad_crc32 = crc32 (replicate 250 0x20)\<rparr> 0
     = replicate 250 0x20"
proof -
  let ?d = "\<lparr>ad_source = SrcOverride, ad_bytes = replicate 250 0x20, ad_crc32 = crc32 (replicate 250 0x20)\<rparr>"
  have "active_selected SrcOverride (replicate 250 0x20) = Some ?d" by (simp add: active_selected_def)
  moreover have "bs_active (factory_boot\<lparr>bs_active := ?d\<rparr>) = ?d" by simp
  ultimately show ?thesis
    using conjunct1 [OF read_back_downloads_document [OF _ _ transfer_status_new_path]] by blast
qed

end
