(* ===== verification/Config_Transfer_Laws.thy ===== *)
theory Config_Transfer_Laws
  imports Config_Transfer Config_Status_Laws
begin

text \<open>
  Histories of the configuration transfer. A history lists the writes with their contexts and
  responses; \<open>upload_of\<close> is what the client has uploaded according to it. The invariant ties the
  open transfer to that upload; from it follow what the commit port may ever be given, that a
  pending restart is final and entered once, and that a client that follows the protocol succeeds.
\<close>

section \<open>What a history has uploaded\<close>

type_synonym write_record = "bytes \<times> write_context \<times> write_response"

text \<open>The last accepted Start with the chunks accepted after it.\<close>

record client_upload =
  cu_length :: u16
  cu_crc32 :: u32
  cu_data :: bytes
  cu_time :: int

definition upload_step :: "write_record \<Rightarrow> client_upload option \<Rightarrow> client_upload option" where
  "upload_step w u = (case w of (pdu, ctx, r) \<Rightarrow>
     if wr_error r \<noteq> AttNone then u
     else if pdu ! 0 = 1 then Some \<lparr>cu_length = read_u16 pdu 1, cu_crc32 = read_u32 pdu 3, cu_data = [], cu_time = wc_now ctx\<rparr>
     else if pdu ! 0 = 2 then map_option (\<lambda>u. u\<lparr>cu_data := cu_data u @ drop 3 pdu, cu_time := wc_now ctx\<rparr>) u
     else u)"

definition upload_of :: "write_record list \<Rightarrow> client_upload option" where
  "upload_of h = foldl (\<lambda>u w. upload_step w u) None h"

lemma upload_of_snoc [simp]: "upload_of (h @ [w]) = upload_step w (upload_of h)"
  by (simp add: upload_of_def)

section \<open>Steps\<close>

inductive transfer_step ::
  "'c committer \<Rightarrow> config_transfer \<times> 'c \<times> write_record list \<Rightarrow> config_transfer \<times> 'c \<times> write_record list \<Rightarrow> bool"
  for K :: "'c committer" where
  Write: "handle_write K pdu ctx (t, c) = (r, t', c') \<Longrightarrow> transfer_step K (t, c, h) (t', c', h @ [(pdu, ctx, r)])"
| Expire: "transfer_step K (t, c, h) (snd (expire_if_idle now t), c, h)"
| Busy: "transfer_step K (t, c, h) (snd (check_busy now t), c, h)"
| Interrupt: "transfer_step K (t, c, h) (snd (interrupt t), c, h)"
| Restart: "transfer_step K (t, c, h) (snd (enter_restart_pending t), c, h)"
| Port: "transfer_step K (t, c, h) (t, c', h)"

inductive transfer_reach ::
  "'c committer \<Rightarrow> transfer_environment \<Rightarrow> config_transfer \<times> 'c \<times> write_record list \<Rightarrow> bool"
  for K :: "'c committer" and env :: transfer_environment where
  Init: "transfer_reach K env (config_transfer_new env, c, [])"
| Step: "transfer_reach K env s \<Longrightarrow> transfer_step K s s' \<Longrightarrow> transfer_reach K env s'"

inductive_cases transfer_step_cases: "transfer_step K (t, c, h) s'"

section \<open>The invariant\<close>

definition open_ok :: "config_transfer \<Rightarrow> write_record list \<Rightarrow> bool" where
  "open_ok t h = (\<exists>u. upload_of h = Some u \<and> cu_length u = ts_transfer_length (ct_status t)
     \<and> cu_crc32 u = up_crc32 (ct_upload t) \<and> cu_time u = up_last_activity (ct_upload t)
     \<and> length (cu_data u) = unat (ts_received_length (ct_status t))
     \<and> take (unat (ts_received_length (ct_status t))) (up_buffer (ct_upload t)) = cu_data u
     \<and> 0 < unat (cu_length u) \<and> unat (cu_length u) \<le> 4096 \<and> length (cu_data u) \<le> unat (cu_length u)
     \<and> te_store_available (ct_environment t))"

definition transfer_ok :: "transfer_environment \<Rightarrow> config_transfer \<Rightarrow> write_record list \<Rightarrow> bool" where
  "transfer_ok env t h \<longleftrightarrow> ct_environment t = env \<and> length (up_buffer (ct_upload t)) = 4096
     \<and> (receiving t \<longrightarrow> open_ok t h)"

lemma transfer_ok_closed:
  "transfer_ok env t h \<Longrightarrow> ct_environment t' = ct_environment t \<Longrightarrow> up_buffer (ct_upload t') = up_buffer (ct_upload t)
     \<Longrightarrow> \<not> receiving t' \<Longrightarrow> transfer_ok env t' h'"
  by (simp add: transfer_ok_def)

lemma transfer_ok_refused:
  "transfer_ok env t h \<Longrightarrow> upload_step (pdu, ctx, r) (upload_of h) = upload_of h \<Longrightarrow> transfer_ok env t (h @ [(pdu, ctx, r)])"
proof -
  assume "transfer_ok env t h" and "upload_step (pdu, ctx, r) (upload_of h) = upload_of h"
  moreover from this(2) have "open_ok t (h @ [(pdu, ctx, r)]) = open_ok t h"
    by (simp add: open_ok_def)
  ultimately show "transfer_ok env t (h @ [(pdu, ctx, r)])"
    by (simp add: transfer_ok_def)
qed

lemma upload_step_refused [simp]: "wr_error r \<noteq> AttNone \<Longrightarrow> upload_step (pdu, ctx, r) u = u"
  by (simp add: upload_step_def)

lemma finish_simps [simp]:
  "ct_environment (finish r t) = ct_environment t"
  "up_buffer (ct_upload (finish r t)) = up_buffer (ct_upload t)"
  "\<not> receiving (finish r t)"
  "ct_status (finish r t) = transfer_status_new\<lparr>ts_result := r\<rparr>"
  by (simp_all add: finish_def receiving_def transfer_status_new_def)

lemma transfer_new_simps [simp]:
  "ts_state transfer_status_new = TsIdle" "ts_result transfer_status_new = TrNone"
  "ts_transfer_length transfer_status_new = 0" "ts_received_length transfer_status_new = 0"
  by (simp_all add: transfer_status_new_def)

text \<open>The outcomes of the four small operations.\<close>

lemma expire_cases:
  obtains "snd (expire_if_idle now t) = t" "receiving t \<Longrightarrow> now - up_last_activity (ct_upload t) < 10000"
  | "receiving t" "10000 \<le> now - up_last_activity (ct_upload t)" "snd (expire_if_idle now t) = finish TrTimedOut t"
  by (cases "receiving t \<and> 10000 \<le> now - up_last_activity (ct_upload t)")
     (auto simp: expire_if_idle_def transfer_idle_timeout_def)

lemma snd_check_busy [simp]: "snd (check_busy now t) = snd (expire_if_idle now t)"
  by (simp add: check_busy_def split_beta)

lemma transfer_ok_expire: "transfer_ok env t h \<Longrightarrow> transfer_ok env (snd (expire_if_idle now t)) h"
  by (cases rule: expire_cases [of now t]) (auto intro: transfer_ok_closed)

lemma transfer_ok_interrupt: "transfer_ok env t h \<Longrightarrow> transfer_ok env (snd (interrupt t)) h"
  by (auto simp: interrupt_def intro: transfer_ok_closed)

lemma transfer_ok_restart: "transfer_ok env t h \<Longrightarrow> transfer_ok env (snd (enter_restart_pending t)) h"
proof (cases "ts_state (ct_status t) = TsIdle")
  case True
  then show "transfer_ok env t h \<Longrightarrow> transfer_ok env (snd (enter_restart_pending t)) h"
    by (elim transfer_ok_closed) (simp_all add: enter_restart_pending_def receiving_def)
qed (simp add: enter_restart_pending_def)

section \<open>Chunks in the buffer\<close>

lemma length_copy_bytes [simp]: "length (copy_bytes n xs buf) = length buf"
  by (induction n xs buf rule: copy_bytes.induct) simp_all

lemma take_copy_bytes:
  "n + length xs \<le> length buf \<Longrightarrow> take (n + length xs) (copy_bytes n xs buf) = take n buf @ xs"
proof (induction n xs buf rule: copy_bytes.induct)
  case (2 n x xs buf)
  then have "take (Suc n + length xs) (copy_bytes (Suc n) xs (buf[n := x])) = take (Suc n) (buf[n := x]) @ xs"
    by simp
  moreover have "take (Suc n) (buf[n := x]) = take n buf @ [x]"
    using 2 by (simp add: take_Suc_conv_app_nth)
  ultimately show ?case by simp
qed simp

lemma start_cases:
  assumes "start_transfer pdu ctx t = (e, t')"
  obtains "e \<noteq> AttNone" "t' = t"
  | "e = AttNone" "\<not> receiving t" "te_store_available (ct_environment t)" "64 \<le> wc_att_mtu ctx"
    "0 < unat (read_u16 pdu 1)" "unat (read_u16 pdu 1) \<le> 4096"
    "t' = t\<lparr>ct_status := transfer_status_new\<lparr>ts_state := TsReceiving, ts_transfer_length := read_u16 pdu 1\<rparr>,
       ct_upload := (ct_upload t)\<lparr>up_crc32 := read_u32 pdu 3, up_last_activity := wc_now ctx\<rparr>\<rparr>"
proof (cases "wc_att_mtu ctx < 64 \<or> read_u16 pdu 1 = 0 \<or> max_config_bytes < read_u16 pdu 1 \<or> receiving t
    \<or> \<not> te_store_available (ct_environment t)")
  case True
  then have "e \<noteq> AttNone \<and> t' = t"
    using assms by (auto simp: start_transfer_def Let_def minimum_transfer_mtu_def split: if_splits)
  then show ?thesis using that(1) by blast
next
  case False
  have "start_transfer pdu ctx t = (AttNone,
      t\<lparr>ct_status := transfer_status_new\<lparr>ts_state := TsReceiving, ts_transfer_length := read_u16 pdu 1\<rparr>,
        ct_upload := (ct_upload t)\<lparr>up_crc32 := read_u32 pdu 3, up_last_activity := wc_now ctx\<rparr>\<rparr>)"
    using False by (simp add: start_transfer_def Let_def minimum_transfer_mtu_def)
  moreover have "0 < unat (read_u16 pdu 1)" using False by (simp add: unat_gt_0)
  moreover have "unat (read_u16 pdu 1) \<le> 4096"
    using False by (simp add: max_config_bytes_def word_less_nat_alt)
  ultimately show ?thesis using that(2) assms False by (simp add: not_less)
qed

lemma chunk_cases:
  assumes "chunk pdu ctx t = (e, t')"
  obtains "e \<noteq> AttNone" "t' = t"
  | "e = AttNone" "receiving t" "read_u16 pdu 1 = ts_received_length (ct_status t)"
    "unat (ts_received_length (ct_status t)) + length (drop 3 pdu) \<le> unat (ts_transfer_length (ct_status t))"
    "t' = t\<lparr>ct_status := (ct_status t)\<lparr>ts_received_length := of_nat (unat (ts_received_length (ct_status t)) + length (drop 3 pdu))\<rparr>,
       ct_upload := (ct_upload t)\<lparr>up_buffer := copy_bytes (unat (ts_received_length (ct_status t))) (drop 3 pdu) (up_buffer (ct_upload t)),
         up_last_activity := wc_now ctx\<rparr>\<rparr>"
proof (cases "receiving t \<and> read_u16 pdu 1 = ts_received_length (ct_status t)
    \<and> unat (ts_received_length (ct_status t)) + length (drop 3 pdu) \<le> unat (ts_transfer_length (ct_status t))")
  case True
  with assms that(2) show ?thesis by (simp add: chunk_def Let_def not_less del: length_drop)
next
  case False
  then have "e \<noteq> AttNone \<and> t' = t"
    using assms by (auto simp: chunk_def Let_def split: if_splits)
  then show ?thesis using that(1) by blast
qed

lemma transfer_ok_start:
  assumes "transfer_ok env t h" and "start_transfer pdu ctx t = (e, t')" and "wr_error r = e" and "pdu ! 0 = 1"
  shows "transfer_ok env t' (h @ [(pdu, ctx, r)])"
  using assms(2)
proof (cases rule: start_cases)
  case 1
  with assms show ?thesis by (simp add: transfer_ok_refused)
next
  case 2
  with assms show ?thesis by (simp add: transfer_ok_def open_ok_def upload_step_def receiving_def)
qed

lemma transfer_ok_chunk:
  assumes "transfer_ok env t h" and "chunk pdu ctx t = (e, t')" and "wr_error r = e" and "pdu ! 0 = 2"
  shows "transfer_ok env t' (h @ [(pdu, ctx, r)])"
  using assms(2)
proof (cases rule: chunk_cases)
  case 1
  with assms show ?thesis by (simp add: transfer_ok_refused)
next
  case 2
  let ?n = "unat (ts_received_length (ct_status t))"
  from assms(1) 2(2) obtain u where u: "upload_of h = Some u" "cu_length u = ts_transfer_length (ct_status t)"
    "cu_crc32 u = up_crc32 (ct_upload t)" "length (cu_data u) = ?n"
    "take ?n (up_buffer (ct_upload t)) = cu_data u" "0 < unat (cu_length u)" "unat (cu_length u) \<le> 4096"
    "te_store_available (ct_environment t)" and len: "length (up_buffer (ct_upload t)) = 4096"
    by (auto simp: transfer_ok_def open_ok_def)
  have fits: "?n + length (drop 3 pdu) \<le> 4096" using 2(4) u(2,7) by simp
  have "take (?n + length (drop 3 pdu)) (copy_bytes ?n (drop 3 pdu) (up_buffer (ct_upload t))) = cu_data u @ drop 3 pdu"
    using take_copy_bytes [of ?n "drop 3 pdu" "up_buffer (ct_upload t)"] fits len u(5) by simp
  moreover have "unat (of_nat (?n + length (drop 3 pdu)) :: u16) = ?n + length (drop 3 pdu)"
    using fits by (simp only: unat_of_nat_u16) simp
  ultimately show ?thesis
    using assms 2 u len by (simp add: transfer_ok_def open_ok_def upload_step_def receiving_def del: length_drop)
qed

section \<open>Writes\<close>

lemma opcode_of_eqs:
  "opcode_of x = OcStart \<longleftrightarrow> x = 1" "opcode_of x = OcChunk \<longleftrightarrow> x = 2" "opcode_of x = OcCommit \<longleftrightarrow> x = 3"
  "opcode_of x = OcAbort \<longleftrightarrow> x = 4"
  by (simp_all add: opcode_of_def)

lemma conclude_closed:
  "conclude out t = (e, t') \<Longrightarrow> ct_environment t' = ct_environment t \<and> up_buffer (ct_upload t') = up_buffer (ct_upload t)
     \<and> \<not> receiving t' \<and> (restart_pending t' = (e = AttNone))
     \<and> (e = AttNone \<longrightarrow> ts_result (ct_status t') = TrSaved)"
  by (cases out) (auto simp: Let_def receiving_def restart_pending_def)

text \<open>A commit that reaches the port, and one that does not.\<close>

lemma commit_cases:
  assumes "commit_transfer K (t, c) = (e, t', c')"
  obtains (refused) "c' = c" "t' = t" "e \<noteq> AttNone"
  | (damaged) "c' = c" "receiving t" "t' = finish TrChecksumMismatch t" "e = AttChecksumMismatch"
  | (port) out where "receiving t" "ts_transfer_length (ct_status t) \<le> ts_received_length (ct_status t)"
      "crc32 (take (unat (ts_transfer_length (ct_status t))) (up_buffer (ct_upload t))) = up_crc32 (ct_upload t)"
      "K c (take (unat (ts_transfer_length (ct_status t))) (up_buffer (ct_upload t))) = (out, c')"
      "conclude out t = (e, t')"
proof (cases "receiving t \<and> ts_transfer_length (ct_status t) \<le> ts_received_length (ct_status t)")
  case False
  then have "c' = c \<and> t' = t \<and> e \<noteq> AttNone"
    using assms by (auto simp: commit_transfer_def not_le split: if_splits)
  then show ?thesis using refused by blast
next
  case True
  then have n: "\<not> ts_received_length (ct_status t) < ts_transfer_length (ct_status t)" by (simp add: not_less)
  let ?doc = "take (unat (ts_transfer_length (ct_status t))) (up_buffer (ct_upload t))"
  show ?thesis
  proof (cases "crc32 ?doc = up_crc32 (ct_upload t)")
    case False
    with True n assms damaged show ?thesis by (simp add: commit_transfer_def Let_def)
  next
    case c: True
    obtain out c1 where k: "K c ?doc = (out, c1)" by fastforce
    obtain e1 t1 where o: "conclude out t = (e1, t1)" by fastforce
    from True n c k o assms port show ?thesis by (simp add: commit_transfer_def Let_def)
  qed
qed

text \<open>
  The branches of a write after the expiry check: refused without a change, or one of the
  accepted operations.
\<close>

lemma dispatch_write_cases:
  assumes "dispatch_write K pdu ctx (t, c) = ((e, page), t', c')"
  obtains (refused) "t' = t" "c' = c" "e \<noteq> AttNone"
  | (start) "\<not> restart_pending t" "pdu ! 0 = 1" "length pdu = 7" "start_transfer pdu ctx t = (e, t')" "c' = c" "e = AttNone"
  | (chunk) "\<not> restart_pending t" "pdu ! 0 = 2" "chunk pdu ctx t = (e, t')" "c' = c" "e = AttNone"
  | (commit) "\<not> restart_pending t" "pdu = [3]" "commit_transfer K (t, c) = (e, t', c')"
  | (abort) "\<not> restart_pending t" "pdu ! 0 = 4" "e = AttNone" "t' = (if receiving t then finish TrAborted t else t)" "c' = c"
  | (page) "pdu ! 0 \<noteq> 1" "pdu ! 0 \<noteq> 2" "e = AttNone" "t' = t" "c' = c"
proof (cases "pdu = [] \<or> \<not> known_opcode (pdu ! 0) \<or> \<not> valid_length (opcode_of (pdu ! 0)) (length pdu) (wc_att_mtu ctx) \<or> restart_pending t")
  case True
  then have "t' = t \<and> c' = c \<and> e \<noteq> AttNone"
    using assms by (auto simp: dispatch_write_def split: if_splits)
  then show ?thesis using refused by blast
next
  case False
  then have v: "pdu \<noteq> []" "valid_length (opcode_of (pdu ! 0)) (length pdu) (wc_att_mtu ctx)" "\<not> restart_pending t"
    and d: "dispatch_write K pdu ctx (t, c) = (case opcode_of (pdu ! 0) of
       OcStart \<Rightarrow> (case start_transfer pdu ctx t of (e, t') \<Rightarrow> ((e, None), t', c))
     | OcChunk \<Rightarrow> (case chunk pdu ctx t of (e, t') \<Rightarrow> ((e, None), t', c))
     | OcCommit \<Rightarrow> (case commit_transfer K (t, c) of (e, tc') \<Rightarrow> ((e, None), tc'))
     | OcAbort \<Rightarrow> (case abort_transfer t of (e, t') \<Rightarrow> ((e, None), t', c))
     | OcSelectReadPage \<Rightarrow> (select_read_page pdu t, t, c))"
    by (simp_all add: dispatch_write_def)
  show ?thesis
  proof (cases "opcode_of (pdu ! 0)")
    case OcStart
    with assms d have s: "start_transfer pdu ctx t = (e, t')" "c' = c" by (auto split: prod.splits)
    show ?thesis
    proof (cases "e = AttNone")
      case True
      with s v OcStart start show ?thesis by (simp add: opcode_of_eqs)
    next
      case False
      with s(1) have "t' = t" by (cases rule: start_cases) simp_all
      with refused s False show ?thesis by blast
    qed
  next
    case OcChunk
    with assms d have s: "chunk pdu ctx t = (e, t')" "c' = c" by (auto split: prod.splits)
    show ?thesis
    proof (cases "e = AttNone")
      case True
      with s v OcChunk chunk show ?thesis by (simp add: opcode_of_eqs)
    next
      case False
      with s(1) have "t' = t" by (cases rule: chunk_cases) simp_all
      with refused s False show ?thesis by blast
    qed
  next
    case OcCommit
    with v have "length pdu = 1" "pdu ! 0 = 3" by (simp_all add: opcode_of_eqs)
    then have "pdu = [3]" by (cases pdu) simp_all
    moreover from OcCommit assms d have "commit_transfer K (t, c) = (e, t', c')" by (auto split: prod.splits)
    ultimately show ?thesis using commit v by blast
  next
    case OcAbort
    with assms d v abort show ?thesis by (simp add: abort_transfer_def opcode_of_eqs)
  next
    case OcSelectReadPage
    with opcode_of_eqs [of "pdu ! 0"] have n: "pdu ! 0 \<noteq> 1" "pdu ! 0 \<noteq> 2" by auto
    from OcSelectReadPage assms d have "t' = t" "c' = c" by simp_all
    with n refused page show ?thesis by (cases "e = AttNone") blast+
  qed
qed

lemma transfer_ok_dispatch:
  assumes "transfer_ok env t h" and "dispatch_write K pdu ctx (t, c) = ((e, page), t', c')" and "wr_error r = e"
  shows "transfer_ok env t' (h @ [(pdu, ctx, r)])"
  using assms(2)
proof (cases rule: dispatch_write_cases)
  case refused
  with assms show ?thesis by (simp add: transfer_ok_refused)
next
  case start
  with assms transfer_ok_start show ?thesis by blast
next
  case chunk
  with assms transfer_ok_chunk show ?thesis by blast
next
  case commit
  note c = this
  from c(3) show ?thesis
  proof (cases rule: commit_cases)
    case refused
    with assms show ?thesis by (simp add: transfer_ok_refused)
  next
    case damaged
    with assms(1) show ?thesis by (auto intro: transfer_ok_closed)
  next
    case (port out)
    with assms(1) conclude_closed [OF port(5)] show ?thesis by (auto intro: transfer_ok_closed)
  qed
next
  case abort
  show ?thesis
  proof (cases "receiving t")
    case True
    with abort assms(1) show ?thesis by (auto intro: transfer_ok_closed)
  next
    case False
    with abort assms(1) show ?thesis by (auto intro: transfer_ok_closed)
  qed
next
  case page
  with assms show ?thesis by (intro transfer_ok_refused) (simp_all add: upload_step_def)
qed

lemma handle_write_dispatch:
  assumes "handle_write K pdu ctx (t, c) = (r, t', c')"
  obtains page where "dispatch_write K pdu ctx (snd (expire_if_idle (wc_now ctx) t), c) = ((wr_error r, page), t', c')"
    "wr_entered_restart r = (\<not> restart_pending t \<and> restart_pending t')"
  using assms by (auto simp: handle_write_def split: prod.splits)

lemma transfer_ok_write:
  assumes "transfer_ok env t h" and "handle_write K pdu ctx (t, c) = (r, t', c')"
  shows "transfer_ok env t' (h @ [(pdu, ctx, r)])"
  using assms(2)
proof (cases rule: handle_write_dispatch)
  case (1 page)
  from transfer_ok_dispatch [OF transfer_ok_expire [OF assms(1)] 1(1) refl] show ?thesis .
qed

lemma transfer_reach_ok: "transfer_reach K env (t, c, h) \<Longrightarrow> transfer_ok env t h"
proof (induction "(t, c, h)" arbitrary: t c h rule: transfer_reach.induct)
  case (Init c)
  then show ?case by (simp add: transfer_ok_def config_transfer_new_def receiving_def max_config_bytes_def)
next
  case (Step s)
  obtain t0 c0 h0 where s: "s = (t0, c0, h0)" by (cases s)
  with Step(2) have ok: "transfer_ok env t0 h0" by blast
  from Step(3) [unfolded s] show ?case
    by (cases rule: transfer_step_cases)
       (use ok in \<open>auto intro: transfer_ok_write transfer_ok_expire transfer_ok_interrupt transfer_ok_restart\<close>)
qed

section \<open>Only a verified upload is committed\<close>

text \<open>
  C7: The commit port is given the client's upload or nothing. In any history of writes, timeouts,
  interruptions and reverts, a write changes the state of the commit port only by one call on
  exactly the bytes of the chunks accepted since the last accepted Start; they are as many as that
  Start declared (1 to 4096), their CRC-32 is the one it declared, the last of them is less than
  ten seconds old, the write is a Commit, and the response is the one the port's outcome calls for.
\<close>

theorem commit_gets_verified_upload:
  assumes "transfer_reach K env (t, c, h)" and "handle_write K pdu ctx (t, c) = (r, t', c')" and "c' \<noteq> c"
  shows "\<exists>u out. upload_of h = Some u \<and> K c (cu_data u) = (out, c') \<and> pdu = [3]
    \<and> length (cu_data u) = unat (cu_length u) \<and> 0 < unat (cu_length u) \<and> unat (cu_length u) \<le> 4096
    \<and> crc32 (cu_data u) = cu_crc32 u \<and> wc_now ctx - cu_time u < 10000
    \<and> wr_error r = (case out of OutSaved _ \<Rightarrow> AttNone | OutConfigRejected _ \<Rightarrow> AttConfigRejected
        | OutApplyRejected _ \<Rightarrow> AttApplyRejected | OutStorageFailed \<Rightarrow> AttStorageFailure)"
proof -
  let ?t = "snd (expire_if_idle (wc_now ctx) t)"
  from assms(2) obtain page where d: "dispatch_write K pdu ctx (?t, c) = ((wr_error r, page), t', c')"
    by (rule handle_write_dispatch)
  from d have m: "pdu = [3]" "commit_transfer K (?t, c) = (wr_error r, t', c')"
    by (cases rule: dispatch_write_cases; use assms(3) in simp)+
  from m(2) obtain out where p: "receiving ?t" "ts_transfer_length (ct_status ?t) \<le> ts_received_length (ct_status ?t)"
      "crc32 (take (unat (ts_transfer_length (ct_status ?t))) (up_buffer (ct_upload ?t))) = up_crc32 (ct_upload ?t)"
      "K c (take (unat (ts_transfer_length (ct_status ?t))) (up_buffer (ct_upload ?t))) = (out, c')"
      "conclude out ?t = (wr_error r, t')"
    by (cases rule: commit_cases) (use assms(3) in auto)
  have e: "?t = t" "wc_now ctx - up_last_activity (ct_upload t) < 10000"
    using p(1) by (cases rule: expire_cases [of "wc_now ctx" t]; simp)+
  note p = p [unfolded e(1)]
  from transfer_reach_ok [OF assms(1)] p(1) obtain u where u: "upload_of h = Some u"
      "cu_length u = ts_transfer_length (ct_status t)" "cu_crc32 u = up_crc32 (ct_upload t)"
      "cu_time u = up_last_activity (ct_upload t)" "length (cu_data u) = unat (ts_received_length (ct_status t))"
      "take (unat (ts_received_length (ct_status t))) (up_buffer (ct_upload t)) = cu_data u"
      "0 < unat (cu_length u)" "unat (cu_length u) \<le> 4096" "length (cu_data u) \<le> unat (cu_length u)"
    by (auto simp: transfer_ok_def open_ok_def)
  have n: "unat (ts_received_length (ct_status t)) = unat (cu_length u)"
    using p(2) u(2,5,9) by (simp add: word_le_nat_alt)
  have "wr_error r = (case out of OutSaved _ \<Rightarrow> AttNone | OutConfigRejected _ \<Rightarrow> AttConfigRejected
        | OutApplyRejected _ \<Rightarrow> AttApplyRejected | OutStorageFailed \<Rightarrow> AttStorageFailure)"
    using p(5) by (cases out) (auto simp: Let_def)
  with u p n m e show ?thesis by (intro exI [of _ u] exI [of _ out]) simp
qed

section \<open>A pending restart is final\<close>

lemma restart_pending_stays:
  assumes "transfer_step K (t, c, h) (t', c', h')" and "restart_pending t"
  shows "t' = t"
  using assms(1)
proof cases
  case (Write pdu ctx r)
  have "\<not> receiving t" using assms(2) by (simp add: receiving_def restart_pending_def)
  then have "snd (expire_if_idle (wc_now ctx) t) = t" by (simp add: expire_if_idle_def)
  with Write(2) obtain page where "dispatch_write K pdu ctx (t, c) = ((wr_error r, page), t', c')"
    by (auto elim: handle_write_dispatch)
  then show ?thesis by (cases rule: dispatch_write_cases) (use assms(2) in simp_all)
qed (use assms(2) in \<open>auto simp: expire_if_idle_def interrupt_def enter_restart_pending_def receiving_def restart_pending_def\<close>)

definition restarts :: "write_record list \<Rightarrow> write_record list" where
  "restarts h = filter (\<lambda>(pdu, ctx, r). wr_entered_restart r) h"

definition restarts_ok :: "config_transfer \<times> 'c \<times> write_record list \<Rightarrow> bool" where
  "restarts_ok s \<longleftrightarrow> (case s of (t, c, h) \<Rightarrow> restarts h = [] \<or>
     (restart_pending t \<and> ts_result (ct_status t) = TrSaved
      \<and> (\<exists>ctx r. restarts h = [([3], ctx, r)] \<and> wr_error r = AttNone)))"

lemma entered_by_commit:
  assumes "handle_write K pdu ctx (t, c) = (r, t', c')" and "wr_entered_restart r"
  shows "pdu = [3] \<and> wr_error r = AttNone \<and> restart_pending t' \<and> ts_result (ct_status t') = TrSaved \<and> \<not> restart_pending t"
proof -
  let ?t = "snd (expire_if_idle (wc_now ctx) t)"
  from assms(1) obtain page where d: "dispatch_write K pdu ctx (?t, c) = ((wr_error r, page), t', c')"
      "wr_entered_restart r = (\<not> restart_pending t \<and> restart_pending t')"
    by (rule handle_write_dispatch)
  with assms(2) have n: "\<not> restart_pending t" "restart_pending t'" by simp_all
  have x: "\<not> restart_pending ?t"
    using n(1) by (cases rule: expire_cases [of "wc_now ctx" t]) (simp_all add: restart_pending_def)
  from d(1) show ?thesis
  proof (cases rule: dispatch_write_cases)
    case commit
    from commit(3) show ?thesis
    proof (cases rule: commit_cases)
      case (port out)
      from conclude_closed [OF port(5)] n commit(2) show ?thesis by simp
    qed (use n x in \<open>simp_all add: restart_pending_def\<close>)
  next
    case start
    from start(4) show ?thesis
      by (cases rule: start_cases) (use n x in \<open>simp_all add: restart_pending_def\<close>)
  next
    case chunk
    from chunk(3) show ?thesis
      by (cases rule: chunk_cases) (use n x in \<open>simp_all add: restart_pending_def\<close>)
  qed (use n x in \<open>auto simp: restart_pending_def split: if_splits\<close>)
qed

lemma restarts_ok_reach: "transfer_reach K env s \<Longrightarrow> restarts_ok s"
proof (induction rule: transfer_reach.induct)
  case (Init c)
  then show ?case by (simp add: restarts_ok_def restarts_def)
next
  case (Step s s')
  obtain t c h t' c' h' where s: "s = (t, c, h)" "s' = (t', c', h')" by (cases s, cases s')
  note step = Step(2) [unfolded s]
  show ?case
  proof (cases "restart_pending t")
    case True
    have t: "t' = t" by (rule restart_pending_stays [OF step True])
    from step show ?thesis
    proof cases
      case (Write pdu ctx r)
      have "\<not> wr_entered_restart r" using entered_by_commit [OF Write(2)] True by blast
      with Step(3) s t Write show ?thesis by (simp add: restarts_ok_def restarts_def)
    qed (use Step(3) s t in \<open>simp_all add: restarts_ok_def\<close>)
  next
    case False
    with Step(3) s have e: "restarts h = []" by (simp add: restarts_ok_def)
    from step show ?thesis
    proof cases
      case (Write pdu ctx r)
      with e s entered_by_commit [OF Write(2)] show ?thesis
        by (cases "wr_entered_restart r") (simp_all add: restarts_ok_def restarts_def)
    qed (use e s in \<open>simp_all add: restarts_ok_def\<close>)
  qed
qed

text \<open>The restart is entered once and is final. Over any history at most one write reports that it
  entered the pending restart; it is a Commit that succeeded, and from then on the restart stays
  pending with result Saved. Once a restart is pending, by that Commit or by a revert, no write,
  timeout or interruption changes the transfer or calls the port.
\<close>

theorem restart_entered_once:
  assumes "transfer_reach K env (t, c, h)"
  shows "(restarts h = [] \<or> (restart_pending t \<and> ts_result (ct_status t) = TrSaved
      \<and> (\<exists>ctx r. restarts h = [([3], ctx, r)] \<and> wr_error r = AttNone)))
    \<and> (restart_pending t \<longrightarrow> (\<forall>pdu ctx. snd (handle_write K pdu ctx (t, c)) = (t, c)))
    \<and> (restart_pending t \<longrightarrow> (\<forall>t' c' h'. transfer_step K (t, c, h) (t', c', h') \<longrightarrow> t' = t))"
proof (intro conjI impI allI)
  show "restarts h = [] \<or> (restart_pending t \<and> ts_result (ct_status t) = TrSaved
      \<and> (\<exists>ctx r. restarts h = [([3], ctx, r)] \<and> wr_error r = AttNone))"
    using restarts_ok_reach [OF assms] by (simp add: restarts_ok_def)
next
  fix pdu ctx assume p: "restart_pending t"
  obtain r t' c' where w: "handle_write K pdu ctx (t, c) = (r, t', c')" by (metis prod.collapse)
  from restart_pending_stays [OF Write [OF w] p] have t: "t' = t" .
  have "snd (expire_if_idle (wc_now ctx) t) = t"
    using p by (simp add: expire_if_idle_def receiving_def restart_pending_def)
  with w obtain page where "dispatch_write K pdu ctx (t, c) = ((wr_error r, page), t', c')"
    by (auto elim: handle_write_dispatch)
  then have "c' = c" by (cases rule: dispatch_write_cases) (use p in simp_all)
  with t w show "snd (handle_write K pdu ctx (t, c)) = (t, c)" by simp
next
  fix t' c' h' assume "restart_pending t" "transfer_step K (t, c, h) (t', c', h')"
  then show "t' = t" by (intro restart_pending_stays)
qed

section \<open>A client that follows the protocol succeeds\<close>

definition start_pdu :: "bytes \<Rightarrow> bytes" where
  "start_pdu doc = 1 # le16 (of_nat (length doc)) @ le32 (crc32 doc)"

definition chunk_pdu :: "nat \<Rightarrow> bytes \<Rightarrow> bytes" where
  "chunk_pdu offset data = 2 # le16 (of_nat offset) @ data"

text \<open>Chunks are written one after the other, each with its time.\<close>

fun chunk_writes :: "u16 \<Rightarrow> nat \<Rightarrow> (bytes \<times> int) list \<Rightarrow> (bytes \<times> write_context) list" where
  "chunk_writes mtu offset [] = []"
| "chunk_writes mtu offset ((data, time) # cs) =
     (chunk_pdu offset data, \<lparr>wc_att_mtu = mtu, wc_now = time\<rparr>) # chunk_writes mtu (offset + length data) cs"

fun write_all :: "'c committer \<Rightarrow> (bytes \<times> write_context) list \<Rightarrow> config_transfer \<times> 'c \<Rightarrow> write_response list \<times> config_transfer \<times> 'c" where
  "write_all K [] s = ([], s)"
| "write_all K ((pdu, ctx) # ws) s = (case handle_write K pdu ctx s of (r, s') \<Rightarrow>
     (case write_all K ws s' of (rs, s'') \<Rightarrow> (r # rs, s'')))"

fun gaps_ok :: "int \<Rightarrow> int list \<Rightarrow> bool" where
  "gaps_ok now [] = True"
| "gaps_ok now (x # xs) = (x - now < 10000 \<and> gaps_ok x xs)"

definition midway :: "bytes \<Rightarrow> bytes \<Rightarrow> int \<Rightarrow> config_transfer \<Rightarrow> bool" where
  "midway doc data now t \<longleftrightarrow> receiving t \<and> ts_transfer_length (ct_status t) = of_nat (length doc)
     \<and> up_crc32 (ct_upload t) = crc32 doc \<and> ts_received_length (ct_status t) = of_nat (length data)
     \<and> length (up_buffer (ct_upload t)) = 4096 \<and> take (length data) (up_buffer (ct_upload t)) = data
     \<and> up_last_activity (ct_upload t) = now"

lemma midway_live: "midway doc data now t \<Longrightarrow> time - now < 10000 \<Longrightarrow> snd (expire_if_idle time t) = t"
  by (simp add: midway_def expire_if_idle_def transfer_idle_timeout_def)

lemma receiving_not_restart [simp]: "receiving t \<Longrightarrow> \<not> restart_pending t"
  by (simp add: receiving_def restart_pending_def)

lemma small_length [simp]: "length (xs :: bytes) \<le> 4096 \<Longrightarrow> unat (of_nat (length xs) :: u16) = length xs"
  by (simp add: unat_of_nat_u16)

lemma chunk_write_step:
  assumes "midway doc data now t" and "time - now < 10000" and "xs \<noteq> []" and "length xs + 6 \<le> unat mtu"
    and "length (data @ xs) \<le> length doc" and "length doc \<le> 4096"
  shows "\<exists>r t'. handle_write K (chunk_pdu (length data) xs) \<lparr>wc_att_mtu = mtu, wc_now = time\<rparr> (t, c) = (r, t', c)
    \<and> wr_error r = AttNone \<and> \<not> wr_entered_restart r \<and> midway doc (data @ xs) time t'"
proof -
  let ?pdu = "chunk_pdu (length data) xs" and ?ctx = "\<lparr>wc_att_mtu = mtu, wc_now = time\<rparr>"
  from assms(1) have m: "receiving t" "ts_transfer_length (ct_status t) = of_nat (length doc)"
    "ts_received_length (ct_status t) = of_nat (length data)" "length (up_buffer (ct_upload t)) = 4096"
    "take (length data) (up_buffer (ct_upload t)) = data" "up_crc32 (ct_upload t) = crc32 doc"
    by (simp_all add: midway_def)
  have off: "read_u16 ?pdu 1 = of_nat (length data)"
    by (rule read_u16_le16) (simp add: chunk_pdu_def)
  have dat: "drop 3 ?pdu = xs" by (simp add: chunk_pdu_def le16_def)
  have op: "opcode_of (?pdu ! 0) = OcChunk" "known_opcode (?pdu ! 0)" "?pdu \<noteq> []"
    by (simp_all add: chunk_pdu_def opcode_of_def known_opcode_def)
  have "length ?pdu = length xs + 3" by (simp add: chunk_pdu_def)
  then have len: "valid_length OcChunk (length ?pdu) mtu"
  proof -
    have "int (unat mtu) = uint mtu" by simp
    with assms(4) have "int (length xs + 3) \<le> uint mtu - 3" by linarith
    moreover have "0 < length xs" using assms(3) by simp
    ultimately show ?thesis using \<open>length ?pdu = length xs + 3\<close> by (simp only: valid_length.simps) (simp add: Suc_le_eq)
  qed
  define t' where "t' = t\<lparr>ct_status := (ct_status t)\<lparr>ts_received_length := of_nat (length (data @ xs))\<rparr>,
       ct_upload := (ct_upload t)\<lparr>up_buffer := copy_bytes (length data) xs (up_buffer (ct_upload t)), up_last_activity := time\<rparr>\<rparr>"
  have "chunk ?pdu ?ctx t = (AttNone, t')"
    using m assms(5,6) by (simp add: chunk_def off [simplified] dat t'_def Let_def)
  then have d: "dispatch_write K ?pdu ?ctx (t, c) = ((AttNone, None), t', c)"
    using op len m(1) by (simp add: dispatch_write_def)
  have "take (length data + length xs) (copy_bytes (length data) xs (up_buffer (ct_upload t))) = data @ xs"
    using take_copy_bytes [of "length data" xs "up_buffer (ct_upload t)"] m assms(5,6) by simp
  then have "midway doc (data @ xs) time t'"
    using m by (simp add: midway_def t'_def receiving_def)
  then show ?thesis
    using d midway_live [OF assms(1,2)] m(1) by (simp add: handle_write_def midway_def)
qed

lemma chunk_writes_run:
  assumes "midway doc data now t" and "gaps_ok now (map snd cs)"
    and "\<forall>(xs, time) \<in> set cs. xs \<noteq> [] \<and> length xs + 6 \<le> unat mtu"
    and "length (data @ concat (map fst cs)) \<le> length doc" and "length doc \<le> 4096"
  shows "\<exists>rs t'. write_all K (chunk_writes mtu (length data) cs) (t, c) = (rs, t', c)
    \<and> (\<forall>r \<in> set rs. wr_error r = AttNone \<and> \<not> wr_entered_restart r)
    \<and> midway doc (data @ concat (map fst cs)) (last (now # map snd cs)) t'"
  using assms
proof (induction cs arbitrary: data now t)
  case (Cons x cs)
  obtain xs time where x: "x = (xs, time)" by fastforce
  have "\<exists>r t'. handle_write K (chunk_pdu (length data) xs) \<lparr>wc_att_mtu = mtu, wc_now = time\<rparr> (t, c) = (r, t', c)
    \<and> wr_error r = AttNone \<and> \<not> wr_entered_restart r \<and> midway doc (data @ xs) time t'"
    using Cons.prems x by (intro chunk_write_step) auto
  then obtain r t1 where s: "handle_write K (chunk_pdu (length data) xs) \<lparr>wc_att_mtu = mtu, wc_now = time\<rparr> (t, c) = (r, t1, c)"
    "wr_error r = AttNone" "\<not> wr_entered_restart r" "midway doc (data @ xs) time t1" by blast
  have "\<exists>rs t'. write_all K (chunk_writes mtu (length (data @ xs)) cs) (t1, c) = (rs, t', c)
    \<and> (\<forall>r \<in> set rs. wr_error r = AttNone \<and> \<not> wr_entered_restart r)
    \<and> midway doc ((data @ xs) @ concat (map fst cs)) (last (time # map snd cs)) t'"
    using Cons.prems x by (intro Cons.IH [OF s(4)]) auto
  with s x show ?case by (auto simp: split_beta)
qed simp

lemma write_all_append:
  "write_all K (ws @ vs) s = (case write_all K ws s of (rs, s') \<Rightarrow> (case write_all K vs s' of (qs, s'') \<Rightarrow> (rs @ qs, s'')))"
  by (induction ws arbitrary: s) (auto split: prod.splits)

lemma start_write_step:
  assumes "\<not> receiving t" and "\<not> restart_pending t" and "te_store_available (ct_environment t)"
    and "length (up_buffer (ct_upload t)) = 4096" and "64 \<le> mtu" and "doc \<noteq> []" and "length doc \<le> 4096"
  shows "\<exists>r t'. handle_write K (start_pdu doc) \<lparr>wc_att_mtu = mtu, wc_now = time\<rparr> (t, c) = (r, t', c)
    \<and> wr_error r = AttNone \<and> \<not> wr_entered_restart r \<and> midway doc [] time t'"
proof -
  let ?pdu = "start_pdu doc" and ?ctx = "\<lparr>wc_att_mtu = mtu, wc_now = time\<rparr>"
  have r: "read_u16 ?pdu 1 = of_nat (length doc)" "read_u32 ?pdu 3 = crc32 doc"
    by (rule read_u16_le16 read_u32_le32, simp add: start_pdu_def le16_def)+
  have u: "unat (of_nat (length doc) :: u16) = length doc" using assms(7) by simp
  have "(of_nat (length doc) :: u16) \<noteq> 0" "\<not> max_config_bytes < (of_nat (length doc) :: u16)"
    using u assms(6,7) by (auto simp: max_config_bytes_def word_less_nat_alt unat_eq_0 [symmetric] simp del: unat_eq_0)
  then obtain t' where s: "start_transfer ?pdu ?ctx t = (AttNone, t')" "midway doc [] time t'"
    using assms(1,3-5) r(1) [simplified]
    by (simp add: start_transfer_def r Let_def minimum_transfer_mtu_def midway_def receiving_def not_less [symmetric])
  have "known_opcode (?pdu ! 0)" "opcode_of (?pdu ! 0) = OcStart" "length ?pdu = 7"
    by (simp_all add: start_pdu_def known_opcode_def opcode_of_def)
  then have "dispatch_write K ?pdu ?ctx (t, c) = ((AttNone, None), t', c)"
    using s(1) assms(2) by (auto simp: dispatch_write_def)
  moreover have "snd (expire_if_idle time t) = t" using assms(1) by (simp add: expire_if_idle_def)
  ultimately show ?thesis using s(2) by (simp add: handle_write_def midway_def)
qed

lemma commit_write_step:
  assumes "midway doc doc now t" and "time - now < 10000" and "length doc \<le> 4096" and "K c doc = (OutSaved d, c')"
  shows "\<exists>r t'. handle_write K [3] \<lparr>wc_att_mtu = mtu, wc_now = time\<rparr> (t, c) = (r, t', c')
    \<and> wr_error r = AttNone \<and> wr_entered_restart r \<and> ts_state (ct_status t') = TsRestartPending
    \<and> ts_result (ct_status t') = TrSaved \<and> ts_saved (ct_status t') = d"
proof -
  have "take (unat (of_nat (length doc) :: u16)) (up_buffer (ct_upload t)) = doc"
    using assms(1,3) by (simp add: midway_def)
  then have "commit_transfer K (t, c) = (case conclude (OutSaved d) t of (e, t') \<Rightarrow> (e, t', c'))"
    using assms by (simp add: commit_transfer_def midway_def Let_def)
  then have "dispatch_write K [3] \<lparr>wc_att_mtu = mtu, wc_now = time\<rparr> (t, c) =
      (case conclude (OutSaved d) t of (e, t') \<Rightarrow> ((e, None), t', c'))"
    using assms(1) by (simp add: dispatch_write_def known_opcode_def opcode_of_def midway_def split_beta)
  then show ?thesis
    using midway_live [OF assms(1,2)] assms(1)
    by (simp add: handle_write_def Let_def midway_def restart_pending_def [of "t\<lparr>ct_status := s\<rparr>" for s]
        restart_pending_def [of "finish r t\<lparr>ct_status := s\<rparr>" for r s])
qed

text \<open>C38: A client that follows the protocol gets its configuration saved. From any reachable state
  without an open transfer or pending restart, on a boot with a config store, any document of 1 to
  4096 bytes written as a Start, the document cut into any non-empty chunks that fit the MTU (at
  least 64), and a Commit, with less than ten seconds between one write and the next, has every
  write accepted; the commit port is called on exactly the document, and when it saves, the
  transfer ends pending the restart with the saved length and CRC, entered by the last write.
\<close>

theorem upload_succeeds:
  assumes "transfer_reach K env (t, c, h)" and "\<not> receiving t" and "\<not> restart_pending t"
    and "te_store_available env" and "64 \<le> mtu" and "doc \<noteq> []" and "length doc \<le> 4096"
    and "concat (map fst cs) = doc" and "\<forall>(xs, time) \<in> set cs. xs \<noteq> [] \<and> length xs + 6 \<le> unat mtu"
    and "gaps_ok begun (map snd cs @ [finished])" and "K c doc = (OutSaved d, c')"
  shows "\<exists>rs r t'. write_all K ((start_pdu doc, \<lparr>wc_att_mtu = mtu, wc_now = begun\<rparr>) # chunk_writes mtu 0 cs
        @ [([3], \<lparr>wc_att_mtu = mtu, wc_now = finished\<rparr>)]) (t, c) = (rs @ [r], t', c')
    \<and> (\<forall>x \<in> set rs. wr_error x = AttNone \<and> \<not> wr_entered_restart x) \<and> wr_error r = AttNone \<and> wr_entered_restart r
    \<and> ts_state (ct_status t') = TsRestartPending \<and> ts_result (ct_status t') = TrSaved \<and> ts_saved (ct_status t') = d"
proof -
  have g: "gaps_ok now (ts @ [e]) \<longleftrightarrow> gaps_ok now ts \<and> e - last (now # ts) < 10000" for now ts e
    by (induction ts arbitrary: now) auto
  from transfer_reach_ok [OF assms(1)] have b: "length (up_buffer (ct_upload t)) = 4096" "ct_environment t = env"
    by (simp_all add: transfer_ok_def)
  from start_write_step [OF assms(2,3) _ b(1) assms(5-7)] assms(4) b(2) obtain r0 t0 where
    s: "handle_write K (start_pdu doc) \<lparr>wc_att_mtu = mtu, wc_now = begun\<rparr> (t, c) = (r0, t0, c)"
      "wr_error r0 = AttNone" "\<not> wr_entered_restart r0" "midway doc [] begun t0" by metis
  from chunk_writes_run [OF s(4), of cs mtu K c] assms(7-10) obtain rs t1 where
    k: "write_all K (chunk_writes mtu 0 cs) (t0, c) = (rs, t1, c)"
      "\<forall>r \<in> set rs. wr_error r = AttNone \<and> \<not> wr_entered_restart r" "midway doc doc (last (begun # map snd cs)) t1"
    by (auto simp: g)
  have "finished - last (begun # map snd cs) < 10000" using assms(10) unfolding g by simp
  from commit_write_step [where K = K and c = c and doc = doc and d = d and c' = c' and mtu = mtu, OF k(3) this assms(7,11)] obtain r t2 where
    f: "handle_write K [3] \<lparr>wc_att_mtu = mtu, wc_now = finished\<rparr> (t1, c) = (r, t2, c')"
      "wr_error r = AttNone" "wr_entered_restart r" "ts_state (ct_status t2) = TsRestartPending"
      "ts_result (ct_status t2) = TrSaved" "ts_saved (ct_status t2) = d" by metis
  have "write_all K ((start_pdu doc, \<lparr>wc_att_mtu = mtu, wc_now = begun\<rparr>) # chunk_writes mtu 0 cs
        @ [([3], \<lparr>wc_att_mtu = mtu, wc_now = finished\<rparr>)]) (t, c) = ((r0 # rs) @ [r], t2, c')"
    by (simp add: s(1) k(1) f(1) write_all_append)
  with s k f show ?thesis by (intro exI [of _ "r0 # rs"] exI [of _ r] exI [of _ t2]) simp
qed

section \<open>A recorded upload\<close>

text \<open>A port that saves everything and keeps what it was given.\<close>

definition recording_port :: "bytes list committer" where
  "recording_port log doc = (OutSaved \<lparr>sd_length = of_nat (length doc), sd_crc32 = crc32 doc\<rparr>, log @ [doc])"

definition sample_environment :: transfer_environment where
  "sample_environment = \<lparr>te_store_available = True, te_active = active_document_new\<rparr>"

definition sample_context :: "int \<Rightarrow> write_context" where
  "sample_context now = \<lparr>wc_att_mtu = 100, wc_now = now\<rparr>"

definition sample_document :: bytes where
  "sample_document = [0x7B, 0x7D]"

lemma sample_midway:
  "\<exists>t h. transfer_reach recording_port sample_environment (t, [], h) \<and> midway sample_document sample_document 7 t"
proof -
  let ?t = "config_transfer_new sample_environment"
  have n: "\<not> receiving ?t" "\<not> restart_pending ?t" "te_store_available (ct_environment ?t)"
    "length (up_buffer (ct_upload ?t)) = 4096"
    by (simp_all add: config_transfer_new_def receiving_def restart_pending_def sample_environment_def max_config_bytes_def)
  have d: "sample_document \<noteq> []" "length sample_document \<le> 4096" by (simp_all add: sample_document_def)
  from start_write_step [OF n _ d, of 100 recording_port 0 "[]"] obtain r t where
    s: "handle_write recording_port (start_pdu sample_document) (sample_context 0) (?t, []) = (r, t, [])"
      "midway sample_document [] 0 t" by (auto simp: sample_context_def)
  from chunk_write_step [OF s(2), of 7 sample_document 100 recording_port "[]"] d obtain r' t' where
    k: "handle_write recording_port (chunk_pdu 0 sample_document) (sample_context 7) (t, []) = (r', t', [])"
      "midway sample_document sample_document 7 t'"
    by (auto simp: sample_context_def sample_document_def)
  from Step [OF Step [OF Init Write [OF s(1)]] Write [OF k(1)]] k(2) show ?thesis by blast
qed

lemma sample_commit:
  "\<exists>t h r t'. transfer_reach recording_port sample_environment (t, [], h)
     \<and> handle_write recording_port [3] (sample_context 9) (t, []) = (r, t', [sample_document])
     \<and> restart_pending t' \<and> wr_entered_restart r"
proof -
  from sample_midway obtain t h where t: "transfer_reach recording_port sample_environment (t, [], h)"
    "midway sample_document sample_document 7 t" by blast
  have k: "recording_port [] sample_document =
      (OutSaved \<lparr>sd_length = of_nat (length sample_document), sd_crc32 = crc32 sample_document\<rparr>, [sample_document])"
    by (simp add: recording_port_def)
  have "length sample_document \<le> 4096" "9 - 7 < (10000 :: int)" by (simp_all add: sample_document_def)
  from commit_write_step [where mtu = 100 and K = recording_port and c = "[]" and doc = sample_document, OF t(2) this(2,1) k] t(1) show ?thesis
    by (auto simp: sample_context_def restart_pending_def)
qed

theorem commit_gets_verified_upload_witness:
  "\<exists>t h r t' u. transfer_reach recording_port sample_environment (t, [], h)
     \<and> handle_write recording_port [3] (sample_context 9) (t, []) = (r, t', [sample_document])
     \<and> upload_of h = Some u \<and> cu_data u = sample_document \<and> crc32 sample_document = cu_crc32 u"
proof -
  from sample_commit obtain t h r t' where t: "transfer_reach recording_port sample_environment (t, [], h)"
    "handle_write recording_port [3] (sample_context 9) (t, []) = (r, t', [sample_document])" by blast
  from commit_gets_verified_upload [OF t] obtain u out where
    "upload_of h = Some u" "recording_port [] (cu_data u) = (out, [sample_document])" "crc32 (cu_data u) = cu_crc32 u"
    by auto
  with t show ?thesis by (auto simp: recording_port_def)
qed

theorem restart_entered_once_witness:
  "\<exists>t h. transfer_reach recording_port sample_environment (t, [sample_document], h) \<and> restart_pending t
     \<and> length (restarts h) = 1
     \<and> snd (handle_write recording_port (start_pdu sample_document) (sample_context 20) (t, [sample_document])) = (t, [sample_document])"
proof -
  from sample_commit obtain t h r t' where t: "transfer_reach recording_port sample_environment (t, [], h)"
    "handle_write recording_port [3] (sample_context 9) (t, []) = (r, t', [sample_document])"
    "restart_pending t'" "wr_entered_restart r" by blast
  from Step [OF t(1) Write [OF t(2)]] have reach:
    "transfer_reach recording_port sample_environment (t', [sample_document], h @ [([3], sample_context 9, r)])" .
  have "restarts (h @ [([3], sample_context 9, r)]) \<noteq> []" using t(4) by (simp add: restarts_def)
  with restart_entered_once [OF reach] t(3) reach show ?thesis by fastforce
qed

theorem upload_succeeds_witness:
  "\<exists>rs r t'. write_all recording_port ((start_pdu sample_document, sample_context 0)
       # chunk_writes 100 0 [([0x7B], 5), ([0x7D], 900)] @ [([3], sample_context 1000)])
       (config_transfer_new sample_environment, []) = (rs @ [r], t', [sample_document])
     \<and> wr_error r = AttNone \<and> ts_state (ct_status t') = TsRestartPending"
proof -
  have k: "recording_port [] sample_document =
      (OutSaved \<lparr>sd_length = of_nat (length sample_document), sd_crc32 = crc32 sample_document\<rparr>, [sample_document])"
    by (simp add: recording_port_def)
  have "\<not> receiving (config_transfer_new sample_environment)" "\<not> restart_pending (config_transfer_new sample_environment)"
    by (simp_all add: config_transfer_new_def receiving_def restart_pending_def)
  from upload_succeeds [OF Init [where K = recording_port and c = "[]"] this, where cs = "[([0x7B], 5), ([0x7D], 900)]" and begun = 0 and finished = 1000
      and mtu = 100 and doc = sample_document, OF _ _ _ _ _ _ _ k]
  show ?thesis by (auto simp: sample_environment_def sample_document_def sample_context_def)
qed

end
