(* ===== verification/Companion_Link_Laws.thy ===== *)
theory Companion_Link_Laws
  imports Companion_Link Config_Transfer_Laws
begin

text \<open>
  What the access rules promise over histories: the debouncer follows the last stable level, an
  unbonded link has one deadline that requests cannot push on, the bond hook guard never forwards
  to itself, and a command is performed only when no transfer is open.
\<close>

section \<open>User key\<close>

text \<open>The level of the last three equal samples, newest first; a key starts as pressed.\<close>

fun settled :: "user_key_level list \<Rightarrow> user_key_level" where
  "settled (a # b # c # xs) = (if a = b \<and> b = c then a else settled (b # c # xs))"
| "settled _ = Pressed"

fun debouncer_run :: "user_key_debouncer \<Rightarrow> user_key_level list \<Rightarrow> bool list" where
  "debouncer_run d [] = []"
| "debouncer_run d (x # xs) = (case debouncer_sample x d of (b, d') \<Rightarrow> b # debouncer_run d' xs)"

definition debouncer_follows :: "user_key_level list \<Rightarrow> user_key_debouncer \<Rightarrow> bool" where
  "debouncer_follows hist d \<longleftrightarrow> uk_stable d = settled hist
     \<and> unat (uk_changed_samples d) = length (takeWhile (\<lambda>x. x \<noteq> settled hist) hist)
     \<and> length (takeWhile (\<lambda>x. x \<noteq> settled hist) hist) < 3"

lemma settled_Cons:
  "settled (x # hist) = (if x \<noteq> settled hist \<and> 2 \<le> length (takeWhile (\<lambda>y. y \<noteq> settled hist) hist) then x else settled hist)"
proof (cases hist)
  case (Cons a xs)
  note a = this
  show ?thesis
  proof (cases xs)
    case Nil
    with a show ?thesis by (cases x) auto
  next
    case (Cons b ys)
    have two: "x = y \<or> x = z \<or> y = z" for x y z :: user_key_level
      by (cases x; cases y; cases z) simp_all
    have "settled (a # b # ys) = a \<or> settled (a # b # ys) \<noteq> a" by simp
    then show ?thesis
      using a Cons two [of x a "settled hist"] two [of a b "settled hist"] by (auto split: if_splits)
  qed
qed simp

lemma debouncer_step:
  assumes "debouncer_follows hist d" and "debouncer_sample x d = (b, d')"
  shows "debouncer_follows (x # hist) d'" and "b = (settled hist = Released \<and> settled (x # hist) = Pressed)"
proof -
  let ?n = "length (takeWhile (\<lambda>y. y \<noteq> settled hist) hist)"
  have f: "uk_stable d = settled hist" "unat (uk_changed_samples d) = ?n" "?n < 3"
    using assms(1) by (simp_all add: debouncer_follows_def)
  have n: "unat (uk_changed_samples d + 1) = Suc ?n"
    using f(2,3) by (simp add: unat_word_ariths)
  have less: "(uk_changed_samples d + 1 < debounce_samples) = (Suc ?n < 3)"
    unfolding word_less_nat_alt n by (simp add: debounce_samples_def)
  show "debouncer_follows (x # hist) d'"
  proof (cases "x = settled hist")
    case True
    with assms(2) f have "d' = d\<lparr>uk_changed_samples := 0\<rparr>" by (simp add: debouncer_sample_def)
    with True f show ?thesis by (simp add: debouncer_follows_def settled_Cons)
  next
    case False
    show ?thesis
    proof (cases "Suc ?n < 3")
      case True
      with False assms(2) f less have "d' = d\<lparr>uk_changed_samples := uk_changed_samples d + 1\<rparr>"
        by (simp add: debouncer_sample_def Let_def)
      with True False f n show ?thesis by (simp add: debouncer_follows_def settled_Cons)
    next
      case n: False
      with False assms(2) f less have "d' = \<lparr>uk_stable = x, uk_changed_samples = 0\<rparr>"
        by (simp add: debouncer_sample_def Let_def)
      with n False f show ?thesis by (simp add: debouncer_follows_def settled_Cons)
    qed
  qed
  show "b = (settled hist = Released \<and> settled (x # hist) = Pressed)"
    using assms(2) f less by (cases x; cases "settled hist")
      (auto simp: debouncer_sample_def settled_Cons Let_def split: if_splits)
qed

lemma debouncer_run_nth:
  "debouncer_follows hist d \<Longrightarrow> i < length xs \<Longrightarrow>
     debouncer_run d xs ! i = (settled (rev (take i xs) @ hist) = Released \<and> settled (rev (take (Suc i) xs) @ hist) = Pressed)"
proof (induction xs arbitrary: hist d i)
  case (Cons x xs)
  obtain b d' where s: "debouncer_sample x d = (b, d')" by fastforce
  note step = debouncer_step [OF Cons.prems(1) s]
  show ?case
  proof (cases i)
    case 0
    then show ?thesis using s step(2) by simp
  next
    case (Suc k)
    with Cons.IH [OF step(1), of k] Cons.prems(2) s show ?thesis by simp
  qed
qed simp

text \<open>The key debouncer reports a press at exactly one sample of each press: the sample that
  completes three equal samples of Pressed when the last three equal samples before were
  Released. A key held since boot, bounces shorter than three samples and a key that stays down
  report nothing.
\<close>

theorem debouncer_reports_presses:
  assumes "i < length xs"
  shows "debouncer_run debouncer_new xs ! i =
    (settled (rev (take i xs)) = Released \<and> settled (rev (take (Suc i) xs)) = Pressed)"
proof -
  have "debouncer_follows [] debouncer_new" by (simp add: debouncer_follows_def debouncer_new_def)
  from debouncer_run_nth [OF this assms] show ?thesis by simp
qed

theorem debouncer_reports_presses_witness:
  "debouncer_run debouncer_new [Pressed, Released, Released, Released, Pressed, Released, Pressed, Pressed, Pressed, Pressed] ! 8"
  using debouncer_reports_presses [of 8 "[Pressed, Released, Released, Released, Pressed, Released, Pressed, Pressed, Pressed, Pressed]"]
  by (simp add: numeral_eq_Suc)

section \<open>Links without an accepted bond\<close>

datatype link_event =
    KeysWritten
  | PairingPdu int
  | Encryption encrypted_link
  | Revoke
  | Access int link_encryption peer_bond

fun link_apply :: "link_event \<Rightarrow> link_security \<Rightarrow> link_security" where
  "link_apply KeysWritten l = bond_keys_written l"
| "link_apply (PairingPdu now) l = accepted_pairing_pdu now l"
| "link_apply (Encryption e) l = snd (link_encrypted e l)"
| "link_apply Revoke l = revoke_bond l"
| "link_apply (Access now e b) l = snd (check_protected_access now e b l)"

definition link_run :: "int \<Rightarrow> link_event list \<Rightarrow> link_security" where
  "link_run begun es = foldl (\<lambda>l e. link_apply e l) (link_new begun) es"

lemma link_run_simps [simp]:
  "link_run begun [] = link_new begun"
  "link_run begun (es @ [e]) = link_apply e (link_run begun es)"
  by (simp_all add: link_run_def)

text \<open>The times of the events, of the accepted pairing PDUs and of the unencrypted accesses.\<close>

fun event_time :: "link_event \<Rightarrow> int option" where
  "event_time (PairingPdu now) = Some now"
| "event_time (Access now e b) = Some now"
| "event_time _ = None"

definition event_times :: "link_event list \<Rightarrow> int list" where
  "event_times es = List.map_filter event_time es"

definition pdu_times :: "link_event list \<Rightarrow> int list" where
  "pdu_times es = List.map_filter (\<lambda>e. case e of PairingPdu now \<Rightarrow> Some now | _ \<Rightarrow> None) es"

definition rejection_times :: "link_event list \<Rightarrow> int list" where
  "rejection_times es = List.map_filter (\<lambda>e. case e of Access now Unencrypted b \<Rightarrow> Some now | _ \<Rightarrow> None) es"

definition grants_bond :: "link_event \<Rightarrow> bool" where
  "grants_bond e = (case e of Encryption l \<Rightarrow> is_accepted_bond l | _ \<Rightarrow> False)"

lemma map_filter_snoc:
  "List.map_filter f (xs @ [x]) = List.map_filter f xs @ (case f x of None \<Rightarrow> [] | Some y \<Rightarrow> [y])"
  by (simp add: map_filter_def split: option.split)

lemma link_frame:
  "ls_connected_at (link_apply e l) = ls_connected_at l"
  "\<not> grants_bond e \<Longrightarrow> \<not> ls_accepted l \<Longrightarrow> \<not> ls_accepted (link_apply e l)"
  by (cases e; simp add: bond_keys_written_def accepted_pairing_pdu_def link_encrypted_def revoke_bond_def
      check_protected_access_def Let_def grants_bond_def)+

definition idle_from :: "int \<Rightarrow> link_event list \<Rightarrow> int" where
  "idle_from begun es = Max (set (begun # pdu_times es @ take 1 (rejection_times es)))"

lemma Max_with:
  "Max (set (b # ps @ y # rs)) = max y (Max (set (b # ps @ rs)))"
proof -
  have "set (b # ps @ y # rs) = insert y (set (b # ps @ rs))" by auto
  then show ?thesis by (simp only: Max_insert [of "set (b # ps @ rs)"] finite_set) simp
qed

lemma idle_from_pdu: "idle_from begun (es @ [PairingPdu now]) = max now (idle_from begun es)"
  unfolding idle_from_def
  using Max_with [of begun "pdu_times es" now "take 1 (rejection_times es)"]
  by (simp only: pdu_times_def rejection_times_def map_filter_snoc link_event.case option.case
      append_assoc append.simps append_Nil2)

lemma idle_from_access:
  "idle_from begun (es @ [Access now enc b]) =
    (if enc = Unencrypted \<and> rejection_times es = [] then max now (idle_from begun es) else idle_from begun es)"
proof (cases enc)
  case Unencrypted
  have r: "rejection_times (es @ [Access now enc b]) = rejection_times es @ [now]"
    by (simp add: Unencrypted rejection_times_def map_filter_snoc)
  have p: "pdu_times (es @ [Access now enc b]) = pdu_times es"
    by (simp add: pdu_times_def map_filter_snoc)
  show ?thesis
  proof (cases "rejection_times es")
    case Nil
    then show ?thesis unfolding idle_from_def r p
      using Max_with [of begun "pdu_times es" now "[]"] Unencrypted by simp
  next
    case (Cons x xs)
    then show ?thesis unfolding idle_from_def r p by simp
  qed
next
  case Encrypted
  then show ?thesis
    by (simp add: idle_from_def pdu_times_def rejection_times_def map_filter_snoc)
qed

lemma unbonded_state:
  "sorted (begun # event_times es) \<Longrightarrow> \<not> list_ex grants_bond es \<Longrightarrow>
     \<not> ls_accepted (link_run begun es) \<and> ls_connected_at (link_run begun es) = begun
     \<and> ls_rejection_seen (link_run begun es) = (rejection_times es \<noteq> [])
     \<and> ls_idle_since (link_run begun es) = idle_from begun es
     \<and> (\<forall>x \<in> set (pdu_times es @ rejection_times es). x \<in> set (event_times es))"
proof (induction es rule: rev_induct)
  case Nil
  then show ?case by (simp add: link_new_def pdu_times_def rejection_times_def idle_from_def map_filter_def)
next
  case (snoc e es)
  let ?l = "link_run begun es"
  have s: "sorted (begun # event_times es)" and later: "\<forall>x \<in> set (begun # event_times es). \<forall>y. event_time e = Some y \<longrightarrow> x \<le> y"
    using snoc.prems(1) by (auto simp: event_times_def map_filter_snoc sorted_append split: option.splits)
  have n: "\<not> list_ex grants_bond es" "\<not> grants_bond e" using snoc.prems(2) by simp_all
  note IH = snoc.IH [OF s n(1)]
  have bound: "idle_from begun es \<le> y" if "event_time e = Some y" for y
    unfolding idle_from_def using later that IH
    by (subst Max_le_iff) (auto dest: in_set_takeD)
  show ?case
  proof (cases e)
    case (PairingPdu now)
    with bound [of now] IH show ?thesis
      by (simp add: accepted_pairing_pdu_def idle_from_pdu max_absorb1)
        (auto simp: pdu_times_def rejection_times_def event_times_def map_filter_snoc)
  next
    case (Access now enc b)
    with bound [of now] IH show ?thesis
      by (cases enc) (auto simp: check_protected_access_def idle_from_access max_absorb1 max_absorb2
          pdu_times_def rejection_times_def event_times_def map_filter_snoc)
  qed (use IH n in \<open>auto simp: bond_keys_written_def link_encrypted_def revoke_bond_def Let_def grants_bond_def
        pdu_times_def rejection_times_def event_times_def idle_from_def map_filter_snoc\<close>)
qed

text \<open>
  C39: A link without an accepted bond has one deadline, and only pairing pushes it on. Over any
  events in time order of a link that connected at \<open>begun\<close> and never had encryption with an
  accepted bond, every protected access is refused, and the link must be dropped from exactly 30
  seconds after the latest of its connection, its first refused unencrypted access and its
  accepted pairing PDUs on - or from 90 seconds after the connection if that is earlier. Repeated
  accesses never move it.
\<close>

theorem unbonded_link_deadline:
  assumes "sorted (begun # event_times es)" and "\<not> list_ex grants_bond es"
  shows "must_drop now (link_run begun es) =
      (min (Max (set (begun # pdu_times es @ take 1 (rejection_times es))) + 30000) (begun + 90000) \<le> now)
    \<and> fst (check_protected_access now enc bond (link_run begun es)) \<noteq> Allow
    \<and> snd (link_encrypted e (link_run begun es)) = (link_run begun es)\<lparr>ls_accepted := is_accepted_bond e\<rparr>"
  using unbonded_state [OF assms]
  by (simp add: must_drop_def drop_deadline_def unbonded_link_idle_limit_def unbonded_link_absolute_limit_def
      check_protected_access_def link_encrypted_def Let_def idle_from_def)

text \<open>Three accesses: only the first, at 20 s, counts.\<close>

theorem unbonded_link_deadline_witness:
  "must_drop 50000 (link_run 0 [Access 20000 Unencrypted NoBond, Access 40000 Unencrypted NoBond, KeysWritten])
   \<and> \<not> must_drop 49999 (link_run 0 [Access 20000 Unencrypted NoBond, Access 40000 Unencrypted NoBond, KeysWritten])"
  using unbonded_link_deadline [of 0 "[Access 20000 Unencrypted NoBond, Access 40000 Unencrypted NoBond, KeysWritten]" 50000]
    unbonded_link_deadline [of 0 "[Access 20000 Unencrypted NoBond, Access 40000 Unencrypted NoBond, KeysWritten]" 49999]
  by (simp add: event_times_def pdu_times_def rejection_times_def map_filter_def grants_bond_def)

section \<open>Hook guard\<close>

text \<open>The host stack overwrites the slot, the controller ensures the guard.\<close>

datatype hook_event = HostWrites "nat option" | Ensure

fun hook_run :: "hook_event list \<Rightarrow> nat option \<times> hook_guard \<Rightarrow> nat option \<times> hook_guard" where
  "hook_run [] s = s"
| "hook_run (HostWrites f # es) (slot, g) = hook_run es (f, g)"
| "hook_run (Ensure # es) (slot, g) = hook_run es (snd (hook_ensure slot g))"

lemma hook_ensure_keeps:
  "hg_guard (snd (snd (hook_ensure slot g))) = hg_guard g"
  "hg_original g \<noteq> hg_guard g \<Longrightarrow> hg_original (snd (snd (hook_ensure slot g))) \<noteq> hg_guard g"
  by (simp_all add: hook_ensure_def)

lemma hook_run_inv:
  "hook_run es (slot, g) = (slot', g') \<Longrightarrow> hg_original g \<noteq> hg_guard g \<Longrightarrow>
     hg_guard g' = hg_guard g \<and> hg_original g' \<noteq> hg_guard g'"
proof (induction es arbitrary: slot g)
  case (Cons x es)
  show ?case
  proof (cases x)
    case (HostWrites f)
    with Cons.prems Cons.IH [of f g] show ?thesis by auto
  next
    case Ensure
    obtain st s1 g1 where e: "hook_ensure slot g = (st, s1, g1)" by (cases "hook_ensure slot g")
    have k: "hg_guard g1 = hg_guard g" "hg_original g1 \<noteq> hg_guard g1"
      using hook_ensure_keeps [where slot = slot and g = g] Cons.prems(2) e by simp_all
    have "hook_run es (s1, g1) = (slot', g')" using Cons.prems(1) Ensure e by simp
    from Cons.IH [OF this k(2)] k(1) show ?thesis by auto
  qed
qed simp

text \<open>
  The bond hook guard never forwards to itself. Whatever functions the host writes into the
  slot, the guard itself included, and however often the guard is ensured, the function it
  forwards to is never the guard. Ensuring an occupied slot with a forward target available leaves
  the guard in the slot; ensuring it again changes nothing; only an empty slot, or a slot that
  held the guard from the start, is reported as missing.
\<close>

theorem hook_guard_never_recurses:
  assumes "hook_run es (slot0, hook_guard_new (Some guard)) = (slot, g)" and "hook_ensure slot g = (st, slot', g')"
  shows "hg_original g' \<noteq> Some guard
    \<and> (st = Missing) = (slot = None \<or> (slot = Some guard \<and> hg_original g = None))
    \<and> (st \<noteq> Missing \<longrightarrow> slot' = Some guard \<and> hg_original g' \<noteq> None \<and> hook_ensure slot' g' = (AlreadyInstalled, slot', g'))
    \<and> (st = Installed \<longrightarrow> hg_original g' = slot)"
proof -
  obtain orig where g: "g = \<lparr>hg_guard = Some guard, hg_original = orig\<rparr>" and o: "orig \<noteq> Some guard"
    using hook_run_inv [OF assms(1)] by (cases g) (auto simp: hook_guard_new_def)
  consider "slot = Some guard" "orig = None" | "slot = Some guard" "orig \<noteq> None" | "slot = None"
    | f where "slot = Some f" "f \<noteq> guard"
    by (cases slot) auto
  then show ?thesis
    by cases (use assms(2) g o in \<open>auto simp: hook_ensure_def\<close>)
qed

theorem hook_guard_never_recurses_witness:
  "hook_run [Ensure, HostWrites (Some 9)] (Some 5, hook_guard_new (Some 7)) = (Some 9, \<lparr>hg_guard = Some 7, hg_original = Some 5\<rparr>)
   \<and> hook_ensure (Some 7) \<lparr>hg_guard = Some 7, hg_original = Some 9\<rparr> =
       (AlreadyInstalled, Some 7, \<lparr>hg_guard = Some 7, hg_original = Some 9\<rparr>)"
proof -
  have run: "hook_run [Ensure, HostWrites (Some 9)] (Some 5, hook_guard_new (Some 7)) =
      (Some 9, \<lparr>hg_guard = Some 7, hg_original = Some 5\<rparr>)"
    by (simp add: hook_ensure_def hook_guard_new_def)
  have ens: "hook_ensure (Some 9) \<lparr>hg_guard = Some 7, hg_original = Some 5\<rparr> =
      (Installed, Some 7, \<lparr>hg_guard = Some 7, hg_original = Some 9\<rparr>)"
    by (simp add: hook_ensure_def)
  from hook_guard_never_recurses [OF run ens] run show ?thesis by simp
qed

section \<open>Commands and the transfer\<close>

text \<open>
  A command runs only on its own complement and never beside a transfer. At any time of any
  transfer state, a Command write is accepted if and only if it is one of the two opcodes followed
  by its complement while, after discarding an expired upload, no upload is open and no restart
  is pending; the restart that a revert needs can then always be entered. Two accepted writes of
  different commands differ in both bytes.
\<close>

theorem command_needs_idle_transfer:
  assumes "check_busy now t = (b, t')"
  shows "(cd_command (decode_command pdu (bc_busy b)) = Some cmd) =
      (pdu = (case cmd of RevertToFactory \<Rightarrow> [1, 0xFE] | ClearBonds \<Rightarrow> [2, 0xFD])
       \<and> \<not> restart_pending t \<and> (receiving t \<longrightarrow> 10000 \<le> now - up_last_activity (ct_upload t)))
    \<and> (cd_error (decode_command pdu (bc_busy b)) = AttNone) = (cd_command (decode_command pdu (bc_busy b)) \<noteq> None)
    \<and> (cd_command (decode_command pdu (bc_busy b)) \<noteq> None \<longrightarrow> fst (enter_restart_pending t'))"
proof -
  have idle: "bc_busy b = (ts_state (ct_status t') \<noteq> TsIdle)"
    using assms by (auto simp: check_busy_def split_beta)
  have t': "t' = snd (expire_if_idle now t)" using assms by (metis snd_check_busy snd_conv)
  have free: "(ts_state (ct_status t') = TsIdle) =
      (\<not> restart_pending t \<and> (receiving t \<longrightarrow> 10000 \<le> now - up_last_activity (ct_upload t)))"
    unfolding t'
    by (cases "ts_state (ct_status t)")
      (auto simp: expire_if_idle_def receiving_def restart_pending_def transfer_idle_timeout_def)
  have two: "length pdu = 2 \<longleftrightarrow> pdu = [pdu ! 0, pdu ! 1]"
    by (auto simp: numeral_2_eq_2 length_Suc_conv)
  have dec: "(cd_command (decode_command pdu busy) = Some c) =
      (\<not> busy \<and> pdu = (case c of RevertToFactory \<Rightarrow> [1, 0xFE] | ClearBonds \<Rightarrow> [2, 0xFD]))" for busy c
  proof -
    have "(cd_command (decode_command pdu busy) = Some c) =
      (\<not> busy \<and> length pdu = 2 \<and> pdu ! 1 = pdu ! 0 XOR 0xFF \<and> known_command (pdu ! 0) = Some c)"
      by (auto simp: decode_command_def command_rejected_def split: option.splits)
    also have "\<dots> = (\<not> busy \<and> pdu = (case c of RevertToFactory \<Rightarrow> [1, 0xFE] | ClearBonds \<Rightarrow> [2, 0xFD]))"
      by (cases c) (auto simp: two known_command_def split: if_splits)
    finally show ?thesis .
  qed
  have err: "(cd_error (decode_command pdu busy) = AttNone) = (cd_command (decode_command pdu busy) \<noteq> None)" for busy
    by (auto simp: decode_command_def command_rejected_def split: option.splits)
  have "fst (enter_restart_pending t')" if "cd_command (decode_command pdu (bc_busy b)) \<noteq> None"
    using that dec [of "bc_busy b"] idle by (auto simp: enter_restart_pending_def)
  with dec err idle free show ?thesis by auto
qed

theorem command_needs_idle_transfer_witness:
  "cd_command (decode_command [2, 0xFD] (bc_busy (fst (check_busy 5 (config_transfer_new sample_environment))))) = Some ClearBonds"
  using command_needs_idle_transfer [of 5 "config_transfer_new sample_environment" _ _ "[2, 0xFD]" ClearBonds]
  by (cases "check_busy 5 (config_transfer_new sample_environment)")
    (simp add: config_transfer_new_def receiving_def restart_pending_def)

end
