(* ===== verification/Led_Zone.thy ===== *)
theory Led_Zone
  imports Prelude
begin

text \<open>
  Zones of the LED strip (\<open>components/local_argb_sink_contract/include/local_argb/lighting_zone.hpp\<close>,
  \<open>components/local_argb/private_include/local_argb/led_zone.hpp\<close>, \<open>src/led_zone.cpp\<close>). A pixel
  frame is the list of its pixels. \<open>std::size_t\<close> and the 64-bit intermediate amounts are natural
  numbers: the first section of laws shows that no intermediate reaches \<open>2 ^ 64\<close>.
\<close>

section \<open>Values\<close>

record rgb =
  red :: u8
  green :: u8
  blue :: u8

type_synonym pixel_frame = "rgb list"

definition black :: rgb where
  "black = \<lparr>red = 0, green = 0, blue = 0\<rparr>"

definition max_led_count :: nat where
  "max_led_count = 300"

definition default_led_count :: nat where
  "default_led_count = 100"

definition black_frame :: pixel_frame where
  "black_frame = replicate max_led_count black"

datatype fill_direction = StartToEnd | EndToStart | CenterOut

record led_zone =
  lz_start :: nat
  lz_length :: nat
  lz_direction :: fill_direction

record fill_fraction =
  ff_numerator :: u32
  ff_denominator :: u32

definition fraction_empty :: fill_fraction where
  "fraction_empty = \<lparr>ff_numerator = 0, ff_denominator = 1\<rparr>"

definition fraction_full :: fill_fraction where
  "fraction_full = \<lparr>ff_numerator = 1, ff_denominator = 1\<rparr>"

definition fraction_of :: "u32 \<Rightarrow> u32 \<Rightarrow> fill_fraction" where
  "fraction_of n d = (if d = 0 then fraction_empty
     else \<lparr>ff_numerator = (if d < n then d else n), ff_denominator = d\<rparr>)"

definition fraction_eq :: "fill_fraction \<Rightarrow> fill_fraction \<Rightarrow> bool" where
  "fraction_eq l r = (unat (ff_numerator l) * unat (ff_denominator r) = unat (ff_numerator r) * unat (ff_denominator l))"

section \<open>Validation\<close>

datatype zone_validity = ZoneValid | EmptyZone | ZoneOutOfRange | UnknownDirection

definition validate_zone :: "led_zone \<Rightarrow> nat \<Rightarrow> zone_validity" where
  "validate_zone z pixel_count = (if lz_length z = 0 then EmptyZone
     else if max_led_count < pixel_count \<or> pixel_count \<le> lz_start z \<or> pixel_count - lz_start z < lz_length z
       then ZoneOutOfRange
     else ZoneValid)"

section \<open>Drawing\<close>

definition scale_channel :: "u8 \<Rightarrow> nat \<Rightarrow> nat \<Rightarrow> u8" where
  "scale_channel channel n d = of_nat (unat channel * n div d)"

definition scale_rgb :: "rgb \<Rightarrow> nat \<Rightarrow> nat \<Rightarrow> rgb" where
  "scale_rgb c n d = \<lparr>red = scale_channel (red c) n d, green = scale_channel (green c) n d,
     blue = scale_channel (blue c) n d\<rparr>"

datatype step = Forward | Backward

record run =
  rn_origin :: nat
  rn_step :: step
  rn_capacity :: nat
  rn_amount :: nat
  rn_unit :: nat

definition run_at :: "run \<Rightarrow> nat \<Rightarrow> nat" where
  "run_at r offset = (if rn_step r = Forward then rn_origin r + offset else rn_origin r - offset)"

definition write_pixel :: "nat \<Rightarrow> rgb \<Rightarrow> pixel_frame \<Rightarrow> pixel_frame" where
  "write_pixel index c frame = (if c \<noteq> black then frame[index := c] else frame)"

definition light_run :: "run \<Rightarrow> rgb \<Rightarrow> pixel_frame \<Rightarrow> pixel_frame" where
  "light_run r c frame = (let whole = rn_amount r div rn_unit r;
       lit = (if whole < rn_capacity r then whole else rn_capacity r);
       frame1 = fold (\<lambda>offset f. f[run_at r offset := c]) [0..<lit] frame;
       remainder = rn_amount r mod rn_unit r
     in if remainder \<noteq> 0 \<and> lit < rn_capacity r
        then write_pixel (run_at r lit) (scale_rgb c remainder (rn_unit r)) frame1 else frame1)"

definition light_sides :: "nat \<Rightarrow> nat \<Rightarrow> nat \<Rightarrow> nat \<Rightarrow> nat \<Rightarrow> rgb \<Rightarrow> pixel_frame \<Rightarrow> pixel_frame" where
  "light_sides centre right_origin half side_amount unit c frame =
     (if half = 0 \<or> side_amount = 0 then frame
      else light_run \<lparr>rn_origin = right_origin, rn_step = Forward, rn_capacity = half, rn_amount = side_amount, rn_unit = 2 * unit\<rparr> c
        (light_run \<lparr>rn_origin = centre - 1, rn_step = Backward, rn_capacity = half, rn_amount = side_amount, rn_unit = 2 * unit\<rparr> c frame))"

definition light_center_out :: "led_zone \<Rightarrow> nat \<Rightarrow> nat \<Rightarrow> rgb \<Rightarrow> pixel_frame \<Rightarrow> pixel_frame" where
  "light_center_out z lit_amount unit c frame = (let half = lz_length z div 2; centre = lz_start z + half in
     if lz_length z mod 2 \<noteq> 0 then
       let frame1 = (if unit \<le> lit_amount then frame[centre := c]
             else if lit_amount \<noteq> 0 then write_pixel centre (scale_rgb c lit_amount unit) frame else frame)
       in light_sides centre (centre + 1) half (if unit < lit_amount then lit_amount - unit else 0) unit c frame1
     else light_sides centre centre half lit_amount unit c frame)"

definition fill_zone :: "led_zone \<Rightarrow> fill_fraction \<Rightarrow> rgb \<Rightarrow> pixel_frame \<Rightarrow> zone_validity \<times> pixel_frame" where
  "fill_zone z fraction c frame = (let validity = validate_zone z max_led_count in
     if validity \<noteq> ZoneValid then (validity, frame)
     else let lit_amount = lz_length z * unat (ff_numerator fraction); unit = unat (ff_denominator fraction) in
       (ZoneValid, case lz_direction z of
          StartToEnd \<Rightarrow> light_run \<lparr>rn_origin = lz_start z, rn_step = Forward, rn_capacity = lz_length z,
            rn_amount = lit_amount, rn_unit = unit\<rparr> c frame
        | EndToStart \<Rightarrow> light_run \<lparr>rn_origin = lz_start z + lz_length z - 1, rn_step = Backward, rn_capacity = lz_length z,
            rn_amount = lit_amount, rn_unit = unit\<rparr> c frame
        | CenterOut \<Rightarrow> light_center_out z lit_amount unit c frame))"

section \<open>What a pixel of a zone shows\<close>

definition fraction_ok :: "fill_fraction \<Rightarrow> bool" where
  "fraction_ok f \<longleftrightarrow> 0 < unat (ff_denominator f) \<and> unat (ff_numerator f) \<le> unat (ff_denominator f)"

lemma fraction_ok_intros [simp, intro]:
  "fraction_ok fraction_empty" "fraction_ok fraction_full" "fraction_ok (fraction_of n d)"
  by (auto simp: fraction_ok_def fraction_empty_def fraction_full_def fraction_of_def unat_gt_0
      word_less_nat_alt not_less)

text \<open>
  A pixel that receives the share \<open>amount / unit\<close> of full brightness, between none and all:
  full colour from a whole share on, dimmed and rounded down below it, and untouched when the
  share is zero or rounds to black.
\<close>

definition pixel_share :: "nat \<Rightarrow> nat \<Rightarrow> rgb \<Rightarrow> rgb \<Rightarrow> rgb" where
  "pixel_share amount unit c old = (if unit \<le> amount then c
     else if amount = 0 \<or> scale_rgb c amount unit = black then old else scale_rgb c amount unit)"

text \<open>Each pixel of a run gets what the pixels before it leave.\<close>

lemma nth_update_at: "k < length xs \<Longrightarrow> xs[j := x] ! k = (if j = k then x else xs ! k)"
  by (cases "j = k") simp_all

lemma length_fold_update: "length (fold (\<lambda>k f. f[g k := c]) ks frame) = length frame"
  by (induction ks arbitrary: frame) simp_all

lemma nth_fold_update:
  "i < length frame \<Longrightarrow> fold (\<lambda>k f. f[g k := c]) ks frame ! i = (if i \<in> g ` set ks then c else frame ! i)"
  by (induction ks arbitrary: frame) (auto simp: nth_list_update)

lemma length_light_run [simp]: "length (light_run r c frame) = length frame"
  by (simp add: light_run_def Let_def length_fold_update write_pixel_def)

definition run_ok :: "run \<Rightarrow> nat \<Rightarrow> bool" where
  "run_ok r n \<longleftrightarrow> 0 < rn_unit r \<and> (if rn_step r = Forward then rn_origin r + rn_capacity r \<le> n
     else rn_capacity r \<le> Suc (rn_origin r) \<and> rn_origin r < n)"

lemma run_at_inj:
  "run_ok r n \<Longrightarrow> a < rn_capacity r \<Longrightarrow> b < rn_capacity r \<Longrightarrow> run_at r a = run_at r b \<longleftrightarrow> a = b"
  by (auto simp: run_ok_def run_at_def split: if_splits)

lemma run_at_lt: "run_ok r n \<Longrightarrow> a < rn_capacity r \<Longrightarrow> run_at r a < n"
  by (auto simp: run_ok_def run_at_def split: if_splits)

lemma light_run_nth:
  assumes "run_ok r (length frame)" and "k < rn_capacity r"
  shows "light_run r c frame ! run_at r k =
    pixel_share (rn_amount r - k * rn_unit r) (rn_unit r) c (frame ! run_at r k)"
proof -
  let ?u = "rn_unit r" and ?a = "rn_amount r"
  let ?lit = "if ?a div ?u < rn_capacity r then ?a div ?u else rn_capacity r"
  have u: "0 < ?u" using assms(1) by (simp add: run_ok_def)
  have l: "?lit \<le> rn_capacity r" by simp
  have i: "run_at r k < length frame" by (rule run_at_lt [OF assms])
  have mem: "run_at r k \<in> run_at r ` set [0..<?lit] \<longleftrightarrow> k < ?lit"
  proof
    assume "run_at r k \<in> run_at r ` set [0..<?lit]"
    then obtain b where b: "b < ?lit" "run_at r k = run_at r b" by auto
    then have "b < rn_capacity r" using l by linarith
    then have "k = b" using run_at_inj [OF assms(1) assms(2)] b(2) by metis
    then show "k < ?lit" using b(1) by metis
  next
    assume "k < ?lit"
    then have "k \<in> set [0..<?lit]" by (simp only: atLeastLessThan_upt [symmetric] atLeastLessThan_iff le0 simp_thms)
    then show "run_at r k \<in> run_at r ` set [0..<?lit]" by (rule imageI)
  qed
  have one: "fold (\<lambda>k f. f[run_at r k := c]) [0..<?lit] frame ! run_at r k = (if k < ?lit then c else frame ! run_at r k)"
    using nth_fold_update [OF i, of "run_at r" c "[0..<?lit]"] mem by simp
  have whole: "k < ?lit \<longleftrightarrow> ?u \<le> ?a - k * ?u"
  proof -
    have "k < ?lit \<longleftrightarrow> k < ?a div ?u" using assms(2) by auto
    also have "\<dots> \<longleftrightarrow> Suc k * ?u \<le> ?a" using u by (metis Suc_le_eq less_eq_div_iff_mult_less_eq)
    also have "\<dots> \<longleftrightarrow> ?u \<le> ?a - k * ?u" using u by auto
    finally show ?thesis .
  qed
  show ?thesis
  proof (cases "k < ?lit")
    case True
    have "?lit < rn_capacity r \<longrightarrow> run_at r ?lit \<noteq> run_at r k"
      using run_at_inj [OF assms(1) assms(2), of ?lit] True by auto
    then show ?thesis
      using one True whole by (simp add: light_run_def Let_def write_pixel_def pixel_share_def)
  next
    case False
    then have d: "?a div ?u \<le> k" "?lit = ?a div ?u" using assms(2) by (auto split: if_splits)
    show ?thesis
    proof (cases "k = ?a div ?u")
      case True
      then have "?a - k * ?u = ?a mod ?u" by (metis minus_div_mult_eq_mod)
      moreover have "\<not> ?u \<le> ?a mod ?u" using u by (simp add: not_le)
      ultimately show ?thesis
        using one False True d i assms(2)
        by (auto simp: light_run_def Let_def write_pixel_def pixel_share_def length_fold_update)
    next
      case n: False
      with d have lt: "?a div ?u < k" by simp
      have "?a < Suc (?a div ?u) * ?u" using u by (metis dividend_less_times_div mult.commute mult_Suc)
      also have "\<dots> \<le> k * ?u" using lt by (intro mult_right_mono) simp_all
      finally have z: "?a - k * ?u = 0" by simp
      have "run_at r (?a div ?u) \<noteq> run_at r k"
        using run_at_inj [OF assms(1), of "?a div ?u" k] lt assms(2) by simp
      then show ?thesis
        using one False z d u by (simp add: light_run_def Let_def write_pixel_def pixel_share_def)
    qed
  qed
qed

lemma light_run_other:
  assumes "run_ok r (length frame)" and "\<And>k. k < rn_capacity r \<Longrightarrow> run_at r k \<noteq> i" and "i < length frame"
  shows "light_run r c frame ! i = frame ! i"
proof -
  define lit where "lit = (if rn_amount r div rn_unit r < rn_capacity r then rn_amount r div rn_unit r else rn_capacity r)"
  have "lit \<le> rn_capacity r" by (simp add: lit_def)
  then have out: "i \<notin> run_at r ` set [0..<lit]" using assms(2) by (metis atLeastLessThan_iff imageE order_less_le_trans set_upt)
  have "lit < rn_capacity r \<Longrightarrow> run_at r lit \<noteq> i" by (rule assms(2))
  then show ?thesis
    using nth_fold_update [OF assms(3), of "run_at r" c "[0..<lit]"] out
    by (simp add: light_run_def Let_def write_pixel_def lit_def [symmetric])
qed


section \<open>What fill_zone draws\<close>

text \<open>
  The contract of the header: the amount of light that reaches pixel \<open>i\<close> of the zone after the
  pixels before it in fill order took theirs, and the amount one full pixel takes.
\<close>

definition fill_share :: "led_zone \<Rightarrow> fill_fraction \<Rightarrow> nat \<Rightarrow> nat \<times> nat" where
  "fill_share z f i = (let n = lz_length z; l = n * unat (ff_numerator f); u = unat (ff_denominator f);
       centre = lz_start z + n div 2;
       side = (if n mod 2 \<noteq> 0 then l - u else l) in
     case lz_direction z of
       StartToEnd \<Rightarrow> (l - (i - lz_start z) * u, u)
     | EndToStart \<Rightarrow> (l - (lz_start z + n - 1 - i) * u, u)
     | CenterOut \<Rightarrow> (if n mod 2 \<noteq> 0 \<and> i = centre then (l, u)
         else if i < centre then (side - (centre - 1 - i) * (2 * u), 2 * u)
         else (side - (i - centre - n mod 2) * (2 * u), 2 * u)))"

definition in_zone :: "led_zone \<Rightarrow> nat \<Rightarrow> bool" where
  "in_zone z i \<longleftrightarrow> lz_start z \<le> i \<and> i < lz_start z + lz_length z"

definition zone_ok :: "led_zone \<Rightarrow> bool" where
  "zone_ok z \<longleftrightarrow> validate_zone z max_led_count = ZoneValid"

lemma zone_ok_iff: "zone_ok z \<longleftrightarrow> 0 < lz_length z \<and> lz_start z + lz_length z \<le> max_led_count"
  by (auto simp: zone_ok_def validate_zone_def)

lemma validate_zone_valid:
  "validate_zone z n = ZoneValid \<longleftrightarrow> 0 < lz_length z \<and> lz_start z + lz_length z \<le> n \<and> n \<le> max_led_count"
  by (auto simp: validate_zone_def)

text \<open>A run described from either end: pixel \<open>i\<close> is the one at its offset.\<close>

lemma light_run_forward:
  assumes "0 < u" and "ori + n \<le> length frame" and "i < length frame"
  shows "light_run \<lparr>rn_origin = ori, rn_step = Forward, rn_capacity = n, rn_amount = a, rn_unit = u\<rparr> c frame ! i =
    (if ori \<le> i \<and> i < ori + n then pixel_share (a - (i - ori) * u) u c (frame ! i) else frame ! i)"
proof -
  let ?r = "\<lparr>rn_origin = ori, rn_step = Forward, rn_capacity = n, rn_amount = a, rn_unit = u\<rparr>"
  have ok: "run_ok ?r (length frame)" using assms by (simp add: run_ok_def)
  show ?thesis
  proof (cases "ori \<le> i \<and> i < ori + n")
    case True
    then have "i - ori < n" "run_at ?r (i - ori) = i" by (auto simp: run_at_def)
    then show ?thesis using light_run_nth [OF ok, of "i - ori" c] True by simp
  next
    case False
    have "\<And>k. k < n \<Longrightarrow> run_at ?r k \<noteq> i" using False by (auto simp: run_at_def)
    then have "light_run ?r c frame ! i = frame ! i" by (intro light_run_other [OF ok _ assms(3)]) simp
    then show ?thesis using False by (simp only: if_False)
  qed
qed

lemma light_run_backward:
  assumes "0 < u" and "n \<le> Suc ori" and "ori < length frame" and "i < length frame"
  shows "light_run \<lparr>rn_origin = ori, rn_step = Backward, rn_capacity = n, rn_amount = a, rn_unit = u\<rparr> c frame ! i =
    (if i \<le> ori \<and> ori < i + n then pixel_share (a - (ori - i) * u) u c (frame ! i) else frame ! i)"
proof -
  let ?r = "\<lparr>rn_origin = ori, rn_step = Backward, rn_capacity = n, rn_amount = a, rn_unit = u\<rparr>"
  have ok: "run_ok ?r (length frame)" using assms by (simp add: run_ok_def)
  show ?thesis
  proof (cases "i \<le> ori \<and> ori < i + n")
    case True
    then have "ori - i < n" "run_at ?r (ori - i) = i" by (auto simp: run_at_def)
    then show ?thesis using light_run_nth [OF ok, of "ori - i" c] True by simp
  next
    case False
    have "\<And>k. k < n \<Longrightarrow> run_at ?r k \<noteq> i" using False assms(2) by (auto simp: run_at_def)
    then have "light_run ?r c frame ! i = frame ! i" by (intro light_run_other [OF ok _ assms(4)]) simp
    then show ?thesis using False by (simp only: if_False)
  qed
qed

lemma pixel_share_zero: "0 < u \<Longrightarrow> pixel_share 0 u c old = old"
  by (simp add: pixel_share_def)

lemma light_sides_nth:
  assumes "0 < u" and "centre \<le> right" and "right + half \<le> length frame" and "half \<le> centre" and "i < length frame"
  shows "light_sides centre right half a u c frame ! i =
    (if centre - half \<le> i \<and> i < centre then pixel_share (a - (centre - 1 - i) * (2 * u)) (2 * u) c (frame ! i)
     else if right \<le> i \<and> i < right + half then pixel_share (a - (i - right) * (2 * u)) (2 * u) c (frame ! i)
     else frame ! i)"
proof (cases "half = 0 \<or> a = 0")
  case True
  then show ?thesis using assms by (auto simp: light_sides_def pixel_share_zero)
next
  case False
  let ?left = "light_run \<lparr>rn_origin = centre - 1, rn_step = Backward, rn_capacity = half, rn_amount = a, rn_unit = 2 * u\<rparr> c frame"
  have l: "?left ! i = (if i \<le> centre - 1 \<and> centre - 1 < i + half
      then pixel_share (a - (centre - 1 - i) * (2 * u)) (2 * u) c (frame ! i) else frame ! i)"
    using assms False by (intro light_run_backward) auto
  have r: "light_sides centre right half a u c frame ! i = (if right \<le> i \<and> i < right + half
      then pixel_share (a - (i - right) * (2 * u)) (2 * u) c (?left ! i) else ?left ! i)"
    using assms False by (simp add: light_sides_def light_run_forward)
  have "(i \<le> centre - 1 \<and> centre - 1 < i + half) = (centre - half \<le> i \<and> i < centre)"
    using False assms(4) by auto
  moreover have "right \<le> i \<Longrightarrow> \<not> i < centre" using assms(2) by simp
  ultimately show ?thesis unfolding r l by auto
qed

lemma length_light_sides [simp]: "length (light_sides ce ri ha a u c frame) = length frame"
  by (simp add: light_sides_def)

lemma length_fill_zone [simp]: "length (snd (fill_zone z f c frame)) = length frame"
  by (simp add: fill_zone_def light_center_out_def write_pixel_def Let_def split: fill_direction.splits)

lemma light_center_out_nth:
  assumes "zone_ok z" and "0 < u" and "length frame = max_led_count" and "i < max_led_count"
  shows "light_center_out z a u c frame ! i = (let centre = lz_start z + lz_length z div 2;
      side = (if lz_length z mod 2 \<noteq> 0 then a - u else a) in
    if lz_length z mod 2 \<noteq> 0 \<and> i = centre then pixel_share a u c (frame ! i)
    else if \<not> in_zone z i then frame ! i
    else if i < centre then pixel_share (side - (centre - 1 - i) * (2 * u)) (2 * u) c (frame ! i)
    else pixel_share (side - (i - centre - lz_length z mod 2) * (2 * u)) (2 * u) c (frame ! i))"
proof (cases "lz_length z mod 2 = 0")
  case True
  then obtain h where h: "lz_length z = 2 * h" by auto
  have "light_center_out z a u c frame = light_sides (lz_start z + h) (lz_start z + h) h a u c frame"
    using h by (simp add: light_center_out_def Let_def)
  moreover have "light_sides (lz_start z + h) (lz_start z + h) h a u c frame ! i =
    (if lz_start z + h - h \<le> i \<and> i < lz_start z + h then pixel_share (a - (lz_start z + h - 1 - i) * (2 * u)) (2 * u) c (frame ! i)
     else if lz_start z + h \<le> i \<and> i < lz_start z + h + h then pixel_share (a - (i - (lz_start z + h)) * (2 * u)) (2 * u) c (frame ! i)
     else frame ! i)"
    using assms h by (intro light_sides_nth) (auto simp: zone_ok_iff)
  ultimately show ?thesis using h by (auto simp: in_zone_def Let_def)
next
  case False
  then obtain h where h: "lz_length z = 2 * h + 1" by (metis oddE parity_cases)
  let ?ce = "lz_start z + h"
  let ?f = "if u \<le> a then frame[?ce := c] else if a \<noteq> 0 then write_pixel ?ce (scale_rgb c a u) frame else frame"
  have ce: "?ce < length frame" using assms h by (auto simp: zone_ok_iff)
  have f: "?f ! i = (if i = ?ce then pixel_share a u c (frame ! i) else frame ! i)"
    using ce by (auto simp: write_pixel_def pixel_share_def)
  have "light_center_out z a u c frame = light_sides ?ce (?ce + 1) h (a - u) u c ?f"
    using h by (auto simp: light_center_out_def Let_def)
  moreover have "light_sides ?ce (?ce + 1) h (a - u) u c ?f ! i =
    (if ?ce - h \<le> i \<and> i < ?ce then pixel_share (a - u - (?ce - 1 - i) * (2 * u)) (2 * u) c (?f ! i)
     else if ?ce + 1 \<le> i \<and> i < ?ce + 1 + h then pixel_share (a - u - (i - (?ce + 1)) * (2 * u)) (2 * u) c (?f ! i)
     else ?f ! i)"
    using assms h by (intro light_sides_nth) (auto simp: zone_ok_iff write_pixel_def)
  ultimately show ?thesis unfolding f using h by (auto simp: in_zone_def Let_def)
qed

lemma fill_zone_nth:
  assumes "zone_ok z" and "fraction_ok f" and "length frame = max_led_count" and "i < max_led_count"
  shows "snd (fill_zone z f c frame) ! i = (if in_zone z i
    then pixel_share (fst (fill_share z f i)) (snd (fill_share z f i)) c (frame ! i) else frame ! i)"
proof -
  have u: "0 < unat (ff_denominator f)" using assms(2) by (simp add: fraction_ok_def)
  show ?thesis
  proof (cases "lz_direction z")
    case StartToEnd
    then show ?thesis
      using assms u by (simp add: fill_zone_def zone_ok_iff validate_zone_valid light_run_forward in_zone_def fill_share_def Let_def)
  next
    case EndToStart
    then show ?thesis
      using assms u by (auto simp: fill_zone_def zone_ok_iff validate_zone_valid light_run_backward in_zone_def fill_share_def Let_def)
  next
    case CenterOut
    then show ?thesis
      using assms u light_center_out_nth [OF assms(1) u assms(3,4)]
      by (auto simp: fill_zone_def zone_ok_iff validate_zone_valid in_zone_def fill_share_def Let_def)
  qed
qed

text \<open>
  No intermediate of the 64-bit arithmetic wraps: the exact amount, the doubled unit of the sides,
  and a channel times a remainder.
\<close>

lemma fill_intermediates_fit:
  assumes "zone_ok z" and "r < 2 * unat (ff_denominator f)"
  shows "lz_length z * unat (ff_numerator f) < 2 ^ 64 \<and> 2 * unat (ff_denominator f) < 2 ^ 64 \<and>
    unat (ch :: u8) * r < 2 ^ 64"
proof -
  have n: "unat (ff_numerator f) < 2 ^ 32" "unat (ff_denominator f) < 2 ^ 32" "unat ch < 2 ^ 8"
    using unsigned_less [of "ff_numerator f"] unsigned_less [of "ff_denominator f"] unsigned_less [of ch] by simp_all
  have "lz_length z * unat (ff_numerator f) \<le> 300 * 2 ^ 32"
    using assms(1) by (intro mult_le_mono less_imp_le [OF n(1)]) (auto simp: zone_ok_iff max_led_count_def)
  moreover have r: "r \<le> 8589934592"
    using assms(2) unat_u32_lt [of "ff_denominator f"] by linarith
  have "unat ch * r \<le> 2 ^ 8 * 8589934592"
    using r by (intro mult_le_mono less_imp_le [OF n(3)])
  moreover have "unat (ff_denominator f) < 9223372036854775808"
    by (rule less_trans [OF unat_u32_lt]) simp
  ultimately show ?thesis by simp
qed

text \<open>
  C21: \<open>fill_zone\<close> writes nothing for a zone that \<open>validate_zone\<close> rejects and reports its verdict; for
  every other zone each pixel inside it shows exactly the share of light its place in the fill order
  leaves it (full colour, dimmed and rounded down, or untouched), in all three directions, odd and even
  centres included, and every pixel outside it keeps its value.
\<close>

theorem fill_zone_pixels:
  assumes "fraction_ok f" and "length frame = max_led_count"
  shows "fill_zone z f c frame = (if zone_ok z
    then (ZoneValid, map (\<lambda>i. if in_zone z i
        then pixel_share (fst (fill_share z f i)) (snd (fill_share z f i)) c (frame ! i) else frame ! i) [0..<max_led_count])
    else (validate_zone z max_led_count, frame))"
proof (cases "zone_ok z")
  case True
  have "fst (fill_zone z f c frame) = ZoneValid" using True by (simp add: fill_zone_def zone_ok_def Let_def)
  moreover have "snd (fill_zone z f c frame) = map (\<lambda>i. if in_zone z i
        then pixel_share (fst (fill_share z f i)) (snd (fill_share z f i)) c (frame ! i) else frame ! i) [0..<max_led_count]"
    by (rule nth_equalityI) (simp_all add: assms fill_zone_nth [OF True])
  ultimately show ?thesis using True by (simp add: prod_eq_iff)
next
  case False
  then show ?thesis by (simp add: fill_zone_def zone_ok_def Let_def)
qed

theorem fill_zone_pixels_witness:
  "let z = \<lparr>lz_start = 10, lz_length = 5, lz_direction = CenterOut\<rparr>;
     c = \<lparr>red = 100, green = 8, blue = 0\<rparr>
   in zone_ok z \<and> snd (fill_zone z (fraction_of 1 2) c black_frame) ! 12 = c \<and>
      snd (fill_zone z (fraction_of 1 2) c black_frame) ! 13 = \<lparr>red = 75, green = 6, blue = 0\<rparr> \<and>
      snd (fill_zone z (fraction_of 1 2) c black_frame) ! 14 = black"
proof -
  let ?z = "\<lparr>lz_start = 10, lz_length = 5, lz_direction = CenterOut\<rparr>"
  let ?c = "\<lparr>red = 100, green = 8, blue = 0\<rparr>"
  have ok: "zone_ok ?z" by (simp add: zone_ok_iff max_led_count_def)
  have "fill_zone ?z (fraction_of 1 2) ?c black_frame = (ZoneValid, map (\<lambda>i. if in_zone ?z i
        then pixel_share (fst (fill_share ?z (fraction_of 1 2) i)) (snd (fill_share ?z (fraction_of 1 2) i)) ?c (black_frame ! i)
        else black_frame ! i) [0..<max_led_count])"
    using fill_zone_pixels [of "fraction_of 1 2" black_frame ?z ?c] ok by (simp add: black_frame_def)
  then show ?thesis
    using ok by (simp add: Let_def max_led_count_def black_frame_def in_zone_def fill_share_def fraction_of_def
      pixel_share_def scale_rgb_def scale_channel_def black_def)
qed

end
