(* ===== verification/Renderer.thy ===== *)
theory Renderer
  imports Led_Zone
begin

text \<open>
  The lighting command that crosses the renderer queue
  (\<open>components/local_argb_sink_contract/include/local_argb/lighting_sink.hpp\<close>) and the strip renderer that
  consumes it (\<open>components/local_argb/private_include/local_argb/renderer.hpp\<close>,
  \<open>components/local_argb/src/local_argb.cpp\<close>). Timestamps are 64-bit words, the fixed arrays with a count are
  lists with a capacity, the pixel sink is a function on the sink's own state that may refuse a write, and an
  animation strategy is a function on frames.
\<close>

section \<open>The lighting command\<close>

type_synonym lighting_rgb = rgb
type_synonym priority = u8
type_synonym monotonic = u64

definition default_priority :: priority where
  "default_priority = 100"

record effect_priorities =
  ep_left_turn :: priority
  ep_right_turn :: priority
  ep_brake :: priority

definition default_priorities :: effect_priorities where
  "default_priorities = \<lparr>ep_left_turn = default_priority, ep_right_turn = default_priority, ep_brake = default_priority\<rparr>"

record lighting_fill =
  lf_zone :: led_zone
  lf_level :: fill_fraction
  lf_color :: lighting_rgb
  lf_priority :: priority

definition fills_capacity :: nat where
  "fills_capacity = 8"

definition fills_add :: "lighting_fill \<Rightarrow> lighting_fill list \<Rightarrow> bool \<times> lighting_fill list" where
  "fills_add fill fills = (if length fills = fills_capacity then (False, fills) else (True, fills @ [fill]))"

definition transient_capacity :: nat where
  "transient_capacity = 8"

definition transient_id_valid :: "u8 \<Rightarrow> bool" where
  "transient_id_valid v = (0 < v \<and> unat v \<le> transient_capacity)"

definition max_transient_duration :: monotonic where
  "max_transient_duration = 5000000"

record lighting_transient =
  lt_zone :: led_zone
  lt_color :: lighting_rgb
  lt_priority :: priority
  lt_duration :: monotonic

record transient_start =
  ts_id :: u8
  ts_epoch :: u32
  ts_sequence :: u64
  ts_effect :: lighting_transient
  ts_origin :: monotonic

definition starts_add :: "transient_start \<Rightarrow> transient_start list \<Rightarrow> bool \<times> transient_start list" where
  "starts_add s starts = (if \<not> transient_id_valid (ts_id s) \<or> ts_sequence s = 0 \<or> lt_duration (ts_effect s) = 0
       \<or> max_transient_duration < lt_duration (ts_effect s) \<or> length starts = transient_capacity then (False, starts)
     else if list_ex (\<lambda>e. ts_id e = ts_id s) starts then (False, starts)
     else (True, starts @ [s]))"

record lighting_command =
  lc_color :: lighting_rgb
  lc_left_turn :: bool
  lc_right_turn :: bool
  lc_brake :: bool
  lc_valid_until :: monotonic
  lc_actionable :: bool
  lc_fills :: "lighting_fill list"
  lc_priorities :: effect_priorities
  lc_transients :: "transient_start list"

definition default_command :: lighting_command where
  "default_command = \<lparr>lc_color = black, lc_left_turn = False, lc_right_turn = False, lc_brake = False,
     lc_valid_until = 0, lc_actionable = False, lc_fills = [], lc_priorities = default_priorities, lc_transients = []\<rparr>"

section \<open>Animations\<close>

definition turn_led_count :: nat where
  "turn_led_count = 35"

definition brake_led_count :: nat where
  "brake_led_count = 30"

definition brightness_ceiling :: u8 where
  "brightness_ceiling = 16"

definition flow_step_us :: monotonic where
  "flow_step_us = 33333"

definition flow_tail_length :: nat where
  "flow_tail_length = 5"

definition amber :: rgb where
  "amber = \<lparr>red = 128, green = 16, blue = 0\<rparr>"

definition brake_red :: rgb where
  "brake_red = \<lparr>red = brightness_ceiling, green = 0, blue = 0\<rparr>"

definition clamp_channel :: "u8 \<Rightarrow> u8" where
  "clamp_channel channel = (if brightness_ceiling < channel then brightness_ceiling else channel)"

definition ceiling_clamped :: "lighting_rgb \<Rightarrow> rgb" where
  "ceiling_clamped c = \<lparr>red = clamp_channel (red c), green = clamp_channel (green c), blue = clamp_channel (blue c)\<rparr>"

record animation_context =
  ac_left_turn :: bool
  ac_right_turn :: bool
  ac_elapsed :: monotonic
  ac_pixel_count :: nat

type_synonym animation = "pixel_frame \<Rightarrow> animation_context \<Rightarrow> pixel_frame"

definition draw_flow :: "bool \<Rightarrow> nat \<Rightarrow> nat \<Rightarrow> pixel_frame \<Rightarrow> pixel_frame" where
  "draw_flow left phase pixel_count frame = fold (\<lambda>tail f.
     let c = scale_rgb amber (flow_tail_length - tail) flow_tail_length in
     if left then
       let head = turn_led_count - 1 - phase; position = head + tail in
       if position < turn_led_count then f[position := c] else f
     else
       let head = phase in
       if tail \<le> head then f[pixel_count - turn_led_count + head - tail := c] else f) [0..<flow_tail_length] frame"

definition draw_center_out_fill :: "bool \<Rightarrow> nat \<Rightarrow> nat \<Rightarrow> pixel_frame \<Rightarrow> pixel_frame" where
  "draw_center_out_fill left phase pixel_count frame = fold (\<lambda>offset f.
     f[(if left then turn_led_count - 1 - offset else pixel_count - turn_led_count + offset) := amber])
     [0..<phase + 1] frame"

definition render_running_flow :: animation where
  "render_running_flow frame ctx = (let phase = unat (ac_elapsed ctx div flow_step_us) mod turn_led_count;
       f1 = (if ac_left_turn ctx then draw_flow True phase (ac_pixel_count ctx) frame else frame)
     in if ac_right_turn ctx then draw_flow False phase (ac_pixel_count ctx) f1 else f1)"

definition render_center_out_fill :: animation where
  "render_center_out_fill frame ctx = (let cycle_step = unat (ac_elapsed ctx div flow_step_us) mod (turn_led_count + 1) in
     if cycle_step = turn_led_count then frame
     else let f1 = (if ac_left_turn ctx then draw_center_out_fill True cycle_step (ac_pixel_count ctx) frame else frame)
       in if ac_right_turn ctx then draw_center_out_fill False cycle_step (ac_pixel_count ctx) f1 else f1)"

section \<open>Layers\<close>

datatype layer_kind = FillLayer lighting_fill | BrakeLayer | LeftTurnLayer | RightTurnLayer

record layer =
  ly_kind :: layer_kind
  ly_priority :: priority
  ly_start :: nat
  ly_count :: nat

definition fill_layer :: "lighting_fill \<Rightarrow> layer" where
  "fill_layer f = \<lparr>ly_kind = FillLayer f, ly_priority = lf_priority f, ly_start = lz_start (lf_zone f), ly_count = lz_length (lf_zone f)\<rparr>"

definition layer_stack :: "lighting_command \<Rightarrow> lighting_fill list \<Rightarrow> nat \<Rightarrow> layer list" where
  "layer_stack cmd transients pixel_count =
     map fill_layer (filter (\<lambda>f. \<not> fraction_eq (lf_level f) fraction_empty \<and> validate_zone (lf_zone f) pixel_count = ZoneValid) (lc_fills cmd))
     @ (if lc_brake cmd then [\<lparr>ly_kind = BrakeLayer, ly_priority = ep_brake (lc_priorities cmd),
          ly_start = (pixel_count - brake_led_count) div 2, ly_count = brake_led_count\<rparr>] else [])
     @ (if lc_left_turn cmd then [\<lparr>ly_kind = LeftTurnLayer, ly_priority = ep_left_turn (lc_priorities cmd),
          ly_start = 0, ly_count = turn_led_count\<rparr>] else [])
     @ (if lc_right_turn cmd then [\<lparr>ly_kind = RightTurnLayer, ly_priority = ep_right_turn (lc_priorities cmd),
          ly_start = pixel_count - turn_led_count, ly_count = turn_led_count\<rparr>] else [])
     @ map fill_layer transients"

text \<open>The inner loop of the insertion sort: shift the slots above \<open>l\<close> up by one, then put \<open>l\<close> down.\<close>

primrec sink_layer :: "layer \<Rightarrow> nat \<Rightarrow> layer list \<Rightarrow> layer list" where
  "sink_layer l 0 ls = ls[0 := l]"
| "sink_layer l (Suc slot) ls = (if ly_priority l < ly_priority (ls ! slot)
     then sink_layer l slot (ls[Suc slot := ls ! slot]) else ls[Suc slot := l])"

definition sort_by_priority :: "layer list \<Rightarrow> layer list" where
  "sort_by_priority ls = fold (\<lambda>index xs. sink_layer (xs ! index) index xs) [1..<length ls] ls"

definition fill_range :: "nat \<Rightarrow> nat \<Rightarrow> rgb \<Rightarrow> pixel_frame \<Rightarrow> pixel_frame" where
  "fill_range start count c frame = fold (\<lambda>index f. f[start + index := c]) [0..<count] frame"

definition draw_layer :: "animation \<Rightarrow> monotonic \<Rightarrow> nat \<Rightarrow> layer \<Rightarrow> pixel_frame \<Rightarrow> pixel_frame" where
  "draw_layer anim elapsed pixel_count l frame = (case ly_kind l of
     FillLayer f \<Rightarrow> snd (fill_zone (lf_zone f) (lf_level f) (ceiling_clamped (lf_color f)) frame)
   | BrakeLayer \<Rightarrow> fill_range (ly_start l) (ly_count l) brake_red frame
   | LeftTurnLayer \<Rightarrow> anim frame \<lparr>ac_left_turn = True, ac_right_turn = False, ac_elapsed = elapsed, ac_pixel_count = pixel_count\<rparr>
   | RightTurnLayer \<Rightarrow> anim frame \<lparr>ac_left_turn = False, ac_right_turn = True, ac_elapsed = elapsed, ac_pixel_count = pixel_count\<rparr>)"

definition draw_owned :: "animation \<Rightarrow> monotonic \<Rightarrow> nat \<Rightarrow> layer \<Rightarrow> pixel_frame \<Rightarrow> pixel_frame" where
  "draw_owned anim elapsed pixel_count l frame =
     draw_layer anim elapsed pixel_count l (fill_range (ly_start l) (ly_count l) black frame)"

section \<open>Transients\<close>

record timing =
  tm_effect :: lighting_transient
  tm_sequence :: u64
  tm_started :: monotonic
  tm_active :: bool

definition default_timing :: timing where
  "default_timing = \<lparr>tm_effect = \<lparr>lt_zone = \<lparr>lz_start = 0, lz_length = 0, lz_direction = StartToEnd\<rparr>, lt_color = black,
     lt_priority = default_priority, lt_duration = 0\<rparr>, tm_sequence = 0, tm_started = 0, tm_active = False\<rparr>"

definition timing_live :: "monotonic \<Rightarrow> timing \<Rightarrow> bool" where
  "timing_live now t = (tm_active t \<and> tm_started t \<le> now \<and> now - tm_started t < lt_duration (tm_effect t))"

definition no_timings :: "timing list" where
  "no_timings = replicate transient_capacity default_timing"

definition transients_cancel :: "timing list \<Rightarrow> timing list" where
  "transients_cancel ts = map (\<lambda>t. t\<lparr>tm_active := False\<rparr>) ts"

definition transients_expire :: "monotonic \<Rightarrow> timing list \<Rightarrow> timing list" where
  "transients_expire now ts = map (\<lambda>t. if \<not> timing_live now t then t\<lparr>tm_active := False\<rparr> else t) ts"

definition start_index :: "transient_start \<Rightarrow> nat" where
  "start_index s = unat (ts_id s) - 1"

definition start_admitted :: "monotonic \<Rightarrow> u32 \<Rightarrow> nat \<Rightarrow> transient_start \<Rightarrow> bool" where
  "start_admitted now epoch pixel_count s = (0 < lt_duration (ts_effect s) \<and> lt_duration (ts_effect s) \<le> max_transient_duration
     \<and> ts_epoch s = epoch \<and> ts_origin s \<le> now \<and> now - ts_origin s < lt_duration (ts_effect s)
     \<and> validate_zone (lt_zone (ts_effect s)) pixel_count = ZoneValid)"

definition admit_start :: "monotonic \<Rightarrow> u32 \<Rightarrow> nat \<Rightarrow> transient_start \<Rightarrow> timing list \<Rightarrow> timing list" where
  "admit_start now epoch pixel_count s ts = (if tm_sequence (ts ! start_index s) = ts_sequence s then ts
     else ts[start_index s := \<lparr>tm_effect = ts_effect s, tm_sequence = ts_sequence s, tm_started = now,
       tm_active = start_admitted now epoch pixel_count s\<rparr>])"

definition transients_apply :: "transient_start list \<Rightarrow> monotonic \<Rightarrow> u32 \<Rightarrow> nat \<Rightarrow> timing list \<Rightarrow> timing list" where
  "transients_apply starts now epoch pixel_count ts = (let ts1 = fold (admit_start now epoch pixel_count) starts ts in
     map (\<lambda>(index, t). if \<not> list_ex (\<lambda>s. start_index s = index) starts then t\<lparr>tm_active := False\<rparr> else t)
       (zip [0..<length ts1] ts1))"

definition transients_active :: "transient_start list \<Rightarrow> timing list \<Rightarrow> lighting_fill list" where
  "transients_active starts ts = fold (\<lambda>s fills. let t = ts ! start_index s in
     if tm_active t then snd (fills_add \<lparr>lf_zone = lt_zone (tm_effect t), lf_level = fraction_full,
       lf_color = lt_color (tm_effect t), lf_priority = lt_priority (tm_effect t)\<rparr> fills) else fills) starts []"

section \<open>The controller\<close>

record controller =
  rc_pixel_count :: nat
  rc_command :: lighting_command
  rc_transients :: "timing list"
  rc_last_tick :: monotonic
  rc_epoch :: u32
  rc_has_command :: bool
  rc_last_written :: pixel_frame
  rc_has_last_written :: bool
  rc_faulted :: bool
  rc_animation_started :: monotonic
  rc_animation :: animation

definition new_controller :: "animation option \<Rightarrow> controller" where
  "new_controller anim = \<lparr>rc_pixel_count = default_led_count, rc_command = default_command, rc_transients = no_timings,
     rc_last_tick = 0, rc_epoch = 0, rc_has_command = False, rc_last_written = black_frame, rc_has_last_written = False,
     rc_faulted = False, rc_animation_started = 0,
     rc_animation = (case anim of None \<Rightarrow> render_running_flow | Some a \<Rightarrow> a)\<rparr>"

definition set_animation :: "animation option \<Rightarrow> controller \<Rightarrow> controller" where
  "set_animation anim c = c\<lparr>rc_animation := (case anim of None \<Rightarrow> render_running_flow | Some a \<Rightarrow> a)\<rparr>"

definition configure_pixel_count :: "nat \<Rightarrow> controller \<Rightarrow> bool \<times> controller" where
  "configure_pixel_count count c = (if count < default_led_count \<or> max_led_count < count \<or> rc_has_last_written c
     then (False, c) else (True, c\<lparr>rc_pixel_count := count\<rparr>))"

definition black_written :: "controller \<Rightarrow> bool" where
  "black_written c = (rc_has_last_written c \<and> rc_last_written c = black_frame)"

type_synonym 's pixel_sink = "pixel_frame \<Rightarrow> nat \<Rightarrow> 's \<Rightarrow> bool \<times> 's"

definition write_desired :: "'s pixel_sink \<Rightarrow> pixel_frame \<Rightarrow> controller \<times> 's \<Rightarrow> bool \<times> controller \<times> 's" where
  "write_desired sink desired = (\<lambda>(c, s). if rc_has_last_written c \<and> desired = rc_last_written c then (True, c, s)
     else let len = (if desired = black_frame then max_led_count else rc_pixel_count c);
       (ok, s1) = sink desired len s in
     if ok then (True, c\<lparr>rc_last_written := desired, rc_has_last_written := True\<rparr>, s1)
     else let c1 = c\<lparr>rc_faulted := True, rc_transients := transients_cancel (rc_transients c), rc_has_last_written := False\<rparr> in
       if desired \<noteq> black_frame then
         let (cleared, s2) = sink black_frame max_led_count s1 in
         (False, if cleared then c1\<lparr>rc_last_written := black_frame, rc_has_last_written := True\<rparr> else c1, s2)
       else (False, c1, s1))"

definition draw_frame :: "monotonic \<Rightarrow> controller \<Rightarrow> pixel_frame \<Rightarrow> pixel_frame" where
  "draw_frame now c frame = (let cmd = rc_command c;
       f1 = (if \<not> lc_left_turn cmd \<and> \<not> lc_right_turn cmd \<and> \<not> lc_brake cmd \<and> lc_fills cmd = []
         then fill_range 0 (rc_pixel_count c) (ceiling_clamped (lc_color cmd)) frame else frame);
       layers = sort_by_priority (layer_stack cmd (transients_active (lc_transients cmd) (rc_transients c)) (rc_pixel_count c));
       elapsed = (if rc_animation_started c \<le> now then now - rc_animation_started c else 0)
     in fold (draw_owned (rc_animation c) elapsed (rc_pixel_count c)) layers f1)"

definition controller_start :: "'s pixel_sink \<Rightarrow> controller \<times> 's \<Rightarrow> bool \<times> controller \<times> 's" where
  "controller_start sink = (\<lambda>(c, s). write_desired sink black_frame (c\<lparr>rc_has_command := False, rc_has_last_written := False,
     rc_faulted := False, rc_animation_started := 0, rc_last_tick := 0, rc_transients := no_timings, rc_epoch := 0\<rparr>, s))"

definition tick_transients :: "monotonic \<Rightarrow> controller \<Rightarrow> controller" where
  "tick_transients now c = (let ts = (if now < rc_last_tick c \<or> rc_faulted c \<or> \<not> lc_actionable (rc_command c)
         \<or> lc_valid_until (rc_command c) < now then transients_cancel (rc_transients c) else rc_transients c)
     in c\<lparr>rc_transients := transients_expire now ts, rc_last_tick := now\<rparr>)"

definition controller_shows :: "monotonic \<Rightarrow> controller \<Rightarrow> bool" where
  "controller_shows now c = (\<not> rc_faulted c \<and> rc_has_command c \<and> lc_actionable (rc_command c) \<and> now \<le> lc_valid_until (rc_command c))"

definition controller_tick :: "'s pixel_sink \<Rightarrow> monotonic \<Rightarrow> controller \<times> 's \<Rightarrow> bool \<times> controller \<times> 's" where
  "controller_tick sink now = (\<lambda>(c, s). let c1 = tick_transients now c;
       desired = (if controller_shows now c1 then draw_frame now c1 black_frame else black_frame)
     in write_desired sink desired (c1, s))"

definition apply_command :: "lighting_command \<Rightarrow> monotonic \<Rightarrow> u32 \<Rightarrow> controller \<Rightarrow> controller" where
  "apply_command cmd now epoch c = (let
       ts = (if epoch \<noteq> rc_epoch c then transients_cancel (rc_transients c) else rc_transients c);
       effects_changed = (\<not> rc_has_command c \<or> lc_left_turn cmd \<noteq> lc_left_turn (rc_command c)
         \<or> lc_right_turn cmd \<noteq> lc_right_turn (rc_command c) \<or> lc_brake cmd \<noteq> lc_brake (rc_command c))
     in c\<lparr>rc_epoch := epoch, rc_transients := transients_apply (lc_transients cmd) now epoch (rc_pixel_count c) ts,
       rc_command := cmd, rc_has_command := True,
       rc_animation_started := (if effects_changed then now else rc_animation_started c),
       rc_faulted := (if \<not> rc_faulted c \<or> black_written c then False else rc_faulted c)\<rparr>)"

definition controller_apply :: "'s pixel_sink \<Rightarrow> lighting_command \<Rightarrow> monotonic \<Rightarrow> u32 \<Rightarrow> controller \<times> 's \<Rightarrow> bool \<times> controller \<times> 's" where
  "controller_apply sink cmd now epoch = (\<lambda>(c, s). controller_tick sink now (apply_command cmd now epoch c, s))"

section \<open>Onboard status, mailbox, watchdogs\<close>

definition frame_region_has_color :: "pixel_frame \<Rightarrow> nat \<Rightarrow> nat \<Rightarrow> bool" where
  "frame_region_has_color frame start count = list_ex (\<lambda>index. frame ! (start + index) \<noteq> black) [0..<count]"

definition onboard_status_color :: "pixel_frame \<Rightarrow> nat \<Rightarrow> rgb" where
  "onboard_status_color frame pixel_count =
     (if frame_region_has_color frame ((pixel_count - brake_led_count) div 2) brake_led_count then brake_red
      else if frame_region_has_color frame 0 turn_led_count \<or> frame_region_has_color frame (pixel_count - turn_led_count) turn_led_count
        then amber else black)"

text \<open>The portable model of the queue of length one: a command waiting, or none.\<close>

definition mailbox_submit :: "lighting_command \<Rightarrow> lighting_command option \<Rightarrow> lighting_command option" where
  "mailbox_submit cmd pending = Some cmd"

definition mailbox_take :: "lighting_command option \<Rightarrow> lighting_command option \<times> lighting_command option" where
  "mailbox_take pending = (pending, None)"

definition driver_hang_restart_us :: monotonic where
  "driver_hang_restart_us = 100000"

definition worker_stall_restart_us :: monotonic where
  "worker_stall_restart_us = 100000"

record driver_watchdog =
  dw_started :: monotonic
  dw_in_progress :: bool

definition driver_begin :: "monotonic \<Rightarrow> driver_watchdog \<Rightarrow> driver_watchdog" where
  "driver_begin now w = w\<lparr>dw_started := now, dw_in_progress := True\<rparr>"

definition driver_end :: "driver_watchdog \<Rightarrow> driver_watchdog" where
  "driver_end w = w\<lparr>dw_in_progress := False\<rparr>"

definition driver_restart_due :: "monotonic \<Rightarrow> driver_watchdog \<Rightarrow> bool" where
  "driver_restart_due now w = (dw_in_progress w \<and> (now < dw_started w \<or> driver_hang_restart_us < now - dw_started w))"

record worker_lease =
  wl_last_progress :: monotonic
  wl_armed :: bool

definition lease_arm :: "monotonic \<Rightarrow> worker_lease \<Rightarrow> worker_lease" where
  "lease_arm now w = w\<lparr>wl_last_progress := now, wl_armed := True\<rparr>"

definition lease_heartbeat :: "monotonic \<Rightarrow> worker_lease \<Rightarrow> worker_lease" where
  "lease_heartbeat now w = (if wl_armed w then w\<lparr>wl_last_progress := now\<rparr> else w)"

definition lease_disarm :: "worker_lease \<Rightarrow> worker_lease" where
  "lease_disarm w = w\<lparr>wl_armed := False\<rparr>"

definition lease_restart_due :: "monotonic \<Rightarrow> worker_lease \<Rightarrow> bool" where
  "lease_restart_due now w = (wl_armed w \<and> (now < wl_last_progress w \<or> worker_stall_restart_us < now - wl_last_progress w))"

end
