(* ===== verification/Led_Bindings.thy ===== *)
theory Led_Bindings
  imports Renderer Float32 Conditions
begin

text \<open>
  The LED output adapter of the action engine (\<open>components/local_argb_actions\<close>): which effects, fills and
  one-shot effects each configured action drives, the levels last received, and the complete lighting
  command published for every action command. The lighting sink is the interface \<open>LightingSink\<close>, a record of
  its two operations over the sink's own state; the clock is the value it returns.
\<close>

section \<open>On/off effects\<close>

datatype led_effect = LeftTurn | RightTurn | Brake

datatype binding_status = BindOk | InvalidBindingAction | DuplicateBinding | BindingCapacityExceeded | InvalidEffect

definition bindings_capacity :: nat where
  "bindings_capacity = 8"

record effect_binding =
  eb_action :: action_id
  eb_effect :: led_effect
  eb_priority :: priority
  eb_active :: bool

record led_effects =
  le_left_turn :: bool
  le_right_turn :: bool
  le_brake :: bool

definition effects_any :: "led_effects \<Rightarrow> bool" where
  "effects_any e = (le_left_turn e \<or> le_right_turn e \<or> le_brake e)"

definition effects_bind :: "action_id \<Rightarrow> led_effect \<Rightarrow> priority \<Rightarrow> effect_binding list \<Rightarrow> binding_status \<times> effect_binding list" where
  "effects_bind a e p bs = (if \<not> aid_valid a then (InvalidBindingAction, bs)
     else if list_ex (\<lambda>b. eb_action b = a \<and> eb_effect b = e) bs then (DuplicateBinding, bs)
     else if length bs = bindings_capacity then (BindingCapacityExceeded, bs)
     else (BindOk, bs @ [\<lparr>eb_action = a, eb_effect = e, eb_priority = p, eb_active = False\<rparr>]))"

definition effects_hold :: "action_id \<Rightarrow> bool \<Rightarrow> effect_binding list \<Rightarrow> bool \<times> effect_binding list" where
  "effects_hold a active bs = (list_ex (\<lambda>b. eb_action b = a) bs,
     map (\<lambda>b. if eb_action b = a then b\<lparr>eb_active := active\<rparr> else b) bs)"

definition effects_lit :: "effect_binding list \<Rightarrow> led_effects" where
  "effects_lit bs = fold (\<lambda>b e. if \<not> eb_active b then e
     else e\<lparr>le_left_turn := le_left_turn e \<or> eb_effect b = LeftTurn, le_right_turn := le_right_turn e \<or> eb_effect b = RightTurn,
       le_brake := le_brake e \<or> eb_effect b = Brake\<rparr>) bs \<lparr>le_left_turn = False, le_right_turn = False, le_brake = False\<rparr>"

definition highest_active :: "led_effect \<Rightarrow> effect_binding list \<Rightarrow> priority" where
  "highest_active e bs = value_or (fold (\<lambda>b h. if \<not> eb_active b \<or> eb_effect b \<noteq> e then h
     else case h of None \<Rightarrow> Some (eb_priority b) | Some p \<Rightarrow> if p < eb_priority b then Some (eb_priority b) else h) bs None)
     default_priority"

definition effects_priorities :: "effect_binding list \<Rightarrow> effect_priorities" where
  "effects_priorities bs = \<lparr>ep_left_turn = highest_active LeftTurn bs, ep_right_turn = highest_active RightTurn bs,
     ep_brake = highest_active Brake bs\<rparr>"

section \<open>Fills\<close>

definition level_steps :: nat where
  "level_steps = 65536"

definition f32_zero :: f32 where
  "f32_zero = 0"

definition f32_one :: f32 where
  "f32_one = 0x3F800000"

definition f32_level_steps :: f32 where
  "f32_level_steps = 0x47800000"

text \<open>\<open>std::lround\<close>: to the nearest integer, halves away from zero.\<close>

definition f32_lround :: "f32 \<Rightarrow> int" where
  "f32_lround x = (let m = int ((mag_units (f32_mag x) + 2 ^ 148) div 2 ^ 149) in if f32_neg_bit x then - m else m)"

definition fill_level :: "f32 \<Rightarrow> fill_fraction" where
  "fill_level level = (if \<not> f32_lt f32_zero level then fraction_empty
     else if f32_le f32_one level then fraction_full
     else fraction_of (of_int (f32_lround (f32_mul level f32_level_steps))) (of_nat level_steps))"

record fill_effect =
  fe_zone :: led_zone
  fe_color :: lighting_rgb
  fe_priority :: priority

record fill_binding =
  fb_action :: action_id
  fb_effect :: fill_effect
  fb_level :: fill_fraction

definition fills_bind :: "action_id \<Rightarrow> fill_effect \<Rightarrow> fill_binding list \<Rightarrow> binding_status \<times> fill_binding list" where
  "fills_bind a e bs = (if \<not> aid_valid a then (InvalidBindingAction, bs)
     else if list_ex (\<lambda>b. fb_action b = a \<and> fe_zone (fb_effect b) = fe_zone e) bs then (DuplicateBinding, bs)
     else if length bs = fills_capacity then (BindingCapacityExceeded, bs)
     else (BindOk, bs @ [\<lparr>fb_action = a, fb_effect = e, fb_level = fraction_empty\<rparr>]))"

definition fills_hold :: "action_id \<Rightarrow> fill_fraction \<Rightarrow> fill_binding list \<Rightarrow> bool \<times> fill_binding list" where
  "fills_hold a level bs = (list_ex (\<lambda>b. fb_action b = a) bs,
     map (\<lambda>b. if fb_action b = a then b\<lparr>fb_level := level\<rparr> else b) bs)"

definition fills_lit :: "fill_binding list \<Rightarrow> lighting_fill list" where
  "fills_lit bs = fold (\<lambda>b fills. if fraction_eq (fb_level b) fraction_empty then fills
     else snd (fills_add \<lparr>lf_zone = fe_zone (fb_effect b), lf_level = fb_level b, lf_color = fe_color (fb_effect b),
       lf_priority = fe_priority (fb_effect b)\<rparr> fills)) bs []"

section \<open>One-shot effects\<close>

record transient_binding =
  tb_action :: action_id
  tb_effect :: lighting_transient
  tb_sequence :: u64
  tb_origin :: monotonic
  tb_epoch :: u32
  tb_retained :: bool

definition transients_bind ::
  "action_id \<Rightarrow> lighting_transient \<Rightarrow> nat \<Rightarrow> transient_binding list \<Rightarrow> binding_status \<times> transient_binding list" where
  "transients_bind a e pixel_count bs = (let z = lt_zone e in
     if \<not> aid_valid a then (InvalidBindingAction, bs)
     else if lt_duration e = 0 \<or> max_transient_duration < lt_duration e \<or> lz_length z = 0 \<or> pixel_count < default_led_count
       \<or> max_led_count < pixel_count \<or> pixel_count \<le> lz_start z \<or> pixel_count - lz_start z < lz_length z then (InvalidEffect, bs)
     else if list_ex (\<lambda>b. tb_action b = a \<and> lz_start (lt_zone (tb_effect b)) = lz_start z
       \<and> lz_length (lt_zone (tb_effect b)) = lz_length z) bs then (DuplicateBinding, bs)
     else if length bs = transient_capacity then (BindingCapacityExceeded, bs)
     else (BindOk, bs @ [\<lparr>tb_action = a, tb_effect = e, tb_sequence = 0, tb_origin = 0, tb_epoch = 0, tb_retained = False\<rparr>]))"

definition next_sequence :: "u64 \<Rightarrow> u64" where
  "next_sequence s = (let s1 = s + 1 in if s1 = 0 then s1 + 1 else s1)"

definition transients_trigger ::
  "action_id \<Rightarrow> monotonic \<Rightarrow> u32 \<Rightarrow> transient_binding list \<Rightarrow> bool \<times> transient_binding list" where
  "transients_trigger a origin epoch bs = (list_ex (\<lambda>b. tb_action b = a) bs,
     map (\<lambda>b. if tb_action b \<noteq> a then b else b\<lparr>tb_sequence := next_sequence (tb_sequence b), tb_origin := origin,
       tb_epoch := epoch, tb_retained := True\<rparr>) bs)"

definition binding_start :: "nat \<Rightarrow> transient_binding \<Rightarrow> transient_start" where
  "binding_start index b = \<lparr>ts_id = of_nat (index + 1), ts_epoch = tb_epoch b, ts_sequence = tb_sequence b,
     ts_effect = tb_effect b, ts_origin = tb_origin b\<rparr>"

definition transients_latest :: "u32 \<Rightarrow> transient_binding list \<Rightarrow> transient_start list" where
  "transients_latest epoch bs = fold (\<lambda>(index, b) starts. if \<not> tb_retained b \<or> tb_epoch b \<noteq> epoch then starts
     else snd (starts_add (binding_start index b) starts)) (zip [0..<length bs] bs) []"

definition discard_starts :: "transient_binding list \<Rightarrow> transient_binding list" where
  "discard_starts bs = map (\<lambda>b. b\<lparr>tb_retained := False\<rparr>) bs"

section \<open>The adapter\<close>

record 's lighting_sink =
  ls_publish :: "lighting_command \<Rightarrow> 's \<Rightarrow> bool \<times> 's"
  ls_epoch :: "'s \<Rightarrow> u32"

record led_actions =
  la_effects :: "effect_binding list"
  la_fills :: "fill_binding list"
  la_transients :: "transient_binding list"

definition led_clear :: "led_actions \<Rightarrow> led_actions" where
  "led_clear la = la\<lparr>la_effects := [], la_fills := [], la_transients := []\<rparr>"

definition held_until_us :: monotonic where
  "held_until_us = - 1"

definition held_command :: "led_actions \<Rightarrow> u32 \<Rightarrow> lighting_command" where
  "held_command la epoch = (let effects = effects_lit (la_effects la); fills = fills_lit (la_fills la);
       starts = transients_latest epoch (la_transients la);
       actionable = (effects_any effects \<or> fills \<noteq> [] \<or> starts \<noteq> [])
     in default_command\<lparr>lc_priorities := effects_priorities (la_effects la), lc_left_turn := le_left_turn effects,
       lc_right_turn := le_right_turn effects, lc_brake := le_brake effects, lc_fills := fills, lc_transients := starts,
       lc_actionable := actionable, lc_valid_until := (if actionable then held_until_us else 0)\<rparr>)"

definition on_off_level :: "command_kind \<Rightarrow> bool option" where
  "on_off_level k = (case k of Activate \<Rightarrow> Some True | Deactivate \<Rightarrow> Some False | Trigger \<Rightarrow> None | SetLevel \<Rightarrow> None)"

definition commanded_level :: "action_command \<Rightarrow> fill_fraction option" where
  "commanded_level c = (case ac_kind c of Activate \<Rightarrow> Some fraction_full | Deactivate \<Rightarrow> Some fraction_empty
     | SetLevel \<Rightarrow> Some (fill_level (ac_level c)) | Trigger \<Rightarrow> None)"

definition led_receive :: "monotonic \<Rightarrow> u32 \<Rightarrow> action_command \<Rightarrow> led_actions \<Rightarrow> bool \<times> led_actions" where
  "led_receive now epoch c la = (let
       (effect_bound, es) = (case on_off_level (ac_kind c) of None \<Rightarrow> (False, la_effects la)
         | Some active \<Rightarrow> effects_hold (ac_action c) active (la_effects la));
       (fill_bound, fs) = (case commanded_level c of None \<Rightarrow> (False, la_fills la)
         | Some level \<Rightarrow> fills_hold (ac_action c) level (la_fills la));
       (transient_bound, ts) = (if ac_kind c = Trigger then transients_trigger (ac_action c) now epoch (la_transients la)
         else (False, la_transients la))
     in (effect_bound \<or> fill_bound \<or> transient_bound, la\<lparr>la_effects := es, la_fills := fs, la_transients := ts\<rparr>))"

definition led_execute :: "'s lighting_sink \<Rightarrow> monotonic \<Rightarrow> action_command \<Rightarrow> led_actions \<times> 's \<Rightarrow> led_actions \<times> 's" where
  "led_execute sink now c = (\<lambda>(la, s). let epoch = ls_epoch sink s; (bound, la1) = led_receive now epoch c la in
     if \<not> bound then (la1, s)
     else let (accepted, s1) = ls_publish sink (held_command la1 epoch) s in
       (if accepted then la1 else la1\<lparr>la_transients := discard_starts (la_transients la1)\<rparr>, s1))"

end
