(* ===== verification/Renderer_Laws.thy ===== *)
theory Renderer_Laws
  imports Renderer "HOL-Library.Multiset"
begin

text \<open>
  What the renderer shows: the in-place insertion sort is the stable sort by priority, every layer draws
  inside its own region and independently of the rest of the frame, and the frame is the painter's
  composition of the lit layers. The second part follows the frames to the strip: the controller's belief
  about the strip, its fail-off, and the admission of one-shot effects.
\<close>

section \<open>The stable sort by priority\<close>

definition insert_after :: "layer \<Rightarrow> layer list \<Rightarrow> layer list" where
  "insert_after l ls = filter (\<lambda>x. ly_priority x \<le> ly_priority l) ls @ l # filter (\<lambda>x. \<not> ly_priority x \<le> ly_priority l) ls"

lemma sink_layer_inserts:
  assumes "sorted (map ly_priority ls)"
  shows "sink_layer l (length ls) (ls @ g # rest) = insert_after l ls @ rest"
  using assms
proof (induction ls arbitrary: g rest rule: rev_induct)
  case Nil
  then show ?case by (simp add: insert_after_def)
next
  case (snoc y ls)
  have s: "sorted (map ly_priority ls)" and le: "\<forall>x\<in>set ls. ly_priority x \<le> ly_priority y"
    using snoc.prems by (auto simp: sorted_append)
  show ?case
  proof (cases "ly_priority l < ly_priority y")
    case True
    have "sink_layer l (length ls) (ls @ y # y # rest) = insert_after l ls @ y # rest"
      by (rule snoc.IH [OF s])
    then show ?thesis using True
      by (simp add: nth_append list_update_append insert_after_def not_le)
  next
    case False
    then have "\<forall>x\<in>set (ls @ [y]). ly_priority x \<le> ly_priority l" using le by auto
    then have "insert_after l (ls @ [y]) = (ls @ [y]) @ [l]"
      by (simp add: insert_after_def filter_empty_conv)
    then show ?thesis using False by (simp add: nth_append list_update_append)
  qed
qed

lemma sorted_insert_after:
  "sorted (map ly_priority ls) \<Longrightarrow> sorted (map ly_priority (insert_after l ls))"
  by (auto simp: insert_after_def sorted_append sorted_filter)

lemma split_by_priority:
  "sorted (map ly_priority ls) \<Longrightarrow>
   filter (\<lambda>x. ly_priority x \<le> p) ls @ filter (\<lambda>x. \<not> ly_priority x \<le> p) ls = ls"
proof (induction ls)
  case (Cons y ls)
  show ?case
  proof (cases "ly_priority y \<le> p")
    case False
    then have "filter (\<lambda>x. ly_priority x \<le> p) ls = []"
      using Cons.prems by (auto simp: filter_empty_conv)
    then show ?thesis using Cons False by simp
  qed (use Cons in simp)
qed simp

lemma mset_insert_after:
  assumes "sorted (map ly_priority ls)"
  shows "mset (insert_after l ls) = add_mset l (mset ls)"
  using arg_cong [OF split_by_priority [OF assms, of "ly_priority l"], of mset]
  by (simp add: insert_after_def)

lemma stable_insert_after:
  assumes "sorted (map ly_priority ls)"
  shows "filter (\<lambda>x. p = ly_priority x) (insert_after l ls) = filter (\<lambda>x. p = ly_priority x) (ls @ [l])"
proof -
  let ?a = "filter (\<lambda>x. ly_priority x \<le> ly_priority l) ls" and ?b = "filter (\<lambda>x. \<not> ly_priority x \<le> ly_priority l) ls"
  have "filter (\<lambda>x. p = ly_priority x) ls = filter (\<lambda>x. p = ly_priority x) (?a @ ?b)"
    by (simp only: split_by_priority [OF assms])
  moreover have "p = ly_priority l \<Longrightarrow> filter (\<lambda>x. p = ly_priority x) ?b = []"
    by (auto simp: filter_empty_conv)
  ultimately show ?thesis
    unfolding insert_after_def by (simp only: filter_append filter.simps) (simp del: filter_filter)
qed

lemma sort_key_snoc: "sort_key ly_priority (ls @ [l]) = insert_after l (sort_key ly_priority ls)"
proof (rule properties_for_sort_key)
  show "mset (insert_after l (sort_key ly_priority ls)) = mset (ls @ [l])"
    using mset_insert_after [of "sort_key ly_priority ls" l] by simp
  show "filter (\<lambda>x. ly_priority k = ly_priority x) (insert_after l (sort_key ly_priority ls)) =
      filter (\<lambda>x. ly_priority k = ly_priority x) (ls @ [l])" for k
    using stable_insert_after [of "sort_key ly_priority ls" "ly_priority k" l]
      sort_key_stable [of ly_priority "ly_priority k" ls] by (simp add: eq_commute)
  show "sorted (map ly_priority (insert_after l (sort_key ly_priority ls)))"
    by (rule sorted_insert_after) simp
qed

lemma sort_by_priority_prefix:
  "k \<le> length ls \<Longrightarrow> fold (\<lambda>index xs. sink_layer (xs ! index) index xs) [0..<k] ls =
     sort_key ly_priority (take k ls) @ drop k ls"
proof (induction k)
  case 0
  then show ?case by simp
next
  case (Suc k)
  let ?s = "sort_key ly_priority (take k ls)"
  have l: "length ?s = k" using Suc.prems by simp
  have d: "drop k ls = ls ! k # drop (Suc k) ls" using Suc.prems by (simp add: Cons_nth_drop_Suc)
  have "sink_layer (ls ! k) k (?s @ ls ! k # drop (Suc k) ls) = insert_after (ls ! k) ?s @ drop (Suc k) ls"
    using sink_layer_inserts [of ?s "ls ! k" "ls ! k" "drop (Suc k) ls"] l by simp
  then show ?case using Suc d l by (simp add: nth_append take_Suc_conv_app_nth sort_key_snoc)
qed

lemma sort_by_priority_is_sort_key: "sort_by_priority ls = sort_key ly_priority ls"
proof (cases ls)
  case Nil
  then show ?thesis by (simp add: sort_by_priority_def)
next
  case (Cons l ls')
  have "fold (\<lambda>index xs. sink_layer (xs ! index) index xs) [0..<length ls] ls = sort_by_priority ls"
    using Cons by (simp add: sort_by_priority_def upt_rec [of 0] del: upt_Suc)
  then show ?thesis using sort_by_priority_prefix [of "length ls" ls] by simp
qed

section \<open>Drawing inside a region\<close>

text \<open>
  A drawing step that keeps the frame's length, changes nothing outside its region, and gives each pixel
  a value that depends on that pixel alone.
\<close>

definition draws_in :: "nat \<Rightarrow> nat \<Rightarrow> (pixel_frame \<Rightarrow> pixel_frame) \<Rightarrow> bool" where
  "draws_in start n draw \<longleftrightarrow> (\<forall>f g. length f = max_led_count \<and> length g = max_led_count \<longrightarrow>
     length (draw f) = max_led_count \<and>
     (\<forall>i < max_led_count. (f ! i = g ! i \<longrightarrow> draw f ! i = draw g ! i) \<and>
       (\<not> (start \<le> i \<and> i < start + n) \<longrightarrow> draw f ! i = f ! i)))"

lemma draws_inI:
  assumes "\<And>f. length f = max_led_count \<Longrightarrow> length (draw f) = max_led_count"
    and "\<And>f g i. length f = max_led_count \<Longrightarrow> length g = max_led_count \<Longrightarrow> i < max_led_count \<Longrightarrow> f ! i = g ! i \<Longrightarrow> draw f ! i = draw g ! i"
    and "\<And>f i. length f = max_led_count \<Longrightarrow> i < max_led_count \<Longrightarrow> \<not> (start \<le> i \<and> i < start + n) \<Longrightarrow> draw f ! i = f ! i"
  shows "draws_in start n draw"
  using assms unfolding draws_in_def by blast

lemma draws_in_length: "draws_in s n d \<Longrightarrow> length f = max_led_count \<Longrightarrow> length (d f) = max_led_count"
  unfolding draws_in_def by blast

lemma draws_in_pointwise:
  "draws_in s n d \<Longrightarrow> length f = max_led_count \<Longrightarrow> length g = max_led_count \<Longrightarrow> i < max_led_count \<Longrightarrow> f ! i = g ! i \<Longrightarrow> d f ! i = d g ! i"
  unfolding draws_in_def by blast

lemma draws_in_outside:
  "draws_in s n d \<Longrightarrow> length f = max_led_count \<Longrightarrow> i < max_led_count \<Longrightarrow> \<not> (s \<le> i \<and> i < s + n) \<Longrightarrow> d f ! i = f ! i"
  unfolding draws_in_def by blast

lemma draws_in_id [intro]: "draws_in s n (\<lambda>f. f)"
  by (rule draws_inI) auto

lemma draws_in_update [intro]: "s \<le> k \<Longrightarrow> k < s + n \<Longrightarrow> draws_in s n (\<lambda>f. f[k := c])"
  by (cases "k < max_led_count") (auto intro!: draws_inI simp: nth_list_update list_update_beyond not_less split: if_splits)

lemma draws_in_comp:
  assumes "draws_in s n d" and "draws_in s n e"
  shows "draws_in s n (\<lambda>f. e (d f))"
proof (rule draws_inI, goal_cases)
  case (1 f)
  then show ?case by (intro draws_in_length [OF assms(2)] draws_in_length [OF assms(1)])
next
  case (2 f g i)
  then show ?case
    by (intro draws_in_pointwise [OF assms(2)] draws_in_pointwise [OF assms(1)] draws_in_length [OF assms(1)])
next
  case (3 f i)
  then show ?case
    using draws_in_outside [OF assms(2) draws_in_length [OF assms(1)]] draws_in_outside [OF assms(1)] by metis
qed

lemma draws_in_fold:
  "(\<And>k. k \<in> set ks \<Longrightarrow> draws_in s n (d k)) \<Longrightarrow> draws_in s n (\<lambda>f. fold d ks f)"
proof (induction ks)
  case (Cons k ks)
  have "draws_in s n (\<lambda>f. fold d ks (d k f))"
    by (rule draws_in_comp) (use Cons in auto)
  then show ?case by simp
qed (simp add: draws_in_id id_def)

lemma draws_in_if [intro]:
  "(P \<Longrightarrow> draws_in s n d) \<Longrightarrow> (\<not> P \<Longrightarrow> draws_in s n e) \<Longrightarrow> draws_in s n (\<lambda>f. if P then d f else e f)"
  by (cases P) simp_all

lemma draws_in_fill_range: "s \<le> a \<Longrightarrow> a + k \<le> s + n \<Longrightarrow> draws_in s n (fill_range a k c)"
  unfolding fill_range_def by (rule draws_in_fold) auto

lemma length_fill_range [simp]: "length (fill_range a k c f) = length f"
  unfolding fill_range_def by (rule length_fold_update)

lemma fill_range_nth:
  "i < length f \<Longrightarrow> fill_range a k c f ! i = (if a \<le> i \<and> i < a + k then c else f ! i)"
  unfolding fill_range_def
  by (auto simp: nth_fold_update image_iff Bex_def le_iff_add)

lemma draws_in_fill_zone:
  assumes "fraction_ok fr"
  shows "draws_in (lz_start z) (lz_length z) (\<lambda>f. snd (fill_zone z fr c f))"
proof (cases "zone_ok z")
  case True
  then show ?thesis
    by (intro draws_inI) (auto simp: fill_zone_nth [OF True assms] in_zone_def)
next
  case False
  then have "(\<lambda>f. snd (fill_zone z fr c f)) = (\<lambda>f. f)" by (auto simp: fill_zone_def zone_ok_def Let_def)
  then show ?thesis by (simp add: draws_in_id)
qed

subsection \<open>The two animations\<close>

definition animation_ok :: "animation \<Rightarrow> bool" where
  "animation_ok anim \<longleftrightarrow> (\<forall>elapsed n. default_led_count \<le> n \<and> n \<le> max_led_count \<longrightarrow>
     draws_in 0 turn_led_count (\<lambda>f. anim f \<lparr>ac_left_turn = True, ac_right_turn = False, ac_elapsed = elapsed, ac_pixel_count = n\<rparr>) \<and>
     draws_in (n - turn_led_count) turn_led_count
       (\<lambda>f. anim f \<lparr>ac_left_turn = False, ac_right_turn = True, ac_elapsed = elapsed, ac_pixel_count = n\<rparr>))"

lemma draws_in_flow:
  assumes "phase < turn_led_count" and "default_led_count \<le> n"
  shows "draws_in (if left then 0 else n - turn_led_count) turn_led_count (draw_flow left phase n)"
  unfolding draw_flow_def Let_def
  by (rule draws_in_fold, cases left; simp; intro impI conjI draws_in_if draws_in_id draws_in_update)
    (use assms in \<open>auto simp: turn_led_count_def default_led_count_def flow_tail_length_def\<close>)

lemma draws_in_center_out:
  assumes "phase < turn_led_count" and "default_led_count \<le> n"
  shows "draws_in (if left then 0 else n - turn_led_count) turn_led_count (draw_center_out_fill left phase n)"
  unfolding draw_center_out_fill_def
  by (rule draws_in_fold) (use assms in \<open>auto simp: turn_led_count_def default_led_count_def\<close>)

lemma running_flow_ok: "animation_ok render_running_flow"
  using draws_in_flow [where left = True] draws_in_flow [where left = False]
  by (simp add: animation_ok_def render_running_flow_def Let_def turn_led_count_def)

lemma center_out_ok: "animation_ok render_center_out_fill"
proof -
  have "(x :: nat) mod (turn_led_count + 1) \<noteq> turn_led_count \<Longrightarrow> x mod (turn_led_count + 1) < turn_led_count" for x
    by (metis Suc_eq_plus1 less_SucE mod_less_divisor zero_less_Suc)
  then show ?thesis
    using draws_in_center_out [where left = True] draws_in_center_out [where left = False]
    by (auto simp: animation_ok_def render_center_out_fill_def Let_def simp del: One_nat_def add_Suc_right)
qed

section \<open>The lit layers\<close>

text \<open>Every level a command carries was built by a factory of \<open>FillFraction\<close>; the lists respect their capacity.\<close>

definition command_ok :: "lighting_command \<Rightarrow> bool" where
  "command_ok cmd \<longleftrightarrow> (\<forall>f \<in> set (lc_fills cmd). fraction_ok (lf_level f)) \<and> length (lc_fills cmd) \<le> fills_capacity
     \<and> length (lc_transients cmd) \<le> transient_capacity
     \<and> (\<forall>s \<in> set (lc_transients cmd). transient_id_valid (ts_id s) \<and> ts_sequence s \<noteq> 0)
     \<and> distinct (map ts_id (lc_transients cmd))"

definition pixel_count_ok :: "nat \<Rightarrow> bool" where
  "pixel_count_ok n \<longleftrightarrow> default_led_count \<le> n \<and> n \<le> max_led_count"

definition layer_ok :: "nat \<Rightarrow> layer \<Rightarrow> bool" where
  "layer_ok n l \<longleftrightarrow> ly_start l + ly_count l \<le> n \<and> (case ly_kind l of
     FillLayer f \<Rightarrow> fraction_ok (lf_level f) \<and> ly_start l = lz_start (lf_zone f) \<and> ly_count l = lz_length (lf_zone f)
   | BrakeLayer \<Rightarrow> ly_start l = (n - brake_led_count) div 2 \<and> ly_count l = brake_led_count
   | LeftTurnLayer \<Rightarrow> ly_start l = 0 \<and> ly_count l = turn_led_count
   | RightTurnLayer \<Rightarrow> ly_start l = n - turn_led_count \<and> ly_count l = turn_led_count)"

definition fills_drawable :: "nat \<Rightarrow> lighting_fill list \<Rightarrow> bool" where
  "fills_drawable n fills \<longleftrightarrow> (\<forall>f \<in> set fills. fraction_ok (lf_level f) \<and> validate_zone (lf_zone f) n = ZoneValid)"

lemma layer_stack_ok:
  assumes "command_ok cmd" and "fills_drawable n tr" and "pixel_count_ok n" and "l \<in> set (layer_stack cmd tr n)"
  shows "layer_ok n l"
  using assms
  by (auto simp: layer_stack_def layer_ok_def fill_layer_def command_ok_def fills_drawable_def pixel_count_ok_def
      validate_zone_valid brake_led_count_def turn_led_count_def default_led_count_def split: if_splits)

text \<open>The array of nineteen layers never overflows.\<close>

lemma length_layer_stack:
  assumes "command_ok cmd" and "length tr \<le> transient_capacity"
  shows "length (layer_stack cmd tr n) \<le> fills_capacity + transient_capacity + 3"
proof -
  let ?f = "filter (\<lambda>f. \<not> fraction_eq (lf_level f) fraction_empty \<and> validate_zone (lf_zone f) n = ZoneValid) (lc_fills cmd)"
  have "length ?f \<le> fills_capacity"
    using assms(1) by (auto simp: command_ok_def intro: order_trans [OF length_filter_le])
  then show ?thesis using assms(2) by (simp add: layer_stack_def)
qed

lemma draws_in_layer:
  assumes "layer_ok n l" and "animation_ok anim" and "pixel_count_ok n"
  shows "draws_in (ly_start l) (ly_count l) (draw_layer anim elapsed n l)"
proof (cases "ly_kind l")
  case (FillLayer f)
  then have "draw_layer anim elapsed n l = (\<lambda>fr. snd (fill_zone (lf_zone f) (lf_level f) (ceiling_clamped (lf_color f)) fr))"
    by (simp add: draw_layer_def fun_eq_iff)
  then show ?thesis
    using FillLayer assms(1) draws_in_fill_zone [of "lf_level f" "lf_zone f"] by (simp add: layer_ok_def)
next
  case BrakeLayer
  then show ?thesis by (simp add: draw_layer_def [abs_def] draws_in_fill_range)
qed (use assms in \<open>auto simp: draw_layer_def [abs_def] layer_ok_def animation_ok_def pixel_count_ok_def\<close>)

lemma draws_in_owned:
  assumes "layer_ok n l" and "animation_ok anim" and "pixel_count_ok n"
  shows "draws_in (ly_start l) (ly_count l) (draw_owned anim elapsed n l)"
  unfolding draw_owned_def
  by (rule draws_in_comp [OF draws_in_fill_range draws_in_layer [OF assms]]) simp_all

subsection \<open>Painter's composition\<close>

definition owns :: "layer \<Rightarrow> nat \<Rightarrow> bool" where
  "owns l i \<longleftrightarrow> ly_start l \<le> i \<and> i < ly_start l + ly_count l"

text \<open>One scan without sorting: the owner of highest priority, the later one at equal priority.\<close>

definition top_layer :: "nat \<Rightarrow> layer list \<Rightarrow> layer option" where
  "top_layer i ls = fold (\<lambda>l w. if owns l i \<and> (case w of None \<Rightarrow> True | Some v \<Rightarrow> ly_priority v \<le> ly_priority l)
     then Some l else w) ls None"

definition layer_pixel :: "animation \<Rightarrow> monotonic \<Rightarrow> nat \<Rightarrow> layer \<Rightarrow> nat \<Rightarrow> rgb" where
  "layer_pixel anim elapsed n l i = draw_layer anim elapsed n l black_frame ! i"

lemma last_insert_after:
  assumes "sorted (map ly_priority ls)" and "ls \<noteq> []"
  shows "last (insert_after l ls) = (if ly_priority (last ls) \<le> ly_priority l then l else last ls)"
proof -
  have ls: "ls = butlast ls @ [last ls]" using assms(2) by simp
  have "\<forall>x \<in> set ls. ly_priority x \<le> ly_priority (last ls)"
    using assms(1) by (subst ls, subst (asm) ls) (auto simp: sorted_append)
  then have le: "ly_priority (last ls) \<le> ly_priority l \<Longrightarrow> filter (\<lambda>x. \<not> ly_priority x \<le> ly_priority l) ls = []"
    by (auto simp: filter_empty_conv)
  have "\<not> ly_priority (last ls) \<le> ly_priority l \<Longrightarrow>
      filter (\<lambda>x. \<not> ly_priority x \<le> ly_priority l) ls = filter (\<lambda>x. \<not> ly_priority x \<le> ly_priority l) (butlast ls) @ [last ls]"
    by (subst ls) simp
  then show ?thesis using le by (auto simp: insert_after_def)
qed

lemma top_layer_sorted:
  "top_layer i ls = (let os = filter (\<lambda>l. owns l i) (sort_key ly_priority ls) in if os = [] then None else Some (last os))"
proof (induction ls rule: rev_induct)
  case Nil
  then show ?case by (simp add: top_layer_def)
next
  case (snoc l ls)
  let ?s = "sort_key ly_priority ls"
  have step: "top_layer i (ls @ [l]) = (if owns l i \<and> (case top_layer i ls of None \<Rightarrow> True | Some v \<Rightarrow> ly_priority v \<le> ly_priority l)
     then Some l else top_layer i ls)"
    by (simp add: top_layer_def)
  show ?case
  proof (cases "owns l i")
    case True
    let ?o = "filter (\<lambda>l. owns l i) ?s"
    have so: "sorted (map ly_priority ?o)" by (rule sorted_filter) simp
    have f: "filter (\<lambda>l. owns l i) (insert_after l ?s) = insert_after l ?o"
      using True by (simp add: insert_after_def conj_commute)
    show ?thesis
    proof (cases "?o = []")
      case True
      then show ?thesis using snoc step f \<open>owns l i\<close> by (simp add: sort_key_snoc insert_after_def)
    next
      case False
      then have w: "top_layer i ls = Some (last ?o)" using snoc by (simp add: Let_def)
      show ?thesis
        using step w last_insert_after [OF so False, of l] \<open>owns l i\<close>
        unfolding sort_key_snoc f Let_def by (simp add: insert_after_def)
    qed
  next
    case False
    have "filter (\<lambda>l. owns l i) (insert_after l ?s) = filter (\<lambda>l. owns l i) ?s"
      using False arg_cong [OF split_by_priority [of ?s "ly_priority l"], of "filter (\<lambda>l. owns l i)"]
      by (simp add: insert_after_def)
    then show ?thesis using snoc step False by (simp add: sort_key_snoc)
  qed
qed

text \<open>Drawing a list of layers in order: a pixel shows its last owner, drawn on black.\<close>

lemma draw_owned_pixel:
  assumes "layer_ok n l" and "animation_ok anim" and "pixel_count_ok n" and "length f = max_led_count"
    and "i < max_led_count" and "owns l i"
  shows "draw_owned anim elapsed n l f ! i = layer_pixel anim elapsed n l i"
  unfolding draw_owned_def layer_pixel_def
  by (rule draws_in_pointwise [OF draws_in_layer [OF assms(1-3)]])
    (use assms(4-6) in \<open>auto simp: fill_range_nth owns_def black_frame_def\<close>)

lemma draw_layers_nth:
  assumes "\<forall>l \<in> set ls. layer_ok n l" and "animation_ok anim" and "pixel_count_ok n" and "length f = max_led_count"
  shows "length (fold (draw_owned anim elapsed n) ls f) = max_led_count \<and> (\<forall>i < max_led_count.
    fold (draw_owned anim elapsed n) ls f ! i = (let os = filter (\<lambda>l. owns l i) ls in
      if os = [] then f ! i else layer_pixel anim elapsed n (last os) i))"
  using assms(1)
proof (induction ls rule: rev_induct)
  case Nil
  then show ?case using assms(4) by simp
next
  case (snoc l ls)
  let ?g = "fold (draw_owned anim elapsed n) ls f"
  have l: "layer_ok n l" and g: "length ?g = max_led_count" using snoc by auto
  note d = draws_in_owned [OF l assms(2,3)]
  show ?case
  proof (intro conjI allI impI)
    show "length (fold (draw_owned anim elapsed n) (ls @ [l]) f) = max_led_count"
      using draws_in_length [OF d g] by simp
    fix i assume i: "i < max_led_count"
    show "fold (draw_owned anim elapsed n) (ls @ [l]) f ! i = (let os = filter (\<lambda>l. owns l i) (ls @ [l]) in
      if os = [] then f ! i else layer_pixel anim elapsed n (last os) i)"
    proof (cases "owns l i")
      case True
      then show ?thesis using draw_owned_pixel [OF l assms(2,3) g i True] by simp
    next
      case False
      have "draw_owned anim elapsed n l ?g ! i = ?g ! i"
        by (rule draws_in_outside [OF d g i]) (use False in \<open>simp add: owns_def\<close>)
      then show ?thesis using snoc i False by simp
    qed
  qed
qed

lemma draw_sorted_layers:
  assumes "\<forall>l \<in> set ls. layer_ok n l" and "animation_ok anim" and "pixel_count_ok n" and "length f = max_led_count"
    and "i < max_led_count"
  shows "fold (draw_owned anim elapsed n) (sort_by_priority ls) f ! i =
    (case top_layer i ls of None \<Rightarrow> f ! i | Some l \<Rightarrow> layer_pixel anim elapsed n l i)"
  using draw_layers_nth [of "sort_by_priority ls" n anim f elapsed] assms
  by (auto simp: sort_by_priority_is_sort_key top_layer_sorted Let_def)

end
