(* ===== verification/Controller_Laws.thy ===== *)
theory Controller_Laws
  imports Renderer_Laws
begin

text \<open>
  The renderer's controller over time: the invariant of its state, the frames it asks the sink for, the
  agreement between its belief and the strip whatever writes the sink refuses, its fail-off, and the
  admission and expiry of one-shot effects. \<open>LedStripSink\<close> (\<open>components/local_argb/src/local_argb_idf.cpp\<close>)
  is the sink of the firmware; the LED driver under it is a parameter.
\<close>

section \<open>One-shot effects\<close>

definition timings_ok :: "nat \<Rightarrow> timing list \<Rightarrow> bool" where
  "timings_ok n ts \<longleftrightarrow> length ts = transient_capacity \<and>
     (\<forall>t \<in> set ts. tm_active t \<longrightarrow> validate_zone (lt_zone (tm_effect t)) n = ZoneValid \<and>
        lt_duration (tm_effect t) \<le> max_transient_duration)"

lemma no_timings_ok: "timings_ok n no_timings"
  by (simp add: timings_ok_def no_timings_def default_timing_def)

lemma cancel_ok: "timings_ok n ts \<Longrightarrow> timings_ok n (transients_cancel ts)"
  by (auto simp: timings_ok_def transients_cancel_def)

lemma expire_ok: "timings_ok n ts \<Longrightarrow> timings_ok n (transients_expire now ts)"
  by (auto simp: timings_ok_def transients_expire_def split: if_splits)

lemma length_admit [simp]: "length (admit_start now e n s ts) = length ts"
  by (simp add: admit_start_def)

lemma length_fold_admit [simp]: "length (fold (admit_start now e n) starts ts) = length ts"
  by (induction starts arbitrary: ts) simp_all

lemma admit_ok: "timings_ok n ts \<Longrightarrow> timings_ok n (admit_start now e n s ts)"
  by (auto simp: timings_ok_def admit_start_def start_admitted_def dest!: set_update_subset_insert [THEN subsetD])

lemma fold_admit_ok: "timings_ok n ts \<Longrightarrow> timings_ok n (fold (admit_start now e n) starts ts)"
  by (induction starts arbitrary: ts) (simp_all add: admit_ok)

lemma length_transients_apply [simp]: "length (transients_apply starts now e n ts) = length ts"
  by (simp add: transients_apply_def Let_def)

lemma transients_apply_nth:
  "k < length ts \<Longrightarrow> transients_apply starts now e n ts ! k =
     (let t = fold (admit_start now e n) starts ts ! k in
      if \<exists>s \<in> set starts. start_index s = k then t else t\<lparr>tm_active := False\<rparr>)"
  by (auto simp: transients_apply_def Let_def list_ex_iff)

lemma apply_ok: "timings_ok n ts \<Longrightarrow> timings_ok n (transients_apply starts now e n ts)"
  using fold_admit_ok [of n ts now e starts]
  by (auto simp: timings_ok_def transients_apply_def Let_def set_zip split: if_splits)

text \<open>
  Only a start of a new sequence touches a slot; it is admitted inside its own window, in the current
  cancellation epoch.
\<close>

lemma fold_admit_nth:
  assumes "k < length ts"
  shows "fold (admit_start now e n) starts ts ! k = ts ! k \<or>
    (\<exists>s \<in> set starts. start_index s = k \<and> fold (admit_start now e n) starts ts ! k =
      \<lparr>tm_effect = ts_effect s, tm_sequence = ts_sequence s, tm_started = now, tm_active = start_admitted now e n s\<rparr>)"
  using assms
proof (induction starts arbitrary: ts)
  case (Cons s starts)
  have "admit_start now e n s ts ! k = ts ! k \<or> (start_index s = k \<and> admit_start now e n s ts ! k =
      \<lparr>tm_effect = ts_effect s, tm_sequence = ts_sequence s, tm_started = now, tm_active = start_admitted now e n s\<rparr>)"
    using Cons.prems by (auto simp: admit_start_def nth_update_at)
  then show ?case using Cons.IH [of "admit_start now e n s ts"] Cons.prems by auto
qed simp

lemma fold_admit_same:
  assumes "k < length ts" and "\<forall>s \<in> set starts. start_index s = k \<longrightarrow> ts_sequence s = tm_sequence (ts ! k)"
  shows "fold (admit_start now e n) starts ts ! k = ts ! k"
  using assms
proof (induction starts arbitrary: ts)
  case (Cons s starts)
  have "admit_start now e n s ts ! k = ts ! k"
    using Cons.prems by (auto simp: admit_start_def nth_update_at)
  then show ?case using Cons.IH [of "admit_start now e n s ts"] Cons.prems by simp
qed simp

section \<open>The controller's invariant\<close>

definition controller_inv :: "controller \<Rightarrow> bool" where
  "controller_inv c \<longleftrightarrow> pixel_count_ok (rc_pixel_count c) \<and> animation_ok (rc_animation c) \<and> command_ok (rc_command c) \<and>
     timings_ok (rc_pixel_count c) (rc_transients c)"

lemma default_command_ok: "command_ok default_command"
  by (simp add: command_ok_def default_command_def)

lemma new_controller_inv: "(case anim of None \<Rightarrow> True | Some a \<Rightarrow> animation_ok a) \<Longrightarrow> controller_inv (new_controller anim)"
  by (auto simp: controller_inv_def new_controller_def pixel_count_ok_def default_command_ok no_timings_ok
      default_led_count_def max_led_count_def running_flow_ok split: option.splits)

lemma configure_inv: "controller_inv c \<Longrightarrow> rc_transients c = no_timings \<Longrightarrow> controller_inv (snd (configure_pixel_count n c))"
  by (auto simp: controller_inv_def configure_pixel_count_def pixel_count_ok_def no_timings_ok)

lemma tick_transients_inv: "controller_inv c \<Longrightarrow> controller_inv (tick_transients now c)"
  by (auto simp: controller_inv_def tick_transients_def Let_def intro!: expire_ok cancel_ok)

lemma apply_command_inv: "controller_inv c \<Longrightarrow> command_ok cmd \<Longrightarrow> controller_inv (apply_command cmd now e c)"
  by (auto simp: controller_inv_def apply_command_def Let_def intro!: apply_ok cancel_ok)

lemma write_desired_fields:
  "write_desired sink d (c, s) = (ok, c', s') \<Longrightarrow>
   rc_pixel_count c' = rc_pixel_count c \<and> rc_animation c' = rc_animation c \<and> rc_command c' = rc_command c \<and>
   (rc_transients c' = rc_transients c \<or> rc_transients c' = transients_cancel (rc_transients c)) \<and>
   rc_epoch c' = rc_epoch c \<and> rc_has_command c' = rc_has_command c \<and> rc_last_tick c' = rc_last_tick c \<and>
   rc_animation_started c' = rc_animation_started c"
  by (auto simp: write_desired_def Let_def split: if_splits prod.splits)

lemma write_desired_inv: "controller_inv c \<Longrightarrow> write_desired sink d (c, s) = (ok, c', s') \<Longrightarrow> controller_inv c'"
  using write_desired_fields [of sink d c s ok c' s'] by (auto simp: controller_inv_def intro: cancel_ok)

subsection \<open>What it draws\<close>

lemma transients_active_drawable:
  assumes "timings_ok n ts" and "command_ok cmd"
  shows "fills_drawable n (transients_active (lc_transients cmd) ts) \<and>
    length (transients_active (lc_transients cmd) ts) \<le> transient_capacity"
proof -
  define st where "st = (\<lambda>s fills. let t = ts ! start_index s in
     if tm_active t then snd (fills_add \<lparr>lf_zone = lt_zone (tm_effect t), lf_level = fraction_full,
       lf_color = lt_color (tm_effect t), lf_priority = lt_priority (tm_effect t)\<rparr> fills) else fills)"
  have ac: "transients_active starts ts = fold st starts []" for starts
    by (simp add: transients_active_def st_def)
  have idx: "start_index s < transient_capacity" if "s \<in> set (lc_transients cmd)" for s
    using assms(2) that by (auto simp: command_ok_def transient_id_valid_def start_index_def word_gt_0 unat_gt_0 transient_capacity_def)
  have dr: "set starts \<subseteq> set (lc_transients cmd) \<Longrightarrow> fills_drawable n fills \<Longrightarrow> fills_drawable n (fold st starts fills)" for starts fills
  proof (induction starts arbitrary: fills)
    case (Cons s starts)
    have "ts ! start_index s \<in> set ts" using idx [of s] Cons.prems assms(1) by (simp add: timings_ok_def)
    then have "fills_drawable n (st s fills)"
      using Cons.prems assms(1) by (auto simp: st_def Let_def fills_add_def fills_drawable_def timings_ok_def)
    then show ?case using Cons by simp
  qed simp
  have len: "length (fold st starts fills) \<le> length fills + length starts" for starts fills
  proof (induction starts arbitrary: fills)
    case (Cons s starts)
    have "length (st s fills) \<le> Suc (length fills)" by (simp add: st_def Let_def fills_add_def)
    then show ?case using Cons [of "st s fills"] by simp
  qed simp
  have "fills_drawable n (fold st (lc_transients cmd) [])" by (rule dr) (simp_all add: fills_drawable_def)
  moreover have "length (fold st (lc_transients cmd) []) \<le> transient_capacity"
    using len [of "lc_transients cmd" "[]"] assms(2) by (simp add: command_ok_def)
  ultimately show ?thesis by (simp add: ac)
qed

definition controller_layers :: "controller \<Rightarrow> layer list" where
  "controller_layers c = layer_stack (rc_command c) (transients_active (lc_transients (rc_command c)) (rc_transients c)) (rc_pixel_count c)"

lemma controller_layers_ok:
  assumes "controller_inv c"
  shows "(\<forall>l \<in> set (controller_layers c). layer_ok (rc_pixel_count c) l) \<and>
    length (controller_layers c) \<le> fills_capacity + transient_capacity + 3"
proof -
  have tr: "fills_drawable (rc_pixel_count c) (transients_active (lc_transients (rc_command c)) (rc_transients c))"
    "length (transients_active (lc_transients (rc_command c)) (rc_transients c)) \<le> transient_capacity"
    using transients_active_drawable [of "rc_pixel_count c" "rc_transients c" "rc_command c"] assms by (auto simp: controller_inv_def)
  have "command_ok (rc_command c)" "pixel_count_ok (rc_pixel_count c)" using assms by (auto simp: controller_inv_def)
  then show ?thesis
    using layer_stack_ok [OF _ tr(1)] length_layer_stack [OF _ tr(2)] unfolding controller_layers_def by blast
qed

definition animation_elapsed :: "monotonic \<Rightarrow> controller \<Rightarrow> monotonic" where
  "animation_elapsed now c = (if rc_animation_started c \<le> now then now - rc_animation_started c else 0)"

definition generic_colour_only :: "lighting_command \<Rightarrow> bool" where
  "generic_colour_only cmd \<longleftrightarrow> \<not> lc_left_turn cmd \<and> \<not> lc_right_turn cmd \<and> \<not> lc_brake cmd \<and> lc_fills cmd = []"

lemma draw_frame_nth:
  assumes "controller_inv c"
  shows "length (draw_frame now c black_frame) = max_led_count \<and> (\<forall>i < max_led_count. draw_frame now c black_frame ! i =
    (case top_layer i (controller_layers c) of
       Some l \<Rightarrow> layer_pixel (rc_animation c) (animation_elapsed now c) (rc_pixel_count c) l i
     | None \<Rightarrow> if generic_colour_only (rc_command c) \<and> i < rc_pixel_count c then ceiling_clamped (lc_color (rc_command c)) else black))"
proof -
  define f where "f = (if generic_colour_only (rc_command c) then fill_range 0 (rc_pixel_count c) (ceiling_clamped (lc_color (rc_command c))) black_frame else black_frame)"
  have f: "length f = max_led_count" by (simp add: f_def black_frame_def)
  have inv: "animation_ok (rc_animation c)" "pixel_count_ok (rc_pixel_count c)" using assms by (auto simp: controller_inv_def)
  note ok = controller_layers_ok [OF assms, THEN conjunct1]
  have d: "draw_frame now c black_frame = fold (draw_owned (rc_animation c) (animation_elapsed now c) (rc_pixel_count c))
      (sort_by_priority (controller_layers c)) f"
    by (simp add: draw_frame_def Let_def controller_layers_def animation_elapsed_def generic_colour_only_def f_def)
  have "length (draw_frame now c black_frame) = max_led_count"
    unfolding d using draw_layers_nth [of "sort_by_priority (controller_layers c)", OF _ inv f] ok
    by (simp add: sort_by_priority_is_sort_key)
  moreover have "f ! i = (if generic_colour_only (rc_command c) \<and> i < rc_pixel_count c then ceiling_clamped (lc_color (rc_command c)) else black)"
    if "i < max_led_count" for i
    using that by (simp add: f_def fill_range_nth black_frame_def)
  ultimately show ?thesis
    unfolding d using draw_sorted_layers [OF ok inv f] by (simp split: option.splits)
qed

section \<open>The frames and the strip\<close>

text \<open>
  What a sink promises: an accepted write puts the first \<open>n\<close> pixels of the frame in front of the strip's
  buffer and shows the buffer; a refused write promises nothing.
\<close>

definition sink_contract :: "'s pixel_sink \<Rightarrow> ('s \<Rightarrow> pixel_frame) \<Rightarrow> ('s \<Rightarrow> pixel_frame) \<Rightarrow> bool" where
  "sink_contract sink buf shown \<longleftrightarrow> (\<forall>s. length (buf s) = max_led_count) \<and>
     (\<forall>f n s s'. length f = max_led_count \<and> n \<le> max_led_count \<and> sink f n s = (True, s') \<longrightarrow>
        buf s' = take n f @ drop n (buf s) \<and> shown s' = buf s')"

definition dark_beyond :: "nat \<Rightarrow> pixel_frame \<Rightarrow> bool" where
  "dark_beyond n f \<longleftrightarrow> length f = max_led_count \<and> (\<forall>i < max_led_count. n \<le> i \<longrightarrow> f ! i = black)"

lemma black_frame_dark [simp]: "dark_beyond n black_frame"
  by (simp add: dark_beyond_def black_frame_def)

lemma drop_dark: "dark_beyond n f \<Longrightarrow> drop n f = replicate (max_led_count - n) black"
  by (rule nth_equalityI) (auto simp: dark_beyond_def)

lemma draw_frame_dark:
  assumes "controller_inv c"
  shows "dark_beyond (rc_pixel_count c) (draw_frame now c black_frame)"
proof -
  have "top_layer i (controller_layers c) = None" if "rc_pixel_count c \<le> i" for i
  proof -
    have "\<forall>l \<in> set (controller_layers c). \<not> owns l i"
      using controller_layers_ok [OF assms] that by (auto simp: layer_ok_def owns_def)
    then show ?thesis by (auto simp: top_layer_sorted Let_def filter_empty_conv)
  qed
  then show ?thesis using draw_frame_nth [OF assms, of now] by (auto simp: dark_beyond_def)
qed

text \<open>The controller's belief about the strip.\<close>

definition strip_view :: "('s \<Rightarrow> pixel_frame) \<Rightarrow> ('s \<Rightarrow> pixel_frame) \<Rightarrow> controller \<times> 's \<Rightarrow> bool" where
  "strip_view buf shown = (\<lambda>(c, s). rc_has_last_written c \<longrightarrow> buf s = rc_last_written c \<and> shown s = rc_last_written c \<and>
     dark_beyond (rc_pixel_count c) (rc_last_written c))"

definition strip_agrees :: "('s \<Rightarrow> pixel_frame) \<Rightarrow> ('s \<Rightarrow> pixel_frame) \<Rightarrow> controller \<times> 's \<Rightarrow> bool" where
  "strip_agrees buf shown = (\<lambda>(c, s). strip_view buf shown (c, s) \<and> (\<not> rc_has_last_written c \<longrightarrow> rc_faulted c))"

lemma contract_write:
  assumes "sink_contract sink buf shown" and "length f = max_led_count" and "n \<le> max_led_count" and "sink f n s = (True, s')"
  shows "buf s' = take n f @ drop n (buf s) \<and> shown s' = buf s' \<and> length (buf s) = max_led_count"
  using assms unfolding sink_contract_def by blast

lemma contract_black:
  "sink_contract sink buf shown \<Longrightarrow> sink black_frame max_led_count s = (True, s') \<Longrightarrow> buf s' = black_frame \<and> shown s' = black_frame"
  using contract_write [of sink buf shown black_frame max_led_count s s'] by (simp add: black_frame_def)

lemma contract_lit:
  assumes "sink_contract sink buf shown" and "sink f n s = (True, s')" and "dark_beyond n f" and "dark_beyond n (buf s)" and "n \<le> max_led_count"
  shows "buf s' = f \<and> shown s' = f"
proof -
  have "buf s' = take n f @ drop n (buf s) \<and> shown s' = buf s'"
    using contract_write [OF assms(1) _ assms(5,2)] assms(3) by (simp add: dark_beyond_def)
  moreover have "drop n (buf s) = drop n f" using drop_dark [OF assms(3)] drop_dark [OF assms(4)] by simp
  ultimately show ?thesis by (metis append_take_drop_id)
qed

lemma write_desired_agrees:
  assumes contract: "sink_contract sink buf shown" and view: "strip_view buf shown (c, s)"
    and dark: "dark_beyond (rc_pixel_count c) desired" and n: "rc_pixel_count c \<le> max_led_count"
    and lit: "desired \<noteq> black_frame \<Longrightarrow> rc_has_last_written c"
    and wr: "write_desired sink desired (c, s) = (ok, c', s')"
  shows "strip_view buf shown (c', s') \<and> (ok \<longrightarrow> shown s' = desired \<and> rc_has_last_written c' \<and> rc_last_written c' = desired \<and> rc_faulted c' = rc_faulted c) \<and>
    (\<not> ok \<longrightarrow> rc_faulted c' \<and> (rc_has_last_written c' \<longrightarrow> rc_last_written c' = black_frame))"
proof (cases "rc_has_last_written c \<and> desired = rc_last_written c")
  case True
  then have "ok" "c' = c" "s' = s" using wr by (auto simp: write_desired_def)
  then show ?thesis using view True by (auto simp: strip_view_def)
next
  case False
  let ?n = "if desired = black_frame then max_led_count else rc_pixel_count c"
  obtain w s1 where w: "sink desired ?n s = (w, s1)" by (cases "sink desired ?n s") auto
  show ?thesis
  proof (cases w)
    case True
    have "buf s1 = desired \<and> shown s1 = desired"
    proof (cases "desired = black_frame")
      case b: True
      then show ?thesis using contract_black [OF contract] w True by simp
    next
      case l: False
      then have "dark_beyond (rc_pixel_count c) (buf s)" using view lit by (simp add: strip_view_def)
      then show ?thesis using contract_lit [OF contract _ dark _ n] w True l by simp
    qed
    moreover have "ok \<and> c' = c\<lparr>rc_last_written := desired, rc_has_last_written := True\<rparr> \<and> s' = s1"
      using wr w False True by (simp add: write_desired_def Let_def)
    ultimately show ?thesis using dark by (simp add: strip_view_def)
  next
    case no: False
    show ?thesis
    proof (cases "desired = black_frame")
      case True
      then show ?thesis using wr w False no by (auto simp: write_desired_def Let_def strip_view_def)
    next
      case l: False
      obtain b s2 where b: "sink black_frame max_led_count s1 = (b, s2)" by (cases "sink black_frame max_led_count s1") auto
      show ?thesis
        using wr w b False no l contract_black [OF contract, of s1 s2]
        by (cases b) (auto simp: write_desired_def Let_def strip_view_def)
    qed
  qed
qed

subsection \<open>Runs of the worker\<close>

datatype renderer_event = Apply lighting_command monotonic u32 | Tick monotonic

definition event_ok :: "renderer_event \<Rightarrow> bool" where
  "event_ok ev \<longleftrightarrow> (case ev of Apply cmd now e \<Rightarrow> command_ok cmd | Tick now \<Rightarrow> True)"

definition renderer_event :: "'s pixel_sink \<Rightarrow> renderer_event \<Rightarrow> controller \<times> 's \<Rightarrow> bool \<times> controller \<times> 's" where
  "renderer_event sink ev cs = (case ev of Apply cmd now e \<Rightarrow> controller_apply sink cmd now e cs | Tick now \<Rightarrow> controller_tick sink now cs)"

definition renderer_run :: "'s pixel_sink \<Rightarrow> renderer_event list \<Rightarrow> controller \<times> 's \<Rightarrow> controller \<times> 's" where
  "renderer_run sink evs cs = fold (\<lambda>ev cs. snd (renderer_event sink ev cs)) evs cs"

definition desired_frame :: "monotonic \<Rightarrow> controller \<Rightarrow> pixel_frame" where
  "desired_frame now c = (if controller_shows now c then draw_frame now c black_frame else black_frame)"

text \<open>The controller just before it draws, and the time it draws at.\<close>

definition prepared :: "renderer_event \<Rightarrow> controller \<Rightarrow> controller" where
  "prepared ev c = (case ev of Apply cmd now e \<Rightarrow> tick_transients now (apply_command cmd now e c) | Tick now \<Rightarrow> tick_transients now c)"

definition event_time :: "renderer_event \<Rightarrow> monotonic" where
  "event_time ev = (case ev of Apply cmd now e \<Rightarrow> now | Tick now \<Rightarrow> now)"

lemma renderer_event_writes:
  "renderer_event sink ev (c, s) = write_desired sink (desired_frame (event_time ev) (prepared ev c)) (prepared ev c, s)"
  by (cases ev) (simp_all add: renderer_event_def controller_apply_def controller_tick_def desired_frame_def
      event_time_def prepared_def Let_def)

lemma prepared_inv: "controller_inv c \<Longrightarrow> event_ok ev \<Longrightarrow> controller_inv (prepared ev c)"
  by (cases ev) (simp_all add: prepared_def event_ok_def tick_transients_inv apply_command_inv)

lemma tick_transients_fields [simp]:
  "rc_has_last_written (tick_transients now c) = rc_has_last_written c"
  "rc_last_written (tick_transients now c) = rc_last_written c"
  "rc_pixel_count (tick_transients now c) = rc_pixel_count c"
  "rc_faulted (tick_transients now c) = rc_faulted c"
  "rc_command (tick_transients now c) = rc_command c"
  by (simp_all add: tick_transients_def Let_def)

lemma apply_command_fields [simp]:
  "rc_has_last_written (apply_command cmd now e c) = rc_has_last_written c"
  "rc_last_written (apply_command cmd now e c) = rc_last_written c"
  "rc_pixel_count (apply_command cmd now e c) = rc_pixel_count c"
  "rc_faulted (apply_command cmd now e c) = (rc_faulted c \<and> \<not> black_written c)"
  by (auto simp: apply_command_def Let_def)

lemma prepared_view: "strip_view buf shown (c, s) \<Longrightarrow> strip_view buf shown (prepared ev c, s)"
  by (cases ev) (simp_all add: prepared_def strip_view_def)

lemma prepared_agrees: "strip_agrees buf shown (c, s) \<Longrightarrow> strip_agrees buf shown (prepared ev c, s)"
  by (cases ev) (auto simp: prepared_def strip_agrees_def strip_view_def black_written_def)

lemma event_agrees:
  assumes "sink_contract sink buf shown" and "controller_inv c" and "event_ok ev" and "strip_agrees buf shown (c, s)"
    and "renderer_event sink ev (c, s) = (ok, c', s')"
  shows "controller_inv c' \<and> strip_agrees buf shown (c', s') \<and>
    (ok \<longrightarrow> shown s' = desired_frame (event_time ev) (prepared ev c) \<and> rc_has_last_written c' \<and>
       rc_last_written c' = shown s' \<and> rc_faulted c' = rc_faulted (prepared ev c)) \<and>
    (\<not> ok \<longrightarrow> rc_faulted c' \<and> (rc_has_last_written c' \<longrightarrow> rc_last_written c' = black_frame))"
proof -
  let ?c = "prepared ev c"
  note inv = prepared_inv [OF assms(2,3)] and ag = prepared_agrees [OF assms(4), of ev]
  have view: "strip_view buf shown (?c, s)" using ag by (simp add: strip_agrees_def)
  have n: "rc_pixel_count ?c \<le> max_led_count" using inv by (simp add: controller_inv_def pixel_count_ok_def)
  have dark: "dark_beyond (rc_pixel_count ?c) (desired_frame (event_time ev) ?c)"
    by (simp add: desired_frame_def draw_frame_dark [OF inv])
  have lit: "desired_frame (event_time ev) ?c \<noteq> black_frame \<Longrightarrow> rc_has_last_written ?c"
    using ag by (auto simp: desired_frame_def controller_shows_def strip_agrees_def)
  have wr: "write_desired sink (desired_frame (event_time ev) ?c) (?c, s) = (ok, c', s')"
    using assms(5) by (simp add: renderer_event_writes)
  show ?thesis
    using write_desired_agrees [OF assms(1) view dark n lit wr] write_desired_inv [OF inv wr]
    by (auto simp: strip_agrees_def)
qed

lemma start_agrees:
  assumes "sink_contract sink buf shown" and "controller_inv c" and "controller_start sink (c, s) = (ok, c', s')"
  shows "controller_inv c' \<and> strip_agrees buf shown (c', s') \<and> (ok \<longrightarrow> shown s' = black_frame)"
proof -
  let ?c = "c\<lparr>rc_has_command := False, rc_has_last_written := False,
     rc_faulted := False, rc_animation_started := 0, rc_last_tick := 0, rc_transients := no_timings, rc_epoch := 0\<rparr>"
  have inv: "controller_inv ?c" using assms(2) by (simp add: controller_inv_def no_timings_ok)
  have wr: "write_desired sink black_frame (?c, s) = (ok, c', s')" using assms(3) by (simp add: controller_start_def)
  have "strip_view buf shown (?c, s)" by (simp add: strip_view_def)
  then show ?thesis
    using write_desired_agrees [OF assms(1) _ _ _ _ wr] write_desired_inv [OF inv wr] inv
    by (auto simp: strip_agrees_def controller_inv_def pixel_count_ok_def)
qed

lemma run_agrees:
  assumes "sink_contract sink buf shown" and "controller_inv c" and "\<forall>ev \<in> set evs. event_ok ev" and "strip_agrees buf shown (c, s)"
  shows "controller_inv (fst (renderer_run sink evs (c, s))) \<and> strip_agrees buf shown (renderer_run sink evs (c, s))"
  using assms(2-4)
proof (induction evs arbitrary: c s)
  case (Cons ev evs)
  obtain ok c' s' where e: "renderer_event sink ev (c, s) = (ok, c', s')" by (metis prod_cases3)
  have "controller_inv c' \<and> strip_agrees buf shown (c', s')"
    using event_agrees [OF assms(1) _ _ _ e] Cons.prems by simp
  then show ?case using Cons.IH [of c' s'] Cons.prems e by (simp add: renderer_run_def)
qed (simp add: renderer_run_def)

end
