(* ===== verification/Led_Bindings_Laws.thy ===== *)
theory Led_Bindings_Laws
  imports Led_Bindings Controller_Laws
begin

text \<open>
  Laws of the LED output adapter: the conversion of levels is rounding to the nearest step, the bounded
  appends the code calls infallible are, and the published command is a function of the history of action
  commands and within what the renderer assumes of a command.
\<close>

section \<open>Levels\<close>

text \<open>Every significand of 24 bits at any scale is the value of a pattern.\<close>

lemma mag_units_covers: "a < 16777216 \<Longrightarrow> \<exists>k. mag_units k = a * 2 ^ s"
proof (induction s arbitrary: a)
  case 0
  show ?case
  proof (cases "a < 8388608")
    case True
    then show ?thesis using mag_units_split [of a 0] by auto
  next
    case False
    then have "mag_units (1 * 8388608 + (a - 8388608)) = a" using 0 by (subst mag_units_split) auto
    then show ?thesis by auto
  qed
next
  case (Suc s)
  show ?case
  proof (cases "a < 8388608")
    case True
    then show ?thesis using Suc.IH [of "a * 2"] by (simp add: mult.assoc)
  next
    case False
    then have "mag_units (Suc (Suc s) * 8388608 + (a - 8388608)) = a * 2 ^ Suc s"
      using Suc.prems by (subst mag_units_split) auto
    then show ?thesis by blast
  qed
qed

lemma mag_units_form: "\<exists>a s. a < 16777216 \<and> mag_units m = a * 2 ^ s"
proof (cases "m div 8388608 = 0")
  case True
  then have "mag_units m = (m mod 8388608) * 2 ^ 0" by (simp add: mag_units_def)
  moreover have "m mod 8388608 < 16777216" by (rule less_trans [of _ 8388608]) simp_all
  ultimately show ?thesis by blast
next
  case False
  then have "mag_units m = (8388608 + m mod 8388608) * 2 ^ (m div 8388608 - 1)" by (simp add: mag_units_def Let_def)
  moreover have "m mod 8388608 < 8388608" by simp
  then have "8388608 + m mod 8388608 < 16777216" by linarith
  ultimately show ?thesis by blast
qed

lemma round_mag_scaled: "0 < d \<Longrightarrow> round_mag (k * d) d = round_mag k 1"
  using round_mag_mono [of "k * d" 1 k d] round_mag_mono [of k d "k * d" 1] by simp

lemma scaled_level_exact:
  assumes "\<not> f32_neg_bit x" and "f32_mag x < 1065353216"
  shows "f32_lround (f32_mul x f32_level_steps) = int ((mag_units (f32_mag x) * 65536 + 2 ^ 148) div 2 ^ 149)"
proof -
  let ?u = "mag_units (f32_mag x)"
  have st: "f32_mag f32_level_steps = 1199570944" "\<not> f32_neg_bit f32_level_steps"
    by (simp_all add: f32_mag_def f32_neg_bit_def f32_level_steps_def)
  have su: "mag_units 1199570944 = 65536 * 2 ^ 149"
    by (simp add: mag_units_def)
  have one: "mag_units 1065353216 = 2 ^ 149" by (simp add: mag_units_def)
  have lt: "?u < 2 ^ 149" using assms(2) mag_units_less_iff [of "f32_mag x" 1065353216] one by simp
  obtain a s where as: "a < 16777216" "?u = a * 2 ^ s" using mag_units_form by blast
  obtain k where k: "mag_units k = ?u * 65536"
    using mag_units_covers [OF as(1), of "s + 16"] as(2) by (auto simp: power_add mult.assoc)
  have big: "65536 * 2 ^ 149 \<le> mag_units f32_inf_mag" by (simp add: mag_units_def f32_inf_mag_def)
  have "mag_units k < mag_units f32_inf_mag"
    using lt big unfolding k by linarith
  then have ki: "k < f32_inf_mag" by simp
  have k31: "k < 2147483648" using ki by (simp add: f32_inf_mag_def)
  have "round_mag (?u * (65536 * 2 ^ 149)) (2 ^ 149) = round_mag ((?u * 65536) * 2 ^ 149) (2 ^ 149)"
    by (simp only: mult.assoc)
  also have "\<dots> = round_mag (?u * 65536) 1" by (rule round_mag_scaled) simp
  also have "\<dots> = k" using round_mag_exact [of k] ki k by simp
  finally have r: "round_mag (?u * (65536 * 2 ^ 149)) (2 ^ 149) = k" .
  have fin: "\<not> f32_is_nan x" "f32_isfinite x" using assms(2) by (simp_all add: f32_is_nan_def f32_isfinite_def f32_inf_mag_def)
  have fin2: "\<not> f32_is_nan f32_level_steps" "f32_isfinite f32_level_steps"
    by (simp_all add: f32_is_nan_def f32_isfinite_def st f32_inf_mag_def)
  have "f32_mul x f32_level_steps = f32_make False k"
    using assms(1) fin fin2 r unfolding f32_mul_def Let_def st(1) su by (simp add: st(2))
  then show ?thesis using k31 k by (simp add: f32_lround_def)
qed

text \<open>A level reaches the strip as the header promises: NaN, zero and everything below (negative infinity
  included) is empty, one and everything above (infinity included) is full, and a level between is the
  nearest of the 65536 steps, halves up, with no error from the float product before the rounding.
\<close>

theorem fill_level_rounds_to_nearest_step:
  "fill_level x = (if f32_is_nan x \<or> f32_units x \<le> 0 then fraction_empty
     else if 2 ^ 149 \<le> f32_units x then fraction_full
     else \<lparr>ff_numerator = of_nat ((nat (f32_units x) * 65536 + 2 ^ 148) div 2 ^ 149), ff_denominator = 65536\<rparr>)"
proof -
  have zero: "f32_units f32_zero = 0" "\<not> f32_is_nan f32_zero"
    by (simp_all add: f32_units_def f32_mag_def f32_zero_def f32_is_nan_def)
  have m1: "f32_mag f32_one = 1065353216" by (simp add: f32_mag_def f32_one_def)
  have n1: "\<not> f32_neg_bit f32_one" "\<not> f32_is_nan f32_one"
    by (simp_all add: f32_neg_bit_def f32_one_def f32_is_nan_def m1 [unfolded f32_one_def] f32_inf_mag_def)
  have u1: "mag_units 1065353216 = 2 ^ 149" by (simp add: mag_units_def)
  have one: "f32_units f32_one = 2 ^ 149" using m1 n1 u1 by (simp add: f32_units_def)
  show ?thesis
  proof (cases "f32_is_nan x \<or> f32_units x \<le> 0 \<or> 2 ^ 149 \<le> f32_units x")
    case True
    then show ?thesis using zero one n1 by (auto simp: fill_level_def f32_lt_def f32_le_def)
  next
    case False
    then have nn: "\<not> f32_neg_bit x" by (auto simp: f32_units_def split: if_splits)
    let ?u = "mag_units (f32_mag x)"
    have u: "f32_units x = int ?u" using nn by (simp add: f32_units_def)
    have lt: "?u < 2 ^ 149" using False u by (simp add: not_le)
    then have m: "f32_mag x < 1065353216" using mag_units_less_iff [of "f32_mag x" 1065353216] u1 by simp
    let ?n = "(?u * 65536 + 2 ^ 148) div 2 ^ 149"
    have "?u * 65536 + h < 65537 * (2 * h)" if "?u < 2 * h" for h using that by linarith
    from this [of "2 ^ 148"] have "?u * 65536 + 2 ^ 148 < 65537 * 2 ^ 149" using lt by simp
    then have n: "?n < 65537" by (simp only: less_mult_imp_div_less)
    have w: "(of_int (int ?n) :: u32) = of_nat ?n" by simp
    have un: "unat (of_nat ?n :: u32) = ?n" using n by (simp only: unat_of_nat_u32) simp
    have "\<not> (65536 :: u32) < of_nat ?n" using n un by (simp only: word_less_nat_alt) simp
    then have "fraction_of (of_nat ?n) 65536 = \<lparr>ff_numerator = of_nat ?n, ff_denominator = 65536\<rparr>"
      by (simp only: fraction_of_def) simp
    moreover have "fill_level x = fraction_of (of_nat ?n) 65536"
      using False zero one n1 scaled_level_exact [OF nn m] w
      by (simp add: fill_level_def f32_lt_def f32_le_def level_steps_def not_le)
    ultimately show ?thesis using False u by simp
  qed
qed

section \<open>The bounded appends\<close>

lemma effects_lit_spec:
  "le_left_turn (effects_lit bs) = (\<exists>b \<in> set bs. eb_active b \<and> eb_effect b = LeftTurn)"
  "le_right_turn (effects_lit bs) = (\<exists>b \<in> set bs. eb_active b \<and> eb_effect b = RightTurn)"
  "le_brake (effects_lit bs) = (\<exists>b \<in> set bs. eb_active b \<and> eb_effect b = Brake)"
  unfolding effects_lit_def by (induction bs rule: rev_induct) auto

lemma highest_active_spec:
  "highest_active e bs = (let ps = map eb_priority (filter (\<lambda>b. eb_active b \<and> eb_effect b = e) bs) in
     if ps = [] then default_priority else Max (set ps))"
proof -
  define top where "top = fold (\<lambda>b h. if \<not> eb_active b \<or> eb_effect b \<noteq> e then h
     else case h of None \<Rightarrow> Some (eb_priority b) | Some p \<Rightarrow> if p < eb_priority b then Some (eb_priority b) else h) bs None"
  have "top = (let ps = map eb_priority (filter (\<lambda>b. eb_active b \<and> eb_effect b = e) bs) in
     if ps = [] then None else Some (Max (set ps)))"
    unfolding top_def
  proof (induction bs rule: rev_induct)
    case (snoc b bs)
    let ?ps = "map eb_priority (filter (\<lambda>b. eb_active b \<and> eb_effect b = e) bs)"
    have mx: "?ps \<noteq> [] \<Longrightarrow> Max (insert p (set ?ps)) = max p (Max (set ?ps))" for p
      by (rule Max_insert) (simp_all only: finite_set set_empty not_False_eq_True)
    show ?case
    proof (cases "?ps = []")
      case True
      then show ?thesis using snoc by (simp add: Let_def filter_empty_conv)
    next
      case False
      then show ?thesis using snoc mx [OF False, of "eb_priority b"] by (auto simp: Let_def max_def)
    qed
  qed simp
  moreover have "highest_active e bs = value_or top default_priority" by (simp only: highest_active_def top_def)
  ultimately show ?thesis by (simp add: Let_def)
qed

definition lit_fill :: "fill_binding \<Rightarrow> lighting_fill" where
  "lit_fill b = \<lparr>lf_zone = fe_zone (fb_effect b), lf_level = fb_level b, lf_color = fe_color (fb_effect b),
     lf_priority = fe_priority (fb_effect b)\<rparr>"

lemma fills_lit_spec:
  assumes "length bs \<le> fills_capacity"
  shows "fills_lit bs = map lit_fill (filter (\<lambda>b. \<not> fraction_eq (fb_level b) fraction_empty) bs)"
  using assms unfolding fills_lit_def
proof (induction bs rule: rev_induct)
  case (snoc b bs)
  have "length bs < fills_capacity" using snoc.prems by simp
  then have "length (filter (\<lambda>b. \<not> fraction_eq (fb_level b) fraction_empty) bs) \<noteq> fills_capacity"
    by (metis le_less_trans length_filter_le less_irrefl)
  then show ?case using snoc by (simp add: fills_add_def lit_fill_def)
qed simp

text \<open>The slots are numbered by binding, so no two starts of a snapshot share an identity.\<close>

definition transients_ok :: "transient_binding list \<Rightarrow> bool" where
  "transients_ok bs \<longleftrightarrow> length bs \<le> transient_capacity \<and>
     (\<forall>b \<in> set bs. lt_duration (tb_effect b) \<noteq> 0 \<and> lt_duration (tb_effect b) \<le> max_transient_duration \<and>
        (tb_retained b \<longrightarrow> tb_sequence b \<noteq> 0))"

lemma transients_latest_spec:
  assumes "transients_ok bs"
  shows "transients_latest epoch bs =
    map (\<lambda>(i, b). binding_start i b) (filter (\<lambda>(i, b). tb_retained b \<and> tb_epoch b = epoch) (zip [0..<length bs] bs))"
proof -
  let ?z = "zip [0..<length bs] bs"
  define g where "g = (\<lambda>(index, b) starts. if \<not> tb_retained b \<or> tb_epoch b \<noteq> epoch then starts
     else snd (starts_add (binding_start index b) starts))"
  have g: "g (i, b) starts = (if tb_retained b \<and> tb_epoch b = epoch then snd (starts_add (binding_start i b) starts) else starts)" for i b starts
    by (simp add: g_def)
  have "fold g zs [] =
    map (\<lambda>(i, b). binding_start i b) (filter (\<lambda>(i, b). tb_retained b \<and> tb_epoch b = epoch) zs)"
    if "\<exists>rest. ?z = zs @ rest" for zs
    using that
  proof (induction zs rule: rev_induct)
    case (snoc z zs)
    obtain i b where z: "z = (i, b)" by (cases z)
    from snoc.prems obtain rest where pre: "?z = zs @ z # rest" by auto
    have "distinct (map fst ?z)" by simp
    then have fresh: "i \<notin> fst ` set zs" unfolding pre z by auto
    have mem: "(i, b) \<in> set ?z" unfolding pre z by simp
    then have i: "i < length bs" and b: "b \<in> set bs" by (auto simp: set_zip)
    have lt: "fst x < 8" if "x \<in> set zs" for x
    proof -
      have "x \<in> set ?z" unfolding pre using that by simp
      then show ?thesis using assms by (auto simp: set_zip transients_ok_def transient_capacity_def)
    qed
    have i8: "i < 8" using i assms by (simp add: transients_ok_def transient_capacity_def)
    have id: "unat (ts_id (binding_start j c)) = j + 1" if "j < 8" for j c
      using that by (simp add: binding_start_def unat_of_nat_u8 del: of_nat_Suc)
    let ?f = "filter (\<lambda>(i, b). tb_retained b \<and> tb_epoch b = epoch) zs"
    have distinct_ids: "\<not> list_ex (\<lambda>e. ts_id e = ts_id (binding_start i b)) (map (\<lambda>(i, b). binding_start i b) ?f)"
    proof -
      have "ts_id (binding_start j c) \<noteq> ts_id (binding_start i b)" if "(j, c) \<in> set zs" for j c
      proof -
        have "j < 8" using lt [OF that] by simp
        moreover have "j \<noteq> i" using fresh that by force
        ultimately show ?thesis using id [of j c] id [OF i8, of b] by fastforce
      qed
      then show ?thesis by (auto simp: list_ex_iff)
    qed
    have "length ?f \<le> length zs" by (rule length_filter_le)
    moreover have "length zs < transient_capacity"
      using arg_cong [OF pre, of length] assms by (simp add: transients_ok_def)
    ultimately have room: "length ?f \<noteq> transient_capacity" by linarith
    have v: "transient_id_valid (ts_id (binding_start i b))"
      using id [OF i8, of b] i8 by (simp add: transient_id_valid_def transient_capacity_def word_gt_0 unat_eq_zero [symmetric])
    have IH: "fold g zs [] = map (\<lambda>(i, b). binding_start i b) ?f"
      using snoc.IH pre by blast
    have add: "snd (starts_add (binding_start i b) (map (\<lambda>(i, b). binding_start i b) ?f)) =
        map (\<lambda>(i, b). binding_start i b) ?f @ [binding_start i b]" if "tb_retained b"
    proof -
      have "ts_sequence (binding_start i b) \<noteq> 0" "lt_duration (ts_effect (binding_start i b)) \<noteq> 0"
        "\<not> max_transient_duration < lt_duration (ts_effect (binding_start i b))"
        using that b assms by (auto simp: binding_start_def transients_ok_def not_less)
      then show ?thesis using v room distinct_ids by (simp add: starts_add_def)
    qed
    then show ?case by (simp add: z IH g)
  qed simp
  from this [of ?z] show ?thesis by (simp add: transients_latest_def g_def)
qed

section \<open>The adapter's invariant\<close>

definition led_ok :: "led_actions \<Rightarrow> bool" where
  "led_ok la \<longleftrightarrow> length (la_effects la) \<le> bindings_capacity \<and> length (la_fills la) \<le> fills_capacity \<and>
     (\<forall>b \<in> set (la_fills la). fraction_ok (fb_level b)) \<and> transients_ok (la_transients la)"

lemma led_clear_ok: "led_ok (led_clear la)"
  by (simp add: led_ok_def led_clear_def transients_ok_def)

lemma fill_level_ok: "fraction_ok (fill_level x)"
  by (simp add: fill_level_def)

lemma next_sequence_nonzero: "next_sequence s \<noteq> 0"
  by (simp add: next_sequence_def Let_def)

lemma commanded_level_ok: "commanded_level c = Some l \<Longrightarrow> fraction_ok l"
  by (auto simp: commanded_level_def fill_level_ok split: command_kind.splits)

lemma bind_ok:
  "led_ok la \<Longrightarrow> led_ok (la\<lparr>la_effects := snd (effects_bind a e p (la_effects la))\<rparr>)"
  "led_ok la \<Longrightarrow> led_ok (la\<lparr>la_fills := snd (fills_bind a f (la_fills la))\<rparr>)"
  "led_ok la \<Longrightarrow> led_ok (la\<lparr>la_transients := snd (transients_bind a t n (la_transients la))\<rparr>)"
  by (auto simp: led_ok_def effects_bind_def fills_bind_def transients_bind_def transients_ok_def Let_def)

lemma receive_ok:
  assumes "led_ok la"
  shows "led_ok (snd (led_receive now epoch c la))"
  using assms next_sequence_nonzero
  by (auto simp: led_ok_def led_receive_def Let_def effects_hold_def fills_hold_def transients_trigger_def transients_ok_def
      dest: commanded_level_ok split: option.splits)

lemma discard_ok: "led_ok la \<Longrightarrow> led_ok (la\<lparr>la_transients := discard_starts (la_transients la)\<rparr>)"
  by (auto simp: led_ok_def transients_ok_def discard_starts_def)

lemma execute_ok: "led_ok la \<Longrightarrow> led_ok (fst (led_execute sink now c (la, s)))"
  using receive_ok [of la now "ls_epoch sink s" c]
  by (auto simp: led_execute_def Let_def discard_ok split: prod.splits)

lemma held_command_ok:
  assumes "led_ok la"
  shows "command_ok (held_command la epoch)"
proof -
  have f: "length (la_fills la) \<le> fills_capacity" and t: "transients_ok (la_transients la)"
    and l: "\<forall>b \<in> set (la_fills la). fraction_ok (fb_level b)" using assms by (simp_all add: led_ok_def)
  let ?starts = "map (\<lambda>(i, b). binding_start i b) (filter (\<lambda>(i, b). tb_retained b \<and> tb_epoch b = epoch)
      (zip [0..<length (la_transients la)] (la_transients la)))"
  have cap: "length (la_transients la) \<le> 8" using t by (simp add: transients_ok_def transient_capacity_def)
  have id: "unat (ts_id (binding_start j c)) = j + 1" if "j < 8" for j c
    using that by (simp add: binding_start_def unat_of_nat_u8 del: of_nat_Suc)
  have "distinct (map ts_id ?starts)"
  proof -
    let ?zs = "filter (\<lambda>(i, b). tb_retained b \<and> tb_epoch b = epoch) (zip [0..<length (la_transients la)] (la_transients la))"
    have "distinct (map fst ?zs)" by (rule distinct_map_filter) simp
    moreover have "inj_on (\<lambda>j. of_nat (j + 1) :: u8) (fst ` set ?zs)"
    proof (rule inj_onI)
      fix j k assume jk: "j \<in> fst ` set ?zs" "k \<in> fst ` set ?zs" and eq: "(of_nat (j + 1) :: u8) = of_nat (k + 1)"
      have "j < 8" "k < 8" using jk cap by (auto simp: set_zip)
      then show "j = k" using arg_cong [OF eq, of unat] by (simp add: unat_of_nat_u8 del: of_nat_Suc)
    qed
    ultimately have "distinct (map (\<lambda>j. of_nat (j + 1) :: u8) (map fst ?zs))"
      by (subst distinct_map) (simp only: set_map simp_thms)
    moreover have "map ts_id ?starts = map (\<lambda>j. of_nat (j + 1)) (map fst ?zs)"
      by (simp add: binding_start_def split_beta)
    ultimately show ?thesis by (simp only:)
  qed
  moreover have "length ?starts \<le> transient_capacity"
    using length_filter_le [of "\<lambda>(i, b). tb_retained b \<and> tb_epoch b = epoch" "zip [0..<length (la_transients la)] (la_transients la)"] t
    by (simp add: transients_ok_def)
  moreover have "transient_id_valid (ts_id s) \<and> ts_sequence s \<noteq> 0" if st: "s \<in> set ?starts" for s
  proof -
    obtain i b where z: "(i, b) \<in> set (zip [0..<length (la_transients la)] (la_transients la))" "tb_retained b"
      and sb: "s = binding_start i b" using st by auto
    have s: "s = binding_start i b" "i < length (la_transients la)" "b \<in> set (la_transients la)" "tb_retained b"
      using z sb set_zip_leftD [OF z(1)] set_zip_rightD [OF z(1)] by auto
    then have "unat (ts_id s) = i + 1" using id cap by simp
    then show ?thesis using s t cap
      by (auto simp: transient_id_valid_def transient_capacity_def word_gt_0 transients_ok_def binding_start_def unat_eq_zero [symmetric])
  qed
  moreover have "length (fills_lit (la_fills la)) \<le> fills_capacity"
    using f by (simp add: fills_lit_spec) (metis le_trans length_filter_le)
  ultimately show ?thesis
    using l by (auto simp: command_ok_def held_command_def Let_def default_command_def transients_latest_spec [OF t]
        fills_lit_spec [OF f] lit_fill_def)
qed

section \<open>The published command is a function of the history\<close>

text \<open>What an action last asked for, over the commands delivered so far.\<close>

definition held_on :: "action_id \<Rightarrow> action_command list \<Rightarrow> bool" where
  "held_on a cs = fold (\<lambda>c on. if ac_action c = a then value_or (on_off_level (ac_kind c)) on else on) cs False"

definition held_level :: "action_id \<Rightarrow> action_command list \<Rightarrow> fill_fraction" where
  "held_level a cs = fold (\<lambda>c l. if ac_action c = a then value_or (commanded_level c) l else l) cs fraction_empty"

definition led_run :: "'s lighting_sink \<Rightarrow> (monotonic \<times> action_command) list \<Rightarrow> led_actions \<times> 's \<Rightarrow> led_actions \<times> 's" where
  "led_run sink hist las = fold (\<lambda>(now, c) las. led_execute sink now c las) hist las"

text \<open>Freshly bound: nothing received yet.\<close>

definition configured :: "led_actions \<Rightarrow> bool" where
  "configured la \<longleftrightarrow> led_ok la \<and> (\<forall>b \<in> set (la_effects la). \<not> eb_active b) \<and> (\<forall>b \<in> set (la_fills la). fb_level b = fraction_empty) \<and>
     (\<forall>b \<in> set (la_transients la). tb_sequence b = 0 \<and> \<not> tb_retained b)"

definition with_effects :: "action_command list \<Rightarrow> effect_binding list \<Rightarrow> effect_binding list" where
  "with_effects cs bs = map (\<lambda>b. b\<lparr>eb_active := held_on (eb_action b) cs\<rparr>) bs"

definition with_levels :: "action_command list \<Rightarrow> fill_binding list \<Rightarrow> fill_binding list" where
  "with_levels cs bs = map (\<lambda>b. b\<lparr>fb_level := held_level (fb_action b) cs\<rparr>) bs"

lemma receive_effects:
  "la_effects la = with_effects cs bs \<Longrightarrow> la_effects (snd (led_receive now epoch c la)) = with_effects (cs @ [c]) bs"
  by (cases "ac_kind c") (auto simp: led_receive_def Let_def effects_hold_def with_effects_def held_on_def on_off_level_def
      split: prod.splits)

lemma receive_levels:
  "la_fills la = with_levels cs bs \<Longrightarrow> la_fills (snd (led_receive now epoch c la)) = with_levels (cs @ [c]) bs"
  by (cases "ac_kind c") (auto simp: led_receive_def Let_def fills_hold_def with_levels_def held_level_def commanded_level_def
      split: prod.splits)

lemma execute_effects:
  "la_effects (fst (led_execute sink now c (la, s))) = la_effects (snd (led_receive now (ls_epoch sink s) c la)) \<and>
   la_fills (fst (led_execute sink now c (la, s))) = la_fills (snd (led_receive now (ls_epoch sink s) c la))"
  by (auto simp: led_execute_def Let_def split: prod.splits)

lemma run_history:
  assumes "configured la0"
  shows "led_ok (fst (led_run sink hist (la0, s0))) \<and>
    la_effects (fst (led_run sink hist (la0, s0))) = with_effects (map snd hist) (la_effects la0) \<and>
    la_fills (fst (led_run sink hist (la0, s0))) = with_levels (map snd hist) (la_fills la0)"
proof (induction hist rule: rev_induct)
  case Nil
  have "map (\<lambda>b. b\<lparr>eb_active := False\<rparr>) (la_effects la0) = la_effects la0"
    using assms by (intro map_idI) (auto simp: configured_def)
  moreover have "map (\<lambda>b. b\<lparr>fb_level := fraction_empty\<rparr>) (la_fills la0) = la_fills la0"
    using assms by (intro map_idI) (auto simp: configured_def)
  ultimately show ?case
    using assms by (simp add: configured_def led_run_def with_effects_def with_levels_def held_on_def held_level_def)
next
  case (snoc h hist)
  obtain now c where h: "h = (now, c)" by (cases h)
  obtain la s where r: "led_run sink hist (la0, s0) = (la, s)" by (cases "led_run sink hist (la0, s0)")
  have step: "led_run sink (hist @ [h]) (la0, s0) = led_execute sink now c (la, s)"
    using r by (simp add: led_run_def h)
  show ?case
    using snoc execute_effects [of sink now c la s] execute_ok [of la sink now c s]
      receive_effects [of la "map snd hist" "la_effects la0" now "ls_epoch sink s" c]
      receive_levels [of la "map snd hist" "la_fills la0" now "ls_epoch sink s" c]
    by (simp add: step [unfolded h] r h)
qed

definition binds :: "led_actions \<Rightarrow> action_command \<Rightarrow> bool" where
  "binds la c \<longleftrightarrow> (ac_kind c \<in> {Activate, Deactivate} \<and> (\<exists>b \<in> set (la_effects la). eb_action b = ac_action c)) \<or>
     (ac_kind c \<noteq> Trigger \<and> (\<exists>b \<in> set (la_fills la). fb_action b = ac_action c)) \<or>
     (ac_kind c = Trigger \<and> (\<exists>b \<in> set (la_transients la). tb_action b = ac_action c))"

lemma receive_bound: "fst (led_receive now epoch c la) = binds la c"
  by (cases "ac_kind c") (auto simp: led_receive_def Let_def binds_def on_off_level_def commanded_level_def effects_hold_def
      fills_hold_def transients_trigger_def list_ex_iff split: prod.splits)

lemma ex_action_conv: "(\<exists>b \<in> set bs. tb_action b = a) = (a \<in> set (map tb_action bs))"
  by auto

lemma execute_transient_actions:
  "map tb_action (la_transients (fst (led_execute sink now c (la, s)))) = map tb_action (la_transients la)"
  by (auto simp: led_execute_def led_receive_def transients_trigger_def discard_starts_def Let_def o_def split: prod.splits if_splits)

lemma run_transient_actions:
  "map tb_action (la_transients (fst (led_run sink hist (la, s)))) = map tb_action (la_transients la)"
proof (induction hist arbitrary: la s)
  case (Cons h hist)
  obtain now c where h: "h = (now, c)" by (cases h)
  obtain la' s' where e: "led_execute sink now c (la, s) = (la', s')" by (cases "led_execute sink now c (la, s)")
  show ?case using Cons [of la' s'] execute_transient_actions [of sink now c la s] by (simp add: led_run_def h e)
qed (simp add: led_run_def)

definition active_priority :: "led_effect \<Rightarrow> action_command list \<Rightarrow> effect_binding list \<Rightarrow> priority" where
  "active_priority e cs bs = (let ps = [eb_priority b. b \<leftarrow> bs, eb_effect b = e \<and> held_on (eb_action b) cs] in
     if ps = [] then default_priority else Max (set ps))"

definition effect_held :: "led_effect \<Rightarrow> action_command list \<Rightarrow> effect_binding list \<Rightarrow> bool" where
  "effect_held e cs bs \<longleftrightarrow> (\<exists>b \<in> set bs. eb_effect b = e \<and> held_on (eb_action b) cs)"

text \<open>
  What happened, command by command: the clock, the epoch the sink reported, and whether the sink refused what was
  published. Of it a one-shot binding keeps the number of its triggers, and the clock and epoch of the last trigger that no
  refusal came with or after.
\<close>

type_synonym led_event = "action_command \<times> monotonic \<times> u32 \<times> bool"

definition led_event_of :: "'s lighting_sink \<Rightarrow> monotonic \<Rightarrow> action_command \<Rightarrow> led_actions \<times> 's \<Rightarrow> led_event" where
  "led_event_of sink now c las = (case las of (la, s) \<Rightarrow> case led_receive now (ls_epoch sink s) c la of (bound, la1) \<Rightarrow>
     (c, now, ls_epoch sink s, bound \<and> \<not> fst (ls_publish sink (held_command la1 (ls_epoch sink s)) s)))"

fun led_log :: "'s lighting_sink \<Rightarrow> (monotonic \<times> action_command) list \<Rightarrow> led_actions \<times> 's \<Rightarrow> led_event list" where
  "led_log sink [] las = []"
| "led_log sink ((now, c) # hist) las = led_event_of sink now c las # led_log sink hist (led_execute sink now c las)"

definition triggers :: "action_id \<Rightarrow> action_command \<Rightarrow> bool" where
  "triggers a c \<longleftrightarrow> ac_kind c = Trigger \<and> ac_action c = a"

definition trigger_count :: "action_id \<Rightarrow> led_event list \<Rightarrow> nat" where
  "trigger_count a es = length (filter (\<lambda>(c, _). triggers a c) es)"

definition last_trigger :: "action_id \<Rightarrow> led_event list \<Rightarrow> (monotonic \<times> u32) option" where
  "last_trigger a es = fold (\<lambda>(c, now, epoch, refused) st. if refused then None
     else if triggers a c then Some (now, epoch) else st) es None"

text \<open>Sequences count from 1 and skip 0 when they wrap.\<close>

definition trigger_sequence :: "nat \<Rightarrow> u64" where
  "trigger_sequence n = (if n = 0 then 0 else of_nat ((n - 1) mod (2 ^ 64 - 1) + 1))"

definition history_starts :: "u32 \<Rightarrow> led_event list \<Rightarrow> transient_binding list \<Rightarrow> transient_start list" where
  "history_starts epoch es bs = concat (map (\<lambda>(i, b). case last_trigger (tb_action b) es of None \<Rightarrow> []
     | Some (origin, e) \<Rightarrow> if e \<noteq> epoch then [] else [\<lparr>ts_id = of_nat (i + 1), ts_epoch = epoch,
         ts_sequence = trigger_sequence (trigger_count (tb_action b) es), ts_effect = tb_effect b, ts_origin = origin\<rparr>])
     (zip [0..<length bs] bs))"

lemma next_trigger_sequence: "next_sequence (trigger_sequence n) = trigger_sequence (Suc n)"
proof (cases n)
  case (Suc k)
  define r where "r = k mod (2 ^ 64 - 1)"
  have r: "r < 2 ^ 64 - 1" by (simp add: r_def)
  have s: "trigger_sequence n + 1 = of_nat (r + 2)" by (simp add: trigger_sequence_def Suc r_def)
  show ?thesis
  proof (cases "r + 1 = 2 ^ 64 - 1")
    case True
    then have "Suc k mod (2 ^ 64 - 1) = 0" by (simp add: mod_Suc r_def)
    moreover have "(of_nat (r + 2) :: u64) = 0" using True by (simp add: word_eq_iff_unsigned [symmetric])
    ultimately show ?thesis unfolding next_sequence_def Let_def s by (simp add: trigger_sequence_def Suc)
  next
    case False
    then have m: "Suc k mod (2 ^ 64 - 1) = r + 1" by (simp add: mod_Suc r_def)
    have small: "m < 2 ^ 64 \<Longrightarrow> unat (of_nat m :: u64) = m" for m by (simp add: unat_of_nat)
    have "unat (of_nat (r + 2) :: u64) = r + 2" by (rule small) (use r False in simp)
    then have "(of_nat (r + 2) :: u64) \<noteq> 0" by (metis add_2_eq_Suc' nat.distinct(1) unat_0)
    then show ?thesis unfolding next_sequence_def Let_def s using m by (simp add: trigger_sequence_def Suc)
  qed
qed (simp add: trigger_sequence_def next_sequence_def)

definition follows :: "led_event list \<Rightarrow> transient_binding \<Rightarrow> transient_binding \<Rightarrow> bool" where
  "follows es b0 b \<longleftrightarrow> tb_action b = tb_action b0 \<and> tb_effect b = tb_effect b0 \<and>
     tb_sequence b = trigger_sequence (trigger_count (tb_action b0) es) \<and>
     (case last_trigger (tb_action b0) es of None \<Rightarrow> \<not> tb_retained b
      | Some (origin, epoch) \<Rightarrow> tb_retained b \<and> tb_origin b = origin \<and> tb_epoch b = epoch)"

lemma follows_snoc:
  assumes "follows es b0 b"
  shows "follows (es @ [(c, now, epoch, False)]) b0 (if triggers (tb_action b) c
      then b\<lparr>tb_sequence := next_sequence (tb_sequence b), tb_origin := now, tb_epoch := epoch, tb_retained := True\<rparr> else b)"
  using assms by (auto simp: follows_def last_trigger_def trigger_count_def next_trigger_sequence)

lemma receive_transients:
  "la_transients (snd (led_receive now epoch c la)) = map (\<lambda>b. if triggers (tb_action b) c
     then b\<lparr>tb_sequence := next_sequence (tb_sequence b), tb_origin := now, tb_epoch := epoch, tb_retained := True\<rparr> else b) (la_transients la)"
  by (auto simp: led_receive_def transients_trigger_def triggers_def Let_def intro!: map_idI [symmetric] split: prod.splits)

lemma receive_follows:
  "list_all2 (follows es) bs (la_transients la) \<Longrightarrow>
    list_all2 (follows (es @ [(c, now, epoch, False)])) bs (la_transients (snd (led_receive now epoch c la)))"
  unfolding receive_transients list_all2_map2 by (elim list_all2_mono) (rule follows_snoc)

lemma refused_follows: "follows (es @ [(c, now, epoch, False)]) b0 b \<Longrightarrow> follows (es @ [(c, now, epoch, True)]) b0 (b\<lparr>tb_retained := False\<rparr>)"
  by (auto simp: follows_def last_trigger_def trigger_count_def)

lemma execute_follows:
  assumes "list_all2 (follows es) bs (la_transients la)"
  shows "list_all2 (follows (es @ [led_event_of sink now c (la, s)])) bs (la_transients (fst (led_execute sink now c (la, s))))"
proof -
  let ?e = "ls_epoch sink s"
  obtain bound la1 where r: "led_receive now ?e c la = (bound, la1)" by (cases "led_receive now ?e c la")
  from receive_follows [OF assms, of c now ?e] have la1: "list_all2 (follows (es @ [(c, now, ?e, False)])) bs (la_transients la1)"
    by (simp add: r)
  then have "list_all2 (follows (es @ [(c, now, ?e, True)])) bs (discard_starts (la_transients la1))"
    unfolding discard_starts_def list_all2_map2 by (elim list_all2_mono) (rule refused_follows)
  with la1 show ?thesis by (simp add: led_execute_def led_event_of_def r Let_def split_beta)
qed

lemma led_log_snoc: "led_log sink (hist @ [(now, c)]) las = led_log sink hist las @ [led_event_of sink now c (led_run sink hist las)]"
proof (induction hist arbitrary: las)
  case (Cons h hist)
  show ?case by (cases h) (simp add: Cons.IH led_run_def)
qed (simp add: led_run_def)

lemma run_follows:
  assumes "configured la0"
  shows "list_all2 (follows (led_log sink hist (la0, s0))) (la_transients la0) (la_transients (fst (led_run sink hist (la0, s0))))"
proof (induction hist rule: rev_induct)
  case Nil
  show ?case using assms
    by (auto simp: list_all2_same led_run_def follows_def last_trigger_def trigger_count_def trigger_sequence_def configured_def)
next
  case (snoc h hist)
  obtain now c where h: "h = (now, c)" by (cases h)
  obtain la s where r: "led_run sink hist (la0, s0) = (la, s)" by (cases "led_run sink hist (la0, s0)")
  have "led_run sink (hist @ [h]) (la0, s0) = led_execute sink now c (la, s)" using r by (simp add: led_run_def h)
  with snoc execute_follows [of "led_log sink hist (la0, s0)" "la_transients la0" la sink now c s] show ?case
    by (simp add: h led_log_snoc r)
qed

lemma latest_follows:
  assumes "transients_ok bs" and "list_all2 (follows es) bs0 bs" shows "transients_latest epoch bs = history_starts epoch es bs0"
proof -
  have "map f (filter P zs) = concat (map (\<lambda>z. if P z then [f z] else []) zs)" for f :: "nat \<times> transient_binding \<Rightarrow> transient_start" and P zs
    by (induction zs) auto
  moreover have "map (\<lambda>z. if (case z of (i, b) \<Rightarrow> tb_retained b \<and> tb_epoch b = epoch) then [case z of (i, b) \<Rightarrow> binding_start i b] else [])
      (zip [0..<length bs] bs) =
    map (\<lambda>(i, b). case last_trigger (tb_action b) es of None \<Rightarrow> []
     | Some (origin, e) \<Rightarrow> if e \<noteq> epoch then [] else [\<lparr>ts_id = of_nat (i + 1), ts_epoch = epoch,
         ts_sequence = trigger_sequence (trigger_count (tb_action b) es), ts_effect = tb_effect b, ts_origin = origin\<rparr>])
     (zip [0..<length bs0] bs0)"
    using assms(2)
    by (intro nth_equalityI) (auto simp: list_all2_conv_all_nth follows_def binding_start_def split: option.splits)
  ultimately show ?thesis unfolding transients_latest_spec [OF assms(1)] history_starts_def by simp
qed

text \<open>
  C18: After any history of action commands, whichever publications the sink refused, a command for a bound
  action publishes one complete snapshot, and it is the snapshot the whole history determines: each effect
  is lit exactly when some action bound to it was last activated, with the highest priority of those
  bindings, each fill carries the level its action last set, in binding order, and a one-shot effect is
  started for each binding whose action was triggered in the sink's current epoch with no refusal since, with
  the clock of its last trigger and the count of its triggers as sequence. The command is actionable exactly
  when it lights, fills or starts something, then held without deadline, and it is one the renderer can rely
  on. A command for an unbound action publishes nothing.
\<close>

theorem led_publishes_held_state:
  assumes "configured la0"
  shows "let (la, s) = led_run sink hist (la0, s0); cs = map snd hist @ [c]; (la', s') = led_execute sink now c (la, s);
      es = led_log sink hist (la0, s0) @ [(c, now, ls_epoch sink s, False)] in
    if binds la0 c then \<exists>cmd. s' = snd (ls_publish sink cmd s) \<and> command_ok cmd \<and> lc_color cmd = black \<and>
       lc_left_turn cmd = effect_held LeftTurn cs (la_effects la0) \<and> lc_right_turn cmd = effect_held RightTurn cs (la_effects la0) \<and>
       lc_brake cmd = effect_held Brake cs (la_effects la0) \<and>
       lc_priorities cmd = \<lparr>ep_left_turn = active_priority LeftTurn cs (la_effects la0),
         ep_right_turn = active_priority RightTurn cs (la_effects la0), ep_brake = active_priority Brake cs (la_effects la0)\<rparr> \<and>
       lc_fills cmd = map lit_fill (filter (\<lambda>b. \<not> fraction_eq (fb_level b) fraction_empty) (with_levels cs (la_fills la0))) \<and>
       lc_transients cmd = history_starts (ls_epoch sink s) es (la_transients la0) \<and>
       lc_actionable cmd = ((\<exists>e. effect_held e cs (la_effects la0)) \<or> lc_fills cmd \<noteq> [] \<or> lc_transients cmd \<noteq> []) \<and>
       lc_valid_until cmd = (if lc_actionable cmd then held_until_us else 0)
    else s' = s"
proof -
  obtain la s where r: "led_run sink hist (la0, s0) = (la, s)" by (cases "led_run sink hist (la0, s0)")
  obtain la' s' where e: "led_execute sink now c (la, s) = (la', s')" by (cases "led_execute sink now c (la, s)")
  let ?epoch = "ls_epoch sink s" and ?cs = "map snd hist @ [c]"
  obtain bound la1 where rc: "led_receive now ?epoch c la = (bound, la1)" by (cases "led_receive now ?epoch c la")
  have h: "led_ok la" "la_effects la = with_effects (map snd hist) (la_effects la0)" "la_fills la = with_levels (map snd hist) (la_fills la0)"
    using run_history [OF assms, of sink hist s0] r by simp_all
  have es: "la_effects la1 = with_effects ?cs (la_effects la0)" and fs: "la_fills la1 = with_levels ?cs (la_fills la0)"
    using receive_effects [OF h(2), of now ?epoch c] receive_levels [OF h(3), of now ?epoch c] rc by simp_all
  have ok1: "led_ok la1" using receive_ok [OF h(1), of now ?epoch c] rc by simp
  have acts: "(\<exists>b \<in> set (la_transients la). tb_action b = a) = (\<exists>b \<in> set (la_transients la0). tb_action b = a)" for a
    using run_transient_actions [of sink hist la0 s0] r by (simp add: ex_action_conv)
  have bound: "bound = binds la0 c"
    using receive_bound [of now ?epoch c la] rc h(2,3) acts
    by (simp add: binds_def with_effects_def with_levels_def)
  show ?thesis
  proof (cases "binds la0 c")
    case False
    then show ?thesis using r e rc bound by (simp add: led_execute_def Let_def)
  next
    case True
    let ?cmd = "held_command la1 ?epoch"
    have s': "s' = snd (ls_publish sink ?cmd s)"
      using e rc bound True by (auto simp: led_execute_def Let_def split: prod.splits)
    have len: "length (la_fills la1) \<le> fills_capacity" using ok1 by (simp add: led_ok_def)
    have held: "(\<exists>b \<in> set (la_effects la1). eb_active b \<and> eb_effect b = e) = effect_held e ?cs (la_effects la0)" for e
      unfolding es by (auto simp: with_effects_def effect_held_def)
    have prio: "highest_active e (la_effects la1) = active_priority e ?cs (la_effects la0)" for e
    proof -
      have "map eb_priority (filter (\<lambda>b. eb_active b \<and> eb_effect b = e) (with_effects cs bs)) =
          [eb_priority b. b \<leftarrow> bs, eb_effect b = e \<and> held_on (eb_action b) cs]" for cs bs
        by (induction bs) (auto simp: with_effects_def)
      then show ?thesis by (simp add: highest_active_spec active_priority_def es)
    qed
    have k1: "command_ok ?cmd" by (rule held_command_ok [OF ok1])
    have k2: "lc_left_turn ?cmd = effect_held LeftTurn ?cs (la_effects la0) \<and> lc_right_turn ?cmd = effect_held RightTurn ?cs (la_effects la0) \<and>
       lc_brake ?cmd = effect_held Brake ?cs (la_effects la0)"
      by (simp add: held_command_def Let_def effects_lit_spec held)
    have k3: "lc_priorities ?cmd = \<lparr>ep_left_turn = active_priority LeftTurn ?cs (la_effects la0),
         ep_right_turn = active_priority RightTurn ?cs (la_effects la0), ep_brake = active_priority Brake ?cs (la_effects la0)\<rparr>"
      by (simp add: held_command_def Let_def effects_priorities_def prio)
    have k4: "lc_fills ?cmd = map lit_fill (filter (\<lambda>b. \<not> fraction_eq (fb_level b) fraction_empty) (with_levels ?cs (la_fills la0)))"
      by (simp add: held_command_def Let_def fills_lit_spec [OF len] fs [symmetric])
    have starts: "list_all2 (follows (led_log sink hist (la0, s0) @ [(c, now, ?epoch, False)])) (la_transients la0) (la_transients la1)"
      using receive_follows [of "led_log sink hist (la0, s0)" "la_transients la0" la c now ?epoch] run_follows [OF assms, of sink hist s0] r rc
      by simp
    have k0: "lc_color ?cmd = black" by (simp add: held_command_def Let_def default_command_def)
    have k6: "lc_transients ?cmd = history_starts ?epoch (led_log sink hist (la0, s0) @ [(c, now, ?epoch, False)]) (la_transients la0)"
      using latest_follows [OF _ starts] ok1 by (simp add: held_command_def Let_def led_ok_def)
    have any: "(\<exists>e. effect_held e ?cs (la_effects la0)) = effects_any (effects_lit (la_effects la1))"
      by (simp add: effects_any_def effects_lit_spec held) (metis led_effect.exhaust)
    have k7: "lc_actionable ?cmd = ((\<exists>e. effect_held e ?cs (la_effects la0)) \<or> lc_fills ?cmd \<noteq> [] \<or> lc_transients ?cmd \<noteq> [])"
      unfolding any by (simp add: held_command_def Let_def)
    have k5: "lc_valid_until ?cmd = (if lc_actionable ?cmd then held_until_us else 0)"
      by (simp add: held_command_def Let_def)
    show ?thesis
      by (simp only: Let_def r e prod.case True if_True) (intro exI [of _ ?cmd] conjI s' k0 k1 k2 [THEN conjunct1] k2 [THEN conjunct2, THEN conjunct1]
        k2 [THEN conjunct2, THEN conjunct2] k3 k4 k5 k6 k7)
  qed
qed

definition recording_sink :: "lighting_command list lighting_sink" where
  "recording_sink = \<lparr>ls_publish = (\<lambda>cmd s. (True, cmd # s)), ls_epoch = (\<lambda>s. 3)\<rparr>"

definition two_bindings :: led_actions where
  "two_bindings = \<lparr>la_effects = [\<lparr>eb_action = ActionId 7, eb_effect = Brake, eb_priority = 120, eb_active = False\<rparr>], la_fills = [],
     la_transients = [\<lparr>tb_action = ActionId 8, tb_effect = \<lparr>lt_zone = \<lparr>lz_start = 0, lz_length = 4, lz_direction = CenterOut\<rparr>,
       lt_color = black, lt_priority = 9, lt_duration = 500\<rparr>, tb_sequence = 0, tb_origin = 0, tb_epoch = 0, tb_retained = False\<rparr>]\<rparr>"

text \<open>A one-shot effect triggered at 5, then an effect activated at 9: the second command still carries the start.\<close>

theorem led_publishes_held_state_witness:
  "\<exists>cmd. snd (led_execute recording_sink 9 (command (ActionId 7) Activate) (led_run recording_sink [(5, command (ActionId 8) Trigger)] (two_bindings, []))) =
     cmd # snd (led_run recording_sink [(5, command (ActionId 8) Trigger)] (two_bindings, [])) \<and>
   lc_brake cmd \<and> \<not> lc_left_turn cmd \<and> ep_brake (lc_priorities cmd) = 120 \<and> lc_actionable cmd \<and> lc_valid_until cmd = held_until_us \<and>
   map ts_origin (lc_transients cmd) = [5] \<and> map ts_sequence (lc_transients cmd) = [1]"
proof -
  let ?h = "[(5, command (ActionId 8) Trigger)]" and ?c = "command (ActionId 7) Activate"
  obtain la s where r: "led_run recording_sink ?h (two_bindings, []) = (la, s)" by (cases "led_run recording_sink ?h (two_bindings, [])")
  obtain la' s' where e: "led_execute recording_sink 9 ?c (la, s) = (la', s')" by (cases "led_execute recording_sink 9 ?c (la, s)")
  have "configured two_bindings" by (simp add: two_bindings_def configured_def led_ok_def bindings_capacity_def transients_ok_def transient_capacity_def max_transient_duration_def)
  have log: "led_log recording_sink ?h (two_bindings, []) = [(command (ActionId 8) Trigger, 5, 3, False)]"
    by (simp add: led_event_of_def recording_sink_def split_beta)
  let ?cs = "[command (ActionId 8) Trigger, ?c]"
  have sink: "ls_epoch recording_sink s = 3" "ls_publish recording_sink cmd s = (True, cmd # s)" for cmd s by (simp_all add: recording_sink_def)
  have bound: "binds two_bindings ?c" by (simp add: binds_def command_def two_bindings_def)
  have held: "effect_held Brake ?cs (la_effects two_bindings)" "\<not> effect_held LeftTurn ?cs (la_effects two_bindings)"
    "active_priority Brake ?cs (la_effects two_bindings) = 120"
    by (simp_all add: effect_held_def active_priority_def held_on_def on_off_level_def command_def two_bindings_def)
  have starts: "map ts_origin (history_starts 3 [(command (ActionId 8) Trigger, 5, 3, False), (?c, 9, 3, False)] (la_transients two_bindings)) = [5]"
    "map ts_sequence (history_starts 3 [(command (ActionId 8) Trigger, 5, 3, False), (?c, 9, 3, False)] (la_transients two_bindings)) = [1]"
    by (simp_all add: history_starts_def two_bindings_def last_trigger_def trigger_count_def triggers_def command_def trigger_sequence_def)
  from led_publishes_held_state [OF \<open>configured two_bindings\<close>, of recording_sink ?h "[]" ?c 9, unfolded Let_def r e prod.case log sink append.simps list.map snd_conv]
  have "\<exists>cmd. s' = cmd # s \<and> lc_brake cmd \<and> \<not> lc_left_turn cmd \<and> ep_brake (lc_priorities cmd) = 120 \<and> lc_actionable cmd \<and>
      lc_valid_until cmd = held_until_us \<and> map ts_origin (lc_transients cmd) = [5] \<and> map ts_sequence (lc_transients cmd) = [1]"
    unfolding if_P [OF bound] using held starts by (elim exE conjE) (intro exI conjI, auto)
  then show ?thesis unfolding r e snd_conv .
qed

end
