(* ===== verification/Stall_Gate.thy ===== *)
theory Stall_Gate
  imports Controller_Laws
begin

text \<open>
  The renderer runtime as interleaved tasks: the publishers behind the stall gate
  (\<open>components/local_argb/private_include/local_argb/stall_gated_sink.hpp\<close>), the supervisor that fails the
  strip off (\<open>progress_watchdog.hpp\<close>, \<open>progress_fail_off.hpp\<close>), the worker that owns the renderer
  (\<open>renderer_runtime.hpp\<close>, \<open>worker\<close>), the explicit fail-off and the controlled restart
  (\<open>src/local_argb_idf.cpp\<close>). The atomics are sequentially consistent, so a run is an interleaving of
  their single operations; each step below is one atomic operation, queue call or driver pass of one task.
  The runtime is started, so the queue of length one accepts every overwrite.
\<close>

section \<open>The progress watchdog\<close>

datatype progress_transition = NoTransition | Stalled | Resumed

definition progress_stall_us :: monotonic where
  "progress_stall_us = 2000000"

record progress_watchdog =
  pw_last_change :: monotonic
  pw_last_progress :: u32
  pw_armed :: bool
  pw_stalled :: bool

definition watchdog_arm :: "u32 \<Rightarrow> monotonic \<Rightarrow> progress_watchdog \<Rightarrow> progress_watchdog" where
  "watchdog_arm progress now w = w\<lparr>pw_last_progress := progress, pw_last_change := now, pw_armed := True, pw_stalled := False\<rparr>"

definition record_progress :: "u32 \<Rightarrow> monotonic \<Rightarrow> progress_watchdog \<Rightarrow> progress_transition \<times> progress_watchdog" where
  "record_progress progress now w = (if pw_stalled w then Resumed else NoTransition,
     w\<lparr>pw_last_progress := progress, pw_last_change := now, pw_stalled := False\<rparr>)"

definition bound_exceeded :: "monotonic \<Rightarrow> progress_watchdog \<Rightarrow> bool" where
  "bound_exceeded now w = (now < pw_last_change w \<or> progress_stall_us < now - pw_last_change w)"

definition watchdog_sample :: "u32 \<Rightarrow> monotonic \<Rightarrow> progress_watchdog \<Rightarrow> progress_transition \<times> progress_watchdog" where
  "watchdog_sample progress now w = (if \<not> pw_armed w then (NoTransition, w)
     else if progress \<noteq> pw_last_progress w then record_progress progress now w
     else if pw_stalled w \<or> \<not> bound_exceeded now w then (NoTransition, w)
     else (Stalled, w\<lparr>pw_stalled := True\<rparr>))"

section \<open>The tasks\<close>

datatype gate_state = Open | Closed | Shut

text \<open>Where a publisher stands inside \<open>StallGatedSink::publish\<close>.\<close>

datatype publisher = Idle | Entered lighting_command | Loaded lighting_command u32 | Admitted lighting_command u32
  | Published u32 bool | Rechecked u32 bool | MustBlack | Leaving bool

text \<open>The supervisor inside \<open>ProgressFailOff::apply\<close>.\<close>

datatype supervisor = SupIdle | SupClosed | SupInvalidated | SupBlack | SupReopening | SupOpened

text \<open>An explicit \<open>fail_off\<close>, and \<open>fail_off_for_restart\<close> with the pass count it read.\<close>

datatype fail_off_task = OffIdle | OffInvalidated

datatype restart_task = RestartIdle | RestartShut | RestartDraining | RestartDrained | RestartCounted u32
  | RestartQueued u32 | RestartSawPass u32 | RestartSawEmpty u32 | RestartTrue | RestartAbandoned | RestartTimedOut

datatype worker_task = WorkerIdle | WorkerTook "lighting_command option" | WorkerApplying "lighting_command option" u32
  | WorkerRendered | WorkerChecked | WorkerFlagged

record 's runtime =
  rt_gate :: gate_state
  rt_in_flight :: u32
  rt_epoch :: u32
  rt_queue :: "lighting_command option"
  rt_publishers :: "publisher list"
  rt_supervisor :: supervisor
  rt_stalls :: u32
  rt_resumes :: u32
  rt_fail_off :: fail_off_task
  rt_restart :: restart_task
  rt_worker :: worker_task
  rt_renderer :: "controller \<times> 's"
  rt_worker_black :: bool
  rt_passes :: u32

definition runtime_publish :: "lighting_command \<Rightarrow> 's runtime \<Rightarrow> 's runtime" where
  "runtime_publish cmd w = w\<lparr>rt_queue := mailbox_submit cmd (rt_queue w)\<rparr>"

definition invalidate_transients :: "'s runtime \<Rightarrow> 's runtime" where
  "invalidate_transients w = w\<lparr>rt_epoch := rt_epoch w + 1\<rparr>"

definition gate_close :: "'s runtime \<Rightarrow> 's runtime" where
  "gate_close w = (if rt_gate w = Open then w\<lparr>rt_gate := Closed\<rparr> else w)"

definition gate_open :: "'s runtime \<Rightarrow> 's runtime" where
  "gate_open w = (if rt_gate w = Closed then w\<lparr>rt_gate := Open\<rparr> else w)"

definition gate_shut :: "'s runtime \<Rightarrow> 's runtime" where
  "gate_shut w = w\<lparr>rt_gate := Shut\<rparr>"

definition set_publisher :: "nat \<Rightarrow> publisher \<Rightarrow> 's runtime \<Rightarrow> 's runtime" where
  "set_publisher p pc w = w\<lparr>rt_publishers := (rt_publishers w)[p := pc]\<rparr>"

text \<open>The next operation of publisher \<open>p\<close>.\<close>

definition publisher_step :: "nat \<Rightarrow> 's runtime \<Rightarrow> 's runtime" where
  "publisher_step p w = (case rt_publishers w ! p of
     Idle \<Rightarrow> w
   | Entered cmd \<Rightarrow> set_publisher p (Loaded cmd (rt_epoch w)) w
   | Loaded cmd e \<Rightarrow> set_publisher p (if rt_gate w = Open then Admitted cmd e else Leaving False) w
   | Admitted cmd e \<Rightarrow> set_publisher p (Published e True) (runtime_publish cmd w)
   | Published e accepted \<Rightarrow> set_publisher p (if rt_gate w = Open then Rechecked e accepted else MustBlack) w
   | Rechecked e accepted \<Rightarrow> set_publisher p (if e = rt_epoch w then Leaving accepted else MustBlack) w
   | MustBlack \<Rightarrow> set_publisher p (Leaving False) (runtime_publish default_command w)
   | Leaving result \<Rightarrow> set_publisher p Idle (w\<lparr>rt_in_flight := rt_in_flight w - 1\<rparr>))"

definition publisher_call :: "nat \<Rightarrow> lighting_command \<Rightarrow> 's runtime \<Rightarrow> 's runtime" where
  "publisher_call p cmd w = set_publisher p (Entered cmd) (w\<lparr>rt_in_flight := rt_in_flight w + 1\<rparr>)"

definition supervisor_step :: "progress_transition \<Rightarrow> 's runtime \<Rightarrow> 's runtime" where
  "supervisor_step transition w = (case rt_supervisor w of
     SupIdle \<Rightarrow> (case transition of NoTransition \<Rightarrow> w
        | Stalled \<Rightarrow> (gate_close w)\<lparr>rt_supervisor := SupClosed\<rparr>
        | Resumed \<Rightarrow> (invalidate_transients w)\<lparr>rt_supervisor := SupReopening\<rparr>)
   | SupClosed \<Rightarrow> (invalidate_transients w)\<lparr>rt_supervisor := SupInvalidated\<rparr>
   | SupInvalidated \<Rightarrow> (runtime_publish default_command w)\<lparr>rt_supervisor := SupBlack\<rparr>
   | SupBlack \<Rightarrow> w\<lparr>rt_stalls := rt_stalls w + 1, rt_supervisor := SupIdle\<rparr>
   | SupReopening \<Rightarrow> (gate_open w)\<lparr>rt_supervisor := SupOpened\<rparr>
   | SupOpened \<Rightarrow> w\<lparr>rt_resumes := rt_resumes w + 1, rt_supervisor := SupIdle\<rparr>)"

definition fail_off_step :: "'s runtime \<Rightarrow> 's runtime" where
  "fail_off_step w = (case rt_fail_off w of
     OffIdle \<Rightarrow> (invalidate_transients w)\<lparr>rt_fail_off := OffInvalidated\<rparr>
   | OffInvalidated \<Rightarrow> (runtime_publish default_command w)\<lparr>rt_fail_off := OffIdle\<rparr>)"

text \<open>\<open>expired\<close> is what the deadline check answers at this step.\<close>

definition restart_step :: "bool \<Rightarrow> 's runtime \<Rightarrow> 's runtime" where
  "restart_step expired w = (case rt_restart w of
     RestartIdle \<Rightarrow> (gate_shut w)\<lparr>rt_restart := RestartShut\<rparr>
   | RestartShut \<Rightarrow> (invalidate_transients w)\<lparr>rt_restart := RestartDraining\<rparr>
   | RestartDraining \<Rightarrow> w\<lparr>rt_restart := (if rt_in_flight w = 0 then RestartDrained
        else if expired then RestartAbandoned else RestartDraining)\<rparr>
   | RestartDrained \<Rightarrow> w\<lparr>rt_restart := RestartCounted (rt_passes w)\<rparr>
   | RestartCounted n \<Rightarrow> (runtime_publish default_command w)\<lparr>rt_restart := RestartQueued n\<rparr>
   | RestartQueued n \<Rightarrow> w\<lparr>rt_restart := (if rt_passes w \<noteq> n then RestartSawPass n
        else if expired then RestartTimedOut else RestartQueued n)\<rparr>
   | RestartSawPass n \<Rightarrow> w\<lparr>rt_restart := (if rt_queue w = None then RestartSawEmpty n
        else if expired then RestartTimedOut else RestartQueued n)\<rparr>
   | RestartSawEmpty n \<Rightarrow> w\<lparr>rt_restart := (if rt_worker_black w then RestartTrue
        else if expired then RestartTimedOut else RestartQueued n)\<rparr>
   | RestartTrue \<Rightarrow> w | RestartAbandoned \<Rightarrow> w | RestartTimedOut \<Rightarrow> w)"

definition worker_step :: "'s pixel_sink \<Rightarrow> monotonic \<Rightarrow> 's runtime \<Rightarrow> 's runtime" where
  "worker_step sink now w = (case rt_worker w of
     WorkerIdle \<Rightarrow> (let (cmd, queue) = mailbox_take (rt_queue w) in w\<lparr>rt_queue := queue, rt_worker := WorkerTook cmd\<rparr>)
   | WorkerTook cmd \<Rightarrow> w\<lparr>rt_worker := WorkerApplying cmd (rt_epoch w)\<rparr>
   | WorkerApplying cmd e \<Rightarrow> w\<lparr>rt_renderer := snd (case cmd of Some c \<Rightarrow> controller_apply sink c now e (rt_renderer w)
        | None \<Rightarrow> controller_tick sink now (rt_renderer w)), rt_worker := WorkerRendered\<rparr>
   | WorkerRendered \<Rightarrow> (if rc_faulted (fst (rt_renderer w)) then invalidate_transients w else w)\<lparr>rt_worker := WorkerChecked\<rparr>
   | WorkerChecked \<Rightarrow> w\<lparr>rt_worker_black := black_written (fst (rt_renderer w)), rt_worker := WorkerFlagged\<rparr>
   | WorkerFlagged \<Rightarrow> w\<lparr>rt_passes := rt_passes w + 1, rt_stalls := 0, rt_resumes := 0, rt_worker := WorkerIdle\<rparr>)"

inductive runtime_step :: "'s pixel_sink \<Rightarrow> 's runtime \<Rightarrow> 's runtime \<Rightarrow> bool" for sink where
  Call: "p < length (rt_publishers w) \<Longrightarrow> rt_publishers w ! p = Idle \<Longrightarrow> command_ok cmd \<Longrightarrow>
    runtime_step sink w (publisher_call p cmd w)"
| Publisher: "p < length (rt_publishers w) \<Longrightarrow> runtime_step sink w (publisher_step p w)"
| Supervisor: "runtime_step sink w (supervisor_step transition w)"
| FailOff: "runtime_step sink w (fail_off_step w)"
| Restart: "runtime_step sink w (restart_step expired w)"
| Worker: "runtime_step sink w (worker_step sink now w)"

text \<open>After \<open>start\<close>: the gate is open, no task is inside a call, and the renderer has written its first black.\<close>

definition runtime_started :: "nat \<Rightarrow> controller \<times> 's \<Rightarrow> 's runtime" where
  "runtime_started n cs = \<lparr>rt_gate = Open, rt_in_flight = 0, rt_epoch = 0, rt_queue = None, rt_publishers = replicate n Idle,
     rt_supervisor = SupIdle, rt_stalls = 0, rt_resumes = 0, rt_fail_off = OffIdle, rt_restart = RestartIdle,
     rt_worker = WorkerIdle, rt_renderer = cs, rt_worker_black = False, rt_passes = 0\<rparr>"

inductive runtime_reachable :: "'s pixel_sink \<Rightarrow> nat \<Rightarrow> controller \<times> 's \<Rightarrow> 's runtime \<Rightarrow> bool" for sink n cs where
  Started: "runtime_reachable sink n cs (runtime_started n cs)"
| Step: "runtime_reachable sink n cs w \<Longrightarrow> runtime_step sink w w' \<Longrightarrow> runtime_reachable sink n cs w'"

end
