(* ===== verification/Renderer_Properties.thy ===== *)
theory Renderer_Properties
  imports Controller_Laws
begin

text \<open>
  The properties of the strip renderer, and the firmware's pixel sink over an LED driver that is a
  parameter (\<open>components/local_argb/src/local_argb_idf.cpp\<close>).
\<close>

section \<open>The firmware's sink\<close>

record 'd led_driver =
  vehicle_set :: "nat \<Rightarrow> rgb \<Rightarrow> 'd \<Rightarrow> bool \<times> 'd"
  vehicle_refresh :: "'d \<Rightarrow> bool \<times> 'd"
  onboard_set :: "nat \<Rightarrow> rgb \<Rightarrow> 'd \<Rightarrow> bool \<times> 'd"
  onboard_refresh :: "'d \<Rightarrow> bool \<times> 'd"

text \<open>\<open>LedStripSink::write\<close>: every guard short-circuits the calls after it.\<close>

definition led_strip_write :: "'d led_driver \<Rightarrow> 'd pixel_sink" where
  "led_strip_write drv frame len d = (let status = onboard_status_color frame len;
     (pixels_ok, d1) = fold (\<lambda>index (ok, d). if ok \<and> index < len \<and> index < length frame
       then vehicle_set drv index (frame ! index) d else (ok, d)) [0..<length frame] (True, d);
     (vehicle_ok, d2) = (if pixels_ok then vehicle_refresh drv d1 else (False, d1));
     (onboard_ok, d3) = onboard_set drv 0 status d2;
     (refreshed, d4) = (if onboard_ok then onboard_refresh drv d3 else (False, d3))
   in (vehicle_ok \<and> refreshed, d4))"

text \<open>
  The documented behaviour of the driver: an accepted \<open>set_pixel\<close> stores the pixel in the strip's buffer, an
  accepted refresh shows the buffer, and neither strip's calls touch the other strip.
\<close>

definition driver_contract :: "'d led_driver \<Rightarrow> ('d \<Rightarrow> pixel_frame) \<Rightarrow> ('d \<Rightarrow> pixel_frame) \<Rightarrow> bool" where
  "driver_contract drv buf shown \<longleftrightarrow> (\<forall>d. length (buf d) = max_led_count)
     \<and> (\<forall>i c d d'. vehicle_set drv i c d = (True, d') \<longrightarrow> buf d' = (buf d)[i := c])
     \<and> (\<forall>d d'. vehicle_refresh drv d = (True, d') \<longrightarrow> buf d' = buf d \<and> shown d' = buf d)
     \<and> (\<forall>i c d. buf (snd (onboard_set drv i c d)) = buf d \<and> shown (snd (onboard_set drv i c d)) = shown d)
     \<and> (\<forall>d. buf (snd (onboard_refresh drv d)) = buf d \<and> shown (snd (onboard_refresh drv d)) = shown d)"

lemma pixels_written:
  assumes "driver_contract drv buf shown" and "length frame = max_led_count" and "len \<le> max_led_count"
    and "k \<le> length frame"
    and "fold (\<lambda>index (ok, d). if ok \<and> index < len \<and> index < length frame
       then vehicle_set drv index (frame ! index) d else (ok, d)) [0..<k] (True, d) = (True, d')"
  shows "buf d' = take (min k len) frame @ drop (min k len) (buf d)"
  using assms(4,5)
proof (induction k arbitrary: d')
  case 0
  then show ?case by simp
next
  case (Suc k)
  let ?go = "\<lambda>index (ok, d). if ok \<and> index < len \<and> index < length frame
       then vehicle_set drv index (frame ! index) d else (ok, d)"
  obtain ok d1 where f: "fold ?go [0..<k] (True, d) = (ok, d1)" by (cases "fold ?go [0..<k] (True, d)") auto
  have s: "?go k (ok, d1) = (True, d')" using Suc.prems(2) f by simp
  then have ok: "ok" by (cases ok) auto
  have b: "buf d1 = take (min k len) frame @ drop (min k len) (buf d)"
    using Suc.IH [of d1] f ok Suc.prems(1) by simp
  have lb: "length (buf d) = max_led_count" using assms(1) by (simp add: driver_contract_def)
  show ?case
  proof (cases "k < len")
    case True
    then have "vehicle_set drv k (frame ! k) d1 = (True, d')" using s ok Suc.prems(1) by simp
    then have "buf d' = (buf d1)[k := frame ! k]" using assms(1) by (simp add: driver_contract_def)
    also have "\<dots> = take (Suc k) frame @ drop (Suc k) (buf d)"
      using b True Suc.prems(1) lb assms(2)
      by (simp add: min_def list_update_append take_Suc_conv_app_nth Cons_nth_drop_Suc [symmetric, of k "buf d"])
    finally show ?thesis using True by (simp add: min_def)
  next
    case False
    then have "d1 = d'" using s by simp
    then show ?thesis using b False by (simp add: min_def)
  qed
qed

lemma led_strip_sink_contract:
  assumes "driver_contract drv buf shown"
  shows "sink_contract (led_strip_write drv) buf shown"
  unfolding sink_contract_def
proof (intro conjI allI impI; (elim conjE)?)
  show "length (buf s) = max_led_count" for s using assms by (simp add: driver_contract_def)
  fix f n s s'
  assume f: "length f = max_led_count" "n \<le> max_led_count" "led_strip_write drv f n s = (True, s')"
  let ?go = "\<lambda>index (ok, d). if ok \<and> index < n \<and> index < length f
       then vehicle_set drv index (f ! index) d else (ok, d)"
  obtain p d1 where p: "fold ?go [0..<length f] (True, s) = (p, d1)" by (cases "fold ?go [0..<length f] (True, s)") auto
  obtain v d2 where v: "(if p then vehicle_refresh drv d1 else (False, d1)) = (v, d2)"
    by (cases "if p then vehicle_refresh drv d1 else (False, d1)") auto
  obtain o1 d3 where o1: "onboard_set drv 0 (onboard_status_color f n) d2 = (o1, d3)"
    by (cases "onboard_set drv 0 (onboard_status_color f n) d2") auto
  obtain o2 d4 where o2: "(if o1 then onboard_refresh drv d3 else (False, d3)) = (o2, d4)"
    by (cases "if o1 then onboard_refresh drv d3 else (False, d3)") auto
  have all: "v" "o2" "s' = d4" using f(3) p v o1 o2 by (simp_all add: led_strip_write_def Let_def)
  then have "p" "o1" using v o2 by (auto split: if_splits)
  have d1: "buf d1 = take n f @ drop n (buf s)"
    using pixels_written [OF assms f(1,2) le_refl, of s d1] p \<open>p\<close> f by simp
  have "vehicle_refresh drv d1 = (True, d2)" using v \<open>p\<close> \<open>v\<close> by simp
  then have d2: "buf d2 = buf d1 \<and> shown d2 = buf d1" using assms by (simp add: driver_contract_def)
  have "buf d3 = buf d2 \<and> shown d3 = shown d2"
    using assms o1 by (metis driver_contract_def snd_conv)
  moreover have "onboard_refresh drv d3 = (True, d4)" using o2 \<open>o1\<close> \<open>o2\<close> by simp
  then have "buf d4 = buf d3 \<and> shown d4 = shown d3"
    using assms by (metis driver_contract_def snd_conv)
  ultimately show "buf s' = take n f @ drop n (buf s)" "shown s' = buf s'"
    using d1 d2 all by simp_all
qed

section \<open>Properties\<close>

text \<open>A driver that accepts every call, for the concrete instances.\<close>

definition ideal_driver :: "((nat \<Rightarrow> rgb) \<times> (nat \<Rightarrow> rgb)) led_driver" where
  "ideal_driver = \<lparr>vehicle_set = (\<lambda>i c (b, sh). (True, b(i := c), sh)), vehicle_refresh = (\<lambda>(b, sh). (True, b, b)),
     onboard_set = (\<lambda>i c d. (True, d)), onboard_refresh = (\<lambda>d. (True, d))\<rparr>"

definition pixels_of :: "(nat \<Rightarrow> rgb) \<Rightarrow> pixel_frame" where
  "pixels_of b = map b [0..<max_led_count]"

lemma ideal_contract: "driver_contract ideal_driver (\<lambda>d. pixels_of (fst d)) (\<lambda>d. pixels_of (snd d))"
proof -
  have "pixels_of (b(i := c)) = (pixels_of b)[i := c]" for b i c
    by (rule nth_equalityI) (auto simp: pixels_of_def nth_update_at)
  then show ?thesis
    by (auto simp: driver_contract_def ideal_driver_def) (simp_all add: pixels_of_def)
qed

lemma ideal_calls [simp]:
  "vehicle_set ideal_driver i c d = (True, (fst d)(i := c), snd d)"
  "vehicle_refresh ideal_driver d = (True, fst d, fst d)"
  "onboard_set ideal_driver i c d = (True, d)"
  "onboard_refresh ideal_driver d = (True, d)"
  by (cases d; simp add: ideal_driver_def)+

lemma ideal_accepts: "\<exists>d'. led_strip_write ideal_driver frame n d = (True, d')"
proof -
  have "fst (fold (\<lambda>index (ok, d). if ok \<and> index < n \<and> index < length frame
       then vehicle_set ideal_driver index (frame ! index) d else (ok, d)) ks (True, d))" for ks
    by (induction ks arbitrary: d) simp_all
  from this [of "[0..<length frame]"] show ?thesis
    by (simp add: led_strip_write_def split_beta Let_def)
qed

lemma ideal_write_desired: "fst (write_desired (led_strip_write ideal_driver) f (c, d))"
proof -
  obtain d' where "led_strip_write ideal_driver f (if f = black_frame then max_led_count else rc_pixel_count c) d = (True, d')"
    using ideal_accepts by blast
  then show ?thesis by (simp add: write_desired_def Let_def)
qed

text \<open>
  The firmware's boot: the center-out animation, the configured length, the first black frame and up to two
  retries of it at the times \<open>t1\<close> and \<open>t2\<close>.
\<close>

definition boot_retry :: "'s pixel_sink \<Rightarrow> monotonic \<Rightarrow> bool \<times> controller \<times> 's \<Rightarrow> bool \<times> controller \<times> 's" where
  "boot_retry sink t = (\<lambda>(cleared, cs). if cleared then (cleared, cs) else controller_tick sink t cs)"

definition boot :: "'s pixel_sink \<Rightarrow> nat \<Rightarrow> monotonic \<Rightarrow> monotonic \<Rightarrow> 's \<Rightarrow> bool \<times> controller \<times> 's" where
  "boot sink n t1 t2 s = (let (configured, c) = configure_pixel_count n (new_controller (Some render_center_out_fill)) in
     if \<not> configured then (False, c, s)
     else boot_retry sink t2 (boot_retry sink t1 (controller_start sink (c, s))))"

definition booted :: "'s pixel_sink \<Rightarrow> nat \<Rightarrow> monotonic \<Rightarrow> monotonic \<Rightarrow> 's \<Rightarrow> controller \<times> 's \<Rightarrow> bool" where
  "booted sink n t1 t2 s cs \<longleftrightarrow> boot sink n t1 t2 s = (True, cs)"

lemma boot_retry_agrees:
  assumes "sink_contract sink buf shown" and "controller_inv (fst (snd r))" and "strip_agrees buf shown (snd r)"
  shows "controller_inv (fst (snd (boot_retry sink t r))) \<and> strip_agrees buf shown (snd (boot_retry sink t r))"
proof -
  obtain ok c s where r: "r = (ok, c, s)" by (metis prod_cases3)
  obtain ok' c' s' where e: "renderer_event sink (Tick t) (c, s) = (ok', c', s')" by (metis prod_cases3)
  have "event_ok (Tick t)" by (simp add: event_ok_def)
  then show ?thesis
    using event_agrees [OF assms(1) _ _ _ e] assms(2,3) e by (simp add: r boot_retry_def renderer_event_def)
qed

lemma booted_agrees:
  assumes "sink_contract sink buf shown" and "booted sink n t1 t2 s cs"
  shows "controller_inv (fst cs) \<and> strip_agrees buf shown cs"
proof -
  let ?c = "snd (configure_pixel_count n (new_controller (Some render_center_out_fill)))"
  have inv: "controller_inv ?c"
    by (rule configure_inv [OF new_controller_inv]) (simp_all add: center_out_ok new_controller_def)
  obtain ok c' s' where st: "controller_start sink (?c, s) = (ok, c', s')" by (metis prod_cases3)
  have "controller_inv c' \<and> strip_agrees buf shown (c', s')" using start_agrees [OF assms(1) inv st] by simp
  then have "controller_inv (fst (snd (boot_retry sink t2 (boot_retry sink t1 (ok, c', s'))))) \<and>
      strip_agrees buf shown (snd (boot_retry sink t2 (boot_retry sink t1 (ok, c', s'))))"
    by (intro boot_retry_agrees [OF assms(1)]) (simp_all add: boot_retry_agrees [OF assms(1)])
  then show ?thesis
    using assms(2) st by (auto simp: booted_def boot_def Let_def split: prod.splits if_splits)
qed

lemma booted_ideal:
  assumes "default_led_count \<le> n" and "n \<le> max_led_count"
  shows "\<exists>c d'. booted (led_strip_write ideal_driver) n t1 t2 d (c, d') \<and> black_written c \<and> \<not> rc_faulted c \<and>
    rc_pixel_count c = n \<and> rc_transients c = no_timings \<and> rc_epoch c = 0"
proof -
  obtain d' where "led_strip_write ideal_driver black_frame max_led_count d = (True, d')" using ideal_accepts by blast
  then show ?thesis
    using assms by (auto simp: booted_def boot_def boot_retry_def controller_start_def configure_pixel_count_def new_controller_def
        write_desired_def Let_def black_written_def)
qed

text \<open>The frame a controller means to show: nothing but black without a command in force, else the painted layers.\<close>

definition painted_pixel :: "monotonic \<Rightarrow> controller \<Rightarrow> nat \<Rightarrow> rgb" where
  "painted_pixel now c i = (case top_layer i (controller_layers c) of
       Some l \<Rightarrow> layer_pixel (rc_animation c) (animation_elapsed now c) (rc_pixel_count c) l i
     | None \<Rightarrow> if generic_colour_only (rc_command c) \<and> i < rc_pixel_count c then ceiling_clamped (lc_color (rc_command c)) else black)"

definition intended_frame :: "monotonic \<Rightarrow> controller \<Rightarrow> pixel_frame" where
  "intended_frame now c = (if controller_shows now c then map (painted_pixel now c) [0..<max_led_count] else black_frame)"

lemma intended_desired:
  assumes "controller_inv c"
  shows "desired_frame now c = intended_frame now c"
proof (cases "controller_shows now c")
  case True
  have "draw_frame now c black_frame = map (painted_pixel now c) [0..<max_led_count]"
    by (rule nth_equalityI) (use draw_frame_nth [OF assms, of now] in \<open>simp_all add: painted_pixel_def\<close>)
  then show ?thesis using True by (simp add: desired_frame_def intended_frame_def)
qed (simp add: desired_frame_def intended_frame_def)

text \<open>
  C6: On the firmware's sink, whichever driver calls fail: after boot and any sequence of commands and
  ticks, a pass that reports success leaves the strip showing exactly the intended frame (each pixel the
  lit layer of highest priority that owns it, the later one in drawing order at equal priority, drawn
  alone; black when no command is in force), on all 300 pixels; a pass that fails latches the fault; and
  whenever the controller records a last written frame, the strip shows that frame.
\<close>

theorem strip_shows_painted_layers:
  assumes "driver_contract drv buf shown" and "booted (led_strip_write drv) n t1 t2 s cs"
    and "\<forall>e \<in> set evs. event_ok e" and "event_ok ev"
  shows "let before = renderer_run (led_strip_write drv) evs cs;
      (ok, c', s') = renderer_event (led_strip_write drv) ev before
    in (if ok then shown s' = intended_frame (event_time ev) (prepared ev (fst before)) else rc_faulted c') \<and>
       (rc_has_last_written c' \<longrightarrow> shown s' = rc_last_written c') \<and> (rc_has_last_written c' \<or> rc_faulted c')"
proof -
  let ?sink = "led_strip_write drv"
  note ct = led_strip_sink_contract [OF assms(1)]
  obtain c1 s1 where b: "cs = (c1, s1)" by (cases cs) auto
  obtain c2 s2 where r: "renderer_run ?sink evs (c1, s1) = (c2, s2)" by (cases "renderer_run ?sink evs (c1, s1)") auto
  obtain ok c' s' where e: "renderer_event ?sink ev (c2, s2) = (ok, c', s')" by (metis prod_cases3)
  have "controller_inv c1" "strip_agrees buf shown (c1, s1)" using booted_agrees [OF ct assms(2)] b by auto
  then have i2: "controller_inv c2" "strip_agrees buf shown (c2, s2)"
    using run_agrees [OF ct _ assms(3), of c1 s1] r by simp_all
  have "strip_agrees buf shown (c', s')" and ok: "ok \<longrightarrow> shown s' = desired_frame (event_time ev) (prepared ev c2)"
    and no: "\<not> ok \<longrightarrow> rc_faulted c'"
    using event_agrees [OF ct i2(1) assms(4) i2(2) e] by blast+
  then show ?thesis
    using intended_desired [OF prepared_inv [OF i2(1) assms(4)], of "event_time ev"]
    by (auto simp: b r e strip_agrees_def strip_view_def)
qed

definition brake_command :: lighting_command where
  "brake_command = default_command\<lparr>lc_brake := True, lc_actionable := True, lc_valid_until := 1000\<rparr>"

theorem strip_shows_painted_layers_witness:
  "\<exists>cs. booted (led_strip_write ideal_driver) 120 1 2 ((\<lambda>_. amber), (\<lambda>_. amber)) cs \<and>
   pixels_of (snd (snd (snd (renderer_event (led_strip_write ideal_driver) (Apply brake_command 20 0) cs)))) ! 50 = brake_red"
proof -
  let ?sink = "led_strip_write ideal_driver" and ?s = "((\<lambda>_. amber), (\<lambda>_. amber))"
  let ?ev = "Apply brake_command 20 0"
  obtain c1 s1 where b: "booted ?sink 120 1 2 ?s (c1, s1)"
    and f: "\<not> rc_faulted c1" "rc_pixel_count c1 = 120" "rc_transients c1 = no_timings" "rc_epoch c1 = 0"
    using booted_ideal [of 120 1 2 ?s] by (auto simp: default_led_count_def max_led_count_def)
  obtain ok c' s' where e: "renderer_event ?sink ?ev (c1, s1) = (ok, c', s')" by (metis prod_cases3)
  have "event_ok ?ev" by (simp add: event_ok_def brake_command_def command_ok_def default_command_def)
  then have main: "if ok then pixels_of (snd s') = intended_frame 20 (prepared ?ev c1) else rc_faulted c'"
    using strip_shows_painted_layers [OF ideal_contract b, of "[]" ?ev] e
    by (simp add: renderer_run_def event_time_def Let_def)
  have ok: "ok" using ideal_write_desired e by (metis fst_conv renderer_event_writes)
  have none: "transients_active [] ts = []" for ts by (simp add: transients_active_def)
  have layers: "controller_layers (prepared ?ev c1) = [\<lparr>ly_kind = BrakeLayer, ly_priority = default_priority, ly_start = 45, ly_count = 30\<rparr>]"
    using f by (simp add: controller_layers_def prepared_def apply_command_def tick_transients_def Let_def brake_command_def
        default_command_def layer_stack_def none default_priorities_def brake_led_count_def)
  have "controller_shows 20 (prepared ?ev c1)"
    using f by (simp add: controller_shows_def prepared_def tick_transients_def apply_command_def Let_def brake_command_def)
  then have "pixels_of (snd s') ! 50 = painted_pixel 20 (prepared ?ev c1) 50"
    using main ok by (simp add: intended_frame_def max_led_count_def)
  also have "\<dots> = brake_red"
    by (simp add: painted_pixel_def layers top_layer_def owns_def layer_pixel_def draw_layer_def fill_range_nth black_frame_def max_led_count_def)
  finally show ?thesis using b e by (intro exI [of _ "(c1, s1)"]) simp
qed

text \<open>
  C23: A fault latches and keeps the strip dark: from a faulted controller a tick writes nothing but black,
  and so does a fresh command as long as no black frame has been accepted since the fault; a command after
  an accepted black clears the fault.
\<close>

theorem fault_keeps_black:
  assumes "sink_contract sink buf shown" and "controller_inv c" and "event_ok ev" and "strip_agrees buf shown (c, s)"
    and "rc_faulted c"
  shows "let (ok, c', s') = renderer_event sink ev (c, s) in
    (if (\<exists>now. ev = Tick now) \<or> \<not> black_written c then rc_faulted c' \<and> (ok \<longrightarrow> shown s' = black_frame)
     else \<not> rc_faulted (prepared ev c))"
proof -
  obtain ok c' s' where e: "renderer_event sink ev (c, s) = (ok, c', s')" by (metis prod_cases3)
  have p: "rc_faulted (prepared ev c) = ((\<exists>now. ev = Tick now) \<or> \<not> black_written c)"
    using assms(5) by (cases ev) (simp_all add: prepared_def)
  have "rc_faulted (prepared ev c) \<Longrightarrow> desired_frame (event_time ev) (prepared ev c) = black_frame"
    by (simp add: desired_frame_def controller_shows_def)
  then show ?thesis using event_agrees [OF assms(1-4) e] p by (auto simp: e)
qed

definition refusing_sink :: "unit pixel_sink" where
  "refusing_sink frame n s = (False, s)"

theorem fault_keeps_black_witness:
  "let c = (new_controller None)\<lparr>rc_faulted := True\<rparr>; (ok, c', s') = renderer_event refusing_sink (Tick 5) (c, ()) in
   rc_faulted c \<and> rc_faulted c' \<and> \<not> ok"
proof -
  let ?c = "(new_controller None)\<lparr>rc_faulted := True\<rparr>"
  have ct: "sink_contract refusing_sink (\<lambda>_. black_frame) (\<lambda>_. black_frame)"
    by (simp add: sink_contract_def refusing_sink_def black_frame_def)
  have "controller_inv ?c" using new_controller_inv [of None] by (simp add: controller_inv_def)
  moreover have "strip_agrees (\<lambda>_. black_frame) (\<lambda>_. black_frame) (?c, ())"
    by (simp add: strip_agrees_def strip_view_def new_controller_def)
  ultimately have "let (ok, c', s') = renderer_event refusing_sink (Tick 5) (?c, ()) in rc_faulted c'"
    using fault_keeps_black [OF ct _ _ _, of ?c "Tick 5" "()"] by (auto simp: event_ok_def)
  then show ?thesis
    by (auto simp: renderer_event_writes write_desired_def refusing_sink_def prepared_def tick_transients_def new_controller_def Let_def)
qed

subsection \<open>One-shot effects\<close>

definition retired :: "nat \<Rightarrow> u64 \<Rightarrow> timing list \<Rightarrow> bool" where
  "retired k q ts \<longleftrightarrow> k < length ts \<and> tm_sequence (ts ! k) = q \<and> \<not> tm_active (ts ! k)"

lemma retired_cancel: "retired k q ts \<Longrightarrow> retired k q (transients_cancel ts)"
  by (simp add: retired_def transients_cancel_def)

lemma retired_expire: "retired k q ts \<Longrightarrow> retired k q (transients_expire now ts)"
  by (simp add: retired_def transients_expire_def)

lemma retired_apply:
  assumes "retired k q ts" and "\<forall>st \<in> set starts. start_index st = k \<longrightarrow> ts_sequence st = q"
  shows "retired k q (transients_apply starts now e n ts)"
  using assms fold_admit_same [of k ts starts now e n]
  by (auto simp: retired_def transients_apply_nth Let_def)

definition names_only :: "nat \<Rightarrow> u64 \<Rightarrow> renderer_event \<Rightarrow> bool" where
  "names_only k q ev \<longleftrightarrow> (case ev of Apply cmd now e \<Rightarrow> \<forall>st \<in> set (lc_transients cmd). start_index st = k \<longrightarrow> ts_sequence st = q | Tick now \<Rightarrow> True)"

lemma retired_prepared:
  assumes "retired k q (rc_transients c)" and "names_only k q ev"
  shows "retired k q (rc_transients (prepared ev c))"
  using assms
  by (cases ev) (auto simp: prepared_def names_only_def tick_transients_def apply_command_def Let_def
      intro!: retired_expire retired_cancel retired_apply)

lemma retired_event:
  assumes "retired k q (rc_transients c)" and "names_only k q ev" and "renderer_event sink ev (c, s) = (ok, c', s')"
  shows "retired k q (rc_transients c')"
  using write_desired_fields [OF assms(3) [unfolded renderer_event_writes]] retired_prepared [OF assms(1,2)]
  by (auto intro: retired_cancel)

text \<open>
  C22: One-shot effects never replay: once the effect in a slot has ended, no sequence of commands and ticks
  that names only that start sequence for the slot (repeated snapshots, cancellations, epoch changes, faults
  and recoveries included) makes it active again.
\<close>

theorem transient_never_replays:
  assumes "retired k q (rc_transients c)" and "\<forall>ev \<in> set evs. names_only k q ev"
  shows "retired k q (rc_transients (fst (renderer_run sink evs (c, s))))"
  using assms
proof (induction evs arbitrary: c s)
  case (Cons ev evs)
  obtain ok c' s' where e: "renderer_event sink ev (c, s) = (ok, c', s')" by (metis prod_cases3)
  have "retired k q (rc_transients c')" using retired_event [OF _ _ e] Cons.prems by simp
  then show ?case using Cons.IH [of c' s'] Cons.prems e by (simp add: renderer_run_def)
qed (simp add: renderer_run_def)

text \<open>A flash of 100 that started at 10 is over at 200; the snapshot of its start is published again, in its epoch, and ticks follow.\<close>

definition flash_start :: transient_start where
  "flash_start = \<lparr>ts_id = 1, ts_epoch = 4, ts_sequence = 1, ts_effect = \<lparr>lt_zone = \<lparr>lz_start = 0, lz_length = 3, lz_direction = StartToEnd\<rparr>,
     lt_color = black, lt_priority = 9, lt_duration = 100\<rparr>, ts_origin = 10\<rparr>"

definition flash_timing :: timing where
  "flash_timing = \<lparr>tm_effect = ts_effect flash_start, tm_sequence = 1, tm_started = 10, tm_active = True\<rparr>"

definition flashed_controller :: controller where
  "flashed_controller = (new_controller None)\<lparr>rc_transients := transients_expire 200 (no_timings[0 := flash_timing])\<rparr>"

theorem transient_never_replays_witness:
  "tm_active flash_timing \<and> start_index flash_start = 0 \<and> retired 0 1 (rc_transients (fst (renderer_run refusing_sink
     [Apply (default_command\<lparr>lc_transients := [flash_start], lc_actionable := True, lc_valid_until := 900\<rparr>) 210 4, Tick 220, Tick 5] (flashed_controller, ()))))"
proof -
  have "retired 0 1 (rc_transients flashed_controller)"
    by (simp add: flashed_controller_def retired_def no_timings_def transient_capacity_def transients_expire_def timing_live_def flash_timing_def flash_start_def)
  then show ?thesis
    using transient_never_replays [of 0 1 flashed_controller "[Apply (default_command\<lparr>lc_transients := [flash_start], lc_actionable := True, lc_valid_until := 900\<rparr>) 210 4, Tick 220, Tick 5]"]
    by (simp add: names_only_def flash_timing_def flash_start_def start_index_def)
qed

lemma tick_transients_active:
  assumes "timings_ok n (rc_transients c)" and "t \<in> set (rc_transients (tick_transients now c))" and "tm_active t"
  shows "timing_live now t \<and> lt_duration (tm_effect t) \<le> max_transient_duration \<and> rc_last_tick c \<le> now \<and>
    \<not> rc_faulted c \<and> lc_actionable (rc_command c) \<and> now \<le> lc_valid_until (rc_command c)"
  using assms by (auto simp: tick_transients_def Let_def transients_expire_def transients_cancel_def timings_ok_def split: if_splits)

text \<open>After every pass of the renderer an active one-shot effect is inside its own duration, at most five
  seconds from its start, under a successful write of an actionable command that has not expired, and on a
  clock that has not gone back; the effects of the pass never exceed the layers the renderer has room for,
  and every layer lies inside the strip.
\<close>

theorem transients_stay_in_window:
  assumes "controller_inv c" and "event_ok ev"
  shows "let (ok, c', s') = renderer_event sink ev (c, s); now = event_time ev in
    (\<forall>t \<in> set (rc_transients c'). tm_active t \<longrightarrow> tm_started t \<le> now \<and> now - tm_started t < lt_duration (tm_effect t) \<and>
       lt_duration (tm_effect t) \<le> max_transient_duration \<and> rc_last_tick c \<le> now \<and> ok \<and> lc_actionable (rc_command c') \<and>
       now \<le> lc_valid_until (rc_command c')) \<and>
    length (controller_layers c') \<le> fills_capacity + transient_capacity + 3 \<and>
    (\<forall>l \<in> set (controller_layers c'). ly_start l + ly_count l \<le> rc_pixel_count c')"
proof -
  obtain ok c' s' where e: "renderer_event sink ev (c, s) = (ok, c', s')" by (metis prod_cases3)
  let ?now = "event_time ev" and ?p = "prepared ev c"
  note inv = prepared_inv [OF assms]
  note wr = e [unfolded renderer_event_writes]
  have inv': "controller_inv c'" by (rule write_desired_inv [OF inv wr])
  have live: "timing_live ?now t \<and> lt_duration (tm_effect t) \<le> max_transient_duration \<and> rc_last_tick c \<le> ?now \<and>
      lc_actionable (rc_command ?p) \<and> ?now \<le> lc_valid_until (rc_command ?p)"
    if "t \<in> set (rc_transients ?p)" "tm_active t" for t
  proof -
    define q where "q = (case ev of Apply cmd now e \<Rightarrow> apply_command cmd now e c | Tick now \<Rightarrow> c)"
    have p: "?p = tick_transients ?now q" by (cases ev) (simp_all add: prepared_def event_time_def q_def)
    have "controller_inv q" using assms by (cases ev) (simp_all add: q_def event_ok_def apply_command_inv)
    then have "timings_ok (rc_pixel_count q) (rc_transients q)" by (simp add: controller_inv_def)
    moreover have "rc_last_tick q = rc_last_tick c" by (cases ev) (simp_all add: q_def apply_command_def Let_def)
    ultimately show ?thesis using tick_transients_active [of _ q t ?now] that by (auto simp: p)
  qed
  have kept: "rc_transients c' = (if ok then rc_transients ?p else transients_cancel (rc_transients ?p)) \<and> rc_command c' = rc_command ?p"
    using wr by (auto simp: write_desired_def Let_def split: if_splits prod.splits)
  have "\<not> tm_active t" if "t \<in> set (transients_cancel ts)" for t ts
    using that by (auto simp: transients_cancel_def)
  then have "\<forall>t \<in> set (rc_transients c'). tm_active t \<longrightarrow> timing_live ?now t \<and> lt_duration (tm_effect t) \<le> max_transient_duration \<and>
      rc_last_tick c \<le> ?now \<and> ok \<and> lc_actionable (rc_command c') \<and> ?now \<le> lc_valid_until (rc_command c')"
    using live kept by (auto split: if_splits)
  moreover have "\<forall>l \<in> set (controller_layers c'). ly_start l + ly_count l \<le> rc_pixel_count c'"
    using controller_layers_ok [OF inv'] by (auto simp: layer_ok_def)
  ultimately show ?thesis
    using controller_layers_ok [OF inv'] by (simp add: e timing_live_def)
qed

theorem transients_stay_in_window_witness:
  "let (ok, c', s') = renderer_event refusing_sink (Apply brake_command 20 0) (new_controller None, ()) in
   (\<forall>t \<in> set (rc_transients c'). tm_active t \<longrightarrow> ok) \<and> length (controller_layers c') \<le> 19"
  using transients_stay_in_window [of "new_controller None" "Apply brake_command 20 0" refusing_sink "()"] new_controller_inv [of None]
  by (auto simp: event_ok_def brake_command_def command_ok_def default_command_def fills_capacity_def transient_capacity_def Let_def
      split: prod.splits)

end
