(* ===== verification/Stall_Gate_Laws.thy ===== *)
theory Stall_Gate_Laws
  imports Stall_Gate Renderer_Properties
begin

text \<open>
  Invariants of the interleaved runtime: while the gate is not open, a lit command can be ahead of the strip
  only under a publisher that still owes the black behind it; after a shut gate has drained, only black
  reaches the queue; and the flag the restart waits for tells what the strip shows.
\<close>

section \<open>What the strip is headed for\<close>

definition lit :: "lighting_command \<Rightarrow> bool" where
  "lit cmd = lc_actionable cmd"

lemma default_not_lit [simp]: "\<not> lit default_command"
  by (simp add: lit_def default_command_def)

text \<open>The command the worker has in hand, or the renderer's own; and the one waiting in front of it.\<close>

definition taken :: "'s runtime \<Rightarrow> lighting_command" where
  "taken w = (case rt_worker w of WorkerTook (Some c) \<Rightarrow> c | WorkerApplying (Some c) e \<Rightarrow> c | _ \<Rightarrow> rc_command (fst (rt_renderer w)))"

definition in_force :: "'s runtime \<Rightarrow> lighting_command" where
  "in_force w = (case rt_queue w of Some c \<Rightarrow> c | None \<Rightarrow> taken w)"

definition owes_black :: "publisher \<Rightarrow> bool" where
  "owes_black p = (case p of Published e a \<Rightarrow> True | MustBlack \<Rightarrow> True | _ \<Rightarrow> False)"

definition harmless :: "publisher \<Rightarrow> bool" where
  "harmless p = (case p of Idle \<Rightarrow> True | Entered c \<Rightarrow> True | Loaded c e \<Rightarrow> True | Leaving r \<Rightarrow> True | _ \<Rightarrow> False)"

definition restart_drained :: "restart_task \<Rightarrow> bool" where
  "restart_drained r = (case r of RestartIdle \<Rightarrow> False | RestartShut \<Rightarrow> False | RestartDraining \<Rightarrow> False | RestartAbandoned \<Rightarrow> False | _ \<Rightarrow> True)"

definition restart_queued :: "restart_task \<Rightarrow> bool" where
  "restart_queued r = (restart_drained r \<and> (case r of RestartDrained \<Rightarrow> False | RestartCounted n \<Rightarrow> False | _ \<Rightarrow> True))"

definition restart_saw_empty :: "restart_task \<Rightarrow> bool" where
  "restart_saw_empty r = (case r of RestartSawEmpty n \<Rightarrow> True | RestartTrue \<Rightarrow> True | _ \<Rightarrow> False)"

definition black_due :: "'s runtime \<Rightarrow> bool" where
  "black_due w \<longleftrightarrow> rt_supervisor w = SupClosed \<or> rt_supervisor w = SupInvalidated \<or>
     (rt_restart w \<noteq> RestartIdle \<and> \<not> restart_queued (rt_restart w))"

section \<open>The invariants\<close>

definition inv_count :: "'s runtime \<Rightarrow> bool" where
  "inv_count w \<longleftrightarrow> length (rt_publishers w) < 4294967296 \<and>
     rt_in_flight w = of_nat (length (filter (\<lambda>p. p \<noteq> Idle) (rt_publishers w)))"

definition inv_shut :: "'s runtime \<Rightarrow> bool" where
  "inv_shut w \<longleftrightarrow> (rt_restart w \<noteq> RestartIdle \<longrightarrow> rt_gate w = Shut)"

definition inv_drained :: "'s runtime \<Rightarrow> bool" where
  "inv_drained w \<longleftrightarrow> (restart_drained (rt_restart w) \<longrightarrow> (\<forall>p \<in> set (rt_publishers w). harmless p))"

definition inv_gate :: "'s runtime \<Rightarrow> bool" where
  "inv_gate w \<longleftrightarrow> (rt_gate w \<noteq> Open \<and> \<not> black_due w \<and> lit (in_force w) \<longrightarrow> (\<exists>p \<in> set (rt_publishers w). owes_black p))"

definition inv_black :: "'s runtime \<Rightarrow> bool" where
  "inv_black w \<longleftrightarrow> (restart_queued (rt_restart w) \<longrightarrow> \<not> lit (in_force w)) \<and>
     (restart_saw_empty (rt_restart w) \<longrightarrow> \<not> lit (taken w))"

definition inv_flag :: "'s runtime \<Rightarrow> bool" where
  "inv_flag w \<longleftrightarrow> (rt_worker_black w \<longrightarrow> black_written (fst (rt_renderer w)) \<or>
     ((rt_worker w = WorkerRendered \<or> rt_worker w = WorkerChecked) \<and> lit (rc_command (fst (rt_renderer w))))) \<and>
     (rt_restart w = RestartTrue \<longrightarrow> black_written (fst (rt_renderer w)))"

lemmas runtime_ops = runtime_publish_def invalidate_transients_def gate_close_def gate_open_def gate_shut_def set_publisher_def
  mailbox_submit_def mailbox_take_def

subsection \<open>Counting the publishers\<close>

lemma count_update:
  assumes "p < length ps"
  shows "length (filter (\<lambda>x. x \<noteq> Idle) (ps[p := q])) + (if ps ! p \<noteq> Idle then 1 else 0) =
    length (filter (\<lambda>x. x \<noteq> Idle) ps) + (if q \<noteq> Idle then 1 else 0)"
  using assms
proof (induction ps arbitrary: p)
  case (Cons a ps)
  show ?case
  proof (cases p)
    case (Suc k)
    then show ?thesis using Cons.IH [of k] Cons.prems by (cases "a = Idle") simp_all
  qed simp
qed simp

lemma in_flight_call:
  assumes "p < length ps" and "ps ! p = Idle" and "q \<noteq> Idle"
  shows "(of_nat (length (filter (\<lambda>x. x \<noteq> Idle) (ps[p := q]))) :: u32) = of_nat (length (filter (\<lambda>x. x \<noteq> Idle) ps)) + 1"
  using count_update [OF assms(1), of q] assms(2,3) by simp

lemma in_flight_leave:
  assumes "p < length ps" and "ps ! p \<noteq> Idle"
  shows "(of_nat (length (filter (\<lambda>x. x \<noteq> Idle) (ps[p := Idle]))) :: u32) = of_nat (length (filter (\<lambda>x. x \<noteq> Idle) ps)) - 1"
proof -
  have "Suc (length (filter (\<lambda>x. x \<noteq> Idle) (ps[p := Idle]))) = length (filter (\<lambda>x. x \<noteq> Idle) ps)"
    using count_update [OF assms(1), of Idle] assms(2) by simp
  from arg_cong [OF this, of "of_nat :: nat \<Rightarrow> u32"] show ?thesis by (simp add: algebra_simps)
qed

lemma in_flight_move:
  assumes "p < length ps" and "ps ! p \<noteq> Idle" and "q \<noteq> Idle"
  shows "length (filter (\<lambda>x. x \<noteq> Idle) (ps[p := q])) = length (filter (\<lambda>x. x \<noteq> Idle) ps)"
  using count_update [OF assms(1), of q] assms(2,3) by simp

lemma count_step:
  assumes "runtime_step sink w w'" and "inv_count w"
  shows "inv_count w'"
  using assms(1)
proof cases
  case (Call p cmd)
  then show ?thesis using assms(2) in_flight_call [of p "rt_publishers w" "Entered cmd"]
    by (simp add: inv_count_def publisher_call_def set_publisher_def)
next
  case (Publisher p)
  then show ?thesis using assms(2)
    by (cases "rt_publishers w ! p") (auto simp: inv_count_def publisher_step_def runtime_ops in_flight_move in_flight_leave)
next
  case (Supervisor transition)
  then show ?thesis using assms(2)
    by (auto simp: inv_count_def supervisor_step_def runtime_ops split: supervisor.splits progress_transition.splits)
next
  case FailOff
  then show ?thesis using assms(2) by (auto simp: inv_count_def fail_off_step_def runtime_ops split: fail_off_task.splits)
next
  case (Restart expired)
  then show ?thesis using assms(2) by (auto simp: inv_count_def restart_step_def runtime_ops split: restart_task.splits)
next
  case (Worker now)
  then show ?thesis using assms(2) by (auto simp: inv_count_def worker_step_def runtime_ops split: worker_task.splits)
qed

lemma nobody_in_flight:
  assumes "inv_count w" and "rt_in_flight w = 0" and "p \<in> set (rt_publishers w)"
  shows "p = Idle"
proof -
  let ?n = "length (filter (\<lambda>p. p \<noteq> Idle) (rt_publishers w))"
  have "?n \<le> length (rt_publishers w)" by (rule length_filter_le)
  then have "?n < 4294967296" by (rule le_less_trans) (use assms(1) in \<open>simp add: inv_count_def\<close>)
  moreover have "(of_nat ?n :: u32) = 0" using assms(1,2) by (simp add: inv_count_def)
  then have "?n mod 4294967296 = 0" using unat_of_nat_u32 [of ?n] by simp
  ultimately have "?n = 0" by simp
  then show ?thesis using assms(3) by (auto simp: filter_empty_conv)
qed

subsection \<open>The shut gate\<close>

lemma shut_step:
  assumes "runtime_step sink w w'" and "inv_shut w"
  shows "inv_shut w'"
  using assms(1)
proof cases
  case (Publisher p)
  then show ?thesis using assms(2)
    by (cases "rt_publishers w ! p") (auto simp: inv_shut_def publisher_step_def runtime_ops)
next
  case (Supervisor transition)
  then show ?thesis using assms(2)
    by (auto simp: inv_shut_def supervisor_step_def runtime_ops split: supervisor.splits progress_transition.splits)
next
  case (Restart expired)
  then show ?thesis using assms(2) by (auto simp: inv_shut_def restart_step_def runtime_ops split: restart_task.splits)
qed (use assms(2) in \<open>auto simp: inv_shut_def publisher_call_def fail_off_step_def worker_step_def runtime_ops
    split: fail_off_task.splits worker_task.splits\<close>)

lemma set_updateE: "x \<in> set (xs[i := y]) \<Longrightarrow> x = y \<or> x \<in> set xs"
  using set_update_subset_insert [of xs i y] by auto

lemma drained_step:
  assumes "runtime_step sink w w'" and "inv_shut w" and "inv_count w" and "inv_drained w"
  shows "inv_drained w'"
  using assms(1)
proof cases
  case (Call p cmd)
  then show ?thesis using assms(4)
    by (auto simp: inv_drained_def publisher_call_def set_publisher_def harmless_def dest!: set_updateE)
next
  case (Publisher p)
  show ?thesis
  proof (cases "restart_drained (rt_restart w)")
    case True
    have "rt_restart w \<noteq> RestartIdle" using True by (auto simp: restart_drained_def)
    then have g: "rt_gate w = Shut" using assms(2) by (simp add: inv_shut_def)
    have "harmless (rt_publishers w ! p)" using True assms(4) Publisher(2) by (simp add: inv_drained_def)
    then show ?thesis using Publisher True g assms(4)
      by (cases "rt_publishers w ! p")
        (auto simp: inv_drained_def publisher_step_def runtime_ops harmless_def dest!: set_updateE)
  next
    case False
    then show ?thesis using Publisher
      by (cases "rt_publishers w ! p") (auto simp: inv_drained_def publisher_step_def runtime_ops)
  qed
next
  case (Restart expired)
  show ?thesis
  proof (cases "rt_restart w = RestartDraining \<and> rt_in_flight w = 0")
    case True
    then have "\<forall>p \<in> set (rt_publishers w). p = Idle" using nobody_in_flight [OF assms(3)] by blast
    then show ?thesis using Restart by (auto simp: inv_drained_def restart_step_def True harmless_def)
  next
    case False
    then show ?thesis using Restart assms(4)
      by (auto simp: inv_drained_def restart_step_def runtime_ops restart_drained_def split: restart_task.splits)
  qed
qed (use assms(4) in \<open>auto simp: inv_drained_def supervisor_step_def fail_off_step_def worker_step_def runtime_ops
    split: supervisor.splits progress_transition.splits fail_off_task.splits worker_task.splits\<close>)

subsection \<open>The renderer's pass\<close>

lemma render_command:
  "rc_command (fst (snd (controller_tick sink now cs))) = rc_command (fst cs)"
  "rc_command (fst (snd (controller_apply sink c now e cs))) = c"
proof -
  obtain k s where cs: "cs = (k, s)" by (cases cs)
  have w: "rc_command (fst (snd (write_desired sink d (k', s')))) = rc_command k'" for d k' s'
    using write_desired_fields [of sink d k' s'] by (metis prod_cases3 fst_conv snd_conv)
  have t: "rc_command (fst (snd (controller_tick sink now (k', s)))) = rc_command k'" for k'
    by (simp add: controller_tick_def Let_def w)
  show "rc_command (fst (snd (controller_tick sink now cs))) = rc_command (fst cs)" by (simp add: cs t)
  show "rc_command (fst (snd (controller_apply sink c now e cs))) = c"
    by (simp add: cs controller_apply_def t) (simp add: apply_command_def Let_def)
qed

lemma tick_keeps_black:
  assumes "black_written k" and "\<not> lit (rc_command k)"
  shows "black_written (fst (snd (controller_tick sink now (k, s))))"
  using assms
  by (simp add: controller_tick_def Let_def controller_shows_def lit_def write_desired_def black_written_def)

lemma apply_keeps_black:
  assumes "black_written k" and "\<not> lit c"
  shows "black_written (fst (snd (controller_apply sink c now e (k, s))))"
proof -
  have "black_written (apply_command c now e k)" using assms(1) by (simp add: black_written_def)
  moreover have "rc_command (apply_command c now e k) = c" by (simp add: apply_command_def Let_def)
  ultimately show ?thesis using tick_keeps_black [of "apply_command c now e k"] assms(2) by (simp add: controller_apply_def)
qed

lemma taken_publish [simp]: "taken (w\<lparr>rt_queue := q\<rparr>) = taken w"
  by (simp add: taken_def split: worker_task.splits option.splits)

lemma taken_other [simp]:
  "taken (w\<lparr>rt_gate := g\<rparr>) = taken w" "taken (w\<lparr>rt_epoch := e\<rparr>) = taken w" "taken (w\<lparr>rt_in_flight := n\<rparr>) = taken w"
  "taken (w\<lparr>rt_publishers := ps\<rparr>) = taken w" "taken (w\<lparr>rt_supervisor := su\<rparr>) = taken w" "taken (w\<lparr>rt_stalls := a\<rparr>) = taken w"
  "taken (w\<lparr>rt_resumes := b\<rparr>) = taken w" "taken (w\<lparr>rt_fail_off := fo\<rparr>) = taken w" "taken (w\<lparr>rt_restart := r\<rparr>) = taken w"
  by (simp_all add: taken_def split: worker_task.splits option.splits)

lemma in_force_other [simp]:
  "in_force (w\<lparr>rt_gate := g\<rparr>) = in_force w" "in_force (w\<lparr>rt_epoch := e\<rparr>) = in_force w" "in_force (w\<lparr>rt_in_flight := n\<rparr>) = in_force w"
  "in_force (w\<lparr>rt_publishers := ps\<rparr>) = in_force w" "in_force (w\<lparr>rt_supervisor := su\<rparr>) = in_force w" "in_force (w\<lparr>rt_stalls := a\<rparr>) = in_force w"
  "in_force (w\<lparr>rt_resumes := b\<rparr>) = in_force w" "in_force (w\<lparr>rt_fail_off := fo\<rparr>) = in_force w" "in_force (w\<lparr>rt_restart := r\<rparr>) = in_force w"
  "in_force (w\<lparr>rt_queue := Some c\<rparr>) = c"
  by (simp_all add: in_force_def split: option.splits)

text \<open>The worker moves the command in force along; it never replaces it.\<close>

lemma in_force_worker: "in_force (worker_step sink now w) = in_force w"
  by (auto simp: in_force_def taken_def worker_step_def mailbox_take_def render_command invalidate_transients_def
      split: worker_task.splits option.splits)

lemma taken_worker:
  "taken (worker_step sink now w) = (if rt_worker w = WorkerIdle then in_force w else taken w)"
  by (auto simp: in_force_def taken_def worker_step_def mailbox_take_def render_command invalidate_transients_def
      split: worker_task.splits option.splits)

subsection \<open>The command in force\<close>

lemma owes_kept:
  assumes "x \<in> set ps" and "owes_black x" and "\<not> owes_black (ps ! p)"
  shows "x \<in> set (ps[p := q])"
proof -
  obtain i where i: "i < length ps" "ps ! i = x" using assms(1) by (auto simp: in_set_conv_nth)
  then have "i \<noteq> p" using assms(2,3) by auto
  then have "ps[p := q] ! i = x" using i by simp
  then show ?thesis using i by (metis length_list_update nth_mem)
qed

lemma inv_gate_move:
  assumes "inv_gate w" and "\<not> owes_black (rt_publishers w ! p)" and "rt_gate w' = rt_gate w" and "black_due w' = black_due w"
    and "in_force w' = in_force w" and "rt_publishers w' = (rt_publishers w)[p := q]"
  shows "inv_gate w'"
  using assms owes_kept [OF _ _ assms(2), of _ q] unfolding inv_gate_def by metis

lemma gate_step:
  assumes "runtime_step sink w w'" and "inv_gate w"
  shows "inv_gate w'"
  using assms(1)
proof cases
  case (Call p cmd)
  then show ?thesis
    by (intro inv_gate_move [OF assms(2), of p _ "Entered cmd"])
      (auto simp: owes_black_def publisher_call_def set_publisher_def black_due_def)
next
  case (Publisher p)
  show ?thesis
  proof (cases "owes_black (rt_publishers w ! p)")
    case True
    then show ?thesis using Publisher
      by (cases "rt_publishers w ! p")
        (auto simp: inv_gate_def owes_black_def publisher_step_def runtime_ops set_update_memI intro!: bexI [of _ MustBlack])
  next
    case no: False
    show ?thesis
    proof (cases "rt_publishers w ! p")
      case (Admitted cmd e)
      then show ?thesis using Publisher
        by (auto simp: inv_gate_def owes_black_def publisher_step_def runtime_ops set_update_memI intro!: bexI [of _ "Published e True"])
    next
      case Idle
      then show ?thesis using Publisher assms(2) by (simp add: publisher_step_def)
    qed (use Publisher no in \<open>auto simp: publisher_step_def runtime_ops black_due_def owes_black_def
        intro: inv_gate_move [OF assms(2) no]\<close>)
  qed
next
  case (Supervisor transition)
  then show ?thesis using assms(2)
    by (auto simp: inv_gate_def black_due_def supervisor_step_def runtime_ops
        split: supervisor.splits progress_transition.splits)
next
  case FailOff
  then show ?thesis using assms(2)
    by (auto simp: inv_gate_def black_due_def fail_off_step_def runtime_ops split: fail_off_task.splits)
next
  case (Restart expired)
  then show ?thesis using assms(2)
    by (auto simp: inv_gate_def black_due_def restart_step_def runtime_ops restart_queued_def restart_drained_def
        split: restart_task.splits)
next
  case (Worker now)
  then show ?thesis using assms(2) in_force_worker [of sink now w]
    by (auto simp: inv_gate_def black_due_def worker_step_def runtime_ops split: worker_task.splits)
qed

lemma in_force_empty: "rt_queue w = None \<Longrightarrow> in_force w = taken w"
  by (simp add: in_force_def)

lemma saw_empty_queued: "restart_saw_empty r \<Longrightarrow> restart_queued r"
  by (cases r) (simp_all add: restart_saw_empty_def restart_queued_def restart_drained_def)

lemma black_step:
  assumes "runtime_step sink w w'" and "inv_drained w" and "inv_black w"
  shows "inv_black w'"
  using assms(1)
proof cases
  case (Call p cmd)
  then show ?thesis using assms(3) by (simp add: inv_black_def publisher_call_def set_publisher_def)
next
  case (Publisher p)
  show ?thesis
  proof (cases "restart_queued (rt_restart w)")
    case True
    then have "harmless (rt_publishers w ! p)"
      using assms(2) Publisher(2) by (auto simp: inv_drained_def restart_queued_def)
    then show ?thesis using Publisher assms(3)
      by (cases "rt_publishers w ! p") (auto simp: inv_black_def publisher_step_def runtime_ops harmless_def)
  next
    case False
    then have "\<not> restart_saw_empty (rt_restart w)" using saw_empty_queued by blast
    then show ?thesis using False Publisher
      by (cases "rt_publishers w ! p") (auto simp: inv_black_def publisher_step_def runtime_ops)
  qed
next
  case (Supervisor transition)
  then show ?thesis using assms(3)
    by (auto simp: inv_black_def supervisor_step_def runtime_ops split: supervisor.splits progress_transition.splits)
next
  case FailOff
  then show ?thesis using assms(3) by (auto simp: inv_black_def fail_off_step_def runtime_ops split: fail_off_task.splits)
next
  case (Restart expired)
  then show ?thesis using assms(3)
    by (auto simp: inv_black_def restart_step_def runtime_ops restart_queued_def restart_drained_def restart_saw_empty_def in_force_empty
        split: restart_task.splits)
next
  case (Worker now)
  have "rt_restart (worker_step sink now w) = rt_restart w"
    by (auto simp: worker_step_def mailbox_take_def invalidate_transients_def split: worker_task.splits)
  then show ?thesis using Worker assms(3) saw_empty_queued [of "rt_restart w"]
    by (auto simp: inv_black_def in_force_worker taken_worker)
qed

lemma renderer_other:
  assumes "runtime_step sink w w'"
  shows "(\<exists>now. w' = worker_step sink now w) \<or>
    (rt_renderer w' = rt_renderer w \<and> rt_worker w' = rt_worker w \<and> rt_worker_black w' = rt_worker_black w \<and>
     rt_passes w' = rt_passes w \<and> (rt_restart w' = RestartTrue \<longrightarrow> rt_restart w = RestartTrue \<or>
       (restart_saw_empty (rt_restart w) \<and> rt_worker_black w)))"
  using assms
proof cases
  case (Publisher p)
  then show ?thesis by (cases "rt_publishers w ! p") (auto simp: publisher_step_def runtime_ops)
next
  case (Supervisor transition)
  then show ?thesis by (auto simp: supervisor_step_def runtime_ops split: supervisor.splits progress_transition.splits)
next
  case (Restart expired)
  then show ?thesis by (auto simp: restart_step_def runtime_ops restart_saw_empty_def split: restart_task.splits if_splits)
qed (auto simp: publisher_call_def set_publisher_def fail_off_step_def runtime_ops split: fail_off_task.splits)

lemma flag_step:
  assumes "runtime_step sink w w'" and "inv_black w" and "inv_flag w"
  shows "inv_flag w'"
proof -
  from renderer_other [OF assms(1)] show ?thesis
  proof (elim disjE conjE exE)
    fix now assume w': "w' = worker_step sink now w"
    obtain k s where r: "rt_renderer w = (k, s)" by (cases "rt_renderer w")
    have tr: "rt_restart w = RestartTrue \<Longrightarrow> \<not> lit (taken w)"
      using assms(2) by (simp add: inv_black_def restart_saw_empty_def)
    show ?thesis
    proof (cases "rt_worker w")
      case (WorkerApplying cmd e)
      then show ?thesis
        using assms(3) r tr tick_keeps_black [of k sink now s] apply_keeps_black [of k _ sink now e s] render_command [where sink = sink]
        by (cases cmd) (auto simp: inv_flag_def w' worker_step_def taken_def)
    qed (use assms(3) r tr in \<open>auto simp: inv_flag_def w' worker_step_def mailbox_take_def invalidate_transients_def taken_def\<close>)
  next
    assume same: "rt_renderer w' = rt_renderer w" "rt_worker w' = rt_worker w" "rt_worker_black w' = rt_worker_black w"
      and new: "rt_restart w' = RestartTrue \<longrightarrow> rt_restart w = RestartTrue \<or> (restart_saw_empty (rt_restart w) \<and> rt_worker_black w)"
    have "black_written (fst (rt_renderer w))" if "restart_saw_empty (rt_restart w)" "rt_worker_black w"
    proof (rule ccontr)
      assume no: "\<not> black_written (fst (rt_renderer w))"
      then have "rt_worker w = WorkerRendered \<or> rt_worker w = WorkerChecked" "lit (rc_command (fst (rt_renderer w)))"
        using assms(3) that(2) by (auto simp: inv_flag_def)
      then have "lit (taken w)" by (auto simp: taken_def)
      then show False using assms(2) that(1) by (simp add: inv_black_def)
    qed
    then show ?thesis using assms(3) same new by (auto simp: inv_flag_def)
  qed
qed

subsection \<open>Commands and the strip\<close>

definition publisher_ok :: "publisher \<Rightarrow> bool" where
  "publisher_ok p = (case p of Entered c \<Rightarrow> command_ok c | Loaded c e \<Rightarrow> command_ok c | Admitted c e \<Rightarrow> command_ok c | _ \<Rightarrow> True)"

definition inv_strip :: "('s \<Rightarrow> pixel_frame) \<Rightarrow> ('s \<Rightarrow> pixel_frame) \<Rightarrow> 's runtime \<Rightarrow> bool" where
  "inv_strip buf shown w \<longleftrightarrow> (\<forall>p \<in> set (rt_publishers w). publisher_ok p) \<and> (\<forall>c. rt_queue w = Some c \<longrightarrow> command_ok c) \<and>
     (case rt_worker w of WorkerTook (Some c) \<Rightarrow> command_ok c | WorkerApplying (Some c) e \<Rightarrow> command_ok c | _ \<Rightarrow> True) \<and>
     controller_inv (fst (rt_renderer w)) \<and> strip_agrees buf shown (rt_renderer w)"

lemma publishers_ok_update:
  "\<forall>x \<in> set ps. publisher_ok x \<Longrightarrow> publisher_ok q \<Longrightarrow> \<forall>x \<in> set (ps[p := q]). publisher_ok x"
  by (auto dest!: set_updateE)

lemma strip_step:
  assumes "sink_contract sink buf shown" and "runtime_step sink w w'" and "inv_strip buf shown w"
  shows "inv_strip buf shown w'"
  using assms(2)
proof cases
  case (Call p cmd)
  have "publisher_ok (Entered cmd)" using Call by (simp add: publisher_ok_def)
  then show ?thesis using Call(1) assms(3) publishers_ok_update [of "rt_publishers w" "Entered cmd" p]
    by (simp add: inv_strip_def publisher_call_def set_publisher_def)
next
  case (Publisher p)
  have "publisher_ok (rt_publishers w ! p)" using Publisher(2) assms(3) by (simp add: inv_strip_def)
  then show ?thesis using Publisher(1) assms(3)
    by (cases "rt_publishers w ! p")
      (auto simp: inv_strip_def publisher_step_def runtime_ops publisher_ok_def default_command_ok dest!: set_updateE)
next
  case (Supervisor transition)
  then show ?thesis using assms(3)
    by (auto simp: inv_strip_def supervisor_step_def runtime_ops default_command_ok split: supervisor.splits progress_transition.splits)
next
  case FailOff
  then show ?thesis using assms(3)
    by (auto simp: inv_strip_def fail_off_step_def runtime_ops default_command_ok split: fail_off_task.splits)
next
  case (Restart expired)
  then show ?thesis using assms(3)
    by (auto simp: inv_strip_def restart_step_def runtime_ops default_command_ok split: restart_task.splits)
next
  case (Worker now)
  show ?thesis
  proof (cases "rt_worker w")
    case (WorkerApplying cmd e)
    obtain k s where r: "rt_renderer w = (k, s)" by (cases "rt_renderer w")
    let ?ev = "case cmd of Some c \<Rightarrow> Apply c now e | None \<Rightarrow> Tick now"
    obtain ok k' s' where ev: "renderer_event sink ?ev (k, s) = (ok, k', s')" by (metis prod_cases3)
    have "event_ok ?ev" using assms(3) WorkerApplying by (cases cmd) (auto simp: inv_strip_def event_ok_def)
    then have "controller_inv k' \<and> strip_agrees buf shown (k', s')"
      using event_agrees [OF assms(1) _ _ _ ev] assms(3) r by (simp add: inv_strip_def)
    moreover have "rt_renderer w' = (k', s')"
      using Worker WorkerApplying r ev by (cases cmd) (simp_all add: worker_step_def renderer_event_def)
    ultimately show ?thesis using Worker WorkerApplying assms(3) by (simp add: inv_strip_def worker_step_def)
  qed (use Worker assms(3) in \<open>auto simp: inv_strip_def worker_step_def mailbox_take_def invalidate_transients_def split: option.splits\<close>)
qed

definition runtime_inv :: "('s \<Rightarrow> pixel_frame) \<Rightarrow> ('s \<Rightarrow> pixel_frame) \<Rightarrow> 's runtime \<Rightarrow> bool" where
  "runtime_inv buf shown w \<longleftrightarrow> inv_count w \<and> inv_shut w \<and> inv_drained w \<and> inv_gate w \<and> inv_black w \<and> inv_flag w \<and> inv_strip buf shown w"

lemma runtime_inv_step:
  "sink_contract sink buf shown \<Longrightarrow> runtime_step sink w w' \<Longrightarrow> runtime_inv buf shown w \<Longrightarrow> runtime_inv buf shown w'"
  unfolding runtime_inv_def
  by (meson count_step shut_step drained_step gate_step black_step flag_step strip_step)

lemma runtime_inv_started:
  assumes "n < 4294967296" and "controller_inv (fst cs)" and "strip_agrees buf shown cs"
  shows "runtime_inv buf shown (runtime_started n cs)"
  using assms
  by (auto simp: runtime_inv_def runtime_started_def inv_count_def inv_shut_def inv_drained_def inv_gate_def inv_black_def
      inv_flag_def inv_strip_def restart_drained_def restart_queued_def restart_saw_empty_def publisher_ok_def)

lemma runtime_reachable_inv:
  assumes "runtime_reachable sink n cs w" and "sink_contract sink buf shown" and "n < 4294967296"
    and "controller_inv (fst cs)" and "strip_agrees buf shown cs"
  shows "runtime_inv buf shown w"
  using assms(1)
proof induction
  case Started
  show ?case by (rule runtime_inv_started [OF assms(3-5)])
next
  case (Step w w')
  then show ?case using runtime_inv_step [OF assms(2)] by blast
qed

section \<open>Properties\<close>

text \<open>
  C17: Under every interleaving of publishers, supervisor, explicit fail-off, restart and worker, while the gate
  is closed or shut and no close still owes its own black, a lit command can be ahead of the strip only under
  a publisher that will write black behind it: once no publisher is inside a publish, the command in force
  (waiting, in the worker's hand, or the renderer's) is not actionable, so a stalled strip goes dark and no
  racing publisher leaves it lit.
\<close>

theorem closed_gate_goes_dark:
  assumes "runtime_reachable (led_strip_write drv) n cs w" and "booted (led_strip_write drv) px t1 t2 d cs"
    and "driver_contract drv buf shown" and "n < 4294967296" and "rt_gate w \<noteq> Open" and "\<not> black_due w"
  shows "(\<forall>p \<in> set (rt_publishers w). \<not> owes_black p) \<longrightarrow> \<not> lc_actionable (in_force w)"
proof -
  note ct = led_strip_sink_contract [OF assms(3)]
  have "runtime_inv buf shown w"
    using runtime_reachable_inv [OF assms(1) ct assms(4)] booted_agrees [OF ct assms(2)] by blast
  then show ?thesis using assms(5,6) by (auto simp: runtime_inv_def inv_gate_def lit_def)
qed

lemma reach_tasks:
  assumes "runtime_reachable sink n cs w"
  shows "runtime_reachable sink n cs (restart_step expired w)" "runtime_reachable sink n cs (worker_step sink now w)"
    "runtime_reachable sink n cs (supervisor_step transition w)"
  by (rule runtime_reachable.Step [OF assms], rule runtime_step.intros)+

theorem closed_gate_goes_dark_witness:
  "\<exists>cs. booted (led_strip_write ideal_driver) 100 1 2 ((\<lambda>_. amber), (\<lambda>_. amber)) cs \<and> (let w = supervisor_step NoTransition (supervisor_step NoTransition (supervisor_step Stalled
     (runtime_started 3 cs))) in rt_gate w = Closed \<and> \<not> lc_actionable (in_force w))"
proof -
  obtain cs where b: "booted (led_strip_write ideal_driver) 100 1 2 ((\<lambda>_. amber), (\<lambda>_. amber)) cs"
    using booted_ideal [of 100 1 2 "((\<lambda>_. amber), (\<lambda>_. amber))"] by (auto simp: default_led_count_def max_led_count_def)
  let ?w = "supervisor_step NoTransition (supervisor_step NoTransition (supervisor_step Stalled (runtime_started 3 cs)))"
  have r: "runtime_reachable (led_strip_write ideal_driver) 3 cs ?w"
    by (intro reach_tasks runtime_reachable.Started)
  have g: "rt_gate ?w = Closed \<and> \<not> black_due ?w \<and> (\<forall>p \<in> set (rt_publishers ?w). \<not> owes_black p)"
    by (simp add: supervisor_step_def runtime_started_def runtime_ops black_due_def owes_black_def numeral_3_eq_3)
  have "\<not> lc_actionable (in_force ?w)" using closed_gate_goes_dark [OF r b ideal_contract] g by simp
  then show ?thesis using g b unfolding Let_def by blast
qed

text \<open>
  C5: \<open>fail_off_for_restart\<close> returns true only when the strip shows black on every pixel, and from then on,
  whatever the publishers, the supervisor's resumes, the worker and the LED driver do, it stays black: the
  gate is shut for good and only black can reach the renderer.
\<close>

theorem restart_fail_off_is_final:
  assumes "runtime_reachable (led_strip_write drv) n cs w" and "booted (led_strip_write drv) px t1 t2 d cs"
    and "driver_contract drv buf shown" and "n < 4294967296" and "rt_restart w = RestartTrue"
  shows "shown (snd (rt_renderer w)) = black_frame \<and> rt_gate w = Shut \<and> \<not> lc_actionable (in_force w)"
proof -
  note ct = led_strip_sink_contract [OF assms(3)]
  have inv: "runtime_inv buf shown w"
    using runtime_reachable_inv [OF assms(1) ct assms(4)] booted_agrees [OF ct assms(2)] by blast
  then have "black_written (fst (rt_renderer w))" using assms(5) by (simp add: runtime_inv_def inv_flag_def)
  moreover have "strip_agrees buf shown (rt_renderer w)" using inv by (simp add: runtime_inv_def inv_strip_def)
  ultimately have "shown (snd (rt_renderer w)) = black_frame"
    by (cases "rt_renderer w") (simp add: strip_agrees_def strip_view_def black_written_def)
  moreover have "rt_gate w = Shut" using inv assms(5) by (simp add: runtime_inv_def inv_shut_def)
  moreover have "\<not> lit (in_force w)"
    using inv assms(5) by (simp add: runtime_inv_def inv_black_def restart_queued_def restart_drained_def)
  ultimately show ?thesis by (simp add: lit_def)
qed

lemma few_steps:
  "(f ^^ 3) x = f (f (f x))" "(f ^^ 5) x = f (f (f (f (f x))))" "(f ^^ 6) x = f (f (f (f (f (f x)))))"
  by (simp_all add: eval_nat_numeral)

theorem restart_fail_off_is_final_witness:
  "\<exists>cs. let w = (restart_step False ^^ 3) ((worker_step (led_strip_write ideal_driver) 5 ^^ 6) ((restart_step False ^^ 5)
     (runtime_started 1 cs))) in
   rt_restart w = RestartTrue \<and> pixels_of (snd (snd (rt_renderer w))) = black_frame"
proof -
  let ?sink = "led_strip_write ideal_driver"
  obtain k s where bt: "booted ?sink 100 1 2 ((\<lambda>_. amber), (\<lambda>_. amber)) (k, s)" and "black_written k"
    using booted_ideal [of 100 1 2 "((\<lambda>_. amber), (\<lambda>_. amber))"] by (auto simp: default_led_count_def max_led_count_def)
  let ?w = "(restart_step False ^^ 3) ((worker_step ?sink 5 ^^ 6) ((restart_step False ^^ 5) (runtime_started 1 (k, s))))"
  have r: "runtime_reachable ?sink 1 (k, s) ?w"
    unfolding few_steps by (intro reach_tasks runtime_reachable.Started)
  have b: "black_written (fst (snd (controller_apply ?sink default_command 5 e (k, s))))" for e
    by (rule apply_keeps_black [OF \<open>black_written k\<close>]) simp
  let ?begun = "runtime_started 1 (k, s)"
  let ?queued = "?begun\<lparr>rt_gate := Shut, rt_epoch := 1, rt_queue := Some default_command, rt_restart := RestartQueued 0\<rparr>"
  have queued: "(restart_step False ^^ 5) ?begun = ?queued"
    unfolding few_steps by (simp add: restart_step_def runtime_started_def runtime_ops)
  define w2 where "w2 = (worker_step ?sink 5 ^^ 6) ?queued"
  have w2: "rt_restart w2 = RestartQueued 0 \<and> rt_passes w2 = 1 \<and> rt_queue w2 = None \<and> rt_worker_black w2"
    unfolding w2_def few_steps by (simp add: worker_step_def runtime_started_def runtime_ops b)
  have "rt_restart ((restart_step False ^^ 3) w2) = RestartTrue"
    using w2 unfolding few_steps by (simp add: restart_step_def)
  then have "rt_restart ?w = RestartTrue" by (simp only: queued w2_def)
  then have "pixels_of (snd (snd (rt_renderer ?w))) = black_frame"
    using restart_fail_off_is_final [OF r bt ideal_contract] by simp
  then show ?thesis using \<open>rt_restart ?w = RestartTrue\<close> unfolding Let_def by blast
qed

end
