(* ===== verification/Persisted_Config.thy ===== *)
theory Persisted_Config
  imports Led_Bindings
begin

text \<open>
  The persisted controller configuration, version 1: the model
  (\<open>components/controller_config/include/controller_config/persisted/model.hpp\<close>), the spellings of its
  enumerators (\<open>src/persisted/names.cpp\<close>) and its validation (\<open>src/persisted/validation.cpp\<close>). A persisted
  integer is a 64-bit signed value; the code only compares it, and its one subtraction follows the checks
  that keep it in range, so it is an integer here. The limits the build generates from
  \<open>components/local_argb_actions/output_catalog.yaml\<close> are a parameter.
\<close>

section \<open>The model\<close>

datatype p_operand = PBoolean bool | PNumber f32 | PChoice string

record p_condition =
  pc_key :: string
  pc_comparison :: comparison
  pc_operand :: p_operand

record p_state_rule =
  psr_action :: string
  psr_condition :: p_condition
  psr_freshness :: freshness_requirement

record p_sampled_rule =
  pss_action :: string
  pss_condition :: p_condition
  pss_freshness :: freshness_requirement
  pss_release :: "f32 option"

record p_event_rule =
  per_action :: string
  per_condition :: p_condition
  per_edge :: event_edge
  per_freshness :: freshness_requirement

record p_range_rule =
  prr_action :: string
  prr_key :: string
  prr_input :: numeric_range
  prr_output :: numeric_range
  prr_freshness :: freshness_requirement

datatype p_rule = PersistedState p_state_rule | PersistedSampled p_sampled_rule | PersistedEvent p_event_rule
  | PersistedRange p_range_rule

datatype rule_type = StateType | SampledStateType | EventType | RangeType

fun rule_type_of :: "p_rule \<Rightarrow> rule_type" where
  "rule_type_of (PersistedState r) = StateType"
| "rule_type_of (PersistedSampled r) = SampledStateType"
| "rule_type_of (PersistedEvent r) = EventType"
| "rule_type_of (PersistedRange r) = RangeType"

record p_zone =
  pz_start :: int
  pz_length :: int
  pz_direction :: fill_direction

record p_rgb =
  pr_red :: int
  pr_green :: int
  pr_blue :: int

record p_effect_binding =
  peb_action :: string
  peb_effect :: led_effect
  peb_priority :: int

record p_zone_binding =
  pzb_action :: string
  pzb_zone :: p_zone
  pzb_color :: p_rgb
  pzb_priority :: int

record p_transient_binding = p_zone_binding +
  ptb_duration_ms :: int

text \<open>\<open>LedFillBinding\<close> and \<open>LedSolidBinding\<close> have the same members.\<close>

datatype p_output = LedEffectOutput p_effect_binding | LedFillOutput p_zone_binding
  | LedTransientOutput p_transient_binding | LedSolidOutput p_zone_binding

datatype output_type = LedEffectType | LedFillType | LedTransientType | LedSolidType

fun output_type_of :: "p_output \<Rightarrow> output_type" where
  "output_type_of (LedEffectOutput b) = LedEffectType"
| "output_type_of (LedFillOutput b) = LedFillType"
| "output_type_of (LedTransientOutput b) = LedTransientType"
| "output_type_of (LedSolidOutput b) = LedSolidType"

record controller_config =
  cc_version :: int
  cc_pixel_count :: int
  cc_actions :: "string list"
  cc_rules :: "p_rule list"
  cc_outputs :: "p_output list"

definition schema_version :: int where
  "schema_version = 1"

section \<open>Spellings\<close>

definition rule_type_names :: "(rule_type \<times> string) list" where
  "rule_type_names = [(StateType, ''state''), (SampledStateType, ''sampled_state''), (EventType, ''event''), (RangeType, ''range'')]"

definition output_type_names :: "(output_type \<times> string) list" where
  "output_type_names = [(LedEffectType, ''led_effect''), (LedFillType, ''led_fill''), (LedTransientType, ''led_transient''),
     (LedSolidType, ''led_solid'')]"

definition comparison_names :: "(comparison \<times> string) list" where
  "comparison_names = [(CmpEqual, ''equal''), (CmpNotEqual, ''not_equal''), (CmpLess, ''less''), (CmpLessOrEqual, ''less_or_equal''),
     (CmpGreater, ''greater''), (CmpGreaterOrEqual, ''greater_or_equal'')]"

definition freshness_names :: "(freshness_requirement \<times> string) list" where
  "freshness_names = [(ReqFresh, ''fresh''), (ReqFreshOrUnverified, ''fresh_or_unverified'')]"

definition edge_names :: "(event_edge \<times> string) list" where
  "edge_names = [(BecomesTrue, ''becomes_true''), (BecomesFalse, ''becomes_false'')]"

definition effect_names :: "(led_effect \<times> string) list" where
  "effect_names = [(LeftTurn, ''left_turn''), (RightTurn, ''right_turn''), (Brake, ''brake'')]"

definition direction_names :: "(fill_direction \<times> string) list" where
  "direction_names = [(StartToEnd, ''start_to_end''), (EndToStart, ''end_to_start''), (CenterOut, ''center_out'')]"

definition name_of :: "('e \<times> string) list \<Rightarrow> 'e \<Rightarrow> string option" where
  "name_of table value = map_option snd (find (\<lambda>(entry, name). entry = value) table)"

definition parse_name :: "('e \<times> string) list \<Rightarrow> string \<Rightarrow> 'e option" where
  "parse_name table name = map_option fst (find (\<lambda>(value, entry). entry = name) table)"

section \<open>Validation\<close>

datatype validation_error = VNone | VInvalidPixelCount | VUnsupportedVersion | VEmptyActionName | VDuplicateActionName
  | VUndeclaredAction | VDuplicateAction | VEmptySignalKey | VUnknownComparison | VUnknownFreshness | VUnknownEventEdge
  | VEmptyChoice | VInvalidOperand | VUnsupportedComparison | VInvalidHysteresis | VInvalidRange | VUnknownLedEffect
  | VUnknownFillDirection | VEmptyZone | VZoneOutOfRange | VInvalidColor | VInvalidPriority | VDuplicateBinding
  | VInvalidDuration | VIncompatibleActionKind

datatype config_section = SecDocument | SecActions | SecRules | SecOutputs | SecSinks

record validation_result =
  vr_error :: validation_error
  vr_section :: config_section
  vr_index :: nat

definition valid_result :: validation_result where
  "valid_result = \<lparr>vr_error = VNone, vr_section = SecDocument, vr_index = 0\<rparr>"

definition vr_ok :: "validation_result \<Rightarrow> bool" where
  "vr_ok r = (vr_error r = VNone)"

text \<open>The generated limits of one output type, and of the document.\<close>

record output_limits =
  ol_pixels :: int
  ol_color_min :: int
  ol_color_max :: int
  ol_priority_min :: int
  ol_priority_max :: int

record catalog_limits =
  cl_effect_priority_min :: int
  cl_effect_priority_max :: int
  cl_fill :: output_limits
  cl_transient :: output_limits
  cl_solid :: output_limits
  cl_duration_min :: int
  cl_duration_max :: int
  cl_pixel_count_min :: int
  cl_pixel_count_max :: int

definition in_range :: "int \<Rightarrow> int \<Rightarrow> int \<Rightarrow> bool" where
  "in_range value minimum maximum = (minimum \<le> value \<and> value \<le> maximum)"

definition is_declared :: "string list \<Rightarrow> string \<Rightarrow> bool" where
  "is_declared actions name = list_ex (\<lambda>a. a = name) actions"

definition action_error :: "string list \<Rightarrow> nat \<Rightarrow> validation_error" where
  "action_error actions index = (let name = actions ! index in
     if name = [] then VEmptyActionName
     else if list_ex (\<lambda>earlier. actions ! earlier = name) [0..<index] then VDuplicateActionName
     else VNone)"

definition p_is_ordered :: "comparison \<Rightarrow> bool" where
  "p_is_ordered c = (c = CmpLess \<or> c = CmpLessOrEqual \<or> c = CmpGreater \<or> c = CmpGreaterOrEqual)"

fun operand_error :: "p_operand \<Rightarrow> validation_error" where
  "operand_error (PChoice key) = (if key = [] then VEmptyChoice else VNone)"
| "operand_error (PNumber x) = (if f32_isfinite x then VNone else VInvalidOperand)"
| "operand_error (PBoolean b) = VNone"

fun operand_is_number :: "p_operand \<Rightarrow> bool" where
  "operand_is_number (PNumber x) = True"
| "operand_is_number _ = False"

definition condition_error :: "p_condition \<Rightarrow> validation_error" where
  "condition_error c = (if pc_key c = [] then VEmptySignalKey
     else if name_of comparison_names (pc_comparison c) = None then VUnknownComparison
     else if operand_error (pc_operand c) \<noteq> VNone then operand_error (pc_operand c)
     else if p_is_ordered (pc_comparison c) \<and> \<not> operand_is_number (pc_operand c) then VUnsupportedComparison
     else VNone)"

definition is_valid_release :: "p_condition \<Rightarrow> f32 \<Rightarrow> bool" where
  "is_valid_release c release = (case pc_operand c of
     PNumber activation \<Rightarrow> if \<not> f32_isfinite release then False
       else (case pc_comparison c of CmpGreater \<Rightarrow> f32_lt release activation | CmpGreaterOrEqual \<Rightarrow> f32_lt release activation
         | CmpLess \<Rightarrow> f32_lt activation release | CmpLessOrEqual \<Rightarrow> f32_lt activation release
         | CmpEqual \<Rightarrow> False | CmpNotEqual \<Rightarrow> False)
   | _ \<Rightarrow> False)"

definition is_finite_range :: "numeric_range \<Rightarrow> bool" where
  "is_finite_range r = (f32_isfinite (nr_from r) \<and> f32_isfinite (nr_to r) \<and> f32_isfinite (f32_sub (nr_to r) (nr_from r)))"

definition freshness_error :: "freshness_requirement \<Rightarrow> validation_error" where
  "freshness_error f = (if name_of freshness_names f \<noteq> None then VNone else VUnknownFreshness)"

fun rule_body_error :: "p_rule \<Rightarrow> validation_error" where
  "rule_body_error (PersistedState r) = (if condition_error (psr_condition r) \<noteq> VNone then condition_error (psr_condition r)
     else freshness_error (psr_freshness r))"
| "rule_body_error (PersistedSampled r) = (if condition_error (pss_condition r) \<noteq> VNone then condition_error (pss_condition r)
     else if freshness_error (pss_freshness r) \<noteq> VNone then freshness_error (pss_freshness r)
     else (case pss_release r of None \<Rightarrow> VNone
       | Some t \<Rightarrow> if is_valid_release (pss_condition r) t then VNone else VInvalidHysteresis))"
| "rule_body_error (PersistedEvent r) = (if condition_error (per_condition r) \<noteq> VNone then condition_error (per_condition r)
     else if name_of edge_names (per_edge r) = None then VUnknownEventEdge
     else freshness_error (per_freshness r))"
| "rule_body_error (PersistedRange r) = (if prr_key r = [] then VEmptySignalKey
     else if freshness_error (prr_freshness r) \<noteq> VNone then freshness_error (prr_freshness r)
     else if \<not> is_finite_range (prr_input r) \<or> \<not> is_finite_range (prr_output r) \<or> \<not> f32_lt (nr_from (prr_input r)) (nr_to (prr_input r))
       then VInvalidRange
     else VNone)"

fun action_of :: "p_rule \<Rightarrow> string" where
  "action_of (PersistedState r) = psr_action r"
| "action_of (PersistedSampled r) = pss_action r"
| "action_of (PersistedEvent r) = per_action r"
| "action_of (PersistedRange r) = prr_action r"

definition is_level :: "p_rule \<Rightarrow> bool" where
  "is_level r = (rule_type_of r \<noteq> EventType)"

definition has_earlier_level_rule :: "p_rule list \<Rightarrow> nat \<Rightarrow> bool" where
  "has_earlier_level_rule rules index =
     list_ex (\<lambda>earlier. is_level (rules ! earlier) \<and> action_of (rules ! earlier) = action_of (rules ! index)) [0..<index]"

definition rule_error :: "controller_config \<Rightarrow> nat \<Rightarrow> validation_error" where
  "rule_error config index = (let rule = cc_rules config ! index in
     if \<not> is_declared (cc_actions config) (action_of rule) then VUndeclaredAction
     else if rule_body_error rule \<noteq> VNone then rule_body_error rule
     else if is_level rule \<and> has_earlier_level_rule (cc_rules config) index then VDuplicateAction
     else VNone)"

definition zone_error :: "p_zone \<Rightarrow> int \<Rightarrow> validation_error" where
  "zone_error z pixels = (if name_of direction_names (pz_direction z) = None then VUnknownFillDirection
     else if pz_length z = 0 then VEmptyZone
     else if pz_start z < 0 \<or> pz_length z < 0 \<or> pixels \<le> pz_start z \<or> pixels - pz_start z < pz_length z then VZoneOutOfRange
     else VNone)"

definition zone_binding_error :: "output_limits \<Rightarrow> 'a p_zone_binding_scheme \<Rightarrow> validation_error" where
  "zone_binding_error limits b = (if zone_error (pzb_zone b) (ol_pixels limits) \<noteq> VNone then zone_error (pzb_zone b) (ol_pixels limits)
     else if \<not> in_range (pr_red (pzb_color b)) (ol_color_min limits) (ol_color_max limits)
       \<or> \<not> in_range (pr_green (pzb_color b)) (ol_color_min limits) (ol_color_max limits)
       \<or> \<not> in_range (pr_blue (pzb_color b)) (ol_color_min limits) (ol_color_max limits) then VInvalidColor
     else if \<not> in_range (pzb_priority b) (ol_priority_min limits) (ol_priority_max limits) then VInvalidPriority
     else VNone)"

fun output_body_error :: "catalog_limits \<Rightarrow> p_output \<Rightarrow> validation_error" where
  "output_body_error lim (LedEffectOutput b) = (if name_of effect_names (peb_effect b) = None then VUnknownLedEffect
     else if \<not> in_range (peb_priority b) (cl_effect_priority_min lim) (cl_effect_priority_max lim) then VInvalidPriority
     else VNone)"
| "output_body_error lim (LedFillOutput b) = zone_binding_error (cl_fill lim) b"
| "output_body_error lim (LedTransientOutput b) = (if zone_binding_error (cl_transient lim) b \<noteq> VNone then zone_binding_error (cl_transient lim) b
     else if \<not> in_range (ptb_duration_ms b) (cl_duration_min lim) (cl_duration_max lim) then VInvalidDuration
     else VNone)"
| "output_body_error lim (LedSolidOutput b) = zone_binding_error (cl_solid lim) b"

definition drives_state_only :: "p_rule list \<Rightarrow> string \<Rightarrow> bool" where
  "drives_state_only rules action = list_all (\<lambda>r. \<not> (action_of r = action \<and> (rule_type_of r = RangeType \<or> rule_type_of r = EventType))) rules"

fun action_kind_error :: "p_rule list \<Rightarrow> p_output \<Rightarrow> validation_error" where
  "action_kind_error rules (LedSolidOutput b) = (if drives_state_only rules (pzb_action b) then VNone else VIncompatibleActionKind)"
| "action_kind_error rules _ = VNone"

definition same_zone :: "p_zone \<Rightarrow> p_zone \<Rightarrow> bool" where
  "same_zone l r = (pz_start l = pz_start r \<and> pz_length l = pz_length r)"

definition same_fill_zone :: "p_zone \<Rightarrow> p_zone \<Rightarrow> bool" where
  "same_fill_zone l r = (same_zone l r \<and> pz_direction l = pz_direction r)"

fun same_target :: "p_output \<Rightarrow> p_output \<Rightarrow> bool" where
  "same_target (LedEffectOutput l) (LedEffectOutput r) = (peb_action l = peb_action r \<and> peb_effect l = peb_effect r)"
| "same_target (LedTransientOutput l) (LedTransientOutput r) = (pzb_action l = pzb_action r \<and> same_zone (pzb_zone l) (pzb_zone r))"
| "same_target (LedSolidOutput l) (LedSolidOutput r) = (pzb_action l = pzb_action r \<and> same_zone (pzb_zone l) (pzb_zone r))"
| "same_target (LedFillOutput l) (LedFillOutput r) = (pzb_action l = pzb_action r \<and> same_fill_zone (pzb_zone l) (pzb_zone r))"
| "same_target (LedFillOutput l) (LedSolidOutput r) = (pzb_action l = pzb_action r \<and> same_fill_zone (pzb_zone l) (pzb_zone r))"
| "same_target (LedSolidOutput l) (LedFillOutput r) = (pzb_action r = pzb_action l \<and> same_fill_zone (pzb_zone r) (pzb_zone l))"
| "same_target _ _ = False"

definition has_earlier_binding :: "p_output list \<Rightarrow> nat \<Rightarrow> bool" where
  "has_earlier_binding outputs index = list_ex (\<lambda>earlier. same_target (outputs ! earlier) (outputs ! index)) [0..<index]"

fun output_action :: "p_output \<Rightarrow> string" where
  "output_action (LedEffectOutput b) = peb_action b"
| "output_action (LedFillOutput b) = pzb_action b"
| "output_action (LedTransientOutput b) = pzb_action b"
| "output_action (LedSolidOutput b) = pzb_action b"

fun output_zone :: "p_output \<Rightarrow> p_zone option" where
  "output_zone (LedEffectOutput b) = None"
| "output_zone (LedFillOutput b) = Some (pzb_zone b)"
| "output_zone (LedTransientOutput b) = Some (pzb_zone b)"
| "output_zone (LedSolidOutput b) = Some (pzb_zone b)"

definition output_error :: "catalog_limits \<Rightarrow> controller_config \<Rightarrow> nat \<Rightarrow> validation_error" where
  "output_error lim config index = (let b = cc_outputs config ! index;
       strip_error = (case output_zone b of None \<Rightarrow> VNone | Some z \<Rightarrow> zone_error z (cc_pixel_count config)) in
     if \<not> is_declared (cc_actions config) (output_action b) then VUndeclaredAction
     else if output_body_error lim b \<noteq> VNone then output_body_error lim b
     else if action_kind_error (cc_rules config) b \<noteq> VNone then action_kind_error (cc_rules config) b
     else if strip_error \<noteq> VNone then strip_error
     else if has_earlier_binding (cc_outputs config) index then VDuplicateBinding
     else VNone)"

fun first_error_from :: "nat \<Rightarrow> nat \<Rightarrow> config_section \<Rightarrow> (nat \<Rightarrow> validation_error) \<Rightarrow> validation_result" where
  "first_error_from 0 index section entry_error = valid_result"
| "first_error_from (Suc left) index section entry_error = (if entry_error index \<noteq> VNone
     then \<lparr>vr_error = entry_error index, vr_section = section, vr_index = index\<rparr>
     else first_error_from left (Suc index) section entry_error)"

definition first_error :: "'a list \<Rightarrow> config_section \<Rightarrow> (nat \<Rightarrow> validation_error) \<Rightarrow> validation_result" where
  "first_error entries section entry_error = first_error_from (length entries) 0 section entry_error"

definition validate_config :: "catalog_limits \<Rightarrow> controller_config \<Rightarrow> validation_result" where
  "validate_config lim config = (if \<not> in_range (cc_pixel_count config) (cl_pixel_count_min lim) (cl_pixel_count_max lim)
       then \<lparr>vr_error = VInvalidPixelCount, vr_section = SecSinks, vr_index = 0\<rparr>
     else if cc_version config \<noteq> schema_version then \<lparr>vr_error = VUnsupportedVersion, vr_section = SecDocument, vr_index = 0\<rparr>
     else let actions = first_error (cc_actions config) SecActions (action_error (cc_actions config)) in
       if \<not> vr_ok actions then actions
     else let rules = first_error (cc_rules config) SecRules (rule_error config) in
       if \<not> vr_ok rules then rules
     else first_error (cc_outputs config) SecOutputs (output_error lim config))"

end
