(* ===== verification/Persisted_Apply.thy ===== *)
theory Persisted_Apply
  imports Persisted_Config Engine
begin

text \<open>
  Applying a persisted configuration to the LED adapter and the action engine
  (\<open>components/controller_config/src/persisted/application.cpp\<close>): action IDs from document order, output
  bindings, the sink, the rules, and the fall back from a failed override to the factory configuration. The
  engine's catalog and the identity of the adapter among the engine's sinks are parameters, and so is the
  JSON parser of the factory document.
\<close>

datatype apply_stage = StageComplete | StageValidation | StageActionId | StageOutputBinding | StageSinkRegistration | StageRule

record apply_status =
  as_stage :: apply_stage
  as_validation :: validation_result
  as_index :: nat
  as_outputs_applied :: nat
  as_rules_applied :: nat
  as_sink_registered :: bool
  as_binding :: binding_status
  as_engine :: config_status

definition new_apply_status :: apply_status where
  "new_apply_status = \<lparr>as_stage = StageComplete, as_validation = valid_result, as_index = 0, as_outputs_applied = 0,
     as_rules_applied = 0, as_sink_registered = False, as_binding = BindOk, as_engine = CfgOk\<rparr>"

definition apply_ok :: "apply_status \<Rightarrow> bool" where
  "apply_ok s = (as_stage s = StageComplete)"

fun index_of :: "string list \<Rightarrow> string \<Rightarrow> nat \<Rightarrow> nat option" where
  "index_of [] name index = None"
| "index_of (a # as) name index = (if a = name then Some index else index_of as name (Suc index))"

definition action_id_of :: "string list \<Rightarrow> string \<Rightarrow> action_id option" where
  "action_id_of actions name = map_option (\<lambda>index. ActionId (of_nat (index + 1))) (index_of actions name 0)"

fun operand_of :: "p_operand \<Rightarrow> rule_operand" where
  "operand_of (PBoolean b) = OBoolean b"
| "operand_of (PNumber x) = ONumber x"
| "operand_of (PChoice key) = OChoice key"

definition condition_of :: "p_condition \<Rightarrow> signal_condition" where
  "condition_of c = \<lparr>sc_key = pc_key c, sc_comparison = pc_comparison c, sc_operand = operand_of (pc_operand c)\<rparr>"

text \<open>The casts to \<open>size_t\<close> and to a byte, with their wrap-around.\<close>

definition to_size :: "int \<Rightarrow> nat" where
  "to_size x = nat (x mod 2 ^ 64)"

definition zone_of :: "p_zone \<Rightarrow> led_zone" where
  "zone_of z = \<lparr>lz_start = to_size (pz_start z), lz_length = to_size (pz_length z), lz_direction = pz_direction z\<rparr>"

definition color_of :: "p_rgb \<Rightarrow> lighting_rgb" where
  "color_of c = \<lparr>red = of_int (pr_red c), green = of_int (pr_green c), blue = of_int (pr_blue c)\<rparr>"

definition priority_of :: "int \<Rightarrow> priority" where
  "priority_of x = of_int x"

definition fill_effect_of :: "'a p_zone_binding_scheme \<Rightarrow> fill_effect" where
  "fill_effect_of b = \<lparr>fe_zone = zone_of (pzb_zone b), fe_color = color_of (pzb_color b), fe_priority = priority_of (pzb_priority b)\<rparr>"

definition transient_of :: "p_transient_binding \<Rightarrow> lighting_transient" where
  "transient_of b = \<lparr>lt_zone = zone_of (pzb_zone b), lt_color = color_of (pzb_color b), lt_priority = priority_of (pzb_priority b),
     lt_duration = of_int (ptb_duration_ms b) * 1000\<rparr>"

definition bind_output :: "p_output \<Rightarrow> controller_config \<Rightarrow> led_actions \<Rightarrow> binding_status \<times> led_actions" where
  "bind_output out config leds = (case action_id_of (cc_actions config) (output_action out) of
     None \<Rightarrow> (InvalidBindingAction, leds)
   | Some a \<Rightarrow> (case out of
       LedEffectOutput b \<Rightarrow> (let (st, bs) = effects_bind a (peb_effect b) (priority_of (peb_priority b)) (la_effects leds)
         in (st, leds\<lparr>la_effects := bs\<rparr>))
     | LedFillOutput b \<Rightarrow> (let (st, bs) = fills_bind a (fill_effect_of b) (la_fills leds) in (st, leds\<lparr>la_fills := bs\<rparr>))
     | LedSolidOutput b \<Rightarrow> (let (st, bs) = fills_bind a (fill_effect_of b) (la_fills leds) in (st, leds\<lparr>la_fills := bs\<rparr>))
     | LedTransientOutput b \<Rightarrow> (let (st, bs) = transients_bind a (transient_of b) (to_size (cc_pixel_count config)) (la_transients leds)
         in (st, leds\<lparr>la_transients := bs\<rparr>))))"

definition add_rule :: "catalog \<Rightarrow> p_rule \<Rightarrow> controller_config \<Rightarrow> engine \<Rightarrow> config_status \<times> engine" where
  "add_rule cat rule config e = (case action_id_of (cc_actions config) (action_of rule) of
     None \<Rightarrow> (CfgInvalidAction, e)
   | Some a \<Rightarrow> (case rule of
       PersistedState r \<Rightarrow> add_state_rule cat e
         \<lparr>src_condition = condition_of (psr_condition r), src_action = a, src_freshness = psr_freshness r\<rparr>
     | PersistedSampled r \<Rightarrow> add_sampled_state_rule cat e
         \<lparr>ssc_condition = condition_of (pss_condition r), ssc_action = a, ssc_freshness = pss_freshness r,
          ssc_release_threshold = pss_release r\<rparr>
     | PersistedEvent r \<Rightarrow> add_event_rule cat e
         \<lparr>erc_condition = condition_of (per_condition r), erc_edge = per_edge r, erc_action = a, erc_freshness = per_freshness r\<rparr>
     | PersistedRange r \<Rightarrow> add_range_rule cat e
         \<lparr>rrc_key = prr_key r, rrc_input = prr_input r, rrc_output = prr_output r, rrc_action = a, rrc_freshness = prr_freshness r\<rparr>))"

fun apply_outputs :: "p_output list \<Rightarrow> nat \<Rightarrow> controller_config \<Rightarrow> apply_status \<Rightarrow> led_actions \<Rightarrow> apply_status \<times> led_actions" where
  "apply_outputs [] index config st leds = (st, leds)"
| "apply_outputs (out # outs) index config st leds = (let (b, leds1) = bind_output out config leds; st1 = st\<lparr>as_binding := b\<rparr> in
     if b \<noteq> BindOk then (st1\<lparr>as_stage := StageOutputBinding, as_index := index\<rparr>, leds1)
     else apply_outputs outs (Suc index) config (st1\<lparr>as_outputs_applied := as_outputs_applied st1 + 1\<rparr>) leds1)"

fun apply_rules :: "catalog \<Rightarrow> p_rule list \<Rightarrow> nat \<Rightarrow> controller_config \<Rightarrow> apply_status \<Rightarrow> engine \<Rightarrow> apply_status \<times> engine" where
  "apply_rules cat [] index config st e = (st, e)"
| "apply_rules cat (rule # rules) index config st e = (let (s, e1) = add_rule cat rule config e; st1 = st\<lparr>as_engine := s\<rparr> in
     if s \<noteq> CfgOk then (st1\<lparr>as_stage := StageRule, as_index := index\<rparr>, e1)
     else apply_rules cat rules (Suc index) config (st1\<lparr>as_rules_applied := as_rules_applied st1 + 1\<rparr>) e1)"

definition apply_controller_config ::
  "catalog_limits \<Rightarrow> catalog \<Rightarrow> nat \<Rightarrow> controller_config \<Rightarrow> led_actions \<Rightarrow> engine \<Rightarrow> apply_status \<times> led_actions \<times> engine" where
  "apply_controller_config lim cat sink config leds e = (let v = validate_config lim config;
       st = new_apply_status\<lparr>as_validation := v\<rparr> in
     if \<not> vr_ok v then (st\<lparr>as_stage := StageValidation, as_index := vr_index v\<rparr>, leds, e)
     else if 65535 < length (cc_actions config) then (st\<lparr>as_stage := StageActionId, as_index := 65535\<rparr>, leds, e)
     else let (st1, leds1) = apply_outputs (cc_outputs config) 0 config st leds in
       if as_stage st1 \<noteq> StageComplete then (st1, leds1, e)
     else let (s, e1) = add_sink e sink; st2 = st1\<lparr>as_engine := s\<rparr> in
       if s \<noteq> CfgOk then (st2\<lparr>as_stage := StageSinkRegistration\<rparr>, leds1, e1)
     else let (st3, e2) = apply_rules cat (cc_rules config) 0 config (st2\<lparr>as_sink_registered := True\<rparr>) e1 in
       (st3, leds1, e2))"

text \<open>The factory document's parse result: a model, or its diagnostic.\<close>

record 'd override_result =
  ov_override :: apply_status
  ov_factory :: apply_status
  ov_factory_diagnostic :: "'d option"

definition override_ok :: "'d override_result \<Rightarrow> bool" where
  "override_ok r = (if \<not> apply_ok (ov_override r) then apply_ok (ov_factory r) \<and> ov_factory_diagnostic r = None
     else apply_ok (ov_override r))"

definition apply_override_with_fallback ::
  "catalog_limits \<Rightarrow> catalog \<Rightarrow> nat \<Rightarrow> 'd + controller_config \<Rightarrow> controller_config \<Rightarrow> led_actions \<Rightarrow> engine
     \<Rightarrow> 'd override_result \<times> controller_config \<times> led_actions \<times> engine" where
  "apply_override_with_fallback lim cat sink factory config leds e = (let
       (st, leds1, e1) = apply_controller_config lim cat sink config leds e;
       result = \<lparr>ov_override = st, ov_factory = new_apply_status, ov_factory_diagnostic = None\<rparr> in
     if apply_ok st then (result, config, leds1, e1)
     else let leds2 = led_clear leds1; e2 = snd (clear e1) in
       (case factory of
          Inl diagnostic \<Rightarrow> (result\<lparr>ov_factory_diagnostic := Some diagnostic\<rparr>, config, leds2, e2)
        | Inr model \<Rightarrow> (let config1 = model\<lparr>cc_pixel_count := cc_pixel_count config\<rparr>;
            (st2, leds3, e3) = apply_controller_config lim cat sink config1 leds2 e2 in
          (result\<lparr>ov_factory := st2\<rparr>, config1,
           if apply_ok st2 then leds3 else led_clear leds3, if apply_ok st2 then e3 else snd (clear e3)))))"

end
