(* ===== verification/Persisted_Apply_Laws.thy ===== *)
theory Persisted_Apply_Laws
  imports Persisted_Apply Engine_Reach Led_Bindings_Laws
begin

text \<open>
  What validation is worth when a persisted configuration is applied: a document that validates is refused by
  the LED adapter and the engine only for reasons of the vehicle's catalog or of capacity, and a failed
  override leaves nothing of itself behind.
\<close>

section \<open>Spellings\<close>

lemma find_first_name:
  assumes "distinct (map snd table)" "(x, n) \<in> set table"
  shows "find (\<lambda>(value, entry). entry = n) table = Some (x, n)"
  using assms by (induction table) (auto split: if_splits, metis image_eqI snd_conv)

lemma name_of_some:
  "name_of table x = Some n \<Longrightarrow> (x, n) \<in> set table"
  by (induction table) (auto simp: name_of_def split: if_splits)

lemma parse_name_of:
  assumes "distinct (map snd table)" "name_of table x = Some n"
  shows "parse_name table n = Some x"
  using find_first_name [OF assms(1) name_of_some [OF assms(2)]] by (simp add: parse_name_def)

section \<open>Validation as conditions on the entries\<close>

lemma first_error_from_ok:
  "vr_ok (first_error_from n i s f) \<longleftrightarrow> (\<forall>k < n. f (i + k) = VNone)"
proof (induction n arbitrary: i)
  case 0
  show ?case by (simp add: vr_ok_def valid_result_def)
next
  case (Suc n)
  have "(\<forall>k < Suc n. f (i + k) = VNone) \<longleftrightarrow> f i = VNone \<and> (\<forall>k < n. f (Suc i + k) = VNone)"
    by (auto simp: less_Suc_eq_0_disj)
  then show ?case using Suc.IH [of "Suc i"] by (simp add: vr_ok_def)
qed

lemma first_error_ok: "vr_ok (first_error xs s f) \<longleftrightarrow> (\<forall>k < length xs. f k = VNone)"
  by (simp add: first_error_def first_error_from_ok)

lemma vr_ok_chain:
  "vr_ok (if \<not> vr_ok a then a else if \<not> vr_ok b then b else c) \<longleftrightarrow> vr_ok a \<and> vr_ok b \<and> vr_ok c"
  "e \<noteq> VNone \<Longrightarrow> vr_ok (if p then \<lparr>vr_error = e, vr_section = s, vr_index = i\<rparr> else a) \<longleftrightarrow> \<not> p \<and> vr_ok a"
  by (simp_all add: vr_ok_def)

lemma validate_config_ok:
  "vr_ok (validate_config lim c) \<longleftrightarrow> in_range (cc_pixel_count c) (cl_pixel_count_min lim) (cl_pixel_count_max lim) \<and>
     cc_version c = schema_version \<and> (\<forall>k < length (cc_actions c). action_error (cc_actions c) k = VNone) \<and>
     (\<forall>k < length (cc_rules c). rule_error c k = VNone) \<and> (\<forall>k < length (cc_outputs c). output_error lim c k = VNone)"
  unfolding validate_config_def Let_def by (subst vr_ok_chain, simp)+ (simp only: vr_ok_chain(1) first_error_ok not_not)

lemma list_ex_upt: "list_ex P [0..<n] \<longleftrightarrow> (\<exists>k < n. P k)"
  by (auto simp: list_ex_iff)

lemma ex_take: "k < length xs \<Longrightarrow> (\<exists>x \<in> set (take k xs). P x) \<longleftrightarrow> (\<exists>j < k. P (xs ! j))"
  by (auto simp: nth_image [symmetric])

lemma has_earlier_binding_iff:
  "k < length os \<Longrightarrow> has_earlier_binding os k \<longleftrightarrow> (\<exists>o' \<in> set (take k os). same_target o' (os ! k))"
  by (simp add: has_earlier_binding_def list_ex_upt ex_take)

lemma has_earlier_level_rule_iff:
  "k < length rs \<Longrightarrow> has_earlier_level_rule rs k \<longleftrightarrow> (\<exists>r \<in> set (take k rs). is_level r \<and> action_of r = action_of (rs ! k))"
  by (simp add: has_earlier_level_rule_def list_ex_upt ex_take)

section \<open>Action identifiers\<close>

lemma index_of_some: "index_of as n i = Some k \<Longrightarrow> i \<le> k \<and> k - i < length as \<and> as ! (k - i) = n"
  by (induction as arbitrary: i) (fastforce simp: nth_Cons' split: if_splits)+

lemma index_of_declared: "n \<in> set as \<Longrightarrow> index_of as n i \<noteq> None"
  by (induction as arbitrary: i) auto

lemma action_id_of_declared: "is_declared as n \<Longrightarrow> \<exists>a. action_id_of as n = Some a"
  using index_of_declared [of n as 0] by (auto simp: is_declared_def list_ex_iff action_id_of_def)

lemma small_u16: "k < 65535 \<Longrightarrow> unat (of_nat (k + 1) :: u16) = k + 1"
  by (simp only: unat_of_nat) (simp add: take_bit_nat_eq_self)

lemma action_id_of_valid:
  assumes "length as \<le> 65535" "action_id_of as n = Some a"
  shows "aid_valid a"
proof -
  from assms(2) obtain k where k: "index_of as n 0 = Some k" and a: "a = ActionId (of_nat (k + 1))"
    by (auto simp: action_id_of_def)
  have "k < 65535" using index_of_some [OF k] assms(1) by simp
  from small_u16 [OF this] have "(of_nat (k + 1) :: u16) \<noteq> 0" by (metis Suc_eq_plus1 nat.distinct(1) unat_0)
  then show ?thesis by (simp add: a aid_valid_def)
qed

lemma action_id_of_inj:
  assumes len: "length as \<le> 65535" and m: "action_id_of as m = Some a" and n: "action_id_of as n = Some a"
  shows "m = n"
proof -
  from m obtain k where k: "index_of as m 0 = Some k" and ak: "a = ActionId (of_nat (k + 1))"
    by (auto simp: action_id_of_def)
  from n obtain l where l: "index_of as n 0 = Some l" and al: "a = ActionId (of_nat (l + 1))"
    by (auto simp: action_id_of_def)
  have "k < 65535" "l < 65535" using index_of_some [OF k] index_of_some [OF l] len by simp_all
  with small_u16 ak al have "k = l" by (metis action_id.inject add_right_cancel)
  with index_of_some [OF k] index_of_some [OF l] show ?thesis by simp
qed

section \<open>Outputs\<close>

text \<open>
  What \<open>validation.cpp\<close> asserts of the generated limits, and the bounds \<open>output_catalog.yaml\<close> gives for the
  duration and the strip length.
\<close>

definition byte_limits :: "int \<Rightarrow> int \<Rightarrow> bool" where
  "byte_limits minimum maximum \<longleftrightarrow> 0 \<le> minimum \<and> minimum \<le> maximum \<and> maximum \<le> 255"

definition zone_limits_ok :: "output_limits \<Rightarrow> bool" where
  "zone_limits_ok l \<longleftrightarrow> ol_pixels l = int max_led_count \<and> byte_limits (ol_color_min l) (ol_color_max l) \<and>
     byte_limits (ol_priority_min l) (ol_priority_max l)"

definition limits_ok :: "catalog_limits \<Rightarrow> bool" where
  "limits_ok lim \<longleftrightarrow> byte_limits (cl_effect_priority_min lim) (cl_effect_priority_max lim) \<and> zone_limits_ok (cl_fill lim) \<and>
     zone_limits_ok (cl_transient lim) \<and> zone_limits_ok (cl_solid lim) \<and>
     1 \<le> cl_duration_min lim \<and> cl_duration_max lim * 1000 = uint max_transient_duration \<and>
     int default_led_count \<le> cl_pixel_count_min lim \<and> cl_pixel_count_max lim \<le> int max_led_count"

definition zone_inside :: "p_zone \<Rightarrow> int \<Rightarrow> bool" where
  "zone_inside z pixels \<longleftrightarrow> 0 \<le> pz_start z \<and> 0 < pz_length z \<and> pz_start z + pz_length z \<le> pixels"

lemma zone_error_none: "zone_error z pixels = VNone \<Longrightarrow> zone_inside z pixels"
  by (auto simp: zone_error_def zone_inside_def split: if_splits)

lemma to_size_small: "0 \<le> x \<Longrightarrow> x \<le> int max_led_count \<Longrightarrow> to_size x = nat x"
  by (simp add: to_size_def max_led_count_def)

lemma zone_of_inside:
  assumes "zone_inside z (int max_led_count)"
  shows "zone_of z = \<lparr>lz_start = nat (pz_start z), lz_length = nat (pz_length z), lz_direction = pz_direction z\<rparr>"
  using assms by (simp add: zone_of_def zone_inside_def to_size_small)

lemma zone_of_inj:
  assumes "zone_inside z (int max_led_count)" "zone_inside z' (int max_led_count)"
  shows "zone_of z = zone_of z' \<longleftrightarrow> same_fill_zone z z'"
    and "lz_start (zone_of z) = lz_start (zone_of z') \<and> lz_length (zone_of z) = lz_length (zone_of z') \<longleftrightarrow> same_zone z z'"
  using assms by (auto simp: zone_of_inside same_fill_zone_def same_zone_def zone_inside_def)

lemma zone_binding_none:
  "zone_binding_error l b = VNone \<Longrightarrow> zone_limits_ok l \<Longrightarrow> zone_inside (pzb_zone b) (int max_led_count)"
  by (auto simp: zone_binding_error_def zone_limits_ok_def split: if_splits dest: zone_error_none)

text \<open>The bindings made so far come from the outputs applied so far.\<close>

definition from_output :: "controller_config \<Rightarrow> p_output set \<Rightarrow> led_actions \<Rightarrow> bool" where
  "from_output config os leds \<longleftrightarrow>
     (\<forall>b \<in> set (la_effects leds). \<exists>x. LedEffectOutput x \<in> os \<and> action_id_of (cc_actions config) (peb_action x) = Some (eb_action b) \<and>
        peb_effect x = eb_effect b) \<and>
     (\<forall>b \<in> set (la_fills leds). \<exists>x. (LedFillOutput x \<in> os \<or> LedSolidOutput x \<in> os) \<and>
        action_id_of (cc_actions config) (pzb_action x) = Some (fb_action b) \<and> zone_of (pzb_zone x) = fe_zone (fb_effect b) \<and>
        zone_inside (pzb_zone x) (int max_led_count)) \<and>
     (\<forall>b \<in> set (la_transients leds). \<exists>x. LedTransientOutput x \<in> os \<and>
        action_id_of (cc_actions config) (pzb_action x) = Some (tb_action b) \<and> zone_of (pzb_zone x) = lt_zone (tb_effect b) \<and>
        zone_inside (pzb_zone x) (int max_led_count))"

definition bound_count :: "led_actions \<Rightarrow> nat" where
  "bound_count leds = length (la_effects leds) + length (la_fills leds) + length (la_transients leds)"

lemma from_output_mono: "from_output config os leds \<Longrightarrow> os \<subseteq> os' \<Longrightarrow> from_output config os' leds"
  unfolding from_output_def by (elim conjE, intro conjI; blast)

text \<open>One output of a valid document: bound, or the binding set is full.\<close>

definition bound_step :: "controller_config \<Rightarrow> p_output set \<Rightarrow> led_actions \<Rightarrow> binding_status \<times> led_actions \<Rightarrow> bool" where
  "bound_step config os leds r \<longleftrightarrow> (fst r = BindOk \<and> from_output config os (snd r) \<and> bound_count (snd r) = Suc (bound_count leds)) \<or>
     (fst r = BindingCapacityExceeded \<and> snd r = leds)"

lemma bind_effect_step:
  assumes "from_output config os leds" and a: "action_id_of (cc_actions config) (peb_action b) = Some a" and v: "aid_valid a"
    and inj: "\<And>n. action_id_of (cc_actions config) n = Some a \<Longrightarrow> n = peb_action b"
    and new: "\<not> (\<exists>o' \<in> os. same_target o' (LedEffectOutput b))"
  shows "bound_step config (insert (LedEffectOutput b) os) leds (bind_output (LedEffectOutput b) config leds)"
proof -
  have "\<not> list_ex (\<lambda>x. eb_action x = a \<and> eb_effect x = peb_effect b) (la_effects leds)"
  proof
    assume "list_ex (\<lambda>x. eb_action x = a \<and> eb_effect x = peb_effect b) (la_effects leds)"
    then obtain x where x: "x \<in> set (la_effects leds)" "eb_action x = a" "eb_effect x = peb_effect b" by (auto simp: list_ex_iff)
    with assms(1) obtain y where "LedEffectOutput y \<in> os" "action_id_of (cc_actions config) (peb_action y) = Some a"
      "peb_effect y = peb_effect b" unfolding from_output_def by metis
    with new inj show False by (metis same_target.simps(1))
  qed
  moreover have "from_output config (insert (LedEffectOutput b) os) leds" by (rule from_output_mono [OF assms(1)]) blast
  ultimately show ?thesis using a v
    by (auto simp: bind_output_def effects_bind_def bound_step_def bound_count_def from_output_def)
qed

lemma same_fill_zone_sym: "same_fill_zone z z' = same_fill_zone z' z" "same_zone z z' = same_zone z' z"
  by (auto simp: same_fill_zone_def same_zone_def)

lemma bind_fill_step:
  assumes "from_output config os leds" and a: "action_id_of (cc_actions config) (pzb_action b) = Some a" and v: "aid_valid a"
    and inj: "\<And>n. action_id_of (cc_actions config) n = Some a \<Longrightarrow> n = pzb_action b"
    and out: "out = LedFillOutput b \<or> out = LedSolidOutput b" and z: "zone_inside (pzb_zone b) (int max_led_count)"
    and new: "\<not> (\<exists>o' \<in> os. same_target o' out)"
  shows "bound_step config (insert out os) leds (bind_output out config leds)"
proof -
  have "\<not> list_ex (\<lambda>x. fb_action x = a \<and> fe_zone (fb_effect x) = zone_of (pzb_zone b)) (la_fills leds)"
  proof
    assume "list_ex (\<lambda>x. fb_action x = a \<and> fe_zone (fb_effect x) = zone_of (pzb_zone b)) (la_fills leds)"
    then obtain x where x: "x \<in> set (la_fills leds)" "fb_action x = a" "fe_zone (fb_effect x) = zone_of (pzb_zone b)"
      by (auto simp: list_ex_iff)
    with assms(1) obtain y where y: "LedFillOutput y \<in> os \<or> LedSolidOutput y \<in> os"
      "action_id_of (cc_actions config) (pzb_action y) = Some a" "zone_of (pzb_zone y) = zone_of (pzb_zone b)"
      "zone_inside (pzb_zone y) (int max_led_count)" unfolding from_output_def by metis
    from y(3) zone_of_inj(1) [OF y(4) z] have sz: "same_fill_zone (pzb_zone y) (pzb_zone b)" "same_zone (pzb_zone y) (pzb_zone b)"
      by (simp_all add: same_fill_zone_def)
    from inj [OF y(2)] have n: "pzb_action y = pzb_action b" .
    show False using y(1)
    proof
      assume "LedFillOutput y \<in> os"
      with new out n sz same_fill_zone_sym(1) show False by (metis same_target.simps(4,5))
    next
      assume "LedSolidOutput y \<in> os"
      with new out n sz same_fill_zone_sym(1) show False by (metis same_target.simps(3,6))
    qed
  qed
  then have res: "bind_output out config leds = (if length (la_fills leds) = fills_capacity then (BindingCapacityExceeded, leds)
      else (BindOk, leds\<lparr>la_fills := la_fills leds @ [\<lparr>fb_action = a, fb_effect = fill_effect_of b, fb_level = fraction_empty\<rparr>]\<rparr>))"
    using a v out by (auto simp: bind_output_def fills_bind_def fill_effect_of_def)
  have mono: "from_output config (insert out os) leds" by (rule from_output_mono [OF assms(1)]) blast
  have "\<exists>x. (LedFillOutput x \<in> insert out os \<or> LedSolidOutput x \<in> insert out os) \<and>
      action_id_of (cc_actions config) (pzb_action x) = Some a \<and> zone_of (pzb_zone x) = fe_zone (fill_effect_of b) \<and>
      zone_inside (pzb_zone x) (int max_led_count)"
    using out a z by (intro exI [of _ b]) (auto simp: fill_effect_of_def)
  with mono have "from_output config (insert out os)
      (leds\<lparr>la_fills := la_fills leds @ [\<lparr>fb_action = a, fb_effect = fill_effect_of b, fb_level = fraction_empty\<rparr>]\<rparr>)"
    unfolding from_output_def by simp
  with res show ?thesis by (simp add: bound_step_def bound_count_def)
qed

lemma duration_ok:
  assumes "1 \<le> d" "d * 1000 \<le> uint max_transient_duration"
  shows "(of_int d * 1000 :: monotonic) \<noteq> 0 \<and> \<not> max_transient_duration < of_int d * 1000"
proof -
  have d: "0 \<le> d" "d \<le> 5000" using assms by (simp_all add: max_transient_duration_def)
  have "uint (of_int d * 1000 :: monotonic) = d * 1000"
    using d by (simp add: uint_word_ariths uint_word_of_int)
  with assms show ?thesis by (auto simp: word_less_def)
qed

lemma bind_transient_step:
  assumes "from_output config os leds" and a: "action_id_of (cc_actions config) (pzb_action b) = Some a" and v: "aid_valid a"
    and inj: "\<And>n. action_id_of (cc_actions config) n = Some a \<Longrightarrow> n = pzb_action b"
    and z: "zone_inside (pzb_zone b) (int max_led_count)" and zp: "zone_inside (pzb_zone b) (cc_pixel_count config)"
    and px: "int default_led_count \<le> cc_pixel_count config" "cc_pixel_count config \<le> int max_led_count"
    and dur: "1 \<le> ptb_duration_ms b" "ptb_duration_ms b * 1000 \<le> uint max_transient_duration"
    and new: "\<not> (\<exists>o' \<in> os. same_target o' (LedTransientOutput b))"
  shows "bound_step config (insert (LedTransientOutput b) os) leds (bind_output (LedTransientOutput b) config leds)"
proof -
  have "\<not> list_ex (\<lambda>x. tb_action x = a \<and> lz_start (lt_zone (tb_effect x)) = lz_start (zone_of (pzb_zone b)) \<and>
      lz_length (lt_zone (tb_effect x)) = lz_length (zone_of (pzb_zone b))) (la_transients leds)"
  proof
    assume "list_ex (\<lambda>x. tb_action x = a \<and> lz_start (lt_zone (tb_effect x)) = lz_start (zone_of (pzb_zone b)) \<and>
      lz_length (lt_zone (tb_effect x)) = lz_length (zone_of (pzb_zone b))) (la_transients leds)"
    then obtain x where x: "x \<in> set (la_transients leds)" "tb_action x = a"
      "lz_start (lt_zone (tb_effect x)) = lz_start (zone_of (pzb_zone b))"
      "lz_length (lt_zone (tb_effect x)) = lz_length (zone_of (pzb_zone b))" by (auto simp: list_ex_iff)
    with assms(1) obtain y where y: "LedTransientOutput y \<in> os" "action_id_of (cc_actions config) (pzb_action y) = Some a"
      "zone_of (pzb_zone y) = lt_zone (tb_effect x)" "zone_inside (pzb_zone y) (int max_led_count)"
      unfolding from_output_def by metis
    from zone_of_inj(2) [OF y(4) z] y(3) x(3,4) have "same_zone (pzb_zone y) (pzb_zone b)" by simp
    with inj [OF y(2)] y(1) new show False by (metis same_target.simps(2))
  qed
  moreover have "from_output config (insert (LedTransientOutput b) os) leds" by (rule from_output_mono [OF assms(1)]) blast
  moreover have "to_size (cc_pixel_count config) = nat (cc_pixel_count config)"
    using px by (intro to_size_small) (auto simp: default_led_count_def)
  moreover have "\<not> nat (cc_pixel_count config) < default_led_count" "\<not> max_led_count < nat (cc_pixel_count config)" using px by auto
  moreover have "lz_length (zone_of (pzb_zone b)) \<noteq> 0" "\<not> nat (cc_pixel_count config) \<le> lz_start (zone_of (pzb_zone b))"
      "\<not> nat (cc_pixel_count config) - lz_start (zone_of (pzb_zone b)) < lz_length (zone_of (pzb_zone b))"
    using zp by (simp_all add: zone_of_inside [OF z]) (auto simp: zone_inside_def)
  moreover note duration_ok [OF dur]
  ultimately have res: "bind_output (LedTransientOutput b) config leds =
      (if length (la_transients leds) = transient_capacity then (BindingCapacityExceeded, leds)
       else (BindOk, leds\<lparr>la_transients := la_transients leds @ [\<lparr>tb_action = a, tb_effect = transient_of b, tb_sequence = 0,
         tb_origin = 0, tb_epoch = 0, tb_retained = False\<rparr>]\<rparr>))"
    using a v by (simp add: bind_output_def transients_bind_def Let_def transient_of_def)
  have "lt_zone (transient_of b) = zone_of (pzb_zone b)" by (simp add: transient_of_def)
  with from_output_mono [OF assms(1), of "insert (LedTransientOutput b) os"] a z show ?thesis
    unfolding res by (auto simp: bound_step_def bound_count_def from_output_def)
qed

lemma output_error_none:
  assumes "output_error lim c k = VNone" "k < length (cc_outputs c)"
  shows "is_declared (cc_actions c) (output_action (cc_outputs c ! k)) \<and> output_body_error lim (cc_outputs c ! k) = VNone \<and>
    (\<forall>z. output_zone (cc_outputs c ! k) = Some z \<longrightarrow> zone_error z (cc_pixel_count c) = VNone) \<and>
    \<not> (\<exists>o' \<in> set (take k (cc_outputs c)). same_target o' (cc_outputs c ! k))"
  using assms(1) by (auto simp: output_error_def Let_def has_earlier_binding_iff [OF assms(2)] split: if_splits option.splits)

lemma bind_output_step:
  assumes lim: "limits_ok lim" and valid: "vr_ok (validate_config lim c)" and len: "length (cc_actions c) \<le> 65535"
    and k: "k < length (cc_outputs c)" and fo: "from_output c (set (take k (cc_outputs c))) leds"
  shows "bound_step c (insert (cc_outputs c ! k) (set (take k (cc_outputs c)))) leds (bind_output (cc_outputs c ! k) c leds)"
proof -
  let ?o = "cc_outputs c ! k"
  from valid k have "output_error lim c k = VNone"
    and px: "cl_pixel_count_min lim \<le> cc_pixel_count c" "cc_pixel_count c \<le> cl_pixel_count_max lim"
    by (simp_all add: validate_config_ok in_range_def)
  from output_error_none [OF this(1) k] have d: "is_declared (cc_actions c) (output_action ?o)"
    and body: "output_body_error lim ?o = VNone"
    and zp: "\<And>z. output_zone ?o = Some z \<Longrightarrow> zone_inside z (cc_pixel_count c)"
    and new: "\<not> (\<exists>o' \<in> set (take k (cc_outputs c)). same_target o' ?o)" by (auto dest: zone_error_none)
  from lim px have px: "int default_led_count \<le> cc_pixel_count c" "cc_pixel_count c \<le> int max_led_count"
    by (auto simp: limits_ok_def)
  from action_id_of_declared [OF d] obtain a where a: "action_id_of (cc_actions c) (output_action ?o) = Some a" by blast
  note v = action_id_of_valid [OF len a]
  have inj: "n = output_action ?o" if "action_id_of (cc_actions c) n = Some a" for n
    using action_id_of_inj [OF len that a] .
  show ?thesis
  proof (cases ?o)
    case (LedEffectOutput b)
    note eqs = LedEffectOutput output_action.simps
    show ?thesis unfolding LedEffectOutput
      by (rule bind_effect_step [OF fo a [unfolded eqs] v inj [unfolded eqs] new [unfolded eqs]])
  next
    case (LedFillOutput b)
    note eqs = LedFillOutput output_action.simps
    from zone_binding_none [of "cl_fill lim" b] LedFillOutput body lim have "zone_inside (pzb_zone b) (int max_led_count)"
      by (simp add: limits_ok_def)
    then show ?thesis unfolding LedFillOutput
      by (intro bind_fill_step [OF fo a [unfolded eqs] v inj [unfolded eqs] _ _ new [unfolded eqs]]) simp_all
  next
    case (LedSolidOutput b)
    note eqs = LedSolidOutput output_action.simps
    from zone_binding_none [of "cl_solid lim" b] LedSolidOutput body lim have "zone_inside (pzb_zone b) (int max_led_count)"
      by (simp add: limits_ok_def)
    then show ?thesis unfolding LedSolidOutput
      by (intro bind_fill_step [OF fo a [unfolded eqs] v inj [unfolded eqs] _ _ new [unfolded eqs]]) simp_all
  next
    case (LedTransientOutput b)
    note eqs = LedTransientOutput output_action.simps
    from LedTransientOutput body lim have "zone_inside (pzb_zone b) (int max_led_count)" "1 \<le> ptb_duration_ms b"
      "ptb_duration_ms b * 1000 \<le> uint max_transient_duration"
      using zone_binding_none [of "cl_transient lim" b] by (auto simp: limits_ok_def in_range_def split: if_splits)
    moreover have "zone_inside (pzb_zone b) (cc_pixel_count c)" using zp LedTransientOutput by simp
    ultimately show ?thesis unfolding LedTransientOutput using px
      by (intro bind_transient_step [OF fo a [unfolded eqs] v inj [unfolded eqs] _ _ _ _ _ _ new [unfolded eqs]])
  qed
qed

lemma apply_outputs_valid:
  assumes lim: "limits_ok lim" and valid: "vr_ok (validate_config lim c)" and len: "length (cc_actions c) \<le> 65535"
  shows "outs = drop k (cc_outputs c) \<Longrightarrow> k \<le> length (cc_outputs c) \<Longrightarrow> from_output c (set (take k (cc_outputs c))) leds \<Longrightarrow>
    bound_count leds = k \<Longrightarrow> as_outputs_applied st = k \<Longrightarrow> as_stage st = StageComplete \<Longrightarrow>
    apply_outputs outs k c st leds = (st', leds') \<Longrightarrow>
    (as_stage st' = StageComplete \<and> as_outputs_applied st' = length (cc_outputs c) \<and> bound_count leds' = length (cc_outputs c) \<or>
     as_stage st' = StageOutputBinding \<and> as_binding st' = BindingCapacityExceeded \<and> as_outputs_applied st' = as_index st' \<and>
       as_index st' < length (cc_outputs c)) \<and>
    as_validation st' = as_validation st \<and> as_rules_applied st' = as_rules_applied st"
proof (induction outs arbitrary: k st leds)
  case Nil
  then show ?case by simp
next
  case (Cons out outs)
  then have k: "k < length (cc_outputs c)" by (metis drop_eq_Nil leI list.distinct(1))
  with Cons.prems(1) have out: "out = cc_outputs c ! k" "outs = drop (Suc k) (cc_outputs c)"
    by (metis Cons_nth_drop_Suc list.inject)+
  have take: "set (take (Suc k) (cc_outputs c)) = insert out (set (take k (cc_outputs c)))"
    using k out by (simp add: take_Suc_conv_app_nth)
  obtain b leds1 where b: "bind_output out c leds = (b, leds1)" by fastforce
  from bind_output_step [OF lim valid len k Cons.prems(3)] b
  consider "b = BindOk" "from_output c (set (take (Suc k) (cc_outputs c))) leds1" "bound_count leds1 = Suc k"
    | "b = BindingCapacityExceeded" using Cons.prems(4) unfolding take by (auto simp: out(1) bound_step_def)
  then show ?case
  proof cases
    case 1
    let ?st = "st\<lparr>as_binding := b, as_outputs_applied := as_outputs_applied st + 1\<rparr>"
    have "apply_outputs outs (Suc k) c ?st leds1 = (st', leds')" using Cons.prems(7) b 1(1) by simp
    with Cons.IH [OF out(2) _ 1(2,3), of ?st] k Cons.prems(5,6) show ?thesis by simp
  next
    case 2
    have "apply_outputs (out # outs) k c st leds = (st\<lparr>as_binding := b, as_stage := StageOutputBinding, as_index := k\<rparr>, leds1)"
      using b 2 by simp
    with Cons.prems(5,7) k 2 show ?thesis by auto
  qed
qed

section \<open>Rules\<close>

text \<open>The refusals that depend on the vehicle's catalog or on a full rule collection.\<close>

definition catalog_or_capacity :: "config_status set" where
  "catalog_or_capacity = {CfgCapacityExceeded, CfgUnknownSignal, CfgUnsupportedCapability, CfgTypeMismatch, CfgUnknownChoice}"

definition level_from :: "controller_config \<Rightarrow> p_rule set \<Rightarrow> engine \<Rightarrow> bool" where
  "level_from config rs e \<longleftrightarrow> (\<forall>a \<in> set (level_actions e). \<exists>r \<in> rs. is_level r \<and> action_id_of (cc_actions config) (action_of r) = Some a)"

definition rule_count :: "engine \<Rightarrow> nat" where
  "rule_count e = length (en_rules e) + length (en_polled e)"

definition ruled_step :: "controller_config \<Rightarrow> p_rule set \<Rightarrow> engine \<Rightarrow> config_status \<times> engine \<Rightarrow> bool" where
  "ruled_step config rs e r \<longleftrightarrow> (fst r = CfgOk \<and> level_from config rs (snd r) \<and> rule_count (snd r) = Suc (rule_count e) \<and>
       \<not> en_attached (snd r)) \<or> fst r \<in> catalog_or_capacity"

lemma resolve_operand_reasons: "fst (resolve_operand m c req) \<in> insert CfgOk catalog_or_capacity"
  by (cases "sc_operand c") (simp_all add: resolve_operand_cases catalog_or_capacity_def split: option.split)

lemma condition_error_none:
  assumes "condition_error c = VNone"
  shows "f32_isfinite (value_or (op_as_number (operand_of (pc_operand c))) 0)"
    and "is_ordered (pc_comparison c) \<Longrightarrow> operand_type (operand_of (pc_operand c)) = TNumber"
  using assms
  by (cases "pc_operand c"; auto simp: condition_error_def p_is_ordered_def is_ordered_def f32_zero_facts
      split: if_splits comparison.splits; cases "pc_comparison c"; simp)+

lemma resolve_through_reasons:
  assumes "f32_isfinite (value_or (op_as_number (sc_operand c)) 0)" "is_ordered (sc_comparison c) \<Longrightarrow> operand_type (sc_operand c) = TNumber"
  shows "fst (resolve_through cat c req d) \<in> insert CfgOk catalog_or_capacity"
  using assms resolve_operand_reasons [of _ c req]
  by (auto simp: resolve_through_def split: option.splits) (auto simp: catalog_or_capacity_def)

lemma condition_reasons:
  assumes "condition_error c = VNone"
  shows "fst (resolve_through cat (condition_of c) req d) \<in> insert CfgOk catalog_or_capacity"
  by (rule resolve_through_reasons) (use condition_error_none [OF assms] in \<open>auto simp: condition_of_def\<close>)

lemma engine_add_rule_step:
  assumes "\<not> en_attached e" "\<And>a. a \<in> set (rule_level r) \<Longrightarrow> \<exists>x \<in> rs. is_level x \<and> action_id_of (cc_actions config) (action_of x) = Some a"
    and "level_from config rs e"
  shows "ruled_step config rs e (engine_add_rule e r)"
  using assms
  by (auto simp: ruled_step_def engine_add_rule_def rule_set_add_def catalog_or_capacity_def rule_count_def level_from_def
      level_actions_def split: prod.splits if_splits)

lemma engine_add_polled_step:
  assumes "\<not> en_attached e" "\<exists>x \<in> rs. is_level x \<and> action_id_of (cc_actions config) (action_of x) = Some (polled_action r)"
    and "level_from config rs e"
  shows "ruled_step config rs e (engine_add_polled e r)"
  using assms
  by (auto simp: ruled_step_def engine_add_polled_def polled_set_add_def catalog_or_capacity_def rule_count_def level_from_def
      level_actions_def split: prod.splits if_splits)

lemma resolved_status:
  "resolve_through cat c req d = (st, x) \<Longrightarrow> fst (resolve_through cat c req d) \<in> insert CfgOk catalog_or_capacity \<Longrightarrow>
     x = None \<and> st \<in> catalog_or_capacity \<or> x \<noteq> None"
  using resolve_through_status [of cat c req d] by auto

lemma ruled_mono: "level_from config rs e \<Longrightarrow> rs \<subseteq> rs' \<Longrightarrow> level_from config rs' e"
  unfolding level_from_def by blast

lemma ruled_refused: "st \<in> catalog_or_capacity \<Longrightarrow> ruled_step config rs e (st, e')"
  by (simp add: ruled_step_def)

lemma add_state_step:
  assumes body: "rule_body_error (PersistedState r) = VNone" and chk: "check_action e a LevelOutput = CfgOk"
    and fo: "level_from config rs e" and a: "action_id_of (cc_actions config) (psr_action r) = Some a" and mem: "PersistedState r \<in> rs"
  shows "ruled_step config rs e (add_state_rule cat e
    \<lparr>src_condition = condition_of (psr_condition r), src_action = a, src_freshness = psr_freshness r\<rparr>)"
proof -
  from body have "condition_error (psr_condition r) = VNone" by (auto split: if_splits)
  note reasons = condition_reasons [OF this, of cat "psr_freshness r" CNotify]
  obtain st x where r: "resolve_through cat (condition_of (psr_condition r)) (psr_freshness r) CNotify = (st, x)" by fastforce
  have lvl: "is_level (PersistedState r)" by (simp add: is_level_def)
  from chk have "\<not> en_attached e" by (simp add: check_action_ok)
  then have "ruled_step config rs e (engine_add_rule e (RState \<lparr>sr_condition = rc, sr_action = a, sr_last = None\<rparr>))" for rc
    by (rule engine_add_rule_step [OF _ _ fo]) (use mem a lvl in \<open>auto intro!: bexI [of _ "PersistedState r"]\<close>)
  with resolved_status [OF r reasons] ruled_refused show ?thesis
    by (auto simp: add_state_rule_def resolve_rule_def resolve_condition_def chk r split: option.split)
qed

lemma add_event_step:
  assumes body: "rule_body_error (PersistedEvent r) = VNone" and chk: "check_action e a OneShotOutput = CfgOk"
    and fo: "level_from config rs e"
  shows "ruled_step config rs e (add_event_rule cat e
    \<lparr>erc_condition = condition_of (per_condition r), erc_edge = per_edge r, erc_action = a, erc_freshness = per_freshness r\<rparr>)"
proof -
  from body have "condition_error (per_condition r) = VNone" by (auto split: if_splits)
  note reasons = condition_reasons [OF this, of cat "per_freshness r" CNotify]
  obtain st x where r: "resolve_through cat (condition_of (per_condition r)) (per_freshness r) CNotify = (st, x)" by fastforce
  from chk have "\<not> en_attached e" by (simp add: check_action_ok)
  then have "ruled_step config rs e (engine_add_rule e (REvent \<lparr>er_condition = rc, er_action = a, er_edge = per_edge r, er_baseline = None\<rparr>))" for rc
    by (rule engine_add_rule_step [OF _ _ fo]) simp
  with resolved_status [OF r reasons] ruled_refused show ?thesis
    by (auto simp: add_event_rule_def resolve_rule_def resolve_condition_def chk r split: option.split)
qed

lemma add_range_step:
  assumes body: "rule_body_error (PersistedRange r) = VNone" and chk: "check_action e a LevelOutput = CfgOk"
    and fo: "level_from config rs e" and a: "action_id_of (cc_actions config) (prr_action r) = Some a" and mem: "PersistedRange r \<in> rs"
  shows "ruled_step config rs e (add_range_rule cat e
    \<lparr>rrc_key = prr_key r, rrc_input = prr_input r, rrc_output = prr_output r, rrc_action = a, rrc_freshness = prr_freshness r\<rparr>)"
proof -
  from body have ok: "is_finite_range (prr_input r)" "is_finite_range (prr_output r)" "f32_lt (nr_from (prr_input r)) (nr_to (prr_input r))"
    by (auto split: if_splits)
  have lvl: "is_level (PersistedRange r)" by (simp add: is_level_def)
  from chk have "\<not> en_attached e" by (simp add: check_action_ok)
  then have add: "ruled_step config rs e (engine_add_polled e p)" if "polled_action p = a" for p
    by (rule engine_add_polled_step [OF _ _ fo]) (use that mem a lvl in \<open>auto intro!: bexI [of _ "PersistedRange r"]\<close>)
  show ?thesis
    using ok by (auto simp: add_range_rule_def chk resolve_range_rule_def valid_ranges_def finite_range_def is_finite_range_def
        intro!: add ruled_refused split: option.splits) (simp_all add: catalog_or_capacity_def)
qed

lemma add_sampled_step:
  assumes body: "rule_body_error (PersistedSampled r) = VNone" and chk: "check_action e a LevelOutput = CfgOk"
    and fo: "level_from config rs e" and a: "action_id_of (cc_actions config) (pss_action r) = Some a" and mem: "PersistedSampled r \<in> rs"
  shows "ruled_step config rs e (add_sampled_state_rule cat e
    \<lparr>ssc_condition = condition_of (pss_condition r), ssc_action = a, ssc_freshness = pss_freshness r, ssc_release_threshold = pss_release r\<rparr>)"
proof -
  let ?c = "condition_of (pss_condition r)"
  from body have c: "condition_error (pss_condition r) = VNone" by (auto split: if_splits)
  note reasons = condition_reasons [OF c, of cat "pss_freshness r" CRead]
  obtain st x where r: "resolve_through cat ?c (pss_freshness r) CRead = (st, x)" by fastforce
  have lvl: "is_level (PersistedSampled r)" by (simp add: is_level_def)
  from chk have "\<not> en_attached e" by (simp add: check_action_ok)
  then have add: "ruled_step config rs e (engine_add_polled e (PSampled (sampled_rule rc a rel)))" for rc rel
    by (rule engine_add_polled_step [OF _ _ fo])
       (use mem a lvl in \<open>auto simp: sampled_rule_def intro!: bexI [of _ "PersistedSampled r"]\<close>)
  show ?thesis
  proof (cases "pss_release r")
    case None
    with resolved_status [OF r reasons] add ruled_refused show ?thesis
      by (auto simp: add_sampled_state_rule_def chk resolve_sampled_condition_def r)
  next
    case (Some t)
    from body Some have rel: "is_valid_release (pss_condition r) t" by (auto split: if_splits)
    then have hv: "has_valid_release_threshold ?c t" and ft: "f32_isfinite t"
      using condition_error_none(1) [OF c]
      by (auto simp: is_valid_release_def has_valid_release_threshold_def condition_of_def split: p_operand.splits if_splits comparison.splits)
    obtain st2 x2 where r2: "resolve_through cat (?c\<lparr>sc_operand := ONumber t\<rparr>) (pss_freshness r) CRead = (st2, x2)" by fastforce
    have "fst (resolve_through cat (?c\<lparr>sc_operand := ONumber t\<rparr>) (pss_freshness r) CRead) \<in> insert CfgOk catalog_or_capacity"
      by (rule resolve_through_reasons) (use ft in simp_all)
    from resolved_status [OF r2 this] resolved_status [OF r reasons] add ruled_refused show ?thesis
      by (auto simp: add_sampled_state_rule_def chk resolve_sampled_condition_def r r2 Some hv)
  qed
qed

lemma rule_error_none:
  assumes "rule_error c k = VNone" "k < length (cc_rules c)"
  shows "is_declared (cc_actions c) (action_of (cc_rules c ! k)) \<and> rule_body_error (cc_rules c ! k) = VNone \<and>
    \<not> (is_level (cc_rules c ! k) \<and> (\<exists>r \<in> set (take k (cc_rules c)). is_level r \<and> action_of r = action_of (cc_rules c ! k)))"
  using assms(1) by (auto simp: rule_error_def Let_def has_earlier_level_rule_iff [OF assms(2)] split: if_splits)

lemma add_rule_step:
  assumes valid: "vr_ok (validate_config lim c)" and len: "length (cc_actions c) \<le> 65535" and k: "k < length (cc_rules c)"
    and lf: "level_from c (set (take k (cc_rules c))) e" and att: "\<not> en_attached e"
  shows "ruled_step c (insert (cc_rules c ! k) (set (take k (cc_rules c)))) e (add_rule cat (cc_rules c ! k) c e)"
proof -
  let ?r = "cc_rules c ! k" and ?rs = "set (take k (cc_rules c))"
  from valid k have "rule_error c k = VNone" by (simp add: validate_config_ok)
  from rule_error_none [OF this k] have d: "is_declared (cc_actions c) (action_of ?r)" and body: "rule_body_error ?r = VNone"
    and new: "is_level ?r \<Longrightarrow> r \<in> ?rs \<Longrightarrow> is_level r \<Longrightarrow> action_of r \<noteq> action_of ?r" for r by blast+
  from action_id_of_declared [OF d] obtain a where a: "action_id_of (cc_actions c) (action_of ?r) = Some a" by blast
  note v = action_id_of_valid [OF len a]
  have "a \<notin> set (level_actions e)" if "is_level ?r"
    using lf new [OF that] action_id_of_inj [OF len _ a] unfolding level_from_def by blast
  then have chk: "check_action e a LevelOutput = CfgOk" if "is_level ?r" using that att v by (simp add: check_action_ok)
  have chk1: "check_action e a OneShotOutput = CfgOk" using att v by (simp add: check_action_ok)
  have lf': "level_from c (insert ?r ?rs) e" by (rule ruled_mono [OF lf]) blast
  have mem: "?r \<in> insert ?r ?rs" by simp
  note d = a [unfolded action_of.simps]
  show ?thesis
  proof (cases ?r)
    case (PersistedState r)
    with add_state_step [of r e a c "insert ?r ?rs" cat] body chk lf' a mem show ?thesis
      by (simp add: add_rule_def is_level_def)
  next
    case (PersistedSampled r)
    with add_sampled_step [of r e a c "insert ?r ?rs" cat] body chk lf' a mem show ?thesis
      by (simp add: add_rule_def is_level_def)
  next
    case (PersistedEvent r)
    with add_event_step [of r e a c "insert ?r ?rs" cat] body chk1 lf' a show ?thesis
      by (simp add: add_rule_def)
  next
    case (PersistedRange r)
    with add_range_step [of r e a c "insert ?r ?rs" cat] body chk lf' a mem show ?thesis
      by (simp add: add_rule_def is_level_def)
  qed
qed

lemma apply_rules_valid:
  assumes valid: "vr_ok (validate_config lim c)" and len: "length (cc_actions c) \<le> 65535"
  shows "rs = drop k (cc_rules c) \<Longrightarrow> k \<le> length (cc_rules c) \<Longrightarrow> level_from c (set (take k (cc_rules c))) e \<Longrightarrow>
    \<not> en_attached e \<Longrightarrow> rule_count e = k \<Longrightarrow> as_rules_applied st = k \<Longrightarrow> as_stage st = StageComplete \<Longrightarrow>
    apply_rules cat rs k c st e = (st', e') \<Longrightarrow>
    (as_stage st' = StageComplete \<and> as_rules_applied st' = length (cc_rules c) \<and> rule_count e' = length (cc_rules c) \<or>
     as_stage st' = StageRule \<and> as_engine st' \<in> catalog_or_capacity \<and> as_rules_applied st' = as_index st' \<and>
       as_index st' < length (cc_rules c)) \<and>
    as_validation st' = as_validation st \<and> as_outputs_applied st' = as_outputs_applied st \<and> as_sink_registered st' = as_sink_registered st"
proof (induction rs arbitrary: k st e)
  case Nil
  then show ?case by simp
next
  case (Cons r rs)
  then have k: "k < length (cc_rules c)" by (metis drop_eq_Nil leI list.distinct(1))
  with Cons.prems(1) have r: "r = cc_rules c ! k" "rs = drop (Suc k) (cc_rules c)"
    by (metis Cons_nth_drop_Suc list.inject)+
  have take: "set (take (Suc k) (cc_rules c)) = insert r (set (take k (cc_rules c)))"
    using k r by (simp add: take_Suc_conv_app_nth)
  obtain s e1 where s: "add_rule cat r c e = (s, e1)" by fastforce
  from add_rule_step [OF valid len k Cons.prems(3,4), of cat] s
  consider "s = CfgOk" "level_from c (set (take (Suc k) (cc_rules c))) e1" "rule_count e1 = Suc k" "\<not> en_attached e1"
    | "s \<in> catalog_or_capacity" using Cons.prems(5) unfolding take by (auto simp: r(1) ruled_step_def)
  then show ?case
  proof cases
    case 1
    let ?st = "st\<lparr>as_engine := s, as_rules_applied := as_rules_applied st + 1\<rparr>"
    have "apply_rules cat rs (Suc k) c ?st e1 = (st', e')" using Cons.prems(8) s 1(1) by simp
    with Cons.IH [OF r(2) _ 1(2,4,3), of ?st] k Cons.prems(6,7) show ?thesis by simp
  next
    case 2
    then have "s \<noteq> CfgOk" by (auto simp: catalog_or_capacity_def)
    then have "apply_rules cat (r # rs) k c st e = (st\<lparr>as_engine := s, as_stage := StageRule, as_index := k\<rparr>, e1)"
      using s by simp
    with Cons.prems(6,8) k 2 show ?thesis by auto
  qed
qed

section \<open>Applying a configuration\<close>

lemma engine_add_frame:
  "en_sinks (snd (engine_add_rule e r)) = en_sinks e" "en_attached (snd (engine_add_rule e r)) = en_attached e"
  "en_subs (snd (engine_add_rule e r)) = en_subs e" "en_sinks (snd (engine_add_polled e p)) = en_sinks e"
  "en_attached (snd (engine_add_polled e p)) = en_attached e" "en_subs (snd (engine_add_polled e p)) = en_subs e"
  by (simp_all add: engine_add_rule_def engine_add_polled_def split: prod.split)

lemma add_rule_frame:
  "en_sinks (snd (add_rule cat r c e)) = en_sinks e \<and> en_attached (snd (add_rule cat r c e)) = en_attached e \<and>
     en_subs (snd (add_rule cat r c e)) = en_subs e"
  by (simp add: add_rule_def add_state_rule_def add_event_rule_def add_range_rule_def add_sampled_state_rule_def Let_def
      engine_add_frame split: option.split p_rule.split prod.split)

lemma apply_rules_frame:
  "apply_rules cat rs k c st e = (st', e') \<Longrightarrow> en_sinks e' = en_sinks e \<and> en_attached e' = en_attached e \<and> en_subs e' = en_subs e"
proof (induction rs arbitrary: k st e)
  case (Cons r rs)
  obtain s e1 where s: "add_rule cat r c e = (s, e1)" by fastforce
  with Cons add_rule_frame [of cat r c e] show ?case by (auto simp: Let_def split: if_splits)
qed simp

definition clean_targets :: "led_actions \<Rightarrow> engine \<Rightarrow> bool" where
  "clean_targets leds e \<longleftrightarrow> la_effects leds = [] \<and> la_fills leds = [] \<and> la_transients leds = [] \<and>
     en_sinks e = [] \<and> en_rules e = [] \<and> en_polled e = [] \<and> \<not> en_attached e"

text \<open>
  C8: A configuration that validates is refused by the clean LED adapter and engine only for reasons of the
  vehicle's catalog or of capacity: an output only when its binding set is full, the sink never, and a rule
  only for an unknown signal, a missing capability, a type or choice the catalog does not have, or a full rule
  collection. When nothing is refused every output and every rule of the document is in force, and the counts
  reported are the numbers installed.
\<close>

theorem valid_config_refused_by_catalog_or_capacity:
  assumes "limits_ok lim" and "clean_targets leds e"
    and run: "apply_controller_config lim cat sink config leds e = (st, leds', e')"
  shows "case as_stage st of
      StageComplete \<Rightarrow> vr_ok (validate_config lim config) \<and> as_sink_registered st \<and> en_sinks e' = [sink] \<and>
        as_outputs_applied st = length (cc_outputs config) \<and> bound_count leds' = length (cc_outputs config) \<and>
        as_rules_applied st = length (cc_rules config) \<and> rule_count e' = length (cc_rules config)
    | StageValidation \<Rightarrow> \<not> vr_ok (validate_config lim config) \<and> leds' = leds \<and> e' = e
    | StageActionId \<Rightarrow> 65535 < length (cc_actions config) \<and> leds' = leds \<and> e' = e
    | StageOutputBinding \<Rightarrow> as_binding st = BindingCapacityExceeded \<and> as_index st < length (cc_outputs config) \<and> e' = e
    | StageSinkRegistration \<Rightarrow> False
    | StageRule \<Rightarrow> as_engine st \<in> catalog_or_capacity \<and> as_index st < length (cc_rules config)"
proof (cases "vr_ok (validate_config lim config) \<and> length (cc_actions config) \<le> 65535")
  case False
  with run show ?thesis by (auto simp: apply_controller_config_def Let_def split: if_splits)
next
  case True
  then have v: "vr_ok (validate_config lim config)" and len: "length (cc_actions config) \<le> 65535" by simp_all
  let ?st = "new_apply_status\<lparr>as_validation := validate_config lim config\<rparr>"
  obtain st1 leds1 where o: "apply_outputs (cc_outputs config) 0 config ?st leds = (st1, leds1)" by fastforce
  have "from_output config (set (take 0 (cc_outputs config))) leds" "bound_count leds = 0"
    using assms(2) by (simp_all add: clean_targets_def from_output_def bound_count_def)
  note O = apply_outputs_valid [OF assms(1) v len _ _ this _ _ o, simplified, simplified new_apply_status_def, simplified]
  show ?thesis
  proof (cases "as_stage st1 = StageComplete")
    case False
    with O have "as_stage st1 = StageOutputBinding" by simp
    with O run v len o show ?thesis by (auto simp: apply_controller_config_def Let_def)
  next
    case complete: True
    have sink: "add_sink e sink = (CfgOk, e\<lparr>en_sinks := [sink]\<rparr>)"
      using assms(2) by (simp add: clean_targets_def add_sink_def sinks_add_def sink_capacity_def)
    let ?st2 = "st1\<lparr>as_engine := CfgOk, as_sink_registered := True\<rparr>" and ?e1 = "e\<lparr>en_sinks := [sink]\<rparr>"
    obtain st3 e2 where r: "apply_rules cat (cc_rules config) 0 config ?st2 ?e1 = (st3, e2)" by fastforce
    have "level_from config (set (take 0 (cc_rules config))) ?e1" "\<not> en_attached ?e1" "rule_count ?e1 = 0"
      using assms(2) by (simp_all add: clean_targets_def level_from_def level_actions_def rule_count_def)
    from apply_rules_valid [OF v len _ _ this _ _ r] O complete
    have R: "as_stage st3 = StageComplete \<and> as_rules_applied st3 = length (cc_rules config) \<and> rule_count e2 = length (cc_rules config) \<or>
        as_stage st3 = StageRule \<and> as_engine st3 \<in> catalog_or_capacity \<and> as_index st3 < length (cc_rules config)"
      "as_outputs_applied st3 = length (cc_outputs config)" "as_sink_registered st3" by auto
    have "(st, leds', e') = (st3, leds1, e2)"
      using run v len o complete sink r by (simp add: apply_controller_config_def Let_def)
    then show ?thesis using R O complete v apply_rules_frame [OF r] by auto
  qed
qed

section \<open>A concrete document\<close>

text \<open>The limits of \<open>components/local_argb_actions/output_catalog.yaml\<close>.\<close>

definition yaml_zone_limits :: output_limits where
  "yaml_zone_limits = \<lparr>ol_pixels = 300, ol_color_min = 0, ol_color_max = 255, ol_priority_min = 0, ol_priority_max = 255\<rparr>"

definition yaml_limits :: catalog_limits where
  "yaml_limits = \<lparr>cl_effect_priority_min = 0, cl_effect_priority_max = 255, cl_fill = yaml_zone_limits, cl_transient = yaml_zone_limits,
     cl_solid = yaml_zone_limits, cl_duration_min = 1, cl_duration_max = 5000, cl_pixel_count_min = 100, cl_pixel_count_max = 300\<rparr>"

lemma yaml_limits_ok: "limits_ok yaml_limits"
  by (simp add: limits_ok_def yaml_limits_def zone_limits_ok_def yaml_zone_limits_def byte_limits_def max_led_count_def
      default_led_count_def max_transient_duration_def)

definition brake_condition :: p_condition where
  "brake_condition = \<lparr>pc_key = ''brake'', pc_comparison = CmpEqual, pc_operand = PBoolean True\<rparr>"

definition brake_document :: controller_config where
  "brake_document = \<lparr>cc_version = 1, cc_pixel_count = 100, cc_actions = [''stop''],
     cc_rules = [PersistedState \<lparr>psr_action = ''stop'', psr_condition = brake_condition, psr_freshness = ReqFresh\<rparr>],
     cc_outputs = [LedEffectOutput \<lparr>peb_action = ''stop'', peb_effect = Brake, peb_priority = 100\<rparr>]\<rparr>"

definition brake_catalog :: catalog where
  "brake_catalog = [\<lparr>md_id = SignalId 7, md_key = ''brake'', md_type = TBoolean, md_unit = UNone, md_validation = Confirmed,
     md_capabilities = 255, md_choices = []\<rparr>]"

definition no_leds :: led_actions where
  "no_leds = \<lparr>la_effects = [], la_fills = [], la_transients = []\<rparr>"

lemma clean_new: "clean_targets no_leds engine_new"
  by (simp add: clean_targets_def no_leds_def engine_new_def)

lemmas document_defs = brake_document_def brake_condition_def yaml_limits_def yaml_zone_limits_def in_range_def

lemma brake_valid: "vr_ok (validate_config yaml_limits brake_document)"
  by (simp add: validate_config_ok document_defs schema_version_def action_error_def rule_error_def output_error_def is_declared_def
      condition_error_def name_of_def comparison_names_def freshness_names_def effect_names_def freshness_error_def
      has_earlier_level_rule_def has_earlier_binding_def p_is_ordered_def)

lemma brake_bound: "bind_output (LedEffectOutput \<lparr>peb_action = ''stop'', peb_effect = Brake, peb_priority = 100\<rparr>) brake_document no_leds =
    (BindOk, no_leds\<lparr>la_effects := [\<lparr>eb_action = ActionId 1, eb_effect = Brake, eb_priority = 100, eb_active = False\<rparr>]\<rparr>)"
  by (simp add: bind_output_def action_id_of_def document_defs effects_bind_def aid_valid_def no_leds_def bindings_capacity_def
      priority_of_def)

lemma brake_ruled:
  "fst (add_rule brake_catalog (PersistedState \<lparr>psr_action = ''stop'', psr_condition = brake_condition, psr_freshness = ReqFresh\<rparr>)
     brake_document (engine_new\<lparr>en_sinks := [5]\<rparr>)) = CfgOk"
  by (simp add: add_rule_def action_id_of_def brake_document_def brake_condition_def add_state_rule_def resolve_rule_def check_action_def
      engine_new_def aid_valid_def rule_set_drives_level_def polled_set_drives_def resolve_condition_def resolve_through_def
      condition_of_def catalog_find_key_def brake_catalog_def caps_has_def is_ordered_def resolve_operand_def engine_add_rule_def
      rule_set_add_def rule_set_capacity_def)

lemma brake_applied: "as_stage (fst (apply_controller_config yaml_limits brake_catalog 5 brake_document no_leds engine_new)) = StageComplete"
proof -
  obtain e1 where "add_rule brake_catalog (PersistedState \<lparr>psr_action = ''stop'', psr_condition = brake_condition, psr_freshness = ReqFresh\<rparr>)
     brake_document (engine_new\<lparr>en_sinks := [5]\<rparr>) = (CfgOk, e1)" using brake_ruled by (metis prod.collapse)
  moreover have "cc_rules brake_document = [PersistedState \<lparr>psr_action = ''stop'', psr_condition = brake_condition, psr_freshness = ReqFresh\<rparr>]"
    "cc_outputs brake_document = [LedEffectOutput \<lparr>peb_action = ''stop'', peb_effect = Brake, peb_priority = 100\<rparr>]"
    "length (cc_actions brake_document) = 1" by (simp_all add: brake_document_def)
  moreover have "add_sink engine_new 5 = (CfgOk, engine_new\<lparr>en_sinks := [5]\<rparr>)"
    by (simp add: add_sink_def engine_new_def sinks_add_def sink_capacity_def)
  ultimately show ?thesis
    by (simp add: apply_controller_config_def Let_def brake_valid brake_bound new_apply_status_def)
qed

theorem valid_config_refused_by_catalog_or_capacity_witness:
  "vr_ok (validate_config yaml_limits brake_document) \<and>
   as_rules_applied (fst (apply_controller_config yaml_limits brake_catalog 5 brake_document no_leds engine_new)) = 1"
proof -
  obtain st leds' e' where run: "apply_controller_config yaml_limits brake_catalog 5 brake_document no_leds engine_new = (st, leds', e')"
    by (cases "apply_controller_config yaml_limits brake_catalog 5 brake_document no_leds engine_new") auto
  from brake_applied run have "as_stage st = StageComplete" by simp
  with valid_config_refused_by_catalog_or_capacity [OF yaml_limits_ok clean_new run] run show ?thesis
    by (simp add: brake_document_def)
qed

section \<open>Fallback\<close>

lemma bind_output_frame: "led_clear (snd (bind_output out c leds)) = led_clear leds"
  by (simp add: bind_output_def led_clear_def split: option.split p_output.split prod.split)

lemma apply_outputs_frame: "apply_outputs outs k c st leds = (st', leds') \<Longrightarrow> led_clear leds' = led_clear leds"
proof (induction outs arbitrary: k st leds)
  case (Cons out outs)
  obtain b leds1 where b: "bind_output out c leds = (b, leds1)" by fastforce
  with Cons bind_output_frame [of out c leds] show ?case by (auto simp: Let_def split: if_splits)
qed simp

lemma apply_controller_config_frame:
  assumes "apply_controller_config lim cat sink config leds e = (st, leds', e')"
  shows "led_clear leds' = led_clear leds" "en_attached e' = en_attached e" "en_subs e' = en_subs e"
proof -
  let ?st = "new_apply_status\<lparr>as_validation := validate_config lim config\<rparr>"
  obtain st1 leds1 where o: "apply_outputs (cc_outputs config) 0 config ?st leds = (st1, leds1)" by fastforce
  obtain s e1 where a: "add_sink e sink = (s, e1)" by fastforce
  then have e1: "en_attached e1 = en_attached e" "en_subs e1 = en_subs e" by (auto simp: add_sink_def split: if_splits prod.splits)
  let ?st2 = "st1\<lparr>as_engine := s, as_sink_registered := True\<rparr>"
  obtain st3 e2 where r: "apply_rules cat (cc_rules config) 0 config ?st2 e1 = (st3, e2)" by fastforce
  have "(leds', e') \<in> {(leds, e), (leds1, e), (leds1, e1), (leds1, e2)}"
    using assms o a r by (auto simp: apply_controller_config_def Let_def split: if_splits)
  with apply_outputs_frame [OF o] apply_rules_frame [OF r] e1
  show "led_clear leds' = led_clear leds" "en_attached e' = en_attached e" "en_subs e' = en_subs e" by auto
qed

lemma clean_again:
  assumes "clean_targets leds e" "led_clear leds' = led_clear leds" "en_attached e' = en_attached e" "en_subs e' = en_subs e"
  shows "led_clear leds' = leds" "snd (clear e') = e"
  using assms by (auto simp: clean_targets_def led_clear_def clear_def)

text \<open>
  C9: A failed override leaves nothing of itself behind. When the override is in force the targets are as it
  left them; when it is not, the factory configuration (on the strip length the renderer already runs with) is
  applied exactly as if the override had never been tried; and when that fails too, or does not parse, the LED
  adapter and the engine are as clean as before, so no rule or output of either document is in force.
\<close>

theorem fallback_forgets_failed_override:
  assumes clean: "clean_targets leds e"
    and run: "apply_override_with_fallback lim cat sink factory config leds e = (r, config', leds', e')"
  shows "(if apply_ok (ov_override r) then config' = config \<and> apply_controller_config lim cat sink config leds e = (ov_override r, leds', e')
      else if override_ok r then \<exists>m. factory = Inr m \<and> config' = m\<lparr>cc_pixel_count := cc_pixel_count config\<rparr> \<and>
        apply_controller_config lim cat sink config' leds e = (ov_factory r, leds', e')
      else leds' = leds \<and> e' = e) \<and>
    (apply_ok (ov_override r) \<longleftrightarrow> apply_ok (fst (apply_controller_config lim cat sink config leds e)))"
proof -
  obtain st leds1 e1 where a: "apply_controller_config lim cat sink config leds e = (st, leds1, e1)"
    by (cases "apply_controller_config lim cat sink config leds e") auto
  note restored = clean_again [OF clean apply_controller_config_frame [OF a]]
  show ?thesis
  proof (cases factory)
    case (Inl d)
    with run a restored show ?thesis
      by (auto simp: apply_override_with_fallback_def override_ok_def Let_def new_apply_status_def split: if_splits)
  next
    case (Inr m)
    let ?c = "m\<lparr>cc_pixel_count := cc_pixel_count config\<rparr>"
    obtain st2 leds3 e3 where f: "apply_controller_config lim cat sink ?c leds e = (st2, leds3, e3)"
      by (cases "apply_controller_config lim cat sink ?c leds e") auto
    note restored2 = clean_again [OF clean apply_controller_config_frame [OF f]]
    from run a restored restored2 Inr f show ?thesis
      by (auto simp: apply_override_with_fallback_def override_ok_def Let_def split: if_splits)
  qed
qed

definition unsupported_document :: controller_config where
  "unsupported_document = brake_document\<lparr>cc_version := 2\<rparr>"

lemma unsupported_fails:
  "\<not> apply_ok (fst (apply_controller_config yaml_limits brake_catalog 5 unsupported_document no_leds engine_new))"
  by (simp add: apply_controller_config_def validate_config_def unsupported_document_def document_defs vr_ok_def apply_ok_def
      schema_version_def Let_def)

lemma falls_back:
  assumes "apply_override_with_fallback yaml_limits brake_catalog 5 (Inr brake_document) unsupported_document no_leds engine_new = (r, config', leds', e')"
  shows "override_ok r"
proof -
  let ?o = "apply_controller_config yaml_limits brake_catalog 5 unsupported_document no_leds engine_new"
  obtain st leds1 e1 where a: "?o = (st, leds1, e1)" by (cases ?o) auto
  note restored = clean_again [OF clean_new apply_controller_config_frame [OF a]]
  have c: "brake_document\<lparr>cc_pixel_count := cc_pixel_count unsupported_document\<rparr> = brake_document"
    by (simp add: unsupported_document_def)
  show ?thesis using assms unsupported_fails brake_applied
    by (auto simp: apply_override_with_fallback_def a c restored override_ok_def apply_ok_def Let_def split: prod.splits)
qed

text \<open>An override of an unsupported version, with a factory document that the hardware takes: the factory document is in force.\<close>

theorem fallback_forgets_failed_override_witness:
  "\<exists>r leds' e'. apply_override_with_fallback yaml_limits brake_catalog 5 (Inr brake_document) unsupported_document no_leds engine_new =
     (r :: string override_result, brake_document, leds', e') \<and> \<not> apply_ok (ov_override r) \<and>
     apply_controller_config yaml_limits brake_catalog 5 brake_document no_leds engine_new = (ov_factory r, leds', e') \<and> apply_ok (ov_factory r)"
proof -
  obtain r config' leds' e' where run: "apply_override_with_fallback yaml_limits brake_catalog 5 (Inr brake_document) unsupported_document
      no_leds engine_new = (r :: string override_result, config', leds', e')"
    by (cases "apply_override_with_fallback yaml_limits brake_catalog 5 (Inr brake_document :: string + controller_config)
      unsupported_document no_leds engine_new") auto
  note ok = falls_back [OF run]
  from fallback_forgets_failed_override [OF clean_new run] unsupported_fails have "\<not> apply_ok (ov_override r)" by blast
  with fallback_forgets_failed_override [OF clean_new run] ok
  have "config' = brake_document" "apply_controller_config yaml_limits brake_catalog 5 config' no_leds engine_new = (ov_factory r, leds', e')"
    by (auto simp: unsupported_document_def)
  with run \<open>\<not> apply_ok (ov_override r)\<close> ok show ?thesis by (simp add: override_ok_def)
qed

text \<open>
  Every enumerator of the persisted form has a spelling, and reading the spelling back gives the enumerator.
\<close>

theorem spellings_read_back:
  "(\<exists>n. name_of rule_type_names t = Some n \<and> parse_name rule_type_names n = Some t) \<and>
   (\<exists>n. name_of output_type_names u = Some n \<and> parse_name output_type_names n = Some u) \<and>
   (\<exists>n. name_of comparison_names c = Some n \<and> parse_name comparison_names n = Some c) \<and>
   (\<exists>n. name_of freshness_names f = Some n \<and> parse_name freshness_names n = Some f) \<and>
   (\<exists>n. name_of edge_names e = Some n \<and> parse_name edge_names n = Some e) \<and>
   (\<exists>n. name_of effect_names l = Some n \<and> parse_name effect_names n = Some l) \<and>
   (\<exists>n. name_of direction_names d = Some n \<and> parse_name direction_names n = Some d)"
proof -
  have read: "\<exists>n. name_of table x = Some n \<and> parse_name table n = Some x"
    if "distinct (map snd table)" "name_of table x \<noteq> None" for table :: "('e \<times> string) list" and x
    using that parse_name_of [of table x] by auto
  have t: "\<exists>n. name_of rule_type_names t = Some n \<and> parse_name rule_type_names n = Some t"
    by (rule read; cases t; simp add: rule_type_names_def name_of_def)
  have u: "\<exists>n. name_of output_type_names u = Some n \<and> parse_name output_type_names n = Some u"
    by (rule read; cases u; simp add: output_type_names_def name_of_def)
  have c: "\<exists>n. name_of comparison_names c = Some n \<and> parse_name comparison_names n = Some c"
    by (rule read; cases c; simp add: comparison_names_def name_of_def)
  have f: "\<exists>n. name_of freshness_names f = Some n \<and> parse_name freshness_names n = Some f"
    by (rule read; cases f; simp add: freshness_names_def name_of_def)
  have e: "\<exists>n. name_of edge_names e = Some n \<and> parse_name edge_names n = Some e"
    by (rule read; cases e; simp add: edge_names_def name_of_def)
  have l: "\<exists>n. name_of effect_names l = Some n \<and> parse_name effect_names n = Some l"
    by (rule read; cases l; simp add: effect_names_def name_of_def)
  have d: "\<exists>n. name_of direction_names d = Some n \<and> parse_name direction_names n = Some d"
    by (rule read; cases d; simp add: direction_names_def name_of_def)
  from t u c f e l d show ?thesis by blast
qed

end
