(* ===== verification/Config_Store.thy ===== *)
theory Config_Store
  imports Persisted_Config
begin

text \<open>
  The stored configuration override: the two-slot NVS backend
  (\<open>components/controller_config/src/persisted/nvs_config_store.cpp\<close>), the store in front of it and the choice
  of the boot configuration (\<open>config_store.cpp\<close>). The NVS operations are the interface \<open>NvsApi\<close>, a record of
  functions over a state \<open>'s\<close> of the flash; the JSON parser and serializer are parameters.
\<close>

type_synonym nvs_result = u32

type_synonym document = "u8 list"

definition nvs_ok :: nvs_result where
  "nvs_ok = 0"

definition nvs_not_found :: nvs_result where
  "nvs_not_found = 0x1102"

definition max_json_bytes :: nat where
  "max_json_bytes = 16 * 1024"

definition max_stored_json_bytes :: nat where
  "max_stored_json_bytes = 4 * 1024"

text \<open>
  \<open>get_blob\<close> without a buffer reports a size; with one it also gives the bytes it wrote to the buffer.
\<close>

record 's nvs_api =
  nv_get_u8 :: "string \<Rightarrow> 's \<Rightarrow> nvs_result \<times> u8 \<times> 's"
  nv_set_u8 :: "string \<Rightarrow> u8 \<Rightarrow> 's \<Rightarrow> nvs_result \<times> 's"
  nv_get_blob :: "string \<Rightarrow> nat option \<Rightarrow> 's \<Rightarrow> nvs_result \<times> nat \<times> document \<times> 's"
  nv_set_blob :: "string \<Rightarrow> document \<Rightarrow> 's \<Rightarrow> nvs_result \<times> 's"
  nv_erase_key :: "string \<Rightarrow> 's \<Rightarrow> nvs_result \<times> 's"
  nv_commit :: "'s \<Rightarrow> nvs_result \<times> 's"
  nv_error_name :: "nvs_result \<Rightarrow> string"

section \<open>The backend\<close>

definition active_key :: string where
  "active_key = ''active_slot''"

definition slot_count :: nat where
  "slot_count = 2"

definition slot_key :: "u8 \<Rightarrow> string" where
  "slot_key slot = [''slot_a'', ''slot_b''] ! unat slot"

definition error_message :: "'s nvs_api \<Rightarrow> string \<Rightarrow> nvs_result \<Rightarrow> string" where
  "error_message api operation result = operation @ '' failed: '' @ nv_error_name api result"

datatype blob_status = BlobMissing | BlobPresent | BlobFailed

record blob_read =
  br_status :: blob_status
  br_value :: document
  br_message :: string

definition resize :: "nat \<Rightarrow> document \<Rightarrow> document" where
  "resize n value = take n value @ replicate (n - length value) 0"

definition read_blob :: "'s nvs_api \<Rightarrow> string \<Rightarrow> 's \<Rightarrow> blob_read \<times> 's" where
  "read_blob api key s = (let (result, len, _, s1) = nv_get_blob api key None s in
     if result = nvs_not_found then (\<lparr>br_status = BlobMissing, br_value = [], br_message = []\<rparr>, s1)
     else if result \<noteq> nvs_ok
       then (\<lparr>br_status = BlobFailed, br_value = [], br_message = error_message api ''read configuration size'' result\<rparr>, s1)
     else if len = 0 \<or> max_json_bytes < len
       then (\<lparr>br_status = BlobFailed, br_value = [], br_message = ''stored configuration JSON exceeds storage bounds''\<rparr>, s1)
     else let (result1, len1, bytes, s2) = nv_get_blob api key (Some len) s1;
         value = bytes @ drop (length bytes) (replicate len 0) in
       if result1 \<noteq> nvs_ok
         then (\<lparr>br_status = BlobFailed, br_value = [], br_message = error_message api ''read configuration'' result1\<rparr>, s2)
       else (\<lparr>br_status = BlobPresent, br_value = resize len1 value, br_message = []\<rparr>, s2))"

text \<open>The slot, the error kept in \<open>active_slot_error_\<close>.\<close>

definition read_active_slot :: "'s nvs_api \<Rightarrow> 's \<Rightarrow> u8 option \<times> string option \<times> 's" where
  "read_active_slot api s = (let (result, active, s1) = nv_get_u8 api active_key s in
     if result = nvs_not_found then (None, None, s1)
     else if result \<noteq> nvs_ok then (None, Some (error_message api ''read active slot'' result), s1)
     else if slot_count \<le> unat active then (None, Some ''active slot marker is out of range'', s1)
     else (Some active, None, s1))"

datatype read_status = ReadMissing | ReadPresent | ReadFailed

record read_result =
  re_status :: read_status
  re_json :: document
  re_message :: string

definition read_override :: "'s nvs_api \<Rightarrow> 's \<Rightarrow> read_result \<times> 's" where
  "read_override api s = (let (result, active, s1) = nv_get_u8 api active_key s in
     if result = nvs_not_found then (\<lparr>re_status = ReadMissing, re_json = [], re_message = []\<rparr>, s1)
     else if result \<noteq> nvs_ok
       then (\<lparr>re_status = ReadFailed, re_json = [], re_message = error_message api ''read active slot'' result\<rparr>, s1)
     else if slot_count \<le> unat active
       then (\<lparr>re_status = ReadFailed, re_json = [], re_message = ''active slot marker is out of range''\<rparr>, s1)
     else let (blob, s2) = read_blob api (slot_key active) s1 in
       (case br_status blob of
          BlobMissing \<Rightarrow> (\<lparr>re_status = ReadFailed, re_json = [], re_message = ''active slot has no configuration JSON''\<rparr>, s2)
        | BlobFailed \<Rightarrow> (\<lparr>re_status = ReadFailed, re_json = [], re_message = br_message blob\<rparr>, s2)
        | BlobPresent \<Rightarrow> (\<lparr>re_status = ReadPresent, re_json = br_value blob, re_message = []\<rparr>, s2)))"

definition restore_marker :: "'s nvs_api \<Rightarrow> u8 option \<Rightarrow> string \<Rightarrow> 's \<Rightarrow> string \<times> 's" where
  "restore_marker api previous message s = (let (result, s1) = (case previous of
       Some slot \<Rightarrow> nv_set_u8 api active_key slot s
     | None \<Rightarrow> (let (r, s1) = nv_erase_key api active_key s in (if r = nvs_not_found then nvs_ok else r, s1))) in
     if result \<noteq> nvs_ok then (message @ ''; restore failed: '' @ error_message api ''active slot'' result, s1)
     else let (result1, s2) = nv_commit api s1 in
       if result1 \<noteq> nvs_ok then (message @ ''; restore commit failed: '' @ error_message api ''active slot'' result1, s2)
       else (message, s2))"

type_synonym write_result = "bool \<times> string"

definition restored :: "'s nvs_api \<Rightarrow> u8 option \<Rightarrow> string \<Rightarrow> 's \<Rightarrow> write_result \<times> 's" where
  "restored api previous message s = (let (m, s1) = restore_marker api previous message s in ((False, m), s1))"

text \<open>\<open>write_override\<close>, from the marker's update on and before it.\<close>

definition switch_marker :: "'s nvs_api \<Rightarrow> u8 option \<Rightarrow> u8 \<Rightarrow> document \<Rightarrow> 's \<Rightarrow> write_result \<times> 's" where
  "switch_marker api active target json s = (let (r1, s1) = nv_set_u8 api active_key target s in
     if r1 \<noteq> nvs_ok then ((False, error_message api ''write active slot'' r1), s1)
     else let (r2, s2) = nv_commit api s1 in
     if r2 \<noteq> nvs_ok then restored api active (error_message api ''commit active slot'' r2) s2
     else let (r3, verified, s3) = nv_get_u8 api active_key s2 in
     if r3 \<noteq> nvs_ok \<or> verified \<noteq> target
       then restored api active (if r3 = nvs_ok then ''active slot read-back verification failed''
         else error_message api ''read active slot'' r3) s3
     else let (blob, s4) = read_blob api (slot_key verified) s3 in
     if br_status blob \<noteq> BlobPresent \<or> br_value blob \<noteq> json
       then restored api active (if br_status blob = BlobFailed then br_message blob
         else ''active configuration read-back verification failed'') s4
     else ((True, []), s4))"

definition write_override :: "'s nvs_api \<Rightarrow> document \<Rightarrow> 's \<Rightarrow> write_result \<times> 's" where
  "write_override api json s = (if json = [] \<or> max_stored_json_bytes < length json
       then ((False, ''canonical configuration JSON exceeds storage bounds''), s)
     else let (active, active_error, s1) = read_active_slot api s in
     (case active_error of Some message \<Rightarrow> ((False, message), s1)
     | None \<Rightarrow> let target = (case active of Some slot \<Rightarrow> if slot = 0 then 1 else 0 | None \<Rightarrow> 0);
         (r1, s2) = nv_set_blob api (slot_key target) json s1 in
       if r1 \<noteq> nvs_ok then ((False, error_message api ''write configuration slot'' r1), s2)
       else let (r2, s3) = nv_commit api s2 in
       if r2 \<noteq> nvs_ok then ((False, error_message api ''commit configuration slot'' r2), s3)
       else let (written, s4) = read_blob api (slot_key target) s3 in
       if br_status written \<noteq> BlobPresent \<or> br_value written \<noteq> json
         then ((False, if br_status written = BlobFailed then br_message written
           else ''configuration slot read-back verification failed''), s4)
       else switch_marker api active target json s4))"

definition clear_override :: "'s nvs_api \<Rightarrow> 's \<Rightarrow> write_result \<times> 's" where
  "clear_override api s = (let (active, active_error, s1) = read_active_slot api s in
     if active = None \<and> active_error = None then ((True, []), s1)
     else let (r1, s2) = nv_erase_key api active_key s1 in
     if r1 \<noteq> nvs_ok \<and> r1 \<noteq> nvs_not_found then ((False, error_message api ''clear active slot'' r1), s2)
     else let (r2, s3) = nv_commit api s2 in
     if r2 \<noteq> nvs_ok then (let message = error_message api ''commit clear'' r2 in
       if active \<noteq> None then restored api active message s3 else ((False, message), s3))
     else let (r3, ignored, s4) = nv_get_u8 api active_key s3 in
     if r3 = nvs_not_found then ((True, []), s4)
     else let message = (if r3 = nvs_ok then ''clear read-back verification failed''
         else error_message api ''read cleared active slot'' r3) in
       if active \<noteq> None then restored api active message s4 else ((False, message), s4))"

section \<open>Loading and saving\<close>

text \<open>What \<open>json_loader.hpp\<close> says of a parse; the parser itself, over a third-party JSON reader, is a parameter.\<close>

datatype config_error_category = CatParse | CatStructural | CatSemantic

datatype config_error_code = MalformedJson | EmbeddedNul | InputTooLarge | NestingLimitExceeded | RootTypeMismatch | MissingField
  | UnknownField | FieldTypeMismatch | InvalidValue | SchemaValidation | ResourceExhausted

record config_diagnostic =
  cd_category :: config_error_category
  cd_code :: config_error_code
  cd_schema_error :: validation_error
  cd_index :: nat
  cd_path :: string
  cd_message :: string

record config_load =
  cf_configuration :: "controller_config option"
  cf_diagnostic :: "config_diagnostic option"

definition load_ok :: "config_load \<Rightarrow> bool" where
  "load_ok r = (cf_configuration r \<noteq> None \<and> cf_diagnostic r = None)"

type_synonym parser = "document \<Rightarrow> config_load"

datatype save_status = Saved | InvalidCandidate | SaveFailed

record save_result =
  sv_status :: save_status
  sv_json :: document
  sv_diagnostic :: "config_diagnostic option"
  sv_message :: string

text \<open>The store over a backend: the three operations of \<open>ConfigStoreBackend\<close>.\<close>

record 's backend =
  bk_read :: "'s \<Rightarrow> read_result \<times> 's"
  bk_write :: "document \<Rightarrow> 's \<Rightarrow> write_result \<times> 's"
  bk_clear :: "'s \<Rightarrow> write_result \<times> 's"

definition nvs_backend :: "'s nvs_api \<Rightarrow> 's backend" where
  "nvs_backend api = \<lparr>bk_read = read_override api, bk_write = write_override api, bk_clear = clear_override api\<rparr>"

definition too_large_message :: string where
  "too_large_message = ''canonical configuration JSON exceeds the 4 KiB override storage limit''"

definition save_override :: "parser \<Rightarrow> (controller_config \<Rightarrow> document) \<Rightarrow> 's backend \<Rightarrow> document \<Rightarrow> 's \<Rightarrow> save_result \<times> 's" where
  "save_override parse serialize bk candidate s = (let loaded = parse candidate in
     if \<not> load_ok loaded then (\<lparr>sv_status = InvalidCandidate, sv_json = [], sv_diagnostic = cf_diagnostic loaded,
       sv_message = ''candidate configuration failed canonical parsing and validation''\<rparr>, s)
     else let json = serialize (the (cf_configuration loaded)) in
     if max_stored_json_bytes < length json then (\<lparr>sv_status = InvalidCandidate, sv_json = [],
       sv_diagnostic = Some \<lparr>cd_category = CatStructural, cd_code = InputTooLarge, cd_schema_error = VNone, cd_index = 0,
         cd_path = ''$'', cd_message = too_large_message\<rparr>, sv_message = too_large_message\<rparr>, s)
     else let canonical = parse json in
     if \<not> load_ok canonical then (\<lparr>sv_status = SaveFailed, sv_json = [], sv_diagnostic = cf_diagnostic canonical,
       sv_message = ''canonical configuration serialization failed validation''\<rparr>, s)
     else let ((ok, message), s1) = bk_write bk json s in
     if \<not> ok then (\<lparr>sv_status = SaveFailed, sv_json = [], sv_diagnostic = None, sv_message = message\<rparr>, s1)
     else (\<lparr>sv_status = Saved, sv_json = json, sv_diagnostic = None, sv_message = []\<rparr>, s1))"

datatype configuration_source = FactoryDefault | PersistedOverride

record boot_configuration =
  bt_configuration :: "controller_config option"
  bt_source :: configuration_source
  bt_override_diagnostic :: "config_diagnostic option"
  bt_storage_message :: string
  bt_factory_diagnostic :: "config_diagnostic option"

definition boot_factory :: "parser \<Rightarrow> document \<Rightarrow> boot_configuration \<Rightarrow> boot_configuration" where
  "boot_factory parse factory_json result = (let factory = parse factory_json in
     if load_ok factory then result\<lparr>bt_configuration := cf_configuration factory, bt_source := FactoryDefault\<rparr>
     else result\<lparr>bt_factory_diagnostic := cf_diagnostic factory\<rparr>)"

definition load_boot_configuration :: "parser \<Rightarrow> 's backend option \<Rightarrow> document \<Rightarrow> 's \<Rightarrow> boot_configuration \<times> 's" where
  "load_boot_configuration parse store factory_json s = (let
       result = \<lparr>bt_configuration = None, bt_source = FactoryDefault, bt_override_diagnostic = None, bt_storage_message = [],
         bt_factory_diagnostic = None\<rparr> in
     (case store of None \<Rightarrow> (boot_factory parse factory_json result, s)
      | Some bk \<Rightarrow> let (stored, s1) = bk_read bk s in
        (case re_status stored of
           ReadPresent \<Rightarrow> (let parsed = parse (re_json stored) in
             if load_ok parsed then (result\<lparr>bt_configuration := cf_configuration parsed, bt_source := PersistedOverride\<rparr>, s1)
             else (boot_factory parse factory_json (result\<lparr>bt_override_diagnostic := cf_diagnostic parsed\<rparr>), s1))
         | ReadFailed \<Rightarrow> (boot_factory parse factory_json (result\<lparr>bt_storage_message := re_message stored\<rparr>), s1)
         | ReadMissing \<Rightarrow> (boot_factory parse factory_json result, s1))))"

end
