(* ===== verification/Config_Store_Laws.thy ===== *)
theory Config_Store_Laws
  imports Config_Store
begin

text \<open>
  What a power loss leaves of the stored override. The NVS operations are assumed to keep the contract
  \<open>nvs_contract\<close>: a read tells what the handle sees, a write touches its own key only and may be torn, lost
  or reported wrongly, and only a successful commit makes what the handle sees the one content that can be
  found after a power loss. A run cut after any number of NVS operations is the run over \<open>cut\<close>, whose
  operations all fail once the budget is spent.
\<close>

section \<open>The contract of the NVS interface\<close>

record flash =
  fl_u8 :: "string \<Rightarrow> u8 option"
  fl_blob :: "string \<Rightarrow> document option"

definition put_u8 :: "string \<Rightarrow> u8 option \<Rightarrow> flash \<Rightarrow> flash" where
  "put_u8 k v m = m\<lparr>fl_u8 := (fl_u8 m)(k := v)\<rparr>"

definition put_blob :: "string \<Rightarrow> document option \<Rightarrow> flash \<Rightarrow> flash" where
  "put_blob k v m = m\<lparr>fl_blob := (fl_blob m)(k := v)\<rparr>"

text \<open>
  \<open>view s\<close> is what the handle reads in state \<open>s\<close>, \<open>may s\<close> the contents a restart after a power loss in
  state \<open>s\<close> may find.
\<close>

definition get_u8_law :: "'s nvs_api \<Rightarrow> ('s \<Rightarrow> flash) \<Rightarrow> ('s \<Rightarrow> flash set) \<Rightarrow> bool" where
  "get_u8_law api view may \<longleftrightarrow> (\<forall>k s r v s'. nv_get_u8 api k s = (r, v, s') \<longrightarrow> view s' = view s \<and> may s' \<subseteq> may s \<and>
     (r = nvs_ok \<longrightarrow> fl_u8 (view s) k = Some v) \<and> (r = nvs_not_found \<longrightarrow> fl_u8 (view s) k = None))"

definition get_blob_law :: "'s nvs_api \<Rightarrow> ('s \<Rightarrow> flash) \<Rightarrow> ('s \<Rightarrow> flash set) \<Rightarrow> bool" where
  "get_blob_law api view may \<longleftrightarrow> (\<forall>k c s r n bs s'. nv_get_blob api k c s = (r, n, bs, s') \<longrightarrow> view s' = view s \<and> may s' \<subseteq> may s \<and>
     (r = nvs_ok \<longrightarrow> (\<exists>b. fl_blob (view s) k = Some b \<and> n = length b \<and> (c \<noteq> None \<longrightarrow> bs = b))) \<and>
     (r = nvs_not_found \<longrightarrow> fl_blob (view s) k = None))"

definition set_u8_law :: "'s nvs_api \<Rightarrow> ('s \<Rightarrow> flash) \<Rightarrow> ('s \<Rightarrow> flash set) \<Rightarrow> bool" where
  "set_u8_law api view may \<longleftrightarrow> (\<forall>k v s r s'. nv_set_u8 api k v s = (r, s') \<longrightarrow> view s' \<in> {view s, put_u8 k (Some v) (view s)} \<and>
     may s' \<subseteq> may s \<union> put_u8 k (Some v) ` may s)"

definition set_blob_law :: "'s nvs_api \<Rightarrow> ('s \<Rightarrow> flash) \<Rightarrow> ('s \<Rightarrow> flash set) \<Rightarrow> bool" where
  "set_blob_law api view may \<longleftrightarrow> (\<forall>k b s r s'. nv_set_blob api k b s = (r, s') \<longrightarrow> (\<exists>b'. view s' = put_blob k b' (view s)) \<and>
     may s' \<subseteq> {m'. \<exists>m \<in> may s. \<exists>b'. m' = put_blob k b' m})"

definition erase_law :: "'s nvs_api \<Rightarrow> ('s \<Rightarrow> flash) \<Rightarrow> ('s \<Rightarrow> flash set) \<Rightarrow> bool" where
  "erase_law api view may \<longleftrightarrow> (\<forall>k s r s'. nv_erase_key api k s = (r, s') \<longrightarrow>
     view s' \<in> {view s, put_blob k None (put_u8 k None (view s))} \<and>
     may s' \<subseteq> may s \<union> (\<lambda>m. put_blob k None (put_u8 k None m)) ` may s)"

definition commit_law :: "'s nvs_api \<Rightarrow> ('s \<Rightarrow> flash) \<Rightarrow> ('s \<Rightarrow> flash set) \<Rightarrow> bool" where
  "commit_law api view may \<longleftrightarrow> (\<forall>s r s'. nv_commit api s = (r, s') \<longrightarrow> view s' = view s \<and> may s' \<subseteq> insert (view s) (may s) \<and>
     (r = nvs_ok \<longrightarrow> may s' \<subseteq> {view s}))"

definition nvs_contract :: "'s nvs_api \<Rightarrow> ('s \<Rightarrow> flash) \<Rightarrow> ('s \<Rightarrow> flash set) \<Rightarrow> bool" where
  "nvs_contract api view may \<longleftrightarrow> get_u8_law api view may \<and> get_blob_law api view may \<and> set_u8_law api view may \<and>
     set_blob_law api view may \<and> erase_law api view may \<and> commit_law api view may"

text \<open>Power is lost after the given number of operations.\<close>

definition power_lost :: nvs_result where
  "power_lost = 0xFFFFFFFF"

fun cut_op :: "('s \<Rightarrow> nvs_result \<times> 's) \<Rightarrow> nat \<times> 's \<Rightarrow> nvs_result \<times> nat \<times> 's" where
  "cut_op f (0, s) = (power_lost, 0, s)"
| "cut_op f (Suc n, s) = (let (r, s') = f s in (r, n, s'))"

definition cut :: "'s nvs_api \<Rightarrow> (nat \<times> 's) nvs_api" where
  "cut api = \<lparr>
     nv_get_u8 = (\<lambda>k (n, s). case n of 0 \<Rightarrow> (power_lost, 0, 0, s) | Suc n' \<Rightarrow> (let (r, v, s') = nv_get_u8 api k s in (r, v, n', s'))),
     nv_set_u8 = (\<lambda>k v. cut_op (nv_set_u8 api k v)),
     nv_get_blob = (\<lambda>k c (n, s). case n of 0 \<Rightarrow> (power_lost, 0, [], 0, s)
       | Suc n' \<Rightarrow> (let (r, len, bs, s') = nv_get_blob api k c s in (r, len, bs, n', s'))),
     nv_set_blob = (\<lambda>k b. cut_op (nv_set_blob api k b)),
     nv_erase_key = (\<lambda>k. cut_op (nv_erase_key api k)),
     nv_commit = cut_op (nv_commit api),
     nv_error_name = nv_error_name api\<rparr>"

lemma power_lost_code: "power_lost \<noteq> nvs_ok" "power_lost \<noteq> nvs_not_found"
  by (simp_all add: power_lost_def nvs_ok_def nvs_not_found_def)

lemma put_same: "put_blob k (fl_blob m k) m = m"
  by (simp add: put_blob_def)

lemma cut_op_cases:
  "cut_op f ns = (r, ns') \<Longrightarrow> (r = power_lost \<and> snd ns' = snd ns) \<or> f (snd ns) = (r, snd ns')"
  by (cases ns; cases "fst ns") (auto split: prod.splits)

lemma cut_laws:
  "get_u8_law api view may \<Longrightarrow> get_u8_law (cut api) (view \<circ> snd) (may \<circ> snd)"
  "get_blob_law api view may \<Longrightarrow> get_blob_law (cut api) (view \<circ> snd) (may \<circ> snd)"
  "set_u8_law api view may \<Longrightarrow> set_u8_law (cut api) (view \<circ> snd) (may \<circ> snd)"
  "set_blob_law api view may \<Longrightarrow> set_blob_law (cut api) (view \<circ> snd) (may \<circ> snd)"
  "erase_law api view may \<Longrightarrow> erase_law (cut api) (view \<circ> snd) (may \<circ> snd)"
  "commit_law api view may \<Longrightarrow> commit_law (cut api) (view \<circ> snd) (may \<circ> snd)"
proof -
  assume "get_u8_law api view may"
  then show "get_u8_law (cut api) (view \<circ> snd) (may \<circ> snd)"
    using power_lost_code by (auto simp: get_u8_law_def cut_def split: nat.splits prod.splits)
next
  assume "get_blob_law api view may"
  then show "get_blob_law (cut api) (view \<circ> snd) (may \<circ> snd)"
    using power_lost_code by (auto simp: get_blob_law_def cut_def split: nat.splits prod.splits)
next
  assume L: "set_u8_law api view may"
  show "set_u8_law (cut api) (view \<circ> snd) (may \<circ> snd)"
    unfolding set_u8_law_def
  proof (intro allI impI)
    fix k v s r s' assume "nv_set_u8 (cut api) k v s = (r, s')"
    then have "snd s' = snd s \<or> nv_set_u8 api k v (snd s) = (r, snd s')" by (auto simp: cut_def dest: cut_op_cases)
    with L show "(view \<circ> snd) s' \<in> {(view \<circ> snd) s, put_u8 k (Some v) ((view \<circ> snd) s)} \<and>
        (may \<circ> snd) s' \<subseteq> (may \<circ> snd) s \<union> put_u8 k (Some v) ` (may \<circ> snd) s"
      unfolding set_u8_law_def by (elim disjE) simp_all
  qed
next
  assume L: "set_blob_law api view may"
  show "set_blob_law (cut api) (view \<circ> snd) (may \<circ> snd)"
    unfolding set_blob_law_def
  proof (intro allI impI)
    fix k b s r s' assume "nv_set_blob (cut api) k b s = (r, s')"
    then have "snd s' = snd s \<or> nv_set_blob api k b (snd s) = (r, snd s')" by (auto simp: cut_def dest: cut_op_cases)
    then show "(\<exists>b'. (view \<circ> snd) s' = put_blob k b' ((view \<circ> snd) s)) \<and>
        (may \<circ> snd) s' \<subseteq> {m'. \<exists>m \<in> (may \<circ> snd) s. \<exists>b'. m' = put_blob k b' m}"
    proof
      assume "snd s' = snd s"
      then show ?thesis using put_same by (metis (mono_tags, lifting) comp_apply mem_Collect_eq subsetI)
    qed (use L in \<open>simp add: set_blob_law_def\<close>)
  qed
next
  assume L: "erase_law api view may"
  show "erase_law (cut api) (view \<circ> snd) (may \<circ> snd)"
    unfolding erase_law_def
  proof (intro allI impI)
    fix k s r s' assume "nv_erase_key (cut api) k s = (r, s')"
    then have "snd s' = snd s \<or> nv_erase_key api k (snd s) = (r, snd s')" by (auto simp: cut_def dest: cut_op_cases)
    with L show "(view \<circ> snd) s' \<in> {(view \<circ> snd) s, put_blob k None (put_u8 k None ((view \<circ> snd) s))} \<and>
        (may \<circ> snd) s' \<subseteq> (may \<circ> snd) s \<union> (\<lambda>m. put_blob k None (put_u8 k None m)) ` (may \<circ> snd) s"
      unfolding erase_law_def by (elim disjE) simp_all
  qed
next
  assume L: "commit_law api view may"
  show "commit_law (cut api) (view \<circ> snd) (may \<circ> snd)"
    unfolding commit_law_def
  proof (intro allI impI)
    fix s r s' assume "nv_commit (cut api) s = (r, s')"
    then have "r = power_lost \<and> snd s' = snd s \<or> nv_commit api (snd s) = (r, snd s')" by (auto simp: cut_def dest: cut_op_cases)
    with L power_lost_code show "(view \<circ> snd) s' = (view \<circ> snd) s \<and> (may \<circ> snd) s' \<subseteq> insert ((view \<circ> snd) s) ((may \<circ> snd) s) \<and>
        (r = nvs_ok \<longrightarrow> (may \<circ> snd) s' \<subseteq> {(view \<circ> snd) s})"
      unfolding commit_law_def by (elim disjE) auto
  qed
qed

lemma cut_contract: "nvs_contract api view may \<Longrightarrow> nvs_contract (cut api) (view \<circ> snd) (may \<circ> snd)"
  by (simp add: nvs_contract_def cut_laws)

section \<open>What is stored\<close>

datatype stored = NoOverride | Override document | Unreadable

definition stored_of :: "flash \<Rightarrow> stored" where
  "stored_of m = (case fl_u8 m active_key of None \<Rightarrow> NoOverride
     | Some a \<Rightarrow> if slot_count \<le> unat a then Unreadable
       else (case fl_blob m (slot_key a) of None \<Rightarrow> Unreadable | Some b \<Rightarrow> Override b))"

text \<open>Everything visible now or after a power loss is in \<open>D\<close>.\<close>

definition within :: "('s \<Rightarrow> flash) \<Rightarrow> ('s \<Rightarrow> flash set) \<Rightarrow> flash set \<Rightarrow> 's \<Rightarrow> bool" where
  "within view may D s \<longleftrightarrow> view s \<in> D \<and> may s \<subseteq> D"

lemma nvs_get_u8:
  assumes "nvs_contract api view may" and "nv_get_u8 api k s = (r, v, s')"
  shows "view s' = view s \<and> may s' \<subseteq> may s \<and> (r = nvs_ok \<longrightarrow> fl_u8 (view s) k = Some v) \<and>
    (r = nvs_not_found \<longrightarrow> fl_u8 (view s) k = None)"
  using assms by (simp add: nvs_contract_def get_u8_law_def)

lemma nvs_get_blob:
  assumes "nvs_contract api view may" and "nv_get_blob api k c s = (r, n, bs, s')"
  shows "view s' = view s \<and> may s' \<subseteq> may s \<and>
    (r = nvs_ok \<longrightarrow> (\<exists>b. fl_blob (view s) k = Some b \<and> n = length b \<and> (c \<noteq> None \<longrightarrow> bs = b))) \<and>
    (r = nvs_not_found \<longrightarrow> fl_blob (view s) k = None)"
proof -
  from assms(1) have "get_blob_law api view may" by (simp add: nvs_contract_def)
  with assms(2) show ?thesis unfolding get_blob_law_def by blast
qed

lemma nvs_commit:
  assumes "nvs_contract api view may" and "nv_commit api s = (r, s')"
  shows "view s' = view s \<and> may s' \<subseteq> insert (view s) (may s) \<and> (r = nvs_ok \<longrightarrow> may s' \<subseteq> {view s})"
  using assms by (simp add: nvs_contract_def commit_law_def)

lemma nvs_set_u8:
  assumes "nvs_contract api view may" and "nv_set_u8 api k v s = (r, s')"
  shows "view s' \<in> {view s, put_u8 k (Some v) (view s)} \<and> may s' \<subseteq> may s \<union> put_u8 k (Some v) ` may s"
proof -
  from assms(1) have "set_u8_law api view may" by (simp add: nvs_contract_def)
  with assms(2) show ?thesis unfolding set_u8_law_def by blast
qed

lemma nvs_set_blob:
  assumes "nvs_contract api view may" and "nv_set_blob api k b s = (r, s')"
  shows "(\<exists>b'. view s' = put_blob k b' (view s)) \<and> may s' \<subseteq> {m'. \<exists>m \<in> may s. \<exists>b'. m' = put_blob k b' m}"
proof -
  from assms(1) have "set_blob_law api view may" by (simp add: nvs_contract_def)
  with assms(2) show ?thesis unfolding set_blob_law_def by blast
qed

lemma nvs_erase_key:
  assumes "nvs_contract api view may" and "nv_erase_key api k s = (r, s')"
  shows "view s' \<in> {view s, put_blob k None (put_u8 k None (view s))} \<and>
    may s' \<subseteq> may s \<union> (\<lambda>m. put_blob k None (put_u8 k None m)) ` may s"
proof -
  from assms(1) have "erase_law api view may" by (simp add: nvs_contract_def)
  with assms(2) show ?thesis unfolding erase_law_def by blast
qed

lemma within_get_u8:
  assumes "nvs_contract api view may" "within view may D s" "nv_get_u8 api k s = (r, v, s')"
  shows "within view may D s'"
  using nvs_get_u8 [OF assms(1,3)] assms(2) by (auto simp: within_def)

lemma within_commit:
  assumes "nvs_contract api view may" "within view may D s" "nv_commit api s = (r, s')"
  shows "within view may D s'"
  using nvs_commit [OF assms(1,3)] assms(2) by (auto simp: within_def)

lemma within_set_u8:
  assumes "nvs_contract api view may" "within view may D s" "nv_set_u8 api k v s = (r, s')"
    "\<And>m. m \<in> D \<Longrightarrow> put_u8 k (Some v) m \<in> D"
  shows "within view may D s'"
proof -
  have D: "view s \<in> D" "may s \<subseteq> D" using assms(2) by (simp_all add: within_def)
  with nvs_set_u8 [OF assms(1,3)] assms(4) have "view s' \<in> D" by auto
  moreover have "m \<in> D" if "m \<in> may s'" for m
    using that D nvs_set_u8 [OF assms(1,3)] by (auto intro: assms(4) dest!: subsetD [of "may s'"])
  ultimately show ?thesis by (auto simp: within_def)
qed

lemma within_set_blob:
  assumes "nvs_contract api view may" "within view may D s" "nv_set_blob api k b s = (r, s')"
    "\<And>m b'. m \<in> D \<Longrightarrow> put_blob k b' m \<in> D"
  shows "within view may D s'"
proof -
  have D: "view s \<in> D" "may s \<subseteq> D" using assms(2) by (simp_all add: within_def)
  with nvs_set_blob [OF assms(1,3)] assms(4) have "view s' \<in> D" by auto
  moreover have "m \<in> D" if "m \<in> may s'" for m
    using that D nvs_set_blob [OF assms(1,3)] by (auto intro: assms(4) dest!: subsetD [of "may s'"])
  ultimately show ?thesis by (auto simp: within_def)
qed

lemma within_erase:
  assumes "nvs_contract api view may" "within view may D s" "nv_erase_key api k s = (r, s')"
    "\<And>m. m \<in> D \<Longrightarrow> put_blob k None (put_u8 k None m) \<in> D"
  shows "within view may D s'"
proof -
  have D: "view s \<in> D" "may s \<subseteq> D" using assms(2) by (simp_all add: within_def)
  with nvs_erase_key [OF assms(1,3)] assms(4) have "view s' \<in> D" by auto
  moreover have "m \<in> D" if "m \<in> may s'" for m
    using that D nvs_erase_key [OF assms(1,3)] by (auto intro: assms(4) dest!: subsetD [of "may s'"])
  ultimately show ?thesis by (auto simp: within_def)
qed

lemma read_blob_reads:
  assumes C: "nvs_contract api view may" and "read_blob api k s = (br, s')"
  shows "view s' = view s \<and> may s' \<subseteq> may s \<and> (br_status br = BlobPresent \<longrightarrow> fl_blob (view s) k = Some (br_value br)) \<and>
    (br_status br = BlobMissing \<longrightarrow> fl_blob (view s) k = None) \<and> (br_status br = BlobFailed \<longrightarrow> br_message br \<noteq> [])"
proof -
  obtain r n bs s1 where a: "nv_get_blob api k None s = (r, n, bs, s1)" by (metis prod.exhaust)
  obtain r1 n1 bs1 s2 where b: "nv_get_blob api k (Some n) s1 = (r1, n1, bs1, s2)" by (metis prod.exhaust)
  note A = nvs_get_blob [OF C a] and B = nvs_get_blob [OF C b]
  have size: "resize n1 (bs1 @ drop (length bs1) (replicate n 0)) = bs1" if "n1 = length bs1"
    using that by (simp add: resize_def)
  consider "r = nvs_not_found" | "r \<noteq> nvs_not_found" "r \<noteq> nvs_ok" | "r \<noteq> nvs_not_found" "r = nvs_ok" "n = 0 \<or> max_json_bytes < n"
    | "r \<noteq> nvs_not_found" "r = nvs_ok" "n \<noteq> 0" "\<not> max_json_bytes < n" by blast
  then show ?thesis
  proof cases
    case 4
    with assms(2) a b A B size show ?thesis by (cases "r1 = nvs_ok") (auto simp: read_blob_def error_message_def)
  qed (use assms(2) a A in \<open>auto simp: read_blob_def error_message_def\<close>)
qed

lemma within_read_blob:
  assumes "nvs_contract api view may" "within view may D s" "read_blob api k s = (br, s')"
  shows "within view may D s'"
  using read_blob_reads [OF assms(1,3)] assms(2) by (auto simp: within_def)

lemma read_override_reads:
  assumes C: "nvs_contract api view may" and "read_override api s = (re, s')"
  shows "view s' = view s \<and> may s' \<subseteq> may s \<and> (re_status re = ReadPresent \<longrightarrow> stored_of (view s) = Override (re_json re)) \<and>
    (re_status re = ReadMissing \<longrightarrow> stored_of (view s) = NoOverride) \<and> (re_status re = ReadFailed \<longrightarrow> re_message re \<noteq> [])"
proof -
  obtain r a s1 where a: "nv_get_u8 api active_key s = (r, a, s1)" by (metis prod.exhaust)
  obtain br s2 where b: "read_blob api (slot_key a) s1 = (br, s2)" by (metis prod.exhaust)
  note A = nvs_get_u8 [OF C a] and B = read_blob_reads [OF C b]
  consider "r = nvs_not_found" | "r \<noteq> nvs_not_found" "r \<noteq> nvs_ok" | "r \<noteq> nvs_not_found" "r = nvs_ok" "slot_count \<le> unat a"
    | "r \<noteq> nvs_not_found" "r = nvs_ok" "\<not> slot_count \<le> unat a" by blast
  then show ?thesis
  proof cases
    case 4
    with assms(2) a b A B show ?thesis by (cases "br_status br") (auto simp: read_override_def stored_of_def)
  qed (use assms(2) a A in \<open>auto simp: read_override_def error_message_def stored_of_def\<close>)
qed

lemma read_active_reads:
  assumes C: "nvs_contract api view may" and "read_active_slot api s = (active, err, s')"
  shows "view s' = view s \<and> may s' \<subseteq> may s \<and>
    (err = None \<longrightarrow> fl_u8 (view s) active_key = active \<and> (\<forall>a. active = Some a \<longrightarrow> unat a < slot_count))"
proof -
  obtain r a s1 where a: "nv_get_u8 api active_key s = (r, a, s1)" by (metis prod.exhaust)
  from nvs_get_u8 [OF C a] assms(2) a show ?thesis
    by (auto simp: read_active_slot_def Let_def split: if_splits)
qed

lemma within_restored:
  assumes C: "nvs_contract api view may" and "within view may D s" "restored api previous message s = (w, s')"
    "\<And>m slot. m \<in> D \<Longrightarrow> previous = Some slot \<Longrightarrow> put_u8 active_key (Some slot) m \<in> D"
    "\<And>m. m \<in> D \<Longrightarrow> previous = None \<Longrightarrow> put_blob active_key None (put_u8 active_key None m) \<in> D"
  shows "within view may D s' \<and> \<not> fst w"
proof -
  obtain r s1 where a: "(case previous of Some slot \<Rightarrow> nv_set_u8 api active_key slot s
     | None \<Rightarrow> (let (r, s1) = nv_erase_key api active_key s in (if r = nvs_not_found then nvs_ok else r, s1))) = (r, s1)" by fastforce
  have w1: "within view may D s1"
  proof (cases previous)
    case None
    obtain r0 where "nv_erase_key api active_key s = (r0, s1)" using a None by (auto split: prod.splits)
    from within_erase [OF C assms(2) this] assms(5) None show ?thesis by simp
  next
    case (Some slot)
    with a have "nv_set_u8 api active_key slot s = (r, s1)" by simp
    from within_set_u8 [OF C assms(2) this] assms(4) Some show ?thesis by simp
  qed
  obtain r2 s2 where c: "nv_commit api s1 = (r2, s2)" by fastforce
  from within_commit [OF C w1 c] w1 assms(3) a c show ?thesis
    by (auto simp: restored_def restore_marker_def split: if_splits)
qed

section \<open>Writing and clearing\<close>

lemma slot_keys: "unat a < slot_count \<Longrightarrow> slot_key a \<noteq> active_key"
  "unat a < slot_count \<Longrightarrow> unat b < slot_count \<Longrightarrow> slot_key a = slot_key b \<longleftrightarrow> a = b"
proof -
  have two: "unat x < 2 \<Longrightarrow> x = 0 \<or> x = 1" for x :: u8
    by (metis less_2_cases unat_eq_zero One_nat_def unat_1 word_eq_iff_unsigned)
  show "unat a < slot_count \<Longrightarrow> slot_key a \<noteq> active_key"
    using two [of a] by (auto simp: slot_count_def slot_key_def active_key_def)
  show "unat a < slot_count \<Longrightarrow> unat b < slot_count \<Longrightarrow> slot_key a = slot_key b \<longleftrightarrow> a = b"
    using two [of a] two [of b] by (auto simp: slot_count_def slot_key_def)
qed

text \<open>While the inactive slot is written, the marker and the active slot stay.\<close>

definition slot_written :: "flash \<Rightarrow> string \<Rightarrow> flash set" where
  "slot_written m0 key = {m. fl_u8 m active_key = fl_u8 m0 active_key \<and> (\<forall>k. k \<noteq> key \<longrightarrow> fl_blob m k = fl_blob m0 k)}"

lemma slot_written_put: "m \<in> slot_written m0 key \<Longrightarrow> put_blob key b m \<in> slot_written m0 key"
  by (simp add: slot_written_def put_blob_def)

lemma slot_written_stored:
  assumes "m \<in> slot_written m0 (slot_key target)" "unat target < slot_count" "fl_u8 m0 active_key \<noteq> Some target"
  shows "stored_of m = stored_of m0"
  using assms slot_keys(2) [of _ target]
  by (auto simp: stored_of_def slot_written_def not_le split: option.splits)

text \<open>While the marker moves, both slots stay.\<close>

definition marker_moved :: "flash \<Rightarrow> u8 \<Rightarrow> flash set" where
  "marker_moved m0 target = {m. fl_u8 m active_key \<in> {fl_u8 m0 active_key, Some target} \<and>
     (\<forall>a. unat a < slot_count \<longrightarrow> fl_blob m (slot_key a) = fl_blob m0 (slot_key a))}"

lemma marker_moved_stored:
  assumes "m \<in> marker_moved m0 target" "unat target < slot_count" "fl_blob m0 (slot_key target) = Some json"
  shows "stored_of m \<in> {stored_of m0, Override json}"
  using assms by (auto simp: stored_of_def marker_moved_def not_le split: option.splits)

lemma switch_marker_safe:
  assumes C: "nvs_contract api view may" and "within view may {view s} s" and target: "unat target < slot_count"
    and active: "fl_u8 (view s) active_key = active" and slot: "fl_blob (view s) (slot_key target) = Some json"
    and run: "switch_marker api active target json s = (w, s')"
  shows "within view may {m. stored_of m \<in> {stored_of (view s), Override json}} s' \<and>
    (fst w \<longrightarrow> within view may {view s'} s' \<and> stored_of (view s') = Override json)"
proof -
  let ?D = "marker_moved (view s) target"
  have w0: "within view may ?D s" using assms(2) by (auto simp: within_def marker_moved_def)
  obtain r1 s1 where o1: "nv_set_u8 api active_key target s = (r1, s1)" by fastforce
  have w1: "within view may ?D s1"
    by (rule within_set_u8 [OF C w0 o1]) (auto simp: marker_moved_def put_u8_def)
  obtain r2 s2 where o2: "nv_commit api s1 = (r2, s2)" by fastforce
  note w2 = within_commit [OF C w1 o2]
  obtain r3 v s3 where o3: "nv_get_u8 api active_key s2 = (r3, v, s3)" by (metis prod.exhaust)
  note w3 = within_get_u8 [OF C w2 o3]
  obtain br s4 where o4: "read_blob api (slot_key v) s3 = (br, s4)" by fastforce
  note w4 = within_read_blob [OF C w3 o4]
  have undone: "within view may ?D t' \<and> \<not> fst x" if "within view may ?D t" "restored api active msg t = (x, t')" for msg t x t'
    by (rule within_restored [OF C that])
       (use active slot_keys(1) in \<open>auto simp: marker_moved_def put_u8_def put_blob_def\<close>)
  have fin: "within view may {m. stored_of m \<in> {stored_of (view s), Override json}} t" if "within view may ?D t" for t
    using that marker_moved_stored [OF _ target slot] by (auto simp: within_def)
  consider "r1 \<noteq> nvs_ok" | "r1 = nvs_ok" "r2 \<noteq> nvs_ok" | "r1 = nvs_ok" "r2 = nvs_ok" "r3 \<noteq> nvs_ok \<or> v \<noteq> target"
    | "r1 = nvs_ok" "r2 = nvs_ok" "r3 = nvs_ok" "v = target" "br_status br \<noteq> BlobPresent \<or> br_value br \<noteq> json"
    | "r1 = nvs_ok" "r2 = nvs_ok" "r3 = nvs_ok" "v = target" "br_status br = BlobPresent" "br_value br = json" by blast
  then show ?thesis
  proof cases
    case 1
    with run o1 fin [OF w1] show ?thesis by (auto simp: switch_marker_def)
  next
    case 2
    with run o1 o2 have "restored api active (error_message api ''commit active slot'' r2) s2 = (w, s')"
      by (simp add: switch_marker_def)
    from undone [OF w2 this] fin show ?thesis by blast
  next
    case 3
    with run o1 o2 o3 obtain msg where "restored api active msg s3 = (w, s')"
      by (auto simp: switch_marker_def)
    from undone [OF w3 this] fin show ?thesis by blast
  next
    case 4
    with run o1 o2 o3 o4 obtain msg where "restored api active msg s4 = (w, s')"
      by (auto simp: switch_marker_def)
    from undone [OF w4 this] fin show ?thesis by blast
  next
    case 5
    with run o1 o2 o3 o4 have "w = (True, [])" "s' = s4" by (auto simp: switch_marker_def)
    moreover have "view s4 = view s1" "may s4 \<subseteq> {view s1}"
      using nvs_commit [OF C o2] nvs_get_u8 [OF C o3] read_blob_reads [OF C o4] 5 by auto
    moreover have "stored_of (view s1) = Override json"
      using nvs_commit [OF C o2] nvs_get_u8 [OF C o3] read_blob_reads [OF C o4] 5 target by (simp add: stored_of_def)
    ultimately show ?thesis by (auto simp: within_def)
  qed
qed

lemma write_override_safe:
  assumes C: "nvs_contract api view may" and settled: "may s \<subseteq> {view s}" and run: "write_override api json s = (w, s')"
  shows "within view may {m. stored_of m \<in> {stored_of (view s), Override json}} s' \<and>
    (fst w \<longrightarrow> within view may {view s'} s' \<and> stored_of (view s') = Override json)"
proof -
  obtain active err s1 where o1: "read_active_slot api s = (active, err, s1)" by (metis prod.exhaust)
  note A = read_active_reads [OF C o1]
  define target where "target = (case active of Some slot \<Rightarrow> if slot = 0 then 1 else 0 | None \<Rightarrow> (0 :: u8))"
  have target: "unat target < slot_count" "active \<noteq> Some target"
    by (auto simp: target_def slot_count_def split: option.split)
  obtain r2 s2 where o2: "nv_set_blob api (slot_key target) json s1 = (r2, s2)" by fastforce
  obtain r3 s3 where o3: "nv_commit api s2 = (r3, s3)" by fastforce
  obtain br s4 where o4: "read_blob api (slot_key target) s3 = (br, s4)" by fastforce
  let ?D = "slot_written (view s) (slot_key target)"
  have w1: "within view may ?D s1" using A settled by (auto simp: within_def slot_written_def)
  have w2: "within view may ?D s2" by (rule within_set_blob [OF C w1 o2 slot_written_put])
  note w3 = within_commit [OF C w2 o3]
  note w4 = within_read_blob [OF C w3 o4]
  have fin: "within view may {m. stored_of m \<in> {stored_of (view s), Override json}} t" if "within view may ?D t" "err = None" for t
    using that slot_written_stored [OF _ target(1)] A target(2) by (auto simp: within_def)
  have still: "within view may {m. stored_of m \<in> {stored_of (view s), Override json}} t" if "view t = view s" "may t \<subseteq> may s" for t
    using that settled by (auto simp: within_def)
  consider "json = [] \<or> max_stored_json_bytes < length json" | m where "\<not> (json = [] \<or> max_stored_json_bytes < length json)" "err = Some m"
    | "\<not> (json = [] \<or> max_stored_json_bytes < length json)" "err = None" by (cases err) auto
  then show ?thesis
  proof cases
    case 1
    with run still [of s] show ?thesis by (auto simp: write_override_def)
  next
    case 2
    with run o1 still [of s1] A show ?thesis by (auto simp: write_override_def)
  next
    case valid: 3
    show ?thesis
    proof (cases "r2 = nvs_ok \<and> r3 = nvs_ok \<and> br_status br = BlobPresent \<and> br_value br = json")
      case False
      then have "s' \<in> {s2, s3, s4} \<and> \<not> fst w"
        using run valid o1 o2 o3 o4 by (auto simp: write_override_def Let_def target_def [symmetric] split: if_splits)
      with fin w2 w3 w4 valid(2) show ?thesis by blast
    next
      case True
      then have sw: "switch_marker api active target json s4 = (w, s')"
        using run valid o1 o2 o3 o4 by (simp add: write_override_def Let_def target_def [symmetric])
      have v4: "view s4 = view s3" "may s4 \<subseteq> may s3" "fl_blob (view s4) (slot_key target) = Some json"
        using read_blob_reads [OF C o4] True by auto
      have "within view may {view s4} s4" using nvs_commit [OF C o3] True v4 by (auto simp: within_def)
      moreover have "fl_u8 (view s4) active_key = active" using w4 A valid(2) by (auto simp: within_def slot_written_def)
      ultimately have "within view may {m. stored_of m \<in> {stored_of (view s4), Override json}} s' \<and>
          (fst w \<longrightarrow> within view may {view s'} s' \<and> stored_of (view s') = Override json)"
        by (rule switch_marker_safe [OF C _ target(1) _ v4(3) sw])
      moreover have "stored_of (view s4) = stored_of (view s)"
        using w4 slot_written_stored [OF _ target(1), of "view s4" "view s"] A valid(2) target(2) by (auto simp: within_def)
      ultimately show ?thesis by simp
    qed
  qed
qed

text \<open>While the marker is erased, everything but the marker stays.\<close>

definition marker_erased :: "flash \<Rightarrow> flash set" where
  "marker_erased m0 = {m. fl_u8 m active_key \<in> {fl_u8 m0 active_key, None} \<and>
     (\<forall>a. unat a < slot_count \<longrightarrow> fl_blob m (slot_key a) = fl_blob m0 (slot_key a))}"

lemma marker_erased_stored: "m \<in> marker_erased m0 \<Longrightarrow> stored_of m \<in> {stored_of m0, NoOverride}"
  by (auto simp: stored_of_def marker_erased_def not_le split: option.splits)

lemma clear_override_safe:
  assumes C: "nvs_contract api view may" and settled: "may s \<subseteq> {view s}" and run: "clear_override api s = (w, s')"
  shows "within view may {m. stored_of m \<in> {stored_of (view s), NoOverride}} s' \<and>
    (fst w \<longrightarrow> within view may {view s'} s' \<and> stored_of (view s') = NoOverride)"
proof -
  obtain active err s1 where o1: "read_active_slot api s = (active, err, s1)" by (metis prod.exhaust)
  note A = read_active_reads [OF C o1]
  let ?D = "marker_erased (view s)"
  have w1: "within view may ?D s1" using A settled by (auto simp: within_def marker_erased_def)
  obtain r2 s2 where o2: "nv_erase_key api active_key s1 = (r2, s2)" by fastforce
  have w2: "within view may ?D s2"
    by (rule within_erase [OF C w1 o2]) (use slot_keys(1) in \<open>auto simp: marker_erased_def put_u8_def put_blob_def\<close>)
  obtain r3 s3 where o3: "nv_commit api s2 = (r3, s3)" by fastforce
  note w3 = within_commit [OF C w2 o3]
  obtain r4 v s4 where o4: "nv_get_u8 api active_key s3 = (r4, v, s4)" by (metis prod.exhaust)
  note w4 = within_get_u8 [OF C w3 o4]
  have fin: "within view may {m. stored_of m \<in> {stored_of (view s), NoOverride}} t" if "within view may ?D t" for t
    using that marker_erased_stored by (fastforce simp: within_def)
  have undone: "within view may ?D t' \<and> \<not> fst x"
    if "within view may ?D t" "restored api active msg t = (x, t')" "active \<noteq> None" for msg t x t'
  proof -
    have e: "err = None" using o1 that(3) by (auto simp: read_active_slot_def Let_def split: if_splits prod.splits)
    show ?thesis
      by (rule within_restored [OF C that(1,2)]) (use A e that(3) in \<open>auto simp: marker_erased_def put_u8_def\<close>)
  qed
  consider "active = None \<and> err = None" | "\<not> (active = None \<and> err = None)" "r2 \<noteq> nvs_ok \<and> r2 \<noteq> nvs_not_found"
    | "\<not> (active = None \<and> err = None)" "\<not> (r2 \<noteq> nvs_ok \<and> r2 \<noteq> nvs_not_found)" "r3 \<noteq> nvs_ok"
    | "\<not> (active = None \<and> err = None)" "\<not> (r2 \<noteq> nvs_ok \<and> r2 \<noteq> nvs_not_found)" "r3 = nvs_ok" "r4 \<noteq> nvs_not_found"
    | "\<not> (active = None \<and> err = None)" "\<not> (r2 \<noteq> nvs_ok \<and> r2 \<noteq> nvs_not_found)" "r3 = nvs_ok" "r4 = nvs_not_found" by blast
  then show ?thesis
  proof cases
    case 1
    with run o1 have "w = (True, [])" "s' = s1" by (auto simp: clear_override_def)
    with A 1 settled fin [OF w1] show ?thesis by (auto simp: within_def stored_of_def)
  next
    case 2
    with run o1 o2 have "s' = s2" "\<not> fst w" by (auto simp: clear_override_def)
    with fin [OF w2] show ?thesis by simp
  next
    case 3
    with run o1 o2 o3 have "(active = None \<longrightarrow> s' = s3 \<and> \<not> fst w) \<and> (active \<noteq> None \<longrightarrow> (\<exists>msg. restored api active msg s3 = (w, s')))"
      by (auto simp: clear_override_def Let_def)
    with undone [OF w3] fin w3 show ?thesis by (cases active) blast+
  next
    case 4
    with run o1 o2 o3 o4 have "(active = None \<longrightarrow> s' = s4 \<and> \<not> fst w) \<and> (active \<noteq> None \<longrightarrow> (\<exists>msg. restored api active msg s4 = (w, s')))"
      by (auto simp: clear_override_def Let_def)
    with undone [OF w4] fin w4 show ?thesis by (cases active) blast+
  next
    case 5
    with run o1 o2 o3 o4 have w: "w = (True, [])" "s' = s4" by (auto simp: clear_override_def Let_def)
    have "view s4 = view s2" "may s4 \<subseteq> {view s2}" "fl_u8 (view s2) active_key = None"
      using nvs_commit [OF C o3] nvs_get_u8 [OF C o4] 5 by auto
    with w fin [OF w4] show ?thesis by (auto simp: within_def stored_of_def)
  qed
qed

section \<open>Power loss and the next boot\<close>

text \<open>
  C11: Saving an override survives a power loss after any number of NVS operations, and any operation that
  fails or tears its own key: what a restart finds is the override stored before or the whole new document,
  never a mixture and never an unreadable slot that was readable before. A save reported as done has the new
  document as the only content a restart can find, verified by reading it back.
\<close>

theorem save_is_atomic_under_power_loss:
  assumes "nvs_contract api view may" and "may s \<subseteq> {view s}"
    and "write_override (cut api) json (n, s) = ((ok, message), n', s')"
  shows "(\<forall>m \<in> may s'. stored_of m \<in> {stored_of (view s), Override json}) \<and>
    (ok \<longrightarrow> may s' \<subseteq> {view s'} \<and> stored_of (view s') = Override json)"
  using write_override_safe [OF cut_contract [OF assms(1)] _ assms(3)] assms(2) by (auto simp: within_def)

text \<open>
  C14: Clearing the override survives a power loss after any number of NVS operations: a restart finds the
  override stored before or none, and a clear reported as done leaves none, also when the marker was damaged.
\<close>

theorem clear_is_atomic_under_power_loss:
  assumes "nvs_contract api view may" and "may s \<subseteq> {view s}"
    and "clear_override (cut api) (n, s) = ((ok, message), n', s')"
  shows "(\<forall>m \<in> may s'. stored_of m \<in> {stored_of (view s), NoOverride}) \<and>
    (ok \<longrightarrow> may s' \<subseteq> {view s'} \<and> stored_of (view s') = NoOverride)"
  using clear_override_safe [OF cut_contract [OF assms(1)] _ assms(3)] assms(2) by (auto simp: within_def)

lemma boot_factory_source:
  "bt_source (boot_factory parse f r) = PersistedOverride \<Longrightarrow> bt_source r = PersistedOverride"
  "bt_storage_message (boot_factory parse f r) = bt_storage_message r"
  by (auto simp: boot_factory_def Let_def split: if_splits)

lemma boot_reads:
  assumes C: "nvs_contract api view may" and "load_boot_configuration parse (Some (nvs_backend api)) factory s = (b, s')"
  shows "bt_source b = PersistedOverride \<Longrightarrow> \<exists>j. stored_of (view s) = Override j \<and> load_ok (parse j) \<and>
      bt_configuration b = cf_configuration (parse j)"
    and "stored_of (view s) = Override j \<Longrightarrow> load_ok (parse j) \<Longrightarrow> bt_storage_message b = [] \<Longrightarrow>
      bt_source b = PersistedOverride \<and> bt_configuration b = cf_configuration (parse j)"
proof -
  obtain re s1 where r: "read_override api s = (re, s1)" by fastforce
  note R = read_override_reads [OF C r]
  show "\<exists>j. stored_of (view s) = Override j \<and> load_ok (parse j) \<and> bt_configuration b = cf_configuration (parse j)"
    if "bt_source b = PersistedOverride"
    using that assms(2) r R by (cases "re_status re")
      (auto simp: load_boot_configuration_def nvs_backend_def Let_def split: if_splits dest!: boot_factory_source(1))
  show "bt_source b = PersistedOverride \<and> bt_configuration b = cf_configuration (parse j)"
    if "stored_of (view s) = Override j" "load_ok (parse j)" "bt_storage_message b = []"
    using that assms(2) r R by (cases "re_status re")
      (auto simp: load_boot_configuration_def nvs_backend_def Let_def boot_factory_source(2))
qed

lemma save_override_writes:
  assumes "save_override parse serialize bk candidate s = (res, s')"
  shows "(sv_status res \<noteq> Saved \<and> s' = s) \<or> (\<exists>json c w. cf_configuration (parse candidate) = Some c \<and> json = serialize c \<and>
    load_ok (parse json) \<and> bk_write bk json s = (w, s') \<and> (sv_status res = Saved \<longleftrightarrow> fst w) \<and> (fst w \<longrightarrow> sv_json res = json))"
  using assms by (auto simp: save_override_def Let_def load_ok_def split: if_splits prod.splits)

text \<open>
  C12: A candidate that is saved, whatever power loss or storage failure comes in between, and the boot after
  it: the configuration booted from storage is the parse of the override stored before or of the candidate's
  canonical form, and after a save reported as done, a boot that can read the storage boots exactly the
  candidate's canonical form.
\<close>

theorem boot_after_save:
  assumes C: "nvs_contract api view may" and settled: "may s \<subseteq> {view s}"
    and save: "save_override parse serialize (nvs_backend (cut api)) candidate (n, s) = (res, n', s')"
    and restart: "view t \<in> may s'"
    and boot: "load_boot_configuration parse (Some (nvs_backend api)) factory t = (b, t')"
  shows "(bt_source b = PersistedOverride \<longrightarrow> (\<exists>j. load_ok (parse j) \<and> bt_configuration b = cf_configuration (parse j) \<and>
        (stored_of (view s) = Override j \<or> (\<exists>c. cf_configuration (parse candidate) = Some c \<and> j = serialize c)))) \<and>
    (sv_status res = Saved \<and> bt_storage_message b = [] \<longrightarrow> bt_source b = PersistedOverride \<and>
        bt_configuration b = cf_configuration (parse (sv_json res)))"
proof -
  from save_override_writes [OF save] show ?thesis
  proof (elim disjE exE conjE)
    assume "sv_status res \<noteq> Saved" "(n', s') = (n, s)"
    with restart settled have "view t = view s" by auto
    with \<open>sv_status res \<noteq> Saved\<close> boot_reads(1) [OF C boot] show ?thesis by auto
  next
    fix json c w
    assume c: "cf_configuration (parse candidate) = Some c" "json = serialize c" and ok: "load_ok (parse json)"
      and wr: "bk_write (nvs_backend (cut api)) json (n, s) = (w, n', s')" and st: "(sv_status res = Saved) = fst w"
      and js: "fst w \<longrightarrow> sv_json res = json"
    obtain good message where w: "w = (good, message)" by fastforce
    have "write_override (cut api) json (n, s) = ((good, message), n', s')" using wr w by (simp add: nvs_backend_def)
    from write_override_safe [OF cut_contract [OF C] _ this] settled restart
    have m: "stored_of (view t) \<in> {stored_of (view s), Override json}" "good \<Longrightarrow> stored_of (view t) = Override json"
      by (auto simp: within_def)
    from boot_reads(1) [OF C boot] m(1) c
    have "bt_source b = PersistedOverride \<longrightarrow> (\<exists>j. load_ok (parse j) \<and> bt_configuration b = cf_configuration (parse j) \<and>
        (stored_of (view s) = Override j \<or> (\<exists>c. cf_configuration (parse candidate) = Some c \<and> j = serialize c)))" by fastforce
    moreover have "sv_status res = Saved \<and> bt_storage_message b = [] \<longrightarrow> bt_source b = PersistedOverride \<and>
        bt_configuration b = cf_configuration (parse (sv_json res))"
      using boot_reads(2) [OF C boot] m(2) ok st js w by auto
    ultimately show ?thesis by blast
  qed
qed

section \<open>A concrete flash\<close>

text \<open>What the handle sees and what is durable; a commit makes the first the second.\<close>

definition ram_nvs :: "(flash \<times> flash) nvs_api" where
  "ram_nvs = \<lparr>
     nv_get_u8 = (\<lambda>k (m, d). case fl_u8 m k of None \<Rightarrow> (nvs_not_found, 0, m, d) | Some v \<Rightarrow> (nvs_ok, v, m, d)),
     nv_set_u8 = (\<lambda>k v (m, d). (nvs_ok, put_u8 k (Some v) m, d)),
     nv_get_blob = (\<lambda>k c (m, d). case fl_blob m k of None \<Rightarrow> (nvs_not_found, 0, [], m, d) | Some b \<Rightarrow> (nvs_ok, length b, b, m, d)),
     nv_set_blob = (\<lambda>k b (m, d). (nvs_ok, put_blob k (Some b) m, d)),
     nv_erase_key = (\<lambda>k (m, d). (nvs_ok, put_blob k None (put_u8 k None m), d)),
     nv_commit = (\<lambda>(m, d). (nvs_ok, m, m)),
     nv_error_name = (\<lambda>r. ''ERROR'')\<rparr>"

lemma ram_nvs_contract: "nvs_contract ram_nvs fst (\<lambda>s. {snd s})"
  by (auto simp: nvs_contract_def get_u8_law_def get_blob_law_def set_u8_law_def set_blob_law_def erase_law_def commit_law_def
      ram_nvs_def nvs_ok_def nvs_not_found_def split: option.splits)
     (metis put_same)+

text \<open>An override in slot 0.\<close>

definition old_flash :: flash where
  "old_flash = \<lparr>fl_u8 = Map.empty(active_key \<mapsto> 0), fl_blob = Map.empty(slot_key 0 \<mapsto> [1])\<rparr>"

lemma cut_op_if: "cut_op f (n, s) = (if n = 0 then (power_lost, 0, s) else (let (r, s') = f s in (r, n - 1, s')))"
  by (cases n) auto

lemmas ram_simps = ram_nvs_def cut_def old_flash_def read_active_slot_def read_blob_def resize_def put_u8_def put_blob_def
  active_key_def slot_key_def slot_count_def nvs_ok_def nvs_not_found_def power_lost_def max_json_bytes_def max_stored_json_bytes_def

lemma ram_save: "fst (write_override (cut ram_nvs) [7] (20, old_flash, old_flash)) = (True, [])"
  by (simp add: write_override_def switch_marker_def ram_simps cut_op_if del: cut_op.simps)

lemma ram_clear: "fst (clear_override (cut ram_nvs) (20, old_flash, old_flash)) = (True, [])"
  by (simp add: clear_override_def ram_simps cut_op_if del: cut_op.simps)

theorem save_is_atomic_under_power_loss_witness:
  "\<exists>n' s'. write_override (cut ram_nvs) [7] (20, old_flash, old_flash) = ((True, []), n', s') \<and> stored_of (fst s') = Override [7]"
proof -
  obtain n' s' where run: "write_override (cut ram_nvs) [7] (20, old_flash, old_flash) = ((True, []), n', s')"
    using ram_save by (metis prod.collapse)
  from save_is_atomic_under_power_loss [OF ram_nvs_contract _ run] run show ?thesis by auto
qed

theorem clear_is_atomic_under_power_loss_witness:
  "\<exists>n' s'. clear_override (cut ram_nvs) (20, old_flash, old_flash) = ((True, []), n', s') \<and> stored_of (fst s') = NoOverride"
proof -
  obtain n' s' where run: "clear_override (cut ram_nvs) (20, old_flash, old_flash) = ((True, []), n', s')"
    using ram_clear by (metis prod.collapse)
  from clear_is_atomic_under_power_loss [OF ram_nvs_contract _ run] run show ?thesis by auto
qed

text \<open>A parser that takes every document for one of as many pixels as its first byte says.\<close>

definition byte_config :: "u8 \<Rightarrow> controller_config" where
  "byte_config x = \<lparr>cc_version = 1, cc_pixel_count = uint x, cc_actions = [], cc_rules = [], cc_outputs = []\<rparr>"

definition byte_parse :: parser where
  "byte_parse j = (case j of [] \<Rightarrow> \<lparr>cf_configuration = None, cf_diagnostic = None\<rparr>
     | x # xs \<Rightarrow> \<lparr>cf_configuration = Some (byte_config x), cf_diagnostic = None\<rparr>)"

definition byte_serialize :: "controller_config \<Rightarrow> document" where
  "byte_serialize c = [of_int (cc_pixel_count c)]"

lemma byte_save:
  "sv_status (fst (save_override byte_parse byte_serialize (nvs_backend (cut ram_nvs)) [7, 7] (20, old_flash, old_flash))) = Saved \<and>
   sv_json (fst (save_override byte_parse byte_serialize (nvs_backend (cut ram_nvs)) [7, 7] (20, old_flash, old_flash))) = [7]"
proof -
  have ser: "byte_serialize (byte_config 7) = [7]" by (simp add: byte_serialize_def byte_config_def)
  obtain n' s' where "write_override (cut ram_nvs) [7] (20, old_flash, old_flash) = ((True, []), n', s')"
    using ram_save by (metis prod.collapse)
  then show ?thesis
    by (simp add: save_override_def load_ok_def byte_parse_def ser nvs_backend_def max_stored_json_bytes_def Let_def)
qed

theorem boot_after_save_witness:
  "\<exists>res n' s' b t'. save_override byte_parse byte_serialize (nvs_backend (cut ram_nvs)) [7, 7] (20, old_flash, old_flash) = (res, n', s') \<and>
     load_boot_configuration byte_parse (Some (nvs_backend ram_nvs)) [100] (snd s', snd s') = (b, t') \<and>
     (bt_storage_message b = [] \<longrightarrow> bt_configuration b = Some (byte_config 7))"
proof -
  obtain res n' s' where save: "save_override byte_parse byte_serialize (nvs_backend (cut ram_nvs)) [7, 7] (20, old_flash, old_flash)
      = (res, n', s')" by (metis prod.exhaust)
  obtain b t' where boot: "load_boot_configuration byte_parse (Some (nvs_backend ram_nvs)) [100] (snd s', snd s') = (b, t')" by (metis prod.exhaust)
  have "sv_status res = Saved" "sv_json res = [7]" using byte_save save by simp_all
  with boot_after_save [OF ram_nvs_contract _ save _ boot] save boot show ?thesis by (auto simp: byte_parse_def)
qed

end
