(* ===== verification/Live_Signals.thy ===== *)
theory Live_Signals
  imports Engine Bytes
begin

text \<open>
  The live signals frame: the normative signal table (\<open>lib/companion_protocol/src/live_signal_layout.cpp\<close>), the
  sampler that reads every slot through the provider (\<open>live_signals.cpp\<close>) and the pacing of one connection's
  notifications (\<open>live_signal_stream.cpp\<close>). The scale of a Number is exact in binary32 and a product of two binary32
  values is exact in \<open>double\<close>, so the rounded product is computed on integers.
\<close>

section \<open>Layout\<close>

definition live_signal_count :: nat where
  "live_signal_count = 21"

definition live_frame_bytes :: nat where
  "live_frame_bytes = 28"

definition live_signal_layout_version :: u8 where
  "live_signal_layout_version = 2"

record live_slot =
  sl_key :: string
  sl_type :: signal_type
  sl_position :: nat
  sl_scale :: nat
  sl_choices :: "(string \<times> u8) list"
  sl_freshness_unset :: bool
  sl_signed :: bool

definition slot_choice_code :: "live_slot \<Rightarrow> string \<Rightarrow> u8 option" where
  "slot_choice_code slot key = map_option snd (List.find (\<lambda>c. fst c = key) (sl_choices slot))"

definition turn_codes :: "(string \<times> u8) list" where
  "turn_codes = [(''unknown'', 0), (''off'', 1), (''left'', 2), (''right'', 3), (''hazard'', 4)]"

definition selector_codes :: "(string \<times> u8) list" where
  "selector_codes = [(''unknown'', 0), (''shifting'', 1), (''park'', 2), (''reverse'', 3), (''neutral'', 4), (''drive'', 5)]"

definition gear_codes :: "(string \<times> u8) list" where
  "gear_codes = [(''unknown'', 0), (''park_or_neutral'', 1), (''park'', 2), (''neutral'', 3), (''reverse'', 4), (''first'', 5),
     (''second'', 6), (''third'', 7), (''fourth'', 8), (''fifth'', 9), (''sixth'', 10), (''shifting'', 11)]"

definition wiper_codes :: "(string \<times> u8) list" where
  "wiper_codes = [(''unknown'', 0), (''off'', 1), (''on'', 2), (''high'', 3), (''intermittent'', 4)]"

definition number_slot :: "string \<Rightarrow> nat \<Rightarrow> nat \<Rightarrow> bool \<Rightarrow> live_slot" where
  "number_slot key offset scale signed_number = \<lparr>sl_key = key, sl_type = TNumber, sl_position = offset, sl_scale = scale, sl_choices = [],
     sl_freshness_unset = False, sl_signed = signed_number\<rparr>"

definition enumeration_slot :: "string \<Rightarrow> nat \<Rightarrow> (string \<times> u8) list \<Rightarrow> live_slot" where
  "enumeration_slot key offset codes = \<lparr>sl_key = key, sl_type = TEnum, sl_position = offset, sl_scale = 0, sl_choices = codes,
     sl_freshness_unset = False, sl_signed = False\<rparr>"

definition boolean_slot :: "string \<Rightarrow> nat \<Rightarrow> bool \<Rightarrow> live_slot" where
  "boolean_slot key position freshness_unset = \<lparr>sl_key = key, sl_type = TBoolean, sl_position = position, sl_scale = 0, sl_choices = [],
     sl_freshness_unset = freshness_unset, sl_signed = False\<rparr>"

definition live_slots :: "live_slot list" where
  "live_slots = [
     number_slot ''vehicle.engine_rpm'' 3 4 False,
     number_slot ''vehicle.speed_kph'' 5 100 False,
     enumeration_slot ''vehicle.turn_state'' 7 turn_codes,
     enumeration_slot ''vehicle.selector_position'' 8 selector_codes,
     enumeration_slot ''vehicle.actual_gear'' 9 gear_codes,
     enumeration_slot ''vehicle.wiper.front_position'' 10 wiper_codes,
     boolean_slot ''vehicle.hazard_request'' 0 False,
     boolean_slot ''vehicle.turn_request.left'' 1 False,
     boolean_slot ''vehicle.turn_request.right'' 2 False,
     boolean_slot ''vehicle.indicator_lamp.left'' 3 False,
     boolean_slot ''vehicle.indicator_lamp.right'' 4 False,
     boolean_slot ''vehicle.liftgate_open'' 5 False,
     boolean_slot ''vehicle.door.rear_right'' 6 False,
     boolean_slot ''vehicle.door.rear_left'' 7 False,
     boolean_slot ''vehicle.door.front_left_rhd'' 8 False,
     boolean_slot ''vehicle.door.front_right_rhd'' 9 False,
     boolean_slot ''vehicle.doors_unlocked'' 10 False,
     boolean_slot ''vehicle.wiper.low'' 11 False,
     boolean_slot ''vehicle.brake_pressed'' 12 True,
     number_slot ''vehicle.acceleration.longitudinal'' 24 100 True,
     number_slot ''vehicle.acceleration.lateral'' 26 1000 True]"

section \<open>The sampler\<close>

datatype signal_status_code = LcNoData | LcFresh | LcStale | LcFreshnessUnverified | LcUnavailable | LcReadFailed | LcNotSupported

fun status_code_value :: "signal_status_code \<Rightarrow> u8" where
  "status_code_value LcNoData = 0"
| "status_code_value LcFresh = 1"
| "status_code_value LcStale = 2"
| "status_code_value LcFreshnessUnverified = 3"
| "status_code_value LcUnavailable = 4"
| "status_code_value LcReadFailed = 5"
| "status_code_value LcNotSupported = 6"

fun availability_code :: "availability \<Rightarrow> signal_status_code" where
  "availability_code NoData = LcNoData"
| "availability_code Fresh = LcFresh"
| "availability_code Stale = LcStale"
| "availability_code FreshnessUnverified = LcFreshnessUnverified"
| "availability_code Unavailable = LcUnavailable"

fun failure_code :: "signal_status \<Rightarrow> signal_status_code" where
  "failure_code InvalidSignal = LcNotSupported"
| "failure_code UnsupportedCapability = LcNotSupported"
| "failure_code _ = LcReadFailed"

definition live_write_u16 :: "bytes \<Rightarrow> nat \<Rightarrow> u16 \<Rightarrow> bytes" where
  "live_write_u16 bs offset v = bs[offset := ucast (v AND 0xFF), offset + 1 := ucast (drop_bit 8 v)]"

text \<open>\<open>std::round\<close> of \<open>n / 2 ^ 149\<close>: halves away from zero.\<close>

definition round_units :: "int \<Rightarrow> int" where
  "round_units n = sgn n * ((2 * \<bar>n\<bar> + 2 ^ 149) div 2 ^ 150)"

definition write_number :: "live_slot \<Rightarrow> signal_value \<Rightarrow> bytes \<Rightarrow> bool \<times> bytes" where
  "write_number slot value bs = (case as_number value of None \<Rightarrow> (False, bs)
     | Some number \<Rightarrow> if \<not> f32_isfinite number \<or> \<not> sl_signed slot \<and> f32_lt number 0 then (False, bs)
       else let scaled = round_units (f32_units number * int (sl_scale slot)) in
         if sl_signed slot
         then (if scaled < - 32768 \<or> 32767 < scaled then (False, bs) else (True, live_write_u16 bs (sl_position slot) (of_int scaled)))
         else if 65535 < scaled then (False, bs) else (True, live_write_u16 bs (sl_position slot) (of_int scaled)))"

definition write_choice :: "live_slot \<Rightarrow> signal_metadata \<Rightarrow> signal_value \<Rightarrow> bytes \<Rightarrow> bool \<times> bytes" where
  "write_choice slot m value bs = (case as_enumeration value of None \<Rightarrow> (False, bs)
     | Some raw \<Rightarrow> (case find_choice m raw of None \<Rightarrow> (False, bs)
       | Some choice \<Rightarrow> (case slot_choice_code slot (ch_key choice) of None \<Rightarrow> (False, bs)
         | Some code \<Rightarrow> (True, bs[sl_position slot := code]))))"

definition write_boolean :: "live_slot \<Rightarrow> signal_value \<Rightarrow> u16 \<Rightarrow> bool \<times> u16" where
  "write_boolean slot value booleans = (case as_boolean value of None \<Rightarrow> (False, booleans)
     | Some flag \<Rightarrow> (True, if flag then booleans OR push_bit (sl_position slot) 1 else booleans))"

definition write_value :: "live_slot \<Rightarrow> signal_metadata \<Rightarrow> signal_value \<Rightarrow> bytes \<times> u16 \<Rightarrow> bool \<times> bytes \<times> u16" where
  "write_value slot m value = (\<lambda>(bs, booleans). case sl_type slot of
       TNumber \<Rightarrow> (let (ok, bs1) = write_number slot value bs in (ok, bs1, booleans))
     | TEnum \<Rightarrow> (let (ok, bs1) = write_choice slot m value bs in (ok, bs1, booleans))
     | TBoolean \<Rightarrow> (let (ok, booleans1) = write_boolean slot value booleans in (ok, bs, booleans1)))"

definition status_nibble :: "signal_status_code \<Rightarrow> bool \<Rightarrow> u8" where
  "status_nibble code present = status_code_value code OR (if present then 0x08 else 0)"

definition write_status :: "bytes \<Rightarrow> nat \<Rightarrow> signal_status_code \<Rightarrow> bool \<Rightarrow> bytes" where
  "write_status bs index code present = (let offset = 13 + index div 2; shift = (if index mod 2 = 0 then 0 else 4) in
     bs[offset := bs ! offset OR push_bit shift (status_nibble code present)])"

definition reported_code :: "live_slot \<Rightarrow> availability \<Rightarrow> signal_status_code" where
  "reported_code slot av = (let code = availability_code av in
     if sl_freshness_unset slot \<and> code = LcFresh then LcFreshnessUnverified else code)"

definition resolve_slot :: "catalog \<Rightarrow> live_slot \<Rightarrow> signal_metadata option" where
  "resolve_slot cat slot = (case catalog_find_key cat (sl_key slot) of None \<Rightarrow> None
     | Some m \<Rightarrow> if md_type m \<noteq> sl_type slot \<or> \<not> caps_has (md_capabilities m) CRead then None else Some m)"

text \<open>\<open>LiveSignalContent\<close> is its bytes; \<open>LiveSignalSampler\<close> is its resolved entries.\<close>

definition content_new :: bytes where
  "content_new = (replicate live_frame_bytes 0)[0 := live_signal_layout_version]"

definition content_frame :: "bytes \<Rightarrow> u8 \<Rightarrow> bytes" where
  "content_frame content sequence = content[1 := sequence]"

definition sampler_new :: "'p port \<Rightarrow> 'p \<Rightarrow> signal_metadata option list" where
  "sampler_new P p = map (resolve_slot (port_catalog P p)) live_slots"

definition sample_slot :: "'p port \<Rightarrow> 'p \<Rightarrow> nat \<times> live_slot \<times> signal_metadata option \<Rightarrow> bytes \<times> u16 \<Rightarrow> bytes \<times> u16" where
  "sample_slot P p = (\<lambda>(index, slot, signal) (bs, booleans). case signal of None \<Rightarrow> (write_status bs index LcNotSupported False, booleans)
     | Some m \<Rightarrow> let result = port_read P p (md_id m) in
       if \<not> rs_ok result then (write_status bs index (failure_code (rs_status result)) False, booleans)
       else let reading = the (rs_value result);
           (present, bs1, booleans1) = (case rd_value reading of None \<Rightarrow> (False, bs, booleans) | Some v \<Rightarrow> write_value slot m v (bs, booleans))
         in (write_status bs1 index (reported_code slot (rd_availability reading)) present, booleans1))"

definition live_sample :: "'p port \<Rightarrow> 'p \<Rightarrow> signal_metadata option list \<Rightarrow> bool \<Rightarrow> bytes" where
  "live_sample P p resolved telemetry_started = (let
       start = (content_new[2 := if telemetry_started then 0x01 else 0], 0);
       (bs, booleans) = fold (sample_slot P p) (zip [0..<live_signal_count] (zip live_slots resolved)) start
     in live_write_u16 bs 11 booleans)"

section \<open>Pacing\<close>

definition live_frame_interval :: int where
  "live_frame_interval = 100"

definition live_heartbeat_interval :: int where
  "live_heartbeat_interval = 1000"

definition min_live_signals_att_mtu :: u16 where
  "min_live_signals_att_mtu = 64"

record live_conditions =
  lc_notifications :: bool
  lc_secured :: bool
  lc_mtu :: u16

record live_pacing =
  lp_next_sequence :: u8
  lp_accepted :: "bytes option"
  lp_last_sample :: "int option"
  lp_last_attempt :: "int option"

record live_stream =
  lv_conditions :: live_conditions
  lv_pacing :: live_pacing

definition no_conditions :: live_conditions where
  "no_conditions = \<lparr>lc_notifications = False, lc_secured = False, lc_mtu = 0\<rparr>"

definition no_pacing :: live_pacing where
  "no_pacing = \<lparr>lp_next_sequence = 0, lp_accepted = None, lp_last_sample = None, lp_last_attempt = None\<rparr>"

definition conditions_hold :: "live_conditions \<Rightarrow> bool" where
  "conditions_hold c = (lc_notifications c \<and> lc_secured c \<and> min_live_signals_att_mtu \<le> lc_mtu c)"

definition pacing_restart :: "live_pacing \<Rightarrow> live_pacing" where
  "pacing_restart p = p\<lparr>lp_next_sequence := 0, lp_accepted := None\<rparr>"

definition elapsed_since :: "int \<Rightarrow> int option \<Rightarrow> int \<Rightarrow> bool" where
  "elapsed_since now previous interval = (case previous of None \<Rightarrow> True | Some t \<Rightarrow> now < t \<or> interval \<le> now - t)"

definition live_sample_due :: "int \<Rightarrow> live_pacing \<Rightarrow> bool" where
  "live_sample_due now p = elapsed_since now (lp_last_sample p) live_frame_interval"

definition live_frame_due :: "int \<Rightarrow> bytes \<Rightarrow> live_pacing \<Rightarrow> bool" where
  "live_frame_due now content p = (if lp_accepted p \<noteq> Some content then True
     else elapsed_since now (lp_last_attempt p) live_heartbeat_interval)"

definition update_conditions :: "(live_conditions \<Rightarrow> live_conditions) \<Rightarrow> live_stream \<Rightarrow> live_stream" where
  "update_conditions f s = (let was_streaming = conditions_hold (lv_conditions s); s1 = s\<lparr>lv_conditions := f (lv_conditions s)\<rparr> in
     if \<not> was_streaming \<and> conditions_hold (lv_conditions s1) then s1\<lparr>lv_pacing := pacing_restart (lv_pacing s1)\<rparr> else s1)"

definition set_notifications_enabled :: "bool \<Rightarrow> live_stream \<Rightarrow> live_stream" where
  "set_notifications_enabled enabled = update_conditions (\<lambda>c. c\<lparr>lc_notifications := enabled\<rparr>)"

definition set_link_secured :: "bool \<Rightarrow> live_stream \<Rightarrow> live_stream" where
  "set_link_secured secured = update_conditions (\<lambda>c. c\<lparr>lc_secured := secured\<rparr>)"

definition set_att_mtu :: "u16 \<Rightarrow> live_stream \<Rightarrow> live_stream" where
  "set_att_mtu mtu = update_conditions (\<lambda>c. c\<lparr>lc_mtu := mtu\<rparr>)"

definition live_stream_new :: live_stream where
  "live_stream_new = \<lparr>lv_conditions = no_conditions, lv_pacing = no_pacing\<rparr>"

definition live_reset_connection :: "live_stream \<Rightarrow> live_stream" where
  "live_reset_connection s = s\<lparr>lv_conditions := no_conditions, lv_pacing := no_pacing\<rparr>"

definition live_streaming :: "live_stream \<Rightarrow> bool" where
  "live_streaming s = conditions_hold (lv_conditions s)"

definition time_until_sample :: "int \<Rightarrow> live_stream \<Rightarrow> int option" where
  "time_until_sample now s = (if \<not> live_streaming s then None else if live_sample_due now (lv_pacing s) then Some 0
     else Some (the (lp_last_sample (lv_pacing s)) + live_frame_interval - now))"

text \<open>
  \<open>accepts\<close> is what the BLE stack answers to \<open>try_queue\<close>; the result has the frame handed to it, which is there
  exactly when the code returns \<open>true\<close>.
\<close>

definition live_offer :: "int \<Rightarrow> bytes \<Rightarrow> (bytes \<Rightarrow> bool) \<Rightarrow> live_stream \<Rightarrow> bytes option \<times> live_stream" where
  "live_offer now content accepts s = (let p = lv_pacing s in
     if \<not> live_streaming s \<or> \<not> live_sample_due now p then (None, s)
     else let p1 = p\<lparr>lp_last_sample := Some now\<rparr> in
       if \<not> live_frame_due now content p1 then (None, s\<lparr>lv_pacing := p1\<rparr>)
       else let frame = content_frame content (lp_next_sequence p1);
           p2 = p1\<lparr>lp_last_attempt := Some now, lp_next_sequence := lp_next_sequence p1 + 1\<rparr>;
           p3 = (if accepts frame then p2\<lparr>lp_accepted := Some content\<rparr> else p2)
         in (Some frame, s\<lparr>lv_pacing := p3\<rparr>))"

end
