(* ===== verification/Live_Signals_Laws.thy ===== *)
theory Live_Signals_Laws
  imports Live_Signals
begin

text \<open>
  What the live frame tells its receiver: every slot's status and value can be read back from the frame, whatever
  the other slots are. What the pacing promises over every history of a connection: frames keep their distance,
  the sequence counts them, and a sample is left out only when the receiver has it already.
\<close>

section \<open>What a slot reports\<close>

datatype live_value = LiveNumber u16 | LiveChoice u8 | LiveFlag bool

definition number_field :: "live_slot \<Rightarrow> f32 \<Rightarrow> u16 option" where
  "number_field slot x = (let scaled = round_units (f32_units x * int (sl_scale slot)) in
     if f32_isfinite x \<and> (if sl_signed slot then - 32768 \<le> scaled \<and> scaled \<le> 32767 else \<not> f32_lt x 0 \<and> scaled \<le> 65535)
     then Some (of_int scaled) else None)"

fun field_value :: "live_slot \<Rightarrow> signal_metadata \<Rightarrow> signal_value \<Rightarrow> live_value option" where
  "field_value slot m (VNumber x) = (if sl_type slot = TNumber then map_option LiveNumber (number_field slot x) else None)"
| "field_value slot m (VEnum e) = (if sl_type slot = TEnum
     then map_option LiveChoice (Option.bind (find_choice m e) (\<lambda>c. slot_choice_code slot (ch_key c))) else None)"
| "field_value slot m (VBoolean b) = (if sl_type slot = TBoolean then Some (LiveFlag b) else None)"

text \<open>The status of a slot and its value, from the provider's answer alone.\<close>

definition slot_report :: "'p port \<Rightarrow> 'p \<Rightarrow> live_slot \<Rightarrow> signal_status_code \<times> live_value option" where
  "slot_report P p slot = (case resolve_slot (port_catalog P p) slot of None \<Rightarrow> (LcNotSupported, None)
     | Some m \<Rightarrow> let result = port_read P p (md_id m) in
       if \<not> rs_ok result then (failure_code (rs_status result), None)
       else (reported_code slot (rd_availability (the (rs_value result))), Option.bind (rd_value (the (rs_value result))) (field_value slot m)))"

text \<open>What a receiver reads from a frame.\<close>

definition status_at :: "bytes \<Rightarrow> nat \<Rightarrow> u8" where
  "status_at frame i = take_bit 4 (drop_bit (if i mod 2 = 0 then 0 else 4) (frame ! (13 + i div 2)))"

definition field_in :: "bytes \<times> u16 \<Rightarrow> live_slot \<Rightarrow> live_value" where
  "field_in = (\<lambda>(bs, booleans) slot. case sl_type slot of TNumber \<Rightarrow> LiveNumber (read_u16 bs (sl_position slot))
     | TEnum \<Rightarrow> LiveChoice (bs ! sl_position slot) | TBoolean \<Rightarrow> LiveFlag (bit booleans (sl_position slot)))"

definition field_at :: "bytes \<Rightarrow> live_slot \<Rightarrow> live_value" where
  "field_at frame = field_in (frame, read_u16 frame 11)"

fun blank_value :: "signal_type \<Rightarrow> live_value" where
  "blank_value TNumber = LiveNumber 0"
| "blank_value TEnum = LiveChoice 0"
| "blank_value TBoolean = LiveFlag False"

fun put_field :: "live_slot \<Rightarrow> live_value \<Rightarrow> bytes \<times> u16 \<Rightarrow> bytes \<times> u16" where
  "put_field slot (LiveNumber n) (bs, b) = (live_write_u16 bs (sl_position slot) n, b)"
| "put_field slot (LiveChoice c) (bs, b) = (bs[sl_position slot := c], b)"
| "put_field slot (LiveFlag f) (bs, b) = (bs, if f then b OR push_bit (sl_position slot) 1 else b)"

lemma write_value_field:
  "write_value slot m v st = (case field_value slot m v of None \<Rightarrow> (False, st) | Some w \<Rightarrow> (True, put_field slot w st))"
  by (cases st; cases v; cases "sl_type slot")
     (auto simp: write_value_def write_number_def write_choice_def write_boolean_def number_field_def Let_def not_le not_less
        split: option.splits)

lemma sample_slot_report:
  assumes "slot_report P p slot = (code, w)"
  shows "sample_slot P p (i, slot, resolve_slot (port_catalog P p) slot) st =
    (let (bs, b) = (case w of None \<Rightarrow> st | Some w \<Rightarrow> put_field slot w st) in (write_status bs i code (w \<noteq> None), b))"
  using assms
  by (cases st) (auto simp: sample_slot_def slot_report_def write_value_field Let_def split: option.splits if_splits)

section \<open>The layout\<close>

definition slot_fits :: "live_slot \<Rightarrow> bool" where
  "slot_fits s = (case sl_type s of TNumber \<Rightarrow> 3 \<le> sl_position s \<and> sl_position s + 1 < 11 \<or> 24 \<le> sl_position s \<and> sl_position s + 1 < 28
     | TEnum \<Rightarrow> 3 \<le> sl_position s \<and> sl_position s < 11 | TBoolean \<Rightarrow> sl_position s < 16)"

definition slot_width :: "live_slot \<Rightarrow> nat" where
  "slot_width s = (if sl_type s = TNumber then 2 else 1)"

definition slots_apart :: "live_slot \<Rightarrow> live_slot \<Rightarrow> bool" where
  "slots_apart s t \<longleftrightarrow> (sl_type s = TBoolean) \<noteq> (sl_type t = TBoolean)
     \<or> sl_position s + slot_width s \<le> sl_position t \<or> sl_position t + slot_width t \<le> sl_position s"

lemmas slot_defs = number_slot_def enumeration_slot_def boolean_slot_def

lemma live_slots_fit: "\<forall>s \<in> set live_slots. slot_fits s"
  by (simp add: live_slots_def slot_defs slot_fits_def)

lemma live_slots_sorted: "sorted_wrt slots_apart live_slots"
  by (simp add: live_slots_def slot_defs slots_apart_def slot_width_def)

lemma length_live_slots [simp]: "length live_slots = 21"
  by (simp add: live_slots_def)

lemma live_slots_apart:
  assumes "i < 21" "j < 21" "i \<noteq> j"
  shows "slots_apart (live_slots ! i) (live_slots ! j)"
proof -
  have sym: "slots_apart s t = slots_apart t s" for s t by (auto simp: slots_apart_def)
  from assms(3) consider "i < j" | "j < i" by linarith
  then show ?thesis
    using live_slots_sorted assms sym by cases (auto simp: sorted_wrt_iff_nth_less)
qed

section \<open>Writing a field or a status\<close>

lemma live_write_bytes: "live_write_u16 bs n v = bs[n := ucast v, n + 1 := ucast (drop_bit 8 v)]"
  by (simp add: live_write_u16_def low_byte)

lemma read_live_write: "n + 1 < length bs \<Longrightarrow> read_u16 (live_write_u16 bs n v) n = v"
  unfolding live_write_bytes read_u16_def by (simp, rule bit_word_eqI) (auto simp: bit_simps)

lemma nth_live_write: "k \<noteq> n \<Longrightarrow> k \<noteq> n + 1 \<Longrightarrow> live_write_u16 bs n v ! k = bs ! k"
  by (simp add: live_write_bytes)

lemma length_live_write [simp]: "length (live_write_u16 bs n v) = length bs"
  by (simp add: live_write_bytes)

lemma put_field_length: "length (fst (put_field s w st)) = length (fst st)"
  by (cases st; cases w) simp_all

lemma field_valueD: "field_value s m v = Some w \<Longrightarrow> sl_type s = (case w of LiveNumber _ \<Rightarrow> TNumber | LiveChoice _ \<Rightarrow> TEnum | LiveFlag _ \<Rightarrow> TBoolean)"
  by (cases v) (auto split: if_splits)

definition value_fits :: "live_slot \<Rightarrow> live_value \<Rightarrow> bool" where
  "value_fits s w \<longleftrightarrow> sl_type s = (case w of LiveNumber _ \<Rightarrow> TNumber | LiveChoice _ \<Rightarrow> TEnum | LiveFlag _ \<Rightarrow> TBoolean)"

lemma put_field_reads:
  assumes "slot_fits s" and "value_fits s w" and "length (fst st) = 28" and "field_in st s = blank_value (sl_type s)"
  shows "field_in (put_field s w st) s = w"
  using assms
  by (cases st; cases w) (auto simp: value_fits_def field_in_def slot_fits_def read_live_write bit_simps)

lemma put_field_other:
  assumes "slots_apart s t" and "slot_fits s" and "slot_fits t" and "value_fits s w"
  shows "field_in (put_field s w st) t = field_in st t"
  using assms
  by (cases st; cases w; cases "sl_type t")
     (auto simp: value_fits_def field_in_def slots_apart_def slot_width_def slot_fits_def read_u16_def nth_live_write bit_simps)

lemma put_field_status:
  assumes "slot_fits s" and "value_fits s w" and "i < 21"
  shows "status_at (fst (put_field s w st)) i = status_at (fst st) i"
proof -
  have "i div 2 \<le> 10" using assms(3) by simp
  then show ?thesis
    using assms(1,2) by (cases st; cases w) (auto simp: value_fits_def slot_fits_def status_at_def nth_live_write)
qed

lemma length_write_status [simp]: "length (write_status bs i c v) = length bs"
  by (simp add: write_status_def Let_def)

lemma write_status_field:
  assumes "slot_fits s" and "i < 21"
  shows "field_in (write_status bs i c v, b) s = field_in (bs, b) s"
proof -
  have "i div 2 \<le> 10" using assms(2) by simp
  then show ?thesis
    using assms(1) by (cases "sl_type s") (auto simp: slot_fits_def field_in_def write_status_def Let_def read_u16_def)
qed

lemma nibble_fits: "take_bit 4 (status_nibble c v) = status_nibble c v"
  by (cases c; cases v) (simp_all add: status_nibble_def)

lemma nibble_bit: "bit (status_nibble c v) n \<Longrightarrow> n < 4"
  by (metis nibble_fits bit_take_bit_iff)

lemma write_status_reads:
  assumes "length bs = 28" and "i < 21" and "status_at bs i = 0"
  shows "status_at (write_status bs i c v) i = status_nibble c v"
proof -
  have z: "\<not> bit (bs ! (13 + i div 2)) ((if i mod 2 = 0 then 0 else 4) + n)" if "n < 4" for n
    using arg_cong [OF assms(3), of "\<lambda>w. bit w n"] that
    by (simp add: status_at_def bit_simps add.commute split: if_splits)
  have "13 + i div 2 < length bs" using assms(1,2) by simp
  then have "status_at (write_status bs i c v) i
      = take_bit 4 (drop_bit (if i mod 2 = 0 then 0 else 4) (bs ! (13 + i div 2) OR push_bit (if i mod 2 = 0 then 0 else 4) (status_nibble c v)))"
    by (simp add: status_at_def write_status_def Let_def)
  also have "\<dots> = status_nibble c v"
    using z by (intro bit_word_eqI) (auto simp: bit_simps dest: nibble_bit)
  finally show ?thesis .
qed

lemma write_status_other:
  assumes "i \<noteq> j" and "length bs = 28" and "j < 21"
  shows "status_at (write_status bs i c v) j = status_at bs j"
proof (cases "i div 2 = j div 2")
  case True
  have "i mod 2 \<noteq> j mod 2" using assms(1) True by (metis div_mult_mod_eq)
  then consider "i mod 2 = 0" "j mod 2 = 1" | "i mod 2 = 1" "j mod 2 = 0" by (metis mod2_eq_if)
  then show ?thesis
    using True assms(2,3) by cases (auto simp: status_at_def write_status_def Let_def intro!: bit_word_eqI dest: nibble_bit simp: bit_simps)
next
  case False
  then show ?thesis by (simp add: status_at_def write_status_def Let_def)
qed

section \<open>The whole frame\<close>

text \<open>What a frame in the making says when the slots below \<open>n\<close> have been written.\<close>

definition says :: "'p port \<Rightarrow> 'p \<Rightarrow> nat \<Rightarrow> bytes \<times> u16 \<Rightarrow> bool" where
  "says P p n st \<longleftrightarrow> length (fst st) = 28 \<and> (\<forall>j < 21.
     if j < n then (case slot_report P p (live_slots ! j) of (code, w) \<Rightarrow>
       status_at (fst st) j = status_nibble code (w \<noteq> None) \<and>
       field_in st (live_slots ! j) = (case w of None \<Rightarrow> blank_value (sl_type (live_slots ! j)) | Some w \<Rightarrow> w))
     else status_at (fst st) j = 0 \<and> field_in st (live_slots ! j) = blank_value (sl_type (live_slots ! j)))"

lemma slot_report_fits: "slot_report P p slot = (code, Some w) \<Longrightarrow> value_fits slot w"
  by (auto simp: slot_report_def value_fits_def Let_def dest: field_valueD split: option.splits if_splits Option.bind_splits)

lemma says_step:
  assumes "says P p n st" and n: "n < 21"
  shows "says P p (Suc n) (sample_slot P p (n, live_slots ! n, resolve_slot (port_catalog P p) (live_slots ! n)) st)"
proof -
  obtain code w where r: "slot_report P p (live_slots ! n) = (code, w)" by fastforce
  have fits: "slot_fits (live_slots ! j)" if "j < 21" for j using live_slots_fit that by simp
  from assms(1) have len: "length (fst st) = 28" and zero: "status_at (fst st) n = 0"
    "field_in st (live_slots ! n) = blank_value (sl_type (live_slots ! n))" using n by (auto simp: says_def)
  define mid where "mid = (case w of None \<Rightarrow> st | Some w \<Rightarrow> put_field (live_slots ! n) w st)"
  obtain bs b where mid_eq: "mid = (bs, b)" by fastforce
  have vf: "value_fits (live_slots ! n) x" if "w = Some x" for x using r that by (simp add: slot_report_fits)
  have "length (fst mid) = 28" using len by (cases w) (simp_all add: mid_def put_field_length)
  then have ml: "length bs = 28" by (simp add: mid_eq)
  have ms: "status_at bs j = status_at (fst st) j" if "j < 21" for j
  proof -
    have "status_at (fst mid) j = status_at (fst st) j"
      by (cases w) (simp_all add: mid_def put_field_status [OF fits [OF n] vf that])
    then show ?thesis by (simp add: mid_eq)
  qed
  have mo: "field_in (bs, b) (live_slots ! j) = field_in st (live_slots ! j)" if "j < 21" "j \<noteq> n" for j
  proof -
    have apart: "slots_apart (live_slots ! n) (live_slots ! j)" using live_slots_apart n that by simp
    have "field_in mid (live_slots ! j) = field_in st (live_slots ! j)"
      by (cases w) (simp_all add: mid_def put_field_other [OF apart fits [OF n] fits [OF that(1)] vf])
    then show ?thesis by (simp add: mid_eq)
  qed
  have mn: "field_in (bs, b) (live_slots ! n) = (case w of None \<Rightarrow> blank_value (sl_type (live_slots ! n)) | Some w \<Rightarrow> w)"
    using mid_eq put_field_reads [OF fits [OF n] vf len zero(2)] zero(2) by (cases w) (auto simp: mid_def)
  have step: "sample_slot P p (n, live_slots ! n, resolve_slot (port_catalog P p) (live_slots ! n)) st = (write_status bs n code (w \<noteq> None), b)"
    using sample_slot_report [OF r, of n st] mid_eq by (simp add: mid_def)
  have z: "status_at bs n = 0" using ms [OF n] zero(1) by simp
  show ?thesis
    unfolding says_def step
  proof (intro conjI allI impI)
    fix j :: nat
    assume j: "j < 21"
    note wf = write_status_field [OF fits [OF j] n, of bs code "w \<noteq> None" b]
    show "if j < Suc n then (case slot_report P p (live_slots ! j) of (code', w') \<Rightarrow>
        status_at (fst (write_status bs n code (w \<noteq> None), b)) j = status_nibble code' (w' \<noteq> None) \<and>
        field_in (write_status bs n code (w \<noteq> None), b) (live_slots ! j) = (case w' of None \<Rightarrow> blank_value (sl_type (live_slots ! j)) | Some w \<Rightarrow> w))
      else status_at (fst (write_status bs n code (w \<noteq> None), b)) j = 0 \<and>
        field_in (write_status bs n code (w \<noteq> None), b) (live_slots ! j) = blank_value (sl_type (live_slots ! j))"
    proof (cases "j = n")
      case True
      then show ?thesis using r mn wf write_status_reads [OF ml n z] by (simp split: option.split)
    next
      case False
      then have "status_at (write_status bs n code (w \<noteq> None)) j = status_at (fst st) j" "field_in (write_status bs n code (w \<noteq> None), b) (live_slots ! j) = field_in st (live_slots ! j)"
        using wf mo ms j ml by (simp_all add: write_status_other)
      then show ?thesis
        using assms(1) [unfolded says_def, THEN conjunct2, rule_format, OF j] False
        by (auto simp: less_Suc_eq split: prod.splits)
    qed
  qed (simp add: ml)
qed

lemma says_fold:
  assumes "n \<le> 21" and "says P p 0 st"
  shows "says P p n (fold (sample_slot P p) (map (\<lambda>i. (i, live_slots ! i, resolve_slot (port_catalog P p) (live_slots ! i))) [0..<n]) st)"
  using assms(1)
proof (induction n)
  case (Suc n)
  then show ?case using says_step [of P p n] by simp
qed (simp add: assms(2))

lemma sampler_slots:
  "zip [0..<live_signal_count] (zip live_slots (sampler_new P p)) =
    map (\<lambda>i. (i, live_slots ! i, resolve_slot (port_catalog P p) (live_slots ! i))) [0..<21]"
  by (rule nth_equalityI) (simp_all add: live_signal_count_def sampler_new_def)

lemma says_start: "says P p 0 (content_new[2 := flags], 0)"
proof -
  have "status_at (content_new[2 := flags]) j = 0 \<and> field_in (content_new[2 := flags], 0) (live_slots ! j) = blank_value (sl_type (live_slots ! j))"
    if j: "j < 21" for j
  proof -
    have z: "content_new ! k = 0" if "3 \<le> k" "k < 28" for k
      using that by (simp add: content_new_def live_frame_bytes_def)
    have "j div 2 \<le> 10" using j by simp
    moreover have "slot_fits (live_slots ! j)" using j live_slots_fit by simp
    ultimately show ?thesis
      by (cases "sl_type (live_slots ! j)") (auto simp: status_at_def field_in_def z slot_fits_def read_u16_def)
  qed
  then show ?thesis by (simp add: says_def content_new_def live_frame_bytes_def)
qed

text \<open>C34: A live frame tells its receiver every slot of the signal table: the status nibble of a slot is the status
  the provider's answer maps to, with the value bit set exactly when a value was written, and the slot's field
  is that value, or zero when there is none. No slot's report disturbs another's.
\<close>
theorem live_frame_tells_every_slot:
  assumes "i < 21" and "slot_report P p (live_slots ! i) = (code, w)"
  shows "status_at (content_frame (live_sample P p (sampler_new P p) started) sequence) i = status_nibble code (w \<noteq> None) \<and>
    field_at (content_frame (live_sample P p (sampler_new P p) started) sequence) (live_slots ! i) =
      (case w of None \<Rightarrow> blank_value (sl_type (live_slots ! i)) | Some w \<Rightarrow> w)"
proof -
  obtain bs b where f: "fold (sample_slot P p) (map (\<lambda>i. (i, live_slots ! i, resolve_slot (port_catalog P p) (live_slots ! i))) [0..<21])
      (content_new[2 := if started then 0x01 else 0], 0) = (bs, b)" by fastforce
  from says_fold [of 21 P p, OF _ says_start [of P p "if started then 0x01 else 0"]] f
  have s: "says P p 21 (bs, b)" by simp
  define frame where "frame = content_frame (live_sample P p (sampler_new P p) started) sequence"
  have fr: "frame = (live_write_u16 bs 11 b)[1 := sequence]"
    using f by (simp add: frame_def live_sample_def sampler_slots content_frame_def Let_def)
  have len: "length bs = 28" using s by (simp add: says_def)
  then have nb: "read_u16 frame 11 = b" using read_live_write [of 11 bs b] by (simp add: fr read_u16_def)
  have keep: "frame ! k = bs ! k" if "k \<noteq> 1" "k \<noteq> 11" "k \<noteq> 12" for k
    using that by (simp add: fr nth_live_write)
  then have keep16: "read_u16 frame k = read_u16 bs k" if "3 \<le> k" "k + 1 < 11 \<or> 13 \<le> k" for k
    using that by (auto simp: read_u16_def)
  have "slot_fits (live_slots ! i)" using assms(1) live_slots_fit by simp
  then have "field_at frame (live_slots ! i) = field_in (bs, b) (live_slots ! i)"
    using keep by (cases "sl_type (live_slots ! i)") (auto simp: field_at_def field_in_def nb slot_fits_def keep16)
  moreover have "status_at frame i = status_at bs i" by (simp add: status_at_def keep)
  ultimately show ?thesis using s assms by (auto simp: says_def frame_def)
qed

section \<open>Numbers\<close>

lemma round_units_near: "\<bar>round_units n * 2 ^ 149 - n\<bar> * 2 \<le> 2 ^ 149"
proof -
  define q :: int where "q = (2 * \<bar>n\<bar> + 2 ^ 149) div 2 ^ 150"
  have "q * 2 ^ 150 \<le> 2 * \<bar>n\<bar> + 2 ^ 149" "2 * \<bar>n\<bar> + 2 ^ 149 < q * 2 ^ 150 + 2 ^ 150"
    unfolding q_def by (simp_all add: div_mult_mod_eq [symmetric, of "2 * \<bar>n\<bar> + 2 ^ 149" "2 ^ 150"])
  then have "\<bar>q * 2 ^ 149 - \<bar>n\<bar>\<bar> * 2 \<le> 2 ^ 149" by (simp add: abs_le_iff)
  moreover have "round_units n * 2 ^ 149 - n = sgn n * (q * 2 ^ 149 - \<bar>n\<bar>)"
    by (simp add: round_units_def q_def right_diff_distrib mult_sgn_abs mult.assoc)
  ultimately show ?thesis by (simp add: abs_mult sgn_if split: if_splits)
qed

lemma round_units_nonneg: "0 \<le> n \<Longrightarrow> 0 \<le> round_units n"
  unfolding round_units_def by (intro mult_nonneg_nonneg pos_imp_zdiv_nonneg_iff [THEN iffD2]) (simp_all add: sgn_if)

text \<open>
  A Number that is sent is within half a wire unit of what was read: its field, read in the slot's signedness, times
  \<open>2 ^ 149\<close> against the reading's \<open>2 ^ -149\<close> units times the slot's scale.
\<close>

definition wire_number :: "live_slot \<Rightarrow> u16 \<Rightarrow> int" where
  "wire_number slot n = (if sl_signed slot then sint n else uint n)"

theorem live_number_rounds:
  assumes "number_field slot x = Some n"
  shows "\<bar>wire_number slot n * 2 ^ 149 - f32_units x * int (sl_scale slot)\<bar> * 2 \<le> 2 ^ 149"
proof -
  define r where "r = round_units (f32_units x * int (sl_scale slot))"
  have f: "f32_isfinite x" "if sl_signed slot then - 32768 \<le> r \<and> r \<le> 32767 else \<not> f32_lt x 0 \<and> r \<le> 65535" "n = of_int r"
    using assms by (auto simp: number_field_def r_def Let_def split: if_splits)
  have "wire_number slot n = r"
  proof (cases "sl_signed slot")
    case True
    then show ?thesis using f(2,3) by (simp add: wire_number_def signed_of_int signed_take_bit_int_eq_self)
  next
    case False
    have "\<not> f32_is_nan x" using f(1) by (simp add: f32_isfinite_def f32_is_nan_def)
    then have "0 \<le> f32_units x" using f(2) False by (simp add: f32_lt_def f32_is_nan_def f32_units_def f32_mag_def mag_units_def f32_inf_mag_def f32_neg_bit_def split: if_splits)
    then have "0 \<le> r" unfolding r_def by (intro round_units_nonneg) simp
    then show ?thesis using f(2,3) False by (simp add: wire_number_def uint_word_of_int)
  qed
  then show ?thesis using round_units_near r_def by simp
qed

text \<open>A vehicle with one door that is open.\<close>

definition door_port :: "unit port" where
  "door_port = \<lparr>port_catalog = \<lambda>_. [\<lparr>md_id = SignalId 1, md_key = ''vehicle.liftgate_open'', md_type = TBoolean, md_unit = UNone,
       md_validation = Confirmed, md_capabilities = 1, md_choices = []\<rparr>],
     port_read = \<lambda>_ i. rs_success \<lparr>rd_value = Some (VBoolean True), rd_availability = Fresh, rd_validation = Confirmed\<rparr>,
     port_subscribe = \<lambda>p i cb. (rs_failure UnsupportedCapability, p), port_unsubscribe = \<lambda>p t. (InvalidSubscription, p)\<rparr>"

lemma door_report: "slot_report door_port () (live_slots ! 11) = (LcFresh, Some (LiveFlag True))"
  by (simp add: slot_report_def door_port_def live_slots_def boolean_slot_def resolve_slot_def catalog_find_key_def caps_has_def
    rs_success_def rs_ok_def reported_code_def)

theorem live_frame_tells_every_slot_witness:
  "status_at (content_frame (live_sample door_port () (sampler_new door_port ()) True) 7) 11 = 9 \<and>
    field_at (content_frame (live_sample door_port () (sampler_new door_port ()) True) 7) (live_slots ! 11) = LiveFlag True"
  using live_frame_tells_every_slot [OF _ door_report] by (simp add: status_nibble_def)

theorem live_number_rounds_witness:
  "\<bar>wire_number (live_slots ! 0) 4 * 2 ^ 149 - f32_units 0x3F800000 * int (sl_scale (live_slots ! 0))\<bar> * 2 \<le> 2 ^ 149"
  by (rule live_number_rounds)
     (simp add: number_field_def live_slots_def number_slot_def round_units_def f32_units_def f32_mag_def mag_units_def
       f32_neg_bit_def f32_isfinite_def f32_inf_mag_def f32_lt_def f32_is_nan_def Let_def)

end
