(* ===== verification/Live_Stream_Laws.thy ===== *)
theory Live_Stream_Laws
  imports Live_Signals
begin

text \<open>
  The pacing of the live signals over every history of a connection (\<open>live_signal_stream.cpp\<close>): a step relation over
  the binding's calls with the log of the frames handed to the BLE stack, and its invariant.
\<close>

section \<open>Histories\<close>

text \<open>An attempt: its time, its frame and whether the stack took it; the log has the newest first.\<close>

type_synonym live_log = "(int \<times> bytes \<times> bool) list"

definition logged :: "int \<Rightarrow> bool \<Rightarrow> bytes option \<Rightarrow> live_log \<Rightarrow> live_log" where
  "logged now taken frame l = (case frame of None \<Rightarrow> l | Some f \<Rightarrow> (now, f, taken) # l)"

inductive live_reach :: "int \<Rightarrow> live_stream \<Rightarrow> live_log \<Rightarrow> bool" where
  started: "live_reach t live_stream_new []"
| notifications: "live_reach t s l \<Longrightarrow> live_reach t (set_notifications_enabled enabled s) l"
| secured: "live_reach t s l \<Longrightarrow> live_reach t (set_link_secured secure s) l"
| mtu: "live_reach t s l \<Longrightarrow> live_reach t (set_att_mtu m s) l"
| connection: "live_reach t s l \<Longrightarrow> live_reach t (live_reset_connection s) []"
| offered: "live_reach t s l \<Longrightarrow> t \<le> now \<Longrightarrow> length content = live_frame_bytes
    \<Longrightarrow> live_offer now content (\<lambda>_. taken) s = (frame, s') \<Longrightarrow> live_reach now s' (logged now taken frame l)"

definition last_taken :: "live_log \<Rightarrow> bytes option" where
  "last_taken l = map_option (\<lambda>a. fst (snd a)) (List.find (\<lambda>a. snd (snd a)) l)"

definition sequence_of :: "bytes \<Rightarrow> u8" where
  "sequence_of frame = frame ! 1"

definition follows :: "u8 \<Rightarrow> live_log \<Rightarrow> bool" where
  "follows q l \<longleftrightarrow> q = 0 \<or> (\<exists>a l'. l = a # l' \<and> q = sequence_of (fst (snd a)) + 1)"

definition live_inv :: "int \<Rightarrow> live_stream \<Rightarrow> live_log \<Rightarrow> bool" where
  "live_inv t s l \<longleftrightarrow> (let p = lv_pacing s in
     (case lp_last_sample p of None \<Rightarrow> l = [] | Some u \<Rightarrow> u \<le> t \<and> (\<forall>a \<in> set l. fst a \<le> u)) \<and>
     lp_last_attempt p = map_option fst (case l of [] \<Rightarrow> None | a # _ \<Rightarrow> Some a) \<and>
     sorted_wrt (\<lambda>a b. fst b + live_frame_interval \<le> fst a) l \<and>
     (\<forall>c. lp_accepted p = Some c \<longrightarrow> (\<exists>q. last_taken l = Some (content_frame c q))) \<and>
     follows (lp_next_sequence p) l)"

lemma live_inv_update: "live_inv t s l \<Longrightarrow> live_inv t (update_conditions f s) l"
  by (simp add: live_inv_def update_conditions_def pacing_restart_def follows_def Let_def)

text \<open>What an offer does, by its three outcomes.\<close>

lemma live_offer_cases:
  assumes "live_offer now content (\<lambda>_. taken) s = (frame, s')"
  obtains (idle) "frame = None" "s' = s" "\<not> live_streaming s \<or> \<not> live_sample_due now (lv_pacing s)"
    | (skipped) "frame = None" "s' = s\<lparr>lv_pacing := lv_pacing s\<lparr>lp_last_sample := Some now\<rparr>\<rparr>" "live_streaming s"
        "live_sample_due now (lv_pacing s)" "lp_accepted (lv_pacing s) = Some content"
        "\<not> elapsed_since now (lp_last_attempt (lv_pacing s)) live_heartbeat_interval"
    | (sent) "frame = Some (content_frame content (lp_next_sequence (lv_pacing s)))" "live_streaming s" "live_sample_due now (lv_pacing s)"
        "s' = s\<lparr>lv_pacing := \<lparr>lp_next_sequence = lp_next_sequence (lv_pacing s) + 1,
           lp_accepted = (if taken then Some content else lp_accepted (lv_pacing s)), lp_last_sample = Some now, lp_last_attempt = Some now\<rparr>\<rparr>"
  using assms
  by (auto simp: live_offer_def live_frame_due_def Let_def split: if_splits)

lemma sample_gap:
  assumes "live_inv t s l" and "t \<le> now" and "live_sample_due now (lv_pacing s)" and "a \<in> set l"
  shows "fst a + live_frame_interval \<le> now"
  using assms
  by (force simp: live_inv_def Let_def live_sample_due_def elapsed_since_def split: option.splits)

lemma live_inv_offer:
  assumes inv: "live_inv t s l" and now: "t \<le> now" and len: "length content = live_frame_bytes"
    and off: "live_offer now content (\<lambda>_. taken) s = (frame, s')"
  shows "live_inv now s' (logged now taken frame l)"
  using off
proof (cases rule: live_offer_cases)
  case idle
  then show ?thesis using inv now by (auto simp: live_inv_def Let_def logged_def split: option.splits)
next
  case skipped
  then show ?thesis using inv now by (fastforce simp: live_inv_def Let_def logged_def split: option.splits)
next
  case sent
  have "sequence_of (content_frame content q) = q" for q using len by (simp add: sequence_of_def content_frame_def live_frame_bytes_def)
  moreover have "fst a + live_frame_interval \<le> now" if "a \<in> set l" for a using sample_gap [OF inv now sent(3) that] .
  ultimately show ?thesis
    using inv sent(1,4) by (fastforce simp: live_inv_def Let_def logged_def follows_def last_taken_def live_frame_interval_def)
qed

lemma live_reach_inv: "live_reach t s l \<Longrightarrow> live_inv t s l"
proof (induction rule: live_reach.induct)
  case (offered t s l now content taken frame s')
  then show ?case using live_inv_offer by blast
qed (simp_all add: set_notifications_enabled_def set_link_secured_def set_att_mtu_def live_inv_update,
     simp_all add: live_inv_def live_stream_new_def live_reset_connection_def no_pacing_def follows_def Let_def)

text \<open>C35: Over every history of a connection with a clock that does not step back, the live stream keeps its distance
  and its receiver current. A frame goes out only while streaming, at least 100 ms after every earlier attempt of
  the connection, with sequence 0 or the one after the previous attempt's. An offer that is due while streaming is
  left out only when the frame the stack took last already has its content and the last attempt is less than a
  second old.
\<close>
theorem live_stream_keeps_receiver_current:
  assumes "live_reach t s l" and "t \<le> now" and "length content = live_frame_bytes" and "live_offer now content (\<lambda>_. taken) s = (frame, s')"
  shows "case frame of
      Some f \<Rightarrow> live_streaming s \<and> f = content_frame content (sequence_of f) \<and> follows (sequence_of f) l \<and> (\<forall>a \<in> set l. fst a + 100 \<le> now)
    | None \<Rightarrow> live_streaming s \<and> live_sample_due now (lv_pacing s) \<longrightarrow>
        (\<exists>q. last_taken l = Some (content_frame content q)) \<and> now < fst (hd l) + 1000"
  using assms(4)
proof (cases rule: live_offer_cases)
  case idle
  then show ?thesis by auto
next
  case skipped
  with live_reach_inv [OF assms(1)] show ?thesis
    by (cases l) (auto simp: live_inv_def Let_def elapsed_since_def live_heartbeat_interval_def last_taken_def)
next
  case sent
  have "sequence_of (content_frame content q) = q" for q
    using assms(3) by (simp add: sequence_of_def content_frame_def live_frame_bytes_def)
  then show ?thesis
    using sent sample_gap [OF live_reach_inv [OF assms(1)] assms(2) sent(3)] live_reach_inv [OF assms(1)]
    by (simp add: live_inv_def Let_def live_frame_interval_def)
qed

text \<open>A link that becomes ready and offers the same content twice.\<close>

definition ready_stream :: live_stream where
  "ready_stream = set_att_mtu 185 (set_link_secured True (set_notifications_enabled True live_stream_new))"

lemmas stream_eval = live_offer_def ready_stream_def set_att_mtu_def set_link_secured_def set_notifications_enabled_def
  update_conditions_def live_stream_new_def no_conditions_def no_pacing_def conditions_hold_def pacing_restart_def live_streaming_def
  live_sample_due_def elapsed_since_def live_frame_due_def min_live_signals_att_mtu_def live_heartbeat_interval_def live_frame_interval_def
  Let_def

theorem live_stream_keeps_receiver_current_witness:
  "live_streaming (snd (live_offer 5 content_new (\<lambda>_. True) ready_stream)) \<and>
   live_sample_due 105 (lv_pacing (snd (live_offer 5 content_new (\<lambda>_. True) ready_stream))) \<and>
     (\<exists>q. last_taken [(5, content_frame content_new 0, True)] = Some (content_frame content_new q)) \<and> (105 :: int) < 5 + 1000"
proof -
  have len: "length content_new = live_frame_bytes" by (simp add: content_new_def)
  have ready: "live_reach 0 ready_stream []" unfolding ready_stream_def by (intro live_reach.intros)
  have one: "live_offer 5 content_new (\<lambda>_. True) ready_stream =
      (Some (content_frame content_new 0), snd (live_offer 5 content_new (\<lambda>_. True) ready_stream))"
    by (simp add: stream_eval)
  have two: "live_offer 105 content_new (\<lambda>_. True) (snd (live_offer 5 content_new (\<lambda>_. True) ready_stream)) =
      (None, snd (live_offer 105 content_new (\<lambda>_. True) (snd (live_offer 5 content_new (\<lambda>_. True) ready_stream))))"
    by (simp add: stream_eval)
  have due: "live_streaming (snd (live_offer 5 content_new (\<lambda>_. True) ready_stream)) \<and>
      live_sample_due 105 (lv_pacing (snd (live_offer 5 content_new (\<lambda>_. True) ready_stream)))"
    by (simp add: stream_eval)
  from live_reach.offered [OF ready _ len one] have "live_reach 5 (snd (live_offer 5 content_new (\<lambda>_. True) ready_stream))
      [(5, content_frame content_new 0, True)]" by (simp add: logged_def)
  from live_stream_keeps_receiver_current [OF this _ len two] due show ?thesis by simp
qed

end
