(* ===== verification/Utf8.thy ===== *)
theory Utf8
  imports Bytes
begin

text \<open>
  The check that catalog text is UTF-8 (\<open>valid_utf8\<close> in
  \<open>lib/companion_protocol/src/signal_catalog_export.cpp\<close>), and its reference definition: the encodings of a
  sequence of Unicode scalar values.
\<close>

section \<open>The check\<close>

text \<open>What the lead byte says: the code point's high bits, its least value, the continuation bytes.\<close>

definition utf8_lead :: "u8 \<Rightarrow> (u32 \<times> u32 \<times> nat) option" where
  "utf8_lead lead = (if 0xC2 \<le> lead \<and> lead \<le> 0xDF then Some (ucast (lead AND 0x1F), 0x80, 1)
     else if 0xE0 \<le> lead \<and> lead \<le> 0xEF then Some (ucast (lead AND 0x0F), 0x800, 2)
     else if 0xF0 \<le> lead \<and> lead \<le> 0xF4 then Some (ucast (lead AND 0x07), 0x10000, 3)
     else None)"

text \<open>The loop over the continuation bytes.\<close>

fun utf8_continue :: "u32 \<Rightarrow> bytes \<Rightarrow> u32 option" where
  "utf8_continue code [] = Some code"
| "utf8_continue code (c # cs) = (if c AND 0xC0 \<noteq> 0x80 then None
     else utf8_continue (push_bit 6 code OR ucast (c AND 0x3F)) cs)"

function valid_utf8 :: "bytes \<Rightarrow> bool" where
  "valid_utf8 [] = True"
| "valid_utf8 (lead # rest) = (if lead \<le> 0x7F then valid_utf8 rest
     else case utf8_lead lead of None \<Rightarrow> False
     | Some (code, minimum, count) \<Rightarrow> if length rest < count then False
       else case utf8_continue code (take count rest) of None \<Rightarrow> False
       | Some code_point \<Rightarrow> if code_point < minimum \<or> 0x10FFFF < code_point \<or> 0xD800 \<le> code_point \<and> code_point \<le> 0xDFFF then False
         else valid_utf8 (drop count rest))"
  by pat_completeness auto

termination by (relation "measure length") auto

section \<open>Reference\<close>

text \<open>A Unicode scalar value, and the bytes RFC 3629 encodes it with.\<close>

definition scalar_value :: "nat \<Rightarrow> bool" where
  "scalar_value c \<longleftrightarrow> c \<le> 0x10FFFF \<and> \<not> (0xD800 \<le> c \<and> c \<le> 0xDFFF)"

definition utf8_encode :: "nat \<Rightarrow> nat list" where
  "utf8_encode c = (if c < 0x80 then [c]
     else if c < 0x800 then [0xC0 + c div 64, 0x80 + c mod 64]
     else if c < 0x10000 then [0xE0 + c div 4096, 0x80 + c div 64 mod 64, 0x80 + c mod 64]
     else [0xF0 + c div 262144, 0x80 + c div 4096 mod 64, 0x80 + c div 64 mod 64, 0x80 + c mod 64])"

lemma low_bits_mask:
  fixes x :: u8
  shows "unat (x AND 0x3F) = unat x mod 64" "unat (x AND 0x1F) = unat x mod 32" "unat (x AND 0x0F) = unat x mod 16"
  "unat (x AND 0x07) = unat x mod 8"
proof -
  have m: "unat (x AND mask n) = unat x mod 2 ^ n" for n
    by (metis take_bit_eq_mask unsigned_take_bit_eq take_bit_nat_def)
  from m [of 6] m [of 5] m [of 4] m [of 3]
  show "unat (x AND 0x3F) = unat x mod 64" "unat (x AND 0x1F) = unat x mod 32" "unat (x AND 0x0F) = unat x mod 16"
    "unat (x AND 0x07) = unat x mod 8" by (simp_all add: mask_eq_exp_minus_1)
qed

lemma continuation_iff:
  fixes c :: u8
  shows "c AND 0xC0 = 0x80 \<longleftrightarrow> unat c div 64 = 2"
proof -
  have "c AND 0xC0 = push_bit 6 (drop_bit 6 c)"
  proof -
    have e: "(0xC0 :: u8) = NOT (mask 6)" by (simp add: mask_eq_exp_minus_1)
    show ?thesis unfolding e by (rule bit_word_eqI) (auto simp: bit_simps)
  qed
  then have u: "unat (c AND 0xC0) = unat c div 64 * 64"
    using le_less_trans [OF div_times_less_eq_dividend [of "unat c" 64] unat_u8_lt]
    by (simp only: unsigned_push_bit_eq unsigned_drop_bit_eq) (simp add: push_bit_eq_mult drop_bit_eq_div take_bit_nat_eq_self)
  show ?thesis
    by (simp only: word_eq_iff_unsigned [where 'a = nat] u) simp
qed

lemma utf8_step:
  fixes c :: u8
  assumes "unat code < 2 ^ 26"
  shows "unat (push_bit 6 code OR ucast (c AND 0x3F) :: u32) = unat code * 64 + unat c mod 64"
proof -
  have "push_bit 6 code OR ucast (c AND 0x3F) = push_bit 6 code + (ucast (c AND 0x3F) :: u32)"
  proof (rule disjunctive_add_eq_or [symmetric])
    have "c AND 0x3F = take_bit 6 c" by (simp add: take_bit_eq_mask mask_eq_exp_minus_1)
    then show "push_bit 6 code AND (ucast (c AND 0x3F) :: u32) = 0"
      by (simp only:) (rule bit_word_eqI, auto simp: bit_simps)
  qed
  moreover have "unat (push_bit 6 code) = unat code * 64"
    using assms by (simp only: unsigned_push_bit_eq) (simp add: push_bit_eq_mult take_bit_nat_eq_self)
  moreover have "unat (ucast (c AND 0x3F) :: u32) = unat c mod 64"
    by (simp add: unsigned_ucast_eq low_bits_mask take_bit_nat_eq_self)
  ultimately show ?thesis using assms by (simp add: unat_word_ariths)
qed

text \<open>The code point the continuation bytes give.\<close>

definition code_of :: "nat \<Rightarrow> bytes \<Rightarrow> nat" where
  "code_of code cs = foldl (\<lambda>a c. a * 64 + unat c mod 64) code cs"

lemma utf8_continue_iff:
  "unat code < 2 ^ 8 \<Longrightarrow> length cs \<le> 3 \<Longrightarrow>
     (case utf8_continue code cs of None \<Rightarrow> \<exists>c \<in> set cs. unat c div 64 \<noteq> 2
      | Some p \<Rightarrow> (\<forall>c \<in> set cs. unat c div 64 = 2) \<and> unat p = code_of (unat code) cs)"
proof -
  have "unat code < 2 ^ (26 - 6 * length cs) \<Longrightarrow> length cs \<le> 3 \<Longrightarrow>
     (case utf8_continue code cs of None \<Rightarrow> \<exists>c \<in> set cs. unat c div 64 \<noteq> 2
      | Some p \<Rightarrow> (\<forall>c \<in> set cs. unat c div 64 = 2) \<and> unat p = code_of (unat code) cs)"
  proof (induction code cs rule: utf8_continue.induct)
    case (1 code)
    then show ?case by (simp add: code_of_def)
  next
    case (2 code c cs)
    have e: "26 - 6 * length cs = (26 - 6 * length (c # cs)) + 6" using 2(3) by simp
    have b: "unat code < 2 ^ 26" by (rule less_le_trans [OF 2(2)], rule power_increasing) auto
    note st = utf8_step [OF b, of c]
    have "unat code * 64 + unat c mod 64 < 2 ^ (26 - 6 * length cs)"
      using 2(2) unfolding e power_add by simp
    with 2(1) 2(3) st show ?case
      by (cases "c AND 0xC0 = 0x80") (auto simp: continuation_iff code_of_def split: option.splits)
  qed
  moreover assume "unat code < 2 ^ 8" "length cs \<le> 3"
  moreover have "(2 :: nat) ^ 8 \<le> 2 ^ (26 - 6 * length cs)" if "length cs \<le> 3"
    by (rule power_increasing) (use that in simp_all)
  ultimately show ?thesis by fastforce
qed

section \<open>The check accepts exactly the encodings\<close>

definition lead_value :: "nat \<Rightarrow> nat \<Rightarrow> nat" where
  "lead_value l count = (if count = 1 then l mod 32 else if count = 2 then l mod 16 else l mod 8)"

definition lead_minimum :: "nat \<Rightarrow> nat" where
  "lead_minimum count = (if count = 1 then 0x80 else if count = 2 then 0x800 else 0x10000)"

definition lead_count :: "nat \<Rightarrow> nat option" where
  "lead_count l = (if 0xC2 \<le> l \<and> l \<le> 0xDF then Some 1 else if 0xE0 \<le> l \<and> l \<le> 0xEF then Some 2
     else if 0xF0 \<le> l \<and> l \<le> 0xF4 then Some 3 else None)"

lemma lead_count_cases:
  "lead_count l = Some count \<longleftrightarrow> count = 1 \<and> 0xC2 \<le> l \<and> l \<le> 0xDF \<or> count = 2 \<and> 0xE0 \<le> l \<and> l \<le> 0xEF \<or>
     count = 3 \<and> 0xF0 \<le> l \<and> l \<le> 0xF4"
  by (auto simp: lead_count_def split: if_splits)

lemma unat_widen: "unat (ucast x :: u32) = unat x" for x :: u8
  using less_le_trans [OF unat_u8_lt [of x], of "2 ^ 32"] by (simp add: unsigned_ucast_eq take_bit_nat_eq_self)

lemma utf8_lead_nat:
  "map_option (\<lambda>(code, minimum, count). (unat code, unat minimum, count)) (utf8_lead lead) =
     map_option (\<lambda>count. (lead_value (unat lead) count, lead_minimum count, count)) (lead_count (unat lead))"
  by (simp add: utf8_lead_def lead_count_def word_le_nat_alt unat_widen low_bits_mask lead_value_def lead_minimum_def)

lemma continuation_value: "x div 64 = 2 \<Longrightarrow> \<exists>y < 64. x = 0x80 + (y :: nat)"
  by (rule exI [of _ "x mod 64"]) (use div_mult_mod_eq [of x 64] in simp)

lemma base_mod:
  fixes y :: nat
  shows "y < 32 \<Longrightarrow> (0xC0 + y) mod 32 = y" "y < 16 \<Longrightarrow> (0xE0 + y) mod 16 = y"
  "y < 8 \<Longrightarrow> (0xF0 + y) mod 8 = y" "y < 64 \<Longrightarrow> (0x80 + y) mod 64 = y"
  by (simp_all add: mod_add_left_eq [symmetric, of _ y] del: mod_add_left_eq)

lemma lead_values:
  "lead_count l = Some 1 \<Longrightarrow> \<exists>y < 32. l = 0xC0 + y"
  "lead_count l = Some 2 \<Longrightarrow> \<exists>y < 16. l = 0xE0 + y"
  "lead_count l = Some 3 \<Longrightarrow> \<exists>y < 8. l = 0xF0 + y"
proof -
  show "lead_count l = Some 1 \<Longrightarrow> \<exists>y < 32. l = 0xC0 + y" by (rule exI [of _ "l - 0xC0"]) (auto simp: lead_count_cases)
  show "lead_count l = Some 2 \<Longrightarrow> \<exists>y < 16. l = 0xE0 + y" by (rule exI [of _ "l - 0xE0"]) (auto simp: lead_count_cases)
  show "lead_count l = Some 3 \<Longrightarrow> \<exists>y < 8. l = 0xF0 + y" by (rule exI [of _ "l - 0xF0"]) (auto simp: lead_count_cases)
qed

lemma utf8_encode_lead:
  assumes "count = length cs" and lead: "lead_count l = Some count" and cont: "\<forall>c \<in> set cs. unat c div 64 = 2"
    and p: "p = code_of (lead_value l count) cs" and lower: "lead_minimum count \<le> p"
  shows "utf8_encode p = l # map unat cs"
proof -
  from lead consider "count = 1" | "count = 2" | "count = 3" by (auto simp: lead_count_cases)
  then show ?thesis
  proof cases
    case 1
    then obtain a where cs: "cs = [a]" using assms(1) by (auto simp: length_Suc_conv numeral_eq_Suc)
    obtain y x where v: "y < 32" "l = 0xC0 + y" "x < 64" "unat a = 0x80 + x"
      using lead_values(1) lead 1 cont continuation_value cs by fastforce
    have "p = y * 64 + x" using p 1 cs v by (simp add: code_of_def lead_value_def base_mod)
    then show ?thesis using v lower 1 cs by (simp add: utf8_encode_def lead_minimum_def)
  next
    case 2
    then obtain a b where cs: "cs = [a, b]" using assms(1) by (auto simp: length_Suc_conv numeral_eq_Suc)
    obtain l' where l: "l' < 16" "l = 0xE0 + l'" using lead_values(2) lead 2 by blast
    obtain x y where v: "x < 64" "unat a = 0x80 + x" "y < 64" "unat b = 0x80 + y"
      using cont cs continuation_value by (meson list.set_intros)
    have p': "p = (l' * 64 + x) * 64 + y" using p 2 cs l v by (simp add: code_of_def lead_value_def base_mod)
    have d: "p div 64 = l' * 64 + x" "p mod 64 = y" unfolding p' using v by (simp_all only: mod_mult_self3 mod_less) simp_all
    have "p div 4096 = p div 64 div 64" by (simp add: div_mult2_eq [symmetric])
    with d have e: "p div 4096 = l'" "p div 64 mod 64 = x" using v by simp_all
    from e(1) l(1) have "p < 0x10000" by (simp add: div_less_iff_less_mult [of 4096 p 16, symmetric])
    with d(2) e l v lower 2 cs show ?thesis by (simp add: utf8_encode_def lead_minimum_def)
  next
    case 3
    then obtain a b d where cs: "cs = [a, b, d]" using assms(1) by (auto simp: length_Suc_conv numeral_eq_Suc)
    obtain l' where l: "l' < 8" "l = 0xF0 + l'" using lead_values(3) lead 3 by blast
    obtain x y z where v: "x < 64" "unat a = 0x80 + x" "y < 64" "unat b = 0x80 + y" "z < 64" "unat d = 0x80 + z"
      using cont cs continuation_value by (meson list.set_intros)
    have p': "p = ((l' * 64 + x) * 64 + y) * 64 + z" using p 3 cs l v by (simp add: code_of_def lead_value_def base_mod)
    have d: "p div 64 = (l' * 64 + x) * 64 + y" "p mod 64 = z" unfolding p' using v by (simp_all only: mod_mult_self3 mod_less) simp_all
    have q: "p div 4096 = p div 64 div 64" "p div 262144 = p div 64 div 64 div 64" by (simp_all add: div_mult2_eq [symmetric])
    have e: "p div 4096 = l' * 64 + x" "p div 64 mod 64 = y" unfolding q d using v by (simp_all only: mod_mult_self3 mod_less) simp_all
    then have f: "p div 262144 = l'" "p div 4096 mod 64 = x" using v q by simp_all
    from d(2) e(2) f l v lower 3 cs show ?thesis by (simp add: utf8_encode_def lead_minimum_def)
  qed
qed

text \<open>The other direction, by the length of the encoding.\<close>

lemma continuation_div: "y < 64 \<Longrightarrow> (0x80 + y) div 64 = (2 :: nat)"
  using div_mult_self3 [of 64 2 y] by simp

lemma encoded_lead:
  assumes "utf8_encode c = unat lead # map unat cs" and "c \<le> 0x10FFFF"
  shows "(c < 0x80 \<and> cs = [] \<and> unat lead = c) \<or> (lead_count (unat lead) = Some (length cs) \<and> cs \<noteq> [] \<and>
    (\<forall>x \<in> set cs. unat x div 64 = 2) \<and> code_of (lead_value (unat lead) (length cs)) cs = c \<and> lead_minimum (length cs) \<le> c)"
proof -
  have d: "c = c div 64 * 64 + c mod 64" "c div 64 = c div 4096 * 64 + c div 64 mod 64" "c div 4096 = c div 262144 * 64 + c div 4096 mod 64"
    by (simp_all add: div_mult2_eq [of c 64 64, simplified] div_mult2_eq [of c 4096 64, simplified])
  have m: "c mod 64 < 64" "c div 64 mod 64 < 64" "c div 4096 mod 64 < 64" by simp_all
  consider "c < 0x80" | "0x80 \<le> c" "c < 0x800" | "0x800 \<le> c" "c < 0x10000" | "0x10000 \<le> c" by linarith
  then show ?thesis
  proof cases
    case 1
    with assms show ?thesis by (simp add: utf8_encode_def)
  next
    case 2
    with assms have u: "unat lead = 0xC0 + c div 64" "map unat cs = [0x80 + c mod 64]" by (simp_all add: utf8_encode_def)
    then obtain a where cs: "cs = [a]" "unat a = 0x80 + c mod 64" by auto
    have r: "2 \<le> c div 64" "c div 64 < 32" using 2 by (simp_all add: less_mult_imp_div_less)
    then have "lead_count (unat lead) = Some 1" by (simp add: lead_count_def u)
    moreover have "(0x80 + c mod 64) div 64 = 2" by simp
    ultimately show ?thesis using r m d(1) 2 cs by (simp add: code_of_def lead_value_def lead_minimum_def u base_mod)
  next
    case 3
    with assms have u: "unat lead = 0xE0 + c div 4096" "map unat cs = [0x80 + c div 64 mod 64, 0x80 + c mod 64]"
      by (simp_all add: utf8_encode_def)
    then obtain a b where cs: "cs = [a, b]" "unat a = 0x80 + c div 64 mod 64" "unat b = 0x80 + c mod 64" by auto
    have r: "c div 4096 < 16" using 3 by (simp add: less_mult_imp_div_less)
    then have "lead_count (unat lead) = Some 2" by (simp add: lead_count_def u)
    moreover have "(c div 4096 * 64 + c div 64 mod 64) * 64 + c mod 64 = c" using d by simp
    ultimately show ?thesis using r m 3 cs by (simp add: code_of_def lead_value_def lead_minimum_def u base_mod continuation_div)
  next
    case 4
    with assms(1) have u: "unat lead = 0xF0 + c div 262144"
      "map unat cs = [0x80 + c div 4096 mod 64, 0x80 + c div 64 mod 64, 0x80 + c mod 64]" by (simp_all add: utf8_encode_def)
    then obtain a b e where cs: "cs = [a, b, e]" "unat a = 0x80 + c div 4096 mod 64" "unat b = 0x80 + c div 64 mod 64"
      "unat e = 0x80 + c mod 64" by auto
    have r: "c div 262144 < 5" using assms(2) by (simp add: less_mult_imp_div_less)
    then have "lead_count (unat lead) = Some 3" by (simp add: lead_count_def u)
    moreover have "((c div 262144 * 64 + c div 4096 mod 64) * 64 + c div 64 mod 64) * 64 + c mod 64 = c" using d by simp
    ultimately show ?thesis using r m 4 cs by (simp add: code_of_def lead_value_def lead_minimum_def u base_mod continuation_div)
  qed
qed

lemma valid_utf8_multibyte:
  assumes "lead_count (unat lead) = Some count"
  shows "valid_utf8 (lead # rest) \<longleftrightarrow> count \<le> length rest \<and> (\<forall>c \<in> set (take count rest). unat c div 64 = 2) \<and>
    lead_minimum count \<le> code_of (lead_value (unat lead) count) (take count rest) \<and>
    scalar_value (code_of (lead_value (unat lead) count) (take count rest)) \<and> valid_utf8 (drop count rest)"
proof -
  have big: "\<not> lead \<le> 0x7F" and count: "count \<le> 3" using assms by (auto simp: lead_count_cases word_le_nat_alt)
  obtain code minimum where l: "utf8_lead lead = Some (code, minimum, count)" and c: "unat code = lead_value (unat lead) count"
    and m: "unat minimum = lead_minimum count" using utf8_lead_nat [of lead] assms by auto
  have "lead_value (unat lead) count < 2 ^ 8" by (simp add: lead_value_def less_le_trans [OF mod_less_divisor])
  moreover have "length (take count rest) \<le> 3" using count by simp
  moreover note utf8_continue_iff [of code "take count rest"] c
  ultimately
  have k: "case utf8_continue code (take count rest) of None \<Rightarrow> \<exists>c \<in> set (take count rest). unat c div 64 \<noteq> 2
      | Some p \<Rightarrow> (\<forall>c \<in> set (take count rest). unat c div 64 = 2) \<and> unat p = code_of (lead_value (unat lead) count) (take count rest)"
    by (simp split: option.splits del: length_take)
  show ?thesis using big l m k
    by (cases "utf8_continue code (take count rest)")
       (auto simp: word_less_nat_alt word_le_nat_alt scalar_value_def not_less)
qed

text \<open>
  C32: The catalog's text check accepts exactly the well-formed UTF-8 strings: the concatenations of the encodings
  of Unicode scalar values. No overlong form, surrogate, code point above 10FFFF or cut character is accepted, and
  no well-formed string is refused.
\<close>

theorem valid_utf8_accepts_encodings:
  "valid_utf8 bs \<longleftrightarrow> (\<exists>cps. (\<forall>c \<in> set cps. scalar_value c) \<and> map unat bs = concat (map utf8_encode cps))"
proof
  show "valid_utf8 bs \<Longrightarrow> \<exists>cps. (\<forall>c \<in> set cps. scalar_value c) \<and> map unat bs = concat (map utf8_encode cps)"
  proof (induction bs rule: length_induct)
    case (1 bs)
    show ?case
    proof (cases bs)
      case Nil
      then show ?thesis by (intro exI [of _ "[]"]) simp
    next
      case (Cons lead rest)
      show ?thesis
      proof (cases "lead \<le> 0x7F")
        case True
        then have "valid_utf8 rest" using 1(2) Cons by simp
        with 1(1) Cons obtain cps where "\<forall>c \<in> set cps. scalar_value c" "map unat rest = concat (map utf8_encode cps)" by fastforce
        moreover from True have "utf8_encode (unat lead) = [unat lead]" "scalar_value (unat lead)"
          by (simp_all add: utf8_encode_def scalar_value_def word_le_nat_alt)
        ultimately show ?thesis using Cons by (intro exI [of _ "unat lead # cps"]) simp
      next
        case False
        then obtain count where l: "lead_count (unat lead) = Some count"
          using 1(2) Cons utf8_lead_nat [of lead] by (cases "utf8_lead lead"; cases "lead_count (unat lead)") auto
        let ?p = "code_of (lead_value (unat lead) count) (take count rest)"
        from valid_utf8_multibyte [OF l] 1(2) Cons have v: "count \<le> length rest" "\<forall>c \<in> set (take count rest). unat c div 64 = 2"
          "lead_minimum count \<le> ?p" "scalar_value ?p" "valid_utf8 (drop count rest)" by auto
        have "length (drop count rest) < length bs" using Cons by simp
        with 1(1) v(5) obtain cps where "\<forall>c \<in> set cps. scalar_value c" "map unat (drop count rest) = concat (map utf8_encode cps)"
          by blast
        moreover have "utf8_encode ?p = unat lead # map unat (take count rest)"
          by (rule utf8_encode_lead [OF _ l v(2) refl v(3)]) (use v(1) in simp)
        moreover have "map unat rest = map unat (take count rest) @ map unat (drop count rest)" by (metis append_take_drop_id map_append)
        ultimately show ?thesis using v(4) Cons by (intro exI [of _ "?p # cps"]) simp
      qed
    qed
  qed
next
  have "(\<forall>c \<in> set cps. scalar_value c) \<Longrightarrow> map unat bs = concat (map utf8_encode cps) \<Longrightarrow> valid_utf8 bs" for cps
  proof (induction cps arbitrary: bs)
    case (Cons c cps)
    have ne: "utf8_encode c \<noteq> []" by (simp add: utf8_encode_def)
    then obtain lead rest where bs: "bs = lead # rest" using Cons.prems(2) by (cases bs) auto
    let ?n = "length (utf8_encode c) - 1"
    have e: "utf8_encode c @ concat (map utf8_encode cps) = unat lead # map unat rest" using Cons.prems(2) bs by simp
    then have enc: "utf8_encode c = unat lead # map unat (take ?n rest)" and rest: "concat (map utf8_encode cps) = map unat (drop ?n rest)"
      using ne by (cases "utf8_encode c"; auto simp: take_map drop_map append_eq_conv_conj)+
    have V: "valid_utf8 (drop ?n rest)" using Cons.IH [OF _ rest [symmetric]] Cons.prems(1) by simp
    have c: "c \<le> 0x10FFFF" "scalar_value c" using Cons.prems(1) by (simp_all add: scalar_value_def)
    have n: "length (take ?n rest) = ?n" using arg_cong [OF enc, of length] by simp
    from encoded_lead [OF enc c(1)] show "valid_utf8 bs"
    proof (elim disjE conjE)
      assume "c < 0x80" "take ?n rest = []" "unat lead = c"
      then have "?n = 0" "lead \<le> 0x7F" by (simp_all add: word_le_nat_alt utf8_encode_def)
      with V show "valid_utf8 bs" by (simp add: bs)
    next
      assume l: "lead_count (unat lead) = Some (length (take ?n rest))"
      note l = l [unfolded n]
      assume "\<forall>x \<in> set (take ?n rest). unat x div 64 = 2"
        "code_of (lead_value (unat lead) (length (take ?n rest))) (take ?n rest) = c" "lead_minimum (length (take ?n rest)) \<le> c"
      moreover have "?n \<le> length rest" using n by simp
      ultimately show "valid_utf8 bs" using V c(2) unfolding bs n valid_utf8_multibyte [OF l, of rest] by simp
    qed
  qed simp
  then show "\<exists>cps. (\<forall>c \<in> set cps. scalar_value c) \<and> map unat bs = concat (map utf8_encode cps) \<Longrightarrow> valid_utf8 bs" by blast
qed

theorem valid_utf8_accepts_encodings_witness:
  "valid_utf8 [0xE2, 0x82, 0xAC]"
proof -
  have "\<exists>cps. (\<forall>c \<in> set cps. scalar_value c) \<and> map unat [0xE2, 0x82, 0xAC :: u8] = concat (map utf8_encode cps)"
    by (rule exI [of _ "[0x20AC]"]) (simp add: scalar_value_def utf8_encode_def)
  then show ?thesis by (simp only: valid_utf8_accepts_encodings)
qed

end
