(* ===== verification/Signal_Catalog.thy ===== *)
theory Signal_Catalog
  imports Utf8 Signals Config_Transfer
begin

text \<open>
  The catalogs a companion client reads in pages: the export of the signal catalog
  (\<open>lib/companion_protocol/src/signal_catalog_export.cpp\<close>), the export of the output catalog document
  (\<open>output_catalog_export.cpp\<close>) and the selectors that hold the page a connection has chosen
  (\<open>signal_catalog_selector.cpp\<close>, \<open>output_catalog_selector.cpp\<close>).
\<close>

section \<open>Tokens and sizes\<close>

definition signal_catalog_format :: u8 where
  "signal_catalog_format = 1"

definition max_catalog_signals :: nat where
  "max_catalog_signals = 64"

definition max_catalog_choices :: nat where
  "max_catalog_choices = 32"

definition max_catalog_key_bytes :: nat where
  "max_catalog_key_bytes = 63"

definition max_catalog_token_bytes :: nat where
  "max_catalog_token_bytes = 31"

definition max_catalog_document_bytes :: nat where
  "max_catalog_document_bytes = 16 * 1024"

definition catalog_page_header_bytes :: nat where
  "catalog_page_header_bytes = 11"

definition catalog_page_data_bytes :: nat where
  "catalog_page_data_bytes = 200"

definition catalog_document_header_bytes :: nat where
  "catalog_document_header_bytes = 3"

text \<open>The bytes of a text.\<close>

definition text_bytes :: "string \<Rightarrow> bytes" where
  "text_bytes s = map of_char s"

fun unit_token :: "signal_unit \<Rightarrow> string" where
  "unit_token UNone = ''none''"
| "unit_token KilometresPerHour = ''km/h''"
| "unit_token RevolutionsPerMinute = ''rpm''"
| "unit_token MetresPerSecondSquared = ''m/s^2''"

fun evidence_token :: "validation_status \<Rightarrow> string" where
  "evidence_token Reference = ''reference''"
| "evidence_token Observed = ''observed''"
| "evidence_token Confirmed = ''confirmed''"

fun wire_type_code :: "signal_type \<Rightarrow> u8" where
  "wire_type_code TBoolean = 1"
| "wire_type_code TNumber = 2"
| "wire_type_code TEnum = 3"

definition valid_wire_string :: "string \<Rightarrow> nat \<Rightarrow> bool" where
  "valid_wire_string text maximum = (text \<noteq> [] \<and> length text \<le> maximum \<and> valid_utf8 (text_bytes text))"

definition tlv_bytes :: "nat \<Rightarrow> nat" where
  "tlv_bytes value_length = 3 + value_length"

definition choices_value_bytes :: "signal_metadata \<Rightarrow> nat" where
  "choices_value_bytes m = fold (\<lambda>c size. size + (2 + 1 + length (ch_key c))) (md_choices m) 2"

definition descriptor_body_bytes :: "signal_metadata \<Rightarrow> nat" where
  "descriptor_body_bytes m = 2 + tlv_bytes (length (md_key m)) + tlv_bytes 1 + tlv_bytes (length (unit_token (md_unit m))) +
     tlv_bytes (length (evidence_token (md_validation m))) +
     (if md_type m = TEnum then tlv_bytes (choices_value_bytes m) else 0)"

section \<open>The export\<close>

record signal_export =
  ex_entries :: "signal_metadata list"
  ex_document_length :: u16
  ex_available :: bool

definition export_failed :: "signal_metadata list \<Rightarrow> signal_export" where
  "export_failed entries = \<lparr>ex_entries = entries, ex_document_length = 0, ex_available = False\<rparr>"

text \<open>What makes the constructor give up at an entry, apart from the size of the document.\<close>

definition entry_refused :: "nat \<Rightarrow> signal_metadata \<Rightarrow> bool" where
  "entry_refused signal_count m = (max_catalog_signals \<le> signal_count \<or> \<not> valid_wire_string (md_key m) max_catalog_key_bytes
     \<or> \<not> valid_wire_string (unit_token (md_unit m)) max_catalog_token_bytes
     \<or> \<not> valid_wire_string (evidence_token (md_validation m)) max_catalog_token_bytes
     \<or> md_type m = TEnum \<and> (md_choices m = [] \<or> max_catalog_choices < length (md_choices m)
         \<or> list_ex (\<lambda>c. \<not> valid_wire_string (ch_key c) max_catalog_key_bytes) (md_choices m)))"

fun export_entries :: "catalog \<Rightarrow> signal_metadata list \<Rightarrow> nat \<Rightarrow> signal_export" where
  "export_entries [] entries len = \<lparr>ex_entries = entries, ex_document_length = of_nat len, ex_available = True\<rparr>"
| "export_entries (m # ms) entries len = (if \<not> caps_has (md_capabilities m) CRead then export_entries ms entries len
     else if entry_refused (length entries) m then export_failed entries
     else let body = descriptor_body_bytes m; descriptor = 2 + body in
       if 65535 < body \<or> max_catalog_document_bytes < descriptor \<or> max_catalog_document_bytes - descriptor < len then export_failed entries
       else export_entries ms (entries @ [m]) (len + descriptor))"

definition signal_catalog_export :: "catalog \<Rightarrow> signal_export" where
  "signal_catalog_export cat = (if \<not> catalog_well_formed cat then export_failed [] else export_entries cat [] catalog_document_header_bytes)"

definition ex_signal_count :: "signal_export \<Rightarrow> u16" where
  "ex_signal_count ex = (if ex_available ex then of_nat (length (ex_entries ex)) else 0)"

definition ex_length :: "signal_export \<Rightarrow> u16" where
  "ex_length ex = (if ex_available ex then ex_document_length ex else 0)"

definition metadata_for_handle :: "signal_export \<Rightarrow> u16 \<Rightarrow> signal_metadata option" where
  "metadata_for_handle ex handle = (if \<not> ex_available ex \<or> handle = 0 \<or> length (ex_entries ex) < unat handle then None
     else Some (ex_entries ex ! (unat handle - 1)))"

definition provider_id_for_handle :: "signal_export \<Rightarrow> u16 \<Rightarrow> signal_id" where
  "provider_id_for_handle ex handle = (case metadata_for_handle ex handle of None \<Rightarrow> SignalId 0 | Some m \<Rightarrow> md_id m)"

fun choice_index :: "enum_choice list \<Rightarrow> u16 \<Rightarrow> nat \<Rightarrow> u16 option" where
  "choice_index [] value index = None"
| "choice_index (c # cs) value index = (if ch_value c = value then Some (of_nat (index + 1)) else choice_index cs value (Suc index))"

definition wire_choice_handle :: "signal_export \<Rightarrow> u16 \<Rightarrow> u16 \<Rightarrow> u16 option" where
  "wire_choice_handle ex handle value = (case metadata_for_handle ex handle of None \<Rightarrow> None
     | Some m \<Rightarrow> if md_type m \<noteq> TEnum then None else choice_index (md_choices m) value 0)"

section \<open>Pages\<close>

text \<open>\<open>PageSink\<close>: the document flows past; the bytes of the window stay on the page.\<close>

record page_sink =
  sk_page :: bounded_bytes
  sk_begin :: nat
  sk_end :: nat
  sk_cursor :: nat
  sk_ok :: bool

definition sink_push :: "u8 \<Rightarrow> page_sink \<Rightarrow> page_sink" where
  "sink_push x s = (let s1 = (if sk_begin s \<le> sk_cursor s \<and> sk_cursor s < sk_end s
       then (let (pushed, page) = push x (sk_page s) in s\<lparr>sk_page := page, sk_ok := sk_ok s \<and> pushed\<rparr>) else s)
     in s1\<lparr>sk_cursor := sk_cursor s1 + 1\<rparr>)"

definition sink_u16 :: "u16 \<Rightarrow> page_sink \<Rightarrow> page_sink" where
  "sink_u16 v s = sink_push (ucast (drop_bit 8 v)) (sink_push (ucast (v AND 0xFF)) s)"

definition sink_text :: "string \<Rightarrow> page_sink \<Rightarrow> page_sink" where
  "sink_text text s = fold sink_push (text_bytes text) s"

definition append_tlv :: "u8 \<Rightarrow> string \<Rightarrow> page_sink \<Rightarrow> page_sink" where
  "append_tlv tag value s = sink_text value (sink_u16 (of_nat (length value)) (sink_push tag s))"

definition sink_choice :: "nat \<times> enum_choice \<Rightarrow> page_sink \<Rightarrow> page_sink" where
  "sink_choice = (\<lambda>(index, c) s. sink_text (ch_key c) (sink_push (of_nat (length (ch_key c))) (sink_u16 (of_nat (index + 1)) s)))"

definition sink_descriptor :: "nat \<times> signal_metadata \<Rightarrow> page_sink \<Rightarrow> page_sink" where
  "sink_descriptor = (\<lambda>(index, m) s0. let
       s1 = sink_u16 (of_nat (index + 1)) (sink_u16 (of_nat (descriptor_body_bytes m)) s0);
       s2 = append_tlv 1 (md_key m) s1;
       s3 = sink_push (wire_type_code (md_type m)) (sink_u16 1 (sink_push 2 s2));
       s4 = append_tlv 4 (evidence_token (md_validation m)) (append_tlv 3 (unit_token (md_unit m)) s3) in
     if md_type m = TEnum
     then fold sink_choice (zip [0..<length (md_choices m)] (md_choices m))
       (sink_u16 (of_nat (length (md_choices m))) (sink_u16 (of_nat (choices_value_bytes m)) (sink_push 5 s4)))
     else s4)"

text \<open>The pushes of a page header, the first that fails ending them.\<close>

definition page_header :: "u8 \<Rightarrow> u32 \<Rightarrow> u16 \<Rightarrow> u16 \<Rightarrow> nat \<Rightarrow> bounded_bytes option" where
  "page_header format token document_length offset count = (let
       (o1, p1) = push format (bounded_new (catalog_page_header_bytes + catalog_page_data_bytes));
       (o2, p2) = push_u32 token p1; (o3, p3) = push_u16 document_length p2; (o4, p4) = push_u16 offset p3; (o5, p5) = push_u16 (of_nat count) p4
     in if o1 \<and> o2 \<and> o3 \<and> o4 \<and> o5 then Some p5 else None)"

definition signal_page :: "signal_export \<Rightarrow> u32 \<Rightarrow> u16 \<Rightarrow> bounded_bytes option" where
  "signal_page ex token offset = (if \<not> ex_available ex \<or> token = 0 \<or> ex_document_length ex < offset then None
     else let remaining = unat (ex_document_length ex) - unat offset;
         count = (if remaining < catalog_page_data_bytes then remaining else catalog_page_data_bytes) in
     (case page_header signal_catalog_format token (ex_document_length ex) offset count of None \<Rightarrow> None
      | Some page \<Rightarrow> let s0 = \<lparr>sk_page = page, sk_begin = unat offset, sk_end = unat offset + count, sk_cursor = 0, sk_ok = True\<rparr>;
          s1 = sink_u16 (of_nat (length (ex_entries ex))) (sink_push signal_catalog_format s0);
          s2 = fold sink_descriptor (zip [0..<length (ex_entries ex)] (ex_entries ex)) s1 in
        if \<not> sk_ok s2 \<or> sk_cursor s2 \<noteq> unat (ex_document_length ex)
          \<or> length (bb_bytes (sk_page s2)) \<noteq> catalog_page_header_bytes + count then None
        else Some (sk_page s2)))"

text \<open>The output catalog is a document as it is.\<close>

definition output_available :: "bytes \<Rightarrow> bool" where
  "output_available document = (document \<noteq> [] \<and> length document \<le> max_catalog_document_bytes)"

definition output_length :: "bytes \<Rightarrow> u16" where
  "output_length document = (if output_available document then of_nat (length document) else 0)"

definition output_page :: "bytes \<Rightarrow> u32 \<Rightarrow> u16 \<Rightarrow> bounded_bytes option" where
  "output_page document token offset = (if \<not> output_available document \<or> token = 0 \<or> length document < unat offset then None
     else let count = min (length document - unat offset) catalog_page_data_bytes in
     (case page_header signal_catalog_format token (output_length document) offset count of None \<Rightarrow> None
      | Some page \<Rightarrow> (let (pushed, page1) = append_bytes (take count (drop (unat offset) document)) page in
        if pushed then Some page1 else None)))"

section \<open>The selectors\<close>

text \<open>
  The two selectors differ in their export only: \<open>'x\<close> with its availability, its length and its pages.
\<close>

record 'x page_source =
  ps_available :: "'x \<Rightarrow> bool"
  ps_length :: "'x \<Rightarrow> u16"
  ps_page :: "'x \<Rightarrow> u32 \<Rightarrow> u16 \<Rightarrow> bounded_bytes option"

definition signal_source :: "signal_export page_source" where
  "signal_source = \<lparr>ps_available = ex_available, ps_length = ex_length, ps_page = signal_page\<rparr>"

definition output_source :: "bytes page_source" where
  "output_source = \<lparr>ps_available = output_available, ps_length = output_length, ps_page = output_page\<rparr>"

definition no_connection :: u32 where
  "no_connection = 0xFFFFFFFF"

record 'x selector =
  se_catalog :: "'x option"
  se_connection :: u32
  se_token :: u32
  se_offset :: u16

definition selector_new :: "'x option \<Rightarrow> 'x selector" where
  "selector_new catalog = \<lparr>se_catalog = catalog, se_connection = no_connection, se_token = 0, se_offset = 0\<rparr>"

definition selector_reset :: "'x selector \<Rightarrow> 'x selector" where
  "selector_reset s = s\<lparr>se_connection := no_connection, se_token := 0, se_offset := 0\<rparr>"

definition selector_bind :: "'x \<Rightarrow> 'x selector \<Rightarrow> 'x selector" where
  "selector_bind catalog s = selector_reset (s\<lparr>se_catalog := Some catalog\<rparr>)"

definition selector_connect :: "u32 \<Rightarrow> u32 \<Rightarrow> 'x selector \<Rightarrow> 'x selector" where
  "selector_connect connection token s = (if se_connection s \<noteq> no_connection \<or> token = 0 then s
     else s\<lparr>se_connection := connection, se_token := token, se_offset := 0\<rparr>)"

definition selector_disconnect :: "u32 \<Rightarrow> 'x selector \<Rightarrow> 'x selector" where
  "selector_disconnect connection s = (if connection = se_connection s then selector_reset s else s)"

definition selector_active :: "u32 \<Rightarrow> 'x selector \<Rightarrow> bool" where
  "selector_active connection s = (se_connection s \<noteq> no_connection \<and> connection = se_connection s \<and> se_token s \<noteq> 0)"

definition selector_select :: "'x page_source \<Rightarrow> u32 \<Rightarrow> bytes \<Rightarrow> 'x selector \<Rightarrow> att_error \<times> 'x selector" where
  "selector_select src connection sel s = (if length sel \<noteq> 7 then (AttInvalidLength, s)
     else if sel ! 0 \<noteq> signal_catalog_format then (AttUnsupportedOperation, s)
     else (case se_catalog s of None \<Rightarrow> (AttInvalidState, s)
       | Some ex \<Rightarrow> if \<not> selector_active connection s \<or> \<not> ps_available src ex \<or> read_u32 sel 1 \<noteq> se_token s then (AttInvalidState, s)
         else let offset = read_u16 sel 5 in
         if ps_length src ex < offset then (AttInvalidPdu, s)
         else (AttNone, s\<lparr>se_offset := offset\<rparr>)))"

definition selector_read :: "'x page_source \<Rightarrow> u32 \<Rightarrow> 'x selector \<Rightarrow> bounded_bytes option" where
  "selector_read src connection s = (case se_catalog s of None \<Rightarrow> None
     | Some ex \<Rightarrow> if \<not> selector_active connection s \<or> \<not> ps_available src ex then None
       else ps_page src ex (se_token s) (se_offset s))"

definition token_for_connection :: "'x page_source \<Rightarrow> u32 \<Rightarrow> 'x selector \<Rightarrow> u32" where
  "token_for_connection src connection s = (case se_catalog s of None \<Rightarrow> 0
     | Some ex \<Rightarrow> if selector_active connection s \<and> ps_available src ex then se_token s else 0)"

end
