(* ===== verification/Extensible_Live.thy ===== *)
theory Extensible_Live
  imports Live_Signals Signal_Catalog
begin

text \<open>
  The catalog-keyed live stream: the packet builder and sampler
  (\<open>lib/companion_protocol/src/extensible_live_signals.cpp\<close>) and the stream that picks the due records round robin
  from a cursor (\<open>extensible_live_stream.cpp\<close>). The provider is a port and its state, the catalog an export.
\<close>

section \<open>The packet builder\<close>

definition ext_format :: u8 where
  "ext_format = 1"

definition ext_header_bytes :: nat where
  "ext_header_bytes = 8"

definition ext_record_header_bytes :: nat where
  "ext_record_header_bytes = 5"

definition ext_max_packet_bytes :: nat where
  "ext_max_packet_bytes = 244"

record packet_builder =
  pb_packet :: bounded_bytes
  pb_appended :: u64
  pb_limit :: nat
  pb_valid :: bool

definition freshness_is_unset :: "signal_metadata \<Rightarrow> bool" where
  "freshness_is_unset m = (case List.find (\<lambda>slot. sl_key slot = md_key m \<and> sl_type slot = md_type m) live_slots of
     None \<Rightarrow> False | Some slot \<Rightarrow> sl_freshness_unset slot)"

definition reported_status :: "signal_metadata \<Rightarrow> availability \<Rightarrow> signal_status_code" where
  "reported_status m av = (let status = availability_code av in
     if freshness_is_unset m \<and> status = LcFresh then LcFreshnessUnverified else status)"

definition ext_packet_limit :: "u16 \<Rightarrow> nat" where
  "ext_packet_limit att_mtu = (let mtu_limit = (if 3 < att_mtu then unat att_mtu - 3 else 0) in
     if mtu_limit < ext_max_packet_bytes then mtu_limit else ext_max_packet_bytes)"

definition builder_new :: "signal_export \<Rightarrow> u32 \<Rightarrow> u16 \<Rightarrow> bool \<Rightarrow> u16 \<Rightarrow> packet_builder" where
  "builder_new ex token sequence started att_mtu = (let
       limit = ext_packet_limit att_mtu;
       invalid = \<lparr>pb_packet = bounded_new ext_max_packet_bytes, pb_appended = 0, pb_limit = limit, pb_valid = False\<rparr>
     in if \<not> ex_available ex \<or> token = 0 \<or> limit < ext_header_bytes then invalid
     else let (o1, p1) = push ext_format (pb_packet invalid); (o2, p2) = push_u16 sequence p1;
         (o3, p3) = push (if started then 0x01 else 0) p2; (o4, p4) = push_u32 token p3
       in if o1 \<and> o2 \<and> o3 \<and> o4 then invalid\<lparr>pb_packet := p4, pb_valid := True\<rparr> else invalid)"

definition pb_full :: "packet_builder \<Rightarrow> bool" where
  "pb_full b = (pb_valid b \<and> length (bb_bytes (pb_packet b)) = pb_limit b)"

definition pb_metadata :: "signal_export \<Rightarrow> 'p port \<Rightarrow> 'p \<Rightarrow> packet_builder \<Rightarrow> u16 \<Rightarrow> signal_metadata option" where
  "pb_metadata ex P p b handle = (if \<not> pb_valid b \<or> handle = 0 \<or> ex_signal_count ex < handle then None
     else let provider_id = provider_id_for_handle ex handle in
       if \<not> sid_valid provider_id then None
       else (case catalog_find (port_catalog P p) provider_id of None \<Rightarrow> None
         | Some m \<Rightarrow> if \<not> caps_has (md_capabilities m) CRead then None else Some m))"

definition handle_taken :: "packet_builder \<Rightarrow> u16 \<Rightarrow> bool" where
  "handle_taken b handle = (handle = 0 \<or> 64 < handle \<or> pb_appended b AND push_bit (unat handle - 1) 1 \<noteq> 0)"

text \<open>The pushes of a value's bytes; a failed one leaves what is there.\<close>

fun push_value :: "bytes \<Rightarrow> bounded_bytes \<Rightarrow> bool \<times> bounded_bytes" where
  "push_value [] b = (True, b)"
| "push_value (x # xs) b = (case push x b of (False, b1) \<Rightarrow> (False, b1) | (True, b1) \<Rightarrow> push_value xs b1)"

definition append_status :: "u16 \<Rightarrow> signal_metadata \<Rightarrow> signal_status_code \<Rightarrow> bytes \<Rightarrow> packet_builder \<Rightarrow> bool \<times> packet_builder" where
  "append_status handle m status value b = (if 4 < length value then (False, b)
     else let record_length = 4 + length value; size = length (bb_bytes (pb_packet b)) in
     if \<not> pb_valid b \<or> handle_taken b handle \<or> pb_limit b < size \<or> pb_limit b - size < 1 + record_length then (False, b)
     else let status_byte = (status_code_value status AND 0x07) OR (if value \<noteq> [] then 0x08 else 0);
         (o1, p1) = push (of_nat record_length) (pb_packet b); (o2, p2) = push_u16 handle p1;
         (o3, p3) = push (wire_type_code (md_type m)) p2; (o4, p4) = push status_byte p3
       in if \<not> (o1 \<and> o2 \<and> o3 \<and> o4) then (False, b\<lparr>pb_packet := p4\<rparr>)
       else (case push_value value p4 of (False, p5) \<Rightarrow> (False, b\<lparr>pb_packet := p5\<rparr>)
         | (True, p5) \<Rightarrow> (True, b\<lparr>pb_packet := p5, pb_appended := pb_appended b OR push_bit (unat handle - 1) 1\<rparr>)))"

definition encoded_value :: "signal_export \<Rightarrow> u16 \<Rightarrow> signal_metadata \<Rightarrow> signal_value \<Rightarrow> bytes" where
  "encoded_value ex handle m value = (if sv_type value \<noteq> md_type m then [] else case value of
       VBoolean flag \<Rightarrow> [if flag then 1 else 0]
     | VNumber number \<Rightarrow> if f32_isfinite number
         then [ucast (number AND 0xFF), ucast (drop_bit 8 number AND 0xFF), ucast (drop_bit 16 number AND 0xFF), ucast (drop_bit 24 number)] else []
     | VEnum raw \<Rightarrow> (case wire_choice_handle ex handle raw of None \<Rightarrow> []
         | Some choice \<Rightarrow> if choice = 0 then [] else [ucast (choice AND 0xFF), ucast (drop_bit 8 choice)]))"

definition append_reading ::
  "signal_export \<Rightarrow> 'p port \<Rightarrow> 'p \<Rightarrow> u16 \<Rightarrow> signal_reading \<Rightarrow> packet_builder \<Rightarrow> bool \<times> packet_builder" where
  "append_reading ex P p handle reading b = (if handle_taken b handle then (False, b)
     else case pb_metadata ex P p b handle of None \<Rightarrow> (False, b)
     | Some m \<Rightarrow> append_status handle m (reported_status m (rd_availability reading))
         (case rd_value reading of None \<Rightarrow> [] | Some v \<Rightarrow> encoded_value ex handle m v) b)"

definition append_failure ::
  "signal_export \<Rightarrow> 'p port \<Rightarrow> 'p \<Rightarrow> u16 \<Rightarrow> signal_status \<Rightarrow> packet_builder \<Rightarrow> bool \<times> packet_builder" where
  "append_failure ex P p handle failure b = (if handle_taken b handle then (False, b)
     else case pb_metadata ex P p b handle of None \<Rightarrow> (False, b)
     | Some m \<Rightarrow> append_status handle m (failure_code failure) [] b)"

definition append_handle :: "signal_export \<Rightarrow> 'p port \<Rightarrow> 'p \<Rightarrow> u16 \<Rightarrow> packet_builder \<Rightarrow> bool \<times> packet_builder" where
  "append_handle ex P p handle b = (if handle_taken b handle then (False, b)
     else case pb_metadata ex P p b handle of None \<Rightarrow> (False, b)
     | Some m \<Rightarrow> let result = port_read P p (md_id m) in
         if \<not> rs_ok result then append_failure ex P p handle (rs_status result) b
         else append_reading ex P p handle (the (rs_value result)) b)"

text \<open>The sampler, its loop over the handles ending at the first that is not appended.\<close>

fun append_handles :: "signal_export \<Rightarrow> 'p port \<Rightarrow> 'p \<Rightarrow> nat list \<Rightarrow> packet_builder \<Rightarrow> packet_builder" where
  "append_handles ex P p [] b = b"
| "append_handles ex P p (h # hs) b = (if unat (ex_signal_count ex) < h then b
     else case append_handle ex P p (of_nat h) b of (False, b1) \<Rightarrow> b1 | (True, b1) \<Rightarrow> append_handles ex P p hs b1)"

definition ext_sample_range ::
  "signal_export \<Rightarrow> 'p port \<Rightarrow> 'p \<Rightarrow> u32 \<Rightarrow> u16 \<Rightarrow> bool \<Rightarrow> u16 \<Rightarrow> u16 \<Rightarrow> u16 \<Rightarrow> bounded_bytes" where
  "ext_sample_range ex P p token sequence started att_mtu first_handle handle_count = (let
       b = builder_new ex token sequence started att_mtu in
     if \<not> pb_valid b then pb_packet b
     else pb_packet (append_handles ex P p [unat first_handle..<unat first_handle + unat handle_count] b))"

definition ext_sample :: "signal_export \<Rightarrow> 'p port \<Rightarrow> 'p \<Rightarrow> u32 \<Rightarrow> u16 \<Rightarrow> bool \<Rightarrow> u16 \<Rightarrow> bounded_bytes" where
  "ext_sample ex P p token sequence started att_mtu =
     ext_sample_range ex P p token sequence started att_mtu 1 (ex_signal_count ex)"

section \<open>The stream\<close>

definition ext_max_record_bytes :: nat where
  "ext_max_record_bytes = 9"

record ext_conditions =
  ec_notifications :: bool
  ec_secured :: bool
  ec_mtu :: u16
  ec_token :: u32

text \<open>\<open>AcceptedRecord\<close>: the bytes up to its size, and when the stack took them.\<close>

record accepted_record =
  ac_bytes :: bytes
  ac_at :: "int option"

record ext_stream =
  es_conditions :: ext_conditions
  es_accepted :: "accepted_record list"
  es_last_sample :: "int option"
  es_empty_at :: "int option"
  es_sequence :: u16
  es_handle :: u16
  es_paused :: bool

definition no_record :: accepted_record where
  "no_record = \<lparr>ac_bytes = [], ac_at = None\<rparr>"

definition no_ext_conditions :: ext_conditions where
  "no_ext_conditions = \<lparr>ec_notifications = False, ec_secured = False, ec_mtu = 0, ec_token = 0\<rparr>"

definition ext_stream_new :: ext_stream where
  "ext_stream_new = \<lparr>es_conditions = no_ext_conditions, es_accepted = replicate max_catalog_signals no_record, es_last_sample = None,
     es_empty_at = None, es_sequence = 0, es_handle = 1, es_paused = False\<rparr>"

definition ext_streaming :: "signal_export \<Rightarrow> ext_stream \<Rightarrow> bool" where
  "ext_streaming ex s = (let c = es_conditions s in ex_available ex \<and> ec_notifications c \<and> ec_secured c
     \<and> min_live_signals_att_mtu \<le> ec_mtu c \<and> ec_token c \<noteq> 0)"

definition restart_stream :: "ext_stream \<Rightarrow> ext_stream" where
  "restart_stream s = s\<lparr>es_accepted := replicate max_catalog_signals no_record, es_empty_at := None, es_sequence := 0, es_handle := 1\<rparr>"

definition ext_update :: "signal_export \<Rightarrow> (ext_conditions \<Rightarrow> ext_conditions) \<Rightarrow> ext_stream \<Rightarrow> ext_stream" where
  "ext_update ex f s = (let s1 = s\<lparr>es_conditions := f (es_conditions s)\<rparr> in
     if \<not> ext_streaming ex s \<and> ext_streaming ex s1 then restart_stream s1 else s1)"

definition ext_set_notifications :: "signal_export \<Rightarrow> bool \<Rightarrow> ext_stream \<Rightarrow> ext_stream" where
  "ext_set_notifications ex enabled = ext_update ex (\<lambda>c. c\<lparr>ec_notifications := enabled\<rparr>)"

definition ext_set_secured :: "signal_export \<Rightarrow> bool \<Rightarrow> ext_stream \<Rightarrow> ext_stream" where
  "ext_set_secured ex secured = ext_update ex (\<lambda>c. c\<lparr>ec_secured := secured\<rparr>)"

definition ext_set_mtu :: "signal_export \<Rightarrow> u16 \<Rightarrow> ext_stream \<Rightarrow> ext_stream" where
  "ext_set_mtu ex mtu = ext_update ex (\<lambda>c. c\<lparr>ec_mtu := mtu\<rparr>)"

definition ext_set_token :: "u32 \<Rightarrow> ext_stream \<Rightarrow> ext_stream" where
  "ext_set_token token s = (if ec_token (es_conditions s) = token then s
     else restart_stream (s\<lparr>es_conditions := (es_conditions s)\<lparr>ec_token := token\<rparr>\<rparr>))"

definition ext_set_paused :: "bool \<Rightarrow> ext_stream \<Rightarrow> ext_stream" where
  "ext_set_paused paused s = s\<lparr>es_paused := paused\<rparr>"

definition ext_reset_connection :: "ext_stream \<Rightarrow> ext_stream" where
  "ext_reset_connection s = s\<lparr>es_conditions := no_ext_conditions, es_accepted := replicate max_catalog_signals no_record,
     es_last_sample := None, es_empty_at := None, es_sequence := 0, es_handle := 1, es_paused := False\<rparr>"

definition ext_sample_due :: "int \<Rightarrow> ext_stream \<Rightarrow> bool" where
  "ext_sample_due now s = elapsed_since now (es_last_sample s) live_frame_interval"

definition ext_time_until_sample :: "signal_export \<Rightarrow> int \<Rightarrow> ext_stream \<Rightarrow> int option" where
  "ext_time_until_sample ex now s = (if \<not> ext_streaming ex s \<or> es_paused s then None
     else if ext_sample_due now s then Some 0 else Some (the (es_last_sample s) + live_frame_interval - now))"

definition record_due :: "signal_export \<Rightarrow> u16 \<Rightarrow> bytes \<Rightarrow> int \<Rightarrow> ext_stream \<Rightarrow> bool" where
  "record_due ex handle single now s = (if handle = 0 \<or> ex_signal_count ex < handle \<or> length single \<le> ext_header_bytes then False
     else let accepted = es_accepted s ! (unat handle - 1); size = length single - ext_header_bytes in
       if ac_at accepted = None \<or> length (ac_bytes accepted) \<noteq> size then True
       else if ac_bytes accepted \<noteq> drop ext_header_bytes single then True
       else elapsed_since now (ac_at accepted) live_heartbeat_interval)"

definition empty_packet_due :: "int \<Rightarrow> ext_stream \<Rightarrow> bool" where
  "empty_packet_due now s = elapsed_since now (es_empty_at s) live_heartbeat_interval"

text \<open>The walk over an accepted packet; a record is at least one byte, so it ends.\<close>

function remember_records :: "signal_export \<Rightarrow> int \<Rightarrow> bytes \<Rightarrow> nat \<Rightarrow> accepted_record list \<Rightarrow> accepted_record list" where
  "remember_records ex now packet offset acc = (if length packet \<le> offset then acc
     else let record_size = 1 + unat (packet ! offset) in
       if ext_max_record_bytes < record_size \<or> length packet < offset + record_size \<or> record_size < ext_record_header_bytes then acc
       else let handle = read_u16 packet (offset + 1) in
         if handle = 0 \<or> ex_signal_count ex < handle then acc
         else remember_records ex now packet (offset + record_size)
           (acc[unat handle - 1 := \<lparr>ac_bytes = take record_size (drop offset packet), ac_at = Some now\<rparr>]))"
  by pat_completeness auto

termination by (relation "measure (\<lambda>(ex, now, packet, offset, acc). length packet - offset)") auto

declare remember_records.simps [simp del]

definition ext_next_handle :: "u16 \<Rightarrow> u16 \<Rightarrow> u16" where
  "ext_next_handle handle signal_count = (if signal_count \<le> handle then 1 else handle + 1)"

definition append_result ::
  "signal_export \<Rightarrow> 'p port \<Rightarrow> 'p \<Rightarrow> u16 \<Rightarrow> signal_reading signal_result \<Rightarrow> packet_builder \<Rightarrow> bool \<times> packet_builder" where
  "append_result ex P p handle result b = (if rs_ok result then append_reading ex P p handle (the (rs_value result)) b
     else append_failure ex P p handle (rs_status result) b)"

text \<open>
  The loop of an offer over the handles from the cursor: the handle to look at, the cursor after the attempt,
  whether a record was appended, and the packet.
\<close>

fun offer_loop :: "signal_export \<Rightarrow> 'p port \<Rightarrow> 'p \<Rightarrow> int \<Rightarrow> packet_builder \<Rightarrow> ext_stream \<Rightarrow> nat
    \<Rightarrow> u16 \<Rightarrow> u16 \<Rightarrow> bool \<Rightarrow> packet_builder \<Rightarrow> u16 \<times> bool \<times> packet_builder" where
  "offer_loop ex P p now single s 0 handle cursor appended b = (cursor, appended, b)"
| "offer_loop ex P p now single s (Suc n) handle cursor appended b = (let
       result = port_read P p (provider_id_for_handle ex handle);
       (alone, one) = append_result ex P p handle result single;
       onward = ext_next_handle handle (ex_signal_count ex)
     in if alone \<and> record_due ex handle (bb_bytes (pb_packet one)) now s
       then (case append_result ex P p handle result b of
           (False, b1) \<Rightarrow> (handle, appended, b1)
         | (True, b1) \<Rightarrow> offer_loop ex P p now single s n onward onward True b1)
       else offer_loop ex P p now single s n onward cursor appended b)"

text \<open>\<open>accepts\<close> is the stack's answer; the result has the packet handed to it, as in the frame stream.\<close>

definition ext_offer :: "signal_export \<Rightarrow> 'p port \<Rightarrow> 'p \<Rightarrow> int \<Rightarrow> bool \<Rightarrow> (bytes \<Rightarrow> bool) \<Rightarrow> ext_stream \<Rightarrow> bytes option \<times> ext_stream" where
  "ext_offer ex P p now started accepts s = (if \<not> ext_streaming ex s \<or> es_paused s \<or> \<not> ext_sample_due now s then (None, s)
     else let s1 = s\<lparr>es_last_sample := Some now\<rparr>;
         fresh = builder_new ex (ec_token (es_conditions s1)) (es_sequence s1) started (ec_mtu (es_conditions s1)) in
     if \<not> pb_valid fresh then (None, s1)
     else if ex_signal_count ex = 0 then
       (if \<not> empty_packet_due now s1 then (None, s1)
        else let packet = bb_bytes (pb_packet fresh); s2 = s1\<lparr>es_sequence := es_sequence s1 + 1\<rparr> in
          (Some packet, if accepts packet then s2\<lparr>es_empty_at := Some now\<rparr> else s2))
     else (case offer_loop ex P p now fresh s1 (unat (ex_signal_count ex)) (es_handle s1) (es_handle s1) False fresh of
       (cursor, appended, b) \<Rightarrow> if \<not> appended then (None, s1)
         else let packet = bb_bytes (pb_packet b); s2 = s1\<lparr>es_handle := cursor, es_sequence := es_sequence s1 + 1\<rparr> in
           (Some packet, if accepts packet
             then s2\<lparr>es_accepted := remember_records ex now packet ext_header_bytes (es_accepted s2)\<rparr> else s2)))"

end
