(* ===== verification/Signal_Catalog_Laws.thy ===== *)
theory Signal_Catalog_Laws
  imports Signal_Catalog
begin

text \<open>
  What a companion client learns from the catalog pages: the window of the page sink is a slice of one document
  whose length the export announced, the slices read through a selector are the whole document, and decoding the
  document gives the readable signals of the vehicle in catalog order.
\<close>

section \<open>The document behind the pages\<close>

definition tlv :: "u8 \<Rightarrow> bytes \<Rightarrow> bytes" where
  "tlv tag value = [tag] @ le16 (of_nat (length value)) @ value"

definition choice_bytes :: "nat \<times> enum_choice \<Rightarrow> bytes" where
  "choice_bytes = (\<lambda>(index, c). le16 (of_nat (index + 1)) @ [of_nat (length (ch_key c))] @ text_bytes (ch_key c))"

definition choices_bytes :: "enum_choice list \<Rightarrow> bytes" where
  "choices_bytes cs = le16 (of_nat (length cs)) @ concat (map choice_bytes (zip [0..<length cs] cs))"

definition body_bytes :: "nat \<times> signal_metadata \<Rightarrow> bytes" where
  "body_bytes = (\<lambda>(index, m). le16 (of_nat (index + 1)) @ tlv 1 (text_bytes (md_key m)) @ tlv 2 [wire_type_code (md_type m)] @
     tlv 3 (text_bytes (unit_token (md_unit m))) @ tlv 4 (text_bytes (evidence_token (md_validation m))) @
     (if md_type m = TEnum then tlv 5 (choices_bytes (md_choices m)) else []))"

definition descriptor_bytes :: "nat \<times> signal_metadata \<Rightarrow> bytes" where
  "descriptor_bytes im = le16 (of_nat (length (body_bytes im))) @ body_bytes im"

definition catalog_document :: "signal_metadata list \<Rightarrow> bytes" where
  "catalog_document entries = [signal_catalog_format] @ le16 (of_nat (length entries)) @
     concat (map descriptor_bytes (zip [0..<length entries] entries))"

lemma length_text_bytes [simp]: "length (text_bytes s) = length s"
  by (simp add: text_bytes_def)

lemma length_tlv [simp]: "length (tlv t v) = 3 + length v"
  by (simp add: tlv_def)

lemma length_choice_bytes [simp]: "length (choice_bytes ic) = 3 + length (ch_key (snd ic))"
  by (cases ic) (simp add: choice_bytes_def)

lemma fold_add_size: "fold (\<lambda>c size. size + f c) cs n = n + sum_list (map f cs)" for n :: nat
  by (induction cs arbitrary: n) simp_all

lemma sum_zip_snd: "sum_list (map (\<lambda>p. f (snd p)) (zip [0..<length cs] cs)) = sum_list (map f cs)" for f :: "'a \<Rightarrow> nat"
proof -
  have "map (\<lambda>p. f (snd p)) (zip [0..<length cs] cs) = map f (map snd (zip [0..<length cs] cs))"
    by (simp only: map_map comp_def)
  then show ?thesis by simp
qed

lemma length_choices_bytes: "length (choices_bytes (md_choices m)) = choices_value_bytes m"
  using sum_zip_snd [of "\<lambda>c. 3 + length (ch_key c)" "md_choices m"]
  by (simp add: choices_bytes_def choices_value_bytes_def fold_add_size length_concat comp_def add.assoc)

lemma length_body_bytes: "length (body_bytes (i, m)) = descriptor_body_bytes m"
  by (simp add: body_bytes_def descriptor_body_bytes_def tlv_bytes_def length_choices_bytes)

lemma length_descriptor_bytes: "length (descriptor_bytes (i, m)) = 2 + descriptor_body_bytes m"
  by (simp add: descriptor_bytes_def length_body_bytes)

section \<open>The sink\<close>

abbreviation emit :: "bytes \<Rightarrow> page_sink \<Rightarrow> page_sink" where
  "emit bs \<equiv> fold sink_push bs"

lemma sink_u16_emit: "sink_u16 v s = emit (le16 v) s"
  by (simp add: sink_u16_def le16_def low_byte)

lemma append_tlv_emit: "append_tlv t v s = emit (tlv t (text_bytes v)) s"
  by (simp add: append_tlv_def tlv_def sink_u16_emit sink_text_def)

lemma sink_choice_emit: "sink_choice ic = emit (choice_bytes ic)"
  by (cases ic) (simp add: sink_choice_def choice_bytes_def sink_u16_emit sink_text_def fun_eq_iff)

lemma fold_emit: "fold (\<lambda>x. emit (g x)) xs s = emit (concat (map g xs)) s"
  by (induction xs arbitrary: s) simp_all

lemma sink_choices_emit:
  "fold sink_choice (zip [0..<length cs] cs) (sink_u16 (of_nat (length cs)) s) = emit (choices_bytes cs) s"
proof -
  have "fold sink_choice ics s = emit (concat (map choice_bytes ics)) s" for ics s
    by (simp add: fold_emit [symmetric] sink_choice_emit [abs_def])
  then show ?thesis by (simp add: choices_bytes_def sink_u16_emit)
qed

lemma sink_descriptor_emit: "sink_descriptor im = emit (descriptor_bytes im)"
proof -
  obtain i m where im: "im = (i, m)" by fastforce
  show ?thesis
    unfolding im descriptor_bytes_def length_body_bytes
    by (simp add: sink_descriptor_def Let_def sink_choices_emit append_tlv_emit body_bytes_def fun_eq_iff)
       (simp add: sink_u16_emit tlv_def length_choices_bytes)
qed

text \<open>The bytes of the window \<open>[begin, end)\<close> reach the page.\<close>

lemma emit_window:
  assumes "sk_begin s \<le> sk_end s" and "length (bb_bytes (sk_page s)) + (sk_end s - max (sk_begin s) (sk_cursor s)) \<le> bb_capacity (sk_page s)"
  shows "emit bs s = s\<lparr>sk_cursor := sk_cursor s + length bs,
    sk_page := push_all (take (sk_end s - max (sk_begin s) (sk_cursor s)) (drop (sk_begin s - sk_cursor s) bs)) (sk_page s)\<rparr>"
  using assms
proof (induction bs arbitrary: s)
  case (Cons x bs)
  consider "sk_begin s \<le> sk_cursor s" "sk_cursor s < sk_end s" | "sk_cursor s < sk_begin s" | "sk_end s \<le> sk_cursor s" by linarith
  then show ?case
  proof cases
    case 1
    then have p: "sink_push x s = s\<lparr>sk_page := push_all [x] (sk_page s), sk_cursor := sk_cursor s + 1\<rparr>"
      using Cons.prems by (simp add: sink_push_def push_fits)
    have "take (sk_end s - sk_cursor s) (x # bs) = x # take (sk_end s - Suc (sk_cursor s)) bs"
      using 1 by (metis Suc_diff_Suc take_Suc_Cons)
    with 1 Cons.prems show ?thesis by (simp add: p Cons.IH)
  next
    case 2
    then have p: "sink_push x s = s\<lparr>sk_cursor := sk_cursor s + 1\<rparr>" by (simp add: sink_push_def)
    have "drop (sk_begin s - sk_cursor s) (x # bs) = drop (sk_begin s - Suc (sk_cursor s)) bs"
      using 2 by (metis Suc_diff_Suc drop_Suc_Cons)
    moreover have "max (sk_begin s) (Suc (sk_cursor s)) = sk_begin s" "max (sk_begin s) (sk_cursor s) = sk_begin s" using 2 by simp_all
    ultimately show ?thesis using Cons.prems Cons.IH [of "s\<lparr>sk_cursor := sk_cursor s + 1\<rparr>"] by (simp add: p)
  next
    case 3
    then have p: "sink_push x s = s\<lparr>sk_cursor := sk_cursor s + 1\<rparr>" by (simp add: sink_push_def)
    with 3 Cons.prems show ?thesis by (simp add: Cons.IH max_def)
  qed
qed simp

section \<open>The export\<close>

definition readable :: "signal_metadata \<Rightarrow> bool" where
  "readable m = caps_has (md_capabilities m) CRead"

text \<open>What the constructor has checked of the entries it keeps.\<close>

definition exportable :: "signal_metadata \<Rightarrow> bool" where
  "exportable m \<longleftrightarrow> readable m \<and> valid_wire_string (md_key m) max_catalog_key_bytes \<and>
     (md_type m = TEnum \<longrightarrow> md_choices m \<noteq> [] \<and> length (md_choices m) \<le> max_catalog_choices \<and>
        (\<forall>c \<in> set (md_choices m). valid_wire_string (ch_key c) max_catalog_key_bytes))"

lemma document_length:
  "length (catalog_document entries) = 3 + sum_list (map (\<lambda>m. 2 + descriptor_body_bytes m) entries)"
proof -
  have "length (concat (map descriptor_bytes ims)) = sum_list (map (\<lambda>p. 2 + descriptor_body_bytes (snd p)) ims)" for ims
    by (induction ims) (auto simp: length_descriptor_bytes)
  then show ?thesis using sum_zip_snd [of "\<lambda>m. 2 + descriptor_body_bytes m" entries] by (simp add: catalog_document_def)
qed

lemma export_entries_ok:
  assumes "ex_available (export_entries ms entries len)" and "len = length (catalog_document entries)" and "len \<le> max_catalog_document_bytes"
    and "length entries \<le> max_catalog_signals" and "\<forall>m \<in> set entries. exportable m"
  shows "ex_entries (export_entries ms entries len) = entries @ filter readable ms \<and>
    unat (ex_document_length (export_entries ms entries len)) = length (catalog_document (entries @ filter readable ms)) \<and>
    length (catalog_document (entries @ filter readable ms)) \<le> max_catalog_document_bytes \<and>
    length (entries @ filter readable ms) \<le> max_catalog_signals \<and> (\<forall>m \<in> set (entries @ filter readable ms). exportable m)"
  using assms
proof (induction ms entries len rule: export_entries.induct)
  case (1 entries len)
  then show ?case by (simp add: unat_of_nat_u16 max_catalog_document_bytes_def)
next
  case (2 m ms entries len)
  show ?case
  proof (cases "readable m")
    case False
    with 2 show ?thesis by (simp add: readable_def)
  next
    case r: True
    then have ok: "\<not> entry_refused (length entries) m" "2 + descriptor_body_bytes m \<le> max_catalog_document_bytes"
      "len + (2 + descriptor_body_bytes m) \<le> max_catalog_document_bytes" "\<not> 65535 < descriptor_body_bytes m"
      using 2(3) by (auto simp: readable_def export_failed_def Let_def split: if_splits)
    note r' = r [unfolded readable_def]
    have rec: "export_entries (m # ms) entries len = export_entries ms (entries @ [m]) (len + (2 + descriptor_body_bytes m))"
      using r' ok by (simp add: Let_def)
    have "length (catalog_document (entries @ [m])) = len + (2 + descriptor_body_bytes m)"
      using 2(4) by (simp add: document_length)
    moreover have "exportable m" "length (entries @ [m]) \<le> max_catalog_signals"
      using ok(1) r by (auto simp: entry_refused_def exportable_def list_ex_iff)
    ultimately have "ex_entries (export_entries ms (entries @ [m]) (len + (2 + descriptor_body_bytes m))) = (entries @ [m]) @ filter readable ms \<and>
      unat (ex_document_length (export_entries ms (entries @ [m]) (len + (2 + descriptor_body_bytes m)))) = length (catalog_document ((entries @ [m]) @ filter readable ms)) \<and>
      length (catalog_document ((entries @ [m]) @ filter readable ms)) \<le> max_catalog_document_bytes \<and>
      length ((entries @ [m]) @ filter readable ms) \<le> max_catalog_signals \<and> (\<forall>m \<in> set ((entries @ [m]) @ filter readable ms). exportable m)"
      using 2(2) [OF _ _ refl refl _ 2(3) [unfolded rec]] 2(7) r' ok by simp
    then show ?thesis using r rec by simp
  qed
qed

lemma signal_catalog_export_ok:
  assumes "ex_available (signal_catalog_export cat)"
  shows "ex_entries (signal_catalog_export cat) = filter readable cat"
    and "unat (ex_document_length (signal_catalog_export cat)) = length (catalog_document (filter readable cat))"
    and "length (catalog_document (filter readable cat)) \<le> max_catalog_document_bytes"
    and "length (filter readable cat) \<le> max_catalog_signals" and "\<forall>m \<in> set (filter readable cat). exportable m"
proof -
  have e: "signal_catalog_export cat = export_entries cat [] 3"
    using assms by (auto simp: signal_catalog_export_def export_failed_def catalog_document_header_bytes_def split: if_splits)
  have "3 = length (catalog_document [])" by (simp add: catalog_document_def)
  note all = export_entries_ok [OF assms [unfolded e] this, folded e]
  have "3 \<le> max_catalog_document_bytes" "length ([] :: signal_metadata list) \<le> max_catalog_signals" "\<forall>m \<in> set []. exportable m"
    by (simp_all add: max_catalog_document_bytes_def)
  note all' = all [OF this, unfolded append_Nil]
  show "ex_entries (signal_catalog_export cat) = filter readable cat"
    "unat (ex_document_length (signal_catalog_export cat)) = length (catalog_document (filter readable cat))"
    "length (catalog_document (filter readable cat)) \<le> max_catalog_document_bytes"
    "length (filter readable cat) \<le> max_catalog_signals" "\<forall>m \<in> set (filter readable cat). exportable m"
    using all' by blast+
qed

section \<open>Pages\<close>

definition page_bytes :: "u32 \<Rightarrow> bytes \<Rightarrow> u16 \<Rightarrow> bytes" where
  "page_bytes token document offset = (let data = take 200 (drop (unat offset) document) in
     [signal_catalog_format] @ le32 token @ le16 (of_nat (length document)) @ le16 offset @ le16 (of_nat (length data)) @ data)"

lemma page_header_bytes:
  "page_header format token n offset count = Some (push_all ([format] @ le32 token @ le16 n @ le16 offset @ le16 (of_nat count))
     (bounded_new 211))"
  by (simp add: page_header_def pushes_fit catalog_page_header_bytes_def catalog_page_data_bytes_def)

lemma u16_of_document: "n \<le> max_catalog_document_bytes \<Longrightarrow> unat (v :: u16) = n \<Longrightarrow> v = of_nat n"
  by (metis unat_of_nat_u16 word_unat_eq_iff mod_less unat_u16_lt)

lemma signal_page_flow:
  assumes "ex_available ex" and "token \<noteq> 0" and "\<not> ex_document_length ex < offset" and "count = min (unat (ex_document_length ex) - unat offset) 200"
    and "page = push_all ([signal_catalog_format] @ le32 token @ le16 (ex_document_length ex) @ le16 offset @ le16 (of_nat count)) (bounded_new 211)"
    and "s2 = fold sink_descriptor (zip [0..<length (ex_entries ex)] (ex_entries ex)) (sink_u16 (of_nat (length (ex_entries ex)))
      (sink_push signal_catalog_format \<lparr>sk_page = page, sk_begin = unat offset, sk_end = unat offset + count, sk_cursor = 0, sk_ok = True\<rparr>))"
  shows "signal_page ex token offset = (if \<not> sk_ok s2 \<or> sk_cursor s2 \<noteq> unat (ex_document_length ex)
     \<or> length (bb_bytes (sk_page s2)) \<noteq> 11 + count then None else Some (sk_page s2))"
proof -
  have c: "(if unat (ex_document_length ex) - unat offset < 200 then unat (ex_document_length ex) - unat offset else 200) = count"
    by (simp add: assms(4))
  have g: "\<not> (\<not> ex_available ex \<or> token = 0 \<or> ex_document_length ex < offset)" using assms by blast
  show ?thesis
    unfolding signal_page_def if_not_P [OF g] Let_def catalog_page_data_bytes_def catalog_page_header_bytes_def c page_header_bytes
      option.case assms(5) [symmetric] assms(6) [symmetric] ..
qed

lemma signal_page_bytes:
  assumes av: "ex_available (signal_catalog_export cat)" and "token \<noteq> 0" and off: "unat offset \<le> length (catalog_document (filter readable cat))"
  shows "\<exists>p. signal_page (signal_catalog_export cat) token offset = Some p \<and>
    bb_bytes p = page_bytes token (catalog_document (filter readable cat)) offset"
proof -
  let ?ex = "signal_catalog_export cat"
  define doc where "doc = catalog_document (filter readable cat)"
  note ok = signal_catalog_export_ok [OF av, folded doc_def]
  define count where "count = min (length doc - unat offset) 200"
  have len: "ex_document_length ?ex = of_nat (length doc)" using u16_of_document ok(2,3) by blast
  define page where "page = push_all ([signal_catalog_format] @ le32 token @ le16 (ex_document_length ?ex) @ le16 offset @ le16 (of_nat count)) (bounded_new 211)"
  define s0 where "s0 = \<lparr>sk_page = page, sk_begin = unat offset, sk_end = unat offset + count, sk_cursor = 0, sk_ok = True\<rparr>"
  define s2 where "s2 = s0\<lparr>sk_cursor := length doc, sk_page := push_all (take count (drop (unat offset) doc)) page\<rparr>"
  have "fold sink_descriptor (zip [0..<length (ex_entries ?ex)] (ex_entries ?ex))
      (sink_u16 (of_nat (length (ex_entries ?ex))) (sink_push signal_catalog_format s0)) = emit doc s0"
    by (simp add: ok(1) doc_def catalog_document_def sink_u16_emit fold_emit [symmetric] sink_descriptor_emit [abs_def])
  also have "\<dots> = s2"
    by (subst emit_window) (simp_all add: s0_def page_def count_def s2_def)
  finally have flow: "s2 = fold sink_descriptor (zip [0..<length (ex_entries ?ex)] (ex_entries ?ex))
      (sink_u16 (of_nat (length (ex_entries ?ex))) (sink_push signal_catalog_format s0))" ..
  have lt: "\<not> ex_document_length ?ex < offset" using off ok(2) by (simp add: word_less_nat_alt not_less doc_def)
  have c: "count = min (unat (ex_document_length ?ex) - unat offset) 200" by (simp add: count_def ok(2))
  have d: "take count (drop (unat offset) doc) = take 200 (drop (unat offset) doc)"
    by (simp add: count_def min_def)
  have cl: "length (take 200 (drop (unat offset) doc)) = count" by (simp add: count_def)
  have b: "bb_bytes (sk_page s2) = page_bytes token doc offset"
    using cl by (simp add: s2_def page_def page_bytes_def d len)
  have "sk_ok s2" "sk_cursor s2 = unat (ex_document_length ?ex)" by (simp_all add: s2_def s0_def ok(2))
  moreover have "length (bb_bytes (sk_page s2)) = 11 + count" using cl by (simp add: b page_bytes_def Let_def)
  ultimately show ?thesis
    using signal_page_flow [OF av assms(2) lt c page_def flow [unfolded s0_def]] b by (simp add: doc_def)
qed

section \<open>Reading the document through a selector\<close>

text \<open>What the two exports promise their selector: pages that are slices of one document.\<close>

definition pages_of :: "'x page_source \<Rightarrow> 'x \<Rightarrow> bytes \<Rightarrow> bool" where
  "pages_of src ex doc \<longleftrightarrow> ps_available src ex \<and> unat (ps_length src ex) = length doc \<and>
     (\<forall>token offset. token \<noteq> 0 \<longrightarrow> unat offset \<le> length doc \<longrightarrow>
        (\<exists>p. ps_page src ex token offset = Some p \<and> bb_bytes p = page_bytes token doc offset))"

lemma signal_source_pages:
  "ex_available (signal_catalog_export cat) \<Longrightarrow> pages_of signal_source (signal_catalog_export cat) (catalog_document (filter readable cat))"
  by (simp add: pages_of_def signal_source_def signal_page_bytes ex_length_def signal_catalog_export_ok(2))

lemma output_source_pages:
  assumes "doc \<noteq> []" and "length doc \<le> max_catalog_document_bytes"
  shows "pages_of output_source doc doc"
proof -
  have av: "output_available doc" using assms by (simp add: output_available_def)
  have len: "unat (output_length doc) = length doc"
    using assms(2) by (simp add: output_length_def av unat_of_nat_u16 max_catalog_document_bytes_def)
  have "\<exists>p. output_page doc token offset = Some p \<and> bb_bytes p = page_bytes token doc offset"
    if t: "token \<noteq> 0" and off: "unat offset \<le> length doc" for token offset
  proof -
    define count where "count = min (length doc - unat offset) 200"
    have d: "take count (drop (unat offset) doc) = take 200 (drop (unat offset) doc)" by (simp add: count_def min_def)
    have cl: "length (take 200 (drop (unat offset) doc)) = count" by (simp add: count_def)
    have g: "\<not> (\<not> output_available doc \<or> token = 0 \<or> length doc < unat offset)" using av t off by auto
    have "length (take 200 (drop (unat offset) doc)) \<le> 200" by simp
    then show ?thesis
      unfolding output_page_def if_not_P [OF g] Let_def catalog_page_data_bytes_def count_def [symmetric] page_header_bytes option.case d
      by (simp add: append_fits page_bytes_def Let_def cl output_length_def av) (simp add: count_def)
  qed
  then show ?thesis using av len by (simp add: pages_of_def output_source_def)
qed

text \<open>A client selects a page, reads it and keeps its data.\<close>

definition selection :: "u32 \<Rightarrow> u16 \<Rightarrow> bytes" where
  "selection token offset = [signal_catalog_format] @ le32 token @ le16 offset"

definition fetch :: "'x page_source \<Rightarrow> u32 \<Rightarrow> u32 \<Rightarrow> u16 \<Rightarrow> 'x selector \<Rightarrow> bytes option \<times> 'x selector" where
  "fetch src connection token offset s = (let (err, s1) = selector_select src connection (selection token offset) s in
     (if err \<noteq> AttNone then None else map_option (\<lambda>p. drop 11 (bb_bytes p)) (selector_read src connection s1), s1))"

fun download :: "'x page_source \<Rightarrow> u32 \<Rightarrow> u32 \<Rightarrow> nat \<Rightarrow> nat \<Rightarrow> 'x selector \<Rightarrow> bytes option" where
  "download src connection token offset 0 s = Some []"
| "download src connection token offset (Suc pages) s = (case fetch src connection token (of_nat offset) s of
     (None, s1) \<Rightarrow> None
   | (Some data, s1) \<Rightarrow> map_option ((@) data) (download src connection token (offset + 200) pages s1))"

definition client_download :: "'x page_source \<Rightarrow> u32 \<Rightarrow> u32 \<Rightarrow> nat \<Rightarrow> 'x selector \<Rightarrow> bytes option" where
  "client_download src connection token len s = download src connection token 0 ((len + 199) div 200) s"

lemma fetch_slice:
  assumes "pages_of src ex doc" and "se_catalog s = Some ex" and "selector_active connection s" and "se_token s = token"
    and "unat offset \<le> length doc"
  shows "fetch src connection token offset s = (Some (take 200 (drop (unat offset) doc)), s\<lparr>se_offset := offset\<rparr>)"
proof -
  have "token \<noteq> 0" using assms(3,4) by (simp add: selector_active_def)
  then obtain p where p: "ps_page src ex token offset = Some p" "bb_bytes p = page_bytes token doc offset"
    using assms(1,5) by (auto simp: pages_of_def)
  have l: "length (selection token offset) = 7" "selection token offset ! 0 = signal_catalog_format"
    by (simp_all add: selection_def)
  have r: "read_u32 (selection token offset) 1 = token" "read_u16 (selection token offset) 5 = offset"
    by (rule read_u16_le16 read_u32_le32, simp add: selection_def)+
  have "\<not> ps_length src ex < offset" using assms(1,5) by (simp add: pages_of_def word_less_nat_alt not_less)
  moreover have "ps_available src ex" using assms(1) by (simp add: pages_of_def)
  ultimately have "selector_select src connection (selection token offset) s = (AttNone, s\<lparr>se_offset := offset\<rparr>)"
    using assms(2-4) l r by (simp add: selector_select_def)
  moreover have "selector_read src connection (s\<lparr>se_offset := offset\<rparr>) = Some p"
    using assms(2-4) p \<open>ps_available src ex\<close> by (simp add: selector_read_def selector_active_def)
  ultimately show ?thesis by (simp add: fetch_def p(2) page_bytes_def Let_def)
qed

lemma download_slices:
  assumes "pages_of src ex doc" and "se_catalog s = Some ex" and "selector_active connection s" and "se_token s = token"
    and "offset + 200 * pages < length doc + 200"
  shows "download src connection token offset pages s = Some (take (200 * pages) (drop offset doc))"
  using assms(2-5)
proof (induction pages arbitrary: offset s)
  case (Suc pages)
  have "unat (ps_length src ex) = length doc" using assms(1) by (simp add: pages_of_def)
  then have l: "length doc < 65536" by (metis unat_u16_lt)
  have o: "offset \<le> length doc" using Suc.prems(4) by simp
  then have "unat (of_nat offset :: u16) = offset" using l by (simp add: unat_of_nat_u16)
  then have "fetch src connection token (of_nat offset) s = (Some (take 200 (drop offset doc)), s\<lparr>se_offset := of_nat offset\<rparr>)"
    using fetch_slice [OF assms(1) Suc.prems(1-3), of "of_nat offset"] o by simp
  moreover have "download src connection token (offset + 200) pages (s\<lparr>se_offset := of_nat offset\<rparr>)
      = Some (take (200 * pages) (drop (offset + 200) doc))"
    using Suc.prems by (intro Suc.IH) (simp_all add: selector_active_def)
  moreover have "take (200 * Suc pages) (drop offset doc) = take 200 (drop offset doc) @ take (200 * pages) (drop (offset + 200) doc)"
    by (simp add: take_add add.commute)
  ultimately show ?case by simp
qed simp

lemma client_download_whole:
  assumes "pages_of src ex doc" and "se_catalog s = Some ex" and "selector_active connection s" and "se_token s = token"
  shows "client_download src connection token (length doc) s = Some doc"
proof -
  have "200 * ((length doc + 199) div 200) < length doc + 200" "length doc \<le> 200 * ((length doc + 199) div 200)" by linarith+
  then show ?thesis using download_slices [OF assms, of 0 "(length doc + 199) div 200"] by (simp add: client_download_def)
qed

section \<open>Decoding the document\<close>

text \<open>
  The client's reader of the format: every field by its tag and length, the choices of an enumeration and the
  descriptors by their counts; nothing when a tag, a length or a handle is not what the format says.
\<close>

datatype client_signal = ClientSignal (cs_key: bytes) (cs_type: bytes) (cs_unit: bytes) (cs_evidence: bytes) (cs_choices: "bytes list")

definition take_u16 :: "bytes \<Rightarrow> (nat \<times> bytes) option" where
  "take_u16 bs = (if length bs < 2 then None else Some (unat (read_u16 bs 0), drop 2 bs))"

definition take_tlv :: "u8 \<Rightarrow> bytes \<Rightarrow> (bytes \<times> bytes) option" where
  "take_tlv tag bs = (case bs of [] \<Rightarrow> None | t # bs1 \<Rightarrow> if t \<noteq> tag then None else (case take_u16 bs1 of None \<Rightarrow> None
     | Some (n, bs2) \<Rightarrow> if length bs2 < n then None else Some (take n bs2, drop n bs2)))"

fun take_choices :: "nat \<Rightarrow> nat \<Rightarrow> bytes \<Rightarrow> bytes list option" where
  "take_choices index 0 bs = (if bs = [] then Some [] else None)"
| "take_choices index (Suc n) bs = (case take_u16 bs of Some (h, len # bs1) \<Rightarrow>
       if h \<noteq> index + 1 \<or> length bs1 < unat len then None
       else map_option ((#) (take (unat len) bs1)) (take_choices (index + 1) n (drop (unat len) bs1))
     | _ \<Rightarrow> None)"

definition take_enum :: "bytes \<Rightarrow> bytes list option" where
  "take_enum bs = (if bs = [] then Some [] else case take_tlv 5 bs of Some (v, []) \<Rightarrow>
     (case take_u16 v of Some (n, v1) \<Rightarrow> take_choices 0 n v1 | None \<Rightarrow> None) | _ \<Rightarrow> None)"

definition take_body :: "nat \<Rightarrow> bytes \<Rightarrow> client_signal option" where
  "take_body index bs = (case take_u16 bs of None \<Rightarrow> None | Some (h, b1) \<Rightarrow> if h \<noteq> index + 1 then None else
     (case take_tlv 1 b1 of None \<Rightarrow> None | Some (key, b2) \<Rightarrow>
     (case take_tlv 2 b2 of None \<Rightarrow> None | Some (ty, b3) \<Rightarrow>
     (case take_tlv 3 b3 of None \<Rightarrow> None | Some (unit, b4) \<Rightarrow>
     (case take_tlv 4 b4 of None \<Rightarrow> None | Some (evidence, b5) \<Rightarrow>
       map_option (ClientSignal key ty unit evidence) (take_enum b5))))))"

fun take_descriptors :: "nat \<Rightarrow> nat \<Rightarrow> bytes \<Rightarrow> client_signal list option" where
  "take_descriptors index 0 bs = (if bs = [] then Some [] else None)"
| "take_descriptors index (Suc n) bs = (case take_u16 bs of None \<Rightarrow> None | Some (len, b1) \<Rightarrow>
     if length b1 < len then None else (case take_body index (take len b1) of None \<Rightarrow> None
     | Some d \<Rightarrow> map_option ((#) d) (take_descriptors (index + 1) n (drop len b1))))"

definition decode_catalog :: "bytes \<Rightarrow> client_signal list option" where
  "decode_catalog bs = (case bs of [] \<Rightarrow> None | f # bs1 \<Rightarrow> if f \<noteq> signal_catalog_format then None else
     (case take_u16 bs1 of None \<Rightarrow> None | Some (n, bs2) \<Rightarrow> take_descriptors 0 n bs2))"

text \<open>What a signal's metadata tells the client.\<close>

definition client_view :: "signal_metadata \<Rightarrow> client_signal" where
  "client_view m = ClientSignal (text_bytes (md_key m)) [wire_type_code (md_type m)] (text_bytes (unit_token (md_unit m)))
     (text_bytes (evidence_token (md_validation m))) (if md_type m = TEnum then map (text_bytes \<circ> ch_key) (md_choices m) else [])"

lemma take_u16_le [simp]: "take_u16 (le16 v @ bs) = Some (unat v, bs)"
proof -
  have "read_u16 (le16 v @ bs) 0 = v" by (rule read_u16_le16) simp
  then show ?thesis by (simp add: take_u16_def)
qed

lemma take_tlv_tlv [simp]: "length v < 65536 \<Longrightarrow> take_tlv tag (tlv tag v @ bs) = Some (v, bs)"
  by (simp add: take_tlv_def tlv_def unat_of_nat_u16)

lemma take_tlv_last: "length v < 65536 \<Longrightarrow> take_tlv tag (tlv tag v) = Some (v, [])"
  using take_tlv_tlv [of v tag "[]"] by simp

lemma take_choices_bytes:
  assumes "\<forall>c \<in> set cs. length (ch_key c) \<le> max_catalog_key_bytes" and "index + length cs \<le> max_catalog_choices"
  shows "take_choices index (length cs) (concat (map choice_bytes (zip [index..<index + length cs] cs))) = Some (map (text_bytes \<circ> ch_key) cs)"
  using assms
proof (induction cs arbitrary: index)
  case (Cons c cs)
  have k: "length (ch_key c) < 256" using Cons.prems(1) by (simp add: max_catalog_key_bytes_def)
  then have u: "unat (of_nat (length (ch_key c)) :: u8) = length (ch_key c)" by (simp add: unat_of_nat take_bit_eq_mod)
  have i: "unat (of_nat (index + 1) :: u16) = index + 1"
    by (rule unat_of_nat_u16 [THEN trans]) (use Cons.prems(2) in \<open>simp add: max_catalog_choices_def\<close>)
  have z: "zip [index..<index + length (c # cs)] (c # cs) = (index, c) # zip [Suc index..<Suc index + length cs] cs"
    by (simp add: upt_rec)
  define rest where "rest = concat (map choice_bytes (zip [Suc index..<Suc index + length cs] cs))"
  have r: "take_choices (Suc index) (length cs) rest = Some (map (text_bytes \<circ> ch_key) cs)"
    unfolding rest_def using Cons.prems by (intro Cons.IH) simp_all
  have e: "concat (map choice_bytes (zip [index..<index + length (c # cs)] (c # cs)))
      = le16 (of_nat (index + 1)) @ of_nat (length (ch_key c)) # text_bytes (ch_key c) @ rest"
    unfolding z by (simp add: choice_bytes_def rest_def del: of_nat_add)
  have i': "unat (of_nat (Suc index) :: u16) = Suc index" using i by simp
  show ?case unfolding e by (simp add: u i' r del: of_nat_add of_nat_Suc)
qed simp

lemma take_enum_bytes:
  assumes "exportable m" and "descriptor_body_bytes m < 65536"
  shows "take_enum (if md_type m = TEnum then tlv 5 (choices_bytes (md_choices m)) else []) = Some (cs_choices (client_view m))"
proof (cases "md_type m = TEnum")
  case True
  let ?cs = "md_choices m"
  have k: "\<forall>c \<in> set ?cs. length (ch_key c) \<le> max_catalog_key_bytes" and n: "length ?cs \<le> max_catalog_choices"
    using assms(1) True by (simp_all add: exportable_def valid_wire_string_def)
  have u: "unat (of_nat (length ?cs) :: u16) = length ?cs" using n by (simp add: unat_of_nat_u16 max_catalog_choices_def)
  have l: "length (choices_bytes ?cs) < 65536"
    using assms(2) True by (simp add: length_choices_bytes descriptor_body_bytes_def tlv_bytes_def)
  have "take_choices 0 (length ?cs) (concat (map choice_bytes (zip [0..<length ?cs] ?cs))) = Some (map (text_bytes \<circ> ch_key) ?cs)"
    using take_choices_bytes [OF k, of 0] n by simp
  then have "take_u16 (choices_bytes ?cs) = Some (length ?cs, concat (map choice_bytes (zip [0..<length ?cs] ?cs)))"
    unfolding choices_bytes_def take_u16_le u by simp
  moreover have "tlv 5 (choices_bytes ?cs) \<noteq> []" by (simp add: tlv_def)
  ultimately show ?thesis
    using True l take_choices_bytes [OF k, of 0] n by (simp add: take_enum_def take_tlv_last client_view_def)
qed (simp add: take_enum_def client_view_def)

lemma take_body_bytes:
  assumes "exportable m" and "descriptor_body_bytes m < 65536" and "index < max_catalog_signals"
  shows "take_body index (body_bytes (index, m)) = Some (client_view m)"
proof -
  have i: "unat (of_nat (index + 1) :: u16) = index + 1"
    using assms(3) by (subst unat_of_nat_u16) (simp_all add: max_catalog_signals_def)
  have l: "length (md_key m) < 65536" "length (unit_token (md_unit m)) < 65536" "length (evidence_token (md_validation m)) < 65536"
    using assms(2) by (simp_all add: descriptor_body_bytes_def tlv_bytes_def)
  show ?thesis
    unfolding body_bytes_def take_body_def split take_u16_le i option.case if_not_P [OF not_not [THEN iffD2, OF refl]]
    by (simp add: l take_enum_bytes [OF assms(1,2)] client_view_def)
qed

lemma take_descriptors_bytes:
  assumes "\<forall>m \<in> set ms. exportable m \<and> descriptor_body_bytes m < 65536" and "index + length ms \<le> max_catalog_signals"
  shows "take_descriptors index (length ms) (concat (map descriptor_bytes (zip [index..<index + length ms] ms))) = Some (map client_view ms)"
  using assms
proof (induction ms arbitrary: index)
  case (Cons m ms)
  define rest where "rest = concat (map descriptor_bytes (zip [Suc index..<Suc index + length ms] ms))"
  have r: "take_descriptors (Suc index) (length ms) rest = Some (map client_view ms)"
    unfolding rest_def using Cons.prems by (intro Cons.IH) simp_all
  have z: "zip [index..<index + length (m # ms)] (m # ms) = (index, m) # zip [Suc index..<Suc index + length ms] ms"
    by (simp add: upt_rec)
  have e: "concat (map descriptor_bytes (zip [index..<index + length (m # ms)] (m # ms)))
      = le16 (of_nat (length (body_bytes (index, m)))) @ body_bytes (index, m) @ rest"
    unfolding z by (simp add: descriptor_bytes_def rest_def)
  have u: "unat (of_nat (length (body_bytes (index, m))) :: u16) = length (body_bytes (index, m))"
    using Cons.prems(1) by (simp add: length_body_bytes unat_of_nat_u16)
  have b: "take_body index (body_bytes (index, m)) = Some (client_view m)"
    using Cons.prems by (intro take_body_bytes) simp_all
  show ?case unfolding e by (simp add: u b r)
qed simp

lemma decode_catalog_document:
  assumes "\<forall>m \<in> set ms. exportable m" and "length (catalog_document ms) \<le> max_catalog_document_bytes" and "length ms \<le> max_catalog_signals"
  shows "decode_catalog (catalog_document ms) = Some (map client_view ms)"
proof -
  have "descriptor_body_bytes m < 65536" if "m \<in> set ms" for m
  proof -
    have "2 + descriptor_body_bytes m \<le> sum_list (map (\<lambda>m. 2 + descriptor_body_bytes m) ms)"
      using that by (intro member_le_sum_list) auto
    then show ?thesis using assms(2) unfolding document_length max_catalog_document_bytes_def by simp
  qed
  then have d: "take_descriptors 0 (length ms) (concat (map descriptor_bytes (zip [0..<length ms] ms))) = Some (map client_view ms)"
    using take_descriptors_bytes [of ms 0] assms by simp
  have u: "unat (of_nat (length ms) :: u16) = length ms" using assms(3) by (simp add: unat_of_nat_u16 max_catalog_signals_def)
  show ?thesis unfolding catalog_document_def decode_catalog_def by (simp add: u d)
qed

text \<open>
  C31: A companion that connects while a catalog is bound downloads it page by page (select an offset, read the page,
  keep its data), and decoding what it has read gives every readable signal of the vehicle in catalog order:
  key, type, unit, evidence and choices, nothing else. The catalog is one the exporter has found available: well
  formed, with every text and the whole document within the limits of the format.
\<close>
theorem companion_reads_the_catalog:
  assumes "ex_available (signal_catalog_export cat)" and "connection \<noteq> no_connection" and "token \<noteq> 0"
  shows "\<exists>doc. client_download signal_source connection token (unat (ex_length (signal_catalog_export cat)))
      (selector_connect connection token (selector_bind (signal_catalog_export cat) s)) = Some doc \<and>
    decode_catalog doc = Some (map client_view (filter readable cat))"
proof -
  let ?doc = "catalog_document (filter readable cat)"
  note ok = signal_catalog_export_ok [OF assms(1)]
  have "unat (ex_length (signal_catalog_export cat)) = length ?doc" using assms(1) ok(2) by (simp add: ex_length_def)
  moreover have "client_download signal_source connection token (length ?doc)
      (selector_connect connection token (selector_bind (signal_catalog_export cat) s)) = Some ?doc"
    using assms(2,3) by (intro client_download_whole [OF signal_source_pages [OF assms(1)]])
      (simp_all add: selector_connect_def selector_bind_def selector_reset_def selector_active_def)
  moreover have "decode_catalog ?doc = Some (map client_view (filter readable cat))"
    using ok(3-5) by (intro decode_catalog_document) simp_all
  ultimately show ?thesis by simp
qed

text \<open>
  The selector refuses a selection that is not addressed to it: one of another length or format, from a client
  that is not the connected one, or with a token of an earlier connection; in every case the page a client has
  chosen stays chosen.
\<close>
theorem stale_selection_refused:
  assumes "length sel \<noteq> 7 \<or> sel ! 0 \<noteq> signal_catalog_format \<or> connection \<noteq> se_connection s \<or> read_u32 sel 1 \<noteq> se_token s"
  shows "fst (selector_select src connection sel s) \<noteq> AttNone \<and> snd (selector_select src connection sel s) = s"
  using assms by (auto simp: selector_select_def selector_active_def split: option.splits)

text \<open>A vehicle with an enumeration to read.\<close>

lemma ascii_text [simp]:
  "valid_utf8 (text_bytes []) = True"
  "of_char c \<le> (0x7F :: u8) \<Longrightarrow> valid_utf8 (text_bytes (c # cs)) = valid_utf8 (text_bytes cs)"
  by (simp_all add: text_bytes_def)

definition pedal_catalog :: catalog where
  "pedal_catalog = [
     \<lparr>md_id = SignalId 1, md_key = ''gear'', md_type = TEnum, md_unit = UNone, md_validation = Observed, md_capabilities = 1,
       md_choices = [\<lparr>ch_value = 4, ch_key = ''drive''\<rparr>]\<rparr>]"

lemma pedal_available: "ex_available (signal_catalog_export pedal_catalog)"
proof -
  have "export_entries pedal_catalog [] 3 = export_entries [] pedal_catalog (3 + (2 + descriptor_body_bytes (hd pedal_catalog)))"
    by (simp add: pedal_catalog_def caps_has_def entry_refused_def valid_wire_string_def max_catalog_signals_def
      max_catalog_key_bytes_def max_catalog_token_bytes_def max_catalog_choices_def max_catalog_document_bytes_def
      descriptor_body_bytes_def tlv_bytes_def choices_value_bytes_def Let_def)
  moreover have "catalog_well_formed pedal_catalog"
    by (simp add: pedal_catalog_def sid_valid_def choices_well_formed_def)
  ultimately show ?thesis by (simp add: signal_catalog_export_def catalog_document_header_bytes_def)
qed

theorem companion_reads_the_catalog_witness:
  "\<exists>doc. client_download signal_source 7 9 (unat (ex_length (signal_catalog_export pedal_catalog)))
      (selector_connect 7 9 (selector_bind (signal_catalog_export pedal_catalog) (selector_new None))) = Some doc \<and>
    decode_catalog doc = Some (map client_view (filter readable pedal_catalog))"
  by (rule companion_reads_the_catalog [OF pedal_available]) (simp_all add: no_connection_def)

theorem stale_selection_refused_witness:
  "fst (selector_select signal_source 7 [1] (selector_new None)) \<noteq> AttNone \<and>
    snd (selector_select signal_source 7 [1] (selector_new None)) = selector_new None"
  by (rule stale_selection_refused) simp

end
