(* ===== verification/Extensible_Live_Laws.thy ===== *)
theory Extensible_Live_Laws
  imports Extensible_Live Signal_Catalog_Laws
begin

text \<open>
  The catalog-keyed stream: a packet is its header and whole records, an offer sends the due records in handle order
  from the cursor as long as they fit, and a record that is left out is nearer to the cursor afterwards.
\<close>

section \<open>Records\<close>

definition ext_metadata :: "signal_export \<Rightarrow> 'p port \<Rightarrow> 'p \<Rightarrow> u16 \<Rightarrow> signal_metadata option" where
  "ext_metadata ex P p handle = pb_metadata ex P p
     \<lparr>pb_packet = bounded_new ext_max_packet_bytes, pb_appended = 0, pb_limit = 0, pb_valid = True\<rparr> handle"

definition record_bytes :: "u16 \<Rightarrow> signal_metadata \<Rightarrow> signal_status_code \<Rightarrow> bytes \<Rightarrow> bytes" where
  "record_bytes handle m status value = [of_nat (4 + length value)] @ le16 handle @ [wire_type_code (md_type m),
     (status_code_value status AND 0x07) OR (if value \<noteq> [] then 0x08 else 0)] @ value"

definition ext_record :: "signal_export \<Rightarrow> 'p port \<Rightarrow> 'p \<Rightarrow> u16 \<Rightarrow> signal_reading signal_result \<Rightarrow> bytes option" where
  "ext_record ex P p handle result = (if handle = 0 \<or> 64 < handle then None else case ext_metadata ex P p handle of None \<Rightarrow> None
     | Some m \<Rightarrow> Some (if rs_ok result
         then record_bytes handle m (reported_status m (rd_availability (the (rs_value result))))
           (case rd_value (the (rs_value result)) of None \<Rightarrow> [] | Some v \<Rightarrow> encoded_value ex handle m v)
         else record_bytes handle m (failure_code (rs_status result)) []))"

definition appended_to :: "packet_builder \<Rightarrow> u16 \<Rightarrow> bytes \<Rightarrow> packet_builder" where
  "appended_to b handle r = b\<lparr>pb_packet := push_all r (pb_packet b), pb_appended := pb_appended b OR push_bit (unat handle - 1) 1\<rparr>"

definition builder_ok :: "packet_builder \<Rightarrow> bool" where
  "builder_ok b \<longleftrightarrow> pb_valid b \<and> bb_capacity (pb_packet b) = 244 \<and> pb_limit b \<le> 244 \<and> length (bb_bytes (pb_packet b)) \<le> pb_limit b"

lemma encoded_value_length: "length (encoded_value ex handle m v) \<le> 4"
  by (cases v) (simp_all add: encoded_value_def split: option.split)

lemma record_bytes_length [simp]: "length (record_bytes handle m status value) = 5 + length value"
  by (simp add: record_bytes_def)

lemma ext_record_length: "ext_record ex P p handle result = Some r \<Longrightarrow> 5 \<le> length r \<and> length r \<le> 9"
  using encoded_value_length [of ex handle]
  by (auto simp: ext_record_def split: if_splits option.splits)

lemma push_value_fits: "length (bb_bytes b) + length vs \<le> bb_capacity b \<Longrightarrow> push_value vs b = (True, push_all vs b)"
  by (induction vs arbitrary: b) (simp_all add: push_fits)

lemma append_status_fits:
  assumes "builder_ok b" and "length value \<le> 4"
  shows "append_status handle m status value b = (if handle_taken b handle \<or> pb_limit b - length (bb_bytes (pb_packet b)) < 5 + length value
     then (False, b) else (True, appended_to b handle (record_bytes handle m status value)))"
proof (cases "handle_taken b handle \<or> pb_limit b - length (bb_bytes (pb_packet b)) < 5 + length value")
  case False
  then have room: "length (bb_bytes (pb_packet b)) + 5 + length value \<le> 244" using assms(1) by (auto simp: builder_ok_def)
  have "\<not> pb_limit b < length (bb_bytes (pb_packet b))" "pb_valid b" "bb_capacity (pb_packet b) = 244" using assms(1) by (auto simp: builder_ok_def)
  with False room assms(2) show ?thesis
    by (simp add: append_status_def Let_def pushes_fit push_value_fits appended_to_def record_bytes_def)
next
  case True
  then show ?thesis using assms by (auto simp: append_status_def Let_def builder_ok_def)
qed

lemma ext_metadata: "pb_valid b \<Longrightarrow> pb_metadata ex P p b handle = ext_metadata ex P p handle"
  by (simp add: ext_metadata_def pb_metadata_def)

lemma append_result_record:
  assumes "builder_ok b"
  shows "append_result ex P p handle result b = (case ext_record ex P p handle result of None \<Rightarrow> (False, b)
    | Some r \<Rightarrow> if handle_taken b handle \<or> pb_limit b - length (bb_bytes (pb_packet b)) < length r then (False, b)
        else (True, appended_to b handle r))"
proof (cases "handle_taken b handle")
  case True
  then show ?thesis by (simp add: append_result_def append_reading_def append_failure_def split: option.split)
next
  case False
  then have h: "\<not> (handle = 0 \<or> 64 < handle)" by (simp add: handle_taken_def)
  have v: "pb_valid b" using assms by (simp add: builder_ok_def)
  show ?thesis
  proof (cases "ext_metadata ex P p handle")
    case None
    then show ?thesis
      using False h by (simp add: append_result_def append_reading_def append_failure_def ext_record_def ext_metadata [OF v])
  next
    case (Some m)
    then show ?thesis
      using False h append_status_fits [OF assms] encoded_value_length [of ex handle m]
      by (cases "rs_ok result"; cases "rd_value (the (rs_value result))")
         (simp_all add: append_result_def append_reading_def append_failure_def ext_record_def ext_metadata [OF v])
  qed
qed

text \<open>A fresh builder has its header; its records have not begun.\<close>

definition ext_header :: "u32 \<Rightarrow> u16 \<Rightarrow> bool \<Rightarrow> bytes" where
  "ext_header token sequence started = [ext_format] @ le16 sequence @ [if started then 0x01 else 0] @ le32 token"

lemma builder_new_valid:
  assumes "ex_available ex" and "token \<noteq> 0" and "min_live_signals_att_mtu \<le> att_mtu"
  shows "builder_new ex token sequence started att_mtu = \<lparr>pb_packet = push_all (ext_header token sequence started) (bounded_new 244),
    pb_appended = 0, pb_limit = ext_packet_limit att_mtu, pb_valid = True\<rparr>"
    and "17 \<le> ext_packet_limit att_mtu" and "ext_packet_limit att_mtu \<le> 244"
proof -
  have "64 \<le> unat att_mtu" using assms(3) by (simp add: min_live_signals_att_mtu_def word_le_nat_alt)
  then have m: "3 < att_mtu" "64 \<le> unat att_mtu" by (simp_all add: word_less_nat_alt)
  then show "17 \<le> ext_packet_limit att_mtu" "ext_packet_limit att_mtu \<le> 244"
    by (auto simp: ext_packet_limit_def ext_max_packet_bytes_def Let_def)
  then have "\<not> ext_packet_limit att_mtu < ext_header_bytes" by (simp add: ext_header_bytes_def)
  then show "builder_new ex token sequence started att_mtu = \<lparr>pb_packet = push_all (ext_header token sequence started) (bounded_new 244),
      pb_appended = 0, pb_limit = ext_packet_limit att_mtu, pb_valid = True\<rparr>"
    using assms(1,2) by (simp add: builder_new_def Let_def pushes_fit ext_max_packet_bytes_def ext_header_def)
qed

lemma ext_header_length [simp]: "length (ext_header token sequence started) = 8"
  by (simp add: ext_header_def)

section \<open>The order of the handles\<close>

fun handles_from :: "u16 \<Rightarrow> u16 \<Rightarrow> nat \<Rightarrow> u16 list" where
  "handles_from c h 0 = []"
| "handles_from c h (Suc n) = h # handles_from c (ext_next_handle h c) n"

definition handle_ok :: "u16 \<Rightarrow> u16 \<Rightarrow> bool" where
  "handle_ok c h \<longleftrightarrow> 0 < unat h \<and> unat h \<le> unat c"

lemma length_handles_from [simp]: "length (handles_from c h n) = n"
  by (induction n arbitrary: h) simp_all

lemma next_handle_ok:
  assumes "handle_ok c h" and "unat c \<le> 64"
  shows "unat (ext_next_handle h c) = unat h mod unat c + 1" and "handle_ok c (ext_next_handle h c)"
proof -
  have "unat (h + 1) = unat h + 1" if "unat h < unat c"
  proof -
    have "unat h + 1 < 65536" using that assms(2) by simp
    then show ?thesis using unat_of_nat_u16 [of "unat h + 1"] by (simp add: add.commute)
  qed
  then show "unat (ext_next_handle h c) = unat h mod unat c + 1"
    using assms by (auto simp: ext_next_handle_def handle_ok_def word_le_nat_alt)
  moreover have "unat h mod unat c < unat c" using assms(1) by (simp add: handle_ok_def)
  ultimately show "handle_ok c (ext_next_handle h c)" by (simp add: handle_ok_def)
qed

lemma handles_from_nth:
  assumes "handle_ok c h" and "unat c \<le> 64" and "i < n"
  shows "unat (handles_from c h n ! i) = (unat h - 1 + i) mod unat c + 1"
  using assms
proof (induction n arbitrary: h i)
  case (Suc n)
  show ?case
  proof (cases i)
    case 0
    have "unat h - 1 < unat c" using Suc.prems(1) by (auto simp: handle_ok_def)
    then show ?thesis using 0 Suc.prems(1) by (simp add: handle_ok_def)
  next
    case (Suc j)
    have "unat (handles_from c (ext_next_handle h c) n ! j) = (unat (ext_next_handle h c) - 1 + j) mod unat c + 1"
      using Suc.IH [OF next_handle_ok(2)] Suc.prems Suc by simp
    also have "\<dots> = (unat h mod unat c + j) mod unat c + 1" using next_handle_ok(1) Suc.prems by simp
    also have "\<dots> = (unat h + j) mod unat c + 1" by (simp add: mod_simps)
    also have "unat h + j = unat h - 1 + i" using Suc Suc.prems(1) by (simp add: handle_ok_def)
    finally show ?thesis using Suc by simp
  qed
qed simp

lemma handles_from_ok: "handle_ok c h \<Longrightarrow> unat c \<le> 64 \<Longrightarrow> g \<in> set (handles_from c h n) \<Longrightarrow> handle_ok c g"
  by (induction n arbitrary: h) (auto, metis next_handle_ok(2))

lemma handles_from_distinct:
  assumes "handle_ok c h" and "unat c \<le> 64" and "n \<le> unat c"
  shows "distinct (handles_from c h n)"
proof -
  have "i = j" if "i < n" "j < n" "handles_from c h n ! i = handles_from c h n ! j" for i j
  proof -
    have "(unat h - 1 + i) mod unat c = (unat h - 1 + j) mod unat c"
      using handles_from_nth [OF assms(1,2)] that by (metis add_right_cancel)
    then have "unat c dvd (unat h - 1 + i) - (unat h - 1 + j)" "unat c dvd (unat h - 1 + j) - (unat h - 1 + i)"
      by (metis mod_eq_dvd_iff_nat nat_le_linear diff_is_0_eq dvd_0_right)+
    then have "unat c dvd i - j" "unat c dvd j - i" by simp_all
    moreover have "i - j < unat c" "j - i < unat c" using that assms(3) by linarith+
    ultimately have "i - j = 0" "j - i = 0" by (auto dest: dvd_imp_le)
    then show ?thesis by simp
  qed
  then show ?thesis by (auto simp: distinct_conv_nth)
qed

lemma handles_from_all:
  assumes "handle_ok c h" and "unat c \<le> 64" and "handle_ok c g"
  shows "g \<in> set (handles_from c h (unat c))"
proof -
  have "set (handles_from c h (unat c)) \<subseteq> {g. handle_ok c g}" using handles_from_ok assms by auto
  moreover have "{g. handle_ok c g} = of_nat ` {1..unat c}"
  proof (intro equalityI subsetI CollectI)
    fix g assume "g \<in> {g. handle_ok c g}"
    then show "g \<in> of_nat ` {1..unat c}" by (intro image_eqI [of _ _ "unat g"]) (simp_all add: handle_ok_def Suc_le_eq of_nat_unat ucast_id)
  qed (use assms(2) in \<open>auto simp: handle_ok_def unat_of_nat_u16\<close>)
  moreover have "card (of_nat ` {1..unat c} :: u16 set) \<le> unat c" using card_image_le [of "{1..unat c}"] by simp
  moreover have "card (set (handles_from c h (unat c))) = unat c" using handles_from_distinct [OF assms(1,2)] by (simp add: distinct_card)
  ultimately show ?thesis using assms(3) card_subset_eq by (metis (no_types, lifting) finite_atLeastAtMost finite_imageI card_mono le_antisym mem_Collect_eq)
qed

section \<open>What an offer packs\<close>

text \<open>How many of the records fit into the room, one after the other.\<close>

fun packed :: "nat \<Rightarrow> bytes list \<Rightarrow> nat" where
  "packed room [] = 0"
| "packed room (r # rs) = (if room < length r then 0 else Suc (packed (room - length r) rs))"

lemma packed_le: "packed room rs \<le> length rs"
  by (induction rs arbitrary: room) simp_all

lemma packed_fits: "length (concat (take (packed room rs) rs)) \<le> room"
proof (induction rs arbitrary: room)
  case (Cons r rs)
  show ?case using Cons.IH [of "room - length r"] by (auto simp del: length_concat)
qed simp

lemma packed_next: "packed room rs < length rs \<Longrightarrow> room < length (concat (take (packed room rs) rs)) + length (rs ! packed room rs)"
proof (induction rs arbitrary: room)
  case (Cons r rs)
  show ?case using Cons.IH [of "room - length r"] Cons.prems by (auto split: if_splits)
qed simp

text \<open>The record a handle would send now, and whether it is due.\<close>

definition handle_record :: "signal_export \<Rightarrow> 'p port \<Rightarrow> 'p \<Rightarrow> u16 \<Rightarrow> bytes option" where
  "handle_record ex P p handle = ext_record ex P p handle (port_read P p (provider_id_for_handle ex handle))"

definition stale_record :: "accepted_record \<Rightarrow> bytes \<Rightarrow> int \<Rightarrow> bool" where
  "stale_record a r now \<longleftrightarrow> ac_at a = None \<or> ac_bytes a \<noteq> r \<or> elapsed_since now (ac_at a) live_heartbeat_interval"

definition handle_due :: "signal_export \<Rightarrow> 'p port \<Rightarrow> 'p \<Rightarrow> int \<Rightarrow> ext_stream \<Rightarrow> u16 \<Rightarrow> bool" where
  "handle_due ex P p now s handle = (case handle_record ex P p handle of None \<Rightarrow> False
     | Some r \<Rightarrow> stale_record (es_accepted s ! (unat handle - 1)) r now)"

definition due_handles :: "signal_export \<Rightarrow> 'p port \<Rightarrow> 'p \<Rightarrow> int \<Rightarrow> ext_stream \<Rightarrow> u16 list" where
  "due_handles ex P p now s = filter (handle_due ex P p now s) (handles_from (ex_signal_count ex) (es_handle s) (unat (ex_signal_count ex)))"

abbreviation record_of :: "signal_export \<Rightarrow> 'p port \<Rightarrow> 'p \<Rightarrow> u16 \<Rightarrow> bytes" where
  "record_of ex P p h \<equiv> the (handle_record ex P p h)"

definition pristine :: "packet_builder \<Rightarrow> bool" where
  "pristine b \<longleftrightarrow> builder_ok b \<and> pb_appended b = 0 \<and> length (bb_bytes (pb_packet b)) = 8 \<and> 17 \<le> pb_limit b"

lemma alone_due:
  assumes "pristine fresh" and "handle_ok (ex_signal_count ex) h" and "append_result ex P p h (port_read P p (provider_id_for_handle ex h)) fresh = (alone, one)"
  shows "(alone \<and> record_due ex h (bb_bytes (pb_packet one)) now s) = handle_due ex P p now s h"
proof -
  have "h \<noteq> 0" "\<not> ex_signal_count ex < h" using assms(2) by (auto simp: handle_ok_def word_less_nat_alt)
  show ?thesis
  proof (cases "handle_record ex P p h")
    case None
    then show ?thesis
      using assms(1,3) append_result_record [of fresh ex P p h "port_read P p (provider_id_for_handle ex h)"]
      by (simp add: handle_due_def handle_record_def pristine_def)
  next
    case (Some r)
    note r = Some [unfolded handle_record_def]
    have l: "5 \<le> length r" "length r \<le> 9" "\<not> (h = 0 \<or> 64 < h)"
      using ext_record_length [OF r] r by (simp_all add: ext_record_def split: if_splits)
    then have "(alone, one) = (True, appended_to fresh h r)"
      using assms(1,3) append_result_record [of fresh ex P p h "port_read P p (provider_id_for_handle ex h)"] r
      by (auto simp: pristine_def handle_taken_def split: if_splits)
    moreover have "drop 8 (bb_bytes (pb_packet fresh) @ r) = r" using assms(1) by (simp add: pristine_def)
    ultimately show ?thesis
      using Some l assms(1) \<open>h \<noteq> 0\<close> \<open>\<not> ex_signal_count ex < h\<close>
      by (auto simp: handle_due_def record_due_def appended_to_def ext_header_bytes_def pristine_def stale_record_def Let_def)
  qed
qed

text \<open>The handles that are still to come have not been appended.\<close>

definition untaken :: "packet_builder \<Rightarrow> u16 list \<Rightarrow> bool" where
  "untaken b hs \<longleftrightarrow> (\<forall>h \<in> set hs. \<not> handle_taken b h)"

lemma untaken_append:
  assumes "untaken b hs" and "h \<notin> set hs" and "\<not> handle_taken b h"
  shows "untaken (appended_to b h r) hs"
proof -
  have "\<not> handle_taken (appended_to b h r) g" if g: "g \<in> set hs" for g
  proof -
    have n: "\<not> handle_taken b g" using assms(1) g by (simp add: untaken_def)
    then have "g \<noteq> 0" "g \<le> 64" "h \<noteq> 0" "h \<le> 64" using assms(3) by (auto simp: handle_taken_def)
    moreover have "g \<noteq> h" using assms(2) g by auto
    ultimately have "unat g - 1 < 64" "unat h - 1 < 64" "unat g - 1 \<noteq> unat h - 1"
      by (auto simp: word_le_nat_alt unat_eq_0 [symmetric] word_unat_eq_iff simp del: unat_eq_0)
    then have "push_bit (unat h - 1) 1 AND push_bit (unat g - 1) (1 :: u64) = 0"
      by (intro bit_word_eqI) (auto simp: bit_simps)
    then show ?thesis
      using n by (simp add: handle_taken_def appended_to_def bit.conj_disj_distrib2 bit.conj_disj_distrib)
  qed
  then show ?thesis by (simp add: untaken_def)
qed

lemma offer_loop_packs:
  assumes "pristine fresh" and "unat (ex_signal_count ex) \<le> 64" and "handle_ok (ex_signal_count ex) h" and "builder_ok b"
    and "untaken b (handles_from (ex_signal_count ex) h n)" and "n \<le> unat (ex_signal_count ex)"
    and "due = filter (handle_due ex P p now s) (handles_from (ex_signal_count ex) h n)"
    and "k = packed (pb_limit b - length (bb_bytes (pb_packet b))) (map (record_of ex P p) due)"
  shows "\<exists>b'. offer_loop ex P p now fresh s n h cursor appended b =
      (if k < length due then due ! k else if due = [] then cursor else ext_next_handle (last due) (ex_signal_count ex), appended \<or> 0 < k, b') \<and>
    bb_bytes (pb_packet b') = bb_bytes (pb_packet b) @ concat (take k (map (record_of ex P p) due))"
  using assms(3-8)
proof (induction n arbitrary: h cursor appended b due k)
  case 0
  then show ?case by simp
next
  case (Suc n)
  let ?c = "ex_signal_count ex" and ?result = "port_read P p (provider_id_for_handle ex h)"
  let ?on = "ext_next_handle h ?c"
  have on: "handle_ok ?c ?on" using next_handle_ok(2) Suc.prems(1) assms(2) by blast
  obtain alone one where al: "append_result ex P p h ?result fresh = (alone, one)" by fastforce
  note due_h = alone_due [OF assms(1) Suc.prems(1) al, of now s]
  have nt: "\<not> handle_taken b h" and un: "untaken b (handles_from ?c ?on n)" using Suc.prems(3) by (auto simp: untaken_def)
  show ?case
  proof (cases "handle_due ex P p now s h")
    case False
    then have d: "due = filter (handle_due ex P p now s) (handles_from ?c ?on n)" using Suc.prems(5) by simp
    have "offer_loop ex P p now fresh s (Suc n) h cursor appended b = offer_loop ex P p now fresh s n ?on cursor appended b"
      using False due_h by (auto simp: al Let_def)
    then show ?thesis using Suc.IH [OF on Suc.prems(2) un _ d Suc.prems(6)] Suc.prems(4) by simp
  next
    case True
    define rest where "rest = filter (handle_due ex P p now s) (handles_from ?c ?on n)"
    have d: "due = h # rest" using Suc.prems(5) True by (simp add: rest_def)
    obtain r where r: "handle_record ex P p h = Some r" using True by (auto simp: handle_due_def split: option.splits)
    let ?room = "pb_limit b - length (bb_bytes (pb_packet b))"
    have app: "append_result ex P p h ?result b = (if ?room < length r then (False, b) else (True, appended_to b h r))"
      using append_result_record [OF Suc.prems(2), of ex P p h ?result] r nt by (simp add: handle_record_def)
    show ?thesis
    proof (cases "?room < length r")
      case full: True
      then have "k = 0" using Suc.prems(6) r by (simp add: d)
      moreover have "offer_loop ex P p now fresh s (Suc n) h cursor appended b = (h, appended, b)"
        using True due_h full by (simp add: al Let_def app)
      ultimately show ?thesis by (simp add: d)
    next
      case fits: False
      let ?b = "appended_to b h r"
      define j where "j = packed (?room - length r) (map (record_of ex P p) rest)"
      have k: "k = Suc j" using Suc.prems(6) r fits by (simp add: d j_def)
      have room: "pb_limit ?b - length (bb_bytes (pb_packet ?b)) = ?room - length r" by (simp add: appended_to_def)
      have ok: "builder_ok ?b" using Suc.prems(2) fits by (auto simp: builder_ok_def appended_to_def)
      have "distinct (handles_from ?c h (Suc n))" using handles_from_distinct Suc.prems(1,4) assms(2) by blast
      then have un': "untaken ?b (handles_from ?c ?on n)" using untaken_append [OF un _ nt] by simp
      have "offer_loop ex P p now fresh s (Suc n) h cursor appended b = offer_loop ex P p now fresh s n ?on ?on True ?b"
        using True due_h fits by (simp add: al Let_def app)
      moreover obtain b' where "offer_loop ex P p now fresh s n ?on ?on True ?b =
          (if j < length rest then rest ! j else if rest = [] then ?on else ext_next_handle (last rest) ?c, True \<or> 0 < j, b')"
        "bb_bytes (pb_packet b') = bb_bytes (pb_packet ?b) @ concat (take j (map (record_of ex P p) rest))"
        using Suc.IH [OF on ok un' _ rest_def j_def [folded room], of ?on True] Suc.prems(4) by auto
      ultimately show ?thesis using r by (auto simp: d k appended_to_def)
    qed
  qed
qed

section \<open>What the stream remembers of a packet\<close>

lemma handle_record_shape:
  assumes "handle_record ex P p h = Some r"
  shows "r = of_nat (length r - 1) # le16 h @ drop 3 r" and "5 \<le> length r" and "length r \<le> 9"
  using assms ext_record_length [of ex P p h]
  by (auto simp: handle_record_def ext_record_def record_bytes_def le16_def split: if_splits option.splits)

definition remembered :: "signal_export \<Rightarrow> 'p port \<Rightarrow> 'p \<Rightarrow> int \<Rightarrow> u16 \<Rightarrow> accepted_record list \<Rightarrow> accepted_record list" where
  "remembered ex P p now h acc = acc[unat h - 1 := \<lparr>ac_bytes = record_of ex P p h, ac_at = Some now\<rparr>]"

lemma remember_step:
  assumes "1 + unat (packet ! offset) = n" and "5 \<le> n" "n \<le> 9" and "offset + n \<le> length packet" and "read_u16 packet (offset + 1) = h"
    and "h \<noteq> 0" "\<not> ex_signal_count ex < h"
  shows "remember_records ex now packet offset acc = remember_records ex now packet (offset + n)
    (acc[unat h - 1 := \<lparr>ac_bytes = take n (drop offset packet), ac_at = Some now\<rparr>])"
proof -
  have "\<not> length packet \<le> offset" "\<not> (9 < n \<or> length packet < offset + n \<or> n < 5)" "\<not> (h = 0 \<or> ex_signal_count ex < h)"
    using assms by auto
  then show ?thesis
    unfolding remember_records.simps [of ex now packet offset] Let_def assms(1,5) ext_max_record_bytes_def ext_record_header_bytes_def
    by (simp only: if_False)
qed

lemma remember_packet:
  assumes "\<forall>h \<in> set hs. handle_record ex P p h \<noteq> None \<and> handle_ok (ex_signal_count ex) h"
  shows "remember_records ex now (pre @ concat (map (record_of ex P p) hs)) (length pre) acc = fold (remembered ex P p now) hs acc"
  using assms
proof (induction hs arbitrary: pre acc)
  case (Cons h hs)
  then obtain r where r: "handle_record ex P p h = Some r" by auto
  note shape = handle_record_shape [OF r]
  define rest where "rest = concat (map (record_of ex P p) hs)"
  let ?packet = "pre @ r @ rest"
  have "r ! 0 = of_nat (length r - 1)" by (subst shape(1)) (rule nth_Cons_0)
  moreover have "r \<noteq> []" using shape(2) by auto
  ultimately have size: "?packet ! length pre = of_nat (length r - 1)" by (simp add: nth_append)
  have len: "1 + unat (of_nat (length r - 1) :: u8) = length r" using shape(2,3) by (subst unat_of_nat_u8) simp
  have "take 2 (drop (length pre + 1) ?packet) = le16 h"
    by (subst shape(1)) (simp add: le16_def)
  then have handle: "read_u16 ?packet (length pre + 1) = h" by (rule read_u16_le16)
  have h: "h \<noteq> 0" "\<not> ex_signal_count ex < h" using Cons.prems by (auto simp: handle_ok_def word_less_nat_alt)
  have "remember_records ex now ?packet (length pre) acc = remember_records ex now ?packet (length pre + length r) (remembered ex P p now h acc)"
    using remember_step [of ?packet "length pre" "length r" h ex now acc] shape(2,3) h size len handle
    by (simp add: remembered_def r)
  also have "\<dots> = fold (remembered ex P p now) hs (remembered ex P p now h acc)"
    using Cons.IH [of "pre @ r" "remembered ex P p now h acc"] Cons.prems by (simp add: rest_def)
  finally show ?case by (simp add: r rest_def)
qed (simp add: remember_records.simps)

lemma fold_remembered:
  assumes "distinct hs" and "handle_ok c g" and "\<forall>h \<in> set hs. handle_ok c h \<and> unat h \<le> length acc"
  shows "fold (remembered ex P p now) hs acc ! (unat g - 1) =
    (if g \<in> set hs then \<lparr>ac_bytes = record_of ex P p g, ac_at = Some now\<rparr> else acc ! (unat g - 1))"
  using assms
proof (induction hs arbitrary: acc)
  case (Cons h hs)
  have "unat h - 1 = unat g - 1 \<longleftrightarrow> h = g"
    using Cons.prems(2,3) by (auto simp: handle_ok_def word_unat_eq_iff)
  moreover have "unat h - 1 < length acc" using Cons.prems(3) by (auto simp: handle_ok_def)
  ultimately show ?case using Cons by (auto simp: remembered_def)
qed simp

lemma length_fold_remembered [simp]: "length (fold (remembered ex P p now) hs acc) = length acc"
  by (induction hs arbitrary: acc) (simp_all add: remembered_def)

section \<open>Histories\<close>

inductive ext_reach :: "signal_export \<Rightarrow> 'p port \<Rightarrow> ext_stream \<Rightarrow> bool" for ex P where
  started: "ext_reach ex P ext_stream_new"
| notifications: "ext_reach ex P s \<Longrightarrow> ext_reach ex P (ext_set_notifications ex enabled s)"
| secured: "ext_reach ex P s \<Longrightarrow> ext_reach ex P (ext_set_secured ex secure s)"
| mtu: "ext_reach ex P s \<Longrightarrow> ext_reach ex P (ext_set_mtu ex m s)"
| token: "ext_reach ex P s \<Longrightarrow> ext_reach ex P (ext_set_token t s)"
| paused: "ext_reach ex P s \<Longrightarrow> ext_reach ex P (ext_set_paused b s)"
| connection: "ext_reach ex P s \<Longrightarrow> ext_reach ex P (ext_reset_connection s)"
| offered: "ext_reach ex P s \<Longrightarrow> ext_offer ex P p now telemetry accepts s = (frame, s') \<Longrightarrow> ext_reach ex P s'"

definition ext_inv :: "signal_export \<Rightarrow> ext_stream \<Rightarrow> bool" where
  "ext_inv ex s \<longleftrightarrow> length (es_accepted s) = 64 \<and> (0 < ex_signal_count ex \<longrightarrow> handle_ok (ex_signal_count ex) (es_handle s))"

lemma export_count: "unat (ex_signal_count (signal_catalog_export cat)) \<le> 64"
proof (cases "ex_available (signal_catalog_export cat)")
  case True
  then show ?thesis using signal_catalog_export_ok(1,4) [OF True] by (simp add: ex_signal_count_def max_catalog_signals_def unat_of_nat_u16)
qed (simp add: ex_signal_count_def)

lemma ext_inv_fresh: "ext_inv ex s \<Longrightarrow> ext_inv ex (restart_stream s)"
  by (simp add: ext_inv_def restart_stream_def handle_ok_def max_catalog_signals_def word_less_nat_alt)

lemma ext_inv_update: "ext_inv ex s \<Longrightarrow> ext_inv ex (ext_update ex f s)"
  using ext_inv_fresh [of ex "s\<lparr>es_conditions := f (es_conditions s)\<rparr>"] by (simp add: ext_update_def Let_def ext_inv_def)

text \<open>What an offer does when it is due on a catalog with signals.\<close>

lemma ext_offer_due:
  assumes inv: "ext_inv ex s" and count: "unat (ex_signal_count ex) \<le> 64" "0 < ex_signal_count ex"
    and on: "ext_streaming ex s" "\<not> es_paused s" "ext_sample_due now s"
    and due: "due = due_handles ex P p now s"
    and limit: "limit = ext_packet_limit (ec_mtu (es_conditions s))"
    and k: "k = packed (limit - 8) (map (record_of ex P p) due)"
    and packet: "packet = ext_header (ec_token (es_conditions s)) (es_sequence s) telemetry @ concat (take k (map (record_of ex P p) due))"
  shows "ext_offer ex P p now telemetry accepts s = (if k = 0 then (None, s\<lparr>es_last_sample := Some now\<rparr>)
    else (Some packet, s\<lparr>es_last_sample := Some now, es_sequence := es_sequence s + 1,
      es_handle := (if k < length due then due ! k else ext_next_handle (last due) (ex_signal_count ex)),
      es_accepted := (if accepts packet then fold (remembered ex P p now) (take k due) (es_accepted s) else es_accepted s)\<rparr>))"
proof -
  let ?c = "ex_signal_count ex" and ?s = "s\<lparr>es_last_sample := Some now\<rparr>"
  define fresh where "fresh = builder_new ex (ec_token (es_conditions s)) (es_sequence s) telemetry (ec_mtu (es_conditions s))"
  have av: "ex_available ex" "ec_token (es_conditions s) \<noteq> 0" "min_live_signals_att_mtu \<le> ec_mtu (es_conditions s)"
    using on(1) by (simp_all add: ext_streaming_def Let_def)
  note new = builder_new_valid(1) [OF av, of "es_sequence s" telemetry, folded fresh_def]
    builder_new_valid(2,3) [OF av, folded limit]
  have pr: "pristine fresh" using new by (simp add: pristine_def builder_ok_def limit)
  have h: "handle_ok ?c (es_handle s)" using inv count(2) by (simp add: ext_inv_def)
  have un: "untaken fresh (handles_from ?c (es_handle s) (unat ?c))"
  proof -
    have "\<not> handle_taken fresh g" if "g \<in> set (handles_from ?c (es_handle s) (unat ?c))" for g
    proof -
      have "0 < unat g" "unat g \<le> 64" using handles_from_ok [OF h count(1) that] count(1) by (simp_all add: handle_ok_def)
      then show ?thesis using new(1) by (auto simp: handle_taken_def word_less_nat_alt)
    qed
    then show ?thesis by (simp add: untaken_def)
  qed
  have d: "due = filter (handle_due ex P p now ?s) (handles_from ?c (es_handle s) (unat ?c))"
  proof -
    have "handle_due ex P p now ?s = handle_due ex P p now s" by (simp add: handle_due_def fun_eq_iff split: option.split)
    then show ?thesis by (simp add: due due_handles_def)
  qed
  have room: "k = packed (pb_limit fresh - length (bb_bytes (pb_packet fresh))) (map (record_of ex P p) due)"
    by (simp add: k new(1) limit)
  obtain b' where loop: "offer_loop ex P p now fresh ?s (unat ?c) (es_handle s) (es_handle s) False fresh =
      (if k < length due then due ! k else if due = [] then es_handle s else ext_next_handle (last due) ?c, False \<or> 0 < k, b')"
    "bb_bytes (pb_packet b') = packet"
    using offer_loop_packs [OF pr count(1) h _ un order_refl d room, of "es_handle s" False] pr new(1) packet
    by (auto simp: pristine_def)
  have known: "\<forall>g \<in> set (take k due). handle_record ex P p g \<noteq> None \<and> handle_ok ?c g"
    using handles_from_ok [OF h count(1)] by (auto simp: d handle_due_def dest!: in_set_takeD split: option.splits)
  have mem: "remember_records ex now packet ext_header_bytes acc = fold (remembered ex P p now) (take k due) acc" for acc
    using remember_packet [OF known, of now "ext_header (ec_token (es_conditions s)) (es_sequence s) telemetry" acc]
    by (simp add: packet ext_header_bytes_def take_map)
  have "due \<noteq> []" if "0 < k" using that k by auto
  moreover have "pb_valid fresh" by (simp add: new(1))
  ultimately show ?thesis
    using on count(2) loop
    by (auto simp: ext_offer_def Let_def fresh_def [symmetric] mem)
qed

lemma due_handles_ok:
  assumes "ext_inv ex s" and "unat (ex_signal_count ex) \<le> 64" and "0 < ex_signal_count ex"
  shows "distinct (due_handles ex P p now s)"
    and "h \<in> set (due_handles ex P p now s) \<longleftrightarrow> handle_ok (ex_signal_count ex) h \<and> handle_due ex P p now s h"
proof -
  have h: "handle_ok (ex_signal_count ex) (es_handle s)" using assms by (simp add: ext_inv_def)
  show "distinct (due_handles ex P p now s)" using handles_from_distinct [OF h assms(2)] by (simp add: due_handles_def)
  show "h \<in> set (due_handles ex P p now s) \<longleftrightarrow> handle_ok (ex_signal_count ex) h \<and> handle_due ex P p now s h"
    using handles_from_ok [OF h assms(2)] handles_from_all [OF h assms(2)] by (auto simp: due_handles_def)
qed

lemma ext_offer_cases:
  assumes "ext_offer ex P p now telemetry accepts s = (frame, s')"
  obtains (idle) "frame = None" "s' = s" | (invalid) "frame = None" "s' = s\<lparr>es_last_sample := Some now\<rparr>"
    | (no_signals) "ex_signal_count ex = 0" "es_accepted s' = es_accepted s"
    | (due) "ext_streaming ex s" "\<not> es_paused s" "ext_sample_due now s" "0 < ex_signal_count ex"
proof (cases "\<not> ext_streaming ex s \<or> es_paused s \<or> \<not> ext_sample_due now s")
  case True
  then show ?thesis using assms idle by (simp add: ext_offer_def)
next
  case False
  show ?thesis
  proof (cases "ex_signal_count ex = 0")
    case True
    then have "es_accepted s' = es_accepted s" using assms by (auto simp: ext_offer_def Let_def split: if_splits)
    then show ?thesis using no_signals True by simp
  next
    case c: False
    then show ?thesis using False due by (simp add: word_neq_0_conv)
  qed
qed

lemma ext_inv_offer:
  assumes inv: "ext_inv ex s" and count: "unat (ex_signal_count ex) \<le> 64" and off: "ext_offer ex P p now telemetry accepts s = (frame, s')"
  shows "ext_inv ex s'"
  using off
proof (cases rule: ext_offer_cases)
  case idle
  then show ?thesis using inv by simp
next
  case invalid
  then show ?thesis using inv by (simp add: ext_inv_def)
next
  case no_signals
  then show ?thesis using inv by (simp add: ext_inv_def)
next
  case due
  let ?due = "due_handles ex P p now s"
  define k where "k = packed (ext_packet_limit (ec_mtu (es_conditions s)) - 8) (map (record_of ex P p) ?due)"
  note eq = ext_offer_due [OF inv count due(4,1-3) refl refl k_def refl, of telemetry accepts, unfolded off]
  have mem: "handle_ok (ex_signal_count ex) h" if "h \<in> set ?due" for h
    by (rule due_handles_ok(2) [OF inv count due(4), THEN iffD1, OF that, THEN conjunct1])
  show ?thesis
  proof (cases "k = 0")
    case True
    then show ?thesis using inv eq by (simp add: ext_inv_def)
  next
    case False
    then have "?due \<noteq> []" using packed_le [of _ "map (record_of ex P p) ?due"] unfolding k_def by (metis le_zero_eq list.map_disc_iff list.size(3))
    then have "handle_ok (ex_signal_count ex) (if k < length ?due then ?due ! k else ext_next_handle (last ?due) (ex_signal_count ex))"
      using mem next_handle_ok(2) [OF mem count] by simp
    then show ?thesis using inv eq False by (simp add: ext_inv_def split del: if_split) simp
  qed
qed

lemma ext_reach_inv: "ext_reach (signal_catalog_export cat) P s \<Longrightarrow> ext_inv (signal_catalog_export cat) s"
proof (induction rule: ext_reach.induct)
  case (offered s p now telemetry accepts frame s')
  show ?case by (rule ext_inv_offer [OF offered.IH export_count offered.hyps(2)])
next
  case (token s t)
  then show ?case using ext_inv_fresh [of "signal_catalog_export cat" "s\<lparr>es_conditions := (es_conditions s)\<lparr>ec_token := t\<rparr>\<rparr>"]
    by (simp add: ext_set_token_def ext_inv_def)
qed (simp_all add: ext_set_notifications_def ext_set_secured_def ext_set_mtu_def ext_inv_update,
     simp_all add: ext_inv_def ext_stream_new_def ext_set_paused_def ext_reset_connection_def handle_ok_def max_catalog_signals_def word_less_nat_alt)

text \<open>How many handles come before one, from the cursor.\<close>

definition waits :: "signal_export \<Rightarrow> ext_stream \<Rightarrow> u16 \<Rightarrow> nat" where
  "waits ex s h = (unat h + unat (ex_signal_count ex) - unat (es_handle s)) mod unat (ex_signal_count ex)"

lemma waits_index:
  assumes "handle_ok c cursor" and "unat c \<le> 64" and "i < unat c"
  shows "(unat (handles_from c cursor (unat c) ! i) + unat c - unat cursor) mod unat c = i"
proof -
  obtain a where a: "unat cursor = a + 1" "a < unat c" using assms(1) by (metis Suc_le_eq add.commute handle_ok_def plus_1_eq_Suc gr0_implies_Suc)
  have n: "unat (handles_from c cursor (unat c) ! i) = (a + i) mod unat c + 1"
    using handles_from_nth [OF assms] a(1) by simp
  show ?thesis
  proof (cases "a + i < unat c")
    case True
    then have "(a + i) mod unat c = a + i" by simp
    then show ?thesis using assms(3) by (simp add: n a(1) True)
  next
    case False
    then have "(a + i) mod unat c = a + i - unat c" using a(2) assms(3) by (simp add: mod_if)
    then show ?thesis using assms(3) False by (simp add: n a(1))
  qed
qed

lemma handles_from_drop: "i < n \<Longrightarrow> drop i (handles_from c h n) = handles_from c (handles_from c h n ! i) (n - i)"
proof (induction n arbitrary: h i)
  case (Suc n)
  then show ?case by (cases i) simp_all
qed simp

lemma filter_nth_split:
  assumes "k < length (filter Q xs)"
  shows "\<exists>ys zs. xs = ys @ filter Q xs ! k # zs \<and> filter Q ys = take k (filter Q xs) \<and> filter Q zs = drop (Suc k) (filter Q xs)"
  using assms
proof (induction xs arbitrary: k)
  case (Cons x xs)
  show ?case
  proof (cases "Q x")
    case True
    show ?thesis
    proof (cases k)
      case 0
      then show ?thesis using True by (intro exI [of _ "[]"] exI [of _ xs]) simp
    next
      case (Suc j)
      then obtain ys zs where "xs = ys @ filter Q xs ! j # zs" "filter Q ys = take j (filter Q xs)" "filter Q zs = drop (Suc j) (filter Q xs)"
        using Cons True by fastforce
      then show ?thesis using True Suc by (intro exI [of _ "x # ys"] exI [of _ zs]) simp
    qed
  next
    case False
    then obtain ys zs where "xs = ys @ filter Q xs ! k # zs" "filter Q ys = take k (filter Q xs)" "filter Q zs = drop (Suc k) (filter Q xs)"
      using Cons by fastforce
    then show ?thesis using False by (intro exI [of _ "x # ys"] exI [of _ zs]) simp
  qed
qed simp

text \<open>A due handle that is not among the first \<open>k\<close> is nearer when the cursor is at the due handle \<open>k\<close>.\<close>

lemma waits_less:
  assumes "handle_ok (ex_signal_count ex) (es_handle s)" and "unat (ex_signal_count ex) \<le> 64"
    and due: "due = filter Q (handles_from (ex_signal_count ex) (es_handle s) (unat (ex_signal_count ex)))"
    and k: "0 < k" "k < length due" and h: "h \<in> set (drop k due)" and s': "es_handle s' = due ! k"
  shows "waits ex s' h < waits ex s h"
proof -
  let ?c = "ex_signal_count ex" let ?hs = "handles_from ?c (es_handle s) (unat ?c)"
  obtain ys zs where split: "?hs = ys @ due ! k # zs" "filter Q ys = take k due" "filter Q zs = drop (Suc k) due"
    using filter_nth_split [of k Q ?hs] k(2) due by auto
  have len: "length ys < unat ?c" using arg_cong [OF split(1), of length] by simp
  have at: "?hs ! length ys = due ! k" by (simp add: split(1))
  have ys: "0 < length ys" using split(2) k by (metis filter.simps(1) length_greater_0_conv take_eq_Nil not_less_zero list.size(3))
  have "h \<in> set (due ! k # zs)"
    using h split(3) k(2) by (metis Cons_nth_drop_Suc filter_is_subset list.set_intros(1) set_ConsD list.set_intros(2) subsetD)
  then obtain i where i: "i < length (due ! k # zs)" "(due ! k # zs) ! i = h" by (metis in_set_conv_nth)
  have il: "length ys + i < unat ?c" using arg_cong [OF split(1), of length] i(1) by simp
  have hi: "?hs ! (length ys + i) = h" using i(2) by (simp add: split(1) nth_append)
  have "waits ex s h = length ys + i" using waits_index [OF assms(1,2) il] by (simp add: waits_def hi)
  moreover have "waits ex s' h = i"
  proof -
    have ok: "handle_ok ?c (due ! k)" using handles_from_ok [OF assms(1,2), of "due ! k" "unat ?c"] at len nth_mem [of "length ys" ?hs] by simp
    have "drop (length ys) ?hs = handles_from ?c (due ! k) (unat ?c - length ys)" using handles_from_drop len at by metis
    then have d: "due ! k # zs = handles_from ?c (due ! k) (unat ?c - length ys)" by (simp add: split(1))
    have "unat (handles_from ?c (due ! k) (unat ?c - length ys) ! i) = unat (handles_from ?c (due ! k) (unat ?c) ! i)"
      using handles_from_nth [OF ok assms(2)] il by simp
    then have "handles_from ?c (due ! k) (unat ?c) ! i = h" using i(2) d by (simp add: word_unat_eq_iff)
    then show ?thesis using waits_index [OF ok assms(2), of i] il by (simp add: waits_def s')
  qed
  ultimately show ?thesis using ys by simp
qed

section \<open>Round robin\<close>

text \<open>What an offer owes a due handle: its record in the packet, or a place nearer to the cursor.\<close>

definition round_robin_step ::
  "signal_export \<Rightarrow> 'p port \<Rightarrow> 'p \<Rightarrow> int \<Rightarrow> bool \<Rightarrow> (bytes \<Rightarrow> bool) \<Rightarrow> ext_stream \<Rightarrow> ext_stream \<Rightarrow> u16 \<Rightarrow> bytes \<Rightarrow> u16 list \<Rightarrow> bool" where
  "round_robin_step ex P p now telemetry accepts s s' h packet hs \<longleftrightarrow>
     packet = ext_header (ec_token (es_conditions s)) (es_sequence s) telemetry @ concat (map (record_of ex P p) hs) \<and>
     length packet \<le> ext_packet_limit (ec_mtu (es_conditions s)) \<and> distinct hs \<and> (\<forall>g \<in> set hs. handle_due ex P p now s g) \<and>
     (h \<in> set hs \<or> waits ex s' h < waits ex s h) \<and>
     (\<forall>g. handle_ok (ex_signal_count ex) g \<longrightarrow> es_accepted s' ! (unat g - 1) =
        (if accepts packet \<and> g \<in> set hs then \<lparr>ac_bytes = record_of ex P p g, ac_at = Some now\<rparr> else es_accepted s ! (unat g - 1)))"

text \<open>C33: No due record starves. In every history of the stream, an offer that is due hands the stack one packet while any
  record is due: the header and whole records of distinct due handles, within the link's limit. A due handle has its
  record in the packet or is strictly nearer to the cursor afterwards. When the stack takes the packet the stream
  remembers exactly the records in it, byte for byte, and otherwise none.
\<close>
theorem extensible_stream_round_robin:
  assumes "ex = signal_catalog_export cat" and "ext_reach ex P s" and "ext_streaming ex s" and "\<not> es_paused s" and "ext_sample_due now s"
    and "handle_ok (ex_signal_count ex) h" and "handle_due ex P p now s h" and "ext_offer ex P p now telemetry accepts s = (frame, s')"
  shows "\<exists>packet hs. frame = Some packet \<and> round_robin_step ex P p now telemetry accepts s s' h packet hs"
proof -
  let ?c = "ex_signal_count ex" and ?limit = "ext_packet_limit (ec_mtu (es_conditions s))"
  define due where "due = due_handles ex P p now s"
  define k where "k = packed (?limit - 8) (map (record_of ex P p) due)"
  define packet where "packet = ext_header (ec_token (es_conditions s)) (es_sequence s) telemetry @ concat (take k (map (record_of ex P p) due))"
  have inv: "ext_inv ex s" and count: "unat ?c \<le> 64" using assms(1,2) ext_reach_inv export_count by auto
  have pos: "0 < ?c" using assms(6) by (auto simp: handle_ok_def word_less_nat_alt)
  note eq = ext_offer_due [OF inv count pos assms(3-5) due_def refl k_def packet_def, of accepts, unfolded assms(8)]
  have dh: "distinct due" "g \<in> set due \<longleftrightarrow> handle_ok ?c g \<and> handle_due ex P p now s g" for g
    unfolding due_def by (rule due_handles_ok [OF inv count pos])+
  have h: "h \<in> set due" using dh(2) assms(6,7) by simp
  have av: "ex_available ex" "ec_token (es_conditions s) \<noteq> 0" "min_live_signals_att_mtu \<le> ec_mtu (es_conditions s)"
    using assms(3) by (simp_all add: ext_streaming_def Let_def)
  note limit = builder_new_valid(2) [OF av]
  have "k \<noteq> 0"
  proof -
    obtain g gs where g: "due = g # gs" using h by (cases due) auto
    then obtain r where r: "handle_record ex P p g = Some r" using dh(2) [of g] by (auto simp: handle_due_def split: option.splits)
    show ?thesis using handle_record_shape(3) [OF r] limit by (simp add: k_def g r)
  qed
  with eq have frame: "frame = Some packet" and s': "s' = s\<lparr>es_last_sample := Some now, es_sequence := es_sequence s + 1,
      es_handle := (if k < length due then due ! k else ext_next_handle (last due) ?c),
      es_accepted := (if accepts packet then fold (remembered ex P p now) (take k due) (es_accepted s) else es_accepted s)\<rparr>" by simp_all
  have fits: "length packet \<le> ?limit" using packed_fits [of "?limit - 8" "map (record_of ex P p) due"] limit by (simp add: packet_def k_def del: length_concat)
  have near: "h \<in> set (take k due) \<or> waits ex s' h < waits ex s h"
  proof (cases "h \<in> set (take k due)")
    case False
    then have rest: "h \<in> set (drop k due)" using h by (metis Un_iff append_take_drop_id set_append)
    then have "k < length due" by (metis drop_all empty_iff empty_set not_le)
    moreover have "handle_ok ?c (es_handle s)" using inv pos by (simp add: ext_inv_def)
    ultimately show ?thesis
      using waits_less [OF _ count due_def [unfolded due_handles_def] _ _ rest, of s'] \<open>k \<noteq> 0\<close> s' by simp
  qed simp
  have mem: "es_accepted s' ! (unat g - 1) = (if accepts packet \<and> g \<in> set (take k due)
      then \<lparr>ac_bytes = record_of ex P p g, ac_at = Some now\<rparr> else es_accepted s ! (unat g - 1))" if g: "handle_ok ?c g" for g
  proof -
    have "\<forall>h \<in> set (take k due). handle_ok ?c h \<and> unat h \<le> length (es_accepted s)"
      using dh(2) count inv by (auto simp: ext_inv_def handle_ok_def dest!: in_set_takeD)
    then show ?thesis using fold_remembered [OF _ g, of "take k due" "es_accepted s" ex P p now] dh(1) by (simp add: s')
  qed
  have "\<forall>g \<in> set (take k due). handle_due ex P p now s g" using dh(2) by (auto dest!: in_set_takeD)
  then show ?thesis
    using frame fits near mem dh(1)
    by (intro exI [of _ packet] exI [of _ "take k due"]) (simp add: round_robin_step_def packet_def take_map)
qed

text \<open>A stream that has just become ready, on the vehicle with one enumeration.\<close>

definition pedal_port :: "unit port" where
  "pedal_port = \<lparr>port_catalog = \<lambda>_. pedal_catalog,
     port_read = \<lambda>_ i. rs_success \<lparr>rd_value = Some (VEnum 4), rd_availability = Fresh, rd_validation = Observed\<rparr>,
     port_subscribe = \<lambda>p i cb. (rs_failure UnsupportedCapability, p), port_unsubscribe = \<lambda>p t. (InvalidSubscription, p)\<rparr>"

definition pedal_export :: signal_export where
  "pedal_export = signal_catalog_export pedal_catalog"

definition pedal_stream :: ext_stream where
  "pedal_stream = ext_set_token 9 (ext_set_mtu pedal_export 185 (ext_set_secured pedal_export True
     (ext_set_notifications pedal_export True ext_stream_new)))"

lemma pedal_export_entries: "ex_available pedal_export" "ex_entries pedal_export = pedal_catalog"
proof -
  show "ex_available pedal_export" by (simp add: pedal_export_def pedal_available)
  show "ex_entries pedal_export = pedal_catalog"
    using signal_catalog_export_ok(1) [OF pedal_available] by (simp add: pedal_export_def pedal_catalog_def readable_def caps_has_def)
qed

lemma pedal_count: "ex_signal_count pedal_export = 1"
  by (simp add: ex_signal_count_def pedal_export_entries) (simp add: pedal_catalog_def)

lemma pedal_stream_eq: "pedal_stream = ext_stream_new\<lparr>es_conditions := \<lparr>ec_notifications = True, ec_secured = True, ec_mtu = 185, ec_token = 9\<rparr>\<rparr>"
  by (simp add: pedal_stream_def ext_set_token_def ext_set_mtu_def ext_set_secured_def ext_set_notifications_def ext_update_def
    ext_streaming_def ext_stream_new_def no_ext_conditions_def restart_stream_def Let_def)

lemma pedal_due: "handle_due pedal_export pedal_port () 5 pedal_stream 1"
proof -
  have "metadata_for_handle pedal_export 1 = Some (hd pedal_catalog)"
    by (simp add: metadata_for_handle_def pedal_export_entries) (simp add: pedal_catalog_def)
  then have "handle_record pedal_export pedal_port () 1 \<noteq> None"
    by (simp add: handle_record_def ext_record_def ext_metadata_def pb_metadata_def pedal_count provider_id_for_handle_def)
       (simp add: pedal_port_def pedal_catalog_def sid_valid_def catalog_find_def caps_has_def)
  then show ?thesis
    by (auto simp: handle_due_def stale_record_def pedal_stream_eq ext_stream_new_def no_record_def max_catalog_signals_def)
qed

theorem extensible_stream_round_robin_witness:
  "\<exists>packet hs. fst (ext_offer pedal_export pedal_port () 5 True (\<lambda>_. True) pedal_stream) = Some packet \<and>
    round_robin_step pedal_export pedal_port () 5 True (\<lambda>_. True) pedal_stream
      (snd (ext_offer pedal_export pedal_port () 5 True (\<lambda>_. True) pedal_stream)) 1 packet hs"
proof (rule extensible_stream_round_robin [OF pedal_export_def _ _ _ _ _ pedal_due prod.collapse [symmetric]])
  show "ext_reach pedal_export pedal_port pedal_stream" unfolding pedal_stream_def by (intro ext_reach.intros)
qed (simp_all add: pedal_stream_eq ext_stream_new_def ext_streaming_def pedal_export_entries min_live_signals_att_mtu_def
    ext_sample_due_def elapsed_since_def handle_ok_def pedal_count)

end
