(* ===== verification/Mazda_State.thy ===== *)
theory Mazda_State
  imports Profile_State
begin

text \<open>
  The vehicle state of the Mazda decoders (\<open>lib/mazda/include/mazda/state.hpp\<close>, \<open>lib/mazda/src/state.cpp\<close>): one
  signal per channel and one health record per message, with the watermark that rejects late and repeated frames.
  \<open>vehicle_core::Signal\<close> is a type of the external package \<open>vehicle_core\<close>: its operations are the record
  \<open>signal_ops\<close>, over values of \<open>core_value\<close>.
\<close>

section \<open>Values\<close>

datatype selector_position = SelUnknown | SelShifting | SelPark | SelReverse | SelNeutral | SelDrive

datatype actual_gear = GearUnknown | GearParkOrNeutral | GearPark | GearNeutral | GearReverse | GearFirst | GearSecond | GearThird
  | GearFourth | GearFifth | GearSixth | GearShifting

datatype front_wiper_position = WiperUnknown | WiperOff | WiperOn | WiperHigh | WiperIntermittent

datatype turn_state = TurnUnknown | TurnOff | TurnLeft | TurnRight | TurnHazard

record turn_edge_event =
  te_previous :: turn_state
  te_current :: turn_state
  te_timestamp :: timestamp

datatype core_value = CoreFloat f32 | CoreBool bool | CoreSelector selector_position | CoreGear actual_gear
  | CoreWiper front_wiper_position | CoreTurn turn_state

datatype transport_health = TrLive | TrAwaitingTraffic | TrTimedOut | TrFaulted | TrStopped

datatype message_health = MhUnknown | MhHealthy | MhFaulted

datatype signal_health = ShAvailable | ShNoData | ShUnavailable

record health_observation =
  ho_transport :: transport_health
  ho_message :: message_health
  ho_signal :: signal_health
  ho_last_frame :: "timestamp option"
  ho_last_accepted :: "timestamp option"
  ho_fault :: "timestamp option"

text \<open>
  What the sources call of a \<open>Signal\<close>: construction with its freshness timeout, \<open>update\<close> and \<open>invalidate\<close> with their
  \<open>bool\<close>, \<open>refresh\<close>, \<open>set_freshness_timeout\<close>, \<open>is_valid\<close>, \<open>has_value\<close>, \<open>last_update_us\<close>, \<open>value\<close> and \<open>status_at\<close>; and
  \<open>HealthObservation{}\<close>.
\<close>

record 's signal_ops =
  so_new :: "timestamp option \<Rightarrow> 's"
  so_update :: "core_value \<Rightarrow> timestamp \<Rightarrow> 's \<Rightarrow> bool \<times> 's"
  so_invalidate :: "timestamp \<Rightarrow> 's \<Rightarrow> bool \<times> 's"
  so_refresh :: "timestamp \<Rightarrow> 's \<Rightarrow> 's"
  so_timeout :: "timestamp option \<Rightarrow> 's \<Rightarrow> 's"
  so_valid :: "'s \<Rightarrow> bool"
  so_has_value :: "'s \<Rightarrow> bool"
  so_last_update :: "'s \<Rightarrow> timestamp"
  so_turn :: "'s \<Rightarrow> turn_state"
  so_status :: "timestamp \<Rightarrow> 's \<Rightarrow> availability"
  so_health :: health_observation

section \<open>Frames and message records\<close>

record can_frame = raw_frame +
  rf_bus :: u8

record message_record =
  mr_identifier :: u32
  mr_has_frame :: bool
  mr_last_frame :: timestamp
  mr_has_accepted :: bool
  mr_last_accepted :: timestamp
  mr_health :: message_health
  mr_fault :: "timestamp option"
  mr_bus :: u8
  mr_dlc :: u8
  mr_standard :: bool
  mr_remote :: bool
  mr_data :: "u8 list"

datatype observation_result = ObsIgnored | ObsAccepted | ObsIdempotent | ObsRejectedOlder | ObsRejectedConflict | ObsCapacityExceeded

datatype decode_validity = DvIgnored | DvMalformed | DvDecoded

definition tracked_message_capacity :: nat where
  "tracked_message_capacity = 7"

definition no_message :: message_record where
  "no_message = \<lparr>mr_identifier = 0, mr_has_frame = False, mr_last_frame = 0, mr_has_accepted = False, mr_last_accepted = 0,
     mr_health = MhUnknown, mr_fault = None, mr_bus = 0, mr_dlc = 0, mr_standard = True, mr_remote = False,
     mr_data = replicate 8 0\<rparr>"

record 's vehicle_state =
  vs_timestamp :: timestamp
  vs_speed_kph :: 's
  vs_engine_rpm :: 's
  vs_accelerator_pedal_position :: 's
  vs_brake_pressure_bar :: 's
  vs_longitudinal_acceleration_mps2 :: 's
  vs_lateral_acceleration_mps2 :: 's
  vs_selector_position :: 's
  vs_actual_gear :: 's
  vs_turn_state :: 's
  vs_hazard_request :: 's
  vs_left_turn_request :: 's
  vs_right_turn_request :: 's
  vs_brake_pressed :: 's
  vs_liftgate_open :: 's
  vs_rear_right_door_open :: 's
  vs_rear_left_door_open :: 's
  vs_front_left_door_open_rhd :: 's
  vs_front_right_door_open_rhd :: 's
  vs_doors_unlocked :: 's
  vs_left_indicator_lamp :: 's
  vs_right_indicator_lamp :: 's
  vs_wiper_low :: 's
  vs_front_wiper :: 's
  vs_messages :: "message_record list"

definition turn_freshness_timeout :: timestamp where
  "turn_freshness_timeout = 250000"

definition request_freshness_timeout :: timestamp where
  "request_freshness_timeout = 250000"

definition acceleration_freshness_timeout :: timestamp where
  "acceleration_freshness_timeout = 250000"

record vehicle_freshness_policy =
  vp_speed_kph :: "timestamp option"
  vp_engine_rpm :: "timestamp option"
  vp_accelerator_pedal_position :: "timestamp option"
  vp_brake_pressure :: "timestamp option"
  vp_longitudinal_acceleration_mps2 :: "timestamp option"
  vp_lateral_acceleration_mps2 :: "timestamp option"
  vp_selector_position :: "timestamp option"
  vp_actual_gear :: "timestamp option"
  vp_turn_state :: "timestamp option"
  vp_hazard_request :: "timestamp option"
  vp_left_turn_request :: "timestamp option"
  vp_right_turn_request :: "timestamp option"
  vp_brake_pressed :: "timestamp option"
  vp_liftgate_open :: "timestamp option"
  vp_rear_right_door_open :: "timestamp option"
  vp_rear_left_door_open :: "timestamp option"
  vp_front_left_door_open_rhd :: "timestamp option"
  vp_front_right_door_open_rhd :: "timestamp option"
  vp_doors_unlocked :: "timestamp option"
  vp_left_indicator_lamp :: "timestamp option"
  vp_right_indicator_lamp :: "timestamp option"
  vp_wiper_low :: "timestamp option"
  vp_front_wiper :: "timestamp option"

definition default_policy :: vehicle_freshness_policy where
  "default_policy = \<lparr>vp_speed_kph = None,
     vp_engine_rpm = None,
     vp_accelerator_pedal_position = None,
     vp_brake_pressure = None,
     vp_longitudinal_acceleration_mps2 = Some acceleration_freshness_timeout,
     vp_lateral_acceleration_mps2 = Some acceleration_freshness_timeout,
     vp_selector_position = None,
     vp_actual_gear = None,
     vp_turn_state = Some turn_freshness_timeout,
     vp_hazard_request = Some request_freshness_timeout,
     vp_left_turn_request = Some request_freshness_timeout,
     vp_right_turn_request = Some request_freshness_timeout,
     vp_brake_pressed = None,
     vp_liftgate_open = None,
     vp_rear_right_door_open = None,
     vp_rear_left_door_open = None,
     vp_front_left_door_open_rhd = None,
     vp_front_right_door_open_rhd = None,
     vp_doors_unlocked = None,
     vp_left_indicator_lamp = None,
     vp_right_indicator_lamp = None,
     vp_wiper_low = None,
     vp_front_wiper = None\<rparr>"

definition vehicle_state_new :: "'s signal_ops \<Rightarrow> 's vehicle_state" where
  "vehicle_state_new S = \<lparr>vs_timestamp = 0,
     vs_speed_kph = so_new S None,
     vs_engine_rpm = so_new S None,
     vs_accelerator_pedal_position = so_new S None,
     vs_brake_pressure_bar = so_new S None,
     vs_longitudinal_acceleration_mps2 = so_new S None,
     vs_lateral_acceleration_mps2 = so_new S None,
     vs_selector_position = so_new S None,
     vs_actual_gear = so_new S None,
     vs_turn_state = so_new S (Some turn_freshness_timeout),
     vs_hazard_request = so_new S (Some request_freshness_timeout),
     vs_left_turn_request = so_new S (Some request_freshness_timeout),
     vs_right_turn_request = so_new S (Some request_freshness_timeout),
     vs_brake_pressed = so_new S None,
     vs_liftgate_open = so_new S None,
     vs_rear_right_door_open = so_new S None,
     vs_rear_left_door_open = so_new S None,
     vs_front_left_door_open_rhd = so_new S None,
     vs_front_right_door_open_rhd = so_new S None,
     vs_doors_unlocked = so_new S None,
     vs_left_indicator_lamp = so_new S None,
     vs_right_indicator_lamp = so_new S None,
     vs_wiper_low = so_new S None,
     vs_front_wiper = so_new S None,
     vs_messages = replicate tracked_message_capacity no_message\<rparr>"

section \<open>Refresh\<close>

definition state_refresh :: "'s signal_ops \<Rightarrow> timestamp \<Rightarrow> 's vehicle_state \<Rightarrow> 's vehicle_state" where
  "state_refresh S now v = v\<lparr>
     vs_speed_kph := so_refresh S now (vs_speed_kph v),
     vs_engine_rpm := so_refresh S now (vs_engine_rpm v),
     vs_accelerator_pedal_position := so_refresh S now (vs_accelerator_pedal_position v),
     vs_brake_pressure_bar := so_refresh S now (vs_brake_pressure_bar v),
     vs_longitudinal_acceleration_mps2 := so_refresh S now (vs_longitudinal_acceleration_mps2 v),
     vs_lateral_acceleration_mps2 := so_refresh S now (vs_lateral_acceleration_mps2 v),
     vs_selector_position := so_refresh S now (vs_selector_position v),
     vs_actual_gear := so_refresh S now (vs_actual_gear v),
     vs_liftgate_open := so_refresh S now (vs_liftgate_open v),
     vs_rear_right_door_open := so_refresh S now (vs_rear_right_door_open v),
     vs_rear_left_door_open := so_refresh S now (vs_rear_left_door_open v),
     vs_front_left_door_open_rhd := so_refresh S now (vs_front_left_door_open_rhd v),
     vs_front_right_door_open_rhd := so_refresh S now (vs_front_right_door_open_rhd v),
     vs_doors_unlocked := so_refresh S now (vs_doors_unlocked v),
     vs_left_indicator_lamp := so_refresh S now (vs_left_indicator_lamp v),
     vs_right_indicator_lamp := so_refresh S now (vs_right_indicator_lamp v),
     vs_wiper_low := so_refresh S now (vs_wiper_low v),
     vs_front_wiper := so_refresh S now (vs_front_wiper v),
     vs_turn_state := so_refresh S now (vs_turn_state v),
     vs_hazard_request := so_refresh S now (vs_hazard_request v),
     vs_left_turn_request := so_refresh S now (vs_left_turn_request v),
     vs_right_turn_request := so_refresh S now (vs_right_turn_request v),
     vs_brake_pressed := so_refresh S now (vs_brake_pressed v)\<rparr>"

definition apply_freshness_policy :: "'s signal_ops \<Rightarrow> vehicle_freshness_policy \<Rightarrow> 's vehicle_state \<Rightarrow> 's vehicle_state" where
  "apply_freshness_policy S p v = v\<lparr>
     vs_speed_kph := so_timeout S (vp_speed_kph p) (vs_speed_kph v),
     vs_engine_rpm := so_timeout S (vp_engine_rpm p) (vs_engine_rpm v),
     vs_accelerator_pedal_position := so_timeout S (vp_accelerator_pedal_position p) (vs_accelerator_pedal_position v),
     vs_brake_pressure_bar := so_timeout S (vp_brake_pressure p) (vs_brake_pressure_bar v),
     vs_longitudinal_acceleration_mps2 := so_timeout S (vp_longitudinal_acceleration_mps2 p) (vs_longitudinal_acceleration_mps2 v),
     vs_lateral_acceleration_mps2 := so_timeout S (vp_lateral_acceleration_mps2 p) (vs_lateral_acceleration_mps2 v),
     vs_selector_position := so_timeout S (vp_selector_position p) (vs_selector_position v),
     vs_actual_gear := so_timeout S (vp_actual_gear p) (vs_actual_gear v),
     vs_liftgate_open := so_timeout S (vp_liftgate_open p) (vs_liftgate_open v),
     vs_rear_right_door_open := so_timeout S (vp_rear_right_door_open p) (vs_rear_right_door_open v),
     vs_rear_left_door_open := so_timeout S (vp_rear_left_door_open p) (vs_rear_left_door_open v),
     vs_front_left_door_open_rhd := so_timeout S (vp_front_left_door_open_rhd p) (vs_front_left_door_open_rhd v),
     vs_front_right_door_open_rhd := so_timeout S (vp_front_right_door_open_rhd p) (vs_front_right_door_open_rhd v),
     vs_doors_unlocked := so_timeout S (vp_doors_unlocked p) (vs_doors_unlocked v),
     vs_left_indicator_lamp := so_timeout S (vp_left_indicator_lamp p) (vs_left_indicator_lamp v),
     vs_right_indicator_lamp := so_timeout S (vp_right_indicator_lamp p) (vs_right_indicator_lamp v),
     vs_wiper_low := so_timeout S (vp_wiper_low p) (vs_wiper_low v),
     vs_front_wiper := so_timeout S (vp_front_wiper p) (vs_front_wiper v),
     vs_turn_state := so_timeout S (vp_turn_state p) (vs_turn_state v),
     vs_hazard_request := so_timeout S (vp_hazard_request p) (vs_hazard_request v),
     vs_left_turn_request := so_timeout S (vp_left_turn_request p) (vs_left_turn_request v),
     vs_right_turn_request := so_timeout S (vp_right_turn_request p) (vs_right_turn_request v),
     vs_brake_pressed := so_timeout S (vp_brake_pressed p) (vs_brake_pressed v)\<rparr>"

definition state_snapshot :: "'s signal_ops \<Rightarrow> timestamp \<Rightarrow> 's vehicle_state \<Rightarrow> 's vehicle_state" where
  "state_snapshot S now v = (state_refresh S now v)\<lparr>vs_timestamp := now\<rparr>"

definition policy_snapshot :: "'s signal_ops \<Rightarrow> timestamp \<Rightarrow> vehicle_freshness_policy \<Rightarrow> 's vehicle_state \<Rightarrow> 's vehicle_state" where
  "policy_snapshot S now p v = state_snapshot S now (apply_freshness_policy S p v)"

text \<open>The owner of one state, with the policy of its snapshots; the clock's reading is an argument.\<close>

record 's state_store =
  sst_policy :: vehicle_freshness_policy
  sst_state :: "'s vehicle_state"

definition store_new :: "'s signal_ops \<Rightarrow> vehicle_freshness_policy \<Rightarrow> 's state_store" where
  "store_new S p = \<lparr>sst_policy = p, sst_state = vehicle_state_new S\<rparr>"

definition store_snapshot :: "'s signal_ops \<Rightarrow> timestamp \<Rightarrow> 's state_store \<Rightarrow> 's vehicle_state" where
  "store_snapshot S now st = policy_snapshot S now (sst_policy st) (sst_state st)"

section \<open>Turn state\<close>

definition effective_turn_state :: "'s signal_ops \<Rightarrow> 's vehicle_state \<Rightarrow> turn_state" where
  "effective_turn_state S v = (if so_valid S (vs_turn_state v) then so_turn S (vs_turn_state v) else TurnUnknown)"

definition update_turn ::
  "'s signal_ops \<Rightarrow> turn_state \<Rightarrow> timestamp \<Rightarrow> 's vehicle_state \<Rightarrow> turn_edge_event option \<times> 's vehicle_state" where
  "update_turn S state ts v = (if so_has_value S (vs_turn_state v) \<and> ts \<le> so_last_update S (vs_turn_state v) then (None, v)
     else let v1 = v\<lparr>vs_turn_state := so_refresh S ts (vs_turn_state v)\<rparr>;
         previous = effective_turn_state S v1;
         (updated, turn) = so_update S (CoreTurn state) ts (vs_turn_state v1);
         v2 = v1\<lparr>vs_turn_state := turn\<rparr>
       in if \<not> updated then (None, v2)
       else let v3 = v2\<lparr>vs_timestamp := max (vs_timestamp v2) ts\<rparr> in
         if previous = state then (None, v3)
         else (Some \<lparr>te_previous = previous, te_current = state, te_timestamp = ts\<rparr>, v3))"

section \<open>Messages\<close>

definition same_frame :: "can_frame \<Rightarrow> message_record \<Rightarrow> bool" where
  "same_frame f m = (mr_has_frame m \<and> rf_identifier f = mr_identifier m \<and> rf_bus f = mr_bus m \<and> rf_dlc f = mr_dlc m
     \<and> rf_standard f = mr_standard m \<and> rf_remote f = mr_remote m \<and> rf_data f = mr_data m)"

definition copy_frame :: "can_frame \<Rightarrow> message_record \<Rightarrow> message_record" where
  "copy_frame f m = m\<lparr>mr_identifier := rf_identifier f, mr_has_frame := True, mr_last_frame := rf_timestamp f, mr_bus := rf_bus f,
     mr_dlc := rf_dlc f, mr_standard := rf_standard f, mr_remote := rf_remote f, mr_data := rf_data f\<rparr>"

definition find_or_allocate_record :: "u32 \<Rightarrow> message_record list \<Rightarrow> (nat \<times> message_record list) option" where
  "find_or_allocate_record identifier ms = (case find_index (\<lambda>m. mr_has_frame m \<and> mr_identifier m = identifier) ms of
       Some i \<Rightarrow> Some (i, ms)
     | None \<Rightarrow> (case find_index (\<lambda>m. \<not> mr_has_frame m) ms of
         Some i \<Rightarrow> Some (i, ms[i := (ms ! i)\<lparr>mr_identifier := identifier\<rparr>])
       | None \<Rightarrow> None))"

definition newer_frame :: "can_frame \<Rightarrow> message_record \<Rightarrow> bool" where
  "newer_frame f m = (\<not> mr_has_frame m \<or> mr_last_frame m < rf_timestamp f)"

definition observe_record :: "can_frame \<Rightarrow> decode_validity \<Rightarrow> message_record \<Rightarrow> observation_result \<times> message_record" where
  "observe_record f validity m = (if validity = DvMalformed then
       (if newer_frame f m then (ObsAccepted, (copy_frame f m)\<lparr>mr_health := MhFaulted, mr_fault := Some (rf_timestamp f)\<rparr>)
        else if rf_timestamp f < mr_last_frame m then (ObsRejectedOlder, m)
        else (if mr_health m = MhFaulted \<and> same_frame f m then ObsIdempotent else ObsRejectedConflict, m))
     else if newer_frame f m then (ObsAccepted, (copy_frame f m)\<lparr>mr_health := MhHealthy, mr_has_accepted := True,
         mr_last_accepted := rf_timestamp f, mr_fault := None\<rparr>)
     else if rf_timestamp f < mr_last_frame m then (ObsRejectedOlder, m)
     else if mr_health m = MhFaulted then (ObsRejectedConflict, m)
     else (if same_frame f m then ObsIdempotent else ObsRejectedConflict, m))"

definition observe_message ::
  "can_frame \<Rightarrow> decode_validity \<Rightarrow> 's vehicle_state \<Rightarrow> observation_result \<times> 's vehicle_state" where
  "observe_message f validity v = (if validity = DvIgnored then (ObsIgnored, v)
     else case find_or_allocate_record (rf_identifier f) (vs_messages v) of None \<Rightarrow> (ObsCapacityExceeded, v)
     | Some (i, ms) \<Rightarrow> (case observe_record f validity (ms ! i) of (r, m) \<Rightarrow> (r, v\<lparr>vs_messages := ms[i := m]\<rparr>)))"

definition message_health_for :: "u32 \<Rightarrow> 's vehicle_state \<Rightarrow> message_record option" where
  "message_health_for identifier v = List.find (\<lambda>m. mr_has_frame m \<and> mr_identifier m = identifier) (vs_messages v)"

definition state_health_observation :: "'s signal_ops \<Rightarrow> u32 \<Rightarrow> transport_health \<Rightarrow> 's vehicle_state \<Rightarrow> health_observation" where
  "state_health_observation S identifier transport v = (let result = (so_health S)\<lparr>ho_transport := transport\<rparr> in
     case message_health_for identifier v of None \<Rightarrow> result
     | Some m \<Rightarrow> result\<lparr>ho_message := mr_health m, ho_last_frame := (if mr_has_frame m then Some (mr_last_frame m) else None),
         ho_last_accepted := (if mr_has_accepted m then Some (mr_last_accepted m) else None), ho_fault := mr_fault m\<rparr>)"

section \<open>Availability\<close>

definition mazda_status_at :: "'s signal_ops \<Rightarrow> 's \<Rightarrow> timestamp \<Rightarrow> message_health \<Rightarrow> transport_health \<Rightarrow> availability" where
  "mazda_status_at S signal now message transport = (if transport = TrStopped \<or> transport = TrFaulted \<or> transport = TrTimedOut then Unavailable
     else if \<not> so_has_value S signal then NoData
     else if message = MhFaulted then Unavailable
     else so_status S now signal)"

definition health_status_at :: "'s signal_ops \<Rightarrow> 's \<Rightarrow> timestamp \<Rightarrow> health_observation \<Rightarrow> availability" where
  "health_status_at S signal now health = (if ho_signal health = ShUnavailable \<and> so_has_value S signal then Unavailable
     else mazda_status_at S signal now (ho_message health) (ho_transport health))"

definition state_status_at :: "'s signal_ops \<Rightarrow> 's \<Rightarrow> u32 \<Rightarrow> timestamp \<Rightarrow> transport_health \<Rightarrow> 's vehicle_state \<Rightarrow> availability" where
  "state_status_at S signal identifier now transport v = (let message = (case message_health_for identifier v of
       None \<Rightarrow> MhHealthy | Some m \<Rightarrow> mr_health m) in mazda_status_at S signal now message transport)"

end
