(* ===== verification/Mazda_Decode.thy ===== *)
theory Mazda_Decode
  imports Mazda_State
begin

text \<open>
  The Mazda message decoders (\<open>lib/mazda/src/mazda_candidate.cpp\<close>) and the table of the reviewed signal definitions
  (\<open>lib/mazda/include/mazda/definitions.hpp\<close>). The observation and health a caller may pass are results here; the
  transport health a caller has put into its health observation is an argument.
\<close>

section \<open>Definitions\<close>

definition engine_data_id :: u32 where "engine_data_id = 0x202"
definition gear_id :: u32 where "gear_id = 0x228"
definition doors_id :: u32 where "doors_id = 0x43E"
definition turn_switch_id :: u32 where "turn_switch_id = 0x091"
definition blink_info_id :: u32 where "blink_info_id = 0x09A"
definition acceleration_id :: u32 where "acceleration_id = 0x078"
definition brake_pedal_id :: u32 where "brake_pedal_id = 0x165"
definition candidate_dlc :: u8 where "candidate_dlc = 8"

datatype byte_order = Motorola | Intel

text \<open>
  \<open>CandidateSignalDefinition\<close>: where a signal is, its scale and its range, as \<open>float\<close> bit patterns. The unit, the texts
  and the confidence, which document the field, are left out.
\<close>

record signal_definition =
  sd_name :: string
  sd_identifier :: u32
  sd_start_bit :: nat
  sd_bit_length :: nat
  sd_scale :: f32
  sd_offset :: f32
  sd_minimum :: f32
  sd_maximum :: f32
  sd_dbc_start_bit :: nat
  sd_byte_order :: byte_order

definition bit_definition :: "string \<Rightarrow> u32 \<Rightarrow> nat \<Rightarrow> nat \<Rightarrow> byte_order \<Rightarrow> signal_definition" where
  "bit_definition name identifier b dbc order = \<lparr>sd_name = name, sd_identifier = identifier, sd_start_bit = b, sd_bit_length = 1,
     sd_scale = 0x3F800000, sd_offset = 0, sd_minimum = 0, sd_maximum = 0x3F800000, sd_dbc_start_bit = dbc, sd_byte_order = order\<rparr>"

definition field_definition :: "string \<Rightarrow> u32 \<Rightarrow> nat \<Rightarrow> nat \<Rightarrow> f32 \<Rightarrow> f32 \<Rightarrow> f32 \<Rightarrow> f32 \<Rightarrow> nat \<Rightarrow> signal_definition" where
  "field_definition name identifier start len scale offset lo hi dbc = \<lparr>sd_name = name, sd_identifier = identifier, sd_start_bit = start,
     sd_bit_length = len, sd_scale = scale, sd_offset = offset, sd_minimum = lo, sd_maximum = hi, sd_dbc_start_bit = dbc,
     sd_byte_order = Motorola\<rparr>"

definition longitudinal_definition :: signal_definition where
  "longitudinal_definition = field_definition ''VEHICLE_ACC_X'' acceleration_id 0 13 0x3C23D70A 0xC2200000 0xC2200000 0x42200000 5"

definition lateral_definition :: signal_definition where
  "lateral_definition = field_definition ''VEHICLE_ACC_Y'' acceleration_id 8 13 0x3A83126F 0xC083126F 0xC083126F 0x4083126F 8"

definition brake_pressure_definition :: signal_definition where
  "brake_pressure_definition = field_definition ''BrakePressureRaw'' acceleration_id 24 17 0x3A83126F 0xC2200000 0 0x42B6245A 24"

definition engine_rpm_definition :: signal_definition where
  "engine_rpm_definition = field_definition ''EngineRPM'' engine_data_id 0 16 0x3E800000 0 0 0x4604D000 7"

text \<open>Its DBC start bit is a placeholder: the reviewed DBC has no such field.\<close>

definition speed_definition :: signal_definition where
  "speed_definition = field_definition ''SPEED'' engine_data_id 16 16 0x3C23D70A 0 0 0x4423D666 0"

definition accelerator_definition :: signal_definition where
  "accelerator_definition = field_definition ''AcceleratorPedal_Reference'' engine_data_id 32 16 0x3ACCCCCD 0 0 0x42C80000 39"

definition selector_definition :: signal_definition where
  "selector_definition = field_definition ''Selector'' gear_id 0 3 0x3F800000 0 0 0x40E00000 2"

definition actual_gear_definition :: signal_definition where
  "actual_gear_definition = field_definition ''ActualGear'' gear_id 33 4 0x3F800000 0 0 0x41700000 36"

definition front_wiper_definition :: signal_definition where
  "front_wiper_definition = field_definition ''FrontWiper'' turn_switch_id 20 2 0x3F800000 0 0 0x40400000 21"

definition liftgate_open_definition :: signal_definition where
  "liftgate_open_definition = bit_definition ''Liftgate_Open'' doors_id 32 32 Motorola"

definition rear_right_door_definition :: signal_definition where
  "rear_right_door_definition = bit_definition ''RearRightDoor_Open'' doors_id 34 34 Motorola"

definition rear_left_door_definition :: signal_definition where
  "rear_left_door_definition = bit_definition ''RearLeftDoor_Open'' doors_id 35 35 Motorola"

definition front_left_door_definition :: signal_definition where
  "front_left_door_definition = bit_definition ''FrontLeftDoor_Open_RHD'' doors_id 36 36 Motorola"

definition front_right_door_definition :: signal_definition where
  "front_right_door_definition = bit_definition ''FrontRightDoor_Open_RHD'' doors_id 37 37 Motorola"

definition doors_unlocked_definition :: signal_definition where
  "doors_unlocked_definition = bit_definition ''DoorsUnlocked'' doors_id 30 30 Motorola"

definition left_lamp_definition :: signal_definition where
  "left_lamp_definition = bit_definition ''LeftIndicatorLamp'' blink_info_id 18 18 Intel"

definition right_lamp_definition :: signal_definition where
  "right_lamp_definition = bit_definition ''RightIndicatorLamp'' blink_info_id 19 19 Motorola"

definition wiper_low_definition :: signal_definition where
  "wiper_low_definition = bit_definition ''WiperLow'' blink_info_id 33 33 Motorola"

definition hazard_definition :: signal_definition where
  "hazard_definition = bit_definition ''HazardSwitch'' turn_switch_id 10 10 Motorola"

definition turn_right_definition :: signal_definition where
  "turn_right_definition = bit_definition ''RightIndicatorSwitch'' turn_switch_id 12 12 Motorola"

definition turn_left_definition :: signal_definition where
  "turn_left_definition = bit_definition ''LeftIndicatorSwitch'' turn_switch_id 13 13 Motorola"

definition brake_pressed_definition :: signal_definition where
  "brake_pressed_definition = bit_definition ''BrakePressed'' brake_pedal_id 4 4 Motorola"

section \<open>Classification\<close>

record decoder_observation =
  dx_validity :: decode_validity
  dx_timestamp :: timestamp
  dx_identifier :: u32
  dx_bus :: u8
  dx_dlc :: u8

definition initialize_observation :: "can_frame \<Rightarrow> decoder_observation" where
  "initialize_observation f = \<lparr>dx_validity = DvIgnored, dx_timestamp = rf_timestamp f, dx_identifier = rf_identifier f, dx_bus = rf_bus f,
     dx_dlc = rf_dlc f\<rparr>"

definition finish_observation :: "decode_validity \<Rightarrow> decoder_observation \<Rightarrow> decoder_observation" where
  "finish_observation status obs = obs\<lparr>dx_validity := status\<rparr>"

definition finish_health ::
  "'s signal_ops \<Rightarrow> u32 \<Rightarrow> signal_health \<Rightarrow> transport_health \<Rightarrow> 's vehicle_state \<Rightarrow> health_observation" where
  "finish_health S identifier signal transport v = (state_health_observation S identifier transport v)\<lparr>ho_signal := signal\<rparr>"

definition record_malformed :: "can_frame \<Rightarrow> u32 \<Rightarrow> 's vehicle_state \<Rightarrow> 's vehicle_state" where
  "record_malformed f identifier v = (if rf_identifier f = identifier then snd (observe_message f DvMalformed v) else v)"

definition record_healthy :: "can_frame \<Rightarrow> u32 \<Rightarrow> 's vehicle_state \<Rightarrow> observation_result \<times> 's vehicle_state" where
  "record_healthy f identifier v = (if rf_identifier f \<noteq> identifier then (ObsIgnored, v) else observe_message f DvDecoded v)"

definition classify_frame :: "can_frame \<Rightarrow> u32 \<Rightarrow> decode_validity" where
  "classify_frame f identifier = (if \<not> rf_valid f then DvMalformed
     else if rf_identifier f \<noteq> identifier \<or> \<not> rf_standard f \<or> rf_remote f then DvIgnored
     else if rf_dlc f \<noteq> candidate_dlc then DvMalformed
     else DvDecoded)"

definition big_endian_u16 :: "u8 list \<Rightarrow> nat \<Rightarrow> u16" where
  "big_endian_u16 data offset = push_bit 8 (ucast (data ! offset)) OR ucast (data ! (offset + 1))"

definition selector_from_raw :: "u8 \<Rightarrow> selector_position" where
  "selector_from_raw raw = (if raw = 0 then SelShifting else if raw = 1 then SelPark else if raw = 2 then SelReverse
     else if raw = 3 then SelNeutral else if raw = 4 then SelDrive else SelUnknown)"

definition actual_gear_from_raw :: "u8 \<Rightarrow> actual_gear" where
  "actual_gear_from_raw raw = (if raw = 0 then GearParkOrNeutral else if raw = 1 then GearFirst else if raw = 2 then GearSecond
     else if raw = 3 then GearThird else if raw = 4 then GearFourth else if raw = 5 then GearFifth else if raw = 6 then GearSixth
     else if raw = 14 then GearReverse else if raw = 15 then GearShifting else GearUnknown)"

definition front_wiper_from_raw :: "u8 \<Rightarrow> front_wiper_position" where
  "front_wiper_from_raw raw = (if raw = 0 then WiperOff else if raw = 1 then WiperOn else if raw = 2 then WiperHigh
     else if raw = 3 then WiperIntermittent else WiperUnknown)"

definition normalize_turn :: "bool \<Rightarrow> bool \<Rightarrow> bool \<Rightarrow> turn_state" where
  "normalize_turn hazard left right = (if hazard then TurnHazard else if left \<and> right then TurnUnknown
     else if left then TurnLeft else if right then TurnRight else TurnOff)"

section \<open>Decoders\<close>

record decoder_output =
  do_status :: decode_validity
  do_edge :: "turn_edge_event option"
  do_observation :: decoder_observation
  do_health :: health_observation

text \<open>A decoder's return with the health it leaves.\<close>

definition decoder_return :: "'s signal_ops \<Rightarrow> can_frame \<Rightarrow> u32 \<Rightarrow> transport_health \<Rightarrow> decode_validity \<Rightarrow> signal_health
    \<Rightarrow> turn_edge_event option \<Rightarrow> 's vehicle_state \<Rightarrow> decoder_output \<times> 's vehicle_state" where
  "decoder_return S f identifier transport status signal edge v =
     (\<lparr>do_status = status, do_edge = edge, do_observation = finish_observation status (initialize_observation f),
       do_health = finish_health S identifier signal transport v\<rparr>, v)"

text \<open>The part before a message's fields, the same in every decoder.\<close>

definition refuse_frame :: "'s signal_ops \<Rightarrow> can_frame \<Rightarrow> u32 \<Rightarrow> transport_health \<Rightarrow> 's vehicle_state \<Rightarrow> decoder_output \<times> 's vehicle_state" where
  "refuse_frame S f identifier transport v = (let classification = classify_frame f identifier;
       v1 = (if classification = DvMalformed then record_malformed f identifier v else v)
     in decoder_return S f identifier transport classification ShUnavailable None v1)"

text \<open>
  The part after it: what a repeated frame's health is, what another refused one's, and what an accepted frame does
  to the state.
\<close>

definition with_accepted :: "'s signal_ops \<Rightarrow> can_frame \<Rightarrow> u32 \<Rightarrow> transport_health \<Rightarrow> ('s vehicle_state \<Rightarrow> signal_health)
    \<Rightarrow> ('s vehicle_state \<Rightarrow> signal_health) \<Rightarrow> ('s vehicle_state \<Rightarrow> signal_health)
    \<Rightarrow> ('s vehicle_state \<Rightarrow> turn_edge_event option \<times> 's vehicle_state) \<Rightarrow> 's vehicle_state \<Rightarrow> decoder_output \<times> 's vehicle_state" where
  "with_accepted S f identifier transport repeated refused after apply_fields v = (case record_healthy f identifier v of (r, v1) \<Rightarrow>
       if r = ObsIdempotent then decoder_return S f identifier transport DvDecoded (repeated v1) None v1
       else if r \<noteq> ObsAccepted then decoder_return S f identifier transport DvDecoded (refused v1) None v1
       else case apply_fields v1 of (edge, v2) \<Rightarrow> decoder_return S f identifier transport DvDecoded (after v2) edge v2)"

definition touch :: "timestamp \<Rightarrow> bool \<Rightarrow> 's vehicle_state \<Rightarrow> 's vehicle_state" where
  "touch ts updated v = (if updated \<and> vs_timestamp v < ts then v\<lparr>vs_timestamp := ts\<rparr> else v)"

definition available_if :: "bool \<Rightarrow> signal_health" where
  "available_if ok = (if ok then ShAvailable else ShUnavailable)"

text \<open>\<open>static_cast<float>\<close> of an integer.\<close>

definition f32_of_int :: "int \<Rightarrow> f32" where
  "f32_of_int n = f32_make (n < 0) (round_mag (nat \<bar>n\<bar> * 2 ^ 149) 1)"

definition rpm_value :: "u16 \<Rightarrow> f32" where
  "rpm_value raw = f32_mul (f32_of_int (uint raw)) 0x3E800000"

definition speed_value :: "u16 \<Rightarrow> f32" where
  "speed_value raw = f32_mul (f32_of_int (uint raw)) 0x3C23D70A"

definition accelerator_value :: "u16 \<Rightarrow> f32" where
  "accelerator_value raw = f32_div (f32_of_int (uint raw)) 0x477A0000"

definition engine_fields :: "'s signal_ops \<Rightarrow> can_frame \<Rightarrow> 's vehicle_state \<Rightarrow> 's vehicle_state" where
  "engine_fields S f v = (let ts = rf_timestamp f; accelerator_raw = big_endian_u16 (rf_data f) 4;
       (u1, rpm) = so_update S (CoreFloat (rpm_value (big_endian_u16 (rf_data f) 0))) ts (vs_engine_rpm v);
       (u2, speed) = so_update S (CoreFloat (speed_value (big_endian_u16 (rf_data f) 2))) ts (vs_speed_kph v);
       (u3, accelerator) = (if 64000 < accelerator_raw then so_invalidate S ts (vs_accelerator_pedal_position v)
         else so_update S (CoreFloat (accelerator_value accelerator_raw)) ts (vs_accelerator_pedal_position v))
     in touch ts (u1 \<or> u2 \<or> u3) (v\<lparr>vs_engine_rpm := rpm, vs_speed_kph := speed, vs_accelerator_pedal_position := accelerator\<rparr>))"

definition decode_engine_data :: "'s signal_ops \<Rightarrow> can_frame \<Rightarrow> transport_health \<Rightarrow> 's vehicle_state \<Rightarrow> decoder_output \<times> 's vehicle_state" where
  "decode_engine_data S f transport v = (if classify_frame f engine_data_id \<noteq> DvDecoded then refuse_frame S f engine_data_id transport v
     else if 34000 < big_endian_u16 (rf_data f) 0
       then decoder_return S f engine_data_id transport DvMalformed ShUnavailable None (snd (observe_message f DvMalformed v))
     else let known = (\<lambda>v. if so_has_value S (vs_engine_rpm v) then ShAvailable else ShNoData) in
       with_accepted S f engine_data_id transport known known (\<lambda>_. ShAvailable) (\<lambda>v. (None, engine_fields S f v)) v)"

definition gear_fields :: "'s signal_ops \<Rightarrow> can_frame \<Rightarrow> 's vehicle_state \<Rightarrow> 's vehicle_state" where
  "gear_fields S f v = (let ts = rf_timestamp f;
       selector = selector_from_raw (rf_data f ! 0 AND 0x07);
       gear = actual_gear_from_raw (drop_bit 1 (rf_data f ! 4) AND 0x0F);
       (u1, s1) = (if selector = SelUnknown then so_invalidate S ts (vs_selector_position v)
         else so_update S (CoreSelector selector) ts (vs_selector_position v));
       (u2, s2) = (if gear = GearUnknown then so_invalidate S ts (vs_actual_gear v) else so_update S (CoreGear gear) ts (vs_actual_gear v))
     in touch ts (u1 \<or> u2) (v\<lparr>vs_selector_position := s1, vs_actual_gear := s2\<rparr>))"

definition gear_known :: "'s signal_ops \<Rightarrow> 's vehicle_state \<Rightarrow> signal_health" where
  "gear_known S v = available_if (so_valid S (vs_selector_position v) \<and> so_valid S (vs_actual_gear v))"

definition decode_gear :: "'s signal_ops \<Rightarrow> can_frame \<Rightarrow> transport_health \<Rightarrow> 's vehicle_state \<Rightarrow> decoder_output \<times> 's vehicle_state" where
  "decode_gear S f transport v = (if classify_frame f gear_id \<noteq> DvDecoded then refuse_frame S f gear_id transport v
     else with_accepted S f gear_id transport (gear_known S) (\<lambda>_. ShUnavailable) (gear_known S) (\<lambda>v. (None, gear_fields S f v)) v)"

definition data_bit :: "can_frame \<Rightarrow> nat \<Rightarrow> u8 \<Rightarrow> bool" where
  "data_bit f byte m = (rf_data f ! byte AND m \<noteq> 0)"

definition doors_fields :: "'s signal_ops \<Rightarrow> can_frame \<Rightarrow> 's vehicle_state \<Rightarrow> 's vehicle_state" where
  "doors_fields S f v = (let ts = rf_timestamp f;
       (u1, s1) = so_update S (CoreBool (data_bit f 4 0x01)) ts (vs_liftgate_open v);
       (u2, s2) = so_update S (CoreBool (data_bit f 4 0x04)) ts (vs_rear_right_door_open v);
       (u3, s3) = so_update S (CoreBool (data_bit f 4 0x08)) ts (vs_rear_left_door_open v);
       (u4, s4) = so_update S (CoreBool (data_bit f 4 0x10)) ts (vs_front_left_door_open_rhd v);
       (u5, s5) = so_update S (CoreBool (data_bit f 4 0x20)) ts (vs_front_right_door_open_rhd v);
       (u6, s6) = so_update S (CoreBool (data_bit f 3 0x40)) ts (vs_doors_unlocked v)
     in touch ts (u1 \<or> u2 \<or> u3 \<or> u4 \<or> u5 \<or> u6) (v\<lparr>vs_liftgate_open := s1, vs_rear_right_door_open := s2, vs_rear_left_door_open := s3,
          vs_front_left_door_open_rhd := s4, vs_front_right_door_open_rhd := s5, vs_doors_unlocked := s6\<rparr>))"

definition decode_doors :: "'s signal_ops \<Rightarrow> can_frame \<Rightarrow> transport_health \<Rightarrow> 's vehicle_state \<Rightarrow> decoder_output \<times> 's vehicle_state" where
  "decode_doors S f transport v = (if classify_frame f doors_id \<noteq> DvDecoded then refuse_frame S f doors_id transport v
     else with_accepted S f doors_id transport (\<lambda>_. ShAvailable) (\<lambda>_. ShUnavailable) (\<lambda>_. ShAvailable) (\<lambda>v. (None, doors_fields S f v)) v)"

definition blink_fields :: "'s signal_ops \<Rightarrow> can_frame \<Rightarrow> 's vehicle_state \<Rightarrow> 's vehicle_state" where
  "blink_fields S f v = (let ts = rf_timestamp f;
       (u1, s1) = so_update S (CoreBool (data_bit f 2 0x04)) ts (vs_left_indicator_lamp v);
       (u2, s2) = so_update S (CoreBool (data_bit f 2 0x08)) ts (vs_right_indicator_lamp v);
       (u3, s3) = so_update S (CoreBool (data_bit f 4 0x02)) ts (vs_wiper_low v)
     in touch ts (u1 \<or> u2 \<or> u3) (v\<lparr>vs_left_indicator_lamp := s1, vs_right_indicator_lamp := s2, vs_wiper_low := s3\<rparr>))"

definition decode_blink_info :: "'s signal_ops \<Rightarrow> can_frame \<Rightarrow> transport_health \<Rightarrow> 's vehicle_state \<Rightarrow> decoder_output \<times> 's vehicle_state" where
  "decode_blink_info S f transport v = (if classify_frame f blink_info_id \<noteq> DvDecoded then refuse_frame S f blink_info_id transport v
     else with_accepted S f blink_info_id transport (\<lambda>_. ShAvailable) (\<lambda>_. ShUnavailable) (\<lambda>_. ShAvailable)
       (\<lambda>v. (None, blink_fields S f v)) v)"

definition turn_switch_fields :: "'s signal_ops \<Rightarrow> can_frame \<Rightarrow> 's vehicle_state \<Rightarrow> turn_edge_event option \<times> 's vehicle_state" where
  "turn_switch_fields S f v = (let ts = rf_timestamp f;
       hazard = data_bit f 1 0x04; right = data_bit f 1 0x10; left = data_bit f 1 0x20;
       wiper = front_wiper_from_raw (drop_bit 4 (rf_data f ! 2) AND 0x03);
       (edge, v1) = update_turn S (normalize_turn hazard left right) ts v;
       (u1, s1) = so_update S (CoreBool hazard) ts (vs_hazard_request v1);
       (u2, s2) = so_update S (CoreBool left) ts (vs_left_turn_request v1);
       (u3, s3) = so_update S (CoreBool right) ts (vs_right_turn_request v1);
       (u4, s4) = so_update S (CoreWiper wiper) ts (vs_front_wiper v1)
     in (edge, touch ts (edge \<noteq> None \<or> u1 \<or> u2 \<or> u3 \<or> u4)
       (v1\<lparr>vs_hazard_request := s1, vs_left_turn_request := s2, vs_right_turn_request := s3, vs_front_wiper := s4\<rparr>)))"

definition decode_turn_switch :: "'s signal_ops \<Rightarrow> can_frame \<Rightarrow> transport_health \<Rightarrow> 's vehicle_state \<Rightarrow> decoder_output \<times> 's vehicle_state" where
  "decode_turn_switch S f transport v = (let known = (\<lambda>v. available_if (so_valid S (vs_turn_state v))) in
     if classify_frame f turn_switch_id \<noteq> DvDecoded then refuse_frame S f turn_switch_id transport v
     else with_accepted S f turn_switch_id transport known (\<lambda>_. ShUnavailable) known (turn_switch_fields S f) v)"

definition brake_fields :: "'s signal_ops \<Rightarrow> can_frame \<Rightarrow> 's vehicle_state \<Rightarrow> 's vehicle_state" where
  "brake_fields S f v = (let ts = rf_timestamp f; (u, s) = so_update S (CoreBool (data_bit f 0 0x10)) ts (vs_brake_pressed v)
     in touch ts u (v\<lparr>vs_brake_pressed := s\<rparr>))"

definition decode_brake_pedal :: "'s signal_ops \<Rightarrow> can_frame \<Rightarrow> transport_health \<Rightarrow> 's vehicle_state \<Rightarrow> decoder_output \<times> 's vehicle_state" where
  "decode_brake_pedal S f transport v = (if classify_frame f brake_pedal_id \<noteq> DvDecoded then refuse_frame S f brake_pedal_id transport v
     else with_accepted S f brake_pedal_id transport (\<lambda>v. available_if (so_valid S (vs_brake_pressed v))) (\<lambda>_. ShUnavailable) (\<lambda>_. ShAvailable)
       (\<lambda>v. (None, brake_fields S f v)) v)"

definition raw_x :: "u8 list \<Rightarrow> u16" where
  "raw_x d = push_bit 7 (ucast (d ! 0 AND 0x3F)) OR ucast (drop_bit 1 (d ! 1))"

definition raw_y :: "u8 list \<Rightarrow> u16" where
  "raw_y d = push_bit 12 (ucast (d ! 1 AND 0x01)) OR push_bit 4 (ucast (d ! 2)) OR ucast (drop_bit 4 (d ! 3))"

definition pressure_raw :: "u8 list \<Rightarrow> u32" where
  "pressure_raw d = push_bit 16 (ucast (d ! 3 AND 0x01)) OR push_bit 8 (ucast (d ! 4)) OR ucast (d ! 5)"

definition acceleration_fields :: "'s signal_ops \<Rightarrow> can_frame \<Rightarrow> 's vehicle_state \<Rightarrow> 's vehicle_state" where
  "acceleration_fields S f v = (let ts = rf_timestamp f; d = rf_data f;
       pressure_bar = f32_div (f32_of_int (uint (pressure_raw d) - 40000)) 0x447A0000;
       longitudinal = f32_div (f32_of_int (uint (raw_x d) - 4000)) 0x42C80000;
       lateral = f32_div (f32_of_int (uint (raw_y d) - 4096)) 0x447A0000;
       (u1, s1) = so_update S (CoreFloat longitudinal) ts (vs_longitudinal_acceleration_mps2 v);
       (u2, s2) = so_update S (CoreFloat lateral) ts (vs_lateral_acceleration_mps2 v);
       (u3, s3) = (if f32_lt pressure_bar 0 then so_invalidate S ts (vs_brake_pressure_bar v)
         else so_update S (CoreFloat pressure_bar) ts (vs_brake_pressure_bar v))
     in touch ts (u1 \<or> u2 \<or> u3) (v\<lparr>vs_longitudinal_acceleration_mps2 := s1, vs_lateral_acceleration_mps2 := s2, vs_brake_pressure_bar := s3\<rparr>))"

definition decode_acceleration :: "'s signal_ops \<Rightarrow> can_frame \<Rightarrow> transport_health \<Rightarrow> 's vehicle_state \<Rightarrow> decoder_output \<times> 's vehicle_state" where
  "decode_acceleration S f transport v = (if classify_frame f acceleration_id \<noteq> DvDecoded then refuse_frame S f acceleration_id transport v
     else with_accepted S f acceleration_id transport
       (\<lambda>v. available_if (so_valid S (vs_longitudinal_acceleration_mps2 v) \<and> so_valid S (vs_lateral_acceleration_mps2 v)))
       (\<lambda>_. ShUnavailable) (\<lambda>_. ShAvailable) (\<lambda>v. (None, acceleration_fields S f v)) v)"

definition mazda_decode :: "'s signal_ops \<Rightarrow> can_frame \<Rightarrow> transport_health \<Rightarrow> 's vehicle_state \<Rightarrow> decoder_output \<times> 's vehicle_state" where
  "mazda_decode S f transport v = (let identifier = rf_identifier f;
       ignored = (\<lparr>do_status = DvIgnored, do_edge = None, do_observation = initialize_observation f,
         do_health = finish_health S brake_pedal_id ShUnavailable transport v\<rparr>, v) in
     if \<not> rf_valid f then (if identifier = acceleration_id then decode_acceleration S f transport v else decode_engine_data S f transport v)
     else if \<not> rf_standard f \<or> rf_remote f then (if identifier = acceleration_id then decode_acceleration S f transport v else ignored)
     else if identifier = engine_data_id then decode_engine_data S f transport v
     else if identifier = gear_id then decode_gear S f transport v
     else if identifier = doors_id then decode_doors S f transport v
     else if identifier = blink_info_id then decode_blink_info S f transport v
     else if identifier = turn_switch_id then decode_turn_switch S f transport v
     else if identifier = brake_pedal_id then decode_brake_pedal S f transport v
     else if identifier = acceleration_id then decode_acceleration S f transport v
     else ignored)"

end
