(* ===== verification/Mazda_Laws.thy ===== *)
theory Mazda_Laws
  imports Mazda_Decode
begin

text \<open>
  The Mazda decoders read the fields of the reviewed DBC definitions, and the newest frame of a message decides its
  health whatever comes late, twice or damaged.
\<close>

section \<open>The DBC reading of a field\<close>

text \<open>
  The coordinates of a field, most significant bit first: a Motorola field walks the sawtooth from its DBC start bit,
  an Intel field counts down to it. Its raw value is the number these bits write.
\<close>

definition motorola_next :: "nat \<Rightarrow> nat" where
  "motorola_next p = (if p mod 8 = 0 then p + 15 else p - 1)"

fun motorola_bits :: "nat \<Rightarrow> nat \<Rightarrow> nat list" where
  "motorola_bits p 0 = []"
| "motorola_bits p (Suc n) = p # motorola_bits (motorola_next p) n"

definition field_bits :: "signal_definition \<Rightarrow> nat list" where
  "field_bits d = (case sd_byte_order d of Motorola \<Rightarrow> motorola_bits (sd_dbc_start_bit d) (sd_bit_length d)
     | Intel \<Rightarrow> rev [sd_dbc_start_bit d..<sd_dbc_start_bit d + sd_bit_length d])"

definition bits_value :: "bool list \<Rightarrow> nat" where
  "bits_value bs = foldl (\<lambda>a b. 2 * a + of_bool b) 0 bs"

definition dbc_raw :: "signal_definition \<Rightarrow> u8 list \<Rightarrow> nat" where
  "dbc_raw d data = bits_value (map (\<lambda>p. bit (data ! (p div 8)) (p mod 8)) (field_bits d))"

lemma bits_value_Cons: "bits_value (b # bs) = of_bool b * 2 ^ length bs + bits_value bs"
proof -
  have "foldl (\<lambda>a b. 2 * a + of_bool b) x bs = x * 2 ^ length bs + foldl (\<lambda>a b. 2 * a + of_bool b) 0 bs" for x :: nat and bs
  proof (induction bs arbitrary: x)
    case (Cons b bs)
    show ?case using Cons.IH [of "2 * x + of_bool b"] Cons.IH [of "of_bool b"] by (simp add: algebra_simps)
  qed simp
  from this [of "of_bool b" bs] show ?thesis by (simp add: bits_value_def)
qed

lemma bits_value_False: "bits_value (False # bs) = bits_value bs"
  by (simp add: bits_value_Cons)

lemma bits_value_word: "bits_value (map (bit w) (rev [0..<n])) = unat (take_bit n w)" for w :: "'a::len word"
proof (induction n)
  case (Suc n)
  show ?case
    using Suc by (simp add: bits_value_Cons unsigned_take_bit_eq take_bit_Suc_from_most bit_unsigned_iff del: take_bit_Suc)
qed (simp add: bits_value_def)

lemma unat_bits: "unat w = bits_value (map (bit w) (rev [0..<LENGTH('a)]))" for w :: "'a::len word"
  by (simp only: bits_value_word take_bit_length_eq)

section \<open>The decoders read the DBC fields\<close>

lemmas definition_defs = longitudinal_definition_def lateral_definition_def brake_pressure_definition_def engine_rpm_definition_def
  speed_definition_def
  accelerator_definition_def selector_definition_def actual_gear_definition_def front_wiper_definition_def
  liftgate_open_definition_def rear_right_door_definition_def rear_left_door_definition_def front_left_door_definition_def front_right_door_definition_def doors_unlocked_definition_def left_lamp_definition_def right_lamp_definition_def wiper_low_definition_def hazard_definition_def turn_right_definition_def turn_left_definition_def brake_pressed_definition_def bit_definition_def field_definition_def

lemmas dbc_simps = definition_defs dbc_raw_def field_bits_def motorola_next_def bits_value_False

lemma mask_bits:
  "(x AND 1 = 0) = (\<not> bit x 0)" "(x AND 2 = 0) = (\<not> bit x 1)" "(x AND 4 = 0) = (\<not> bit x 2)" "(x AND 8 = 0) = (\<not> bit x 3)"
  "(x AND 16 = 0) = (\<not> bit x 4)" "(x AND 32 = 0) = (\<not> bit x 5)" "(x AND 64 = 0) = (\<not> bit x 6)" for x :: u8
  using and_exp_eq_0_iff_not_bit [of x 0] and_exp_eq_0_iff_not_bit [of x 1] and_exp_eq_0_iff_not_bit [of x 2] and_exp_eq_0_iff_not_bit [of x 3]
    and_exp_eq_0_iff_not_bit [of x 4] and_exp_eq_0_iff_not_bit [of x 5] and_exp_eq_0_iff_not_bit [of x 6] by simp_all

lemma low_bits:
  "x AND 0x3F = take_bit 6 x" "x AND 0x0F = take_bit 4 x" "x AND 0x07 = take_bit 3 x" "x AND 0x03 = take_bit 2 x" "x AND 0x01 = take_bit 1 x" for x :: u8
  by (simp_all add: take_bit_eq_mask mask_eq_exp_minus_1)

lemma bit_beyond: "8 \<le> n \<Longrightarrow> \<not> bit x n" for x :: u8
  using bit_imp_le_length [of x n] by auto

lemma even_bit: "even x = (\<not> bit x 0)" for x :: u8
  by (simp add: bit_0)

lemma bits_simps:
  "motorola_bits p (numeral k) = p # motorola_bits (motorola_next p) (pred_numeral k)"
  "rev [0..<numeral k] = pred_numeral k # rev [0..<pred_numeral k]"
  "bits_value [] = 0" "bits_value [b] = of_bool b"
  by (simp_all add: numeral_eq_Suc bits_value_def)

text \<open>The words and bits the decoders take from a payload.\<close>

lemma raw_words:
  "unat (big_endian_u16 d 0) = dbc_raw engine_rpm_definition d"
  "unat (big_endian_u16 d 2) = dbc_raw (speed_definition\<lparr>sd_dbc_start_bit := sd_start_bit speed_definition + 7\<rparr>) d"
  "unat (big_endian_u16 d 4) = dbc_raw accelerator_definition d"
  "unat (raw_x d) = dbc_raw longitudinal_definition d"
  "unat (raw_y d) = dbc_raw lateral_definition d"
  "unat (pressure_raw d) = dbc_raw brake_pressure_definition d"
  "unat (d ! 0 AND 0x07) = dbc_raw selector_definition d"
  "unat (drop_bit 1 (d ! 4) AND 0x0F) = dbc_raw actual_gear_definition d"
  "unat (drop_bit 4 (d ! 2) AND 0x03) = dbc_raw front_wiper_definition d"
  unfolding raw_x_def raw_y_def pressure_raw_def low_bits
  by (simp_all add: unat_bits dbc_simps big_endian_u16_def bits_simps bit_simps bit_beyond
        even_bit bit_mod_2_iff numeral_2_eq_2 [symmetric] even_iff_mod_2_eq_zero [symmetric] odd_iff_mod_2_eq_one [symmetric])

lemma raw_flags:
  "data_bit f 4 1 = (dbc_raw liftgate_open_definition (rf_data f) = 1)"
  "data_bit f 4 4 = (dbc_raw rear_right_door_definition (rf_data f) = 1)"
  "data_bit f 4 8 = (dbc_raw rear_left_door_definition (rf_data f) = 1)"
  "data_bit f 4 16 = (dbc_raw front_left_door_definition (rf_data f) = 1)"
  "data_bit f 4 32 = (dbc_raw front_right_door_definition (rf_data f) = 1)"
  "data_bit f 3 64 = (dbc_raw doors_unlocked_definition (rf_data f) = 1)"
  "data_bit f 2 4 = (dbc_raw left_lamp_definition (rf_data f) = 1)"
  "data_bit f 2 8 = (dbc_raw right_lamp_definition (rf_data f) = 1)"
  "data_bit f 4 2 = (dbc_raw wiper_low_definition (rf_data f) = 1)"
  "data_bit f 1 4 = (dbc_raw hazard_definition (rf_data f) = 1)"
  "data_bit f 1 16 = (dbc_raw turn_right_definition (rf_data f) = 1)"
  "data_bit f 1 32 = (dbc_raw turn_left_definition (rf_data f) = 1)"
  "data_bit f 0 16 = (dbc_raw brake_pressed_definition (rf_data f) = 1)"
  unfolding data_bit_def mask_bits not_not
  by (simp_all add: dbc_simps bits_simps even_bit)

lemma word_of_raw: "unat w = n \<Longrightarrow> w = of_nat n" for w :: "'a::len word"
  by auto

lemmas raw_codes = raw_words(7-9) [THEN word_of_raw]

lemma raw_ints:
  "uint (big_endian_u16 d 0) = int (dbc_raw engine_rpm_definition d)"
  "uint (big_endian_u16 d 2) = int (dbc_raw (speed_definition\<lparr>sd_dbc_start_bit := sd_start_bit speed_definition + 7\<rparr>) d)"
  "uint (big_endian_u16 d 4) = int (dbc_raw accelerator_definition d)"
  "uint (raw_x d) = int (dbc_raw longitudinal_definition d)"
  "uint (raw_y d) = int (dbc_raw lateral_definition d)"
  "uint (pressure_raw d) = int (dbc_raw brake_pressure_definition d)"
  "34000 < big_endian_u16 d 0 \<longleftrightarrow> 34000 < dbc_raw engine_rpm_definition d"
  "64000 < big_endian_u16 d 4 \<longleftrightarrow> 64000 < dbc_raw accelerator_definition d"
  by (simp_all only: uint_nat word_less_nat_alt raw_words) simp_all

section \<open>What a frame does to the message records\<close>

definition owned_ids :: "u32 list" where
  "owned_ids = [engine_data_id, gear_id, doors_id, blink_info_id, turn_switch_id, brake_pedal_id, acceleration_id]"

text \<open>The frames that reach a message record, and what they say of their message.\<close>

definition observed :: "can_frame \<Rightarrow> bool" where
  "observed f \<longleftrightarrow> rf_identifier f \<in> set owned_ids \<and> (if rf_valid f then rf_standard f \<and> \<not> rf_remote f
     else rf_identifier f = engine_data_id \<or> rf_identifier f = acceleration_id)"

definition frame_validity :: "can_frame \<Rightarrow> decode_validity" where
  "frame_validity f = (if \<not> rf_valid f \<or> rf_dlc f \<noteq> candidate_dlc \<or> rf_identifier f = engine_data_id \<and> 34000 < big_endian_u16 (rf_data f) 0
     then DvMalformed else DvDecoded)"

lemmas id_defs = engine_data_id_def gear_id_def doors_id_def blink_info_id_def turn_switch_id_def brake_pedal_id_def acceleration_id_def

lemma fields_messages [simp]:
  "vs_messages (touch ts u v) = vs_messages v"
  "vs_messages (engine_fields S f v) = vs_messages v" "vs_messages (gear_fields S f v) = vs_messages v"
  "vs_messages (doors_fields S f v) = vs_messages v" "vs_messages (blink_fields S f v) = vs_messages v"
  "vs_messages (snd (turn_switch_fields S f v)) = vs_messages v" "vs_messages (brake_fields S f v) = vs_messages v"
  "vs_messages (acceleration_fields S f v) = vs_messages v"
  by (simp_all add: touch_def engine_fields_def gear_fields_def doors_fields_def blink_fields_def turn_switch_fields_def brake_fields_def
    acceleration_fields_def update_turn_def Let_def split: prod.split)

lemma decoder_return_state [simp]: "snd (decoder_return S f i tr st sh e v) = v"
  by (simp add: decoder_return_def)

lemma with_accepted_messages:
  assumes "\<And>v. vs_messages (snd (app v)) = vs_messages v"
  shows "vs_messages (snd (with_accepted S f i tr rep ref aft app v)) = vs_messages (snd (record_healthy f i v))"
  using assms by (simp add: with_accepted_def split: prod.split) (metis snd_conv)

lemma refuse_state: "snd (refuse_frame S f i tr v) = (if classify_frame f i = DvMalformed then record_malformed f i v else v)"
  by (simp add: refuse_frame_def Let_def)

lemmas decoder_defs = decode_engine_data_def decode_gear_def decode_doors_def decode_blink_info_def decode_turn_switch_def decode_brake_pedal_def
  decode_acceleration_def

lemma decode_routes:
  assumes "rf_valid f" and "rf_standard f" and "\<not> rf_remote f"
  shows "rf_identifier f = engine_data_id \<Longrightarrow> mazda_decode S f tr v = decode_engine_data S f tr v"
    and "rf_identifier f = gear_id \<Longrightarrow> mazda_decode S f tr v = decode_gear S f tr v"
    and "rf_identifier f = doors_id \<Longrightarrow> mazda_decode S f tr v = decode_doors S f tr v"
    and "rf_identifier f = blink_info_id \<Longrightarrow> mazda_decode S f tr v = decode_blink_info S f tr v"
    and "rf_identifier f = turn_switch_id \<Longrightarrow> mazda_decode S f tr v = decode_turn_switch S f tr v"
    and "rf_identifier f = brake_pedal_id \<Longrightarrow> mazda_decode S f tr v = decode_brake_pedal S f tr v"
    and "rf_identifier f = acceleration_id \<Longrightarrow> mazda_decode S f tr v = decode_acceleration S f tr v"
    and "rf_identifier f \<notin> set owned_ids \<Longrightarrow> snd (mazda_decode S f tr v) = v"
  using assms by (simp_all add: mazda_decode_def Let_def id_defs owned_ids_def)

lemma decode_messages:
  "vs_messages (snd (mazda_decode S f tr v)) = (if observed f then vs_messages (snd (observe_message f (frame_validity f) v)) else vs_messages v)"
proof (cases "rf_valid f \<and> rf_standard f \<and> \<not> rf_remote f")
  case False
  then consider "\<not> rf_valid f" | "rf_valid f" "\<not> rf_standard f \<or> rf_remote f" by blast
  then show ?thesis
  proof cases
    case 1
    then show ?thesis
      by (auto simp: mazda_decode_def decode_engine_data_def decode_acceleration_def refuse_state classify_frame_def record_malformed_def
        observed_def frame_validity_def owned_ids_def Let_def)
  next
    case 2
    then have "\<not> observed f" by (auto simp: observed_def)
    with 2 show ?thesis by (simp add: mazda_decode_def decode_acceleration_def refuse_state classify_frame_def Let_def)
  qed
next
  case True
  then have ok: "rf_valid f" "rf_standard f" "\<not> rf_remote f" by auto
  note routes = decode_routes [OF ok]
  have step: "vs_messages (snd (if classify_frame f i \<noteq> DvDecoded then refuse_frame S f i tr v else with_accepted S f i tr rep ref aft app v)) =
      vs_messages (snd (observe_message f (if rf_dlc f = candidate_dlc then DvDecoded else DvMalformed) v))"
    if "rf_identifier f = i" "\<And>v. vs_messages (snd (app v)) = vs_messages v" for i rep ref aft app
    using that ok by (simp add: refuse_state classify_frame_def record_malformed_def record_healthy_def with_accepted_messages)
  have val: "frame_validity f = (if rf_dlc f = candidate_dlc then DvDecoded else DvMalformed)" if "rf_identifier f \<noteq> engine_data_id"
    using that ok by (simp add: frame_validity_def)
  consider "rf_identifier f = engine_data_id" | "rf_identifier f = gear_id" | "rf_identifier f = doors_id" | "rf_identifier f = blink_info_id"
    | "rf_identifier f = turn_switch_id" | "rf_identifier f = brake_pedal_id" | "rf_identifier f = acceleration_id" | "rf_identifier f \<notin> set owned_ids"
    by (auto simp: owned_ids_def)
  then show ?thesis
  proof cases
    case 1
    then show ?thesis
      using ok by (simp add: routes(1) decode_engine_data_def observed_def owned_ids_def frame_validity_def classify_frame_def refuse_state
        record_malformed_def record_healthy_def with_accepted_messages Let_def)
  next
    case 2
    then have "rf_identifier f \<noteq> engine_data_id" by (simp add: id_defs)
    with 2 ok show ?thesis using step [OF 2] val by (simp add: routes(2) decode_gear_def observed_def owned_ids_def)
  next
    case 3
    then have "rf_identifier f \<noteq> engine_data_id" by (simp add: id_defs)
    with 3 ok show ?thesis using step [OF 3] val by (simp add: routes(3) decode_doors_def observed_def owned_ids_def)
  next
    case 4
    then have "rf_identifier f \<noteq> engine_data_id" by (simp add: id_defs)
    with 4 ok show ?thesis using step [OF 4] val by (simp add: routes(4) decode_blink_info_def observed_def owned_ids_def)
  next
    case 5
    then have "rf_identifier f \<noteq> engine_data_id" by (simp add: id_defs)
    with 5 ok show ?thesis using step [OF 5] val by (simp add: routes(5) decode_turn_switch_def observed_def owned_ids_def Let_def)
  next
    case 6
    then have "rf_identifier f \<noteq> engine_data_id" by (simp add: id_defs)
    with 6 ok show ?thesis using step [OF 6] val by (simp add: routes(6) decode_brake_pedal_def observed_def owned_ids_def)
  next
    case 7
    then have "rf_identifier f \<noteq> engine_data_id" by (simp add: id_defs)
    with 7 ok show ?thesis using step [OF 7] val by (simp add: routes(7) decode_acceleration_def observed_def owned_ids_def)
  next
    case 8
    show ?thesis using 8 by (simp add: observed_def routes(8) [OF 8])
  qed
qed

section \<open>An accepted frame's fields\<close>

lemma touch_fields [simp]:
  "vs_speed_kph (touch ts u v) = vs_speed_kph v" "vs_engine_rpm (touch ts u v) = vs_engine_rpm v"
  "vs_accelerator_pedal_position (touch ts u v) = vs_accelerator_pedal_position v" "vs_brake_pressure_bar (touch ts u v) = vs_brake_pressure_bar v"
  "vs_longitudinal_acceleration_mps2 (touch ts u v) = vs_longitudinal_acceleration_mps2 v"
  "vs_lateral_acceleration_mps2 (touch ts u v) = vs_lateral_acceleration_mps2 v"
  "vs_selector_position (touch ts u v) = vs_selector_position v" "vs_actual_gear (touch ts u v) = vs_actual_gear v"
  "vs_turn_state (touch ts u v) = vs_turn_state v" "vs_hazard_request (touch ts u v) = vs_hazard_request v"
  "vs_left_turn_request (touch ts u v) = vs_left_turn_request v" "vs_right_turn_request (touch ts u v) = vs_right_turn_request v"
  "vs_brake_pressed (touch ts u v) = vs_brake_pressed v" "vs_liftgate_open (touch ts u v) = vs_liftgate_open v"
  "vs_rear_right_door_open (touch ts u v) = vs_rear_right_door_open v" "vs_rear_left_door_open (touch ts u v) = vs_rear_left_door_open v"
  "vs_front_left_door_open_rhd (touch ts u v) = vs_front_left_door_open_rhd v"
  "vs_front_right_door_open_rhd (touch ts u v) = vs_front_right_door_open_rhd v" "vs_doors_unlocked (touch ts u v) = vs_doors_unlocked v"
  "vs_left_indicator_lamp (touch ts u v) = vs_left_indicator_lamp v" "vs_right_indicator_lamp (touch ts u v) = vs_right_indicator_lamp v"
  "vs_wiper_low (touch ts u v) = vs_wiper_low v" "vs_front_wiper (touch ts u v) = vs_front_wiper v"
  by (simp_all add: touch_def)

lemma update_turn_others [simp]:
  "vs_hazard_request (snd (update_turn S t ts v)) = vs_hazard_request v" "vs_left_turn_request (snd (update_turn S t ts v)) = vs_left_turn_request v"
  "vs_right_turn_request (snd (update_turn S t ts v)) = vs_right_turn_request v" "vs_front_wiper (snd (update_turn S t ts v)) = vs_front_wiper v"
  by (simp_all add: update_turn_def Let_def split: prod.split)

lemma accepted_state:
  "observe_message f DvDecoded v = (ObsAccepted, v1) \<Longrightarrow> rf_identifier f = i \<Longrightarrow> snd (with_accepted S f i tr rep ref aft app v) = snd (app v1)"
  by (simp add: with_accepted_def record_healthy_def split: prod.split)

lemma accepted_decodes:
  assumes ok: "rf_valid f" "rf_standard f" "\<not> rf_remote f" "rf_dlc f = candidate_dlc" and acc: "observe_message f DvDecoded v = (ObsAccepted, v1)"
  shows "rf_identifier f = engine_data_id \<Longrightarrow> snd (mazda_decode S f tr v) =
      (if 34000 < dbc_raw engine_rpm_definition (rf_data f) then snd (observe_message f DvMalformed v) else engine_fields S f v1)"
    and "rf_identifier f = gear_id \<Longrightarrow> snd (mazda_decode S f tr v) = gear_fields S f v1"
    and "rf_identifier f = doors_id \<Longrightarrow> snd (mazda_decode S f tr v) = doors_fields S f v1"
    and "rf_identifier f = blink_info_id \<Longrightarrow> snd (mazda_decode S f tr v) = blink_fields S f v1"
    and "rf_identifier f = turn_switch_id \<Longrightarrow> snd (mazda_decode S f tr v) = snd (turn_switch_fields S f v1)"
    and "rf_identifier f = brake_pedal_id \<Longrightarrow> snd (mazda_decode S f tr v) = brake_fields S f v1"
    and "rf_identifier f = acceleration_id \<Longrightarrow> snd (mazda_decode S f tr v) = acceleration_fields S f v1"
  using ok by (simp_all add: decode_routes [OF ok(1-3)] decoder_defs classify_frame_def accepted_state [OF acc] raw_ints Let_def)

lemma bits_value_bound: "bits_value bs < 2 ^ length bs"
  by (induction bs) (simp_all only: bits_value_Cons, simp_all add: bits_value_def of_bool_def)

lemma motorola_length [simp]: "length (motorola_bits p n) = n"
  by (induction n arbitrary: p) simp_all

lemma code_bounds: "dbc_raw selector_definition d < 8" "dbc_raw actual_gear_definition d < 16" "dbc_raw front_wiper_definition d < 4"
  using bits_value_bound [of "map (\<lambda>p. bit (d ! (p div 8)) (p mod 8)) (field_bits selector_definition)"]
    bits_value_bound [of "map (\<lambda>p. bit (d ! (p div 8)) (p mod 8)) (field_bits actual_gear_definition)"]
    bits_value_bound [of "map (\<lambda>p. bit (d ! (p div 8)) (p mod 8)) (field_bits front_wiper_definition)"]
  by (simp_all add: dbc_raw_def field_bits_def definition_defs)

lemma selector_codes: "n < 8 \<Longrightarrow> selector_from_raw (of_nat n) =
    (if 4 < n then SelUnknown else [SelShifting, SelPark, SelReverse, SelNeutral, SelDrive] ! n)"
proof -
  assume "n < 8"
  then have "n \<in> set [0..<8]" by simp
  moreover have "list_all (\<lambda>n. selector_from_raw (of_nat n) =
    (if 4 < n then SelUnknown else [SelShifting, SelPark, SelReverse, SelNeutral, SelDrive] ! n)) [0..<8]" by code_simp
  ultimately show ?thesis unfolding list_all_iff by blast
qed

lemma gear_codes: "n < 16 \<Longrightarrow> actual_gear_from_raw (of_nat n) = (if 6 < n \<and> n < 14 then GearUnknown
    else if n = 14 then GearReverse else if n = 15 then GearShifting
    else [GearParkOrNeutral, GearFirst, GearSecond, GearThird, GearFourth, GearFifth, GearSixth] ! n)"
proof -
  assume "n < 16"
  then have "n \<in> set [0..<16]" by simp
  moreover have "list_all (\<lambda>n. actual_gear_from_raw (of_nat n) = (if 6 < n \<and> n < 14 then GearUnknown
    else if n = 14 then GearReverse else if n = 15 then GearShifting
    else [GearParkOrNeutral, GearFirst, GearSecond, GearThird, GearFourth, GearFifth, GearSixth] ! n)) [0..<16]" by code_simp
  ultimately show ?thesis unfolding list_all_iff by blast
qed

lemma wiper_codes: "n < 4 \<Longrightarrow> front_wiper_from_raw (of_nat n) = [WiperOff, WiperOn, WiperHigh, WiperIntermittent] ! n"
proof -
  assume "n < 4"
  then have "n \<in> set [0..<4]" by simp
  moreover have "list_all (\<lambda>n. front_wiper_from_raw (of_nat n) = [WiperOff, WiperOn, WiperHigh, WiperIntermittent] ! n) [0..<4]" by code_simp
  ultimately show ?thesis unfolding list_all_iff by blast
qed

lemma scale_words: "f32_of_int 64000 = 0x477A0000" "f32_of_int 100 = 0x42C80000" "f32_of_int 1000 = 0x447A0000"
  "sd_scale engine_rpm_definition = 0x3E800000" "sd_scale speed_definition = 0x3C23D70A"
  by (simp_all add: f32_of_int_def f32_make_def round_mag_def round_shift_def half_even_def blen_numeral definition_defs f32_inf_mag_def Let_def)

lemma engine_values:
  "vs_engine_rpm (engine_fields S f v) = snd (so_update S (CoreFloat (f32_mul (f32_of_int (int (dbc_raw engine_rpm_definition (rf_data f))))
     (sd_scale engine_rpm_definition))) (rf_timestamp f) (vs_engine_rpm v))"
  "vs_speed_kph (engine_fields S f v) = snd (so_update S (CoreFloat (f32_mul (f32_of_int (int (dbc_raw
     (speed_definition\<lparr>sd_dbc_start_bit := sd_start_bit speed_definition + 7\<rparr>) (rf_data f)))) (sd_scale speed_definition))) (rf_timestamp f) (vs_speed_kph v))"
  "vs_accelerator_pedal_position (engine_fields S f v) = (if 64000 < dbc_raw accelerator_definition (rf_data f)
     then snd (so_invalidate S (rf_timestamp f) (vs_accelerator_pedal_position v))
     else snd (so_update S (CoreFloat (f32_div (f32_of_int (int (dbc_raw accelerator_definition (rf_data f)))) (f32_of_int 64000)))
       (rf_timestamp f) (vs_accelerator_pedal_position v)))"
  by (simp_all add: engine_fields_def rpm_value_def speed_value_def accelerator_value_def raw_ints scale_words Let_def split_beta del: of_nat_le_iff)

lemma gear_values:
  "vs_selector_position (gear_fields S f v) = (if 4 < dbc_raw selector_definition (rf_data f)
     then snd (so_invalidate S (rf_timestamp f) (vs_selector_position v))
     else snd (so_update S (CoreSelector ([SelShifting, SelPark, SelReverse, SelNeutral, SelDrive] ! dbc_raw selector_definition (rf_data f)))
       (rf_timestamp f) (vs_selector_position v)))"
  "vs_actual_gear (gear_fields S f v) = (if 6 < dbc_raw actual_gear_definition (rf_data f) \<and> dbc_raw actual_gear_definition (rf_data f) < 14
     then snd (so_invalidate S (rf_timestamp f) (vs_actual_gear v))
     else snd (so_update S (CoreGear (if dbc_raw actual_gear_definition (rf_data f) = 14 then GearReverse
         else if dbc_raw actual_gear_definition (rf_data f) = 15 then GearShifting
         else [GearParkOrNeutral, GearFirst, GearSecond, GearThird, GearFourth, GearFifth, GearSixth] ! dbc_raw actual_gear_definition (rf_data f)))
       (rf_timestamp f) (vs_actual_gear v)))"
proof -
  have s: "selector_from_raw (of_nat n) = SelUnknown \<longleftrightarrow> 4 < n" if "n < 8" for n
    using that unfolding selector_codes [OF that] by (auto simp: less_Suc_eq numeral_eq_Suc)
  have g: "actual_gear_from_raw (of_nat n) = GearUnknown \<longleftrightarrow> 6 < n \<and> n < 14" if "n < 16" for n
    using that unfolding gear_codes [OF that] by (auto simp: less_Suc_eq numeral_eq_Suc)
  note codes = selector_codes [OF code_bounds(1)] gear_codes [OF code_bounds(2)] s [OF code_bounds(1)] g [OF code_bounds(2)]
  show "vs_selector_position (gear_fields S f v) = (if 4 < dbc_raw selector_definition (rf_data f)
     then snd (so_invalidate S (rf_timestamp f) (vs_selector_position v))
     else snd (so_update S (CoreSelector ([SelShifting, SelPark, SelReverse, SelNeutral, SelDrive] ! dbc_raw selector_definition (rf_data f)))
       (rf_timestamp f) (vs_selector_position v)))"
    by (simp add: gear_fields_def raw_codes Let_def split_beta codes(3)) (simp add: codes(1))
  show "vs_actual_gear (gear_fields S f v) = (if 6 < dbc_raw actual_gear_definition (rf_data f) \<and> dbc_raw actual_gear_definition (rf_data f) < 14
     then snd (so_invalidate S (rf_timestamp f) (vs_actual_gear v))
     else snd (so_update S (CoreGear (if dbc_raw actual_gear_definition (rf_data f) = 14 then GearReverse
         else if dbc_raw actual_gear_definition (rf_data f) = 15 then GearShifting
         else [GearParkOrNeutral, GearFirst, GearSecond, GearThird, GearFourth, GearFifth, GearSixth] ! dbc_raw actual_gear_definition (rf_data f)))
       (rf_timestamp f) (vs_actual_gear v)))"
    by (simp only: gear_fields_def raw_codes Let_def split_beta codes(4)) (simp add: codes(2))
qed

lemma switch_values:
  "vs_hazard_request (snd (turn_switch_fields S f v)) = snd (so_update S (CoreBool (dbc_raw hazard_definition (rf_data f) = 1)) (rf_timestamp f) (vs_hazard_request v))"
  "vs_left_turn_request (snd (turn_switch_fields S f v)) = snd (so_update S (CoreBool (dbc_raw turn_left_definition (rf_data f) = 1)) (rf_timestamp f) (vs_left_turn_request v))"
  "vs_right_turn_request (snd (turn_switch_fields S f v)) = snd (so_update S (CoreBool (dbc_raw turn_right_definition (rf_data f) = 1)) (rf_timestamp f) (vs_right_turn_request v))"
  "vs_front_wiper (snd (turn_switch_fields S f v)) = snd (so_update S (CoreWiper ([WiperOff, WiperOn, WiperHigh, WiperIntermittent] !
     dbc_raw front_wiper_definition (rf_data f))) (rf_timestamp f) (vs_front_wiper v))"
  "vs_turn_state (snd (turn_switch_fields S f v)) = vs_turn_state (snd (update_turn S (normalize_turn (dbc_raw hazard_definition (rf_data f) = 1)
     (dbc_raw turn_left_definition (rf_data f) = 1) (dbc_raw turn_right_definition (rf_data f) = 1)) (rf_timestamp f) v))"
  by (simp_all add: turn_switch_fields_def raw_flags raw_codes wiper_codes [OF code_bounds(3)] Let_def split_beta del: One_nat_def)

lemmas flag_values = doors_fields_def blink_fields_def brake_fields_def raw_flags

lemma acceleration_values:
  "vs_longitudinal_acceleration_mps2 (acceleration_fields S f v) =
     snd (so_update S (CoreFloat (f32_div (f32_of_int (int (dbc_raw longitudinal_definition (rf_data f)) - 4000)) (f32_of_int 100))) (rf_timestamp f)
       (vs_longitudinal_acceleration_mps2 v))"
  "vs_lateral_acceleration_mps2 (acceleration_fields S f v) =
     snd (so_update S (CoreFloat (f32_div (f32_of_int (int (dbc_raw lateral_definition (rf_data f)) - 4096)) (f32_of_int 1000))) (rf_timestamp f)
       (vs_lateral_acceleration_mps2 v))"
  "vs_brake_pressure_bar (acceleration_fields S f v) =
     (let bar = f32_div (f32_of_int (int (dbc_raw brake_pressure_definition (rf_data f)) - 40000)) (f32_of_int 1000) in
      if f32_lt bar 0 then snd (so_invalidate S (rf_timestamp f) (vs_brake_pressure_bar v))
      else snd (so_update S (CoreFloat bar) (rf_timestamp f) (vs_brake_pressure_bar v)))"
  by (simp_all add: acceleration_fields_def raw_ints scale_words Let_def split_beta)

text \<open>C37: Every decoder reads exactly the bits that the reviewed definition of its signal names. When a frame of eight bytes is
  accepted as the newest of its message, each signal of that message is updated with the value its raw number stands
  for, and the raw number is the one at the definition's DBC start bit, length and byte order, whatever the payload
  is; SPEED, which the DBC lacks, is read at its own start bit. Engine data over 34000 raw engine speed is malformed
  and sets no signal; an accelerator position over 64000, an unknown selector position or gear and a brake pressure
  below zero invalidate their signal.
\<close>
theorem decoders_read_dbc_fields:
  assumes "rf_valid f" and "rf_standard f" and "\<not> rf_remote f" and "rf_dlc f = candidate_dlc"
    and "observe_message f DvDecoded v = (ObsAccepted, v1)" and "snd (mazda_decode S f tr v) = v'"
  shows "let raw = (\<lambda>d. dbc_raw d (rf_data f)); number = (\<lambda>d. int (raw d));
       put = (\<lambda>x s. snd (so_update S x (rf_timestamp f) s)); drop = (\<lambda>s. snd (so_invalidate S (rf_timestamp f) s));
       flag = (\<lambda>d. put (CoreBool (raw d = 1))) in
    (rf_identifier f = engine_data_id \<longrightarrow> (if 34000 < raw engine_rpm_definition then v' = snd (observe_message f DvMalformed v) else
       vs_engine_rpm v' = put (CoreFloat (f32_mul (f32_of_int (number engine_rpm_definition)) (sd_scale engine_rpm_definition))) (vs_engine_rpm v1)
     \<and> vs_speed_kph v' = put (CoreFloat (f32_mul (f32_of_int (number (speed_definition\<lparr>sd_dbc_start_bit := sd_start_bit speed_definition + 7\<rparr>)))
         (sd_scale speed_definition))) (vs_speed_kph v1)
     \<and> vs_accelerator_pedal_position v' = (if 64000 < raw accelerator_definition then drop (vs_accelerator_pedal_position v1)
         else put (CoreFloat (f32_div (f32_of_int (number accelerator_definition)) (f32_of_int 64000))) (vs_accelerator_pedal_position v1))))
  \<and> (rf_identifier f = gear_id \<longrightarrow>
       vs_selector_position v' = (if 4 < raw selector_definition then drop (vs_selector_position v1)
         else put (CoreSelector ([SelShifting, SelPark, SelReverse, SelNeutral, SelDrive] ! raw selector_definition)) (vs_selector_position v1))
     \<and> vs_actual_gear v' = (if 6 < raw actual_gear_definition \<and> raw actual_gear_definition < 14 then drop (vs_actual_gear v1)
         else put (CoreGear (if raw actual_gear_definition = 14 then GearReverse else if raw actual_gear_definition = 15 then GearShifting
           else [GearParkOrNeutral, GearFirst, GearSecond, GearThird, GearFourth, GearFifth, GearSixth] ! raw actual_gear_definition))
           (vs_actual_gear v1)))
  \<and> (rf_identifier f = doors_id \<longrightarrow>
       vs_liftgate_open v' = flag liftgate_open_definition (vs_liftgate_open v1)
     \<and> vs_rear_right_door_open v' = flag rear_right_door_definition (vs_rear_right_door_open v1)
     \<and> vs_rear_left_door_open v' = flag rear_left_door_definition (vs_rear_left_door_open v1)
     \<and> vs_front_left_door_open_rhd v' = flag front_left_door_definition (vs_front_left_door_open_rhd v1)
     \<and> vs_front_right_door_open_rhd v' = flag front_right_door_definition (vs_front_right_door_open_rhd v1)
     \<and> vs_doors_unlocked v' = flag doors_unlocked_definition (vs_doors_unlocked v1))
  \<and> (rf_identifier f = blink_info_id \<longrightarrow>
       vs_left_indicator_lamp v' = flag left_lamp_definition (vs_left_indicator_lamp v1)
     \<and> vs_right_indicator_lamp v' = flag right_lamp_definition (vs_right_indicator_lamp v1)
     \<and> vs_wiper_low v' = flag wiper_low_definition (vs_wiper_low v1))
  \<and> (rf_identifier f = turn_switch_id \<longrightarrow>
       vs_hazard_request v' = flag hazard_definition (vs_hazard_request v1)
     \<and> vs_left_turn_request v' = flag turn_left_definition (vs_left_turn_request v1)
     \<and> vs_right_turn_request v' = flag turn_right_definition (vs_right_turn_request v1)
     \<and> vs_front_wiper v' = put (CoreWiper ([WiperOff, WiperOn, WiperHigh, WiperIntermittent] ! raw front_wiper_definition)) (vs_front_wiper v1)
     \<and> vs_turn_state v' = vs_turn_state (snd (update_turn S (normalize_turn (raw hazard_definition = 1) (raw turn_left_definition = 1)
         (raw turn_right_definition = 1)) (rf_timestamp f) v1)))
  \<and> (rf_identifier f = brake_pedal_id \<longrightarrow> vs_brake_pressed v' = flag brake_pressed_definition (vs_brake_pressed v1))
  \<and> (rf_identifier f = acceleration_id \<longrightarrow>
       vs_longitudinal_acceleration_mps2 v' =
         put (CoreFloat (f32_div (f32_of_int (number longitudinal_definition - 4000)) (f32_of_int 100))) (vs_longitudinal_acceleration_mps2 v1)
     \<and> vs_lateral_acceleration_mps2 v' =
         put (CoreFloat (f32_div (f32_of_int (number lateral_definition - 4096)) (f32_of_int 1000))) (vs_lateral_acceleration_mps2 v1)
     \<and> vs_brake_pressure_bar v' = (let bar = f32_div (f32_of_int (number brake_pressure_definition - 40000)) (f32_of_int 1000) in
         if f32_lt bar 0 then drop (vs_brake_pressure_bar v1) else put (CoreFloat bar) (vs_brake_pressure_bar v1)))"
proof -
  note v' = assms(6) [symmetric] and dec = accepted_decodes [OF assms(1-5), where S = S and tr = tr]
  have engine: "rf_identifier f = engine_data_id \<Longrightarrow> v' = (if 34000 < dbc_raw engine_rpm_definition (rf_data f)
      then snd (observe_message f DvMalformed v) else engine_fields S f v1)" using dec(1) v' by simp
  show ?thesis unfolding Let_def
    using dec(2-7) [folded v'] engine
    by (intro conjI impI) (simp_all add: engine_values gear_values switch_values acceleration_values flag_values Let_def split_beta)
qed


section \<open>Late and repeated frames\<close>

lemma health_for_index:
  assumes "message_health_for i v = Some m"
  shows "\<exists>k. find_index (\<lambda>m. mr_has_frame m \<and> mr_identifier m = i) (vs_messages v) = Some k \<and> k < length (vs_messages v) \<and> vs_messages v ! k = m"
  using assms by (auto simp: message_health_for_def find_map_of_index dest: find_index_lt)

lemma observe_late:
  assumes "message_health_for (rf_identifier f) v = Some m" and "rf_timestamp f \<le> mr_last_frame m"
  shows "snd (observe_message f val v) = v" and "fst (observe_message f val v) \<noteq> ObsAccepted"
proof -
  have "mr_has_frame m" using assms(1) by (auto simp: message_health_for_def dest: find_Some_mem)
  then have "snd (observe_record f val m) = m \<and> fst (observe_record f val m) \<noteq> ObsAccepted"
    using assms(2) by (auto simp: observe_record_def newer_frame_def)
  moreover obtain k where "find_index (\<lambda>m. mr_has_frame m \<and> mr_identifier m = rf_identifier f) (vs_messages v) = Some k"
    "k < length (vs_messages v)" "vs_messages v ! k = m" using health_for_index [OF assms(1)] by auto
  ultimately have "snd (observe_message f val v) = v \<and> fst (observe_message f val v) \<noteq> ObsAccepted"
    by (auto simp: observe_message_def find_or_allocate_record_def split: prod.split)
  then show "snd (observe_message f val v) = v" "fst (observe_message f val v) \<noteq> ObsAccepted" by blast+
qed

lemma late_accepted:
  assumes "message_health_for (rf_identifier f) v = Some m" and "rf_timestamp f \<le> mr_last_frame m"
  shows "snd (with_accepted S f i tr rep ref aft app v) = v"
proof -
  obtain r v1 where r: "record_healthy f i v = (r, v1)" by fastforce
  then have "v1 = v \<and> r \<noteq> ObsAccepted"
    using observe_late [OF assms, of DvDecoded] by (auto simp: record_healthy_def split: if_splits)
  then show ?thesis using r by (simp add: with_accepted_def)
qed

lemma late_refused:
  assumes "message_health_for (rf_identifier f) v = Some m" and "rf_timestamp f \<le> mr_last_frame m"
  shows "snd (refuse_frame S f i tr v) = v"
  using observe_late(1) [OF assms] by (simp add: refuse_state record_malformed_def)

lemma late_frame_changes_nothing:
  assumes "message_health_for (rf_identifier f) v = Some m" and "rf_timestamp f \<le> mr_last_frame m"
  shows "snd (mazda_decode S f tr v) = v"
proof -
  note late = late_accepted [OF assms] late_refused [OF assms] observe_late(1) [OF assms]
  have "snd (decode_engine_data S f tr v) = v" unfolding decode_engine_data_def by (simp only: late decoder_return_state Let_def split: if_split) simp
  moreover have "snd (decode_turn_switch S f tr v) = v" unfolding decode_turn_switch_def by (simp only: late Let_def split: if_split) simp
  moreover have "snd (decode_gear S f tr v) = v" unfolding decode_gear_def by (simp only: late split: if_split) simp
  moreover have "snd (decode_doors S f tr v) = v" unfolding decode_doors_def by (simp only: late split: if_split) simp
  moreover have "snd (decode_blink_info S f tr v) = v" unfolding decode_blink_info_def by (simp only: late split: if_split) simp
  moreover have "snd (decode_brake_pedal S f tr v) = v" unfolding decode_brake_pedal_def by (simp only: late split: if_split) simp
  moreover have "snd (decode_acceleration S f tr v) = v" unfolding decode_acceleration_def by (simp only: late split: if_split) simp
  ultimately show ?thesis unfolding mazda_decode_def Let_def by (simp only: snd_conv split: if_split) simp
qed

section \<open>Histories\<close>

definition run_frames :: "'s signal_ops \<Rightarrow> transport_health \<Rightarrow> can_frame list \<Rightarrow> 's vehicle_state" where
  "run_frames S tr fs = fold (\<lambda>f v. snd (mazda_decode S f tr v)) fs (vehicle_state_new S)"

lemma run_frames_snoc: "run_frames S tr (fs @ [f]) = snd (mazda_decode S f tr (run_frames S tr fs))"
  by (simp add: run_frames_def)

text \<open>The frame that decides a message: of the observed ones the newest, the first of those with its time.\<close>

fun deciding :: "u32 \<Rightarrow> can_frame list \<Rightarrow> can_frame option" where
  "deciding i [] = None"
| "deciding i (f # fs) = (if observed f \<and> rf_identifier f = i then (case deciding i fs of
       Some g \<Rightarrow> if rf_timestamp f < rf_timestamp g then Some g else Some f | None \<Rightarrow> Some f) else deciding i fs)"

definition says_of :: "can_frame \<Rightarrow> message_record \<Rightarrow> bool" where
  "says_of f m \<longleftrightarrow> same_frame f m \<and> mr_last_frame m = rf_timestamp f \<and>
     (if frame_validity f = DvMalformed then mr_health m = MhFaulted \<and> mr_fault m = Some (rf_timestamp f)
      else mr_health m = MhHealthy \<and> mr_fault m = None \<and> mr_has_accepted m \<and> mr_last_accepted m = rf_timestamp f)"

lemma deciding_snoc:
  "deciding i (fs @ [f]) = (if observed f \<and> rf_identifier f = i then (case deciding i fs of
     Some g \<Rightarrow> if rf_timestamp g < rf_timestamp f then Some f else Some g | None \<Rightarrow> Some f) else deciding i fs)"
  by (induction fs) (auto split: option.splits)

definition records_ok :: "message_record list \<Rightarrow> bool" where
  "records_ok ms \<longleftrightarrow> length ms = 7 \<and> (\<forall>m \<in> set ms. mr_has_frame m \<longrightarrow> mr_identifier m \<in> set owned_ids) \<and>
     (\<forall>k < 7. \<forall>l < 7. mr_has_frame (ms ! k) \<and> mr_has_frame (ms ! l) \<and> mr_identifier (ms ! k) = mr_identifier (ms ! l) \<longrightarrow> k = l)"

text \<open>Seven records are enough: a message without one finds a free one.\<close>

lemma record_free:
  assumes "records_ok ms" and "i \<in> set owned_ids" and "\<forall>m \<in> set ms. mr_has_frame m \<longrightarrow> mr_identifier m \<noteq> i"
  shows "\<exists>m \<in> set ms. \<not> mr_has_frame m"
proof (rule ccontr)
  assume "\<not> ?thesis"
  then have all: "\<forall>m \<in> set ms. mr_has_frame m" by auto
  then have "distinct (map mr_identifier ms)"
    using assms(1) by (auto simp: records_ok_def distinct_conv_nth)
  moreover have "mr_identifier ` set ms \<subseteq> set owned_ids - {i}" using all assms by (auto simp: records_ok_def)
  moreover have "card (set owned_ids - {i}) = 6"
    using assms(2) by (auto simp: owned_ids_def id_defs)
  ultimately have "length (map mr_identifier ms) \<le> 6"
    using card_mono [of "set owned_ids - {i}" "mr_identifier ` set ms"] by (metis distinct_card finite_Diff finite_set list.set_map)
  then show False using assms(1) by (simp add: records_ok_def)
qed

lemma find_updated_other: "k < length xs \<Longrightarrow> \<not> P (xs ! k) \<Longrightarrow> \<not> P x \<Longrightarrow> List.find P (xs[k := x]) = List.find P xs"
  by (induction xs arbitrary: k) (auto simp: nth_Cons split: nat.splits)

lemma find_updated_only: "k < length xs \<Longrightarrow> P x \<Longrightarrow> \<forall>l < length xs. l \<noteq> k \<longrightarrow> \<not> P (xs ! l) \<Longrightarrow> List.find P (xs[k := x]) = Some x"
proof (induction xs arbitrary: k)
  case (Cons y ys)
  show ?case
  proof (cases k)
    case (Suc l)
    have "\<not> P y" using Cons.prems(3) Suc by auto
    moreover have "\<forall>j < length ys. j \<noteq> l \<longrightarrow> \<not> P (ys ! j)" using Cons.prems(3) Suc by auto
    ultimately show ?thesis using Cons Suc by simp
  qed (use Cons in simp)
qed simp

lemma accepted_says:
  assumes "val \<noteq> DvIgnored" and "val = frame_validity f" and "newer_frame f m"
  shows "\<exists>m'. observe_record f val m = (ObsAccepted, m') \<and> says_of f m' \<and> mr_has_frame m' \<and> mr_identifier m' = rf_identifier f"
  using assms by (auto simp: observe_record_def says_of_def copy_frame_def same_frame_def)

lemma put_record:
  assumes ok: "records_ok ms" and k: "k < 7" and old: "mr_has_frame (ms ! k) \<longrightarrow> mr_identifier (ms ! k) = i" and i: "i \<in> set owned_ids"
    and new: "mr_has_frame m" "mr_identifier m = i" and only: "\<forall>l < 7. l \<noteq> k \<longrightarrow> \<not> (mr_has_frame (ms ! l) \<and> mr_identifier (ms ! l) = i)"
  shows "records_ok (ms[k := m])" and "List.find (\<lambda>m. mr_has_frame m \<and> mr_identifier m = i) (ms[k := m]) = Some m"
    and "j \<noteq> i \<Longrightarrow> List.find (\<lambda>m. mr_has_frame m \<and> mr_identifier m = j) (ms[k := m]) = List.find (\<lambda>m. mr_has_frame m \<and> mr_identifier m = j) ms"
proof -
  have len: "length ms = 7" using ok by (simp add: records_ok_def)
  show "List.find (\<lambda>m. mr_has_frame m \<and> mr_identifier m = i) (ms[k := m]) = Some m"
    using find_updated_only [of k ms "\<lambda>m. mr_has_frame m \<and> mr_identifier m = i" m] k new only len by simp
  show "j \<noteq> i \<Longrightarrow> List.find (\<lambda>m. mr_has_frame m \<and> mr_identifier m = j) (ms[k := m]) = List.find (\<lambda>m. mr_has_frame m \<and> mr_identifier m = j) ms"
    using find_updated_other [of k ms "\<lambda>m. mr_has_frame m \<and> mr_identifier m = j" m] k new old len by auto
  have "set (ms[k := m]) \<subseteq> insert m (set ms)" by (rule set_update_subset_insert)
  moreover have "a = l" if "a < 7" "l < 7" "mr_has_frame (ms[k := m] ! a)" "mr_has_frame (ms[k := m] ! l)"
      "mr_identifier (ms[k := m] ! a) = mr_identifier (ms[k := m] ! l)" for a l
    using that ok new(2) only len by (cases "a = k"; cases "l = k") (auto simp: records_ok_def)
  ultimately show "records_ok (ms[k := m])"
    using ok new i len by (auto simp: records_ok_def)
qed

lemma observe_step:
  assumes ok: "records_ok (vs_messages v)" and i: "rf_identifier f \<in> set owned_ids" and val: "val = frame_validity f"
  shows "records_ok (vs_messages (snd (observe_message f val v)))"
    and "j \<noteq> rf_identifier f \<Longrightarrow> message_health_for j (snd (observe_message f val v)) = message_health_for j v"
    and "(\<exists>m. message_health_for (rf_identifier f) v = Some m \<and> rf_timestamp f \<le> mr_last_frame m \<and>
        message_health_for (rf_identifier f) (snd (observe_message f val v)) = Some m) \<or>
      (\<forall>m. message_health_for (rf_identifier f) v = Some m \<longrightarrow> mr_last_frame m < rf_timestamp f) \<and>
        (\<exists>m. message_health_for (rf_identifier f) (snd (observe_message f val v)) = Some m \<and> says_of f m)"
proof -
  let ?i = "rf_identifier f" and ?ms = "vs_messages v"
  have len: "length ?ms = 7" and uniq: "\<And>k l. k < 7 \<Longrightarrow> l < 7 \<Longrightarrow> mr_has_frame (?ms ! k) \<Longrightarrow> mr_has_frame (?ms ! l)
      \<Longrightarrow> mr_identifier (?ms ! k) = mr_identifier (?ms ! l) \<Longrightarrow> k = l" using ok by (auto simp: records_ok_def)
  have val': "val \<noteq> DvIgnored" by (simp add: val frame_validity_def)
  have "(\<exists>m. message_health_for ?i v = Some m \<and> rf_timestamp f \<le> mr_last_frame m) \<or>
    (\<forall>m. message_health_for ?i v = Some m \<longrightarrow> mr_last_frame m < rf_timestamp f) \<and>
    (\<exists>k m. k < 7 \<and> (mr_has_frame (?ms ! k) \<longrightarrow> mr_identifier (?ms ! k) = ?i) \<and> says_of f m \<and> mr_has_frame m \<and> mr_identifier m = ?i \<and>
      (\<forall>l < 7. l \<noteq> k \<longrightarrow> \<not> (mr_has_frame (?ms ! l) \<and> mr_identifier (?ms ! l) = ?i)) \<and>
      vs_messages (snd (observe_message f val v)) = ?ms[k := m])"
  proof (cases "message_health_for ?i v")
    case None
    then have none: "find_index (\<lambda>m. mr_has_frame m \<and> mr_identifier m = ?i) ?ms = None" "\<forall>m \<in> set ?ms. \<not> (mr_has_frame m \<and> mr_identifier m = ?i)"
      by (auto simp: message_health_for_def find_map_of_index find_index_None)
    with record_free [OF ok i] have "find_index (\<lambda>m. \<not> mr_has_frame m) ?ms \<noteq> None" by (auto simp: find_index_None)
    then obtain k where k: "find_index (\<lambda>m. \<not> mr_has_frame m) ?ms = Some k" "k < 7" "\<not> mr_has_frame (?ms ! k)"
      using find_index_Some len by (metis option.exhaust)
    then have "newer_frame f ((?ms ! k)\<lparr>mr_identifier := ?i\<rparr>)" by (simp add: newer_frame_def)
    from accepted_says [OF val' val this] obtain m where m: "observe_record f val ((?ms ! k)\<lparr>mr_identifier := ?i\<rparr>) = (ObsAccepted, m)"
      "says_of f m" "mr_has_frame m" "mr_identifier m = ?i" by auto
    have "vs_messages (snd (observe_message f val v)) = ?ms[k := m]"
      using k m(1) len val' by (simp add: observe_message_def find_or_allocate_record_def none(1))
    then show ?thesis using k none(2) m len None by (intro disjI2) (auto simp: all_set_conv_all_nth)
  next
    case (Some m0)
    show ?thesis
    proof (cases "rf_timestamp f \<le> mr_last_frame m0")
      case False
      obtain k where k: "find_index (\<lambda>m. mr_has_frame m \<and> mr_identifier m = ?i) ?ms = Some k" "k < 7" "?ms ! k = m0"
        using health_for_index [OF Some] len by auto
      have m0: "mr_has_frame m0" "mr_identifier m0 = ?i" using find_index_Some [OF k(1)] k(3) by auto
      have lt: "mr_last_frame m0 < rf_timestamp f" using False by (simp add: not_le)
      then have "newer_frame f m0" by (simp add: newer_frame_def)
      from accepted_says [OF val' val this] obtain m where m: "observe_record f val m0 = (ObsAccepted, m)"
        "says_of f m" "mr_has_frame m" "mr_identifier m = ?i" by auto
      have "vs_messages (snd (observe_message f val v)) = ?ms[k := m]"
        using k m(1) val' by (simp add: observe_message_def find_or_allocate_record_def)
      moreover have "\<forall>l < 7. l \<noteq> k \<longrightarrow> \<not> (mr_has_frame (?ms ! l) \<and> mr_identifier (?ms ! l) = ?i)" using uniq [OF k(2)] m0 k(3) by auto
      moreover have "mr_has_frame (?ms ! k) \<longrightarrow> mr_identifier (?ms ! k) = ?i" using m0 k(3) by simp
      ultimately have "\<exists>k m. k < 7 \<and> (mr_has_frame (?ms ! k) \<longrightarrow> mr_identifier (?ms ! k) = ?i) \<and> says_of f m \<and> mr_has_frame m \<and> mr_identifier m = ?i \<and>
          (\<forall>l < 7. l \<noteq> k \<longrightarrow> \<not> (mr_has_frame (?ms ! l) \<and> mr_identifier (?ms ! l) = ?i)) \<and> vs_messages (snd (observe_message f val v)) = ?ms[k := m]"
        using k(2) m(2-4) by blast
      then show ?thesis using Some lt by simp
    qed (use Some in simp)
  qed
  then show "records_ok (vs_messages (snd (observe_message f val v)))"
    "j \<noteq> rf_identifier f \<Longrightarrow> message_health_for j (snd (observe_message f val v)) = message_health_for j v"
    "(\<exists>m. message_health_for ?i v = Some m \<and> rf_timestamp f \<le> mr_last_frame m \<and> message_health_for ?i (snd (observe_message f val v)) = Some m) \<or>
      (\<forall>m. message_health_for ?i v = Some m \<longrightarrow> mr_last_frame m < rf_timestamp f) \<and>
        (\<exists>m. message_health_for ?i (snd (observe_message f val v)) = Some m \<and> says_of f m)"
    using put_record [OF ok _ _ i] observe_late(1) [of f v _ val] ok by (auto simp: message_health_for_def)
qed

lemma run_records:
  "records_ok (vs_messages (run_frames S tr fs)) \<and>
   (\<forall>i. case deciding i fs of None \<Rightarrow> message_health_for i (run_frames S tr fs) = None
     | Some f \<Rightarrow> \<exists>m. message_health_for i (run_frames S tr fs) = Some m \<and> says_of f m)"
proof (induction fs rule: rev_induct)
  case Nil
  then show ?case
    by (simp add: run_frames_def vehicle_state_new_def tracked_message_capacity_def no_message_def records_ok_def message_health_for_def
      find_None_iff)
next
  case (snoc f fs)
  let ?v = "run_frames S tr fs" and ?v' = "run_frames S tr (fs @ [f])"
  from snoc have ok: "records_ok (vs_messages ?v)" and rel: "\<And>i. case deciding i fs of None \<Rightarrow> message_health_for i ?v = None
     | Some f \<Rightarrow> \<exists>m. message_health_for i ?v = Some m \<and> says_of f m" by auto
  show ?case
  proof (cases "observed f")
    case False
    then have "vs_messages ?v' = vs_messages ?v" by (simp add: run_frames_snoc decode_messages)
    then have "message_health_for i ?v' = message_health_for i ?v" for i by (simp add: message_health_for_def)
    then show ?thesis using snoc False \<open>vs_messages ?v' = vs_messages ?v\<close> by (simp add: deciding_snoc cong: option.case_cong)
  next
    case True
    let ?o = "snd (observe_message f (frame_validity f) ?v)"
    have ms: "vs_messages ?v' = vs_messages ?o" using True by (simp add: run_frames_snoc decode_messages)
    then have mh: "message_health_for i ?v' = message_health_for i ?o" for i by (simp add: message_health_for_def)
    have i: "rf_identifier f \<in> set owned_ids" using True by (simp add: observed_def)
    note step = observe_step [OF ok i refl]
    have "case deciding i (fs @ [f]) of None \<Rightarrow> message_health_for i ?v' = None
      | Some g \<Rightarrow> \<exists>m. message_health_for i ?v' = Some m \<and> says_of g m" for i
    proof (cases "i = rf_identifier f")
      case False
      then show ?thesis using rel [of i] step(2) [of i] by (simp add: mh deciding_snoc cong: option.case_cong)
    next
      case same: True
      show ?thesis
        using rel [of i] step(3) True
        by (auto simp: mh deciding_snoc same says_of_def split: option.splits)
    qed
    then show ?thesis using step(1) ms by simp
  qed
qed

text \<open>C36: For every history of frames, the newest decides. A message's health record holds the newest frame observed of it (of
  several with one time the first), healthy exactly when that frame was well formed, and there is one exactly when
  a frame was observed: the seven records are always enough. A frame that is not newer than its message's record,
  late, repeated or conflicting, changes nothing of the vehicle's state, signals included.
\<close>
theorem newest_frame_decides:
  "(case deciding i fs of None \<Rightarrow> message_health_for i (run_frames S tr fs) = None
     | Some g \<Rightarrow> \<exists>m. message_health_for i (run_frames S tr fs) = Some m \<and> says_of g m) \<and>
   (\<forall>g. deciding (rf_identifier f) fs = Some g \<and> rf_timestamp f \<le> rf_timestamp g \<longrightarrow> run_frames S tr (fs @ [f]) = run_frames S tr fs)"
proof (intro conjI allI impI)
  show "case deciding i fs of None \<Rightarrow> message_health_for i (run_frames S tr fs) = None
     | Some g \<Rightarrow> \<exists>m. message_health_for i (run_frames S tr fs) = Some m \<and> says_of g m"
    by (rule run_records [THEN conjunct2, THEN spec])
next
  fix g
  assume g: "deciding (rf_identifier f) fs = Some g \<and> rf_timestamp f \<le> rf_timestamp g"
  then obtain m where m: "message_health_for (rf_identifier f) (run_frames S tr fs) = Some m" "says_of g m"
    using run_records [of S tr fs, THEN conjunct2, THEN spec, of "rf_identifier f"] by auto
  then show "run_frames S tr (fs @ [f]) = run_frames S tr fs"
    using late_frame_changes_nothing [OF m(1)] g by (simp add: run_frames_snoc says_of_def)
qed

text \<open>A signal that keeps its last value and its time, and a brake frame.\<close>

definition last_value_ops :: "(core_value option \<times> timestamp) signal_ops" where
  "last_value_ops = \<lparr>so_new = \<lambda>_. (None, 0), so_update = \<lambda>x ts s. (True, Some x, ts), so_invalidate = \<lambda>ts s. (True, None, snd s),
     so_refresh = \<lambda>_ s. s, so_timeout = \<lambda>_ s. s, so_valid = \<lambda>s. fst s \<noteq> None, so_has_value = \<lambda>s. fst s \<noteq> None, so_last_update = snd,
     so_turn = \<lambda>s. (case fst s of Some (CoreTurn t) \<Rightarrow> t | _ \<Rightarrow> TurnUnknown), so_status = \<lambda>_ s. if fst s = None then NoData else FreshnessUnverified,
     so_health = \<lparr>ho_transport = TrAwaitingTraffic, ho_message = MhUnknown, ho_signal = ShNoData, ho_last_frame = None,
       ho_last_accepted = None, ho_fault = None\<rparr>\<rparr>"

definition brake_frame :: can_frame where
  "brake_frame = \<lparr>rf_identifier = brake_pedal_id, rf_standard = True, rf_remote = False, rf_dlc = 8, rf_timestamp = 1000,
     rf_data = 0x10 # replicate 7 0, rf_valid = True, rf_bus = 0\<rparr>"

theorem newest_frame_decides_witness:
  "run_frames last_value_ops TrLive ([brake_frame] @ [brake_frame]) = run_frames last_value_ops TrLive [brake_frame]"
proof -
  have "observed brake_frame" by (simp add: observed_def brake_frame_def owned_ids_def)
  then have "deciding (rf_identifier brake_frame) [brake_frame] = Some brake_frame" by simp
  then show ?thesis using newest_frame_decides [where i = 0 and fs = "[brake_frame]" and S = last_value_ops and tr = TrLive and f = brake_frame]
    by blast
qed


text \<open>Drive in third gear, and an engine at 1000 revolutions (raw 4000) and 100.5 km/h (raw 10050).\<close>

definition gear_frame :: can_frame where
  "gear_frame = brake_frame\<lparr>rf_identifier := gear_id, rf_data := [0x04, 0, 0, 0, 0x06, 0, 0, 0]\<rparr>"

definition engine_frame :: can_frame where
  "engine_frame = brake_frame\<lparr>rf_identifier := engine_data_id, rf_data := [0x0F, 0xA0, 0x27, 0x42, 0xFF, 0xFF, 0, 0]\<rparr>"

theorem decoders_read_dbc_fields_witness:
  "fst (vs_selector_position (snd (mazda_decode last_value_ops gear_frame TrLive (vehicle_state_new last_value_ops)))) = Some (CoreSelector SelDrive)
 \<and> fst (vs_actual_gear (snd (mazda_decode last_value_ops gear_frame TrLive (vehicle_state_new last_value_ops)))) = Some (CoreGear GearThird)
 \<and> fst (vs_engine_rpm (snd (mazda_decode last_value_ops engine_frame TrLive (vehicle_state_new last_value_ops)))) = Some (CoreFloat (f32_of_int 1000))
 \<and> fst (vs_accelerator_pedal_position (snd (mazda_decode last_value_ops engine_frame TrLive (vehicle_state_new last_value_ops)))) = None"
proof -
  let ?v = "vehicle_state_new last_value_ops"
  have records: "replicate tracked_message_capacity no_message = no_message # replicate 6 no_message"
    using replicate_Suc [of 6 no_message] by (simp add: tracked_message_capacity_def del: replicate_Suc)
  have empty: "\<not> mr_has_frame no_message" by (simp add: no_message_def)
  then have unknown: "find_index (\<lambda>m. mr_has_frame m \<and> mr_identifier m = i) (replicate tracked_message_capacity no_message) = None" for i
    by (simp add: find_index_None)
  have free: "find_index (\<lambda>m. \<not> mr_has_frame m) (replicate tracked_message_capacity no_message) = Some 0"
    "replicate tracked_message_capacity no_message ! 0 = no_message" using empty by (simp_all add: records)
  have first: "fst (observe_message f DvDecoded ?v) = ObsAccepted" for f
    using empty by (simp add: observe_message_def vehicle_state_new_def find_or_allocate_record_def unknown free observe_record_def newer_frame_def
        split_beta) (simp add: tracked_message_capacity_def)
  have acc: "fst (observe_message gear_frame DvDecoded ?v) = ObsAccepted" "fst (observe_message engine_frame DvDecoded ?v) = ObsAccepted"
    by (rule first)+
  then obtain g e where g: "observe_message gear_frame DvDecoded ?v = (ObsAccepted, g)" and e: "observe_message engine_frame DvDecoded ?v = (ObsAccepted, e)"
    by (cases "observe_message gear_frame DvDecoded ?v"; cases "observe_message engine_frame DvDecoded ?v") auto
  have raw: "dbc_raw selector_definition (rf_data gear_frame) = 4" "dbc_raw actual_gear_definition (rf_data gear_frame) = 3"
    "dbc_raw engine_rpm_definition (rf_data engine_frame) = 4000" "dbc_raw accelerator_definition (rf_data engine_frame) = 65535"
    by (simp_all add: raw_words [symmetric] gear_frame_def engine_frame_def big_endian_u16_def)
  have ids: "rf_valid gear_frame" "rf_standard gear_frame" "\<not> rf_remote gear_frame" "rf_dlc gear_frame = candidate_dlc" "rf_identifier gear_frame = gear_id"
    "rf_valid engine_frame" "rf_standard engine_frame" "\<not> rf_remote engine_frame" "rf_dlc engine_frame = candidate_dlc"
    "rf_identifier engine_frame = engine_data_id"
    by (simp_all add: gear_frame_def engine_frame_def brake_frame_def candidate_dlc_def)
  have rpm: "f32_mul (f32_of_int 4000) (sd_scale engine_rpm_definition) = f32_of_int 1000"
    by (simp add: f32_of_int_def f32_eval definition_defs f32_inf_mag_def Let_def)
  show ?thesis
    using decoders_read_dbc_fields [OF ids(1-4) g refl, where S = last_value_ops and tr = TrLive]
      decoders_read_dbc_fields [OF ids(6-9) e refl, where S = last_value_ops and tr = TrLive]
    by (simp add: ids(5,10) raw rpm Let_def) (simp add: last_value_ops_def)
qed

end
