(* ===== verification/Json_Load.thy ===== *)
theory Json_Load
  imports Config_Store
begin

text \<open>
  The JSON loader of the persisted configuration (\<open>components/controller_config/src/persisted/json_loader.cpp\<close>): the
  preflight of the text, the walk over the tree of the third-party reader cJSON, and the recovery of a duration's
  source token. cJSON is a parameter: its parse of a text and its search for an object's member. A text is a list of
  bytes.
\<close>

section \<open>Trees\<close>

text \<open>The C++ \<open>double\<close> of a JSON number, as its binary64 pattern.\<close>

type_synonym f64 = "64 word"

datatype json = JNull | JBool bool | JNumber f64 | JString string | JArray "json list" | JObject "(string \<times> json) list"

type_synonym members = "(string \<times> json) list"

text \<open>
  A parse fails, and an allocation may have failed in it, or gives a tree and the end it reports; the search gives the
  position of the member it returns.
\<close>

datatype cj_outcome = CjFailed bool | CjTree json "nat option"

record cjson =
  cj_parse :: "string \<Rightarrow> cj_outcome"
  cj_get :: "members \<Rightarrow> string \<Rightarrow> nat option"

section \<open>Numbers\<close>

definition f64_negative :: "f64 \<Rightarrow> bool" where
  "f64_negative x = (2 ^ 63 \<le> x)"

definition f64_exponent :: "f64 \<Rightarrow> nat" where
  "f64_exponent x = unat x div 2 ^ 52 mod 2048"

definition f64_fraction :: "f64 \<Rightarrow> nat" where
  "f64_fraction x = unat x mod 2 ^ 52"

definition f64_isfinite :: "f64 \<Rightarrow> bool" where
  "f64_isfinite x = (f64_exponent x \<noteq> 2047)"

text \<open>The magnitude of a finite value, in units of \<open>2 ^ -1074\<close>.\<close>

definition f64_units :: "f64 \<Rightarrow> nat" where
  "f64_units x = (if f64_exponent x = 0 then f64_fraction x else (2 ^ 52 + f64_fraction x) * 2 ^ (f64_exponent x - 1))"

text \<open>\<open>static_cast<float>\<close>\<close>

definition f32_of_f64 :: "f64 \<Rightarrow> f32" where
  "f32_of_f64 x = (if f64_isfinite x then f32_make (f64_negative x) (round_mag (f64_units x) (2 ^ 925))
     else if f64_fraction x = 0 then f32_make (f64_negative x) f32_inf_mag
     else f32_nan)"

text \<open>The integer that a finite value is, if it is one.\<close>

definition f64_integer :: "f64 \<Rightarrow> int option" where
  "f64_integer x = (if f64_isfinite x \<and> f64_units x mod 2 ^ 1074 = 0
     then Some (let n = int (f64_units x div 2 ^ 1074) in if f64_negative x then - n else n) else None)"

section \<open>Text\<close>

definition digit_char :: "nat \<Rightarrow> char" where
  "digit_char d = char_of (48 + d)"

fun decimal :: "nat \<Rightarrow> string" where
  "decimal n = (if n < 10 then [digit_char n] else decimal (n div 10) @ [digit_char (n mod 10)])"

declare decimal.simps [simp del]

text \<open>\<open>std::to_string\<close>\<close>

definition to_string :: "int \<Rightarrow> string" where
  "to_string i = (if i < 0 then CHR ''-'' # decimal (nat (- i)) else decimal (nat i))"

definition quoted :: "string \<Rightarrow> string" where
  "quoted s = [CHR 0x27] @ s @ [CHR 0x27]"

definition is_digit :: "char \<Rightarrow> bool" where
  "is_digit c = (48 \<le> (of_char c :: nat) \<and> (of_char c :: nat) \<le> 57)"

definition digits_value :: "string \<Rightarrow> nat" where
  "digits_value ds = foldl (\<lambda>a c. 10 * a + (of_char c - 48)) 0 ds"

text \<open>\<open>std::from_chars\<close> of a 64-bit integer: the value and what it leaves, \<open>None\<close> for an error.\<close>

definition from_chars :: "string \<Rightarrow> (int \<times> string) option" where
  "from_chars s = (let negative = (s \<noteq> [] \<and> hd s = CHR ''-''); body = (if negative then tl s else s);
       digits = takeWhile is_digit body; magnitude = int (digits_value digits); i = (if negative then - magnitude else magnitude)
     in if digits = [] \<or> i < - (2 ^ 63) \<or> 2 ^ 63 \<le> i then None else Some (i, dropWhile is_digit body))"

section \<open>Diagnostics\<close>

type_synonym 'a loaded = "config_diagnostic + 'a"

definition and_then :: "'e + 'a \<Rightarrow> ('a \<Rightarrow> 'e + 'b) \<Rightarrow> 'e + 'b" where
  "and_then m f = (case m of Inl e \<Rightarrow> Inl e | Inr x \<Rightarrow> f x)"

definition refuse :: "config_error_category \<Rightarrow> config_error_code \<Rightarrow> string \<Rightarrow> string \<Rightarrow> validation_error \<Rightarrow> nat \<Rightarrow> 'a loaded" where
  "refuse category code path message schema_error index = Inl \<lparr>cd_category = category, cd_code = code, cd_schema_error = schema_error,
     cd_index = index, cd_path = path, cd_message = message\<rparr>"

definition structural :: "config_error_code \<Rightarrow> string \<Rightarrow> string \<Rightarrow> 'a loaded" where
  "structural code path message = refuse CatStructural code path message VNone 0"

definition child_path :: "string \<Rightarrow> string \<Rightarrow> string" where
  "child_path parent child = (if parent = [] then child else parent @ ''.'' @ child)"

definition indexed_path :: "string \<Rightarrow> nat \<Rightarrow> string" where
  "indexed_path parent index = parent @ ''['' @ to_string (int index) @ '']''"

section \<open>Fields\<close>

text \<open>The names before the current one, and the names from it on.\<close>

fun reject_names :: "string \<Rightarrow> string list \<Rightarrow> string list \<Rightarrow> string list \<Rightarrow> unit loaded" where
  "reject_names path allowed prior [] = Inr ()"
| "reject_names path allowed prior (name # names) = (if name \<in> set prior then
       structural InvalidValue (child_path path name) (''duplicate configuration field '' @ quoted name)
     else if name \<notin> set allowed then
       structural UnknownField (child_path path name) (''unknown configuration field '' @ quoted name)
     else reject_names path allowed (prior @ [name]) names)"

definition reject_unknown_fields :: "members \<Rightarrow> string \<Rightarrow> string list \<Rightarrow> unit loaded" where
  "reject_unknown_fields ms path allowed = reject_names path allowed [] (map fst ms)"

text \<open>A member with its position.\<close>

definition optional_field :: "cjson \<Rightarrow> members \<Rightarrow> string \<Rightarrow> (nat \<times> json) option" where
  "optional_field C ms name = map_option (\<lambda>k. (k, snd (ms ! k))) (cj_get C ms name)"

definition required_field :: "cjson \<Rightarrow> members \<Rightarrow> string \<Rightarrow> string \<Rightarrow> (nat \<times> json) loaded" where
  "required_field C ms name path = (case optional_field C ms name of
       None \<Rightarrow> structural MissingField (child_path path name) (''missing required field '' @ quoted name)
     | Some field \<Rightarrow> Inr field)"

definition require_object :: "json \<Rightarrow> string \<Rightarrow> members loaded" where
  "require_object v path = (case v of JObject ms \<Rightarrow> Inr ms
     | _ \<Rightarrow> structural FieldTypeMismatch path (''expected an object at '' @ quoted path))"

definition require_array :: "json \<Rightarrow> string \<Rightarrow> json list loaded" where
  "require_array v path = (case v of JArray vs \<Rightarrow> Inr vs
     | _ \<Rightarrow> structural FieldTypeMismatch path (''expected an array at '' @ quoted path))"

definition parse_string :: "json \<Rightarrow> string \<Rightarrow> string loaded" where
  "parse_string v path = (case v of JString s \<Rightarrow> Inr s
     | _ \<Rightarrow> structural FieldTypeMismatch path (''expected a string at '' @ quoted path))"

definition parse_finite_number :: "json \<Rightarrow> string \<Rightarrow> f32 loaded" where
  "parse_finite_number v path = (case v of JNumber x \<Rightarrow> (let f = f32_of_f64 x in
       if \<not> f64_isfinite x \<or> \<not> f32_isfinite f
       then refuse CatStructural InvalidValue path (''number at '' @ quoted path @ '' must be finite'') VInvalidOperand 0
       else Inr f)
     | _ \<Rightarrow> structural FieldTypeMismatch path (''expected a number at '' @ quoted path))"

definition parse_integer :: "json \<Rightarrow> string \<Rightarrow> int loaded" where
  "parse_integer v path = (case v of JNumber x \<Rightarrow>
       (let refused = structural InvalidValue path (''value at '' @ quoted path @ '' must be a finite integer'') in
        case f64_integer x of None \<Rightarrow> refused
        | Some i \<Rightarrow> if i < - (2 ^ 63) \<or> 2 ^ 63 \<le> i then refused else Inr i)
     | _ \<Rightarrow> structural FieldTypeMismatch path (''expected an integer at '' @ quoted path))"

definition parse_bool :: "json \<Rightarrow> string \<Rightarrow> bool loaded" where
  "parse_bool v path = (case v of JBool b \<Rightarrow> Inr b
     | _ \<Rightarrow> structural FieldTypeMismatch path (''expected a boolean at '' @ quoted path))"

definition parse_enum :: "('e \<times> string) list \<Rightarrow> json \<Rightarrow> string \<Rightarrow> 'e loaded" where
  "parse_enum table v path = and_then (parse_string v path) (\<lambda>name. case parse_name table name of
       None \<Rightarrow> structural InvalidValue path (''unsupported enum value '' @ quoted name)
     | Some e \<Rightarrow> Inr e)"

section \<open>Durations\<close>

text \<open>
  The numbers that come before a node in the order of the text: \<open>number_index\<close> counts them down to the node at a
  position (the indexes of the children on the way to it), and says whether it got there.
\<close>

fun json_children :: "json \<Rightarrow> json list" where
  "json_children (JArray vs) = vs"
| "json_children (JObject ms) = map snd ms"
| "json_children v = []"

definition json_is_number :: "json \<Rightarrow> bool" where
  "json_is_number v = (case v of JNumber _ \<Rightarrow> True | _ \<Rightarrow> False)"

definition below :: "nat list option \<Rightarrow> nat \<Rightarrow> nat list option" where
  "below target k = (case target of Some (i # rest) \<Rightarrow> if i = k then Some rest else None | _ \<Rightarrow> None)"

lemma json_children_weight: "(\<Sum>c \<leftarrow> json_children v. 3 * size c + 2) \<le> 3 * size v"
proof (cases v)
  case (JArray vs)
  have "(\<Sum>c \<leftarrow> vs. 3 * size c + 2) \<le> 3 * size_list size vs" by (induction vs) auto
  with JArray show ?thesis by simp
next
  case (JObject ms)
  have "(\<Sum>c \<leftarrow> map snd ms. 3 * size c + 2) \<le> 3 * size_list (size_prod (\<lambda>_. 0) size) ms" by (induction ms) auto
  with JObject show ?thesis by simp
qed simp_all

function number_index :: "json \<Rightarrow> nat list option \<Rightarrow> nat \<Rightarrow> bool \<times> nat"
  and number_index_children :: "json list \<Rightarrow> nat \<Rightarrow> nat list option \<Rightarrow> nat \<Rightarrow> bool \<times> nat" where
  "number_index v target index = (if target = Some [] then (True, index)
     else number_index_children (json_children v) 0 target (if json_is_number v then index + 1 else index))"
| "number_index_children [] k target index = (False, index)"
| "number_index_children (v # vs) k target index = (case number_index v (below target k) index of (found, index') \<Rightarrow>
     if found then (True, index') else number_index_children vs (Suc k) target index')"
  by pat_completeness auto
termination
  by (relation "measure (\<lambda>x. case x of Inl (v, _) \<Rightarrow> 3 * size v + 1 | Inr (vs, _) \<Rightarrow> \<Sum>c \<leftarrow> vs. 3 * size c + 2)")
     (use json_children_weight in \<open>auto intro: le_imp_less_Suc\<close>)

declare number_index.simps [simp del]

text \<open>The text after the closing quote of a string, and the number tokens of a text.\<close>

fun skip_string :: "string \<Rightarrow> string" where
  "skip_string [] = []"
| "skip_string (c # cs) = (if c = CHR 0x22 then cs else if c = CHR 0x5C then skip_string (tl cs) else skip_string cs)"

definition ends_token :: "char \<Rightarrow> bool" where
  "ends_token c = (c \<in> {CHR '','', CHR '']'', CHR ''}'', CHR '' '', CHR 0x09, CHR 0x0D, CHR 0x0A})"

definition starts_token :: "char \<Rightarrow> bool" where
  "starts_token c = (c = CHR ''-'' \<or> is_digit c)"

lemma length_skip_string: "length (skip_string cs) \<le> length cs"
  by (induction cs rule: skip_string.induct) auto

lemma starts_not_ends: "starts_token c \<Longrightarrow> \<not> ends_token c"
  by (auto simp: starts_token_def ends_token_def is_digit_def)

function number_token :: "string \<Rightarrow> nat \<Rightarrow> string" where
  "number_token [] number = []"
| "number_token (c # cs) number = (if c = CHR 0x22 then number_token (skip_string cs) number
     else if \<not> starts_token c then number_token cs number
     else if number = 0 then takeWhile (\<lambda>d. \<not> ends_token d) (c # cs)
     else number_token (dropWhile (\<lambda>d. \<not> ends_token d) (c # cs)) (number - 1))"
  by pat_completeness auto
termination
  by (relation "measure (\<lambda>(cs, _). length cs)")
     (use length_skip_string length_dropWhile_le in \<open>auto simp: starts_not_ends intro: le_imp_less_Suc\<close>)

text \<open>The limits and defaults the build generates; the tree and the text of the whole document.\<close>

record config_defaults =
  df_effect_priority :: int
  df_fill_priority :: int
  df_transient_priority :: int
  df_solid_priority :: int
  df_pixel_count :: int

record source_document =
  sd_root :: json
  sd_text :: string

definition duration_range :: "catalog_limits \<Rightarrow> string" where
  "duration_range lim = to_string (cl_duration_min lim) @ ''..'' @ to_string (cl_duration_max lim)"

definition parse_duration :: "catalog_limits \<Rightarrow> source_document \<Rightarrow> json \<Rightarrow> nat list \<Rightarrow> string \<Rightarrow> int loaded" where
  "parse_duration lim doc v position path = (if \<not> json_is_number v then structural FieldTypeMismatch path ''duration_ms must be an integer number''
     else case number_index (sd_root doc) (Some position) 0 of (found, index) \<Rightarrow>
       if \<not> found then refuse CatStructural InvalidValue path ''duration_ms source number was not found in the parsed document'' VInvalidDuration 0
       else let refused = refuse CatStructural InvalidValue path (''duration_ms must use an integer token in '' @ duration_range lim)
             VInvalidDuration 0 in
         (case from_chars (number_token (sd_text doc) index) of None \<Rightarrow> refused
          | Some (i, rest) \<Rightarrow> if rest \<noteq> [] then refused else Inr i))"

section \<open>Rules\<close>

definition parse_operand :: "members \<Rightarrow> string \<Rightarrow> p_operand loaded" where
  "parse_operand ms path = and_then (reject_unknown_fields ms path [''boolean'', ''number'', ''choice'']) (\<lambda>_.
     case ms of [(name, v)] \<Rightarrow> (let value_path = child_path path name in
         if name = ''boolean'' then and_then (parse_bool v value_path) (\<lambda>b. Inr (PBoolean b))
         else if name = ''number'' then and_then (parse_finite_number v value_path) (\<lambda>x. Inr (PNumber x))
         else and_then (parse_string v value_path) (\<lambda>key. Inr (PChoice key)))
     | _ \<Rightarrow> structural InvalidValue path ''operand must contain exactly one of boolean, number or choice'')"

definition parse_numeric_range :: "cjson \<Rightarrow> json \<Rightarrow> string \<Rightarrow> numeric_range loaded" where
  "parse_numeric_range C v path = and_then (require_object v path) (\<lambda>ms.
     and_then (reject_unknown_fields ms path [''from'', ''to'']) (\<lambda>_.
     and_then (required_field C ms ''from'' path) (\<lambda>(_, lo).
     and_then (required_field C ms ''to'' path) (\<lambda>(_, hi).
     and_then (parse_finite_number lo (child_path path ''from'')) (\<lambda>a.
     and_then (parse_finite_number hi (child_path path ''to'')) (\<lambda>b.
       Inr \<lparr>nr_from = a, nr_to = b\<rparr>))))))"

definition parse_condition :: "cjson \<Rightarrow> members \<Rightarrow> string \<Rightarrow> p_condition loaded" where
  "parse_condition C ms path =
     and_then (required_field C ms ''signal_key'' path) (\<lambda>(_, signal).
     and_then (parse_string signal (child_path path ''signal_key'')) (\<lambda>key.
     and_then (required_field C ms ''comparison'' path) (\<lambda>(_, comparison).
     and_then (parse_enum comparison_names comparison (child_path path ''comparison'')) (\<lambda>c.
     and_then (required_field C ms ''operand'' path) (\<lambda>(_, operand).
     and_then (require_object operand (child_path path ''operand'')) (\<lambda>fields.
     and_then (parse_operand fields (child_path path ''operand'')) (\<lambda>x.
       Inr \<lparr>pc_key = key, pc_comparison = c, pc_operand = x\<rparr>)))))))"

definition parse_freshness :: "cjson \<Rightarrow> members \<Rightarrow> string \<Rightarrow> freshness_requirement loaded" where
  "parse_freshness C ms path = (case optional_field C ms ''freshness'' of None \<Rightarrow> Inr ReqFresh
     | Some (_, v) \<Rightarrow> parse_enum freshness_names v (child_path path ''freshness''))"

definition parse_action_name :: "cjson \<Rightarrow> members \<Rightarrow> string \<Rightarrow> string loaded" where
  "parse_action_name C ms path = and_then (required_field C ms ''action'' path) (\<lambda>(_, v). parse_string v (child_path path ''action''))"

text \<open>\<open>parse_rule_body\<close> for each alternative.\<close>

definition parse_state_body :: "cjson \<Rightarrow> members \<Rightarrow> string \<Rightarrow> p_state_rule loaded" where
  "parse_state_body C ms path =
     and_then (parse_action_name C ms path) (\<lambda>action.
     and_then (parse_freshness C ms path) (\<lambda>freshness.
     and_then (parse_condition C ms path) (\<lambda>condition.
       Inr \<lparr>psr_action = action, psr_condition = condition, psr_freshness = freshness\<rparr>)))"

definition parse_sampled_body :: "cjson \<Rightarrow> members \<Rightarrow> string \<Rightarrow> p_sampled_rule loaded" where
  "parse_sampled_body C ms path =
     and_then (parse_action_name C ms path) (\<lambda>action.
     and_then (parse_freshness C ms path) (\<lambda>freshness.
     and_then (parse_condition C ms path) (\<lambda>condition.
     and_then (case optional_field C ms ''release_threshold'' of None \<Rightarrow> Inr None
       | Some (_, v) \<Rightarrow> and_then (parse_finite_number v (child_path path ''release_threshold'')) (\<lambda>x. Inr (Some x))) (\<lambda>release.
       Inr \<lparr>pss_action = action, pss_condition = condition, pss_freshness = freshness, pss_release = release\<rparr>))))"

definition parse_event_body :: "cjson \<Rightarrow> members \<Rightarrow> string \<Rightarrow> p_event_rule loaded" where
  "parse_event_body C ms path =
     and_then (parse_action_name C ms path) (\<lambda>action.
     and_then (parse_freshness C ms path) (\<lambda>freshness.
     and_then (parse_condition C ms path) (\<lambda>condition.
     and_then (required_field C ms ''edge'' path) (\<lambda>(_, v).
     and_then (parse_enum edge_names v (child_path path ''edge'')) (\<lambda>edge.
       Inr \<lparr>per_action = action, per_condition = condition, per_edge = edge, per_freshness = freshness\<rparr>)))))"

definition parse_range_body :: "cjson \<Rightarrow> members \<Rightarrow> string \<Rightarrow> p_range_rule loaded" where
  "parse_range_body C ms path =
     and_then (parse_action_name C ms path) (\<lambda>action.
     and_then (parse_freshness C ms path) (\<lambda>freshness.
     and_then (required_field C ms ''signal_key'' path) (\<lambda>(_, signal).
     and_then (parse_string signal (child_path path ''signal_key'')) (\<lambda>key.
     and_then (required_field C ms ''input'' path) (\<lambda>(_, input).
     and_then (parse_numeric_range C input (child_path path ''input'')) (\<lambda>domain.
     and_then (required_field C ms ''output'' path) (\<lambda>(_, output).
     and_then (parse_numeric_range C output (child_path path ''output'')) (\<lambda>image.
       Inr \<lparr>prr_action = action, prr_key = key, prr_input = domain, prr_output = image, prr_freshness = freshness\<rparr>))))))))"

definition parse_rule :: "cjson \<Rightarrow> members \<Rightarrow> string \<Rightarrow> p_rule loaded" where
  "parse_rule C ms path = and_then (required_field C ms ''type'' path) (\<lambda>(_, v).
     and_then (parse_enum rule_type_names v (child_path path ''type'')) (\<lambda>kind. case kind of
       StateType \<Rightarrow> and_then (reject_unknown_fields ms path
           [''type'', ''action'', ''signal_key'', ''comparison'', ''operand'', ''freshness''])
         (\<lambda>_. and_then (parse_state_body C ms path) (\<lambda>r. Inr (PersistedState r)))
     | SampledStateType \<Rightarrow> and_then (reject_unknown_fields ms path
           [''type'', ''action'', ''signal_key'', ''comparison'', ''operand'', ''freshness'', ''release_threshold''])
         (\<lambda>_. and_then (parse_sampled_body C ms path) (\<lambda>r. Inr (PersistedSampled r)))
     | EventType \<Rightarrow> and_then (reject_unknown_fields ms path
           [''type'', ''action'', ''signal_key'', ''comparison'', ''operand'', ''freshness'', ''edge''])
         (\<lambda>_. and_then (parse_event_body C ms path) (\<lambda>r. Inr (PersistedEvent r)))
     | RangeType \<Rightarrow> and_then (reject_unknown_fields ms path
           [''type'', ''action'', ''signal_key'', ''input'', ''output'', ''freshness''])
         (\<lambda>_. and_then (parse_range_body C ms path) (\<lambda>r. Inr (PersistedRange r)))))"

definition parse_action :: "cjson \<Rightarrow> members \<Rightarrow> string \<Rightarrow> string loaded" where
  "parse_action C ms path = and_then (reject_unknown_fields ms path [''name'']) (\<lambda>_.
     and_then (required_field C ms ''name'' path) (\<lambda>(_, v). parse_string v (child_path path ''name'')))"

section \<open>Outputs\<close>

definition parse_integer_field :: "cjson \<Rightarrow> members \<Rightarrow> string \<Rightarrow> string \<Rightarrow> int loaded" where
  "parse_integer_field C ms path name = and_then (required_field C ms name path) (\<lambda>(_, v). parse_integer v (child_path path name))"

definition parse_zone :: "cjson \<Rightarrow> json \<Rightarrow> string \<Rightarrow> p_zone loaded" where
  "parse_zone C v path = and_then (require_object v path) (\<lambda>ms.
     and_then (reject_unknown_fields ms path [''start'', ''length'', ''direction'']) (\<lambda>_.
     and_then (parse_integer_field C ms path ''start'') (\<lambda>start.
     and_then (parse_integer_field C ms path ''length'') (\<lambda>len.
     and_then (required_field C ms ''direction'' path) (\<lambda>(_, d).
     and_then (parse_enum direction_names d (child_path path ''direction'')) (\<lambda>direction.
       Inr \<lparr>pz_start = start, pz_length = len, pz_direction = direction\<rparr>))))))"

definition parse_color :: "cjson \<Rightarrow> json \<Rightarrow> string \<Rightarrow> p_rgb loaded" where
  "parse_color C v path = and_then (require_object v path) (\<lambda>ms.
     and_then (reject_unknown_fields ms path [''red'', ''green'', ''blue'']) (\<lambda>_.
     and_then (parse_integer_field C ms path ''red'') (\<lambda>red.
     and_then (parse_integer_field C ms path ''green'') (\<lambda>green.
     and_then (parse_integer_field C ms path ''blue'') (\<lambda>blue.
       Inr \<lparr>pr_red = red, pr_green = green, pr_blue = blue\<rparr>)))))"

text \<open>\<open>parse_binding_body\<close> for an effect, and for the bindings of a zone.\<close>

definition parse_priority :: "cjson \<Rightarrow> int \<Rightarrow> members \<Rightarrow> string \<Rightarrow> int loaded" where
  "parse_priority C otherwise ms path = (case optional_field C ms ''priority'' of None \<Rightarrow> Inr otherwise
     | Some (_, v) \<Rightarrow> parse_integer v (child_path path ''priority''))"

definition parse_effect_body :: "cjson \<Rightarrow> int \<Rightarrow> members \<Rightarrow> string \<Rightarrow> p_effect_binding loaded" where
  "parse_effect_body C otherwise ms path =
     and_then (parse_action_name C ms path) (\<lambda>action.
     and_then (parse_priority C otherwise ms path) (\<lambda>priority.
     and_then (required_field C ms ''effect'' path) (\<lambda>(_, v).
     and_then (parse_enum effect_names v (child_path path ''effect'')) (\<lambda>effect.
       Inr \<lparr>peb_action = action, peb_effect = effect, peb_priority = priority\<rparr>))))"

definition parse_zone_body :: "cjson \<Rightarrow> int \<Rightarrow> members \<Rightarrow> string \<Rightarrow> p_zone_binding loaded" where
  "parse_zone_body C otherwise ms path =
     and_then (parse_action_name C ms path) (\<lambda>action.
     and_then (parse_priority C otherwise ms path) (\<lambda>priority.
     and_then (required_field C ms ''zone'' path) (\<lambda>(_, z).
     and_then (parse_zone C z (child_path path ''zone'')) (\<lambda>zone.
     and_then (required_field C ms ''color'' path) (\<lambda>(_, c).
     and_then (parse_color C c (child_path path ''color'')) (\<lambda>color.
       Inr \<lparr>pzb_action = action, pzb_zone = zone, pzb_color = color, pzb_priority = priority\<rparr>))))))"

definition parse_output :: "cjson \<Rightarrow> catalog_limits \<Rightarrow> config_defaults \<Rightarrow> source_document \<Rightarrow> nat list \<Rightarrow> members \<Rightarrow> string \<Rightarrow> p_output loaded" where
  "parse_output C lim df doc position ms path = and_then (required_field C ms ''type'' path) (\<lambda>(_, v).
     and_then (parse_enum output_type_names v (child_path path ''type'')) (\<lambda>kind. case kind of
       LedEffectType \<Rightarrow> and_then (reject_unknown_fields ms path [''type'', ''action'', ''effect'', ''priority''])
         (\<lambda>_. and_then (parse_effect_body C (df_effect_priority df) ms path) (\<lambda>b. Inr (LedEffectOutput b)))
     | LedFillType \<Rightarrow> and_then (reject_unknown_fields ms path [''type'', ''action'', ''zone'', ''color'', ''priority''])
         (\<lambda>_. and_then (parse_zone_body C (df_fill_priority df) ms path) (\<lambda>b. Inr (LedFillOutput b)))
     | LedSolidType \<Rightarrow> and_then (reject_unknown_fields ms path [''type'', ''action'', ''zone'', ''color'', ''priority''])
         (\<lambda>_. and_then (parse_zone_body C (df_solid_priority df) ms path) (\<lambda>b. Inr (LedSolidOutput b)))
     | LedTransientType \<Rightarrow> and_then (reject_unknown_fields ms path
           [''type'', ''action'', ''zone'', ''color'', ''duration_ms'', ''priority''])
         (\<lambda>_. and_then (parse_zone_body C (df_transient_priority df) ms path) (\<lambda>b.
           and_then (required_field C ms ''duration_ms'' path) (\<lambda>(k, d).
           and_then (parse_duration lim doc d (position @ [k]) (child_path path ''duration_ms'')) (\<lambda>duration.
             Inr (LedTransientOutput \<lparr>pzb_action = pzb_action b, pzb_zone = pzb_zone b, pzb_color = pzb_color b,
               pzb_priority = pzb_priority b, ptb_duration_ms = duration\<rparr>)))))))"

section \<open>Sections\<close>

fun parse_items :: "(nat list \<Rightarrow> members \<Rightarrow> string \<Rightarrow> 'e loaded) \<Rightarrow> string \<Rightarrow> nat \<Rightarrow> nat \<Rightarrow> json list \<Rightarrow> 'e list loaded" where
  "parse_items item name k index [] = Inr []"
| "parse_items item name k index (v # vs) = (let path = indexed_path name index in
     case and_then (require_object v path) (\<lambda>ms. item [k, index] ms path) of
       Inl error \<Rightarrow> Inl (error\<lparr>cd_index := index\<rparr>)
     | Inr entry \<Rightarrow> and_then (parse_items item name k (Suc index) vs) (\<lambda>entries. Inr (entry # entries)))"

definition parse_array :: "cjson \<Rightarrow> members \<Rightarrow> string \<Rightarrow> (nat list \<Rightarrow> members \<Rightarrow> string \<Rightarrow> 'e loaded) \<Rightarrow> 'e list loaded" where
  "parse_array C ms name item = (case optional_field C ms name of None \<Rightarrow> Inr []
     | Some (k, v) \<Rightarrow> and_then (require_array v name) (\<lambda>vs. parse_items item name k 0 vs))"

definition parse_sinks :: "cjson \<Rightarrow> config_defaults \<Rightarrow> members \<Rightarrow> int loaded" where
  "parse_sinks C df root = (case optional_field C root ''sinks'' of None \<Rightarrow> Inr (df_pixel_count df)
     | Some (_, sinks) \<Rightarrow> and_then (require_object sinks ''sinks'') (\<lambda>ms.
         and_then (reject_unknown_fields ms ''sinks'' [''local_argb'']) (\<lambda>_.
         case optional_field C ms ''local_argb'' of None \<Rightarrow> Inr (df_pixel_count df)
         | Some (_, argb) \<Rightarrow> and_then (require_object argb ''sinks.local_argb'') (\<lambda>settings.
             and_then (reject_unknown_fields settings ''sinks.local_argb'' [''pixel_count'']) (\<lambda>_.
             case optional_field C settings ''pixel_count'' of None \<Rightarrow> Inr (df_pixel_count df)
             | Some (_, count) \<Rightarrow> parse_integer count ''sinks.local_argb.pixel_count'')))))"

section \<open>The document\<close>

definition max_json_nesting :: nat where
  "max_json_nesting = 16"

definition max_json_nodes :: nat where
  "max_json_nodes = 512"

definition validation_path :: "validation_result \<Rightarrow> string" where
  "validation_path r = (case vr_section r of SecSinks \<Rightarrow> ''sinks.local_argb.pixel_count''
     | SecActions \<Rightarrow> indexed_path ''actions'' (vr_index r)
     | SecRules \<Rightarrow> indexed_path ''rules'' (vr_index r)
     | SecOutputs \<Rightarrow> indexed_path ''outputs'' (vr_index r)
     | SecDocument \<Rightarrow> ''version'')"

fun validation_message :: "catalog_limits \<Rightarrow> validation_error \<Rightarrow> string" where
  "validation_message lim VInvalidPixelCount = ''pixel_count is outside the sink setting range''"
| "validation_message lim VUnsupportedVersion = ''unsupported configuration version; expected 1''"
| "validation_message lim VEmptyActionName = ''action name must not be empty''"
| "validation_message lim VDuplicateActionName = ''action name must be unique''"
| "validation_message lim VUndeclaredAction = ''action reference is not declared''"
| "validation_message lim VDuplicateAction = ''an action may have only one level rule''"
| "validation_message lim VEmptySignalKey = ''signal key must not be empty''"
| "validation_message lim VUnknownComparison = ''comparison is unsupported''"
| "validation_message lim VUnknownFreshness = ''freshness requirement is unsupported''"
| "validation_message lim VUnknownEventEdge = ''event edge is unsupported''"
| "validation_message lim VEmptyChoice = ''choice key must not be empty''"
| "validation_message lim VInvalidOperand = ''numeric operand must be finite''"
| "validation_message lim VUnsupportedComparison = ''ordered comparisons require a numeric operand''"
| "validation_message lim VInvalidHysteresis = ''release threshold must be on the release side of activation''"
| "validation_message lim VInvalidRange = ''range bounds and span must be finite, with ascending input''"
| "validation_message lim VUnknownLedEffect = ''LED effect is unsupported''"
| "validation_message lim VUnknownFillDirection = ''fill direction is unsupported''"
| "validation_message lim VEmptyZone = ''LED zone must not be empty''"
| "validation_message lim VZoneOutOfRange = ''LED zone must fit within the strip''"
| "validation_message lim VInvalidColor = ''RGB channels must be in '' @ to_string (ol_color_min (cl_fill lim)) @ ''..''
     @ to_string (ol_color_max (cl_fill lim))"
| "validation_message lim VInvalidPriority = ''priority must be in '' @ to_string (cl_effect_priority_min lim) @ ''..''
     @ to_string (cl_effect_priority_max lim)"
| "validation_message lim VDuplicateBinding = ''output binding target must be unique''"
| "validation_message lim VInvalidDuration = ''transient duration_ms must be in '' @ duration_range lim"
| "validation_message lim VIncompatibleActionKind = ''led_solid action must be driven by a state or sampled_state rule''"
| "validation_message lim VNone = ''configuration is valid''"

datatype input_preflight = PreflightOk | PreflightEmbeddedNul | PreflightTooDeep | PreflightResourceExhausted

text \<open>The loop over the text, with its nesting depth, its structural elements and its place in a string.\<close>

fun preflight_loop :: "nat \<Rightarrow> nat \<Rightarrow> bool \<Rightarrow> bool \<Rightarrow> string \<Rightarrow> input_preflight" where
  "preflight_loop depth elements in_string escaped [] = PreflightOk"
| "preflight_loop depth elements in_string escaped (c # cs) = (if c = CHR 0x00 then PreflightEmbeddedNul
     else if in_string then
       (if escaped then (if c = CHR ''u'' \<and> take 4 cs = ''0000'' then PreflightEmbeddedNul else preflight_loop depth elements True False cs)
        else if c = CHR 0x5C then preflight_loop depth elements True True cs
        else preflight_loop depth elements (c \<noteq> CHR 0x22) False cs)
     else if c = CHR 0x22 then preflight_loop depth elements True escaped cs
     else if c = CHR ''{'' \<or> c = CHR ''['' then
       (if max_json_nesting < depth + 1 then PreflightTooDeep
        else if max_json_nodes < elements + 1 then PreflightResourceExhausted
        else preflight_loop (depth + 1) (elements + 1) False escaped cs)
     else if c = CHR '','' then
       (if max_json_nodes < elements + 1 then PreflightResourceExhausted else preflight_loop depth (elements + 1) False escaped cs)
     else preflight_loop (if (c = CHR ''}'' \<or> c = CHR '']'') \<and> 0 < depth then depth - 1 else depth) elements False escaped cs)"

definition preflight_input :: "string \<Rightarrow> input_preflight" where
  "preflight_input text = preflight_loop 0 0 False False text"

definition is_blank :: "char \<Rightarrow> bool" where
  "is_blank c = (c = CHR '' '' \<or> c = CHR 0x09 \<or> c = CHR 0x0D \<or> c = CHR 0x0A)"

text \<open>The parse of a text that passed the preflight, down to the root's members.\<close>

definition parse_root :: "cjson \<Rightarrow> string \<Rightarrow> (json \<times> members) loaded" where
  "parse_root C text = (case cj_parse C text of
       CjFailed allocation_failed \<Rightarrow>
         (if allocation_failed then refuse CatParse ResourceExhausted ''$'' ''configuration JSON exhausted available memory'' VNone 0
          else refuse CatParse MalformedJson ''$'' ''malformed JSON input'' VNone 0)
     | CjTree root reached \<Rightarrow>
         (if (case reached of None \<Rightarrow> True | Some e \<Rightarrow> \<not> list_all is_blank (drop e text))
          then refuse CatParse MalformedJson ''$'' ''trailing data after JSON document'' VNone 0
          else case root of JObject ms \<Rightarrow> Inr (root, ms)
          | _ \<Rightarrow> structural RootTypeMismatch ''$'' ''configuration root must be an object''))"

definition load_document :: "cjson \<Rightarrow> catalog_limits \<Rightarrow> config_defaults \<Rightarrow> string \<Rightarrow> controller_config loaded" where
  "load_document C lim df text = and_then (parse_root C text) (\<lambda>(root, ms). let doc = \<lparr>sd_root = root, sd_text = text\<rparr> in
     and_then (reject_unknown_fields ms [] [''version'', ''actions'', ''rules'', ''outputs'', ''sinks'']) (\<lambda>_.
     and_then (parse_sinks C df ms) (\<lambda>pixel_count.
     and_then (required_field C ms ''version'' []) (\<lambda>(_, v).
     and_then (parse_integer v ''version'') (\<lambda>version.
     and_then (parse_array C ms ''actions'' (\<lambda>_. parse_action C)) (\<lambda>actions.
     and_then (parse_array C ms ''rules'' (\<lambda>_. parse_rule C)) (\<lambda>rules.
     and_then (parse_array C ms ''outputs'' (parse_output C lim df doc)) (\<lambda>outputs.
       let config = \<lparr>cc_version = version, cc_pixel_count = pixel_count, cc_actions = actions, cc_rules = rules, cc_outputs = outputs\<rparr>;
         validation = validate_config lim config in
       if vr_ok validation then Inr config
       else refuse CatSemantic SchemaValidation (validation_path validation) (validation_message lim (vr_error validation))
         (vr_error validation) (vr_index validation)))))))))"

definition drop_terminator :: "string \<Rightarrow> string" where
  "drop_terminator json = (if json \<noteq> [] \<and> last json = CHR 0x00 then butlast json else json)"

definition parse_text :: "cjson \<Rightarrow> catalog_limits \<Rightarrow> config_defaults \<Rightarrow> string \<Rightarrow> controller_config loaded" where
  "parse_text C lim df json = (let text = drop_terminator json in
     if max_json_bytes < length text then refuse CatParse InputTooLarge ''$'' ''configuration JSON exceeds maximum size'' VNone 0
     else case preflight_input text of
       PreflightOk \<Rightarrow> load_document C lim df text
     | PreflightEmbeddedNul \<Rightarrow> refuse CatParse EmbeddedNul ''$'' ''configuration JSON contains an embedded NUL character'' VNone 0
     | PreflightTooDeep \<Rightarrow> refuse CatParse NestingLimitExceeded ''$'' ''configuration JSON exceeds maximum nesting depth'' VNone 0
     | PreflightResourceExhausted \<Rightarrow> refuse CatParse ResourceExhausted ''$'' ''configuration JSON exceeds parser resource limits'' VNone 0)"

definition load_result :: "controller_config loaded \<Rightarrow> config_load" where
  "load_result r = (case r of Inl d \<Rightarrow> \<lparr>cf_configuration = None, cf_diagnostic = Some d\<rparr>
     | Inr config \<Rightarrow> \<lparr>cf_configuration = Some config, cf_diagnostic = None\<rparr>)"

definition parse_controller_config :: "cjson \<Rightarrow> catalog_limits \<Rightarrow> config_defaults \<Rightarrow> document \<Rightarrow> config_load" where
  "parse_controller_config C lim df json = load_result (parse_text C lim df (map (\<lambda>b. char_of (unat b)) json))"

end
