(* ===== verification/Json_Save.thy ===== *)
theory Json_Save
  imports Json_Load
begin

text \<open>
  The deterministic JSON spelling of a configuration (\<open>serialize_controller_config\<close> of
  \<open>components/controller_config/src/persisted/json_loader.cpp\<close>). Every \<open>append_\<close> function is the text it appends.
\<close>

section \<open>Strings\<close>

definition hex_digit :: "nat \<Rightarrow> char" where
  "hex_digit n = ''0123456789abcdef'' ! n"

definition json_char :: "char \<Rightarrow> string" where
  "json_char c = (if c = CHR 0x22 then [CHR 0x5C, CHR 0x22]
     else if c = CHR 0x5C then [CHR 0x5C, CHR 0x5C]
     else if c = CHR 0x08 then [CHR 0x5C, CHR ''b'']
     else if c = CHR 0x0C then [CHR 0x5C, CHR ''f'']
     else if c = CHR 0x0A then [CHR 0x5C, CHR ''n'']
     else if c = CHR 0x0D then [CHR 0x5C, CHR ''r'']
     else if c = CHR 0x09 then [CHR 0x5C, CHR ''t'']
     else if (of_char c :: nat) < 0x20 then
       [CHR 0x5C, CHR ''u'', CHR ''0'', CHR ''0'', hex_digit (of_char c div 16), hex_digit (of_char c mod 16)]
     else [c])"

definition json_string :: "string \<Rightarrow> string" where
  "json_string s = [CHR 0x22] @ concat (map json_char s) @ [CHR 0x22]"

text \<open>A name the source spells in a literal, and the key of a member.\<close>

definition literal :: "string \<Rightarrow> string" where
  "literal s = [CHR 0x22] @ s @ [CHR 0x22]"

definition key :: "string \<Rightarrow> string" where
  "key name = literal name @ '':''"

section \<open>Numbers\<close>

text \<open>
  \<open>snprintf ("%.9g")\<close> of a \<open>float\<close>: the decimal exponent of a magnitude of \<open>u\<close> units, its nine digits rounded to
  nearest even, and the spelling.
\<close>

definition reaches_power :: "int \<Rightarrow> nat \<Rightarrow> bool" where
  "reaches_power e u = (if 0 \<le> e then 10 ^ nat e * 2 ^ 149 \<le> u else 2 ^ 149 \<le> u * 10 ^ nat (- e))"

definition dec_exponent :: "nat \<Rightarrow> int" where
  "dec_exponent u = (case List.find (\<lambda>e. reaches_power e u) (map (\<lambda>i. 38 - int i) [0..<84]) of Some e \<Rightarrow> e | None \<Rightarrow> - 46)"

definition dec_digits :: "int \<Rightarrow> nat \<Rightarrow> nat" where
  "dec_digits e u = (if 8 \<le> e then half_even u (2 ^ 149 * 10 ^ nat (e - 8)) else half_even (u * 10 ^ nat (8 - e)) (2 ^ 149))"

definition scientific :: "nat \<Rightarrow> nat \<times> int" where
  "scientific u = (let e = dec_exponent u; d = dec_digits e u in if d = 10 ^ 9 then (10 ^ 8, e + 1) else (d, e))"

definition with_fraction :: "string \<Rightarrow> string \<Rightarrow> string" where
  "with_fraction whole fraction = (let f = rev (dropWhile (\<lambda>c. c = CHR ''0'') (rev fraction)) in if f = [] then whole else whole @ ''.'' @ f)"

definition exponent_text :: "int \<Rightarrow> string" where
  "exponent_text e = ''e'' @ (if e < 0 then ''-'' else ''+'') @ (let m = decimal (nat \<bar>e\<bar>) in if length m < 2 then ''0'' @ m else m)"

definition general_text :: "nat \<times> int \<Rightarrow> string" where
  "general_text x = (case x of (d, e) \<Rightarrow> let ds = decimal d in
     if e < - 4 \<or> 9 \<le> e then with_fraction (take 1 ds) (drop 1 ds) @ exponent_text e
     else if e < 0 then with_fraction ''0'' (replicate (nat (- e - 1)) (CHR ''0'') @ ds)
     else with_fraction (take (nat e + 1) ds) (drop (nat e + 1) ds))"

definition float_text :: "f32 \<Rightarrow> string" where
  "float_text x = (if f32_neg_bit x then ''-'' else []) @
     (if f32_is_nan x then ''nan'' else if \<not> f32_isfinite x then ''inf'' else if f32_mag x = 0 then ''0''
      else general_text (scientific (mag_units (f32_mag x))))"

section \<open>The document\<close>

definition enum_text :: "('e \<times> string) list \<Rightarrow> 'e \<Rightarrow> string" where
  "enum_text table e = json_string (value_or (name_of table e) [])"

definition operand_text :: "p_operand \<Rightarrow> string" where
  "operand_text x = ''{'' @ (case x of
       PBoolean b \<Rightarrow> key ''boolean'' @ (if b then ''true'' else ''false'')
     | PNumber f \<Rightarrow> key ''number'' @ float_text f
     | PChoice s \<Rightarrow> key ''choice'' @ json_string s) @ ''}''"

definition condition_text :: "p_condition \<Rightarrow> string" where
  "condition_text c = key ''signal_key'' @ json_string (pc_key c) @ '','' @ key ''comparison'' @ enum_text comparison_names (pc_comparison c)
     @ '','' @ key ''operand'' @ operand_text (pc_operand c)"

definition range_text :: "numeric_range \<Rightarrow> string" where
  "range_text r = ''{'' @ key ''from'' @ float_text (nr_from r) @ '','' @ key ''to'' @ float_text (nr_to r) @ ''}''"

definition rule_head :: "string \<Rightarrow> string \<Rightarrow> string" where
  "rule_head kind action = key ''type'' @ literal kind @ '','' @ key ''action'' @ json_string action @ '',''"

definition freshness_text :: "freshness_requirement \<Rightarrow> string" where
  "freshness_text f = '','' @ key ''freshness'' @ enum_text freshness_names f"

fun rule_text :: "p_rule \<Rightarrow> string" where
  "rule_text (PersistedState r) = ''{'' @ rule_head ''state'' (psr_action r) @ condition_text (psr_condition r)
     @ freshness_text (psr_freshness r) @ ''}''"
| "rule_text (PersistedSampled r) = ''{'' @ rule_head ''sampled_state'' (pss_action r) @ condition_text (pss_condition r)
     @ (case pss_release r of None \<Rightarrow> [] | Some x \<Rightarrow> '','' @ key ''release_threshold'' @ float_text x)
     @ freshness_text (pss_freshness r) @ ''}''"
| "rule_text (PersistedEvent r) = ''{'' @ rule_head ''event'' (per_action r) @ condition_text (per_condition r)
     @ '','' @ key ''edge'' @ enum_text edge_names (per_edge r) @ freshness_text (per_freshness r) @ ''}''"
| "rule_text (PersistedRange r) = ''{'' @ rule_head ''range'' (prr_action r) @ key ''signal_key'' @ json_string (prr_key r)
     @ '','' @ key ''input'' @ range_text (prr_input r) @ '','' @ key ''output'' @ range_text (prr_output r)
     @ freshness_text (prr_freshness r) @ ''}''"

definition zone_members_text :: "string \<Rightarrow> 'a p_zone_binding_scheme \<Rightarrow> string" where
  "zone_members_text kind b = rule_head kind (pzb_action b)
     @ key ''zone'' @ ''{'' @ key ''start'' @ to_string (pz_start (pzb_zone b)) @ '','' @ key ''length'' @ to_string (pz_length (pzb_zone b))
     @ '','' @ key ''direction'' @ enum_text direction_names (pz_direction (pzb_zone b))
     @ ''},'' @ key ''color'' @ ''{'' @ key ''red'' @ to_string (pr_red (pzb_color b)) @ '','' @ key ''green'' @ to_string (pr_green (pzb_color b))
     @ '','' @ key ''blue'' @ to_string (pr_blue (pzb_color b)) @ ''}''"

definition priority_text :: "int \<Rightarrow> string" where
  "priority_text p = '','' @ key ''priority'' @ to_string p"

fun output_text :: "p_output \<Rightarrow> string" where
  "output_text (LedEffectOutput b) = ''{'' @ rule_head ''led_effect'' (peb_action b) @ key ''effect'' @ enum_text effect_names (peb_effect b)
     @ priority_text (peb_priority b) @ ''}''"
| "output_text (LedFillOutput b) = ''{'' @ zone_members_text ''led_fill'' b @ priority_text (pzb_priority b) @ ''}''"
| "output_text (LedSolidOutput b) = ''{'' @ zone_members_text ''led_solid'' b @ priority_text (pzb_priority b) @ ''}''"
| "output_text (LedTransientOutput b) = ''{'' @ zone_members_text ''led_transient'' b
     @ '','' @ key ''duration_ms'' @ to_string (ptb_duration_ms b) @ priority_text (pzb_priority b) @ ''}''"

fun commas :: "string list \<Rightarrow> string" where
  "commas [] = []"
| "commas [x] = x"
| "commas (x # xs) = x @ '','' @ commas xs"

definition action_text :: "string \<Rightarrow> string" where
  "action_text name = ''{'' @ key ''name'' @ json_string name @ ''}''"

definition config_text :: "config_defaults \<Rightarrow> controller_config \<Rightarrow> string" where
  "config_text df c = ''{'' @ key ''version'' @ to_string (cc_version c)
     @ (if cc_pixel_count c \<noteq> df_pixel_count df
        then '','' @ key ''sinks'' @ ''{'' @ key ''local_argb'' @ ''{'' @ key ''pixel_count'' @ to_string (cc_pixel_count c) @ ''}}'' else [])
     @ '','' @ key ''actions'' @ ''['' @ commas (map action_text (cc_actions c)) @ '']''
     @ '','' @ key ''rules'' @ ''['' @ commas (map rule_text (cc_rules c)) @ '']''
     @ '','' @ key ''outputs'' @ ''['' @ commas (map output_text (cc_outputs c)) @ '']}''"

definition serialize_controller_config :: "config_defaults \<Rightarrow> controller_config \<Rightarrow> document" where
  "serialize_controller_config df c = map (\<lambda>c. of_nat (of_char c)) (config_text df c)"

end
