(* ===== verification/Json_Numbers.thy ===== *)
theory Json_Numbers
  imports Json_Save Complex_Main
begin

text \<open>
  What a JSON number token means: the \<open>double\<close> nearest to it, ties to even, as \<open>strtod\<close> gives it. A token that
  \<open>float_text\<close> writes means, once narrowed, the \<open>float\<close> it was written from, and one that \<open>to_string\<close> writes the integer.
\<close>

section \<open>Tokens\<close>

definition f64_inf_mag :: nat where
  "f64_inf_mag = 2047 * 2 ^ 52"

definition f64_make :: "bool \<Rightarrow> nat \<Rightarrow> f64" where
  "f64_make s m = of_nat (m + (if s then 2 ^ 63 else 0))"

text \<open>Magnitude bits of \<open>n / d\<close> units of \<open>2 ^ -1074\<close>.\<close>

definition round_mag64 :: "nat \<Rightarrow> nat \<Rightarrow> nat" where
  "round_mag64 n d = (let s = blen (n div d) - 53 in min f64_inf_mag (s * 2 ^ 52 + half_even n (d * 2 ^ s)))"

text \<open>Sign, digits and decimal exponent of a token, and its \<open>double\<close>.\<close>

definition fraction_part :: "string \<Rightarrow> string \<times> string" where
  "fraction_part r = (if r \<noteq> [] \<and> hd r = CHR ''.'' then (takeWhile is_digit (tl r), dropWhile is_digit (tl r)) else ([], r))"

definition exponent_part :: "string \<Rightarrow> int" where
  "exponent_part r = (if r = [] then 0 else let t = tl r in
     if t \<noteq> [] \<and> hd t = CHR ''-'' then - int (digits_value (tl t))
     else if t \<noteq> [] \<and> hd t = CHR ''+'' then int (digits_value (tl t))
     else int (digits_value t))"

definition token_number :: "string \<Rightarrow> bool \<times> nat \<times> int" where
  "token_number tok = (let negative = (tok \<noteq> [] \<and> hd tok = CHR ''-''); body = (if negative then tl tok else tok);
       whole = takeWhile is_digit body; (fraction, r) = fraction_part (dropWhile is_digit body)
     in (negative, digits_value (whole @ fraction), exponent_part r - int (length fraction)))"

definition token_double :: "string \<Rightarrow> f64" where
  "token_double tok = (case token_number tok of (negative, m, e) \<Rightarrow> f64_make negative
     (if 0 \<le> e then round_mag64 (m * 10 ^ nat e * 2 ^ 1074) 1 else round_mag64 (m * 2 ^ 1074) (10 ^ nat (- e))))"

section \<open>Decimal digits\<close>

lemma digit_char_digit: "d < 10 \<Longrightarrow> is_digit (digit_char d)"
  by (simp add: is_digit_def digit_char_def)

lemma digit_char_value: "d < 10 \<Longrightarrow> of_char (digit_char d) = 48 + d" for d :: nat
  by (simp add: digit_char_def)

lemma digits_value_append: "digits_value (xs @ ys) = digits_value xs * 10 ^ length ys + digits_value ys"
proof -
  have "foldl (\<lambda>a c. 10 * a + (of_char c - 48)) a ys = a * 10 ^ length ys + foldl (\<lambda>a c. 10 * a + (of_char c - 48)) 0 ys" for a :: nat
  proof (induction ys arbitrary: a)
    case (Cons y ys)
    show ?case using Cons.IH [of "10 * a + (of_char y - 48)"] Cons.IH [of "of_char y - 48"] by (simp add: algebra_simps)
  qed simp
  from this [of "digits_value xs"] show ?thesis by (simp add: digits_value_def)
qed

lemma digits_value_Nil [simp]: "digits_value [] = 0"
  by (simp add: digits_value_def)

lemma digits_value_digit: "d < 10 \<Longrightarrow> digits_value [digit_char d] = d"
  by (simp add: digits_value_def digit_char_value)

lemma digits_value_zeros [simp]: "digits_value (replicate n (CHR ''0'')) = 0"
  by (induction n) (simp_all add: digits_value_def)

lemma decimal_value [simp]: "digits_value (decimal n) = n"
proof (induction n rule: decimal.induct)
  case (1 n)
  then show ?case by (subst decimal.simps) (auto simp: digits_value_append digits_value_digit)
qed

lemma decimal_digits: "list_all is_digit (decimal n)"
proof (induction n rule: decimal.induct)
  case (1 n)
  then show ?case by (cases "n < 10") (simp_all add: decimal.simps [of n] digit_char_digit)
qed

lemma decimal_not_Nil [simp]: "decimal n \<noteq> []"
  by (subst decimal.simps) simp

lemma decimal_length: "10 ^ k \<le> n \<Longrightarrow> n < 10 ^ Suc k \<Longrightarrow> length (decimal n) = Suc k"
proof (induction k arbitrary: n)
  case 0
  then show ?case by (subst decimal.simps) simp
next
  case (Suc k)
  have "10 * 1 \<le> 10 * (10 :: nat) ^ k" by (rule mult_le_mono2) simp
  then have "\<not> n < 10" using Suc.prems(1) unfolding power_Suc by linarith
  moreover have "length (decimal (n div 10)) = Suc k"
    by (rule Suc.IH) (use Suc.prems in \<open>simp_all add: less_eq_div_iff_mult_less_eq div_less_iff_less_mult mult.commute\<close>)
  ultimately show ?case by (subst decimal.simps) simp
qed

section \<open>The number of a written token\<close>

lemma with_fraction_cases:
  obtains z f where "fraction = f @ replicate z (CHR ''0'')"
    and "with_fraction whole fraction = whole @ (if f = [] then [] else ''.'' @ f)"
proof -
  define t where "t = takeWhile (\<lambda>c. c = CHR ''0'') (rev fraction)"
  define f where "f = rev (dropWhile (\<lambda>c. c = CHR ''0'') (rev fraction))"
  have "\<And>c. c \<in> set t \<Longrightarrow> c = CHR ''0''" unfolding t_def by (drule set_takeWhileD) simp
  then have "replicate (length t) (CHR ''0'') = t" by (intro replicate_length_same) blast
  then have "rev t = replicate (length t) (CHR ''0'')" using rev_replicate [of "length t" "CHR ''0''"] by simp
  moreover have "rev fraction = t @ rev f" by (simp add: t_def f_def)
  then have "fraction = f @ rev t" by (metis rev_append rev_rev_ident)
  ultimately show ?thesis by (intro that [of f "length t"]) (simp_all add: with_fraction_def f_def Let_def)
qed

lemma takeWhile_digits: "list_all is_digit xs \<Longrightarrow> r = [] \<or> \<not> is_digit (hd r) \<Longrightarrow> takeWhile is_digit (xs @ r) = xs \<and> dropWhile is_digit (xs @ r) = r"
  by (cases r) (auto simp: list_all_iff takeWhile_append2 dropWhile_append2)

lemma digit_facts: "is_digit c \<Longrightarrow> c \<noteq> CHR ''-'' \<and> c \<noteq> CHR ''+'' \<and> c \<noteq> CHR ''.'' \<and> c \<noteq> CHR ''e''"
  by (auto simp: is_digit_def)

lemma not_digits: "\<not> is_digit (CHR ''.'')" "\<not> is_digit (CHR ''e'')" "\<not> is_digit (CHR ''-'')" "\<not> is_digit (CHR ''+'')"
  by (simp_all add: is_digit_def)

lemma token_number_parts:
  assumes whole: "list_all is_digit whole" "whole \<noteq> []" and f: "list_all is_digit f" and r: "r = [] \<or> hd r = CHR ''e''"
  shows "token_number ((if neg then ''-'' else []) @ whole @ (if f = [] then [] else ''.'' @ f) @ r) =
    (neg, digits_value (whole @ f), exponent_part r - int (length f))"
proof -
  define rest where "rest = (if f = [] then [] else ''.'' @ f) @ r"
  from r have r': "r = [] \<or> \<not> is_digit (hd r)" by (auto simp: not_digits)
  have rest: "rest = [] \<or> \<not> is_digit (hd rest)" using r' by (auto simp: rest_def not_digits)
  have hd: "hd (whole @ rest) \<noteq> CHR ''-''" using whole by (cases whole) (auto dest: digit_facts)
  have body: "takeWhile is_digit (whole @ rest) = whole" "dropWhile is_digit (whole @ rest) = rest"
    using takeWhile_digits [OF whole(1) rest] by simp_all
  have "fraction_part rest = (f, r)"
    using takeWhile_digits [OF f r'] r by (auto simp: fraction_part_def rest_def)
  with hd body whole(2) show ?thesis
    unfolding token_number_def rest_def [symmetric] by (cases neg) (simp_all add: Let_def)
qed

lemma exponent_text_value [simp]: "exponent_part (exponent_text e) = e"
proof -
  define m where "m = (let m = decimal (nat \<bar>e\<bar>) in if length m < 2 then ''0'' @ m else m)"
  have "digits_value m = nat \<bar>e\<bar>"
    using digits_value_append [of "''0''" "decimal (nat \<bar>e\<bar>)"] digits_value_zeros [of 1] by (simp add: m_def Let_def)
  then show ?thesis by (simp add: exponent_text_def exponent_part_def m_def [symmetric])
qed

lemma exponent_text_hd: "exponent_text e \<noteq> []" "hd (exponent_text e) = CHR ''e''"
  by (simp_all add: exponent_text_def)

text \<open>The digits and the exponent that \<open>general_text\<close> writes, up to the zeros it leaves out.\<close>

lemma general_text_number:
  assumes d: "10 ^ 8 \<le> d" "d < 10 ^ 9"
  shows "\<exists>m z. token_number ((if neg then ''-'' else []) @ general_text (d, e)) = (neg, m, e - 8 + int z) \<and> m * 10 ^ z = d"
proof -
  have len: "length (decimal d) = 9" using decimal_length [of 8 d] d by simp
  note split = digits_value_append [of "take k (decimal d)" "drop k (decimal d)" for k]
  have digits: "list_all is_digit (take k (decimal d))" "list_all is_digit (drop k (decimal d))" for k
    using decimal_digits [of d] unfolding list_all_iff by (auto dest: in_set_takeD in_set_dropD)
  have conclude: "\<exists>m z. token_number ((if neg then ''-'' else []) @ with_fraction whole fraction @ r) = (neg, m, e - 8 + int z) \<and> m * 10 ^ z = d"
    if whole: "list_all is_digit whole" "whole \<noteq> []" "list_all is_digit fraction" and val: "digits_value (whole @ fraction) = d"
      and r: "r = [] \<or> hd r = CHR ''e''" and e: "exponent_part r - int (length fraction) = e - 8" for whole fraction r
  proof -
    obtain z f where f: "fraction = f @ replicate z (CHR ''0'')"
      and wf: "with_fraction whole fraction = whole @ (if f = [] then [] else ''.'' @ f)" by (rule with_fraction_cases)
    from whole(3) f have "list_all is_digit f" by simp
    from token_number_parts [OF whole(1,2) this r, of neg] have
      "token_number ((if neg then ''-'' else []) @ with_fraction whole fraction @ r) = (neg, digits_value (whole @ f), exponent_part r - int (length f))"
      by (simp add: wf)
    moreover have "digits_value (whole @ f) * 10 ^ z = d"
      using val by (simp add: f digits_value_append [of "whole @ f" "replicate z (CHR ''0'')", simplified])
    moreover have "exponent_part r - int (length f) = e - 8 + int z" using e f by simp
    ultimately show ?thesis by auto
  qed
  consider (sci) "e < - 4 \<or> 9 \<le> e" | (low) "- 4 \<le> e" "e < 0" | (fixed) "0 \<le> e" "e < 9" by linarith
  then show ?thesis
  proof cases
    case sci
    have "exponent_part (exponent_text e) - int (length (drop 1 (decimal d))) = e - 8" by (simp add: len)
    from conclude [of "take 1 (decimal d)" "drop 1 (decimal d)" "exponent_text e", OF digits(1) _ digits(2) _ _ this] sci
    show ?thesis by (auto simp: general_text_def Let_def exponent_text_hd)
  next
    case low
    define zs where "zs = replicate (nat (- e - 1)) (CHR ''0'')"
    have "list_all is_digit (zs @ decimal d)"
      using decimal_digits [of d] by (auto simp: zs_def list_all_iff is_digit_def)
    moreover have "digits_value (''0'' @ zs @ decimal d) = d"
      using digits_value_zeros [of "Suc (nat (- e - 1))"] by (simp add: zs_def digits_value_append [of "CHR ''0'' # _", simplified])
    moreover have "exponent_part [] - int (length (zs @ decimal d)) = e - 8"
      using low by (simp add: exponent_part_def zs_def len)
    ultimately show ?thesis using conclude [of "''0''" "zs @ decimal d" "[]"] low
      by (auto simp: general_text_def Let_def zs_def is_digit_def)
  next
    case fixed
    have "exponent_part [] - int (length (drop (nat e + 1) (decimal d))) = e - 8"
      using fixed by (simp add: exponent_part_def len)
    from conclude [of "take (nat e + 1) (decimal d)" "drop (nat e + 1) (decimal d)" "[]", OF digits(1) _ digits(2) _ _ this] fixed
    show ?thesis by (auto simp: general_text_def Let_def)
  qed
qed

section \<open>Rounding to the nearest value\<close>

lemma half_even_real: "0 < d \<Longrightarrow> \<bar>real (half_even n d) - real n / real d\<bar> \<le> 1 / 2"
proof -
  assume d: "0 < d"
  define q r where "q = n div d" and "r = n mod d"
  have "real n = real q * real d + real r" unfolding q_def r_def by (metis div_mult_mod_eq of_nat_add of_nat_mult)
  with d have n: "real n / real d = real q + real r / real d" by (simp add: field_simps)
  have r: "0 \<le> real r / real d" "real r / real d < 1" using d by (simp_all add: r_def)
  show ?thesis
  proof (cases "d < 2 * r \<or> 2 * r = d \<and> odd q")
    case True
    then have "d \<le> 2 * r" by linarith
    then have "real d \<le> real (2 * r)" by (simp only: of_nat_le_iff)
    then have "1 / 2 \<le> real r / real d" using d by (simp add: field_simps)
    with True r show ?thesis by (simp add: half_even_def q_def [symmetric] r_def [symmetric] n)
  next
    case False
    then have "2 * r \<le> d" by linarith
    then have "real (2 * r) \<le> real d" by (simp only: of_nat_le_iff)
    then have "real r / real d \<le> 1 / 2" using d by (simp add: field_simps)
    moreover have "half_even n d = q" using False by (auto simp: half_even_def q_def [symmetric] r_def [symmetric] Let_def)
    ultimately show ?thesis using r by (simp add: n)
  qed
qed

lemma half_even_near: "0 < d \<Longrightarrow> \<bar>real n / real d - real j\<bar> < 1 / 2 \<Longrightarrow> half_even n d = j"
  using half_even_real [of d n] by linarith

text \<open>The values between two neighbouring magnitudes share their shift.\<close>

lemma mag_cell:
  obtains s h where "mag_units j = h * 2 ^ s" and "mag_units (Suc j) = (h + 1) * 2 ^ s" and "j = s * 8388608 + h" and "h < 2 ^ 24"
    and "\<forall>q. mag_units j \<le> q \<and> q < mag_units (Suc j) \<longrightarrow> round_shift q = s"
proof -
  define e f where "e = j div 8388608" and "f = j mod 8388608"
  have j: "j = e * 8388608 + f" and f: "f < 8388608" by (simp_all add: e_def f_def)
  define s h where "s = e - 1" and "h = (if e = 0 then f else 8388608 + f)"
  have lo: "mag_units j = h * 2 ^ s" using mag_units_split [OF f, of e] by (simp add: j s_def h_def)
  have hi: "mag_units (Suc j) = (h + 1) * 2 ^ s"
  proof (cases "Suc f < 8388608")
    case True
    then show ?thesis using mag_units_split [OF True, of e] by (simp add: j s_def h_def algebra_simps)
  next
    case False
    with f have ff: "f = 8388607" by simp
    have "Suc j = Suc e * 8388608 + 0" by (simp add: j ff)
    then have "mag_units (Suc j) = 8388608 * 2 ^ e" using mag_units_split [of 0 "Suc e"] by simp
    then show ?thesis by (cases e) (simp_all add: s_def h_def ff)
  qed
  have "round_shift q = s" if "mag_units j \<le> q" "q < mag_units (Suc j)" for q
  proof (cases "e = 0")
    case True
    then have "q < 2 ^ 24" using that(2) f by (simp add: hi s_def h_def)
    then have "blen q \<le> 24" by (simp add: blen_le_iff)
    then show ?thesis by (simp add: round_shift_def s_def True)
  next
    case False
    have "8388608 * 2 ^ s \<le> h * 2 ^ s" using False by (intro mult_le_mono1) (simp add: h_def)
    then have "8388608 * 2 ^ s \<le> q" using that(1) unfolding lo by (rule le_trans)
    then have "2 ^ (23 + s) \<le> q" by (simp add: power_add)
    moreover have "(h + 1) * 2 ^ s \<le> 16777216 * 2 ^ s" using f by (intro mult_le_mono1) (simp add: h_def)
    then have "q < 16777216 * 2 ^ s" using that(2) unfolding hi by (rule less_le_trans [rotated])
    then have "q < 2 ^ Suc (23 + s)" by (simp add: power_add)
    ultimately have "blen q = Suc (23 + s)" by (rule blen_unique)
    then show ?thesis by (simp add: round_shift_def)
  qed
  then have "\<forall>q. mag_units j \<le> q \<and> q < mag_units (Suc j) \<longrightarrow> round_shift q = s" by blast
  moreover have "j = s * 8388608 + h" "h < 2 ^ 24" using f by (auto simp: j s_def h_def algebra_simps)
  ultimately show ?thesis using lo hi by (intro that)
qed

lemma cell_rounds:
  assumes d: "0 < d" and q: "mag_units j * d \<le> n" "n < mag_units (Suc j) * d" and i: "i \<le> f32_inf_mag"
    and h: "mag_units j = h * 2 ^ s" "j = s * 8388608 + h" "\<forall>q. mag_units j \<le> q \<and> q < mag_units (Suc j) \<longrightarrow> round_shift q = s"
    and near: "\<bar>real n / real d - real (mag_units i)\<bar> < 2 ^ s / 2" and g: "mag_units i = g * 2 ^ s" "i = s * 8388608 + g"
  shows "round_mag n d = i"
proof -
  have "mag_units j \<le> n div d" "n div d < mag_units (Suc j)"
    using q d by (simp_all add: less_eq_div_iff_mult_less_eq div_less_iff_less_mult)
  then have s: "round_shift (n div d) = s" using h(3) by blast
  have "real n / real (d * 2 ^ s) - real g = (real n / real d - real (mag_units i)) / 2 ^ s"
    using d by (simp add: g(1) field_simps)
  then have "\<bar>real n / real (d * 2 ^ s) - real g\<bar> = \<bar>real n / real d - real (mag_units i)\<bar> / 2 ^ s" by (simp only: abs_divide) simp
  also have "\<dots> < (2 ^ s / 2) / 2 ^ s" using near by (intro divide_strict_right_mono) simp_all
  finally have "\<bar>real n / real (d * 2 ^ s) - real g\<bar> < 1 / 2" by simp
  then have "half_even n (d * 2 ^ s) = g" using d by (intro half_even_near) simp_all
  with s i g(2) show ?thesis by (simp add: round_mag_def Let_def)
qed

lemma near_rounds:
  assumes k: "0 < k" "k < f32_inf_mag" and d: "0 < d" and near: "\<bar>real n / real d - real (mag_units k)\<bar> \<le> real (mag_units k) / 2 ^ 26"
  shows "round_mag n d = k"
proof (cases "mag_units k * d \<le> n")
  case True
  obtain h s where c: "mag_units k = h * 2 ^ s" "mag_units (Suc k) = (h + 1) * 2 ^ s" "k = s * 8388608 + h" "h < 2 ^ 24"
    "\<forall>q. mag_units k \<le> q \<and> q < mag_units (Suc k) \<longrightarrow> round_shift q = s" by (rule mag_cell [of k]) (rule that, assumption+)
  have "real h < 2 ^ 24" using c(4) by (simp add: of_nat_less_numeral_iff)
  then have small: "real (mag_units k) / 2 ^ 26 < 2 ^ s / 4" by (simp add: c(1))
  have pos: "(0 :: real) < 2 ^ s" by simp
  with small near have half: "\<bar>real n / real d - real (mag_units k)\<bar> < 2 ^ s / 2" by linarith
  from small pos near have "real n / real d < real (mag_units k) + 2 ^ s" using near by linarith
  then have "real n / real d < real (mag_units (Suc k))" by (simp add: c(1,2) algebra_simps)
  then have "real n < real (mag_units (Suc k) * d)" using d by (simp add: field_simps)
  then have "n < mag_units (Suc k) * d" by (simp only: of_nat_less_iff)
  from cell_rounds [OF d True this _ c(1,3,5) half c(1,3)] k(2) show ?thesis by simp
next
  case False
  then have below: "n < mag_units k * d" by simp
  obtain j where j: "k = Suc j" using k(1) by (cases k) auto
  obtain h s where c: "mag_units j = h * 2 ^ s" "mag_units (Suc j) = (h + 1) * 2 ^ s" "j = s * 8388608 + h" "h < 2 ^ 24"
    "\<forall>q. mag_units j \<le> q \<and> q < mag_units (Suc j) \<longrightarrow> round_shift q = s" by (rule mag_cell [of j]) (rule that, assumption+)
  have "h + 1 \<le> 2 ^ 24" using c(4) by simp
  then have "real (h + 1) \<le> 2 ^ 24" by (metis of_nat_le_iff of_nat_numeral of_nat_power)
  then have small: "real (mag_units k) / 2 ^ 26 \<le> 2 ^ s / 4" by (simp add: c(2) j field_simps)
  have pos: "(0 :: real) < 2 ^ s" by simp
  with small near have half: "\<bar>real n / real d - real (mag_units k)\<bar> < 2 ^ s / 2" by linarith
  from small pos near have "real (mag_units k) - 2 ^ s \<le> real n / real d" using near by linarith
  then have "real (mag_units j) \<le> real n / real d" by (simp add: c(1,2) j algebra_simps)
  then have "real (mag_units j * d) \<le> real n" using d by (simp add: field_simps)
  then have "mag_units j * d \<le> n" by (simp only: of_nat_le_iff)
  from cell_rounds [OF d this _ _ c(1,3,5) half, of "h + 1"] below k(2) c(2,3) show ?thesis by (simp add: j)
qed

section \<open>Doubles\<close>

lemma f64_make_unat: "m < 2 ^ 63 \<Longrightarrow> unat (f64_make s m) = m + (if s then 2 ^ 63 else 0)"
  by (simp add: f64_make_def unat_of_nat_u64 del: of_nat_add)

lemma f64_make_fields:
  assumes m: "m < f64_inf_mag"
  shows "f64_negative (f64_make s m) = s" and "f64_isfinite (f64_make s m)"
    and "f64_exponent (f64_make s m) = m div 2 ^ 52" and "f64_fraction (f64_make s m) = m mod 2 ^ 52"
proof -
  have m63: "m < 2 ^ 63" using m by (simp add: f64_inf_mag_def)
  show "f64_negative (f64_make s m) = s"
    using f64_make_unat [OF m63, of s] m63 by (simp add: f64_negative_def word_le_nat_alt)
  have q: "m div 2 ^ 52 < 2047" using m by (simp add: f64_inf_mag_def div_less_iff_less_mult)
  have "(m + 2 ^ 63) div 2 ^ 52 = m div 2 ^ 52 + 2048" "(m + 2 ^ 63) mod 2 ^ 52 = m mod 2 ^ 52"
    using div_mult_self1 [of "2 ^ 52" m 2048] mod_mult_self1 [of m 2048 "2 ^ 52"] by simp_all
  then show e: "f64_exponent (f64_make s m) = m div 2 ^ 52" and "f64_fraction (f64_make s m) = m mod 2 ^ 52"
    using q unfolding f64_exponent_def f64_fraction_def f64_make_unat [OF m63] by (cases s; simp)+
  show "f64_isfinite (f64_make s m)" using q by (simp add: f64_isfinite_def e)
qed

lemma f64_units_cell:
  assumes "h < 2 ^ 53" "s * 2 ^ 52 + h < f64_inf_mag" "s = 0 \<or> 2 ^ 52 \<le> h"
  shows "f64_units (f64_make neg (s * 2 ^ 52 + h)) = h * 2 ^ s"
proof (cases "2 ^ 52 \<le> h")
  case True
  define g where "g = h - 2 ^ 52"
  have g: "h = 2 ^ 52 + g" "g < 2 ^ 52" using True assms(1) by (simp_all add: g_def)
  have "s * 2 ^ 52 + h = Suc s * 2 ^ 52 + g" by (simp add: g)
  then have "(s * 2 ^ 52 + h) div 2 ^ 52 = Suc s" "(s * 2 ^ 52 + h) mod 2 ^ 52 = g" using g(2) by simp_all
  then show ?thesis using f64_make_fields [OF assms(2), of neg] by (simp add: f64_units_def g(1))
next
  case False
  with assms(3) have "s = 0" "h < 2 ^ 52" by simp_all
  then show ?thesis using f64_make_fields [OF assms(2), of neg] by (simp add: f64_units_def)
qed

lemma f64_units_carry:
  assumes "h \<le> 2 ^ 53" "Suc s * 2 ^ 52 + 2 ^ 52 < f64_inf_mag" "2 ^ 52 \<le> h"
  shows "f64_units (f64_make neg (s * 2 ^ 52 + h)) = h * 2 ^ s"
proof (cases "h = 2 ^ 53")
  case True
  have "s * 2 ^ 52 + h = Suc s * 2 ^ 52 + 2 ^ 52" by (simp add: True)
  then show ?thesis using f64_units_cell [of "2 ^ 52" "Suc s" neg] assms(2) by (simp add: True add.commute)
next
  case False
  then show ?thesis using assms by (intro f64_units_cell) auto
qed

text \<open>A double in the normal range is within \<open>2 ^ -53\<close> of what it rounds.\<close>

lemma round_mag64_near:
  assumes d: "0 < d" and lo: "2 ^ 52 * d \<le> n" and hi: "n < 2 ^ 1900 * d"
  shows "round_mag64 n d < f64_inf_mag \<and>
    \<bar>real (f64_units (f64_make neg (round_mag64 n d))) - real n / real d\<bar> \<le> real n / real d / 2 ^ 53"
proof -
  define q s where "q = n div d" and "s = blen q - 53"
  have q: "2 ^ 52 \<le> q" "q < 2 ^ 1900" using lo hi d by (simp_all add: q_def less_eq_div_iff_mult_less_eq div_less_iff_less_mult)
  have b: "blen q \<le> 1900" by (simp only: blen_le_iff q(2))
  have "\<not> blen q \<le> 52" by (simp only: blen_le_iff not_less q(1))
  then have bs: "blen q = 53 + s" by (simp add: s_def)
  have "0 < q" using q(1) by (cases q) simp_all
  from blen_lower [OF this] blen_upper [of q] have cell: "2 ^ 52 * 2 ^ s \<le> q" "q < 2 ^ 53 * 2 ^ s"
    by (simp_all add: bs power_add)
  define h where "h = half_even n (d * 2 ^ s)"
  have "2 ^ 52 \<le> q div 2 ^ s" "q div 2 ^ s < 2 ^ 53" using cell by (simp_all add: less_eq_div_iff_mult_less_eq div_less_iff_less_mult)
  then have h: "2 ^ 52 \<le> h" "h \<le> 2 ^ 53"
    using half_even_bounds [of n "d * 2 ^ s"] by (simp_all add: h_def q_def div_mult2_eq)
  have "s \<le> 1847" using b bs by simp
  then have fit: "Suc s * 2 ^ 52 + 2 ^ 52 < f64_inf_mag" "s * 2 ^ 52 + h < f64_inf_mag"
    using h(2) by (simp_all add: f64_inf_mag_def)
  have r: "round_mag64 n d = s * 2 ^ 52 + h"
    using fit(2) by (simp add: round_mag64_def Let_def q_def [symmetric] s_def [symmetric] h_def [symmetric])
  have "\<bar>real h - real n / real (d * 2 ^ s)\<bar> \<le> 1 / 2" using half_even_real [of "d * 2 ^ s" n] d by (simp add: h_def)
  then have near: "\<bar>real h - real n / real (d * 2 ^ s)\<bar> * 2 ^ s \<le> 1 / 2 * 2 ^ s" by (rule mult_right_mono) simp
  have "real (h * 2 ^ s) - real n / real d = (real h - real n / real (d * 2 ^ s)) * 2 ^ s" using d by (simp add: field_simps)
  then have "\<bar>real (h * 2 ^ s) - real n / real d\<bar> = \<bar>real h - real n / real (d * 2 ^ s)\<bar> * 2 ^ s" by (simp only: abs_mult) simp
  also have "\<dots> \<le> 2 ^ s / 2" using near by simp
  finally have err: "\<bar>real (h * 2 ^ s) - real n / real d\<bar> \<le> 2 ^ s / 2" .
  have "2 ^ 52 * 2 ^ s * d \<le> n" using cell(1) d by (simp add: q_def less_eq_div_iff_mult_less_eq)
  then have "real (2 ^ 52 * 2 ^ s * d) \<le> real n" by (simp only: of_nat_le_iff)
  then have "2 ^ 52 * 2 ^ s \<le> real n / real d" using d by (simp add: field_simps)
  then have "2 ^ s / 2 \<le> real n / real d / 2 ^ 53" by (simp add: field_simps)
  with err fit(2) show ?thesis using f64_units_carry [OF h(2) fit(1) h(1), of neg] by (simp add: r)
qed

section \<open>Nine digits determine a float\<close>

lemma cross_real: "0 < p \<Longrightarrow> 0 < a \<Longrightarrow> 1 / p \<le> x / a \<longleftrightarrow> a \<le> x * p" "0 < a \<Longrightarrow> y \<le> x / a \<longleftrightarrow> y * a \<le> x" for p a x y :: real
  by (simp_all add: field_simps)

lemma ten_powi_pos: "0 \<le> e \<Longrightarrow> 10 powi e = (10 :: real) ^ nat e"
  by (simp add: power_int_def)

lemma ten_powi_neg: "e \<le> 0 \<Longrightarrow> 10 powi e = 1 / (10 :: real) ^ nat (- e)"
  using power_int_minus [of "10 :: real" "- e"] ten_powi_pos [of "- e"] by (simp add: inverse_eq_divide)

lemma reaches_power_real: "reaches_power e u \<longleftrightarrow> 10 powi e \<le> real u / 2 ^ 149"
proof (cases "0 \<le> e")
  case True
  then have p: "10 powi e = (10 :: real) ^ nat e" by (rule ten_powi_pos)
  have "10 ^ nat e * 2 ^ 149 \<le> u \<longleftrightarrow> real (10 ^ nat e * 2 ^ 149) \<le> real u" by (simp only: of_nat_le_iff)
  then show ?thesis using True by (simp add: reaches_power_def p cross_real(2))
next
  case False
  then have p: "10 powi e = 1 / (10 :: real) ^ nat (- e)" by (intro ten_powi_neg) simp
  have "2 ^ 149 \<le> u * 10 ^ nat (- e) \<longleftrightarrow> real (2 ^ 149) \<le> real (u * 10 ^ nat (- e))" by (simp only: of_nat_le_iff)
  then show ?thesis using False unfolding reaches_power_def p by (subst cross_real(1)) simp_all
qed

lemma dec_exponent_bounds:
  assumes u: "0 < u" "u < 2 ^ 277"
  shows "10 powi dec_exponent u \<le> real u / 2 ^ 149" and "real u / 2 ^ 149 < 10 powi (dec_exponent u + 1)"
    and "- 45 \<le> dec_exponent u" and "dec_exponent u \<le> 38"
proof -
  define es where "es = map (\<lambda>i. 38 - int i) [0..<84]"
  have es: "length es = 84" "i < 84 \<Longrightarrow> es ! i = 38 - int i" for i by (simp_all add: es_def)
  have "1 * 10 ^ 45 \<le> u * 10 ^ 45" using u(1) by (intro mult_le_mono1) simp
  then have "reaches_power (- 45) u" by (simp add: reaches_power_def)
  then have "reaches_power (es ! 83) u" by (simp add: es)
  then obtain e where e: "List.find (\<lambda>e. reaches_power e u) es = Some e"
    using es(1) by (cases "List.find (\<lambda>e. reaches_power e u) es") (auto simp: find_None_iff)
  then obtain i where i: "i < 84" "reaches_power (es ! i) u" "e = es ! i" "\<And>j. j < i \<Longrightarrow> \<not> reaches_power (es ! j) u"
    using es(1) by (auto simp: find_Some_iff)
  have de: "dec_exponent u = 38 - int i" using e i by (simp add: dec_exponent_def es_def [symmetric] es)
  show "10 powi dec_exponent u \<le> real u / 2 ^ 149" using i(1,2) by (simp add: de es reaches_power_real)
  show "- 45 \<le> dec_exponent u" "dec_exponent u \<le> 38" using i(1) by (simp_all add: de)
  have "\<not> reaches_power (dec_exponent u + 1) u"
  proof (cases i)
    case 0
    have "u < 10 ^ 39 * 2 ^ 149" using u(2) by (rule less_le_trans) simp
    then show ?thesis by (simp add: de 0 reaches_power_def)
  next
    case (Suc j)
    then show ?thesis using i(4) [of j] i(1) by (simp add: de es)
  qed
  then show "real u / 2 ^ 149 < 10 powi (dec_exponent u + 1)" by (simp add: reaches_power_real)
qed

lemma dec_digits_near: "\<bar>real (dec_digits e u) - real u / 2 ^ 149 * 10 powi (8 - e)\<bar> \<le> 1 / 2"
proof (cases "8 \<le> e")
  case True
  then have "10 powi (8 - e) = 1 / (10 :: real) ^ nat (e - 8)" using ten_powi_neg [of "8 - e"] by simp
  then have "real u / 2 ^ 149 * 10 powi (8 - e) = real u / real (2 ^ 149 * 10 ^ nat (e - 8))" by (simp only:) simp
  with True show ?thesis by (simp only: dec_digits_def if_True) (rule half_even_real, simp)
next
  case False
  then have "real u / 2 ^ 149 * 10 powi (8 - e) = real (u * 10 ^ nat (8 - e)) / real (2 ^ 149)" using ten_powi_pos [of "8 - e"] by simp
  with False show ?thesis by (simp only: dec_digits_def if_False) (rule half_even_real, simp)
qed

lemma scientific_near:
  assumes u: "0 < u" "u < 2 ^ 277" and sc: "scientific u = (d, e)"
  shows "10 ^ 8 \<le> d" and "d < 10 ^ 9" and "\<bar>real d * 10 powi (e - 8) - real u / 2 ^ 149\<bar> \<le> real u / 2 ^ 149 / (2 * 10 ^ 8)"
proof -
  define x v n where "x = dec_exponent u" and "v = real u / 2 ^ 149" and "n = dec_digits x u"
  note bounds = dec_exponent_bounds [OF u, folded x_def v_def]
  have split: "10 powi (8 - x) * 10 powi (x - 8) = (1 :: real)" "10 powi x = 10 ^ 8 * (10 :: real) powi (x - 8)"
    "10 powi (x + 1) = 10 ^ 9 * (10 :: real) powi (x - 8)"
    using power_int_add [of "10 :: real" "8 - x" "x - 8"] power_int_add [of "10 :: real" 8 "x - 8"]
      power_int_add [of "10 :: real" 9 "x - 8"] by (simp_all add: diff_add_eq [symmetric] add.commute del: power_int_add_numeral power_int_add_1)
  have pos: "0 < (10 :: real) powi (x - 8)" by simp
  define w where "w = v * 10 powi (8 - x)"
  have vw: "v = w * 10 powi (x - 8)" using split(1) by (simp add: w_def mult.assoc)
  have w: "10 ^ 8 \<le> w" "w < 10 ^ 9" using bounds(1,2) pos unfolding vw split(2,3) by simp_all
  have near: "\<bar>real n - w\<bar> \<le> 1 / 2" using dec_digits_near [of x u] by (simp add: n_def w_def v_def)
  have "real (10 ^ 8) < real n + 1" "real n < real (10 ^ 9) + 1" using near w unfolding abs_le_iff by simp_all
  then have n: "10 ^ 8 \<le> n" "n \<le> 10 ^ 9" by (simp_all only: of_nat_add [symmetric] of_nat_1 [symmetric, where 'a = real] of_nat_less_iff)
  have "\<bar>real n * 10 powi (x - 8) - v\<bar> = \<bar>real n - w\<bar> * 10 powi (x - 8)"
    using pos abs_mult [of "real n - w" "10 powi (x - 8)"] by (simp add: vw left_diff_distrib)
  also have "\<dots> \<le> 1 / 2 * 10 powi (x - 8)" using near pos by (intro mult_right_mono) simp_all
  also have "\<dots> \<le> v / (2 * 10 ^ 8)" using w(1) pos by (simp add: vw)
  finally have err: "\<bar>real n * 10 powi (x - 8) - v\<bar> \<le> v / (2 * 10 ^ 8)" .
  have de: "(d, e) = (if n = 10 ^ 9 then (10 ^ 8, x + 1) else (n, x))"
    using sc by (auto simp: scientific_def Let_def x_def n_def split: if_splits)
  have "real d * 10 powi (e - 8) = real n * 10 powi (x - 8)"
    using de power_int_add [of "10 :: real" "x - 8" 1] by (auto split: if_splits simp: algebra_simps)
  with err show "\<bar>real d * 10 powi (e - 8) - real u / 2 ^ 149\<bar> \<le> real u / 2 ^ 149 / (2 * 10 ^ 8)" by (simp add: v_def)
  show "10 ^ 8 \<le> d" "d < 10 ^ 9" using de n by (auto split: if_splits)
qed

lemma token_double_near:
  assumes tok: "token_number tok = (neg, m, e)" and lo: "2 ^ 52 \<le> real m * 10 powi e * 2 ^ 1074" and hi: "real m * 10 powi e * 2 ^ 1074 < 2 ^ 1900"
  shows "\<exists>r. token_double tok = f64_make neg r \<and> r < f64_inf_mag \<and>
    \<bar>real (f64_units (f64_make neg r)) - real m * 10 powi e * 2 ^ 1074\<bar> \<le> real m * 10 powi e * 2 ^ 1074 / 2 ^ 53"
proof -
  define n d :: nat where "n = (if 0 \<le> e then m * 10 ^ nat e * 2 ^ 1074 else m * 2 ^ 1074)" and "d = (if 0 \<le> e then 1 else 10 ^ nat (- e))"
  have d: "0 < d" by (simp add: d_def)
  have nd: "real n / real d = real m * 10 powi e * 2 ^ 1074"
    using ten_powi_pos [of e] ten_powi_neg [of e] by (simp add: n_def d_def)
  have "2 ^ 52 * real d \<le> real n" "real n < 2 ^ 1900 * real d" using lo hi d unfolding nd [symmetric] by (simp_all add: field_simps)
  then have "real (2 ^ 52 * d) \<le> real n" "real n < real (2 ^ 1900 * d)" by simp_all
  then have "2 ^ 52 * d \<le> n" "n < 2 ^ 1900 * d" by (simp_all only: of_nat_le_iff of_nat_less_iff)
  moreover have "token_double tok = f64_make neg (round_mag64 n d)" by (simp add: token_double_def tok n_def d_def)
  ultimately show ?thesis using round_mag64_near [OF d, of n neg] unfolding nd by blast
qed

lemma float_text_token_double:
  assumes x: "f32_isfinite x" shows "f64_isfinite (token_double (float_text x)) \<and> f32_of_f64 (token_double (float_text x)) = x"
proof (cases "f32_mag x = 0")
  case True
  have "token_number (float_text x) = (f32_neg_bit x, 0, 0)"
    using x True token_number_parts [of "''0''" "[]" "[]" "f32_neg_bit x"] f32_isfinite_not_nan [OF x] digits_value_zeros [of 1]
    by (simp add: float_text_def exponent_part_def is_digit_def)
  then have t: "token_double (float_text x) = f64_make (f32_neg_bit x) 0"
    by (simp add: token_double_def round_mag64_def half_even_def)
  have "f64_make (f32_neg_bit x) 0 = f64_make (f32_neg_bit x) (0 * 2 ^ 52 + 0)" by simp
  then have "f64_units (f64_make (f32_neg_bit x) 0) = 0" using f64_units_cell [of 0 0 "f32_neg_bit x"] by (simp add: f64_inf_mag_def)
  then show ?thesis
    using f64_make_fields [of 0 "f32_neg_bit x"] f32_make_eta [of x] True by (simp add: t f32_of_f64_def f64_inf_mag_def)
next
  case False
  define k u where "k = f32_mag x" and "u = mag_units k"
  have k: "0 < k" "k < f32_inf_mag" using x False by (simp_all add: k_def f32_isfinite_def)
  have "mag_units f32_inf_mag = 2 ^ 277" by (simp add: mag_units_def f32_inf_mag_def)
  then have u: "0 < u" "u < 2 ^ 277" using k mag_units_less_iff [of k f32_inf_mag] by (simp_all add: u_def)
  obtain d e where sc: "scientific u = (d, e)" by (cases "scientific u")
  from scientific_near [OF u sc] have near: "10 ^ 8 \<le> d" "d < 10 ^ 9"
    "\<bar>real d * 10 powi (e - 8) - real u / 2 ^ 149\<bar> \<le> real u / 2 ^ 149 / (2 * 10 ^ 8)" .
  have spelled: "float_text x = (if f32_neg_bit x then ''-'' else []) @ general_text (d, e)"
    using x False f32_isfinite_not_nan [OF x] sc by (simp add: float_text_def u_def k_def)
  obtain m z where tok: "token_number (float_text x) = (f32_neg_bit x, m, e - 8 + int z)" and m: "m * 10 ^ z = d"
    using general_text_number [OF near(1,2), of "f32_neg_bit x" e] unfolding spelled by blast
  have "real m * 10 powi (e - 8 + int z) = real d * 10 powi (e - 8)"
    using power_int_add [of "10 :: real" "e - 8" "int z"] by (simp add: m [symmetric])
  then have T: "real m * 10 powi (e - 8 + int z) * 2 ^ 1074 = real d * 10 powi (e - 8) * 2 ^ 1074" by simp
  define v t where "v = real u" and "t = real d * 10 powi (e - 8) * 2 ^ 149"
  have tt: "real d * 10 powi (e - 8) * 2 ^ 1074 = t * 2 ^ 925" by (simp add: t_def)
  have "t - v = (real d * 10 powi (e - 8) - v / 2 ^ 149) * 2 ^ 149" by (simp add: t_def left_diff_distrib)
  then have "\<bar>t - v\<bar> = \<bar>real d * 10 powi (e - 8) - v / 2 ^ 149\<bar> * 2 ^ 149" by (simp only: abs_mult) simp
  also have "\<dots> \<le> v / 2 ^ 149 / (2 * 10 ^ 8) * 2 ^ 149" using near(3) by (intro mult_right_mono) (simp_all add: v_def)
  finally have tv: "\<bar>t - v\<bar> \<le> v / (2 * 10 ^ 8)" by simp
  have v: "1 \<le> v" "v < 2 ^ 277" using u(1) u(2) [folded of_nat_less_iff [where 'a = real]] by (simp_all add: v_def)
  then have t: "1 / 2 \<le> t" "t < 2 ^ 278" using tv unfolding abs_le_iff by simp_all
  then have "2 ^ 52 \<le> t * 2 ^ 925" "t * 2 ^ 925 < 2 ^ 1900" by simp_all
  from token_double_near [OF tok, unfolded T tt, OF this] obtain r where r: "token_double (float_text x) = f64_make (f32_neg_bit x) r"
    "r < f64_inf_mag" "\<bar>real (f64_units (f64_make (f32_neg_bit x) r)) - t * 2 ^ 925\<bar> \<le> t * 2 ^ 925 / 2 ^ 53" by blast
  define y where "y = f64_units (f64_make (f32_neg_bit x) r)"
  have "real y / 2 ^ 925 - t = (real y - t * 2 ^ 925) / 2 ^ 925" by (simp add: diff_divide_distrib)
  then have "\<bar>real y / 2 ^ 925 - t\<bar> = \<bar>real y - t * 2 ^ 925\<bar> / 2 ^ 925" by (simp only: abs_divide) simp
  also have "\<dots> \<le> t * 2 ^ 925 / 2 ^ 53 / 2 ^ 925" using r(3) by (intro divide_right_mono) (simp_all add: y_def)
  finally have "\<bar>real y / 2 ^ 925 - t\<bar> \<le> t / 2 ^ 53" by simp
  then have "\<bar>real y / 2 ^ 925 - v\<bar> \<le> v / 2 ^ 26" using tv v(1) unfolding abs_le_iff by simp
  then have "round_mag y (2 ^ 925) = k" by (intro near_rounds k) (simp_all add: u_def [symmetric] v_def)
  then show ?thesis
    using f64_make_fields [OF r(2), of "f32_neg_bit x"] f32_make_eta [of x] by (simp add: r(1) f32_of_f64_def y_def [symmetric] k_def)
qed

section \<open>Integers\<close>

lemma to_string_number: "token_number (to_string i) = (i < 0, nat \<bar>i\<bar>, 0)"
  using token_number_parts [of "decimal (nat \<bar>i\<bar>)" "[]" "[]" "i < 0"] by (auto simp: to_string_def decimal_digits exponent_part_def)

lemma blen_shift: "0 < n \<Longrightarrow> blen (n * 2 ^ k) = blen n + k"
proof -
  assume n: "0 < n"
  then have "blen n \<noteq> 0" by (subst blen.simps) simp
  then obtain p where p: "blen n = Suc p" by (cases "blen n") auto
  have "2 ^ p * 2 ^ k \<le> n * 2 ^ k" "n * 2 ^ k < 2 ^ Suc p * 2 ^ k"
    using blen_lower [OF n] blen_upper [of n] by (simp_all add: p)
  then have "blen (n * 2 ^ k) = Suc (p + k)" by (intro blen_unique) (simp_all add: power_add)
  then show ?thesis by (simp add: p)
qed

text \<open>An integer of at most 53 bits is its own double.\<close>

lemma to_string_token_double:
  assumes "\<bar>i\<bar> < 2 ^ 53" shows "f64_integer (token_double (to_string i)) = Some i"
proof -
  define n where "n = nat \<bar>i\<bar>"
  have n: "n < 2 ^ 53" using assms by (simp add: n_def)
  have "\<exists>r. token_double (to_string i) = f64_make (i < 0) r \<and> r < f64_inf_mag \<and> f64_units (f64_make (i < 0) r) = n * 2 ^ 1074"
  proof (cases "n = 0")
    case True
    then have "token_double (to_string i) = f64_make (i < 0) (0 * 2 ^ 52 + 0)"
      by (simp add: token_double_def to_string_number n_def round_mag64_def half_even_def)
    moreover have "f64_units (f64_make (i < 0) (0 * 2 ^ 52 + 0)) = 0 * 2 ^ 0" by (rule f64_units_cell) (simp_all add: f64_inf_mag_def)
    ultimately show ?thesis using True by (intro exI [of _ "0 * 2 ^ 52 + 0"]) (simp add: f64_inf_mag_def)
  next
    case False
    define b where "b = blen n"
    have b: "0 < b" "b \<le> 53" using False n by (simp_all add: b_def blen_le_iff) (subst blen.simps, simp)
    define s h where "s = b + 1021" and "h = n * 2 ^ (53 - b)"
    have "blen (n * 2 ^ 1074) - 53 = s" using blen_shift [of n 1074] False b by (simp add: b_def s_def)
    moreover have "n * 2 ^ 1074 = h * 2 ^ s" using b(2) by (simp add: h_def s_def mult.assoc power_add [symmetric])
    then have "half_even (n * 2 ^ 1074) (2 ^ s) = h" by (simp only:) (rule half_even_exact, simp)
    moreover have hs: "2 ^ 52 \<le> h" "h < 2 ^ 53"
    proof -
      have "2 ^ (b - 1) * 2 ^ (53 - b) \<le> h" "h < 2 ^ b * 2 ^ (53 - b)"
        using blen_lower [of n] blen_upper [of n] False by (simp_all add: h_def b_def)
      then show "2 ^ 52 \<le> h" "h < 2 ^ 53" using b by (simp_all add: power_add [symmetric])
    qed
    moreover have fit: "s * 2 ^ 52 + h < f64_inf_mag" using b hs by (simp add: s_def f64_inf_mag_def)
    ultimately have "round_mag64 (n * 2 ^ 1074) 1 = s * 2 ^ 52 + h" by (simp add: round_mag64_def Let_def)
    then have "token_double (to_string i) = f64_make (i < 0) (s * 2 ^ 52 + h)" by (simp add: token_double_def to_string_number n_def)
    moreover have "f64_units (f64_make (i < 0) (s * 2 ^ 52 + h)) = h * 2 ^ s" using hs fit by (intro f64_units_cell) simp_all
    ultimately show ?thesis using fit \<open>n * 2 ^ 1074 = h * 2 ^ s\<close> by auto
  qed
  then obtain r where r: "token_double (to_string i) = f64_make (i < 0) r" "r < f64_inf_mag" "f64_units (f64_make (i < 0) r) = n * 2 ^ 1074" by blast
  show ?thesis using f64_make_fields [OF r(2), of "i < 0"] r(1,3) by (simp add: f64_integer_def n_def Let_def)
qed

lemma to_string_from_chars: "- (2 ^ 63) \<le> i \<Longrightarrow> i < 2 ^ 63 \<Longrightarrow> from_chars (to_string i) = Some (i, [])"
proof -
  assume i: "- (2 ^ 63) \<le> i" "i < 2 ^ 63"
  have d: "takeWhile is_digit (decimal n) = decimal n" "dropWhile is_digit (decimal n) = []" for n
    using takeWhile_digits [of "decimal n" "[]", OF decimal_digits] by auto
  have "hd (decimal n) \<noteq> CHR ''-''" for n using decimal_digits [of n] by (cases "decimal n") (auto dest: digit_facts)
  with i show ?thesis
    using decimal_digits [unfolded list_all_iff] by (auto simp: d from_chars_def to_string_def Let_def zless_nat_eq_int_zless nat_le_eq_zle)
qed

text \<open>What a written number looks like: it starts and goes on as a token does.\<close>

definition token_char :: "char \<Rightarrow> bool" where
  "token_char c \<longleftrightarrow> is_digit c \<or> c \<in> {CHR ''-'', CHR ''+'', CHR ''.'', CHR ''e'', CHR ''E''}"

definition token_ok :: "string \<Rightarrow> bool" where
  "token_ok tok \<longleftrightarrow> tok \<noteq> [] \<and> starts_token (hd tok) \<and> list_all token_char tok"

lemma token_ok_signed:
  assumes "list_all is_digit whole" "whole \<noteq> []" "list_all token_char rest"
  shows "token_ok ((if neg then ''-'' else []) @ whole @ rest)"
proof -
  have "starts_token (hd whole)" "list_all token_char whole"
    using assms(1,2) by (cases whole; auto simp: starts_token_def token_char_def list_all_iff)+
  with assms(2,3) show ?thesis by (auto simp: token_ok_def starts_token_def token_char_def hd_append)
qed

lemma to_string_token: "token_ok (to_string i)"
  using token_ok_signed [of "decimal (nat \<bar>i\<bar>)" "[]" "i < 0"] decimal_digits by (auto simp: to_string_def)

lemma digits_token_chars: "list_all is_digit xs \<Longrightarrow> list_all token_char xs"
  by (auto simp: list_all_iff token_char_def)

lemma with_fraction_token:
  assumes "list_all is_digit whole" "whole \<noteq> []" "list_all is_digit fraction" "list_all token_char r"
  shows "token_ok ((if neg then ''-'' else []) @ with_fraction whole fraction @ r)"
proof -
  obtain z f where f: "fraction = f @ replicate z (CHR ''0'')" and wf: "with_fraction whole fraction = whole @ (if f = [] then [] else ''.'' @ f)"
    by (rule with_fraction_cases)
  have "list_all token_char f" using assms(3) by (auto simp: f intro: digits_token_chars)
  then show ?thesis
    using token_ok_signed [OF assms(1,2), of "(if f = [] then [] else ''.'' @ f) @ r" neg] assms(4) by (simp add: wf token_char_def)
qed

lemma exponent_text_chars: "list_all token_char (exponent_text e)"
  using decimal_digits [of "nat \<bar>e\<bar>"] by (auto simp: exponent_text_def Let_def token_char_def is_digit_def intro: digits_token_chars)

lemma float_text_token:
  assumes x: "f32_isfinite x" shows "token_ok (float_text x)"
proof (cases "f32_mag x = 0")
  case True
  then show ?thesis
    using x token_ok_signed [of "''0''" "[]" "f32_neg_bit x"] f32_isfinite_not_nan [OF x] by (simp add: float_text_def is_digit_def)
next
  case False
  obtain d e where sc: "scientific (mag_units (f32_mag x)) = (d, e)" by (cases "scientific (mag_units (f32_mag x))")
  have digits: "list_all is_digit (take k (decimal d))" "list_all is_digit (drop k (decimal d))" for k
    using decimal_digits [of d] unfolding list_all_iff by (auto dest: in_set_takeD in_set_dropD)
  have "list_all is_digit (replicate n (CHR ''0'') @ decimal d)" for n using decimal_digits [of d] by (auto simp: list_all_iff is_digit_def)
  then have "token_ok ((if f32_neg_bit x then ''-'' else []) @ general_text (d, e))"
    using with_fraction_token [of "take k (decimal d)" "drop k (decimal d)" "[]" "f32_neg_bit x" for k]
      with_fraction_token [of "take 1 (decimal d)" "drop 1 (decimal d)" "exponent_text e" "f32_neg_bit x"]
      with_fraction_token [of "''0''" _ "[]" "f32_neg_bit x"] digits exponent_text_chars [of e]
    by (simp add: general_text_def Let_def is_digit_def)
  then show ?thesis using x False sc f32_isfinite_not_nan [OF x] by (simp add: float_text_def)
qed

end
