(* ===== verification/Json_Text.thy ===== *)
theory Json_Text
  imports Json_Numbers
begin

text \<open>
  Source trees: what a JSON text says before its numbers are read. The grammar relates a tree to its texts, blanks and
  escapes included; the number tokens of a tree stand in its texts in the order of \<open>number_index\<close>, so that
  \<open>number_token\<close> finds the token of a node.
\<close>

section \<open>Source trees\<close>

datatype jsrc = SNull | SBool bool | SNum string | SStr string | SArr "jsrc list" | SObj "(string \<times> jsrc) list"

primrec tree_of :: "jsrc \<Rightarrow> json" where
  "tree_of SNull = JNull"
| "tree_of (SBool b) = JBool b"
| "tree_of (SNum tok) = JNumber (token_double tok)"
| "tree_of (SStr s) = JString s"
| "tree_of (SArr vs) = JArray (map tree_of vs)"
| "tree_of (SObj ms) = JObject (map (map_prod id tree_of) ms)"

primrec src_tokens :: "jsrc \<Rightarrow> string list" where
  "src_tokens SNull = []"
| "src_tokens (SBool b) = []"
| "src_tokens (SNum tok) = [tok]"
| "src_tokens (SStr s) = []"
| "src_tokens (SArr vs) = concat (map src_tokens vs)"
| "src_tokens (SObj ms) = concat (map snd (map (map_prod id src_tokens) ms))"

fun src_children :: "jsrc \<Rightarrow> jsrc list" where
  "src_children (SArr vs) = vs"
| "src_children (SObj ms) = map snd ms"
| "src_children v = []"

fun src_at :: "jsrc \<Rightarrow> nat list \<Rightarrow> jsrc option" where
  "src_at v [] = Some v"
| "src_at v (k # ks) = (if k < length (src_children v) then src_at (src_children v ! k) ks else None)"

lemma tree_children: "json_children (tree_of v) = map tree_of (src_children v)"
  by (cases v) (simp_all add: comp_def)

lemma tokens_children: "\<forall>tok. v \<noteq> SNum tok \<Longrightarrow> src_tokens v = concat (map src_tokens (src_children v))"
  by (cases v) (simp_all add: comp_def)

section \<open>Counting the numbers\<close>

lemma number_index_children_none:
  assumes "\<And>u n. u \<in> set us \<Longrightarrow> number_index (tree_of u) None n = (False, n + length (src_tokens u))"
  shows "number_index_children (map tree_of us) k None n = (False, n + length (concat (map src_tokens us)))"
  using assms by (induction us arbitrary: k n) (simp_all add: below_def)

lemma number_index_none: "number_index (tree_of u) None n = (False, n + length (src_tokens u))"
proof (induction u arbitrary: n)
  case (SArr vs)
  then show ?case using number_index_children_none [of vs 0 n] by (simp add: number_index.simps json_is_number_def)
next
  case (SObj ms)
  have "number_index_children (map tree_of (map snd ms)) 0 None n = (False, n + length (concat (map src_tokens (map snd ms))))"
    by (rule number_index_children_none) (use SObj in \<open>auto simp: prod_set_simps\<close>)
  then show ?case by (simp add: number_index.simps json_is_number_def comp_def)
qed (simp_all add: number_index.simps json_is_number_def)

lemma number_index_children_at:
  assumes "i < length us" and "\<And>n. number_index (tree_of (us ! i)) (Some q) n = (True, n + j)"
  shows "number_index_children (map tree_of us) k (Some ((k + i) # q)) n = (True, n + length (concat (map src_tokens (take i us))) + j)"
  using assms
proof (induction us arbitrary: i k n)
  case (Cons u us)
  show ?case
  proof (cases i)
    case 0
    with Cons.prems show ?thesis by (simp add: below_def)
  next
    case (Suc i')
    with Cons.IH [of i' "Suc k"] Cons.prems show ?thesis by (simp add: below_def number_index_none)
  qed
qed simp

lemma number_index_at:
  "src_at u p = Some (SNum tok) \<Longrightarrow> \<exists>j < length (src_tokens u). src_tokens u ! j = tok \<and> (\<forall>n. number_index (tree_of u) (Some p) n = (True, n + j))"
proof (induction p arbitrary: u)
  case Nil
  then show ?case by (simp add: number_index.simps)
next
  case (Cons i q)
  define us where "us = src_children u"
  from Cons.prems have i: "i < length us" and at: "src_at (us ! i) q = Some (SNum tok)"
    by (simp_all add: us_def split: if_splits)
  from Cons.IH [OF at] obtain j where j: "j < length (src_tokens (us ! i))" "src_tokens (us ! i) ! j = tok"
    "\<And>n. number_index (tree_of (us ! i)) (Some q) n = (True, n + j)" by blast
  have u: "\<forall>t. u \<noteq> SNum t" using i by (cases u) (simp_all add: us_def)
  define before where "before = concat (map src_tokens (take i us))"
  have "us = take i us @ us ! i # drop (Suc i) us" using i by (rule take_drop_nth_split)
  then have toks: "src_tokens u = before @ src_tokens (us ! i) @ concat (map src_tokens (drop (Suc i) us))"
    unfolding tokens_children [OF u] us_def [symmetric] before_def by (metis concat.simps(2) concat_append list.simps(9) map_append)
  have "\<not> json_is_number (tree_of u)" using u by (cases u) (simp_all add: json_is_number_def)
  then have "number_index (tree_of u) (Some (i # q)) n = (True, n + (length before + j))" for n
    using number_index_children_at [OF i j(3), of 0 n]
    by (simp add: number_index.simps tree_children us_def [symmetric] before_def)
  then show ?case using j(1,2) by (intro exI [of _ "length before + j"]) (simp add: toks nth_append)
qed

section \<open>Texts\<close>

definition blanks :: "string \<Rightarrow> bool" where
  "blanks w \<longleftrightarrow> list_all is_blank w"

definition simple_escapes :: "(char \<times> char) list" where
  "simple_escapes = [(CHR 0x22, CHR 0x22), (CHR 0x5C, CHR 0x5C), (CHR ''/'', CHR ''/''), (CHR ''b'', CHR 0x08), (CHR ''f'', CHR 0x0C),
     (CHR ''n'', CHR 0x0A), (CHR ''r'', CHR 0x0D), (CHR ''t'', CHR 0x09)]"

definition is_hex :: "char \<Rightarrow> bool" where
  "is_hex c \<longleftrightarrow> c \<in> set ''0123456789abcdefABCDEF''"

text \<open>What stands between the quotes of a string, and the bytes it means.\<close>

inductive spells :: "string \<Rightarrow> string \<Rightarrow> bool" where
  none: "spells [] []"
| plain: "spells b s \<Longrightarrow> c \<noteq> CHR 0x22 \<Longrightarrow> c \<noteq> CHR 0x5C \<Longrightarrow> spells (c # b) (c # s)"
| escaped: "spells b s \<Longrightarrow> (x, c) \<in> set simple_escapes \<Longrightarrow> spells (CHR 0x5C # x # b) (c # s)"
| unicode: "spells b s \<Longrightarrow> length h = 4 \<Longrightarrow> list_all is_hex h \<Longrightarrow> spells (CHR 0x5C # CHR ''u'' # h @ b) (w @ s)"

inductive src_text :: "jsrc \<Rightarrow> string \<Rightarrow> bool" where
  null: "src_text SNull ''null''"
| true: "src_text (SBool True) ''true''"
| false: "src_text (SBool False) ''false''"
| num: "token_ok tok \<Longrightarrow> src_text (SNum tok) tok"
| str: "spells b s \<Longrightarrow> src_text (SStr s) ([CHR 0x22] @ b @ [CHR 0x22])"
| arr: "list_all2 src_text vs ts \<Longrightarrow> src_text (SArr vs) (''['' @ commas ts @ '']'')"
| no_items: "blanks w \<Longrightarrow> src_text (SArr []) (''['' @ w @ '']'')"
| obj: "list_all2 (\<lambda>m t. \<exists>w b w' tv. blanks w \<and> blanks w' \<and> spells b (fst m) \<and> src_text (snd m) tv \<and>
      t = w @ [CHR 0x22] @ b @ [CHR 0x22] @ w' @ '':'' @ tv) ms ts \<Longrightarrow> src_text (SObj ms) (''{'' @ commas ts @ ''}'')"
| no_members: "blanks w \<Longrightarrow> src_text (SObj []) (''{'' @ w @ ''}'')"
| pad: "src_text v t \<Longrightarrow> blanks w \<Longrightarrow> blanks w' \<Longrightarrow> src_text v (w @ t @ w')"

section \<open>The tokens of a text\<close>

definition closes :: "string \<Rightarrow> bool" where
  "closes r \<longleftrightarrow> r = [] \<or> ends_token (hd r)"

definition silent :: "string \<Rightarrow> bool" where
  "silent t \<longleftrightarrow> (\<forall>r i. number_token (t @ r) i = number_token r i)"

definition tokens_are :: "string \<Rightarrow> string list \<Rightarrow> bool" where
  "tokens_are t xs \<longleftrightarrow> (\<forall>r i. closes r \<longrightarrow> number_token (t @ r) i = (if i < length xs then xs ! i else number_token r (i - length xs)))"

lemma silent_Nil: "silent []"
  by (simp add: silent_def)

lemma silent_Cons: "\<not> starts_token c \<Longrightarrow> c \<noteq> CHR 0x22 \<Longrightarrow> silent t \<Longrightarrow> silent (c # t)"
  by (simp add: silent_def)

lemma silent_append: "silent t \<Longrightarrow> silent u \<Longrightarrow> silent (t @ u)"
  by (simp add: silent_def)

lemma silent_blanks: "blanks w \<Longrightarrow> silent w"
  by (induction w) (auto simp: blanks_def is_blank_def starts_token_def is_digit_def intro!: silent_Nil silent_Cons)

lemma silent_literals: "silent ''null''" "silent ''true''" "silent ''false''" "silent '':''" "silent '',''" "silent ''[''" "silent '']''" "silent ''{''" "silent ''}''"
  by (simp_all add: silent_def starts_token_def is_digit_def)

lemma skip_spelled: "spells b s \<Longrightarrow> skip_string (b @ CHR 0x22 # r) = r"
proof (induction rule: spells.induct)
  case (unicode b s h w)
  have "skip_string (h @ b @ CHR 0x22 # r) = r" using unicode.hyps(3) unicode.IH
    by (induction h) (auto simp: is_hex_def)
  then show ?case by simp
qed (auto simp: simple_escapes_def)

lemma silent_string: "spells b s \<Longrightarrow> silent ([CHR 0x22] @ b @ [CHR 0x22])"
  using skip_spelled by (simp add: silent_def)

lemma tokens_silent: "silent t \<Longrightarrow> tokens_are t []"
  by (simp add: silent_def tokens_are_def)

lemma tokens_before: "silent t \<Longrightarrow> tokens_are u xs \<Longrightarrow> tokens_are (t @ u) xs"
  by (simp add: silent_def tokens_are_def)

lemma tokens_after: "tokens_are t xs \<Longrightarrow> tokens_are u ys \<Longrightarrow> (\<And>r. closes r \<Longrightarrow> closes (u @ r)) \<Longrightarrow> tokens_are (t @ u) (xs @ ys)"
  by (auto simp: tokens_are_def nth_append)

lemma tokens_number: "token_ok tok \<Longrightarrow> tokens_are tok [tok]"
proof -
  assume tok: "token_ok tok"
  have "\<not> ends_token c" if "c \<in> set tok" for c
    using tok that by (auto simp: token_ok_def list_all_iff token_char_def ends_token_def is_digit_def)
  then have cut: "takeWhile (\<lambda>d. \<not> ends_token d) (tok @ r) = tok \<and> dropWhile (\<lambda>d. \<not> ends_token d) (tok @ r) = r" if "closes r" for r
    using that by (cases r) (auto simp: closes_def takeWhile_append2 dropWhile_append2)
  obtain c cs where cs: "tok = c # cs" "starts_token c" using tok by (cases tok) (auto simp: token_ok_def)
  then have "c \<noteq> CHR 0x22" by (auto simp: starts_token_def is_digit_def)
  then show ?thesis using cut cs by (auto simp: tokens_are_def)
qed

lemma closes_blanks: "blanks w \<Longrightarrow> closes r \<Longrightarrow> closes (w @ r)"
  by (cases w) (auto simp: closes_def blanks_def is_blank_def ends_token_def)

lemma tokens_commas:
  assumes "list_all2 (\<lambda>v t. tokens_are t (f v)) vs ts"
  shows "tokens_are (commas ts) (concat (map f vs))"
  using assms
proof (induction ts arbitrary: vs rule: commas.induct)
  case (3 t u us)
  then obtain v vs' where vs: "vs = v # vs'" "tokens_are t (f v)" "list_all2 (\<lambda>v t. tokens_are t (f v)) vs' (u # us)"
    by (auto simp: list_all2_Cons2)
  from tokens_before [OF silent_literals(5) 3(1) [OF vs(3)]] have "tokens_are ('','' @ commas (u # us)) (concat (map f vs'))" .
  from tokens_after [OF vs(2) this] show ?case by (simp add: vs(1) closes_def ends_token_def)
qed (auto simp: list_all2_Cons2 tokens_silent silent_Nil)

lemma src_text_tokens: "src_text v t \<Longrightarrow> tokens_are t (src_tokens v)"
proof (induction rule: src_text.induct)
  case (arr vs ts)
  then have "list_all2 (\<lambda>v t. tokens_are t (src_tokens v)) vs ts" by (auto elim: list_all2_mono)
  from tokens_after [OF tokens_before [OF silent_literals(6) tokens_commas [OF this]] tokens_silent [OF silent_literals(7)]]
  show ?case by (simp add: closes_def ends_token_def)
next
  case (obj ms ts)
  have "tokens_are (w @ [CHR 0x22] @ b @ [CHR 0x22] @ w' @ '':'' @ tv) xs"
    if "blanks w" "blanks w'" "spells b n" "tokens_are tv xs" for w w' b n tv xs
    using tokens_before [OF silent_append [OF silent_blanks [OF that(1)] silent_append [OF silent_string [OF that(3)]
      silent_append [OF silent_blanks [OF that(2)] silent_literals(4)]]] that(4)] by simp
  with obj have "list_all2 (\<lambda>m t. tokens_are t (src_tokens (snd m))) ms ts" by (elim list_all2_mono) blast
  from tokens_after [OF tokens_before [OF silent_literals(8) tokens_commas [OF this]] tokens_silent [OF silent_literals(9)]]
  show ?case by (simp add: closes_def ends_token_def comp_def)
next
  case (pad v t w w')
  from tokens_after [OF tokens_before [OF silent_blanks [OF pad(2)] pad(4)] tokens_silent [OF silent_blanks [OF pad(3)]]]
  show ?case using closes_blanks [OF pad(3)] by simp
next
  case (no_items w)
  then show ?case using tokens_silent [OF silent_append [OF silent_literals(6) silent_append [OF silent_blanks silent_literals(7)]]] by simp
next
  case (no_members w)
  then show ?case using tokens_silent [OF silent_append [OF silent_literals(8) silent_append [OF silent_blanks silent_literals(9)]]] by simp
qed (use tokens_silent silent_literals silent_string tokens_number in auto)

text \<open>The token that \<open>parse_duration\<close> looks up is the one the node was written with, whatever follows the text.\<close>

theorem node_token:
  assumes "src_text v t" and "src_at v p = Some (SNum tok)" and "closes r"
  shows "\<exists>j. number_index (tree_of v) (Some p) 0 = (True, j) \<and> number_token (t @ r) j = tok"
  using number_index_at [OF assms(2)] src_text_tokens [OF assms(1)] assms(3) unfolding tokens_are_def by force

end
