(* ===== verification/Json_Source.thy ===== *)
theory Json_Source
  imports Json_Text
begin

text \<open>
  The serializer as a printer of source trees: the tree of a configuration, its text, and the search of a member by
  name.
\<close>

section \<open>Members by name\<close>

text \<open>What the code relies on in \<open>cJSON_GetObjectItemCaseSensitive\<close>: a member of that name, if there is one.\<close>

definition cjson_gets :: "cjson \<Rightarrow> bool" where
  "cjson_gets C \<longleftrightarrow> (\<forall>ms n. case cj_get C ms n of Some k \<Rightarrow> k < length ms \<and> fst (ms ! k) = n | None \<Rightarrow> n \<notin> fst ` set ms)"

fun first_named :: "members \<Rightarrow> string \<Rightarrow> nat option" where
  "first_named [] n = None"
| "first_named (m # ms) n = (if fst m = n then Some 0 else map_option Suc (first_named ms n))"

lemma first_named_some: "first_named ms n = Some k \<Longrightarrow> k < length ms \<and> fst (ms ! k) = n"
  by (induction ms arbitrary: k) (auto split: if_splits)

lemma first_named_none: "first_named ms n = None \<longleftrightarrow> n \<notin> fst ` set ms"
  by (induction ms) auto

lemma cj_get_first: "cjson_gets C \<Longrightarrow> distinct (map fst ms) \<Longrightarrow> cj_get C ms n = first_named ms n"
proof -
  assume C: "cjson_gets C" and d: "distinct (map fst ms)"
  from C have g: "case cj_get C ms n of Some k \<Rightarrow> k < length ms \<and> fst (ms ! k) = n | None \<Rightarrow> n \<notin> fst ` set ms"
    by (simp add: cjson_gets_def)
  show ?thesis
  proof (cases "first_named ms n")
    case None
    with first_named_none [of ms n] g show ?thesis by (cases "cj_get C ms n") (auto simp: image_iff)
  next
    case (Some k)
    with first_named_some [OF Some] g obtain j where j: "cj_get C ms n = Some j" "j < length ms" "fst (ms ! j) = n"
      by (cases "cj_get C ms n") (auto simp: image_iff)
    from d j first_named_some [OF Some] have "j = k" by (simp add: distinct_conv_nth) (metis nth_map)
    with Some j show ?thesis by simp
  qed
qed

lemma optional_field_some: "cjson_gets C \<Longrightarrow> optional_field C ms n = Some (k, v) \<Longrightarrow> k < length ms \<and> ms ! k = (n, v)"
  unfolding cjson_gets_def optional_field_def by (cases "ms ! k") (force split: option.splits)

section \<open>Printing\<close>

primrec src_print :: "jsrc \<Rightarrow> string" where
  "src_print SNull = ''null''"
| "src_print (SBool b) = (if b then ''true'' else ''false'')"
| "src_print (SNum tok) = tok"
| "src_print (SStr s) = json_string s"
| "src_print (SArr vs) = ''['' @ commas (map src_print vs) @ '']''"
| "src_print (SObj ms) = ''{'' @ commas (map (\<lambda>m. json_string (fst m) @ '':'' @ snd m) (map (map_prod id src_print) ms)) @ ''}''"

primrec tokens_ok :: "jsrc \<Rightarrow> bool" where
  "tokens_ok SNull = True"
| "tokens_ok (SBool b) = True"
| "tokens_ok (SNum tok) = token_ok tok"
| "tokens_ok (SStr s) = True"
| "tokens_ok (SArr vs) = list_all id (map tokens_ok vs)"
| "tokens_ok (SObj ms) = list_all snd (map (map_prod id tokens_ok) ms)"

lemma char_split: "c = char_of (of_char c :: nat)"
  by simp

lemma json_char_spells: "spells b s \<Longrightarrow> spells (json_char c @ b) (c # s)"
proof -
  assume b: "spells b s"
  have hex: "is_hex (hex_digit n)" if "n < 16" for n
  proof -
    have "hex_digit n \<in> set ''0123456789abcdef''" unfolding hex_digit_def by (rule nth_mem) (use that in simp)
    then show ?thesis by (auto simp: is_hex_def)
  qed
  consider "json_char c = [CHR 0x5C, CHR ''u'', CHR ''0'', CHR ''0'', hex_digit (of_char c div 16), hex_digit (of_char c mod 16)]" "(of_char c :: nat) < 32"
    | x where "json_char c = [CHR 0x5C, x]" "(x, c) \<in> set simple_escapes" | "json_char c = [c]" "c \<noteq> CHR 0x22" "c \<noteq> CHR 0x5C"
    by (cases "c = CHR 0x22 \<or> c = CHR 0x5C \<or> c = CHR 0x08 \<or> c = CHR 0x0C \<or> c = CHR 0x0A \<or> c = CHR 0x0D \<or> c = CHR 0x09")
       (cases "(of_char c :: nat) < 32"; auto simp: json_char_def simple_escapes_def split: if_splits)+
  then show ?thesis
  proof cases
    case 1
    have "list_all is_hex [CHR ''0'', CHR ''0'', hex_digit (of_char c div 16), hex_digit (of_char c mod 16)]"
      using hex 1(2) by (simp add: is_hex_def)
    from spells.unicode [OF b _ this, of "[c]"] show ?thesis by (simp add: 1(1))
  next
    case (2 x)
    then show ?thesis using spells.escaped [OF b] by simp
  next
    case 3
    then show ?thesis using spells.plain [OF b] by simp
  qed
qed

lemma json_string_spells: "\<exists>b. spells b s \<and> json_string s = [CHR 0x22] @ b @ [CHR 0x22]"
proof -
  have "spells (concat (map json_char s)) s" by (induction s) (simp_all add: spells.none json_char_spells)
  then show ?thesis by (auto simp: json_string_def)
qed

lemma src_print_text: "tokens_ok v \<Longrightarrow> src_text v (src_print v)"
proof (induction v)
  case (SBool b)
  then show ?case by (cases b) (simp_all add: src_text.true src_text.false)
next
  case (SStr s)
  then show ?case using json_string_spells [of s] src_text.str by force
next
  case (SArr vs)
  then have "list_all2 src_text vs (map src_print vs)" by (simp add: list_all2_conv_all_nth list_all_length)
  from src_text.arr [OF this] show ?case by simp
next
  case (SObj ms)
  have "\<exists>w b w' tv. blanks w \<and> blanks w' \<and> spells b (fst m) \<and> src_text (snd m) tv \<and>
      json_string (fst m) @ '':'' @ src_print (snd m) = w @ [CHR 0x22] @ b @ [CHR 0x22] @ w' @ '':'' @ tv" if m: "m \<in> set ms" for m
  proof -
    from SObj.prems m have "tokens_ok (snd m)" by (auto simp: list_all_iff)
    with SObj.IH [of m "snd m"] m have "src_text (snd m) (src_print (snd m))" by (cases m) auto
    moreover obtain b where "spells b (fst m)" "json_string (fst m) = [CHR 0x22] @ b @ [CHR 0x22]" using json_string_spells by blast
    moreover have "blanks []" by (simp add: blanks_def)
    ultimately show ?thesis by (intro exI [of _ "[]"] exI [of _ b] exI [of _ "src_print (snd m)"]) simp
  qed
  then have "list_all2 (\<lambda>m t. \<exists>w b w' tv. blanks w \<and> blanks w' \<and> spells b (fst m) \<and> src_text (snd m) tv \<and>
      t = w @ [CHR 0x22] @ b @ [CHR 0x22] @ w' @ '':'' @ tv) ms (map (\<lambda>m. json_string (fst m) @ '':'' @ src_print (snd m)) ms)"
    by (simp add: list_all2_conv_all_nth)
  from src_text.obj [OF this] show ?case by (simp add: comp_def)
qed (simp_all add: src_text.null src_text.num)

end
