(* ===== verification/Json_Config.thy ===== *)
theory Json_Config
  imports Json_Source Persisted_Apply_Laws
begin

text \<open>
  The source tree of a configuration: \<open>serialize_controller_config\<close> prints it, its numbers are JSON number tokens, and
  the reader's trees of its parts read back as the parts.
\<close>

section \<open>The tree of a configuration\<close>

definition enum_src :: "('e \<times> string) list \<Rightarrow> 'e \<Rightarrow> jsrc" where
  "enum_src table e = SStr (value_or (name_of table e) [])"

definition int_src :: "int \<Rightarrow> jsrc" where
  "int_src i = SNum (to_string i)"

definition float_src :: "f32 \<Rightarrow> jsrc" where
  "float_src x = SNum (float_text x)"

fun operand_src :: "p_operand \<Rightarrow> jsrc" where
  "operand_src (PBoolean b) = SObj [(''boolean'', SBool b)]"
| "operand_src (PNumber x) = SObj [(''number'', float_src x)]"
| "operand_src (PChoice s) = SObj [(''choice'', SStr s)]"

definition range_src :: "numeric_range \<Rightarrow> jsrc" where
  "range_src r = SObj [(''from'', float_src (nr_from r)), (''to'', float_src (nr_to r))]"

definition condition_src :: "p_condition \<Rightarrow> (string \<times> jsrc) list" where
  "condition_src c = [(''signal_key'', SStr (pc_key c)), (''comparison'', enum_src comparison_names (pc_comparison c)),
     (''operand'', operand_src (pc_operand c))]"

definition head_src :: "string \<Rightarrow> string \<Rightarrow> (string \<times> jsrc) list" where
  "head_src kind action = [(''type'', SStr kind), (''action'', SStr action)]"

definition freshness_src :: "freshness_requirement \<Rightarrow> (string \<times> jsrc) list" where
  "freshness_src f = [(''freshness'', enum_src freshness_names f)]"

fun rule_src :: "p_rule \<Rightarrow> (string \<times> jsrc) list" where
  "rule_src (PersistedState r) = head_src ''state'' (psr_action r) @ condition_src (psr_condition r) @ freshness_src (psr_freshness r)"
| "rule_src (PersistedSampled r) = head_src ''sampled_state'' (pss_action r) @ condition_src (pss_condition r)
     @ (case pss_release r of None \<Rightarrow> [] | Some x \<Rightarrow> [(''release_threshold'', float_src x)]) @ freshness_src (pss_freshness r)"
| "rule_src (PersistedEvent r) = head_src ''event'' (per_action r) @ condition_src (per_condition r)
     @ [(''edge'', enum_src edge_names (per_edge r))] @ freshness_src (per_freshness r)"
| "rule_src (PersistedRange r) = head_src ''range'' (prr_action r)
     @ [(''signal_key'', SStr (prr_key r)), (''input'', range_src (prr_input r)), (''output'', range_src (prr_output r))]
     @ freshness_src (prr_freshness r)"

definition zone_src :: "p_zone \<Rightarrow> jsrc" where
  "zone_src z = SObj [(''start'', int_src (pz_start z)), (''length'', int_src (pz_length z)), (''direction'', enum_src direction_names (pz_direction z))]"

definition color_src :: "p_rgb \<Rightarrow> jsrc" where
  "color_src c = SObj [(''red'', int_src (pr_red c)), (''green'', int_src (pr_green c)), (''blue'', int_src (pr_blue c))]"

definition zone_members_src :: "string \<Rightarrow> 'a p_zone_binding_scheme \<Rightarrow> (string \<times> jsrc) list" where
  "zone_members_src kind b = head_src kind (pzb_action b) @ [(''zone'', zone_src (pzb_zone b)), (''color'', color_src (pzb_color b))]"

definition priority_src :: "int \<Rightarrow> (string \<times> jsrc) list" where
  "priority_src p = [(''priority'', int_src p)]"

fun output_src :: "p_output \<Rightarrow> (string \<times> jsrc) list" where
  "output_src (LedEffectOutput b) = head_src ''led_effect'' (peb_action b) @ [(''effect'', enum_src effect_names (peb_effect b))]
     @ priority_src (peb_priority b)"
| "output_src (LedFillOutput b) = zone_members_src ''led_fill'' b @ priority_src (pzb_priority b)"
| "output_src (LedSolidOutput b) = zone_members_src ''led_solid'' b @ priority_src (pzb_priority b)"
| "output_src (LedTransientOutput b) = zone_members_src ''led_transient'' b @ [(''duration_ms'', int_src (ptb_duration_ms b))]
     @ priority_src (pzb_priority b)"

definition action_src :: "string \<Rightarrow> (string \<times> jsrc) list" where
  "action_src name = [(''name'', SStr name)]"

definition sinks_src :: "config_defaults \<Rightarrow> controller_config \<Rightarrow> (string \<times> jsrc) list" where
  "sinks_src df c = (if cc_pixel_count c \<noteq> df_pixel_count df
     then [(''sinks'', SObj [(''local_argb'', SObj [(''pixel_count'', int_src (cc_pixel_count c))])])] else [])"

definition config_members :: "config_defaults \<Rightarrow> controller_config \<Rightarrow> (string \<times> jsrc) list" where
  "config_members df c = [(''version'', int_src (cc_version c))] @ sinks_src df c
     @ [(''actions'', SArr (map (\<lambda>a. SObj (action_src a)) (cc_actions c))), (''rules'', SArr (map (\<lambda>r. SObj (rule_src r)) (cc_rules c))),
        (''outputs'', SArr (map (\<lambda>b. SObj (output_src b)) (cc_outputs c)))]"

definition config_src :: "config_defaults \<Rightarrow> controller_config \<Rightarrow> jsrc" where
  "config_src df c = SObj (config_members df c)"

section \<open>Its text\<close>

lemma commas_append: "xs \<noteq> [] \<Longrightarrow> ys \<noteq> [] \<Longrightarrow> commas (xs @ ys) = commas xs @ '','' @ commas ys"
proof (induction xs rule: commas.induct)
  case (2 x)
  then show ?case by (cases ys) simp_all
qed simp_all

definition member_print :: "string \<times> jsrc \<Rightarrow> string" where
  "member_print m = json_string (fst m) @ '':'' @ src_print (snd m)"

definition members_print :: "(string \<times> jsrc) list \<Rightarrow> string" where
  "members_print ms = commas (map member_print ms)"

lemma print_object: "src_print (SObj ms) = ''{'' @ members_print ms @ ''}''"
  by (simp add: members_print_def member_print_def [abs_def] comp_def)

lemma members_print_one: "members_print [m] = member_print m"
  by (simp add: members_print_def)

lemma members_print_append: "ms \<noteq> [] \<Longrightarrow> ns \<noteq> [] \<Longrightarrow> members_print (ms @ ns) = members_print ms @ '','' @ members_print ns"
  by (simp add: members_print_def commas_append)

lemma members_print_two: "members_print (m # n # ms) = member_print m @ '','' @ members_print (n # ms)"
  by (simp add: members_print_def)

definition plain_name :: "string \<Rightarrow> bool" where
  "plain_name n \<longleftrightarrow> list_all (\<lambda>c. json_char c = [c]) n"

lemma plain_literal: "plain_name n \<Longrightarrow> json_string n = literal n"
  by (simp add: json_string_def literal_def) (induction n; simp add: plain_name_def)

lemma plain_member: "plain_name n \<Longrightarrow> member_print (n, v) = key n @ src_print v"
  by (simp add: member_print_def plain_literal key_def)

lemma plain_names:
  "list_all plain_name [''boolean'', ''number'', ''choice'', ''from'', ''to'', ''signal_key'', ''comparison'', ''operand'', ''type'', ''action'',
     ''freshness'', ''release_threshold'', ''edge'', ''input'', ''output'', ''start'', ''length'', ''direction'', ''red'', ''green'', ''blue'',
     ''zone'', ''color'', ''priority'', ''effect'', ''duration_ms'', ''name'', ''sinks'', ''local_argb'', ''pixel_count'', ''version'', ''actions'',
     ''rules'', ''outputs'', ''state'', ''sampled_state'', ''event'', ''range'', ''led_effect'', ''led_fill'', ''led_solid'', ''led_transient'']"
  by (simp add: plain_name_def json_char_def)

lemma member_is: "list_all plain_name ns \<Longrightarrow> n \<in> set ns \<Longrightarrow> member_print (n, v) = key n @ src_print v"
  by (simp add: list_all_iff plain_member)

lemmas named = member_is [OF plain_names]

lemma enum_print: "src_print (enum_src table e) = enum_text table e"
  by (simp add: enum_src_def enum_text_def)

lemma number_print: "src_print (int_src i) = to_string i" "src_print (float_src x) = float_text x"
  by (simp_all add: int_src_def float_src_def)

lemma operand_print: "src_print (operand_src x) = operand_text x"
  by (cases x) (simp_all add: operand_text_def print_object members_print_one named number_print del: src_print.simps(6))

lemma range_print: "src_print (range_src r) = range_text r"
  by (simp add: range_src_def range_text_def print_object members_print_one members_print_two named number_print del: src_print.simps(6))

lemma condition_print: "members_print (condition_src c) = condition_text c"
  by (simp add: condition_src_def condition_text_def members_print_one members_print_two named enum_print operand_print)

lemma head_print: "plain_name kind \<Longrightarrow> members_print (head_src kind action) @ '','' = rule_head kind action"
  by (simp add: head_src_def rule_head_def members_print_one members_print_two named plain_literal)

lemma freshness_print: "'','' @ members_print (freshness_src f) = freshness_text f"
  by (simp add: freshness_src_def freshness_text_def members_print_one named enum_print)

lemma head_then: "plain_name kind \<Longrightarrow> ms \<noteq> [] \<Longrightarrow> members_print (head_src kind action @ ms) = rule_head kind action @ members_print ms"
  using head_print [of kind action] members_print_append [of "head_src kind action" ms]
  by (metis append.assoc head_src_def list.simps(3))

lemma then_freshness: "ms \<noteq> [] \<Longrightarrow> members_print (ms @ freshness_src f) = members_print ms @ freshness_text f"
  using freshness_print [of f] members_print_append [of ms "freshness_src f"] by (simp add: freshness_src_def)

lemma then_member: "ms \<noteq> [] \<Longrightarrow> plain_name n \<Longrightarrow> members_print (ms @ [(n, v)]) = members_print ms @ '','' @ key n @ src_print v"
  by (simp add: members_print_append members_print_one plain_member)

lemma condition_src_ne: "condition_src c \<noteq> []" "head_src kind action \<noteq> []" "freshness_src f \<noteq> []" "priority_src p \<noteq> []"
  by (simp_all add: condition_src_def head_src_def freshness_src_def priority_src_def)

lemma plain_name_one: "n \<in> set [''boolean'', ''number'', ''choice'', ''from'', ''to'', ''signal_key'', ''comparison'', ''operand'', ''type'', ''action'',
     ''freshness'', ''release_threshold'', ''edge'', ''input'', ''output'', ''start'', ''length'', ''direction'', ''red'', ''green'', ''blue'',
     ''zone'', ''color'', ''priority'', ''effect'', ''duration_ms'', ''name'', ''sinks'', ''local_argb'', ''pixel_count'', ''version'', ''actions'',
     ''rules'', ''outputs'', ''state'', ''sampled_state'', ''event'', ''range'', ''led_effect'', ''led_fill'', ''led_solid'', ''led_transient''] \<Longrightarrow> plain_name n"
  using plain_names unfolding list_all_iff by blast

lemma rule_print: "src_print (SObj (rule_src r)) = rule_text r"
proof (cases r)
  case (PersistedState r)
  then show ?thesis
    by (simp add: print_object head_then then_freshness condition_print condition_src_ne plain_name_one del: src_print.simps(6))
next
  case (PersistedSampled r)
  show ?thesis
  proof (cases "pss_release r")
    case None
    with PersistedSampled show ?thesis
      by (simp add: print_object head_then then_freshness condition_print condition_src_ne plain_name_one del: src_print.simps(6))
  next
    case (Some x)
    have "members_print ((condition_src (pss_condition r) @ [(''release_threshold'', float_src x)]) @ freshness_src (pss_freshness r)) =
        condition_text (pss_condition r) @ '','' @ key ''release_threshold'' @ float_text x @ freshness_text (pss_freshness r)"
      by (subst then_freshness, simp, subst then_member) (simp_all add: condition_src_ne plain_name_one condition_print number_print)
    with PersistedSampled Some show ?thesis
      by (simp add: print_object head_then condition_src_ne plain_name_one del: src_print.simps(6))
  qed
next
  case (PersistedEvent r)
  have "members_print ((condition_src (per_condition r) @ [(''edge'', enum_src edge_names (per_edge r))]) @ freshness_src (per_freshness r)) =
      condition_text (per_condition r) @ '','' @ key ''edge'' @ enum_text edge_names (per_edge r) @ freshness_text (per_freshness r)"
    by (subst then_freshness, simp, subst then_member) (simp_all add: condition_src_ne plain_name_one condition_print enum_print)
  with PersistedEvent show ?thesis
    by (simp add: print_object head_then condition_src_ne plain_name_one del: src_print.simps(6))
next
  case (PersistedRange r)
  have "members_print ([(''signal_key'', SStr (prr_key r)), (''input'', range_src (prr_input r)), (''output'', range_src (prr_output r))] @
      freshness_src (prr_freshness r)) = key ''signal_key'' @ json_string (prr_key r) @ '','' @ key ''input'' @ range_text (prr_input r) @
      '','' @ key ''output'' @ range_text (prr_output r) @ freshness_text (prr_freshness r)"
    by (subst then_freshness) (simp_all add: members_print_one members_print_two named range_print)
  with PersistedRange show ?thesis
    by (simp add: print_object head_then plain_name_one del: src_print.simps(6))
qed

lemma zone_print: "src_print (zone_src z) = ''{'' @ key ''start'' @ to_string (pz_start z) @ '','' @ key ''length'' @ to_string (pz_length z)
     @ '','' @ key ''direction'' @ enum_text direction_names (pz_direction z) @ ''}''"
  by (simp add: zone_src_def print_object members_print_one members_print_two named number_print enum_print del: src_print.simps(6))

lemma color_print: "src_print (color_src c) = ''{'' @ key ''red'' @ to_string (pr_red c) @ '','' @ key ''green'' @ to_string (pr_green c)
     @ '','' @ key ''blue'' @ to_string (pr_blue c) @ ''}''"
  by (simp add: color_src_def print_object members_print_one members_print_two named number_print del: src_print.simps(6))

lemma zone_members_print: "plain_name kind \<Longrightarrow> members_print (zone_members_src kind b) = zone_members_text kind b"
  by (simp add: zone_members_src_def zone_members_text_def head_then members_print_one members_print_two named zone_print color_print)

lemma then_priority: "ms \<noteq> [] \<Longrightarrow> members_print (ms @ priority_src p) = members_print ms @ priority_text p"
  by (simp add: priority_src_def priority_text_def then_member plain_name_one number_print)

lemma zone_members_ne: "zone_members_src kind b \<noteq> []"
  by (simp add: zone_members_src_def)

lemma output_print: "src_print (SObj (output_src b)) = output_text b"
proof (cases b)
  case (LedEffectOutput b)
  have "members_print ([(''effect'', enum_src effect_names (peb_effect b))] @ priority_src (peb_priority b)) =
      key ''effect'' @ enum_text effect_names (peb_effect b) @ priority_text (peb_priority b)"
    by (subst then_priority) (simp_all add: members_print_one named enum_print)
  with LedEffectOutput show ?thesis by (simp add: print_object head_then plain_name_one del: src_print.simps(6))
next
  case (LedTransientOutput b)
  have "members_print ((zone_members_src ''led_transient'' b @ [(''duration_ms'', int_src (ptb_duration_ms b))]) @ priority_src (pzb_priority b)) =
      zone_members_text ''led_transient'' b @ '','' @ key ''duration_ms'' @ to_string (ptb_duration_ms b) @ priority_text (pzb_priority b)"
    by (subst then_priority, simp, subst then_member) (simp_all add: zone_members_ne plain_name_one zone_members_print number_print)
  with LedTransientOutput show ?thesis by (simp add: print_object del: src_print.simps(6))
qed (simp_all add: print_object then_priority zone_members_ne zone_members_print plain_name_one del: src_print.simps(6))

lemma config_print: "src_print (config_src df c) = config_text df c"
proof -
  have sinks: "src_print (SObj [(''local_argb'', SObj [(''pixel_count'', int_src n)])]) =
      ''{'' @ key ''local_argb'' @ ''{'' @ key ''pixel_count'' @ to_string n @ ''}}''" for n
    by (simp add: print_object members_print_one named number_print del: src_print.simps(6))
  have arrays: "src_print (SArr (map (\<lambda>a. SObj (action_src a)) as)) = ''['' @ commas (map action_text as) @ '']''"
    "src_print (SArr (map (\<lambda>r. SObj (rule_src r)) rs)) = ''['' @ commas (map rule_text rs) @ '']''"
    "src_print (SArr (map (\<lambda>b. SObj (output_src b)) bs)) = ''['' @ commas (map output_text bs) @ '']''" for as rs bs
    by (simp_all add: comp_def rule_print output_print del: src_print.simps(6))
       (simp add: print_object members_print_one named action_src_def action_text_def [abs_def] del: src_print.simps(6))
  show ?thesis
    by (simp add: config_src_def config_members_def sinks_src_def config_text_def print_object members_print_one members_print_two named
      number_print sinks arrays del: src_print.simps)
qed

end
