(* ===== verification/Json_Round.thy ===== *)
theory Json_Round
  imports Json_Config
begin

text \<open>
  Reading back what was saved: each part of a valid document is parsed from the reader's tree of its source to the same
  part.
\<close>

section \<open>Steps of the parser\<close>

lemma and_then_ok [simp]: "and_then (Inr x) f = f x"
  by (simp add: and_then_def)

lemma and_then_Inr: "and_then m f = Inr y \<longleftrightarrow> (\<exists>x. m = Inr x \<and> f x = Inr y)"
  by (cases m) (simp_all add: and_then_def)

definition tree_members :: "(string \<times> jsrc) list \<Rightarrow> members" where
  "tree_members ms = map (map_prod id tree_of) ms"

lemma tree_names [simp]: "map fst (tree_members ms) = map fst ms"
  by (simp add: tree_members_def)

lemma tree_name_set [simp]: "fst ` set (tree_members ms) = fst ` set ms"
  by (metis list.set_map tree_names)

lemma reject_names_ok: "distinct (prior @ names) \<Longrightarrow> set names \<subseteq> set allowed \<Longrightarrow> reject_names path allowed prior names = Inr ()"
  by (induction names arbitrary: prior) auto

lemma reject_ok: "distinct (map fst ms) \<Longrightarrow> fst ` set ms \<subseteq> set allowed \<Longrightarrow> reject_unknown_fields ms path allowed = Inr ()"
  by (simp add: reject_unknown_fields_def reject_names_ok)

definition place :: "(string \<times> jsrc) list \<Rightarrow> string \<Rightarrow> (nat \<times> json) option" where
  "place ms n = map_option (\<lambda>k. (k, tree_of (snd (ms ! k)))) (first_named (tree_members ms) n)"

lemma optional_place: "cjson_gets C \<Longrightarrow> distinct (map fst ms) \<Longrightarrow> optional_field C (tree_members ms) n = place ms n"
proof -
  assume C: "cjson_gets C" and d: "distinct (map fst ms)"
  from cj_get_first [OF C, of "tree_members ms"] d have "cj_get C (tree_members ms) n = first_named (tree_members ms) n" by simp
  then show ?thesis using first_named_some [of "tree_members ms" n]
    by (cases "first_named (tree_members ms) n") (auto simp: optional_field_def place_def tree_members_def)
qed

lemma required_place: "cjson_gets C \<Longrightarrow> distinct (map fst ms) \<Longrightarrow> place ms n = Some kv \<Longrightarrow> required_field C (tree_members ms) n path = Inr kv"
  by (simp add: required_field_def optional_place)

lemma place_Nil [simp]: "place [] n = None"
  by (simp add: place_def tree_members_def)

lemma place_Cons [simp]: "place (m # ms) n = (if fst m = n then Some (0, tree_of (snd m)) else map_option (\<lambda>(k, v). (Suc k, v)) (place ms n))"
  by (simp add: place_def tree_members_def option.map_comp comp_def)

section \<open>Values\<close>

declare tree_of.simps [simp del]

lemma read_string [simp]: "parse_string (tree_of (SStr s)) path = Inr s"
  by (simp add: tree_of.simps parse_string_def)

lemma read_float [simp]: "f32_isfinite x \<Longrightarrow> parse_finite_number (tree_of (float_src x)) path = Inr x"
  using float_text_token_double [of x] by (simp add: tree_of.simps parse_finite_number_def float_src_def)

lemma read_int: "\<bar>i\<bar> < 2 ^ 53 \<Longrightarrow> parse_integer (tree_of (int_src i)) path = Inr i"
  using to_string_token_double [of i] by (auto simp: tree_of.simps parse_integer_def int_src_def Let_def)

lemma read_enum: "distinct (map snd table) \<Longrightarrow> name_of table e \<noteq> None \<Longrightarrow> parse_enum table (tree_of (enum_src table e)) path = Inr e"
  by (auto simp: tree_of.simps parse_enum_def parse_string_def enum_src_def value_or_def parse_name_of)

lemma name_tables: "distinct (map snd comparison_names)" "distinct (map snd freshness_names)" "distinct (map snd edge_names)"
  "distinct (map snd effect_names)" "distinct (map snd direction_names)"
  by (simp_all add: comparison_names_def freshness_names_def edge_names_def effect_names_def direction_names_def)

lemma named_all: "name_of comparison_names c \<noteq> None" "name_of freshness_names f \<noteq> None" "name_of edge_names e \<noteq> None"
  "name_of effect_names x \<noteq> None" "name_of direction_names d \<noteq> None"
  subgoal by (cases c; simp add: comparison_names_def name_of_def)
  subgoal by (cases f; simp add: freshness_names_def name_of_def)
  subgoal by (cases e; simp add: edge_names_def name_of_def)
  subgoal by (cases x; simp add: effect_names_def name_of_def)
  subgoal by (cases d; simp add: direction_names_def name_of_def)
  done

lemmas read_enums [simp] = read_enum [OF name_tables(1) named_all(1)] read_enum [OF name_tables(2) named_all(2)]
  read_enum [OF name_tables(3) named_all(3)] read_enum [OF name_tables(4) named_all(4)] read_enum [OF name_tables(5) named_all(5)]

lemma read_type: "parse_enum rule_type_names (tree_of (SStr ''state'')) path = Inr StateType"
  "parse_enum rule_type_names (tree_of (SStr ''sampled_state'')) path = Inr SampledStateType"
  "parse_enum rule_type_names (tree_of (SStr ''event'')) path = Inr EventType"
  "parse_enum rule_type_names (tree_of (SStr ''range'')) path = Inr RangeType"
  "parse_enum output_type_names (tree_of (SStr ''led_effect'')) path = Inr LedEffectType"
  "parse_enum output_type_names (tree_of (SStr ''led_fill'')) path = Inr LedFillType"
  "parse_enum output_type_names (tree_of (SStr ''led_transient'')) path = Inr LedTransientType"
  "parse_enum output_type_names (tree_of (SStr ''led_solid'')) path = Inr LedSolidType"
  by (simp_all add: tree_of.simps parse_enum_def parse_string_def rule_type_names_def output_type_names_def parse_name_def)

lemma read_object [simp]: "require_object (tree_of (SObj ms)) path = Inr (tree_members ms)"
  by (simp add: tree_of.simps tree_members_def require_object_def)

lemma read_bool [simp]: "parse_bool (tree_of (SBool b)) path = Inr b"
  by (simp add: tree_of.simps parse_bool_def)

section \<open>Rules\<close>

lemma reject_place: "distinct (map fst ms) \<Longrightarrow> fst ` set ms \<subseteq> set allowed \<Longrightarrow> reject_unknown_fields (tree_members ms) path allowed = Inr ()"
  by (rule reject_ok) simp_all

lemma read_operand: "operand_error x = VNone \<Longrightarrow>
    and_then (require_object (tree_of (operand_src x)) path) (\<lambda>ms. parse_operand ms path) = Inr x"
  by (cases x) (simp_all add: parse_operand_def tree_members_def reject_unknown_fields_def Let_def split: if_splits)

text \<open>A rule's members: its condition among them.\<close>

definition has_members :: "(string \<times> jsrc) list \<Rightarrow> (string \<times> jsrc) list \<Rightarrow> bool" where
  "has_members ms ns \<longleftrightarrow> distinct (map fst ms) \<and> list_all (\<lambda>(n, v). \<exists>k. place ms n = Some (k, tree_of v)) ns"

lemma required_member: "cjson_gets C \<Longrightarrow> has_members ms ns \<Longrightarrow> (n, v) \<in> set ns \<Longrightarrow>
    and_then (required_field C (tree_members ms) n path) (\<lambda>(k, w). f w) = f (tree_of v)"
  using required_place [of C ms n] by (force simp: has_members_def list_all_iff)

lemma optional_member: "cjson_gets C \<Longrightarrow> has_members ms ns \<Longrightarrow> (n, v) \<in> set ns \<Longrightarrow>
    \<exists>k. optional_field C (tree_members ms) n = Some (k, tree_of v)"
  using optional_place [of C ms n] by (force simp: has_members_def list_all_iff)

lemma read_condition:
  assumes C: "cjson_gets C" and ms: "has_members ms (condition_src c)" and ok: "condition_error c = VNone"
  shows "parse_condition C (tree_members ms) path = Inr c"
proof -
  have "operand_error (pc_operand c) = VNone" using ok by (simp add: condition_error_def split: if_splits)
  then obtain fields where fields: "require_object (tree_of (operand_src (pc_operand c))) (child_path path ''operand'') = Inr fields"
    "parse_operand fields (child_path path ''operand'') = Inr (pc_operand c)"
    using read_operand [of "pc_operand c" "child_path path ''operand''"] by (auto simp: and_then_Inr)
  show ?thesis
    unfolding parse_condition_def by (simp add: required_member [OF C ms] condition_src_def fields)
qed

lemma read_freshness:
  assumes "cjson_gets C" and "has_members ms (freshness_src f)" shows "parse_freshness C (tree_members ms) path = Inr f"
  using optional_member [OF assms, of "''freshness''"] by (fastforce simp: parse_freshness_def freshness_src_def)

lemma read_action:
  assumes "cjson_gets C" and "has_members ms (head_src kind action)" shows "parse_action_name C (tree_members ms) path = Inr action"
  using assms by (simp add: parse_action_name_def required_member head_src_def)

lemma read_range:
  assumes "cjson_gets C" and "f32_isfinite (nr_from r)" "f32_isfinite (nr_to r)"
  shows "parse_numeric_range C (tree_of (range_src r)) path = Inr r"
proof -
  have "has_members [(''from'', float_src (nr_from r)), (''to'', float_src (nr_to r))]
      [(''from'', float_src (nr_from r)), (''to'', float_src (nr_to r))]" by (simp add: has_members_def)
  with assms show ?thesis by (simp add: parse_numeric_range_def range_src_def reject_place required_member)
qed

lemma has_members_sub: "has_members ms ns \<Longrightarrow> set ns' \<subseteq> set ns \<Longrightarrow> has_members ms ns'"
  by (auto simp: has_members_def list_all_iff)

lemma has_all: "distinct (map fst ms) \<Longrightarrow> has_members ms ms"
proof -
  assume d: "distinct (map fst ms)"
  have "\<exists>k. place ms n = Some (k, tree_of v)" if "(n, v) \<in> set ms" for n v
    using d that by (induction ms) (auto, metis fst_conv image_eqI)
  with d show ?thesis by (auto simp: has_members_def list_all_iff)
qed

lemma rule_parts:
  "set (head_src ''state'' (psr_action r1)) \<subseteq> set (rule_src (PersistedState r1))" "set (condition_src (psr_condition r1)) \<subseteq> set (rule_src (PersistedState r1))"
  "set (freshness_src (psr_freshness r1)) \<subseteq> set (rule_src (PersistedState r1))"
  "set (head_src ''sampled_state'' (pss_action r2)) \<subseteq> set (rule_src (PersistedSampled r2))" "set (condition_src (pss_condition r2)) \<subseteq> set (rule_src (PersistedSampled r2))"
  "set (freshness_src (pss_freshness r2)) \<subseteq> set (rule_src (PersistedSampled r2))"
  "set (head_src ''event'' (per_action r3)) \<subseteq> set (rule_src (PersistedEvent r3))" "set (condition_src (per_condition r3)) \<subseteq> set (rule_src (PersistedEvent r3))"
  "set (freshness_src (per_freshness r3)) \<subseteq> set (rule_src (PersistedEvent r3))"
  "set (head_src ''range'' (prr_action r4)) \<subseteq> set (rule_src (PersistedRange r4))"
  "set (freshness_src (prr_freshness r4)) \<subseteq> set (rule_src (PersistedRange r4))"
  by auto

lemma rule_distinct: "distinct (map fst (rule_src r))"
  by (cases r) (auto simp: head_src_def condition_src_def freshness_src_def split: option.split)

lemma release_place: "place (rule_src (PersistedSampled r)) ''release_threshold'' =
    (case pss_release r of None \<Rightarrow> None | Some x \<Rightarrow> Some (5, tree_of (float_src x)))"
  by (simp add: head_src_def condition_src_def freshness_src_def split: option.split)

lemma release_finite: "is_valid_release c x \<Longrightarrow> f32_isfinite x"
  by (simp add: is_valid_release_def split: p_operand.splits if_splits)

text \<open>The parts of a rule, and the names its type allows.\<close>

definition rule_keys :: "string list" where
  "rule_keys = [''type'', ''action'', ''signal_key'', ''comparison'', ''operand'', ''freshness'']"

lemma rule_names:
  "fst ` set (rule_src (PersistedState r1)) \<subseteq> set rule_keys"
  "fst ` set (rule_src (PersistedSampled r2)) \<subseteq> set (rule_keys @ [''release_threshold''])"
  "fst ` set (rule_src (PersistedEvent r3)) \<subseteq> set (rule_keys @ [''edge''])"
  "fst ` set (rule_src (PersistedRange r4)) \<subseteq> set [''type'', ''action'', ''signal_key'', ''input'', ''output'', ''freshness'']"
  by (auto simp: rule_keys_def head_src_def condition_src_def freshness_src_def split: option.splits)

lemma rule_has: "set ns \<subseteq> set (rule_src r) \<Longrightarrow> has_members (rule_src r) ns"
  by (rule has_members_sub [OF has_all [OF rule_distinct]])

lemma read_kind:
  assumes "cjson_gets C" and "has_members ms (head_src kind action)" and "parse_enum table (tree_of (SStr kind)) (child_path path ''type'') = Inr e"
  shows "and_then (required_field C (tree_members ms) ''type'' path) (\<lambda>(_, v). and_then (parse_enum table v (child_path path ''type'')) f) = f e"
  by (subst required_member [OF assms(1,2), of _ "SStr kind"]) (simp_all add: head_src_def assms(3))

lemmas read_head = rule_has [OF rule_parts(1)] rule_has [OF rule_parts(4)] rule_has [OF rule_parts(7)] rule_has [OF rule_parts(10)]
lemmas condition_has = rule_has [OF rule_parts(2)] rule_has [OF rule_parts(5)] rule_has [OF rule_parts(8)]
lemmas freshness_has = rule_has [OF rule_parts(3)] rule_has [OF rule_parts(6)] rule_has [OF rule_parts(9)] rule_has [OF rule_parts(11)]
lemmas rule_names_ok = rule_names [THEN reject_place [OF rule_distinct], unfolded rule_keys_def append.simps]

lemma condition_ok: "rule_body_error (PersistedState r1) = VNone \<Longrightarrow> condition_error (psr_condition r1) = VNone"
  "rule_body_error (PersistedSampled r2) = VNone \<Longrightarrow> condition_error (pss_condition r2) = VNone"
  "rule_body_error (PersistedEvent r3) = VNone \<Longrightarrow> condition_error (per_condition r3) = VNone"
  by (simp_all split: if_splits)

lemma read_state:
  assumes C: "cjson_gets C" and ok: "rule_body_error (PersistedState r) = VNone"
  shows "parse_rule C (tree_members (rule_src (PersistedState r))) path = Inr (PersistedState r)"
  by (simp add: parse_rule_def read_kind [OF C read_head(1) read_type(1)] rule_names_ok parse_state_body_def
    read_action [OF C read_head(1)] read_freshness [OF C freshness_has(1)] read_condition [OF C condition_has(1) condition_ok(1) [OF ok]]
    del: rule_src.simps)

lemma read_sampled:
  assumes C: "cjson_gets C" and ok: "rule_body_error (PersistedSampled r) = VNone"
  shows "parse_rule C (tree_members (rule_src (PersistedSampled r))) path = Inr (PersistedSampled r)"
proof -
  have "f32_isfinite x" if "pss_release r = Some x" for x
    using ok that release_finite [of "pss_condition r" x] by (auto split: if_splits)
  then show ?thesis
    by (cases "pss_release r")
       (simp_all add: parse_rule_def read_kind [OF C read_head(2) read_type(2)] rule_names_ok parse_sampled_body_def
          read_action [OF C read_head(2)] read_freshness [OF C freshness_has(2)] read_condition [OF C condition_has(2) condition_ok(2) [OF ok]]
          optional_place [OF C rule_distinct] release_place del: rule_src.simps)
qed

lemma read_event:
  assumes C: "cjson_gets C" and ok: "rule_body_error (PersistedEvent r) = VNone"
  shows "parse_rule C (tree_members (rule_src (PersistedEvent r))) path = Inr (PersistedEvent r)"
proof -
  have edge: "has_members (rule_src (PersistedEvent r)) [(''edge'', enum_src edge_names (per_edge r))]" by (rule rule_has) auto
  show ?thesis
    by (simp add: parse_rule_def read_kind [OF C read_head(3) read_type(3)] rule_names_ok parse_event_body_def
      read_action [OF C read_head(3)] read_freshness [OF C freshness_has(3)] read_condition [OF C condition_has(3) condition_ok(3) [OF ok]]
      required_member [OF C edge] del: rule_src.simps)
qed

lemma read_range_rule:
  assumes C: "cjson_gets C" and ok: "rule_body_error (PersistedRange r) = VNone"
  shows "parse_rule C (tree_members (rule_src (PersistedRange r))) path = Inr (PersistedRange r)"
proof -
  have parts: "has_members (rule_src (PersistedRange r))
      [(''signal_key'', SStr (prr_key r)), (''input'', range_src (prr_input r)), (''output'', range_src (prr_output r))]"
    by (rule rule_has) auto
  have "f32_isfinite (nr_from (prr_input r))" "f32_isfinite (nr_to (prr_input r))" "f32_isfinite (nr_from (prr_output r))" "f32_isfinite (nr_to (prr_output r))"
    using ok by (auto simp: is_finite_range_def split: if_splits)
  then show ?thesis
    by (simp add: parse_rule_def read_kind [OF C read_head(4) read_type(4)] rule_names_ok parse_range_body_def
      read_action [OF C read_head(4)] read_freshness [OF C freshness_has(4)] required_member [OF C parts] read_range [OF C] del: rule_src.simps)
qed

lemma read_rule: "cjson_gets C \<Longrightarrow> rule_body_error r = VNone \<Longrightarrow> parse_rule C (tree_members (rule_src r)) path = Inr r"
  using read_state read_sampled read_event read_range_rule by (cases r) (simp_all del: rule_src.simps rule_body_error.simps)

section \<open>Outputs\<close>

definition small :: "int \<Rightarrow> bool" where
  "small i \<longleftrightarrow> \<bar>i\<bar> < 2 ^ 53"

definition small_binding :: "'a p_zone_binding_scheme \<Rightarrow> bool" where
  "small_binding b \<longleftrightarrow> small (pz_start (pzb_zone b)) \<and> small (pz_length (pzb_zone b)) \<and> small (pr_red (pzb_color b)) \<and>
     small (pr_green (pzb_color b)) \<and> small (pr_blue (pzb_color b)) \<and> small (pzb_priority b)"

fun small_output :: "p_output \<Rightarrow> bool" where
  "small_output (LedEffectOutput b) \<longleftrightarrow> small (peb_priority b)"
| "small_output (LedFillOutput b) \<longleftrightarrow> small_binding b"
| "small_output (LedSolidOutput b) \<longleftrightarrow> small_binding b"
| "small_output (LedTransientOutput b) \<longleftrightarrow> small_binding b \<and> small (ptb_duration_ms b)"

lemma zone_binding_small: "zone_limits_ok l \<Longrightarrow> zone_binding_error l b = VNone \<Longrightarrow> small_binding b"
  using zone_binding_none [of l b]
  by (auto simp: zone_limits_ok_def byte_limits_def zone_binding_error_def in_range_def small_binding_def small_def zone_inside_def max_led_count_def split: if_splits)

lemma output_small: "limits_ok L \<Longrightarrow> output_body_error L b = VNone \<Longrightarrow> small_output b"
  by (cases b) (auto simp: limits_ok_def byte_limits_def in_range_def small_def max_transient_duration_def split: if_splits dest: zone_binding_small)

lemma read_small [simp]: "small i \<Longrightarrow> parse_integer (tree_of (int_src i)) path = Inr i"
  by (rule read_int) (simp add: small_def)

lemma output_parts:
  "set (head_src ''led_effect'' (peb_action b1)) \<subseteq> set (output_src (LedEffectOutput b1))" "set (priority_src (peb_priority b1)) \<subseteq> set (output_src (LedEffectOutput b1))"
  "set (zone_members_src ''led_fill'' b2) \<subseteq> set (output_src (LedFillOutput b2))" "set (priority_src (pzb_priority b2)) \<subseteq> set (output_src (LedFillOutput b2))"
  "set (zone_members_src ''led_solid'' b2) \<subseteq> set (output_src (LedSolidOutput b2))" "set (priority_src (pzb_priority b2)) \<subseteq> set (output_src (LedSolidOutput b2))"
  "set (zone_members_src ''led_transient'' b4) \<subseteq> set (output_src (LedTransientOutput b4))" "set (priority_src (pzb_priority b4)) \<subseteq> set (output_src (LedTransientOutput b4))"
  by auto

lemma output_distinct: "distinct (map fst (output_src b))"
  by (cases b) (auto simp: head_src_def zone_members_src_def priority_src_def)

lemma output_names:
  "fst ` set (output_src (LedEffectOutput b1)) \<subseteq> set [''type'', ''action'', ''effect'', ''priority'']"
  "fst ` set (output_src (LedFillOutput b2)) \<subseteq> set [''type'', ''action'', ''zone'', ''color'', ''priority'']"
  "fst ` set (output_src (LedSolidOutput b2)) \<subseteq> set [''type'', ''action'', ''zone'', ''color'', ''priority'']"
  "fst ` set (output_src (LedTransientOutput b4)) \<subseteq> set [''type'', ''action'', ''zone'', ''color'', ''duration_ms'', ''priority'']"
  by (auto simp: head_src_def zone_members_src_def priority_src_def)

lemmas output_names_ok = output_names [THEN reject_place [OF output_distinct]]

lemma output_has: "set ns \<subseteq> set (output_src b) \<Longrightarrow> has_members (output_src b) ns"
  by (rule has_members_sub [OF has_all [OF output_distinct]])

lemma read_integer_field:
  "cjson_gets C \<Longrightarrow> has_members ms ns \<Longrightarrow> (n, int_src i) \<in> set ns \<Longrightarrow> small i \<Longrightarrow> parse_integer_field C (tree_members ms) path n = Inr i"
  by (simp add: parse_integer_field_def required_member)

lemma read_zone:
  assumes C: "cjson_gets C" and small: "small (pz_start z)" "small (pz_length z)"
  shows "parse_zone C (tree_of (zone_src z)) path = Inr z"
proof -
  define ms where "ms = [(''start'', int_src (pz_start z)), (''length'', int_src (pz_length z)), (''direction'', enum_src direction_names (pz_direction z))]"
  have names: "distinct (map fst ms)" "fst ` set ms \<subseteq> set [''start'', ''length'', ''direction'']" by (simp_all add: ms_def)
  have mem: "(''start'', int_src (pz_start z)) \<in> set ms" "(''length'', int_src (pz_length z)) \<in> set ms"
    "(''direction'', enum_src direction_names (pz_direction z)) \<in> set ms" "zone_src z = SObj ms"
    by (simp_all add: ms_def zone_src_def)
  note has = has_all [OF names(1)]
  show ?thesis
    by (simp add: parse_zone_def mem(4) reject_place [OF names] read_integer_field [OF C has mem(1) small(1)] read_integer_field [OF C has mem(2) small(2)]
      required_member [OF C has mem(3)])
qed

lemma read_color:
  assumes C: "cjson_gets C" and small: "small (pr_red c)" "small (pr_green c)" "small (pr_blue c)"
  shows "parse_color C (tree_of (color_src c)) path = Inr c"
proof -
  define ms where "ms = [(''red'', int_src (pr_red c)), (''green'', int_src (pr_green c)), (''blue'', int_src (pr_blue c))]"
  have names: "distinct (map fst ms)" "fst ` set ms \<subseteq> set [''red'', ''green'', ''blue'']" by (simp_all add: ms_def)
  have mem: "(''red'', int_src (pr_red c)) \<in> set ms" "(''green'', int_src (pr_green c)) \<in> set ms"
    "(''blue'', int_src (pr_blue c)) \<in> set ms" "color_src c = SObj ms"
    by (simp_all add: ms_def color_src_def)
  note has = has_all [OF names(1)]
  show ?thesis
    by (simp add: parse_color_def mem(4) reject_place [OF names] read_integer_field [OF C has mem(1) small(1)] read_integer_field [OF C has mem(2) small(2)]
      read_integer_field [OF C has mem(3) small(3)])
qed

lemma read_priority:
  assumes "cjson_gets C" and "has_members ms (priority_src p)" and "small p" shows "parse_priority C otherwise (tree_members ms) path = Inr p"
  using optional_member [OF assms(1,2), of "''priority''"] assms(3) by (fastforce simp: parse_priority_def priority_src_def)

lemma read_zone_body:
  assumes C: "cjson_gets C" and has: "has_members ms (zone_members_src kind b)" "has_members ms (priority_src (pzb_priority b))"
    and small: "small_binding b"
  shows "parse_zone_body C otherwise (tree_members ms) path = Inr (p_zone_binding.truncate b)"
proof -
  have head: "has_members ms (head_src kind (pzb_action b))" by (rule has_members_sub [OF has(1)]) (auto simp: zone_members_src_def)
  have parts: "has_members ms [(''zone'', zone_src (pzb_zone b)), (''color'', color_src (pzb_color b))]"
    by (rule has_members_sub [OF has(1)]) (auto simp: zone_members_src_def)
  show ?thesis using small unfolding small_binding_def
    by (simp add: parse_zone_body_def read_action [OF C head] read_priority [OF C has(2)] required_member [OF C parts] read_zone [OF C] read_color [OF C]
      p_zone_binding.truncate_def)
qed

text \<open>A duration is looked up in the text; where it stands in the tree is where it was printed.\<close>

definition printed_at :: "source_document \<Rightarrow> nat list \<Rightarrow> (string \<times> jsrc) list \<Rightarrow> bool" where
  "printed_at doc p ms \<longleftrightarrow> (\<exists>src. sd_root doc = tree_of src \<and> src_text src (sd_text doc) \<and> src_at src p = Some (SObj ms))"

lemma place_nth: "place ms n = Some (k, w) \<Longrightarrow> k < length ms \<and> fst (ms ! k) = n \<and> w = tree_of (snd (ms ! k))"
  using first_named_some [of "tree_members ms" n] by (auto simp: place_def tree_members_def)

lemma src_at_append: "src_at v (p @ q) = (case src_at v p of None \<Rightarrow> None | Some u \<Rightarrow> src_at u q)"
  by (induction p arbitrary: v) simp_all

lemma read_duration:
  assumes doc: "printed_at doc p ms" and at: "place ms ''duration_ms'' = Some (k, w)" and v: "snd (ms ! k) = int_src i" and i: "small i"
  shows "parse_duration L doc w (p @ [k]) path = Inr i"
proof -
  obtain src where src: "sd_root doc = tree_of src" "src_text src (sd_text doc)" "src_at src p = Some (SObj ms)"
    using doc by (auto simp: printed_at_def)
  from place_nth [OF at] v have w: "w = tree_of (int_src i)" and k: "k < length ms" by auto
  have "src_at src (p @ [k]) = Some (SNum (to_string i))" using k v by (simp add: src_at_append src(3) int_src_def)
  from node_token [OF src(2) this, of "[]"] obtain j where j: "number_index (tree_of src) (Some (p @ [k])) 0 = (True, j)"
    "number_token (sd_text doc) j = to_string i" by (auto simp: closes_def)
  have "from_chars (to_string i) = Some (i, [])" using i by (intro to_string_from_chars) (auto simp: small_def)
  then show ?thesis using j by (simp add: parse_duration_def w int_src_def tree_of.simps json_is_number_def src(1) Let_def)
qed

lemma zone_head: "has_members ms (zone_members_src kind b) \<Longrightarrow> has_members ms (head_src kind (pzb_action b))"
  by (rule has_members_sub) (auto simp: zone_members_src_def)

lemma read_output:
  assumes C: "cjson_gets C" and small: "small_output b" and doc: "printed_at doc p (output_src b)"
  shows "parse_output C L df doc p (tree_members (output_src b)) path = Inr b"
proof (cases b)
  case (LedEffectOutput x)
  note has = output_has [OF output_parts(1)] output_has [OF output_parts(2)]
  have effect: "has_members (output_src (LedEffectOutput x)) [(''effect'', enum_src effect_names (peb_effect x))]" by (rule output_has) auto
  show ?thesis using small unfolding LedEffectOutput
    by (simp add: parse_output_def read_kind [OF C has(1) read_type(5)] output_names_ok parse_effect_body_def read_action [OF C has(1)]
      read_priority [OF C has(2)] required_member [OF C effect] del: output_src.simps)
next
  case (LedFillOutput x)
  note has = output_has [OF output_parts(3)] output_has [OF output_parts(4)]
  show ?thesis using small unfolding LedFillOutput
    by (simp add: parse_output_def read_kind [OF C zone_head [OF has(1)] read_type(6)] output_names_ok read_zone_body [OF C has]
      p_zone_binding.truncate_def del: output_src.simps)
next
  case (LedSolidOutput x)
  note has = output_has [OF output_parts(5)] output_has [OF output_parts(6)]
  show ?thesis using small unfolding LedSolidOutput
    by (simp add: parse_output_def read_kind [OF C zone_head [OF has(1)] read_type(8)] output_names_ok read_zone_body [OF C has]
      p_zone_binding.truncate_def del: output_src.simps)
next
  case (LedTransientOutput x)
  note has = output_has [OF output_parts(7)] output_has [OF output_parts(8)]
  have at: "place (output_src (LedTransientOutput x)) ''duration_ms'' = Some (4, tree_of (int_src (ptb_duration_ms x)))"
    "snd (output_src (LedTransientOutput x) ! 4) = int_src (ptb_duration_ms x)"
    by (simp_all add: zone_members_src_def head_src_def)
  note req = required_place [OF C output_distinct at(1)]
  have dur: "parse_duration L doc (tree_of (int_src (ptb_duration_ms x))) (p @ [4]) path = Inr (ptb_duration_ms x)" for path
    by (rule read_duration [OF doc [unfolded LedTransientOutput] at]) (use small LedTransientOutput in simp)
  show ?thesis using small unfolding LedTransientOutput
    by (simp add: parse_output_def read_kind [OF C zone_head [OF has(1)] read_type(7)] output_names_ok read_zone_body [OF C has]
      req dur p_zone_binding.truncate_def del: output_src.simps)
qed

section \<open>The document\<close>

lemma read_items:
  assumes "\<And>i. i < length es \<Longrightarrow> item [k, j + i] (tree_members (g (es ! i))) (indexed_path name (j + i)) = Inr (es ! i)"
  shows "parse_items item name k j (map tree_of (map (\<lambda>e. SObj (g e)) es)) = Inr es"
  using assms
proof (induction es arbitrary: j)
  case (Cons e es)
  from Cons.prems [of 0] have "item [k, j] (tree_members (g e)) (indexed_path name j) = Inr e" by simp
  moreover have "parse_items item name k (Suc j) (map tree_of (map (\<lambda>e. SObj (g e)) es)) = Inr es"
    by (rule Cons.IH) (use Cons.prems [of "Suc i" for i] in simp)
  ultimately show ?case by (simp add: Let_def)
qed simp

lemma read_array:
  assumes C: "cjson_gets C" and ms: "distinct (map fst ms)" and at: "place ms name = Some (k, tree_of (SArr (map (\<lambda>e. SObj (g e)) es)))"
    and item: "\<And>i. i < length es \<Longrightarrow> item [k, i] (tree_members (g (es ! i))) (indexed_path name i) = Inr (es ! i)"
  shows "parse_array C (tree_members ms) name item = Inr es"
  using read_items [of es item k 0 g name] item
  by (simp add: parse_array_def optional_place [OF C ms] at require_array_def tree_of.simps)

lemma read_action_entry: "cjson_gets C \<Longrightarrow> parse_action C (tree_members (action_src a)) path = Inr a"
proof -
  assume C: "cjson_gets C"
  have ms: "distinct (map fst (action_src a))" "fst ` set (action_src a) \<subseteq> set [''name'']" by (simp_all add: action_src_def)
  have mem: "(''name'', SStr a) \<in> set (action_src a)" by (simp add: action_src_def)
  show ?thesis by (simp add: parse_action_def reject_place [OF ms] required_member [OF C has_all [OF ms(1)] mem])
qed

definition config_keys :: "string list" where
  "config_keys = [''version'', ''actions'', ''rules'', ''outputs'', ''sinks'']"

lemma config_distinct: "distinct (map fst (config_members df c))"
  by (simp add: config_members_def sinks_src_def)

lemma config_names: "fst ` set (config_members df c) \<subseteq> set config_keys"
  by (auto simp: config_members_def sinks_src_def config_keys_def)

lemma config_places:
  "place (config_members df c) ''version'' = Some (0, tree_of (int_src (cc_version c)))"
  "place (config_members df c) ''sinks'' = (if cc_pixel_count c \<noteq> df_pixel_count df
     then Some (1, tree_of (SObj [(''local_argb'', SObj [(''pixel_count'', int_src (cc_pixel_count c))])])) else None)"
  "\<exists>k. place (config_members df c) ''actions'' = Some (k, tree_of (SArr (map (\<lambda>a. SObj (action_src a)) (cc_actions c))))"
  "\<exists>k. place (config_members df c) ''rules'' = Some (k, tree_of (SArr (map (\<lambda>r. SObj (rule_src r)) (cc_rules c))))"
  "\<exists>k. place (config_members df c) ''outputs'' = Some (k, tree_of (SArr (map (\<lambda>b. SObj (output_src b)) (cc_outputs c)))) \<and>
     src_at (config_src df c) [k] = Some (SArr (map (\<lambda>b. SObj (output_src b)) (cc_outputs c)))"
  by (simp_all add: config_members_def sinks_src_def config_src_def)

lemma read_sinks:
  assumes C: "cjson_gets C" and pixels: "small (cc_pixel_count c)"
  shows "parse_sinks C df (tree_members (config_members df c)) = Inr (cc_pixel_count c)"
proof (cases "cc_pixel_count c = df_pixel_count df")
  case True
  then show ?thesis by (simp add: parse_sinks_def optional_place [OF C config_distinct] config_places)
next
  case False
  define inner where "inner = [(''pixel_count'', int_src (cc_pixel_count c))]"
  define outer where "outer = [(''local_argb'', SObj inner)]"
  have names: "distinct (map fst inner)" "fst ` set inner \<subseteq> set [''pixel_count'']" "distinct (map fst outer)" "fst ` set outer \<subseteq> set [''local_argb'']"
    by (simp_all add: inner_def outer_def)
  have at: "place inner ''pixel_count'' = Some (0, tree_of (int_src (cc_pixel_count c)))" "place outer ''local_argb'' = Some (0, tree_of (SObj inner))"
    by (simp_all add: inner_def outer_def)
  have "place (config_members df c) ''sinks'' = Some (1, tree_of (SObj outer))"
    using False by (simp add: config_places(2) outer_def inner_def)
  then show ?thesis
    by (simp add: parse_sinks_def optional_place [OF C config_distinct] optional_place [OF C names(1)] optional_place [OF C names(3)]
      reject_place [OF names(1,2)] reject_place [OF names(3,4)] at pixels)
qed

lemma read_document:
  assumes L: "limits_ok L" and valid: "vr_ok (validate_config L c)" and C: "cjson_gets C"
    and parse: "cj_parse C text = CjTree (tree_of (config_src df c)) (Some (length text))" and spelled: "src_text (config_src df c) text"
  shows "load_document C L df text = Inr c"
proof -
  define ms where "ms = config_members df c"
  define doc where "doc = \<lparr>sd_root = tree_of (config_src df c), sd_text = text\<rparr>"
  note ok = valid [unfolded validate_config_ok]
  have small: "small (cc_version c)" "small (cc_pixel_count c)"
    using ok L by (simp_all add: small_def schema_version_def in_range_def limits_ok_def max_led_count_def default_led_count_def)
  obtain ka kr ko where at: "place ms ''actions'' = Some (ka, tree_of (SArr (map (\<lambda>a. SObj (action_src a)) (cc_actions c))))"
    "place ms ''rules'' = Some (kr, tree_of (SArr (map (\<lambda>r. SObj (rule_src r)) (cc_rules c))))"
    "place ms ''outputs'' = Some (ko, tree_of (SArr (map (\<lambda>b. SObj (output_src b)) (cc_outputs c))))"
    "src_at (config_src df c) [ko] = Some (SArr (map (\<lambda>b. SObj (output_src b)) (cc_outputs c)))"
    using config_places(3-5) [where df = df and c = c] unfolding ms_def by blast
  note d = config_distinct [of df c, folded ms_def]
  have actions: "parse_array C (tree_members ms) ''actions'' (\<lambda>_. parse_action C) = Inr (cc_actions c)"
    by (rule read_array [OF C d at(1)]) (rule read_action_entry [OF C])
  have rules: "parse_array C (tree_members ms) ''rules'' (\<lambda>_. parse_rule C) = Inr (cc_rules c)"
  proof (rule read_array [OF C d at(2)])
    fix i assume i: "i < length (cc_rules c)"
    with ok have "rule_error c i = VNone" by blast
    from rule_error_none [OF this i] show "parse_rule C (tree_members (rule_src (cc_rules c ! i))) (indexed_path ''rules'' i) = Inr (cc_rules c ! i)"
      by (intro read_rule [OF C]) blast
  qed
  have outputs: "parse_array C (tree_members ms) ''outputs'' (parse_output C L df doc) = Inr (cc_outputs c)"
  proof (rule read_array [OF C d at(3)])
    fix i assume i: "i < length (cc_outputs c)"
    with ok have "output_error L c i = VNone" by blast
    from output_error_none [OF this i] have "small_output (cc_outputs c ! i)" using output_small [OF L] by blast
    moreover have "src_at (config_src df c) [ko, i] = Some (SObj (output_src (cc_outputs c ! i)))"
      using src_at_append [of "config_src df c" "[ko]" "[i]"] at(4) i by simp
    with spelled have "printed_at doc [ko, i] (output_src (cc_outputs c ! i))" unfolding printed_at_def doc_def by (simp del: src_at.simps) blast
    ultimately show "parse_output C L df doc [ko, i] (tree_members (output_src (cc_outputs c ! i))) (indexed_path ''outputs'' i) = Inr (cc_outputs c ! i)"
      by (intro read_output [OF C])
  qed
  have root: "parse_root C text = Inr (tree_of (config_src df c), tree_members ms)"
    by (simp add: parse_root_def parse) (simp add: config_src_def tree_of.simps tree_members_def ms_def)
  have version: "required_field C (tree_members ms) ''version'' [] = Inr (0, tree_of (int_src (cc_version c)))"
    by (rule required_place [OF C d]) (simp add: ms_def config_places)
  have again: "\<lparr>cc_version = cc_version c, cc_pixel_count = cc_pixel_count c, cc_actions = cc_actions c, cc_rules = cc_rules c,
      cc_outputs = cc_outputs c\<rparr> = c" by simp
  show ?thesis
    using valid small reject_place [OF d config_names [of df c, folded ms_def], unfolded config_keys_def]
    by (simp add: load_document_def root doc_def [symmetric] read_sinks [OF C, of c df, folded ms_def] version actions rules outputs Let_def again)
qed

lemma tokens_object: "tokens_ok (SObj ms) \<longleftrightarrow> list_all (\<lambda>m. tokens_ok (snd m)) ms"
  by (induction ms) auto

lemma config_tokens:
  assumes valid: "vr_ok (validate_config L c)" shows "tokens_ok (config_src df c)"
proof -
  have float: "f32_isfinite x \<Longrightarrow> tokens_ok (float_src x)" for x by (simp add: float_src_def float_text_token)
  have int: "tokens_ok (int_src i)" for i by (simp add: int_src_def to_string_token)
  have enum: "tokens_ok (enum_src table e)" for table :: "('e \<times> string) list" and e by (simp add: enum_src_def)
  note ok = valid [unfolded validate_config_ok]
  have condition: "condition_error x = VNone \<Longrightarrow> list_all (\<lambda>m. tokens_ok (snd m)) (condition_src x)" for x
    by (cases "pc_operand x") (auto simp: condition_src_def condition_error_def enum float split: if_splits)
  have rule: "rule_body_error r = VNone \<Longrightarrow> tokens_ok (SObj (rule_src r))" for r
    using condition release_finite
    by (cases r) (auto simp: tokens_object head_src_def freshness_src_def range_src_def enum float is_finite_range_def simp del: tokens_ok.simps(6) split: if_splits option.splits)
  have outs: "tokens_ok (SObj (output_src b))" for b
    by (cases b) (simp_all add: head_src_def zone_members_src_def priority_src_def zone_src_def color_src_def enum int)
  have "rule_body_error r = VNone" if "r \<in> set (cc_rules c)" for r
    using that ok rule_error_none by (metis in_set_conv_nth)
  then have "\<forall>r \<in> set (cc_rules c). tokens_ok (SObj (rule_src r))" using rule by blast
  then show ?thesis using outs
    by (simp add: config_src_def config_members_def sinks_src_def int action_src_def list_all_iff tokens_object del: tokens_ok.simps(6))
qed

end
