(* ===== verification/Json_Reader.thy ===== *)
theory Json_Reader
  imports Json_Round
begin

text \<open>
  What cJSON promises for a compact JSON text: it gives the tree the text spells. The texts are those of the grammar of
  RFC 8259 without blanks, each of one tree; the grammar does not know the serializer. What the serializer writes is
  such a text, of the tree of its configuration, and a reader that is a function reads every such text.
\<close>

section \<open>The grammar\<close>

text \<open>A number of RFC 8259, of no more characters than the reader's buffer holds.\<close>

definition exponent_ok :: "string \<Rightarrow> bool" where
  "exponent_ok r \<longleftrightarrow> r = [] \<or> (hd r = CHR ''e'' \<or> hd r = CHR ''E'') \<and>
     (let t = tl r; ds = (if t \<noteq> [] \<and> (hd t = CHR ''-'' \<or> hd t = CHR ''+'') then tl t else t) in ds \<noteq> [] \<and> list_all is_digit ds)"

definition fraction_ok :: "string \<Rightarrow> bool" where
  "fraction_ok r \<longleftrightarrow> (if r \<noteq> [] \<and> hd r = CHR ''.'' then takeWhile is_digit (tl r) \<noteq> [] \<and> exponent_ok (dropWhile is_digit (tl r)) else exponent_ok r)"

definition json_number :: "string \<Rightarrow> bool" where
  "json_number tok \<longleftrightarrow> (let body = (if tok \<noteq> [] \<and> hd tok = CHR ''-'' then tl tok else tok); whole = takeWhile is_digit body
     in whole \<noteq> [] \<and> (whole = ''0'' \<or> hd whole \<noteq> CHR ''0'') \<and> fraction_ok (dropWhile is_digit body) \<and> length tok < 64)"

text \<open>The characters of a string: as they are, by a simple escape, or by the code of an ASCII character.\<close>

inductive json_spells :: "string \<Rightarrow> string \<Rightarrow> bool" where
  none: "json_spells [] []"
| plain: "json_spells b s \<Longrightarrow> c \<noteq> CHR 0x22 \<Longrightarrow> c \<noteq> CHR 0x5C \<Longrightarrow> 32 \<le> (of_char c :: nat) \<Longrightarrow> json_spells (c # b) (c # s)"
| escaped: "json_spells b s \<Longrightarrow> (x, c) \<in> set simple_escapes \<Longrightarrow> json_spells (CHR 0x5C # x # b) (c # s)"
| ascii: "json_spells b s \<Longrightarrow> hi < 8 \<Longrightarrow> lo < 16 \<Longrightarrow>
    json_spells ([CHR 0x5C, CHR ''u'', CHR ''0'', CHR ''0'', ''0123456789abcdef'' ! hi, ''0123456789abcdef'' ! lo] @ b) (char_of (16 * hi + lo) # s)"

inductive json_text :: "jsrc \<Rightarrow> string \<Rightarrow> bool" where
  null: "json_text SNull ''null''"
| true: "json_text (SBool True) ''true''"
| false: "json_text (SBool False) ''false''"
| num: "json_number tok \<Longrightarrow> json_text (SNum tok) tok"
| str: "json_spells b s \<Longrightarrow> json_text (SStr s) ([CHR 0x22] @ b @ [CHR 0x22])"
| arr: "list_all2 json_text vs ts \<Longrightarrow> json_text (SArr vs) (''['' @ commas ts @ '']'')"
| obj: "list_all2 (\<lambda>m t. \<exists>b tv. json_spells b (fst m) \<and> json_text (snd m) tv \<and> t = [CHR 0x22] @ b @ [CHR 0x22] @ '':'' @ tv) ms ts \<Longrightarrow>
    json_text (SObj ms) (''{'' @ commas ts @ ''}'')"

text \<open>
  The promise: a text of the grammar, within the size and the structure the loader lets through, is read to its end as
  the tree it spells, each number the double nearest to its token.
\<close>

definition reads_json :: "cjson \<Rightarrow> bool" where
  "reads_json C \<longleftrightarrow> (\<forall>v t. json_text v t \<longrightarrow> length t \<le> max_json_bytes \<longrightarrow> preflight_input t = PreflightOk \<longrightarrow>
     cj_parse C t = CjTree (tree_of v) (Some (length t)))"

section \<open>The numbers that are written\<close>

lemma decimal_head: "0 < n \<Longrightarrow> hd (decimal n) \<noteq> CHR ''0''"
proof (induction n rule: decimal.induct)
  case (1 n)
  show ?case
  proof (cases "n < 10")
    case True
    with 1(2) have "(of_char (digit_char n) :: nat) \<noteq> of_char (CHR ''0'')" by (simp add: digit_char_def)
    then have "digit_char n \<noteq> CHR ''0''" by metis
    with True show ?thesis by (simp add: decimal.simps [of n])
  next
    case False
    with 1(1) show ?thesis by (simp add: decimal.simps [of n])
  qed
qed

lemma decimal_zero: "decimal 0 = ''0''"
  by code_simp

lemma decimal_first: "decimal n = ''0'' \<or> hd (decimal n) \<noteq> CHR ''0''"
  using decimal_head [of n] decimal_zero by (cases "n = 0") auto

lemma decimal_short: "n < 10 ^ k \<Longrightarrow> 0 < k \<Longrightarrow> length (decimal n) \<le> k"
proof (induction k arbitrary: n)
  case (Suc k)
  show ?case
  proof (cases "n < 10")
    case False
    with Suc.prems have "n div 10 < 10 ^ k" "0 < k" by (auto simp: div_less_iff_less_mult mult.commute intro: gr0I)
    with Suc.IH [of "n div 10"] False show ?thesis by (simp add: decimal.simps [of n])
  qed (simp add: decimal.simps [of n])
qed simp

lemma json_number_parts:
  assumes whole: "list_all is_digit whole" "whole \<noteq> []" "whole = ''0'' \<or> hd whole \<noteq> CHR ''0''"
    and r: "r = [] \<or> \<not> is_digit (hd r)" "fraction_ok r" and len: "length whole + length r < 63"
  shows "json_number ((if neg then ''-'' else []) @ whole @ r)"
proof -
  from takeWhile_digits [OF whole(1) r(1)] have cut: "takeWhile is_digit (whole @ r) = whole" "dropWhile is_digit (whole @ r) = r" by simp_all
  have "hd whole \<noteq> CHR ''-''" using whole(1,2) by (cases whole) (auto dest: digit_facts)
  with assms cut show ?thesis by (simp add: json_number_def Let_def hd_append)
qed

lemma small_number: "small i \<Longrightarrow> json_number (to_string i)"
proof -
  assume "small i"
  then have "nat \<bar>i\<bar> < 10 ^ 16" by (simp add: small_def zless_nat_eq_int_zless nat_less_iff)
  from decimal_short [OF this] have "length (decimal (nat \<bar>i\<bar>)) + length [] < 63" by simp
  from json_number_parts [OF decimal_digits decimal_not_Nil decimal_first _ _ this, of "i < 0"]
  show ?thesis by (auto simp: fraction_ok_def exponent_ok_def to_string_def split: if_splits)
qed


lemma exponent_written: "\<bar>e\<bar> < 100 \<Longrightarrow> exponent_ok (exponent_text e) \<and> length (exponent_text e) \<le> 4"
proof -
  assume "\<bar>e\<bar> < 100"
  then have "length (decimal (nat \<bar>e\<bar>)) \<le> 2" by (intro decimal_short) (simp_all add: nat_less_iff)
  then show ?thesis using decimal_digits [of "nat \<bar>e\<bar>"]
    by (auto simp: exponent_ok_def exponent_text_def Let_def is_digit_def)
qed

lemma with_fraction_number:
  assumes whole: "list_all is_digit whole" "whole \<noteq> []" "whole = ''0'' \<or> hd whole \<noteq> CHR ''0''" and frac: "list_all is_digit fraction"
    and r: "r = [] \<or> hd r = CHR ''e''" "exponent_ok r" and len: "length whole + length fraction + length r < 62"
  shows "json_number ((if neg then ''-'' else []) @ with_fraction whole fraction @ r)"
proof -
  obtain z f where f: "fraction = f @ replicate z (CHR ''0'')" and wf: "with_fraction whole fraction = whole @ (if f = [] then [] else ''.'' @ f)"
    by (rule with_fraction_cases)
  define rest where "rest = (if f = [] then [] else ''.'' @ f) @ r"
  have nd: "r = [] \<or> \<not> is_digit (hd r)" "rest = [] \<or> \<not> is_digit (hd rest)" using r(1) by (auto simp: rest_def not_digits)
  have "list_all is_digit f" using frac f by simp
  from takeWhile_digits [OF this nd(1)] r have "fraction_ok rest" by (auto simp: rest_def fraction_ok_def)
  moreover have "length whole + length rest < 63" using len by (simp add: rest_def f)
  ultimately show ?thesis using json_number_parts [OF whole nd(2), of neg] by (simp add: wf rest_def)
qed

lemma general_text_json:
  assumes d: "10 ^ 8 \<le> d" "d < 10 ^ 9" and e: "\<bar>e\<bar> < 100"
  shows "json_number ((if neg then ''-'' else []) @ general_text (d, e))"
proof -
  have len: "length (decimal d) = 9" using decimal_length [of 8 d] d by simp
  have digits: "list_all is_digit (take k (decimal d))" "list_all is_digit (drop k (decimal d))" for k
    using decimal_digits [of d] unfolding list_all_iff by (auto dest: in_set_takeD in_set_dropD)
  have whole: "list_all is_digit (take (Suc k) (decimal d))" "take (Suc k) (decimal d) \<noteq> []" 
      "take (Suc k) (decimal d) = ''0'' \<or> hd (take (Suc k) (decimal d)) \<noteq> CHR ''0''" for k
    using digits(1) [of "Suc k"] decimal_head [of d] d(1) by (auto simp: hd_take)
  have none: "[] = [] \<or> hd [] = CHR ''e''" "exponent_ok []" by (simp_all add: exponent_ok_def)
  note ex = exponent_written [OF e]
  have zeros: "list_all is_digit (replicate n (CHR ''0'') @ decimal d)" for n
    using decimal_digits [of d] by (auto simp: list_all_iff is_digit_def)
  consider (sci) "e < - 4 \<or> 9 \<le> e" | (low) "- 4 \<le> e" "e < 0" | (fixed) "0 \<le> e" "e < 9" by linarith
  then show ?thesis
  proof cases
    case sci
    with with_fraction_number [OF whole [of 0] digits(2) [of 1], of "exponent_text e" neg] ex len show ?thesis
      by (auto simp: general_text_def exponent_text_hd Let_def)
  next
    case low
    have "list_all is_digit ''0''" "''0'' \<noteq> []" "''0'' = ''0'' \<or> hd ''0'' \<noteq> CHR ''0''" by (simp_all add: is_digit_def)
    from with_fraction_number [OF this zeros [of "nat (- e - 1)"] none, of neg] low len show ?thesis
      by (simp add: general_text_def Let_def)
  next
    case fixed
    with with_fraction_number [OF whole [of "nat e"] digits(2) [of "Suc (nat e)"] none, of neg] len show ?thesis
      by (simp add: general_text_def Let_def)
  qed
qed

lemma scientific_exponent: "0 < u \<Longrightarrow> u < 2 ^ 277 \<Longrightarrow> scientific u = (d, e) \<Longrightarrow> \<bar>e\<bar> < 100"
  using dec_exponent_bounds(3,4) [of u] by (auto simp: scientific_def Let_def split: if_splits)

lemma float_number:
  assumes x: "f32_isfinite x" shows "json_number (float_text x)"
proof (cases "f32_mag x = 0")
  case True
  have "json_number ((if f32_neg_bit x then ''-'' else []) @ ''0'' @ [])"
    by (rule json_number_parts) (simp_all add: is_digit_def fraction_ok_def exponent_ok_def)
  with True x f32_isfinite_not_nan [OF x] show ?thesis by (simp add: float_text_def)
next
  case False
  obtain d e where sc: "scientific (mag_units (f32_mag x)) = (d, e)" by (cases "scientific (mag_units (f32_mag x))")
  have k: "0 < f32_mag x" "f32_mag x < f32_inf_mag" using x False by (simp_all add: f32_isfinite_def)
  have "mag_units f32_inf_mag = 2 ^ 277" by (simp add: mag_units_def f32_inf_mag_def)
  then have u: "0 < mag_units (f32_mag x)" "mag_units (f32_mag x) < 2 ^ 277"
    using k mag_units_less_iff [of "f32_mag x" f32_inf_mag] by simp_all
  from general_text_json [OF scientific_near(1,2) [OF u sc] scientific_exponent [OF u sc], of "f32_neg_bit x"]
  show ?thesis using x False sc f32_isfinite_not_nan [OF x] by (simp add: float_text_def)
qed

section \<open>What is written is such a text\<close>

lemma json_char_spelled: "json_spells b s \<Longrightarrow> json_spells (json_char c @ b) (c # s)"
proof -
  assume b: "json_spells b s"
  consider "json_char c = [CHR 0x5C, CHR ''u'', CHR ''0'', CHR ''0'', hex_digit (of_char c div 16), hex_digit (of_char c mod 16)]" "(of_char c :: nat) < 32"
    | x where "json_char c = [CHR 0x5C, x]" "(x, c) \<in> set simple_escapes"
    | "json_char c = [c]" "c \<noteq> CHR 0x22" "c \<noteq> CHR 0x5C" "32 \<le> (of_char c :: nat)"
    by (cases "c = CHR 0x22 \<or> c = CHR 0x5C \<or> c = CHR 0x08 \<or> c = CHR 0x0C \<or> c = CHR 0x0A \<or> c = CHR 0x0D \<or> c = CHR 0x09")
       (cases "(of_char c :: nat) < 32"; auto simp: json_char_def simple_escapes_def split: if_splits)+
  then show ?thesis
  proof cases
    case 1
    have "(of_char c :: nat) div 16 < 8" using 1(2) by simp
    from json_spells.ascii [OF b this, of "of_char c mod 16"] show ?thesis by (simp add: 1(1) hex_digit_def)
  next
    case (2 x)
    then show ?thesis using json_spells.escaped [OF b] by simp
  next
    case 3
    then show ?thesis using json_spells.plain [OF b] by simp
  qed
qed

lemma json_string_spelled: "json_spells (concat (map json_char s)) s"
  by (induction s) (simp_all add: json_spells.none json_char_spelled)

lemma printed_json: "list_all json_number (src_tokens v) \<Longrightarrow> json_text v (src_print v)"
proof (induction v)
  case (SBool b)
  then show ?case by (cases b) (simp_all add: json_text.true json_text.false)
next
  case (SStr s)
  then show ?case using json_text.str [OF json_string_spelled [of s]] by (simp add: json_string_def)
next
  case (SArr vs)
  have "list_all2 json_text vs (map src_print vs)"
  proof (simp add: list_all2_conv_all_nth, intro allI impI)
    fix i assume i: "i < length vs"
    with SArr.prems have "list_all json_number (src_tokens (vs ! i))" by (auto simp: list_all_iff)
    with SArr.IH i show "json_text (vs ! i) (src_print (vs ! i))" by simp
  qed
  from json_text.arr [OF this] show ?case by simp
next
  case (SObj ms)
  have "\<exists>b tv. json_spells b (fst m) \<and> json_text (snd m) tv \<and>
      json_string (fst m) @ '':'' @ src_print (snd m) = [CHR 0x22] @ b @ [CHR 0x22] @ '':'' @ tv" if m: "m \<in> set ms" for m
  proof -
    from SObj.prems m have "list_all json_number (src_tokens (snd m))" by (force simp: list_all_iff)
    with SObj.IH [of m "snd m"] m have "json_text (snd m) (src_print (snd m))" by (cases m) auto
    then show ?thesis using json_string_spelled [of "fst m"] by (intro exI conjI) (auto simp: json_string_def)
  qed
  then have "list_all2 (\<lambda>m t. \<exists>b tv. json_spells b (fst m) \<and> json_text (snd m) tv \<and> t = [CHR 0x22] @ b @ [CHR 0x22] @ '':'' @ tv)
      ms (map (\<lambda>m. json_string (fst m) @ '':'' @ src_print (snd m)) ms)"
    by (simp add: list_all2_conv_all_nth)
  from json_text.obj [OF this] show ?case by (simp add: comp_def)
qed (simp_all add: json_text.null json_text.num)


lemma object_numbers: "list_all json_number (src_tokens (SObj ms)) \<longleftrightarrow> list_all (\<lambda>m. list_all json_number (src_tokens (snd m))) ms"
  by (induction ms) auto

lemma array_numbers: "list_all json_number (src_tokens (SArr vs)) \<longleftrightarrow> list_all (\<lambda>v. list_all json_number (src_tokens v)) vs"
  by (induction vs) auto

lemma part_numbers:
  "small i \<Longrightarrow> list_all json_number (src_tokens (int_src i))" "f32_isfinite x \<Longrightarrow> list_all json_number (src_tokens (float_src x))"
  "list_all json_number (src_tokens (enum_src table e))"
  by (simp_all add: int_src_def float_src_def enum_src_def small_number float_number)

lemma condition_numbers: "condition_error x = VNone \<Longrightarrow> list_all (\<lambda>m. list_all json_number (src_tokens (snd m))) (condition_src x)"
  by (cases "pc_operand x") (auto simp: condition_src_def condition_error_def part_numbers split: if_splits)

lemma rule_numbers: "rule_body_error r = VNone \<Longrightarrow> list_all json_number (src_tokens (SObj (rule_src r)))"
  using condition_numbers release_finite
  by (cases r) (auto simp: object_numbers head_src_def freshness_src_def range_src_def part_numbers is_finite_range_def
      simp del: src_tokens.simps(6) split: if_splits option.splits)

lemma output_numbers: "small_output b \<Longrightarrow> list_all json_number (src_tokens (SObj (output_src b)))"
  by (cases b) (simp_all add: head_src_def zone_members_src_def priority_src_def zone_src_def color_src_def part_numbers small_binding_def)

lemma config_numbers:
  assumes L: "limits_ok L" and valid: "vr_ok (validate_config L c)" shows "list_all json_number (src_tokens (config_src df c))"
proof -
  note ok = valid [unfolded validate_config_ok]
  have small: "small (cc_version c)" "small (cc_pixel_count c)"
    using ok L by (simp_all add: small_def schema_version_def in_range_def limits_ok_def max_led_count_def default_led_count_def)
  have "rule_body_error r = VNone" if "r \<in> set (cc_rules c)" for r
    using that ok rule_error_none by (metis in_set_conv_nth)
  then have rules: "\<forall>r \<in> set (cc_rules c). list_all json_number (src_tokens (SObj (rule_src r)))" using rule_numbers by blast
  have "small_output b" if "b \<in> set (cc_outputs c)" for b
    using that ok output_error_none output_small [OF L] by (metis in_set_conv_nth)
  then have "\<forall>b \<in> set (cc_outputs c). list_all json_number (src_tokens (SObj (output_src b)))" using output_numbers by blast
  with rules small show ?thesis
    by (simp add: config_src_def config_members_def sinks_src_def object_numbers array_numbers part_numbers action_src_def
      list_all_iff [where P = "\<lambda>v. list_all json_number (src_tokens v)"] del: src_tokens.simps(5,6))
qed

theorem config_json_text:
  assumes "limits_ok L" and "vr_ok (validate_config L c)" shows "json_text (config_src df c) (config_text df c)"
  using printed_json [OF config_numbers [OF assms], of df] by (simp add: config_print)


section \<open>A reader\<close>

text \<open>A reader of these texts as a function: each part gives what it read and the text after it. The fuel bounds the nesting
  and the number of entries; the length of the text is enough.\<close>

definition hex_value :: "char \<Rightarrow> nat" where
  "hex_value c = length (takeWhile (\<lambda>d. d \<noteq> c) ''0123456789abcdef'')"

fun read_string :: "string \<Rightarrow> (string \<times> string) option" where
  "read_string [] = None"
| "read_string (c # cs) = (if c = CHR 0x22 then Some ([], cs)
     else if c \<noteq> CHR 0x5C then map_option (apfst (Cons c)) (read_string cs)
     else case cs of [] \<Rightarrow> None
     | x # r \<Rightarrow> if x = CHR ''u''
         then (case r of _ # _ # h # l # r' \<Rightarrow> map_option (apfst (Cons (char_of (16 * hex_value h + hex_value l)))) (read_string r') | _ \<Rightarrow> None)
         else (case map_of simple_escapes x of None \<Rightarrow> None | Some e \<Rightarrow> map_option (apfst (Cons e)) (read_string r)))"

fun read_value :: "nat \<Rightarrow> string \<Rightarrow> (jsrc \<times> string) option"
  and read_items :: "nat \<Rightarrow> string \<Rightarrow> (jsrc list \<times> string) option"
  and read_members :: "nat \<Rightarrow> string \<Rightarrow> ((string \<times> jsrc) list \<times> string) option" where
  "read_value (Suc n) (c # cs) =
     (if c = CHR 0x22 then map_option (apfst SStr) (read_string cs)
      else if c = CHR ''['' then (case cs of x # r \<Rightarrow> if x = CHR '']'' then Some (SArr [], r) else map_option (apfst SArr) (read_items n cs) | [] \<Rightarrow> None)
      else if c = CHR ''{'' then (case cs of x # r \<Rightarrow> if x = CHR ''}'' then Some (SObj [], r) else map_option (apfst SObj) (read_members n cs) | [] \<Rightarrow> None)
      else if starts_token c then Some (SNum (takeWhile (\<lambda>d. \<not> ends_token d) (c # cs)), dropWhile (\<lambda>d. \<not> ends_token d) (c # cs))
      else if c = CHR ''n'' then Some (SNull, drop 3 cs)
      else if c = CHR ''t'' then Some (SBool True, drop 3 cs)
      else if c = CHR ''f'' then Some (SBool False, drop 4 cs)
      else None)"
| "read_items (Suc n) s = (case read_value n s of
     Some (v, c # r) \<Rightarrow> if c = CHR '']'' then Some ([v], r) else if c = CHR '','' then map_option (apfst (Cons v)) (read_items n r) else None
   | _ \<Rightarrow> None)"
| "read_members (Suc n) s = (case s of [] \<Rightarrow> None | _ # k \<Rightarrow> (case read_string k of
     Some (name, _ # t) \<Rightarrow> (case read_value n t of
       Some (v, c # r) \<Rightarrow> if c = CHR ''}'' then Some ([(name, v)], r)
         else if c = CHR '','' then map_option (apfst (Cons (name, v))) (read_members n r) else None
     | _ \<Rightarrow> None)
   | _ \<Rightarrow> None))"
| "read_value _ _ = None"
| "read_items 0 _ = None"
| "read_members 0 _ = None"

definition text_reader :: cjson where
  "text_reader = \<lparr>cj_parse = (\<lambda>t. case read_value (length t) t of
       None \<Rightarrow> CjFailed False | Some (v, r) \<Rightarrow> CjTree (tree_of v) (Some (length t - length r))), cj_get = first_named\<rparr>"

lemma hex_value_digit: "i < 16 \<Longrightarrow> hex_value (''0123456789abcdef'' ! i) = i"
proof -
  assume "i < 16"
  then have "i \<in> set [0..<16]" by simp
  moreover have "list_all (\<lambda>i. hex_value (''0123456789abcdef'' ! i) = i) [0..<16]" by code_simp
  ultimately show ?thesis unfolding list_all_iff by blast
qed

lemma read_spelled: "json_spells b s \<Longrightarrow> read_string (b @ CHR 0x22 # r) = Some (s, r)"
proof (induction rule: json_spells.induct)
  case (escaped b s x c)
  have "list_all (\<lambda>(x, c). x \<noteq> CHR ''u'' \<and> map_of simple_escapes x = Some c) simple_escapes" by (simp add: simple_escapes_def)
  with escaped(2) have "x \<noteq> CHR ''u''" "map_of simple_escapes x = Some c" by (auto simp: list_all_iff)
  with escaped show ?case by simp
next
  case (ascii b s hi lo)
  then show ?case by (simp add: hex_value_digit)
qed simp_all

lemma starts_facts: "starts_token c \<Longrightarrow> c \<noteq> CHR 0x22 \<and> c \<noteq> CHR ''['' \<and> c \<noteq> CHR '']'' \<and> c \<noteq> CHR ''{'' \<and> c \<noteq> CHR ''}''"
  by (auto simp: starts_token_def is_digit_def)

lemma digits_go_on: "list_all is_digit ds \<Longrightarrow> list_all (\<lambda>c. \<not> ends_token c) ds"
  by (auto simp: list_all_iff is_digit_def ends_token_def)

lemma exponent_goes_on: "exponent_ok r \<Longrightarrow> list_all (\<lambda>c. \<not> ends_token c) r"
  using digits_go_on [of "tl r"] digits_go_on [of "tl (tl r)"]
  by (cases r; cases "tl r") (auto simp: exponent_ok_def Let_def ends_token_def split: if_splits)

lemma fraction_goes_on: "fraction_ok r \<Longrightarrow> list_all (\<lambda>c. \<not> ends_token c) r"
proof (cases "r \<noteq> [] \<and> hd r = CHR ''.''")
  case True
  assume "fraction_ok r"
  with True exponent_goes_on have "list_all (\<lambda>c. \<not> ends_token c) (dropWhile is_digit (tl r))" by (simp add: fraction_ok_def)
  moreover have "list_all (\<lambda>c. \<not> ends_token c) (takeWhile is_digit (tl r))"
    by (rule digits_go_on) (auto simp: list_all_iff dest: set_takeWhileD)
  ultimately have "list_all (\<lambda>c. \<not> ends_token c) (takeWhile is_digit (tl r) @ dropWhile is_digit (tl r))"
    unfolding list_all_append by simp
  with True show ?thesis by (cases r) (simp_all add: ends_token_def)
next
  case False
  assume "fraction_ok r"
  with False show ?thesis by (intro exponent_goes_on) (simp add: fraction_ok_def)
qed

lemma number_token_char:
  assumes "json_number tok" shows "tok \<noteq> [] \<and> starts_token (hd tok) \<and> list_all (\<lambda>c. \<not> ends_token c) tok"
proof -
  define body where "body = (if tok \<noteq> [] \<and> hd tok = CHR ''-'' then tl tok else tok)"
  from assms have ok: "takeWhile is_digit body \<noteq> []" "fraction_ok (dropWhile is_digit body)"
    unfolding json_number_def body_def [symmetric] by (auto simp: Let_def)
  then have d: "body \<noteq> []" "is_digit (hd body)" by (cases body; simp split: if_splits)+
  have "list_all (\<lambda>c. \<not> ends_token c) (takeWhile is_digit body)"
    by (rule digits_go_on) (auto simp: list_all_iff dest: set_takeWhileD)
  with fraction_goes_on [OF ok(2)] have "list_all (\<lambda>c. \<not> ends_token c) (takeWhile is_digit body @ dropWhile is_digit body)"
    unfolding list_all_append by simp
  then have "list_all (\<lambda>c. \<not> ends_token c) body" by simp
  with d show ?thesis by (cases tok) (auto simp: body_def starts_token_def ends_token_def split: if_splits)
qed

definition read_back :: "jsrc \<Rightarrow> string \<Rightarrow> bool" where
  "read_back v t \<longleftrightarrow> t \<noteq> [] \<and> hd t \<noteq> CHR '']'' \<and> (\<forall>r n. closes r \<longrightarrow> length t \<le> n \<longrightarrow> read_value n (t @ r) = Some (v, r))"

lemma closes_mark: "closes (CHR '','' # r)" "closes (CHR '']'' # r)" "closes (CHR ''}'' # r)"
  by (simp_all add: closes_def ends_token_def)

lemma read_items_back:
  "list_all2 read_back vs ts \<Longrightarrow> vs \<noteq> [] \<Longrightarrow> length (commas ts) < n \<Longrightarrow> read_items n (commas ts @ CHR '']'' # r) = Some (vs, r)"
proof (induction ts arbitrary: vs n rule: commas.induct)
  case (2 t)
  then obtain v where v: "vs = [v]" "read_back v t" by (auto simp: list_all2_Cons2)
  from 2 obtain n' where "n = Suc n'" by (cases n) simp_all
  with v 2 show ?case by (simp add: read_back_def closes_mark)
next
  case (3 t u us)
  then obtain v vs' where v: "vs = v # vs'" "read_back v t" "list_all2 read_back vs' (u # us)" by (auto simp: list_all2_Cons2)
  from 3(4) obtain n' where n: "n = Suc n'" by (cases n) simp_all
  have "vs' \<noteq> []" using v(3) by auto
  with 3(1) [OF v(3)] 3(4) n have "read_items n' (commas (u # us) @ CHR '']'' # r) = Some (vs', r)" by simp
  with v(1,2) 3(4) n show ?case by (simp add: read_back_def closes_mark)
qed simp

definition member_back :: "string \<times> jsrc \<Rightarrow> string \<Rightarrow> bool" where
  "member_back m t \<longleftrightarrow> (\<exists>b tv. json_spells b (fst m) \<and> read_back (snd m) tv \<and> t = [CHR 0x22] @ b @ [CHR 0x22] @ '':'' @ tv)"

lemma read_members_back:
  "list_all2 member_back ms ts \<Longrightarrow> ms \<noteq> [] \<Longrightarrow> length (commas ts) < n \<Longrightarrow> read_members n (commas ts @ CHR ''}'' # r) = Some (ms, r)"
proof (induction ts arbitrary: ms n rule: commas.induct)
  case (2 t)
  then obtain m b tv where m: "ms = [m]" "json_spells b (fst m)" "read_back (snd m) tv" "t = [CHR 0x22] @ b @ [CHR 0x22] @ '':'' @ tv"
    by (auto simp: list_all2_Cons2 member_back_def)
  from 2 obtain n' where "n = Suc n'" by (cases n) simp_all
  with m 2 show ?case using read_spelled [OF m(2), of "'':'' @ tv @ CHR ''}'' # r"] by (simp add: read_back_def closes_mark)
next
  case (3 t u us)
  then obtain m ms' where ms: "ms = m # ms'" "member_back m t" "list_all2 member_back ms' (u # us)" by (auto simp: list_all2_Cons2)
  from ms(2) obtain b tv where m: "json_spells b (fst m)" "read_back (snd m) tv" "t = [CHR 0x22] @ b @ [CHR 0x22] @ '':'' @ tv"
    by (auto simp: member_back_def)
  from 3(4) obtain n' where n: "n = Suc n'" by (cases n) simp_all
  have "ms' \<noteq> []" using ms(3) by auto
  with 3(1) [OF ms(3)] 3(4) n have "read_members n' (commas (u # us) @ CHR ''}'' # r) = Some (ms', r)" by simp
  with ms(1) m 3(4) n show ?case
    using read_spelled [OF m(1), of "'':'' @ tv @ CHR '','' # commas (u # us) @ CHR ''}'' # r"] by (simp add: read_back_def closes_mark)
qed simp

lemma commas_head: "ts \<noteq> [] \<Longrightarrow> hd ts \<noteq> [] \<Longrightarrow> commas ts \<noteq> [] \<and> hd (commas ts) = hd (hd ts)"
  by (cases ts rule: commas.cases) simp_all

lemma read_back_intro:
  assumes "t = c # cs" "c \<noteq> CHR '']''" "\<And>r n. closes r \<Longrightarrow> length cs \<le> n \<Longrightarrow> read_value (Suc n) (c # cs @ r) = Some (v, r)"
  shows "read_back v t"
proof -
  have "read_value n (t @ r) = Some (v, r)" if "closes r" "length t \<le> n" for r n
    using that assms(3) [of r "n - 1"] by (cases n) (simp_all add: assms(1))
  then show ?thesis by (simp add: read_back_def assms(1,2))
qed

lemma read_array_back:
  assumes "list_all2 read_back vs ts" shows "read_back (SArr vs) (''['' @ commas ts @ '']'')"
proof (rule read_back_intro)
  show "''['' @ commas ts @ '']'' = CHR ''['' # commas ts @ '']''" by simp
  fix r :: string and n assume n: "length (commas ts @ '']'') \<le> n"
  show "read_value (Suc n) (CHR ''['' # (commas ts @ '']'') @ r) = Some (SArr vs, r)"
  proof (cases "vs = []")
    case True
    with assms show ?thesis by simp
  next
    case False
    with assms obtain t ts' where ts: "ts = t # ts'" "t \<noteq> []" "hd t \<noteq> CHR '']''" by (cases vs) (auto simp: list_all2_Cons1 read_back_def)
    with commas_head [of ts] obtain x cs where c: "commas ts = x # cs" "x \<noteq> CHR '']''" by (cases "commas ts") auto
    from n read_items_back [OF assms False, of n r] have "read_items n (x # cs @ CHR '']'' # r) = Some (vs, r)" unfolding c by simp
    then show ?thesis using c by simp
  qed
qed simp

lemma read_object_back:
  assumes "list_all2 member_back ms ts" shows "read_back (SObj ms) (''{'' @ commas ts @ ''}'')"
proof (rule read_back_intro)
  show "''{'' @ commas ts @ ''}'' = CHR ''{'' # commas ts @ ''}''" by simp
  fix r :: string and n assume n: "length (commas ts @ ''}'') \<le> n"
  show "read_value (Suc n) (CHR ''{'' # (commas ts @ ''}'') @ r) = Some (SObj ms, r)"
  proof (cases "ms = []")
    case True
    with assms show ?thesis by simp
  next
    case False
    with assms obtain t ts' where ts: "ts = t # ts'" "t \<noteq> []" "hd t = CHR 0x22" by (cases ms) (auto simp: list_all2_Cons1 member_back_def)
    with commas_head [of ts] obtain cs where c: "commas ts = CHR 0x22 # cs" by (cases "commas ts") auto
    from n read_members_back [OF assms False, of n r] have "read_members n (CHR 0x22 # cs @ CHR ''}'' # r) = Some (ms, r)" unfolding c by simp
    then show ?thesis using c by simp
  qed
qed simp

lemma read_backI: "json_text v t \<Longrightarrow> read_back v t"
proof (induction rule: json_text.induct)
  case (num tok)
  then obtain c cs where c: "tok = c # cs" "starts_token c" and go: "\<And>d. d \<in> set (c # cs) \<Longrightarrow> \<not> ends_token d"
    using number_token_char [of tok] by (cases tok) (auto simp: list_all_iff)
  have cut: "takeWhile (\<lambda>d. \<not> ends_token d) ((c # cs) @ r) = c # cs \<and> dropWhile (\<lambda>d. \<not> ends_token d) ((c # cs) @ r) = r" if "closes r" for r
    using that go unfolding closes_def by (cases r) (simp_all add: takeWhile_append2 dropWhile_append2)
  show ?case
    by (rule read_back_intro [OF c(1)]) (use starts_facts [OF c(2)] cut c in simp_all)
next
  case (arr vs ts)
  then show ?case by (intro read_array_back) (auto elim: list_all2_mono)
next
  case (obj ms ts)
  then show ?case by (intro read_object_back) (unfold member_back_def, elim list_all2_mono, blast)
next
  case (str b s)
  show ?case by (rule read_back_intro [of _ "CHR 0x22" "b @ [CHR 0x22]"]) (simp_all add: read_spelled [OF str])
next
  case null
  show ?case by (rule read_back_intro [of _ "CHR ''n''" "''ull''"]) (simp_all add: starts_token_def is_digit_def)
next
  case true
  show ?case by (rule read_back_intro [of _ "CHR ''t''" "''rue''"]) (simp_all add: starts_token_def is_digit_def)
next
  case false
  show ?case by (rule read_back_intro [of _ "CHR ''f''" "''alse''"]) (simp_all add: starts_token_def is_digit_def)
qed

lemma text_reader_reads: "reads_json text_reader" "cjson_gets text_reader"
proof -
  have "read_value (length t) t = Some (v, [])" if "json_text v t" for v t
    using read_backI [OF that] by (auto simp: read_back_def closes_def dest!: spec [of _ "[]"])
  then show "reads_json text_reader" by (simp add: reads_json_def text_reader_def)
  show "cjson_gets text_reader" using first_named_some first_named_none
    by (auto simp: cjson_gets_def text_reader_def split: option.split)
qed

end
