(* ===== verification/Json_Laws.thy ===== *)
theory Json_Laws
  imports Json_Reader
begin

text \<open>
  Properties of the JSON loader and serializer: what was saved is read back, and a transient's duration is the integer its
  token in the text spells.
\<close>

section \<open>What the reader gives\<close>

text \<open>
  A tree cJSON gives for a text without control characters other than blanks is what the text up to the end it reports
  spells (\<open>reads_soundly\<close>); that it reads the compact texts of the grammar is \<open>reads_json\<close>. \<open>reads_text\<close> is what it gives
  for one text.
\<close>

definition reads_text :: "cjson \<Rightarrow> jsrc \<Rightarrow> string \<Rightarrow> bool" where
  "reads_text C v t \<longleftrightarrow> cj_parse C t = CjTree (tree_of v) (Some (length t))"

definition plain_text :: "string \<Rightarrow> bool" where
  "plain_text t \<longleftrightarrow> list_all (\<lambda>c. 32 \<le> (of_char c :: nat) \<or> is_blank c) t \<and> take 3 t \<noteq> [CHR 0xEF, CHR 0xBB, CHR 0xBF]"

definition reads_soundly :: "cjson \<Rightarrow> bool" where
  "reads_soundly C \<longleftrightarrow> (\<forall>t root e. plain_text t \<longrightarrow> cj_parse C t = CjTree root (Some e) \<longrightarrow>
     (\<exists>v. root = tree_of v \<and> src_text v (take e t)))"

definition document_text :: "document \<Rightarrow> string" where
  "document_text doc = drop_terminator (map (\<lambda>b. char_of (unat b)) doc)"

lemma byte_char: "char_of (unat (of_nat (of_char c) :: 8 word)) = c"
proof -
  have "(of_char c :: nat) < 256" by (rule nat_of_char_less_256)
  then have "unat (of_nat (of_char c) :: 8 word) = of_char c" by (simp add: unat_of_nat)
  then show ?thesis by simp
qed

lemma saved_text: "map (\<lambda>b. char_of (unat b)) (serialize_controller_config df c) = config_text df c"
  by (simp add: serialize_controller_config_def comp_def byte_char)

lemma saved_terminator: "drop_terminator (config_text df c) = config_text df c"
  by (simp add: drop_terminator_def config_text_def)

lemma saved_reads_back:
  assumes "limits_ok L" and valid: "vr_ok (validate_config L c)" and "cjson_gets C" and "reads_text C (config_src df c) (config_text df c)"
    and fits: "length (config_text df c) \<le> max_json_bytes" "preflight_input (config_text df c) = PreflightOk"
  shows "parse_controller_config C L df (serialize_controller_config df c) = \<lparr>cf_configuration = Some c, cf_diagnostic = None\<rparr>"
proof -
  have "src_text (config_src df c) (config_text df c)"
    using src_print_text [OF config_tokens [OF valid], of df] by (simp add: config_print)
  with assms have "load_document C L df (config_text df c) = Inr c" by (intro read_document) (simp_all add: reads_text_def)
  with fits show ?thesis
    by (simp add: parse_controller_config_def saved_text parse_text_def saved_terminator Let_def load_result_def)
qed

section \<open>A document and its reader\<close>

definition pulse_document :: controller_config where
  "pulse_document = \<lparr>cc_version = 1, cc_pixel_count = 120, cc_actions = [''a''], cc_rules = [],
     cc_outputs = [LedTransientOutput \<lparr>pzb_action = ''a'', pzb_zone = \<lparr>pz_start = 0, pz_length = 4, pz_direction = CenterOut\<rparr>,
       pzb_color = \<lparr>pr_red = 1, pr_green = 2, pr_blue = 3\<rparr>, pzb_priority = 9, ptb_duration_ms = 250\<rparr>]\<rparr>"

definition yaml_defaults :: config_defaults where
  "yaml_defaults = \<lparr>df_effect_priority = 100, df_fill_priority = 100, df_transient_priority = 100, df_solid_priority = 100, df_pixel_count = 100\<rparr>"

definition one_text_reader :: "jsrc \<Rightarrow> string \<Rightarrow> cjson" where
  "one_text_reader v t = \<lparr>cj_parse = (\<lambda>u. if u = t then CjTree (tree_of v) (Some (length t)) else CjFailed False), cj_get = first_named\<rparr>"

lemma one_text_reader_facts:
  "cjson_gets (one_text_reader v t)" "reads_text (one_text_reader v t) v t" "src_text v t \<Longrightarrow> reads_soundly (one_text_reader v t)"
  using first_named_some first_named_none
  by (auto simp: cjson_gets_def one_text_reader_def reads_text_def reads_soundly_def split: option.split)

lemma pulse_valid: "vr_ok (validate_config yaml_limits pulse_document)"
  by (simp add: validate_config_ok pulse_document_def yaml_limits_def yaml_zone_limits_def in_range_def schema_version_def action_error_def
      output_error_def is_declared_def name_of_def direction_names_def zone_error_def zone_binding_error_def has_earlier_binding_def
      max_led_count_def)

lemma pulse_text: "config_text yaml_defaults pulse_document =
  ''{\"version\":1,\"sinks\":{\"local_argb\":{\"pixel_count\":120}},\"actions\":[{\"name\":\"a\"}],\"rules\":[],\"outputs\":['' @
  ''{\"type\":\"led_transient\",\"action\":\"a\",\"zone\":{\"start\":0,\"length\":4,\"direction\":\"center_out\"},'' @
  ''\"color\":{\"red\":1,\"green\":2,\"blue\":3},\"duration_ms\":250,\"priority\":9}]}''"
  by code_simp

lemma pulse_fits: "preflight_input (config_text yaml_defaults pulse_document) = PreflightOk"
  "length (config_text yaml_defaults pulse_document) \<le> max_json_bytes"
  unfolding pulse_text by code_simp+

lemma pulse_reads_back:
  "parse_controller_config (one_text_reader (config_src yaml_defaults pulse_document) (config_text yaml_defaults pulse_document)) yaml_limits
     yaml_defaults (serialize_controller_config yaml_defaults pulse_document) = \<lparr>cf_configuration = Some pulse_document, cf_diagnostic = None\<rparr>"
  by (rule saved_reads_back [OF yaml_limits_ok pulse_valid one_text_reader_facts(1,2) pulse_fits(2,1)])

text \<open>A configuration whose names need escapes and a rule that compares with a choice.\<close>

definition quoted_document :: controller_config where
  "quoted_document = \<lparr>cc_version = 1, cc_pixel_count = 100, cc_actions = [[CHR 0x22, CHR ''b'', CHR 0x5C, CHR 0x0A, CHR 0x01]],
     cc_rules = [PersistedState \<lparr>psr_action = [CHR 0x22, CHR ''b'', CHR 0x5C, CHR 0x0A, CHR 0x01], psr_condition = \<lparr>pc_key = ''door'',
       pc_comparison = CmpEqual, pc_operand = PChoice ''open''\<rparr>, psr_freshness = ReqFresh\<rparr>], cc_outputs = []\<rparr>"

lemma quoted_valid: "vr_ok (validate_config yaml_limits quoted_document)"
  by code_simp

lemma quoted_fits: "preflight_input (config_text yaml_defaults quoted_document) = PreflightOk"
  "length (config_text yaml_defaults quoted_document) \<le> max_json_bytes"
  by code_simp+

text \<open>C10: A saved configuration is the one that was saved. For every valid configuration, the text
  \<open>serialize_controller_config\<close> writes (strings escaped, floats with nine significant digits, the pixel count only where it
  is not the default) is loaded by \<open>parse_controller_config\<close> as the same configuration, every float bit for bit, with no
  diagnostic, where the text passes the size limit and the preflight. Of cJSON it needs only the grammar of JSON: that it
  reads a compact JSON text as the tree the text spells, whoever wrote it, and finds members by name.\<close>

theorem saved_configuration_reads_back:
  assumes "limits_ok L" and "vr_ok (validate_config L c)" and "cjson_gets C" and "reads_json C"
    and "length (config_text df c) \<le> max_json_bytes" and "preflight_input (config_text df c) = PreflightOk"
  shows "parse_controller_config C L df (serialize_controller_config df c) = \<lparr>cf_configuration = Some c, cf_diagnostic = None\<rparr>"
proof -
  from assms config_json_text [OF assms(1,2), of df] have "reads_text C (config_src df c) (config_text df c)"
    by (simp add: reads_json_def reads_text_def)
  with assms show ?thesis by (intro saved_reads_back)
qed

theorem saved_configuration_reads_back_witness:
  "parse_controller_config text_reader yaml_limits yaml_defaults (serialize_controller_config yaml_defaults quoted_document) =
     \<lparr>cf_configuration = Some quoted_document, cf_diagnostic = None\<rparr>"
  by (rule saved_configuration_reads_back [OF yaml_limits_ok quoted_valid text_reader_reads(2,1) quoted_fits(2,1)])

section \<open>Durations\<close>

lemma structural_refused: "structural code path message \<noteq> Inr x" "refuse category code path message error index \<noteq> Inr x"
  by (simp_all add: structural_def refuse_def)

lemma parse_items_entry:
  "parse_items item name k j vs = Inr es \<Longrightarrow> i < length es \<Longrightarrow>
     i < length vs \<and> (\<exists>ms path. vs ! i = JObject ms \<and> item [k, j + i] ms path = Inr (es ! i))"
proof (induction vs arbitrary: j es i)
  case (Cons v vs)
  then obtain e es' ms where e: "es = e # es'" "v = JObject ms" "item [k, j] ms (indexed_path name j) = Inr e" "parse_items item name k (Suc j) vs = Inr es'"
    by (auto simp: Let_def and_then_Inr require_object_def structural_refused split: sum.splits json.splits)
  show ?case
  proof (cases i)
    case 0
    with e show ?thesis by auto
  next
    case (Suc i')
    with Cons.IH [OF e(4), of i'] Cons.prems(2) e(1) show ?thesis by simp
  qed
qed simp

lemma parse_output_transient:
  assumes "parse_output C L df doc p ms path = Inr (LedTransientOutput b)"
  shows "\<exists>k d path. optional_field C ms ''duration_ms'' = Some (k, d) \<and> parse_duration L doc d (p @ [k]) path = Inr (ptb_duration_ms b)"
  using assms
  by (auto simp: parse_output_def and_then_Inr required_field_def structural_refused split: output_type.splits option.splits) (metis output_type.exhaust)+

lemma parse_duration_token:
  assumes "parse_duration L doc v p path = Inr i"
  shows "\<exists>x j. v = JNumber x \<and> number_index (sd_root doc) (Some p) 0 = (True, j) \<and> from_chars (number_token (sd_text doc) j) = Some (i, [])"
  using assms by (auto simp: parse_duration_def json_is_number_def Let_def structural_refused split: if_splits json.splits prod.splits option.splits)

lemma load_document_outputs:
  assumes "load_document C L df t = Inr config"
  shows "\<exists>ms e. cj_parse C t = CjTree (JObject ms) (Some e) \<and> list_all is_blank (drop e t) \<and>
     parse_array C ms ''outputs'' (parse_output C L df \<lparr>sd_root = JObject ms, sd_text = t\<rparr>) = Inr (cc_outputs config)"
proof -
  from assms obtain root ms where root: "parse_root C t = Inr (root, ms)"
    and os: "parse_array C ms ''outputs'' (parse_output C L df \<lparr>sd_root = root, sd_text = t\<rparr>) = Inr (cc_outputs config)"
    by (auto simp: load_document_def and_then_Inr Let_def structural_refused split: if_splits prod.splits)
  from root have "root = JObject ms" "\<exists>e. cj_parse C t = CjTree root (Some e) \<and> list_all is_blank (drop e t)"
    by (auto simp: parse_root_def structural_refused split: cj_outcome.splits option.splits if_splits json.splits)
  with os show ?thesis by blast
qed

lemma parse_array_entry:
  assumes "cjson_gets C" and "parse_array C ms name item = Inr es" and "i < length es"
  shows "\<exists>k vs ms' path. k < length ms \<and> ms ! k = (name, JArray vs) \<and> i < length vs \<and> vs ! i = JObject ms' \<and> item [k, i] ms' path = Inr (es ! i)"
proof -
  from assms(2,3) obtain k vs where k: "optional_field C ms name = Some (k, JArray vs)" "parse_items item name k 0 vs = Inr es"
    by (auto simp: parse_array_def and_then_Inr require_array_def structural_refused split: option.splits json.splits)
  from optional_field_some [OF assms(1) k(1)] parse_items_entry [OF k(2) assms(3)] show ?thesis by auto
qed

lemma blank_closes: "list_all is_blank r \<Longrightarrow> closes r"
  by (cases r) (auto simp: closes_def is_blank_def ends_token_def)

lemma tree_source: "tree_of v = JObject ms \<longleftrightarrow> (\<exists>us. v = SObj us \<and> ms = tree_members us)" "tree_of v = JArray vs \<longleftrightarrow> (\<exists>us. v = SArr us \<and> vs = map tree_of us)"
  "tree_of v = JNumber x \<longleftrightarrow> (\<exists>tok. v = SNum tok \<and> x = token_double tok)"
  by (cases v; auto simp: tree_of.simps tree_members_def)+

lemma tree_members_nth: "k < length (tree_members us) \<Longrightarrow> tree_members us ! k = (n, w) \<Longrightarrow> \<exists>v. k < length us \<and> us ! k = (n, v) \<and> w = tree_of v"
  by (cases "us ! k") (simp add: tree_members_def)

lemma tree_members_array: "k < length (tree_members us) \<Longrightarrow> tree_members us ! k = (n, JArray vs) \<Longrightarrow>
    \<exists>os. k < length us \<and> us ! k = (n, SArr os) \<and> vs = map tree_of os"
  by (drule (1) tree_members_nth, elim exE conjE, drule sym, simp only: tree_source) blast

lemma tree_members_number: "k < length (tree_members us) \<Longrightarrow> tree_members us ! k = (n, JNumber x) \<Longrightarrow> \<exists>tok. k < length us \<and> us ! k = (n, SNum tok)"
  by (drule (1) tree_members_nth, elim exE conjE, drule sym, simp only: tree_source) blast

text \<open>C13: A transient's duration is never the rounded, scaled or truncated reading of a number: in every configuration the loader
  accepts from a text without a byte order mark and without control characters other than blanks, the milliseconds of a transient output are the integer that the \<open>duration_ms\<close> token of that output spells in the
  text, all of the token, found by counting the number tokens before it, whatever strings, escapes and numbers precede it.\<close>

theorem duration_is_the_source_token:
  assumes load: "parse_controller_config C L df doc = \<lparr>cf_configuration = Some config, cf_diagnostic = None\<rparr>"
    and i: "i < length (cc_outputs config)" "cc_outputs config ! i = LedTransientOutput b"
    and C: "cjson_gets C" "reads_soundly C" and plain: "plain_text (document_text doc)"
  shows "\<exists>root e os ms tok. src_text (SObj root) (take e (document_text doc)) \<and> (''outputs'', SArr os) \<in> set root \<and> i < length os \<and>
    os ! i = SObj ms \<and> (''duration_ms'', SNum tok) \<in> set ms \<and> from_chars tok = Some (ptb_duration_ms b, [])"
proof -
  let ?t = "document_text doc"
  from load have "load_document C L df ?t = Inr config"
    by (auto simp: parse_controller_config_def load_result_def parse_text_def document_text_def Let_def refuse_def
      split: sum.splits if_splits input_preflight.splits)
  from load_document_outputs [OF this] obtain jms e where p: "cj_parse C ?t = CjTree (JObject jms) (Some e)" "list_all is_blank (drop e ?t)"
    "parse_array C jms ''outputs'' (parse_output C L df \<lparr>sd_root = JObject jms, sd_text = ?t\<rparr>) = Inr (cc_outputs config)" by blast
  from C(2) plain p(1) obtain root where root: "JObject jms = tree_of (SObj root)" "src_text (SObj root) (take e ?t)" "jms = tree_members root"
    unfolding reads_soundly_def by (metis tree_source(1))
  from parse_array_entry [OF C(1) p(3) i(1)] obtain k vs ms' path where o: "k < length jms" "jms ! k = (''outputs'', JArray vs)" "i < length vs"
    "vs ! i = JObject ms'" "parse_output C L df \<lparr>sd_root = JObject jms, sd_text = ?t\<rparr> [k, i] ms' path = Inr (LedTransientOutput b)"
    unfolding i(2) by blast
  from tree_members_array [OF o(1,2) [unfolded root(3)]] obtain os where os: "k < length root" "root ! k = (''outputs'', SArr os)" "vs = map tree_of os"
    by blast
  with o(3,4) obtain ms where ms: "i < length os" "os ! i = SObj ms" "ms' = tree_members ms" by (auto simp: tree_source)
  from parse_output_transient [OF o(5)] obtain d w path where d: "optional_field C ms' ''duration_ms'' = Some (d, w)"
    "parse_duration L \<lparr>sd_root = JObject jms, sd_text = ?t\<rparr> w [k, i, d] path = Inr (ptb_duration_ms b)" by auto
  from parse_duration_token [OF d(2)] obtain x j where x: "w = JNumber x" "number_index (JObject jms) (Some [k, i, d]) 0 = (True, j)"
    "from_chars (number_token ?t j) = Some (ptb_duration_ms b, [])" by auto
  from optional_field_some [OF C(1) d(1)] tree_members_number obtain tok where tok: "d < length ms" "ms ! d = (''duration_ms'', SNum tok)"
    unfolding ms(3) x(1) by blast
  have "src_at (SObj root) [k, i, d] = Some (SNum tok)" using os ms tok by simp
  from node_token [OF root(2) this blank_closes [OF p(2)]] x(2,3) have "from_chars tok = Some (ptb_duration_ms b, [])"
    by (simp add: root(1))
  moreover have "(''outputs'', SArr os) \<in> set root" "(''duration_ms'', SNum tok) \<in> set ms"
    using nth_mem [OF os(1)] nth_mem [OF tok(1)] by (simp_all only: os(2) tok(2))
  ultimately show ?thesis using root(2) ms(1,2) by blast
qed

lemma pulse_plain: "plain_text (config_text yaml_defaults pulse_document)"
  unfolding pulse_text by code_simp

theorem duration_is_the_source_token_witness:
  "\<exists>root e os ms tok. src_text (SObj root) (take e (config_text yaml_defaults pulse_document)) \<and> (''outputs'', SArr os) \<in> set root \<and>
     0 < length os \<and> os ! 0 = SObj ms \<and> (''duration_ms'', SNum tok) \<in> set ms \<and> from_chars tok = Some (250, [])"
proof -
  let ?t = "config_text yaml_defaults pulse_document"
  have doc: "document_text (serialize_controller_config yaml_defaults pulse_document) = ?t"
    by (simp add: document_text_def saved_text saved_terminator)
  have "src_text (config_src yaml_defaults pulse_document) ?t"
    using src_print_text [OF config_tokens [OF pulse_valid], of yaml_defaults] by (simp add: config_print)
  note reader = one_text_reader_facts(1) [of "config_src yaml_defaults pulse_document" ?t] one_text_reader_facts(3) [OF this]
  have "cc_outputs pulse_document ! 0 = LedTransientOutput \<lparr>pzb_action = ''a'', pzb_zone = \<lparr>pz_start = 0, pz_length = 4, pz_direction = CenterOut\<rparr>,
       pzb_color = \<lparr>pr_red = 1, pr_green = 2, pr_blue = 3\<rparr>, pzb_priority = 9, ptb_duration_ms = 250\<rparr>" "0 < length (cc_outputs pulse_document)"
    by (simp_all add: pulse_document_def)
  from duration_is_the_source_token [OF pulse_reads_back this(2,1) reader, unfolded doc, OF pulse_plain] show ?thesis by simp
qed

end
