(* ===== verification/Spec2Isabelle.thy ===== *)
theory Spec2Isabelle
  imports Range_Mapping Engine_On_Profile Channel_Laws Companion_Link_Laws Led_Bindings_Laws Stall_Gate_Laws Persisted_Apply_Laws
    Config_Store_Laws Live_Signals_Laws Live_Stream_Laws
    Extensible_Live_Laws Mazda_Laws Json_Laws
begin

text \<open>
A verification development of the Mazda CAN accessory controller: C++ firmware that turns decoded vehicle
  signals into LED effects, is configured by a stored document, and is served to a phone over BLE.

  How the program works. A vehicle profile receives CAN frames, commits decoded samples and answers reads
  (\<open>lib/vehicle_profile_runtime\<close>); changes go to bounded notification channels (\<open>lib/signal_notification\<close>). The
  action engine (\<open>lib/action_engine\<close>) subscribes to a provider, evaluates its rules on notices and on samples,
  and executes action commands on its sinks. The LED adapter (\<open>components/local_argb_actions\<close>) is such a sink: it
  holds what each action drives and publishes a complete lighting command; the renderer
  (\<open>components/local_argb\<close>) composes frames from it and writes them to the strip, behind a stall gate and a
  watchdog that fail the strip off. Which rules and outputs exist is a persisted document
  (\<open>components/controller_config\<close>), validated, stored in two NVS slots and applied at boot; the companion
  protocol (\<open>lib/companion_protocol\<close>) uploads documents in chunks and tells the phone the configuration status.

  Theories and what they model (source paths are under \<open>src/\<close>):

  Prelude: machine integers as words, bounded arrays as lists with a capacity, shared list and word lemmas, the
  collections \<open>inv_intros\<close> and \<open>step_simps\<close>.

  Float32: C++ \<open>float\<close> as IEEE binary32 bit patterns with comparison and correctly rounded addition,
  subtraction, multiplication and division, on which Conditions, Rules and Range_Mapping rest.

  Signals, Conditions, Rules, Engine: \<open>lib/vehicle_signals\<close> and \<open>lib/action_engine\<close> - values, readings,
  catalogs, conditions and their resolution, state, event, range and sampled rules, the bounded collections,
  the engine with attach, detach, notices and samples. Engine_Reach has the step relation over its operations
  and the invariants; Engine_Properties states what sinks are told; Range_Mapping that the linear mapping, as binary32
  computes it, is monotone and bounded, from which Engine_Properties has the levels that sampling passes send.

  Channel, Channel_Laws: \<open>lib/signal_notification\<close> - the latest-state channel, with a dispatch split at its
  callback so that publications come in between.

  Profile_State, Profile_Notify and their Laws and Properties: \<open>lib/vehicle_profile_runtime\<close> - the generic
  provider over its signal table: watermarks, commits, freshness, faults, registrations and tokens. Freshness is stated
  over histories: which service pass reports a stale signal after a commit, whatever passes and frames come between.
  Engine_On_Profile puts the engine on this provider: the locale \<open>signal_provider\<close> (Engine) states what an
  engine needs of a provider, and \<open>prov\<close> interprets it on the profile provider.

  Led_Zone, Renderer, Renderer_Laws, Controller_Laws, Renderer_Properties: zones and the strip renderer of
  \<open>components/local_argb\<close> with its layers, animations and one-shot effects, its belief about the strip and its
  fail-off. Stall_Gate and Stall_Gate_Laws: the tasks around it (publishers, supervisor, worker, restart) as
  interleaved atomic steps. Led_Bindings and its Laws: the LED adapter; after any history of commands each field of the
  snapshot it publishes is a function of that history.

  Persisted_Config, Persisted_Apply and their Laws: the persisted document, its validation and its application
  with the factory fallback. Config_Store and its Laws: the NVS backend, saving, clearing and the choice of
  the boot configuration.

  Json_Load, Json_Save: the JSON loader and serializer of the document over the third-party reader cJSON, floats as
  \<open>%.9g\<close> text. Json_Numbers shows that such a text read by a correctly rounding reader is the float again, Json_Text that
  \<open>number_token\<close> finds the token of a node, Json_Source, Json_Config and Json_Round that what is printed is parsed to
  itself. Json_Reader has the grammar of compact JSON texts (\<open>json_text\<close>), proves the saved text to be one of them, and a
  reader of the grammar as a function; Json_Laws has the properties.

  Bytes, Config_Status, Config_Transfer, Companion_Link and their Laws: \<open>lib/companion_protocol\<close> - CRC-32,
  the status and read-back encodings, the transfer state machine, and the access rules of the link.

  Utf8, Signal_Catalog and its Laws: the catalogs a companion downloads in pages, with the client's decoder in the
  laws. Live_Signals with Live_Signals_Laws and Live_Stream_Laws: the fixed live frame and its pacing.
  Extensible_Live and its Laws: the catalog-keyed packets and their round robin.

  Mazda_State, Mazda_Decode, Mazda_Laws: \<open>lib/mazda\<close> - the vehicle state with its message records and the
  decoders; what a decoded frame does to each signal is stated with the raw number at the bits of its reviewed
  definition. \<open>vehicle_core::Signal\<close> is a parameter.

  What the lemmas show. For each state machine an invariant over every history of its operations (\<open>engine_reach\<close>,
  the channel, provider, transfer, renderer and runtime histories), proved by rule induction; for each operation
  its functional behaviour on every branch; refinement of abstract views (the strip shows the painter's
  composition of the lit layers, the sinks know the level of every action, the store holds the old or the new
  document); round trips of the encodings and tokens; bounds of capacities, levels and deadlines.

  Bounds. Integers keep their width where the code can wrap (\<open>u8\<close>, \<open>u16\<close>, \<open>u32\<close>, \<open>u64\<close> words), sizes and indices
  below a capacity are naturals, and persisted 64-bit integers, which the code only compares before they are
  narrowed, are integers. No definition of the model uses fuel: loops recurse on the lists they walk. The
  reader of Json_Reader, an instance of the cJSON hypotheses, takes the length of the text as fuel, which is enough for
  every text of the grammar (\<open>text_reader_reads\<close>).

  Parameters and hypotheses. The LED driver (\<open>driver_contract\<close>), the NVS interface (\<open>nvs_contract\<close>: a read tells
  what the handle sees, a write touches only its key and may be torn, a successful commit makes what the handle
  sees durable), the configuration sink of a transfer (\<open>sink_contract\<close>), the JSON reader cJSON
  (\<open>cjson_gets\<close>: members are found by name, \<open>reads_json\<close>: a text of the grammar is read as the tree it spells,
  \<open>reads_soundly\<close>: a tree it returns is spelled by the text), the clock, and the limits generated from
  \<open>output_catalog.yaml\<close> (\<open>limits_ok\<close>) are parameters; each hypothesis has a
  concrete instance in the witness of the property that uses it.

  Not modelled. FreeRTOS task creation, logging and the peripheral drivers (pure I/O); mutexes, as each locked
  operation is one atomic step; the NimBLE glue; the
  FreeRTOS tasks of the telemetry facade and of the profile service; the adapter between the transfer and the stored
  configuration (\<open>components/companion_config\<close>); the host replay tools; enum values that are not enumerators, which
  \<open>validate_zone\<close> refuses as \<open>UnknownDirection\<close>; the
  conversion of raw frame fields to numbers (\<open>extract.cpp\<close>), which uses the target's \<open>long double\<close>; Python
  generators and generated tables.
\<close>

end
